(* ===== verification/Dit_Prelude.thy ===== *)
theory Dit_Prelude
  imports Main "HOL-Library.AList" "HOL-Library.List_Lexorder" "HOL-Library.Word"
begin

text \<open>
  Prelude of the development: the Python values every component shares.

  \<^item> A Python \<open>str\<close> is the list of its code points (\<open>pystr\<close>); \<open>str ''abc''\<close> writes
    an ASCII literal. Code points compare as numbers, so Python's string order is the
    lexicographic order of \<open>HOL-Library.List_Lexorder\<close>.
  \<^item> A Python \<open>bytes\<close> is a list of 8-bit words.
  \<^item> A Python \<open>dict\<close> is an association list with distinct keys in insertion order:
    \<open>AList.update\<close> keeps the position of a key that is there and appends a new one,
    as \<open>d[k] = v\<close> does; \<open>AList.delete\<close> is \<open>d.pop(k, None)\<close>.
  \<^item> A raised exception is \<open>Inl e\<close> of a result type \<open>err + 'a\<close>; messages are not modelled.
\<close>

named_theorems res_simps "equations for results and their sequencing"
named_theorems dict_simps "equations for dictionaries as association lists"

section \<open>Strings and bytes\<close>

type_synonym pystr = "nat list"
type_synonym bytes = "8 word list"

definition str :: "string \<Rightarrow> pystr" where
  "str s = map of_char s"

lemma str_eq_iff [simp]: "str s = str t \<longleftrightarrow> s = t"
  by (simp add: str_def inj_map_eq_map [OF inj_of_char])

lemma length_str [simp]: "length (str s) = length s"
  by (simp add: str_def)

lemma str_Nil [simp]: "str [] = []"
  by (simp add: str_def)

lemma str_Nil_iff [simp]: "str s = [] \<longleftrightarrow> s = []"  "[] = str s \<longleftrightarrow> s = []"
  by (auto simp: str_def)

text \<open>Python truthiness of an optional string: \<open>None\<close> and \<open>""\<close> are false.\<close>

fun truthy :: "pystr option \<Rightarrow> bool" where
  "truthy None = False"
| "truthy (Some s) = (s \<noteq> [])"

definition py_startswith :: "pystr \<Rightarrow> pystr \<Rightarrow> bool" where
  "py_startswith s p \<longleftrightarrow> take (length p) s = p"

lemma py_startswith_iff: "py_startswith s p \<longleftrightarrow> (\<exists>r. s = p @ r)"
  by (auto simp: py_startswith_def) (metis append_take_drop_id)

lemma py_startswith_append [simp]: "py_startswith (p @ r) p"
  by (simp add: py_startswith_def)

lemma py_startswith_Nil [simp]: "py_startswith s []"
  by (simp add: py_startswith_def)

text \<open>The character \<open>/\<close> and the operations of \<open>str\<close> on it.\<close>

abbreviation slash :: nat where "slash \<equiv> 47"

definition lstrip_slash :: "pystr \<Rightarrow> pystr" where
  "lstrip_slash s = dropWhile (\<lambda>c. c = slash) s"

definition strip_slash :: "pystr \<Rightarrow> pystr" where
  "strip_slash s = rev (lstrip_slash (rev (lstrip_slash s)))"

text \<open>\<open>s.split("/")\<close>: the pieces between slashes; \<open>"".split("/")\<close> is \<open>[""]\<close>.\<close>

fun split_slash :: "pystr \<Rightarrow> pystr list" where
  "split_slash [] = [[]]"
| "split_slash (c # s) =
     (if c = slash then [] # split_slash s
      else (case split_slash s of [] \<Rightarrow> [[c]] | w # ws \<Rightarrow> (c # w) # ws))"

lemma split_slash_not_Nil [simp]: "split_slash s \<noteq> []"
  by (cases s) (auto split: list.splits)

text \<open>\<open>"/".join(ws)\<close>.\<close>

fun join_slash :: "pystr list \<Rightarrow> pystr" where
  "join_slash [] = []"
| "join_slash [w] = w"
| "join_slash (w # v # ws) = w @ slash # join_slash (v # ws)"

lemma join_slash_Cons: "ws \<noteq> [] \<Longrightarrow> join_slash (w # ws) = w @ slash # join_slash ws"
  by (cases ws) auto

lemma join_split_slash [simp]: "join_slash (split_slash s) = s"
proof (induction s)
  case (Cons c s)
  then show ?case
  proof (cases "split_slash s")
    case (Cons w ws)
    with Cons.IH show ?thesis
      by (cases ws) (auto simp: join_slash_Cons)
  qed simp
qed simp

lemma split_slash_append:
  "slash \<notin> set w \<Longrightarrow> split_slash (w @ slash # s) = w # split_slash s"
  by (induction w) auto

lemma split_slash_single: "slash \<notin> set w \<Longrightarrow> split_slash w = [w]"
  by (induction w) auto

lemma split_join_slash:
  "ws \<noteq> [] \<Longrightarrow> (\<And>w. w \<in> set ws \<Longrightarrow> slash \<notin> set w) \<Longrightarrow> split_slash (join_slash ws) = ws"
  by (induction ws rule: join_slash.induct) (auto simp: split_slash_append split_slash_single)

lemma split_slash_no_slash: "w \<in> set (split_slash s) \<Longrightarrow> slash \<notin> set w"
  by (induction s arbitrary: w) (force split: if_splits list.splits)+

section \<open>Errors as values\<close>

text \<open>
  The exceptions the modelled code raises or lets through. \<open>Malformed\<close> is the one
  addition: a JSON value of a type the dataclass field does not declare, which Python
  would carry along untyped. \<open>Out_of_fuel\<close> marks a fuel-bounded loop that ran out; every
  component that uses fuel proves it unreachable; \<open>Deadlock\<close> a wait that never ends. \<open>HTTPException\<close> carries the status code,
  \<open>ExitCode\<close> the CLI's exit code.
\<close>

datatype err =
    ValueError | KeyError | TypeError | AttributeError | IndexError
  | FileNotFoundError | OSError | TimeoutError | RecursionError
  | JSONDecodeError | UnicodeDecodeError | UnicodeEncodeError | ZstdError
  | YAMLError | TOMLDecodeError | IntegrityError | MultipleResultsFound
  | Malformed | Out_of_fuel | Deadlock
  | HTTPException nat | ExitCode nat

type_synonym 'a res = "err + 'a"

definition bindE :: "'e + 'a \<Rightarrow> ('a \<Rightarrow> 'e + 'b) \<Rightarrow> 'e + 'b" where
  "bindE m f = (case m of Inl e \<Rightarrow> Inl e | Inr x \<Rightarrow> f x)"

lemma bindE_simps [simp, res_simps]:
  "bindE (Inl e) f = Inl e"
  "bindE (Inr x) f = f x"
  by (simp_all add: bindE_def)

lemma bindE_eq_Inr [res_simps]: "bindE m f = Inr y \<longleftrightarrow> (\<exists>x. m = Inr x \<and> f x = Inr y)"
  by (cases m) auto

lemma bindE_eq_Inl [res_simps]:
  "bindE m f = Inl e \<longleftrightarrow> m = Inl e \<or> (\<exists>x. m = Inr x \<and> f x = Inl e)"
  by (cases m) auto

lemma bindE_assoc: "bindE (bindE m f) g = bindE m (\<lambda>x. bindE (f x) g)"
  by (cases m) auto

lemma bindE_cong [fundef_cong]:
  "m = m' \<Longrightarrow> (\<And>x. m' = Inr x \<Longrightarrow> f x = f' x) \<Longrightarrow> bindE m f = bindE m' f'"
  by (cases m') auto

text \<open>\<open>[f(x) for x in xs]\<close>, where \<open>f\<close> may raise.\<close>

primrec mapE :: "('a \<Rightarrow> 'e + 'b) \<Rightarrow> 'a list \<Rightarrow> 'e + 'b list" where
  "mapE f [] = Inr []"
| "mapE f (x # xs) = bindE (f x) (\<lambda>y. bindE (mapE f xs) (\<lambda>ys. Inr (y # ys)))"

lemma mapE_cong [fundef_cong]:
  "xs = ys \<Longrightarrow> (\<And>x. x \<in> set ys \<Longrightarrow> f x = g x) \<Longrightarrow> mapE f xs = mapE g ys"
  by (induction xs arbitrary: ys) auto

lemma mapE_Inr [simp]: "mapE (\<lambda>x. Inr (f x)) xs = Inr (map f xs)"
  by (induction xs) auto

lemma mapE_map: "mapE f (map g xs) = mapE (\<lambda>x. f (g x)) xs"
  by (induction xs) auto

lemma mapE_all_Inr: "(\<And>x. x \<in> set xs \<Longrightarrow> f x = Inr (g x)) \<Longrightarrow> mapE f xs = Inr (map g xs)"
  by (induction xs) auto

lemma mapE_eq_Inr: "mapE f xs = Inr ys \<longleftrightarrow> list_all2 (\<lambda>x y. f x = Inr y) xs ys"
  by (induction xs arbitrary: ys) (auto simp: bindE_eq_Inr list_all2_Cons1)

text \<open>\<open>for x in xs: s = f(x, s)\<close>, where the body may raise.\<close>

primrec foldE :: "('a \<Rightarrow> 's \<Rightarrow> 'e + 's) \<Rightarrow> 'a list \<Rightarrow> 's \<Rightarrow> 'e + 's" where
  "foldE f [] s = Inr s"
| "foldE f (x # xs) s = bindE (f x s) (foldE f xs)"

lemma foldE_cong [fundef_cong]:
  "xs = ys \<Longrightarrow> s = t \<Longrightarrow> (\<And>x u. x \<in> set ys \<Longrightarrow> f x u = g x u) \<Longrightarrow> foldE f xs s = foldE g ys t"
proof (induction xs arbitrary: ys s t)
  case (Cons x xs)
  then have "foldE f xs = foldE g xs" by (intro ext) auto
  with Cons.prems show ?case by (auto cong: bindE_cong)
qed auto

lemma foldE_append: "foldE f (xs @ ys) s = bindE (foldE f xs s) (foldE f ys)"
  by (induction xs arbitrary: s) (simp_all add: bindE_assoc cong: bindE_cong)

lemma foldE_invariant:
  assumes "foldE f xs s = Inr t" and "P s"
    and "\<And>x s s'. x \<in> set xs \<Longrightarrow> P s \<Longrightarrow> f x s = Inr s' \<Longrightarrow> P s'"
  shows "P t"
  using assms
proof (induction xs arbitrary: s)
  case (Cons x xs)
  from Cons.prems(1) obtain u where u: "f x s = Inr u" "foldE f xs u = Inr t"
    by (auto simp: bindE_eq_Inr)
  have "P u" using Cons.prems(2,3) u(1) by auto
  with Cons.IH [OF u(2)] Cons.prems(3) show ?case by auto
qed auto

lemma foldE_Inr [simp]: "foldE (\<lambda>x s. Inr (f x s)) xs s = Inr (fold f xs s)"
  by (induction xs arbitrary: s) auto

section \<open>Dictionaries\<close>

type_synonym 'v dict = "(pystr \<times> 'v) list"

definition dict_keys :: "('k \<times> 'v) list \<Rightarrow> 'k list" where
  "dict_keys d = map fst d"

definition wf_dict :: "('k \<times> 'v) list \<Rightarrow> bool" where
  "wf_dict d \<longleftrightarrow> distinct (map fst d)"

text \<open>\<open>d.update(e)\<close> and \<open>dict(pairs)\<close>.\<close>

definition dict_update :: "('k \<times> 'v) list \<Rightarrow> ('k \<times> 'v) list \<Rightarrow> ('k \<times> 'v) list" where
  "dict_update d e = fold (\<lambda>(k, v). AList.update k v) e d"

definition dict_of :: "('k \<times> 'v) list \<Rightarrow> ('k \<times> 'v) list" where
  "dict_of ps = dict_update [] ps"

text \<open>\<open>d.setdefault(k, []).append(v)\<close>.\<close>

definition dict_append :: "'k \<Rightarrow> 'v \<Rightarrow> ('k \<times> 'v list) list \<Rightarrow> ('k \<times> 'v list) list" where
  "dict_append k v d =
     AList.update k ((case map_of d k of None \<Rightarrow> [] | Some vs \<Rightarrow> vs) @ [v]) d"

lemma wf_dict_Nil [simp, dict_simps]: "wf_dict []"
  by (simp add: wf_dict_def)

lemma wf_dict_Cons [dict_simps]: "wf_dict ((k, v) # d) \<longleftrightarrow> k \<notin> fst ` set d \<and> wf_dict d"
  by (simp add: wf_dict_def)

lemma wf_dict_update1 [simp, dict_simps]: "wf_dict d \<Longrightarrow> wf_dict (AList.update k v d)"
  by (simp add: wf_dict_def distinct_update)

lemma wf_dict_delete [simp, dict_simps]: "wf_dict d \<Longrightarrow> wf_dict (AList.delete k d)"
  by (simp add: wf_dict_def distinct_delete)

lemma map_of_dict_update: "map_of (dict_update d e) = map_of d ++ map_of (rev e)"
  unfolding dict_update_def
proof (induction e arbitrary: d)
  case (Cons p e)
  then show ?case
    by (cases p) (auto simp: update_conv' map_add_def fun_eq_iff split: option.splits)
qed simp

lemma map_of_rev_wf: "wf_dict e \<Longrightarrow> map_of (rev e) = map_of e"
  unfolding wf_dict_def
  by (rule map_of_eqI) (auto simp: rev_map [symmetric])

lemma map_of_dict_update_wf [dict_simps]:
  "wf_dict e \<Longrightarrow> map_of (dict_update d e) = map_of d ++ map_of e"
  by (simp add: map_of_dict_update map_of_rev_wf)

lemma update_new: "k \<notin> fst ` set d \<Longrightarrow> AList.update k v d = d @ [(k, v)]"
  by (induction d) auto

lemma dict_update_disjoint:
  "wf_dict e \<Longrightarrow> fst ` set d \<inter> fst ` set e = {} \<Longrightarrow> dict_update d e = d @ e"
  unfolding dict_update_def
proof (induction e arbitrary: d)
  case (Cons p e)
  then show ?case
    by (cases p) (auto simp: update_new wf_dict_Cons)
qed simp

lemma dict_of_distinct [simp, dict_simps]: "wf_dict ps \<Longrightarrow> dict_of ps = ps"
  by (simp add: dict_of_def dict_update_disjoint)

lemma wf_dict_update [simp, dict_simps]: "wf_dict d \<Longrightarrow> wf_dict (dict_update d e)"
  unfolding dict_update_def by (induction e arbitrary: d) (auto simp: split_beta)

lemma wf_dict_of [simp, dict_simps]: "wf_dict (dict_of ps)"
  by (simp add: dict_of_def)

lemma distinct_map_sort_key: "distinct (map f (sort_key g xs)) \<longleftrightarrow> distinct (map f xs)"
  by (simp add: distinct_map)

lemma wf_dict_sort_key [simp]: "wf_dict (sort_key g d) \<longleftrightarrow> wf_dict d"
  by (simp add: wf_dict_def distinct_map_sort_key)

lemma map_of_sort_key: "wf_dict d \<Longrightarrow> map_of (sort_key g d) = map_of d"
  unfolding wf_dict_def by (rule map_of_eqI) (auto simp: distinct_map_sort_key)

lemma map_of_map_snd: "map_of (map (\<lambda>kv. (fst kv, f (snd kv))) d) k = map_option f (map_of d k)"
  by (induction d) auto

lemma sort_key_idem [simp]: "sort_key f (sort_key f xs) = sort_key f xs"
  by (rule sort_key_id_if_sorted) simp

lemma update_new': "map_of d k = None \<Longrightarrow> AList.update k v d = d @ [(k, v)]"
  by (simp add: update_new map_of_eq_None_iff)

text \<open>A loop that merges one dictionary per element: \<open>result.update(c(e))\<close>.\<close>

lemma foldE_dict_update:
  assumes "foldE (\<lambda>e r. bindE (c e) (\<lambda>s. Inr (dict_update r s))) es r = Inr flat"
  shows "\<exists>ss. mapE c es = Inr ss \<and> flat = foldl dict_update r ss"
  using assms
proof (induction es arbitrary: r)
  case (Cons e es)
  then obtain s where "c e = Inr s"
    and "foldE (\<lambda>e r. bindE (c e) (\<lambda>s. Inr (dict_update r s))) es (dict_update r s) = Inr flat"
    by (auto simp: bindE_eq_Inr)
  with Cons.IH show ?case by fastforce
qed simp

lemma wf_dict_foldl_update: "wf_dict r \<Longrightarrow> wf_dict (foldl dict_update r ss)"
  by (induction ss arbitrary: r) auto

lemma map_of_foldl_update_None:
  "(\<And>s. s \<in> set ss \<Longrightarrow> wf_dict s \<and> map_of s p = None) \<Longrightarrow>
   map_of (foldl dict_update r ss) p = map_of r p"
  by (induction ss arbitrary: r) (auto simp: map_of_dict_update_wf map_add_def)

lemma map_of_foldl_updateD:
  "map_of (foldl dict_update r ss) p = Some x \<Longrightarrow> (\<And>s. s \<in> set ss \<Longrightarrow> wf_dict s) \<Longrightarrow>
   map_of r p = Some x \<or> (\<exists>s \<in> set ss. map_of s p = Some x)"
proof (induction ss arbitrary: r)
  case (Cons s ss)
  then have "map_of (dict_update r s) p = Some x \<or> (\<exists>s \<in> set ss. map_of s p = Some x)" by auto
  with Cons.prems(2) show ?case
    by (auto simp: map_of_dict_update_wf map_add_def split: option.splits)
qed simp

lemma map_of_foldl_updateI:
  assumes "\<exists>s \<in> set ss. map_of s p = Some x"
    and "\<And>t. t \<in> set ss \<Longrightarrow> wf_dict t \<and> (map_of t p = None \<or> map_of t p = Some x)"
  shows "map_of (foldl dict_update r ss) p = Some x"
  using assms
proof (induction ss arbitrary: r)
  case (Cons t ss)
  show ?case
  proof (cases "\<exists>u \<in> set ss. map_of u p = Some x")
    case True
    with Cons.IH [of "dict_update r t"] Cons.prems(2) show ?thesis by simp
  next
    case False
    with Cons.prems have "map_of t p = Some x" and n: "\<And>u. u \<in> set ss \<Longrightarrow> wf_dict u \<and> map_of u p = None"
      by auto
    then show ?thesis
      using Cons.prems(2) [of t] map_of_foldl_update_None [where r = "dict_update r t", OF n]
      by (simp add: map_of_dict_update_wf)
  qed
qed simp

lemma wf_dict_mem: "wf_dict d \<Longrightarrow> kv \<in> set d \<Longrightarrow> map_of d (fst kv) = Some (snd kv)"
  by (cases kv) (simp add: wf_dict_def)

lemma map_of_snoc: "k \<notin> fst ` set xs \<Longrightarrow> map_of (xs @ [(k, v)]) = (map_of xs)(k \<mapsto> v)"
  by (induction xs) auto

lemma dict_update_single: "dict_update r [(k, v)] = AList.update k v r"
  by (simp add: dict_update_def)

lemma list_all2_setD1: "list_all2 P xs ys \<Longrightarrow> x \<in> set xs \<Longrightarrow> \<exists>y \<in> set ys. P x y"
  by (induction rule: list_all2_induct) auto

lemma list_all2_setD2: "list_all2 P xs ys \<Longrightarrow> y \<in> set ys \<Longrightarrow> \<exists>x \<in> set xs. P x y"
  by (induction rule: list_all2_induct) auto

end
