(* ===== verification/Dit_Json.thy ===== *)
theory Dit_Json
  imports Dit_Prelude
begin

text \<open>
  Python's \<open>json\<close> module as the object store uses it: \<open>json.dumps(data,
  separators=(",", ":"), sort_keys=True)\<close> with the default \<open>ensure_ascii\<close>, then
  \<open>.encode("utf-8")\<close>; and \<open>json.loads(data)\<close> on the bytes read back. The printer and the
  parser follow the grammar of CPython's \<open>json.encoder\<close> and \<open>json.scanner\<close>. A number with a
  fraction, an exponent, \<open>NaN\<close> or \<open>Infinity\<close> is a Python float; it is kept as its literal
  (\<open>JFloat\<close>), and the round trip is stated for float-free values, the only ones dit writes
  into the store.
\<close>

datatype json =
    JNull | JBool bool | JInt int | JFloat pystr | JStr pystr
  | JArr "json list" | JObj "(pystr \<times> json) list"

section \<open>Printing\<close>

definition hex_digit :: "nat \<Rightarrow> nat" where
  "hex_digit d = (if d < 10 then 48 + d else 87 + d)"

definition hex4 :: "nat \<Rightarrow> pystr" where
  "hex4 n = [hex_digit (n div 4096 mod 16), hex_digit (n div 256 mod 16),
             hex_digit (n div 16 mod 16), hex_digit (n mod 16)]"

text \<open>\<open>py_encode_basestring_ascii\<close>: one code point of a string literal.\<close>

definition esc_u :: "nat \<Rightarrow> pystr" where
  "esc_u n = [92, 117] @ hex4 n"

definition json_char :: "nat \<Rightarrow> pystr" where
  "json_char c =
     (if c = 34 then [92, 34]
      else if c = 92 then [92, 92]
      else if c = 10 then [92, 110]
      else if c = 13 then [92, 114]
      else if c = 9 then [92, 116]
      else if c = 12 then [92, 102]
      else if c = 8 then [92, 98]
      else if 32 \<le> c \<and> c \<le> 126 then [c]
      else if c < 65536 then esc_u c
      else esc_u (55296 + (c - 65536) div 1024) @ esc_u (56320 + (c - 65536) mod 1024))"

definition json_string :: "pystr \<Rightarrow> pystr" where
  "json_string s = [34] @ concat (map json_char s) @ [34]"

text \<open>\<open>str(n)\<close> of a Python int.\<close>

fun nat_digits :: "nat \<Rightarrow> pystr" where
  "nat_digits n = (if n < 10 then [48 + n] else nat_digits (n div 10) @ [48 + n mod 10])"

declare nat_digits.simps [simp del]

definition int_str :: "int \<Rightarrow> pystr" where
  "int_str i = (if i < 0 then 45 # nat_digits (nat (- i)) else nat_digits (nat i))"

fun comma_join :: "pystr list \<Rightarrow> pystr" where
  "comma_join [] = []"
| "comma_join [w] = w"
| "comma_join (w # v # ws) = w @ 44 # comma_join (v # ws)"

text \<open>The output for a value whose objects are already in key order.\<close>

fun dumps_raw :: "json \<Rightarrow> pystr" where
  "dumps_raw JNull = str ''null''"
| "dumps_raw (JBool b) = (if b then str ''true'' else str ''false'')"
| "dumps_raw (JInt i) = int_str i"
| "dumps_raw (JFloat l) = l"
| "dumps_raw (JStr s) = json_string s"
| "dumps_raw (JArr vs) = 91 # comma_join (map dumps_raw vs) @ [93]"
| "dumps_raw (JObj kvs) =
     123 # comma_join (map (\<lambda>kv. json_string (fst kv) @ 58 # dumps_raw (snd kv)) kvs) @ [125]"

text \<open>\<open>sort_keys=True\<close> applies at every level.\<close>

fun sort_keys :: "json \<Rightarrow> json" where
  "sort_keys (JArr vs) = JArr (map sort_keys vs)"
| "sort_keys (JObj kvs) = JObj (sort_key fst (map (\<lambda>kv. (fst kv, sort_keys (snd kv))) kvs))"
| "sort_keys v = v"

definition json_dumps :: "json \<Rightarrow> pystr" where
  "json_dumps v = dumps_raw (sort_keys v)"

section \<open>Parsing\<close>

definition is_ws :: "nat \<Rightarrow> bool" where
  "is_ws c \<longleftrightarrow> c = 32 \<or> c = 9 \<or> c = 10 \<or> c = 13"

definition skip_ws :: "pystr \<Rightarrow> pystr" where
  "skip_ws s = dropWhile is_ws s"

definition hex_val :: "nat \<Rightarrow> nat option" where
  "hex_val c =
     (if 48 \<le> c \<and> c \<le> 57 then Some (c - 48)
      else if 97 \<le> c \<and> c \<le> 102 then Some (c - 87)
      else if 65 \<le> c \<and> c \<le> 70 then Some (c - 55) else None)"

definition hex4_val :: "nat \<Rightarrow> nat \<Rightarrow> nat \<Rightarrow> nat \<Rightarrow> nat option" where
  "hex4_val a b c d =
     (case (hex_val a, hex_val b, hex_val c, hex_val d) of
        (Some w, Some x, Some y, Some z) \<Rightarrow> Some (w * 4096 + x * 256 + y * 16 + z)
      | _ \<Rightarrow> None)"

definition simple_escape :: "nat \<Rightarrow> nat option" where
  "simple_escape c =
     (if c = 34 then Some 34 else if c = 92 then Some 92 else if c = 47 then Some 47
      else if c = 98 then Some 8 else if c = 102 then Some 12 else if c = 110 then Some 10
      else if c = 114 then Some 13 else if c = 116 then Some 9 else None)"

definition is_high :: "nat \<Rightarrow> bool" where
  "is_high n \<longleftrightarrow> 55296 \<le> n \<and> n \<le> 56319"

definition is_low :: "nat \<Rightarrow> bool" where
  "is_low n \<longleftrightarrow> 56320 \<le> n \<and> n \<le> 57343"

text \<open>
  The code point of a \<open>\u\<close> escape and what follows it: a high surrogate followed by an
  escaped low one is one code point beyond the basic plane.
\<close>

fun read_u :: "pystr \<Rightarrow> (nat \<times> pystr) option" where
  "read_u (a # b # c # d # r) =
     (case hex4_val a b c d of
        None \<Rightarrow> None
      | Some n \<Rightarrow>
          if is_high n then
            (case r of
               x # y # a' # b' # c' # d' # r' \<Rightarrow>
                 if x = 92 \<and> y = 117 then
                   (case hex4_val a' b' c' d' of
                      None \<Rightarrow> None
                    | Some m \<Rightarrow>
                        if is_low m then Some (65536 + (n - 55296) * 1024 + (m - 56320), r')
                        else Some (n, r))
                 else Some (n, r)
             | _ \<Rightarrow> Some (n, r))
          else Some (n, r))"
| "read_u _ = None"

lemma read_u_length: "read_u s = Some (n, r) \<Longrightarrow> length r < length s"
  by (induction s rule: read_u.induct) (auto split: option.splits if_splits list.splits)

text \<open>\<open>py_scanstring\<close>, from just after the opening quote (strict: no control characters).\<close>

function parse_str :: "pystr \<Rightarrow> (pystr \<times> pystr) res" where
  "parse_str [] = Inl JSONDecodeError"
| "parse_str (c # r) =
     (if c = 34 then Inr ([], r)
      else if c = 92 then
        (case r of
           [] \<Rightarrow> Inl JSONDecodeError
         | e # r2 \<Rightarrow>
             if e = 117 then
               (case read_u r2 of
                  None \<Rightarrow> Inl JSONDecodeError
                | Some (n, r3) \<Rightarrow> bindE (parse_str r3) (\<lambda>(s, t). Inr (n # s, t)))
             else
               (case simple_escape e of
                  None \<Rightarrow> Inl JSONDecodeError
                | Some x \<Rightarrow> bindE (parse_str r2) (\<lambda>(s, t). Inr (x # s, t))))
      else if c < 32 then Inl JSONDecodeError
      else bindE (parse_str r) (\<lambda>(s, t). Inr (c # s, t)))"
  by pat_completeness auto
termination
  by (relation "measure length") (auto dest!: read_u_length)

definition is_digit :: "nat \<Rightarrow> bool" where
  "is_digit c \<longleftrightarrow> 48 \<le> c \<and> c \<le> 57"

definition digits_val :: "pystr \<Rightarrow> nat" where
  "digits_val ds = foldl (\<lambda>n d. n * 10 + (d - 48)) 0 ds"

text \<open>
  The fraction, the exponent and the integer part (\<open>0\<close> or digits) of \<open>NUMBER_RE\<close>: the longest
  match of each, if there is one.
\<close>

definition take_frac :: "pystr \<Rightarrow> pystr" where
  "take_frac s =
     (case s of
        c # d # r \<Rightarrow> if c = 46 \<and> is_digit d then c # takeWhile is_digit (d # r) else []
      | _ \<Rightarrow> [])"

definition take_exp :: "pystr \<Rightarrow> pystr" where
  "take_exp s =
     (case s of
        c # d # r \<Rightarrow>
          if c = 101 \<or> c = 69 then
            (if is_digit d then c # takeWhile is_digit (d # r)
             else if d = 43 \<or> d = 45 then
               (case takeWhile is_digit r of [] \<Rightarrow> [] | ds \<Rightarrow> c # d # ds)
             else [])
          else []
      | _ \<Rightarrow> [])"

definition take_int :: "pystr \<Rightarrow> pystr" where
  "take_int s =
     (case s of
        [] \<Rightarrow> []
      | c # _ \<Rightarrow> if c = 48 then [48] else takeWhile is_digit s)"

definition parse_number :: "pystr \<Rightarrow> (json \<times> pystr) res" where
  "parse_number s =
     (let sign = (case s of c # _ \<Rightarrow> if c = 45 then [45] else [] | [] \<Rightarrow> []);
          r = drop (length sign) s;
          ip = take_int r;
          r1 = drop (length ip) r;
          fr = take_frac r1;
          r2 = drop (length fr) r1;
          ex = take_exp r2;
          r3 = drop (length ex) r2
      in if ip = [] then Inl JSONDecodeError
         else if fr = [] \<and> ex = [] then
           Inr (JInt (if sign = [] then int (digits_val ip) else - int (digits_val ip)), r3)
         else Inr (JFloat (sign @ ip @ fr @ ex), r3))"

definition parse_literal :: "pystr \<Rightarrow> (json \<times> pystr) option" where
  "parse_literal s =
     (if py_startswith s (str ''null'') then Some (JNull, drop 4 s)
      else if py_startswith s (str ''true'') then Some (JBool True, drop 4 s)
      else if py_startswith s (str ''false'') then Some (JBool False, drop 5 s)
      else if py_startswith s (str ''NaN'') then Some (JFloat (str ''NaN''), drop 3 s)
      else if py_startswith s (str ''Infinity'') then Some (JFloat (str ''Infinity''), drop 8 s)
      else if py_startswith s (str ''-Infinity'') then Some (JFloat (str ''-Infinity''), drop 9 s)
      else None)"

text \<open>
  \<open>scan_once\<close>, \<open>JSONArray\<close> and \<open>JSONObject\<close>. The fuel bounds the nesting of the three; twice
  the length of the text is enough (\<open>parse_fuel\<close> below).
\<close>

fun parse_value :: "nat \<Rightarrow> pystr \<Rightarrow> (json \<times> pystr) res"
  and parse_elems :: "nat \<Rightarrow> pystr \<Rightarrow> (json list \<times> pystr) res"
  and parse_members :: "nat \<Rightarrow> pystr \<Rightarrow> ((pystr \<times> json) list \<times> pystr) res"
where
  "parse_value 0 s = Inl Out_of_fuel"
| "parse_value (Suc f) [] = Inl JSONDecodeError"
| "parse_value (Suc f) (c # r) =
     (if c = 34 then bindE (parse_str r) (\<lambda>(s, t). Inr (JStr s, t))
      else if c = 123 then
        (case skip_ws r of
           [] \<Rightarrow> Inl JSONDecodeError
         | d # r2 \<Rightarrow>
             if d = 125 then Inr (JObj [], r2)
             else bindE (parse_members f (d # r2)) (\<lambda>(kvs, t). Inr (JObj (dict_of kvs), t)))
      else if c = 91 then
        (case skip_ws r of
           [] \<Rightarrow> Inl JSONDecodeError
         | d # r2 \<Rightarrow>
             if d = 93 then Inr (JArr [], r2)
             else bindE (parse_elems f (d # r2)) (\<lambda>(vs, t). Inr (JArr vs, t)))
      else (case parse_literal (c # r) of
              Some p \<Rightarrow> Inr p
            | None \<Rightarrow> parse_number (c # r)))"
| "parse_elems 0 s = Inl Out_of_fuel"
| "parse_elems (Suc f) s =
     bindE (parse_value f s) (\<lambda>(v, t).
       (case skip_ws t of
          [] \<Rightarrow> Inl JSONDecodeError
        | d # r \<Rightarrow>
            if d = 93 then Inr ([v], r)
            else if d = 44 then
              bindE (parse_elems f (skip_ws r)) (\<lambda>(vs, u). Inr (v # vs, u))
            else Inl JSONDecodeError))"
| "parse_members 0 s = Inl Out_of_fuel"
| "parse_members (Suc f) s =
     (case s of
        [] \<Rightarrow> Inl JSONDecodeError
      | q # r \<Rightarrow>
          if q = 34 then
            bindE (parse_str r) (\<lambda>(k, t).
              (case skip_ws t of
                 [] \<Rightarrow> Inl JSONDecodeError
               | d # r2 \<Rightarrow>
                   if d = 58 then
                     bindE (parse_value f (skip_ws r2)) (\<lambda>(v, u).
                       (case skip_ws u of
                          [] \<Rightarrow> Inl JSONDecodeError
                        | e # r3 \<Rightarrow>
                            if e = 125 then Inr ([(k, v)], r3)
                            else if e = 44 then
                              bindE (parse_members f (skip_ws r3))
                                (\<lambda>(kvs, w). Inr ((k, v) # kvs, w))
                            else Inl JSONDecodeError))
                   else Inl JSONDecodeError))
          else Inl JSONDecodeError)"

text \<open>\<open>json.loads\<close> of a \<open>str\<close>: a value, and only white space after it.\<close>

definition json_loads :: "pystr \<Rightarrow> json res" where
  "json_loads s =
     bindE (parse_value (2 * length s + 2) (skip_ws s)) (\<lambda>(v, t).
       if skip_ws t = [] then Inr v else Inl JSONDecodeError)"
section \<open>UTF-8\<close>

text \<open>
  \<open>bytes.decode("utf-8")\<close>; with \<open>sp\<close> set, \<open>errors="surrogatepass"\<close>, which lets the three-byte
  forms of surrogates through. Overlong forms and code points past 0x10FFFF are refused.
\<close>

definition is_cont :: "8 word \<Rightarrow> bool" where
  "is_cont b \<longleftrightarrow> 128 \<le> unat b \<and> unat b < 192"

fun utf8_decode :: "bool \<Rightarrow> bytes \<Rightarrow> pystr res" where
  "utf8_decode sp [] = Inr []"
| "utf8_decode sp (b # r) =
     (let n = unat b in
      if n < 128 then bindE (utf8_decode sp r) (\<lambda>s. Inr (n # s))
      else if 194 \<le> n \<and> n < 224 then
        (case r of
           c # r' \<Rightarrow>
             if is_cont c
             then bindE (utf8_decode sp r') (\<lambda>s. Inr (((n - 192) * 64 + (unat c - 128)) # s))
             else Inl UnicodeDecodeError
         | _ \<Rightarrow> Inl UnicodeDecodeError)
      else if 224 \<le> n \<and> n < 240 then
        (case r of
           c # d # r' \<Rightarrow>
             let v = (n - 224) * 4096 + (unat c - 128) * 64 + (unat d - 128) in
             if is_cont c \<and> is_cont d \<and> 2048 \<le> v \<and> (sp \<or> \<not> (is_high v \<or> is_low v))
             then bindE (utf8_decode sp r') (\<lambda>s. Inr (v # s))
             else Inl UnicodeDecodeError
         | _ \<Rightarrow> Inl UnicodeDecodeError)
      else if 240 \<le> n \<and> n < 245 then
        (case r of
           c # d # e # r' \<Rightarrow>
             let v = (n - 240) * 262144 + (unat c - 128) * 4096 + (unat d - 128) * 64
                     + (unat e - 128) in
             if is_cont c \<and> is_cont d \<and> is_cont e \<and> 65536 \<le> v \<and> v < 1114112
             then bindE (utf8_decode sp r') (\<lambda>s. Inr (v # s))
             else Inl UnicodeDecodeError
         | _ \<Rightarrow> Inl UnicodeDecodeError)
      else Inl UnicodeDecodeError)"

text \<open>\<open>.encode("utf-8")\<close> of a text that is ASCII, as every \<open>ensure_ascii\<close> output is.\<close>

definition ascii_encode :: "pystr \<Rightarrow> bytes" where
  "ascii_encode s = map of_nat s"

text \<open>
  \<open>json.loads\<close> of \<open>bytes\<close>: \<open>json.detect_encoding\<close>, decode, parse. A UTF-8 byte order mark is
  dropped; texts that look like UTF-16 or UTF-32 (a zero byte or a byte order mark of theirs
  among the first bytes) are outside the model.
\<close>

definition other_encoding :: "bytes \<Rightarrow> bool" where
  "other_encoding b \<longleftrightarrow>
     take 2 b = [254, 255] \<or> take 2 b = [255, 254] \<or> (2 \<le> length b \<and> 0 \<in> set (take 2 b))"

definition drop_bom :: "bytes \<Rightarrow> bytes" where
  "drop_bom b = (if take 3 b = [239, 187, 191] then drop 3 b else b)"

definition json_loads_bytes :: "bytes \<Rightarrow> json res" where
  "json_loads_bytes b =
     (if other_encoding b then Inl Malformed
      else bindE (utf8_decode True (drop_bom b)) json_loads)"

section \<open>Printing a string, then parsing it\<close>

definition scalar :: "nat \<Rightarrow> bool" where
  "scalar c \<longleftrightarrow> c < 1114112 \<and> \<not> is_high c \<and> \<not> is_low c"

definition valid_str :: "pystr \<Rightarrow> bool" where
  "valid_str s \<longleftrightarrow> (\<forall>c \<in> set s. scalar c)"

lemma valid_str_simps [simp]:
  "valid_str []"
  "valid_str (c # s) \<longleftrightarrow> scalar c \<and> valid_str s"
  by (auto simp: valid_str_def)

lemma valid_str_str [simp]: "valid_str (str s)"
proof -
  have "n < 256 \<Longrightarrow> scalar n" for n :: nat
    by (auto simp: scalar_def is_high_def is_low_def)
  then show ?thesis by (auto simp: valid_str_def str_def)
qed

lemma hex_val_digit: "d < 16 \<Longrightarrow> hex_val (hex_digit d) = Some d"
  by (auto simp: hex_val_def hex_digit_def)

lemma hex4_split:
  assumes "n < (65536 :: nat)"
  shows "n div 4096 mod 16 * 4096 + n div 256 mod 16 * 256 + n div 16 mod 16 * 16 + n mod 16 = n"
proof -
  have "n div 256 = n div 16 div 16" and "n div 4096 = n div 256 div 16"
    by (simp_all add: div_mult2_eq [symmetric])
  moreover have "n div 16 = n div 16 div 16 * 16 + n div 16 mod 16"
    and "n div 256 = n div 256 div 16 * 16 + n div 256 mod 16"
    and "n = n div 16 * 16 + n mod 16"
    by (simp_all only: div_mult_mod_eq)
  moreover have "n div 4096 mod 16 = n div 4096"
    using assms by (simp add: less_mult_imp_div_less)
  ultimately show ?thesis by linarith
qed

lemma hex4_cases:
  assumes "n < 65536"
  obtains a b c d where "hex4 n = [a, b, c, d]" and "hex4_val a b c d = Some n"
proof
  show "hex4 n = [hex_digit (n div 4096 mod 16), hex_digit (n div 256 mod 16),
                  hex_digit (n div 16 mod 16), hex_digit (n mod 16)]"
    by (simp add: hex4_def)
  have "hex_val (hex_digit (k mod 16)) = Some (k mod 16)" for k :: nat
    by (rule hex_val_digit) simp
  then show "hex4_val (hex_digit (n div 4096 mod 16)) (hex_digit (n div 256 mod 16))
               (hex_digit (n div 16 mod 16)) (hex_digit (n mod 16)) = Some n"
    using hex4_split [OF assms] by (simp only: hex4_val_def option.case prod.case)
qed

lemma read_u_hex4:
  assumes "n < 65536" and "\<not> is_high n"
  shows "read_u (hex4 n @ r) = Some (n, r)"
proof -
  obtain a b c d where "hex4 n = [a, b, c, d]" "hex4_val a b c d = Some n"
    by (rule hex4_cases [OF assms(1)])
  with assms(2) show ?thesis by simp
qed

lemma read_u_pair:
  assumes "is_high n" and "is_low m"
  shows "read_u (hex4 n @ esc_u m @ r) = Some (65536 + (n - 55296) * 1024 + (m - 56320), r)"
proof -
  from assms have n: "n < 65536" and m: "m < 65536" by (auto simp: is_high_def is_low_def)
  obtain a b c d where "hex4 n = [a, b, c, d]" "hex4_val a b c d = Some n"
    by (rule hex4_cases [OF n])
  moreover obtain a' b' c' d' where "hex4 m = [a', b', c', d']" "hex4_val a' b' c' d' = Some m"
    by (rule hex4_cases [OF m])
  ultimately show ?thesis using assms by (simp add: esc_u_def)
qed

lemma parse_str_esc: "read_u (s @ t) = Some (n, r) \<Longrightarrow>
    parse_str ([92, 117] @ s @ t) = bindE (parse_str r) (\<lambda>(s, t). Inr (n # s, t))"
  by simp

lemma surrogates_of:
  fixes c :: nat
  assumes "65536 \<le> c" and "c < 1114112"
  shows "is_high (55296 + (c - 65536) div 1024)" and "is_low (56320 + (c - 65536) mod 1024)"
    and "65536 + (c - 65536) div 1024 * 1024 + (c - 65536) mod 1024 = c"
proof -
  from assms have "(c - 65536) div 1024 < 1024" by (simp add: less_mult_imp_div_less)
  then show "is_high (55296 + (c - 65536) div 1024)" by (simp add: is_high_def)
  have "(c - 65536) mod 1024 < 1024" by simp
  then show "is_low (56320 + (c - 65536) mod 1024)" by (simp add: is_low_def)
  show "65536 + (c - 65536) div 1024 * 1024 + (c - 65536) mod 1024 = c"
    using assms by simp
qed

lemma parse_str_char:
  assumes "scalar c"
  shows "parse_str (json_char c @ r) = bindE (parse_str r) (\<lambda>(s, t). Inr (c # s, t))"
proof -
  have plain: "32 \<le> c \<and> c \<le> 126 \<Longrightarrow> c \<noteq> 34 \<Longrightarrow> c \<noteq> 92 \<Longrightarrow> ?thesis"
    by (simp add: json_char_def)
  have esc1: "c \<in> {34, 92, 10, 13, 9, 12, 8} \<Longrightarrow> ?thesis"
    by (auto simp: json_char_def simple_escape_def)
  have escu: "c \<notin> {34, 92, 10, 13, 9, 12, 8} \<Longrightarrow> \<not> (32 \<le> c \<and> c \<le> 126) \<Longrightarrow> c < 65536 \<Longrightarrow> ?thesis"
    using parse_str_esc [OF read_u_hex4 [of c r]] assms
    by (simp add: json_char_def esc_u_def scalar_def)
  have pair: "\<not> c < 65536 \<Longrightarrow> ?thesis"
  proof -
    assume big: "\<not> c < 65536"
    with assms have b: "65536 \<le> c" "c < 1114112" by (auto simp: scalar_def)
    have "read_u (hex4 (55296 + (c - 65536) div 1024) @ esc_u (56320 + (c - 65536) mod 1024) @ r) = Some (c, r)"
      using read_u_pair [OF surrogates_of(1,2) [OF b], of r] surrogates_of(3) [OF b] by simp
    then have "parse_str ([92, 117] @ hex4 (55296 + (c - 65536) div 1024) @
                 esc_u (56320 + (c - 65536) mod 1024) @ r) =
               bindE (parse_str r) (\<lambda>(s, t). Inr (c # s, t))"
      by (rule parse_str_esc)
    with b show ?thesis
      by (simp add: json_char_def esc_u_def [of "55296 + _"])
  qed
  from plain esc1 escu pair show ?thesis by blast
qed

lemma parse_str_chars: "valid_str s \<Longrightarrow> parse_str (concat (map json_char s) @ 34 # r) = Inr (s, r)"
  by (induction s) (simp_all add: parse_str_char)

section \<open>Printing a value, then parsing it\<close>

lemma nat_digits_digit: "c \<in> set (nat_digits n) \<Longrightarrow> is_digit c"
proof (induction n rule: nat_digits.induct)
  case (1 n)
  then show ?case
    by (subst (asm) (2) nat_digits.simps) (auto simp: is_digit_def split: if_splits)
qed

lemma nat_digits_not_Nil [simp]: "nat_digits n \<noteq> []"
  by (subst nat_digits.simps) simp

lemma digits_val_snoc: "digits_val (ds @ [d]) = digits_val ds * 10 + (d - 48)"
  by (simp add: digits_val_def)

lemma digits_val_nat_digits [simp]: "digits_val (nat_digits n) = n"
proof (induction n rule: nat_digits.induct)
  case (1 n)
  show ?case
  proof (cases "n < 10")
    case True
    then show ?thesis by (simp add: nat_digits.simps [of n] digits_val_def)
  next
    case False
    with 1 show ?thesis
      by (simp add: nat_digits.simps [of n] digits_val_snoc)
  qed
qed

lemma hd_nat_digits: "n \<noteq> 0 \<Longrightarrow> hd (nat_digits n) \<noteq> 48"
proof (induction n rule: nat_digits.induct)
  case (1 n)
  then show ?case
    by (cases "n < 10") (auto simp: nat_digits.simps [of n] hd_append)
qed

definition stops :: "pystr \<Rightarrow> bool" where
  "stops r \<longleftrightarrow> (case r of [] \<Rightarrow> True | c # _ \<Rightarrow> c = 44 \<or> c = 93 \<or> c = 125)"

lemma stops_simps [simp]: "stops []" "stops (44 # r)" "stops (93 # r)" "stops (125 # r)"
  by (simp_all add: stops_def)

lemma stops_no_tail: "stops r \<Longrightarrow> take_frac r = [] \<and> take_exp r = [] \<and> takeWhile is_digit r = []"
  by (auto simp: stops_def take_frac_def take_exp_def is_digit_def split: list.splits)

lemma takeWhile_nat_digits: "stops r \<Longrightarrow> takeWhile is_digit (nat_digits n @ r) = nat_digits n"
  by (subst takeWhile_append2) (auto simp: nat_digits_digit stops_no_tail)

lemma nat_digits_Cons:
  obtains c ds where "nat_digits n = c # ds" and "is_digit c" and "c = 48 \<longleftrightarrow> n = 0"
    and "n = 0 \<Longrightarrow> ds = []"
proof (cases "nat_digits n")
  case (Cons c ds)
  moreover have "is_digit c" using nat_digits_digit [of c n] Cons by simp
  moreover have "n \<noteq> 0 \<Longrightarrow> c \<noteq> 48" using hd_nat_digits [of n] Cons by simp
  moreover have "n = 0 \<Longrightarrow> c = 48 \<and> ds = []" using Cons by (simp add: nat_digits.simps [of 0])
  ultimately show ?thesis using that by metis
qed simp

lemma take_int_digits: "stops r \<Longrightarrow> take_int (nat_digits n @ r) = nat_digits n"
  by (rule nat_digits_Cons [of n])
    (use takeWhile_nat_digits [of r n] in \<open>auto simp: take_int_def\<close>)

lemma parse_number_int:
  assumes "stops r"
  shows "parse_number (int_str i @ r) = Inr (JInt i, r)"
proof (cases "i < 0")
  case True
  with take_int_digits [OF assms, of "nat (- i)"] stops_no_tail [OF assms] show ?thesis
    by (simp add: parse_number_def int_str_def)
next
  case False
  obtain c ds where "nat_digits (nat i) = c # ds" "is_digit c"
    by (rule nat_digits_Cons [of "nat i"])
  with False take_int_digits [OF assms, of "nat i"] stops_no_tail [OF assms] show ?thesis
    using digits_val_nat_digits [of "nat i"]
    by (auto simp: parse_number_def int_str_def Let_def is_digit_def)
qed

lemma parse_literal_int: "parse_literal (int_str i @ r) = None"
proof (cases "i < 0")
  case True
  obtain c ds where "nat_digits (nat (- i)) = c # ds" "is_digit c"
    by (rule nat_digits_Cons)
  with True show ?thesis
    by (auto simp: parse_literal_def int_str_def py_startswith_def str_def is_digit_def)
next
  case False
  obtain c ds where "nat_digits (nat i) = c # ds" "is_digit c"
    by (rule nat_digits_Cons)
  with False show ?thesis
    by (auto simp: parse_literal_def int_str_def py_startswith_def str_def is_digit_def)
qed

fun wf_json :: "json \<Rightarrow> bool" where
  "wf_json (JFloat l) = False"
| "wf_json (JStr s) = valid_str s"
| "wf_json (JArr vs) = (\<forall>v \<in> set vs. wf_json v)"
| "wf_json (JObj kvs) =
     (distinct (map fst kvs) \<and> (\<forall>kv \<in> set kvs. valid_str (fst kv) \<and> wf_json (snd kv)))"
| "wf_json v = True"

text \<open>The first character printed: never white space or a closing bracket.\<close>

lemma int_str_Cons: obtains c r where "int_str i = c # r" and "c = 45 \<or> is_digit c"
proof (cases "i < 0")
  case True
  then show ?thesis using that by (simp add: int_str_def)
next
  case False
  then show ?thesis using that nat_digits_Cons [of "nat i"] by (metis int_str_def)
qed

lemma dumps_raw_Cons:
  assumes "wf_json v"
  obtains c r where "dumps_raw v = c # r" and "\<not> is_ws c" and "c \<noteq> 93" and "c \<noteq> 125"
proof (cases v)
  case (JInt i)
  then show ?thesis
    using that by (rule_tac int_str_Cons [of i]) (auto simp: is_ws_def is_digit_def)
next
  case (JBool b)
  then show ?thesis using that by (cases b) (auto simp: str_def is_ws_def)
qed (use assms that in \<open>auto simp: str_def is_ws_def json_string_def\<close>)

lemma skip_ws_dumps: "wf_json v \<Longrightarrow> skip_ws (dumps_raw v @ r) = dumps_raw v @ r"
  by (rule dumps_raw_Cons) (auto simp: skip_ws_def)

lemma skip_ws_nonws [simp]: "\<not> is_ws c \<Longrightarrow> skip_ws (c # r) = c # r"
  by (simp add: skip_ws_def)

lemma not_ws [simp]: "\<not> is_ws 34" "\<not> is_ws 44" "\<not> is_ws 58" "\<not> is_ws 93" "\<not> is_ws 125"
  by (simp_all add: is_ws_def)

lemma stops_skip_ws: "stops r \<Longrightarrow> skip_ws r = r"
  by (cases r) (auto simp: stops_def skip_ws_def is_ws_def)

lemma comma_join_Cons: "ws \<noteq> [] \<Longrightarrow> comma_join (w # ws) = w @ 44 # comma_join ws"
  by (cases ws) auto

lemma parse_elems_dumps:
  assumes "\<And>v f r. v \<in> set vs \<Longrightarrow> stops r \<Longrightarrow> 2 * length (dumps_raw v) \<le> f \<Longrightarrow>
             parse_value f (dumps_raw v @ r) = Inr (v, r)"
    and "\<forall>v \<in> set vs. wf_json v" and "vs \<noteq> []"
    and "2 * length (comma_join (map dumps_raw vs)) < f"
  shows "parse_elems f (comma_join (map dumps_raw vs) @ 93 # r) = Inr (vs, r)"
  using assms
proof (induction vs arbitrary: f)
  case (Cons v vs)
  obtain g where f: "f = Suc g" using Cons.prems(4) by (cases f) auto
  show ?case
  proof (cases "vs = []")
    case True
    with Cons.prems f show ?thesis by simp
  next
    case False
    let ?t = "comma_join (map dumps_raw vs) @ 93 # r"
    from False Cons.prems(4) f
    have g: "2 * length (dumps_raw v) \<le> g" "2 * length (comma_join (map dumps_raw vs)) < g"
      by (simp_all add: comma_join_Cons)
    have "parse_elems g ?t = Inr (vs, r)"
      using Cons.prems(1,2) False g(2) by (intro Cons.IH) auto
    moreover have "parse_value g (dumps_raw v @ 44 # ?t) = Inr (v, 44 # ?t)"
      using Cons.prems(1) g(1) by simp
    moreover have "skip_ws ?t = ?t"
      using False Cons.prems(2) skip_ws_dumps [of "hd vs"]
      by (cases vs; cases "tl vs") (auto simp: comma_join_Cons)
    ultimately show ?thesis using False f by (simp add: comma_join_Cons)
  qed
qed simp

abbreviation dump_member :: "pystr \<times> json \<Rightarrow> pystr" where
  "dump_member kv \<equiv> json_string (fst kv) @ 58 # dumps_raw (snd kv)"

lemma json_string_parse: "valid_str k \<Longrightarrow> parse_str (tl (json_string k @ r)) = Inr (k, r)"
  using parse_str_chars [of k r] by (simp add: json_string_def)

lemma json_string_head: "json_string k @ r = 34 # tl (json_string k @ r)"
  by (simp add: json_string_def)

lemma parse_members_dumps:
  assumes "\<And>k v f r. (k, v) \<in> set kvs \<Longrightarrow> stops r \<Longrightarrow> 2 * length (dumps_raw v) \<le> f \<Longrightarrow>
             parse_value f (dumps_raw v @ r) = Inr (v, r)"
    and "\<forall>kv \<in> set kvs. valid_str (fst kv) \<and> wf_json (snd kv)" and "kvs \<noteq> []"
    and "2 * length (comma_join (map dump_member kvs)) < f"
  shows "parse_members f (comma_join (map dump_member kvs) @ 125 # r) = Inr (kvs, r)"
  using assms
proof (induction kvs arbitrary: f)
  case (Cons kv kvs)
  obtain k v where kv: "kv = (k, v)" by (cases kv)
  obtain g where f: "f = Suc g" using Cons.prems(4) by (cases f) auto
  have k: "parse_str (tl (json_string k @ u)) = Inr (k, u)" for u
    using Cons.prems(2) kv by (simp add: json_string_parse)
  have v: "skip_ws (dumps_raw v @ u) = dumps_raw v @ u" for u
    using Cons.prems(2) kv by (simp add: skip_ws_dumps)
  show ?case
  proof (cases "kvs = []")
    case True
    with Cons.prems f kv have "parse_value g (dumps_raw v @ 125 # r) = Inr (v, 125 # r)" by simp
    with True f k v show ?thesis by (subst kv) (simp, subst json_string_head, simp add: kv)
  next
    case False
    let ?t = "comma_join (map dump_member kvs) @ 125 # r"
    from False Cons.prems(4) f kv
    have g: "2 * length (dumps_raw v) \<le> g" "2 * length (comma_join (map dump_member kvs)) < g"
      by (simp_all add: comma_join_Cons)
    have "parse_members g ?t = Inr (kvs, r)"
      using Cons.prems(1,2) False g(2) by (intro Cons.IH) auto
    moreover have "parse_value g (dumps_raw v @ 44 # ?t) = Inr (v, 44 # ?t)"
      using g(1) kv by (intro Cons.prems(1)) auto
    moreover have "skip_ws ?t = ?t"
      using False by (cases kvs; cases "tl kvs") (auto simp: comma_join_Cons json_string_def)
    ultimately show ?thesis using False f k v
      by (simp add: comma_join_Cons kv) (subst json_string_head, simp)
  qed
qed simp

lemma parse_value_bracket:
  assumes "skip_ws s = d # t" and "d \<noteq> 93"
  shows "parse_value (Suc f) (91 # s) = bindE (parse_elems f (d # t)) (\<lambda>(vs, t). Inr (JArr vs, t))"
  using assms by simp

lemma parse_value_brace:
  assumes "skip_ws s = d # t" and "d \<noteq> 125"
  shows "parse_value (Suc f) (123 # s) =
           bindE (parse_members f (d # t)) (\<lambda>(kvs, t). Inr (JObj (dict_of kvs), t))"
  using assms by simp

lemma parse_value_dumps:
  "wf_json v \<Longrightarrow> stops r \<Longrightarrow> 2 * length (dumps_raw v) \<le> f \<Longrightarrow>
   parse_value f (dumps_raw v @ r) = Inr (v, r)"
proof (induction v arbitrary: f r)
  case (JInt i)
  obtain c t where c: "int_str i = c # t" "c = 45 \<or> is_digit c" by (rule int_str_Cons)
  with JInt.prems obtain g where "f = Suc g" by (cases f) auto
  with c parse_number_int [OF JInt.prems(2), of i] parse_literal_int [of i r] show ?case
    by (auto simp: is_digit_def)
next
  case (JStr s)
  then obtain g where "f = Suc g" by (cases f) (auto simp: json_string_def)
  with JStr json_string_parse [of s r] show ?case
    by (simp, subst json_string_head, simp)
next
  case (JArr vs)
  then obtain g where f: "f = Suc g" by (cases f) auto
  show ?case
  proof (cases vs)
    case (Cons w ws)
    let ?s = "comma_join (map dumps_raw vs) @ 93 # r"
    have "parse_elems g ?s = Inr (vs, r)"
      using JArr Cons f by (intro parse_elems_dumps) auto
    moreover obtain c t where "dumps_raw w = c # t" "\<not> is_ws c" "c \<noteq> 93"
      using JArr.prems(1) Cons by (metis dumps_raw_Cons list.set_intros(1) wf_json.simps(3))
    then obtain t' where "?s = c # t'" and "skip_ws ?s = c # t'" and "c \<noteq> 93"
      using Cons by (cases ws) (auto simp: comma_join_Cons)
    ultimately show ?thesis using f parse_value_bracket [of ?s c t' g] by simp
  qed (use f in simp)
next
  case (JObj kvs)
  then obtain g where f: "f = Suc g" by (cases f) auto
  show ?case
  proof (cases kvs)
    case (Cons w ws)
    let ?s = "comma_join (map dump_member kvs) @ 125 # r"
    have "parse_members g ?s = Inr (kvs, r)"
    proof (rule parse_members_dumps)
      fix k v f r
      assume "(k, v) \<in> set kvs" and "stops r" and "2 * length (dumps_raw v) \<le> f"
      with JObj.prems(1) show "parse_value f (dumps_raw v @ r) = Inr (v, r)"
        by (intro JObj.IH [of "(k, v)" v]) auto
    qed (use JObj.prems Cons f in auto)
    moreover obtain t' where "?s = 34 # t'"
      using Cons by (cases ws) (auto simp: comma_join_Cons json_string_def)
    moreover have "dict_of kvs = kvs" using JObj.prems(1) by (simp add: wf_dict_def)
    ultimately show ?thesis using f parse_value_brace [of ?s 34 t' g] by simp
  qed (use f in simp)
next
  case JNull
  then show ?case by (cases f) (auto simp: str_def parse_literal_def py_startswith_def)
next
  case (JBool b)
  then show ?case by (cases f; cases b) (auto simp: str_def parse_literal_def py_startswith_def)
qed simp

section \<open>The round trip\<close>

lemma wf_sort_keys [simp]: "wf_json v \<Longrightarrow> wf_json (sort_keys v)"
proof (induction v)
  case (JObj kvs)
  have "distinct (map fst (sort_key fst (map (\<lambda>kv. (fst kv, sort_keys (snd kv))) kvs)))"
    using JObj.prems by (simp add: distinct_map_sort_key) (simp add: comp_def)
  with JObj show ?case by auto
qed auto

lemma json_loads_dumps:
  assumes "wf_json v"
  shows "json_loads (json_dumps v) = Inr (sort_keys v)"
proof -
  have wf: "wf_json (sort_keys v)" using assms by simp
  show ?thesis
    using parse_value_dumps [OF wf, of "[]" "2 * length (dumps_raw (sort_keys v)) + 2"]
      skip_ws_dumps [OF wf, of "[]"]
    by (simp add: json_loads_def json_dumps_def skip_ws_def)
qed

text \<open>The output is printable ASCII, so encoding and decoding it is the identity.\<close>

definition printable :: "nat \<Rightarrow> bool" where
  "printable c \<longleftrightarrow> 32 \<le> c \<and> c \<le> 126"

lemma printable_hex4: "c \<in> set (hex4 n) \<Longrightarrow> printable c"
proof -
  have "printable (hex_digit (k mod 16))" for k :: nat
  proof -
    have "k mod 16 < 16" by simp
    then show ?thesis by (auto simp: hex_digit_def printable_def)
  qed
  then show "c \<in> set (hex4 n) \<Longrightarrow> printable c" by (auto simp: hex4_def)
qed

lemma printable_json_char: "x \<in> set (json_char c) \<Longrightarrow> printable x"
  by (auto simp: json_char_def esc_u_def printable_def dest: printable_hex4 [unfolded printable_def]
      split: if_splits)

lemma printable_json_string: "x \<in> set (json_string s) \<Longrightarrow> printable x"
  using printable_json_char by (auto simp: json_string_def) (simp_all add: printable_def)

lemma printable_comma_join:
  "\<forall>w \<in> set ws. \<forall>x \<in> set w. printable x \<Longrightarrow> x \<in> set (comma_join ws) \<Longrightarrow> printable x"
  by (induction ws rule: comma_join.induct) (auto simp: printable_def)

lemma printable_int: "x \<in> set (int_str i) \<Longrightarrow> printable x"
  using nat_digits_digit by (fastforce simp: int_str_def printable_def is_digit_def split: if_splits)

lemma printable_dumps_raw: "wf_json v \<Longrightarrow> x \<in> set (dumps_raw v) \<Longrightarrow> printable x"
proof (induction v arbitrary: x)
  case (JArr vs)
  have "\<forall>w \<in> set (map dumps_raw vs). \<forall>x \<in> set w. printable x"
    using JArr.IH JArr.prems(1) by auto
  note printable_comma_join [OF this]
  with JArr.prems show ?case by (auto simp: printable_def [of 91] printable_def [of 93])
next
  case (JObj kvs)
  have "y \<in> set (dump_member kv) \<Longrightarrow> printable y" if kv: "kv \<in> set kvs" for kv y
  proof -
    have "y \<in> set (dumps_raw (snd kv)) \<Longrightarrow> printable y"
      using JObj.prems(1) kv by (intro JObj.IH [of kv "snd kv"]) (auto simp: snds.simps)
    moreover have "y \<in> set (json_string (fst kv)) \<Longrightarrow> printable y"
      by (rule printable_json_string)
    moreover have "printable 58" by (simp add: printable_def)
    ultimately show "y \<in> set (dump_member kv) \<Longrightarrow> printable y"
      by (auto simp only: set_append list.set Un_iff insert_iff)
  qed
  then have "\<forall>w \<in> set (map dump_member kvs). \<forall>x \<in> set w. printable x"
    by (simp del: set_append)
  note printable_comma_join [OF this]
  with JObj.prems show ?case by (auto simp: printable_def [of 123] printable_def [of 125])
next
  case (JInt i)
  then show ?case by (simp add: printable_int)
next
  case (JStr s)
  then show ?case by (simp add: printable_json_string)
next
  case (JBool b)
  then show ?case by (cases b) (auto simp: str_def printable_def)
qed (auto simp: str_def printable_def)

lemma utf8_decode_ascii: "(\<And>c. c \<in> set s \<Longrightarrow> c < 128) \<Longrightarrow> utf8_decode sp (ascii_encode s) = Inr s"
proof (induction s)
  case (Cons c s)
  have "c < 128" using Cons.prems by simp
  moreover from this have "unat (of_nat c :: 8 word) = c" by (simp add: unat_of_nat)
  moreover have "utf8_decode sp (ascii_encode s) = Inr s" using Cons by simp
  ultimately show ?case by (simp add: ascii_encode_def)
qed (simp add: ascii_encode_def)

lemma printable_bytes:
  assumes "\<And>c. c \<in> set s \<Longrightarrow> printable c"
  shows "\<not> other_encoding (ascii_encode s)" and "drop_bom (ascii_encode s) = ascii_encode s"
proof -
  have b: "unat b < 127 \<and> 0 < unat b" if b: "b \<in> set (ascii_encode s)" for b
  proof -
    from b obtain c where "b = of_nat c" "printable c"
      using assms by (auto simp: ascii_encode_def)
    then show ?thesis by (simp add: printable_def unat_of_nat)
  qed
  then have "x \<in> set (ascii_encode s) \<Longrightarrow> x \<noteq> 254 \<and> x \<noteq> 255 \<and> x \<noteq> 239 \<and> x \<noteq> 0" for x
    by fastforce
  moreover have "set (take n (ascii_encode s)) \<subseteq> set (ascii_encode s)" for n
    by (rule set_take_subset)
  ultimately have n: "x \<in> set (take n (ascii_encode s)) \<Longrightarrow> x \<noteq> 254 \<and> x \<noteq> 255 \<and> x \<noteq> 239 \<and> x \<noteq> 0" for x n
    by blast
  show "\<not> other_encoding (ascii_encode s)"
    using n [of 254 2] n [of 0 2] by (auto simp: other_encoding_def)
  show "drop_bom (ascii_encode s) = ascii_encode s"
    using n [of 239 3] by (auto simp: drop_bom_def)
qed

definition json_encode :: "json \<Rightarrow> bytes" where
  "json_encode v = ascii_encode (json_dumps v)"

theorem json_roundtrip:
  assumes "wf_json v"
  shows "json_loads_bytes (json_encode v) = Inr (sort_keys v)"
proof -
  have p: "c \<in> set (json_dumps v) \<Longrightarrow> printable c" for c
    using assms printable_dumps_raw [of "sort_keys v" c] by (simp add: json_dumps_def)
  then have "utf8_decode True (ascii_encode (json_dumps v)) = Inr (json_dumps v)"
    by (intro utf8_decode_ascii) (force simp: printable_def)
  with p assms show ?thesis
    by (simp add: json_loads_bytes_def json_encode_def printable_bytes json_loads_dumps)
qed

section \<open>The parser never runs out of fuel\<close>

lemma length_skip_ws: "length (skip_ws s) \<le> length s"
  by (simp add: skip_ws_def length_dropWhile_le)

lemma skip_ws_Cons: "skip_ws s = c # r \<Longrightarrow> length r < length s"
  using length_skip_ws [of s] by simp

lemma parse_str_length: "parse_str s = Inr (x, t) \<Longrightarrow> length t < length s"
proof (induction s arbitrary: x t rule: parse_str.induct)
  case (2 c r)
  then show ?case
    by (fastforce simp: bindE_eq_Inr dest: read_u_length split: if_splits list.splits option.splits)
qed simp

lemma parse_str_fuel: "parse_str s \<noteq> Inl Out_of_fuel"
proof (induction s rule: parse_str.induct)
  case (2 c r)
  then show ?case
    by (auto simp: bindE_eq_Inl split: if_splits list.splits option.splits)
qed simp

lemma parse_number_length: "parse_number s = Inr (x, t) \<Longrightarrow> length t < length s"
  by (cases s) (auto simp: parse_number_def take_int_def Let_def split: if_splits list.splits)

lemma parse_number_fuel: "parse_number s \<noteq> Inl Out_of_fuel"
  by (simp add: parse_number_def Let_def)

lemma parse_literal_length: "parse_literal (c # s) = Some (x, t) \<Longrightarrow> length t < length (c # s)"
  by (auto simp: parse_literal_def split: if_splits)

lemma parse_length:
  "parse_value f s = Inr (v, t) \<Longrightarrow> length t < length s"
  "parse_elems f s = Inr (vs, t) \<Longrightarrow> length t < length s"
  "parse_members f s = Inr (kvs, t) \<Longrightarrow> length t < length s"
proof (induction f s and f s and f s arbitrary: v t and vs t and kvs t
    rule: parse_value_parse_elems_parse_members.induct)
  case (3 f c r)
  then show ?case
    by (fastforce simp: bindE_eq_Inr dest: parse_str_length skip_ws_Cons parse_number_length
        parse_literal_length split: if_splits list.splits option.splits)
next
  case (5 f s)
  from "5.prems" obtain x u where 0: "parse_value f s = Inr (x, u)"
    and k: "(case skip_ws u of [] \<Rightarrow> Inl JSONDecodeError
        | d # r \<Rightarrow> if d = 93 then Inr ([x], r)
            else if d = 44 then bindE (parse_elems f (skip_ws r)) (\<lambda>(vs, u). Inr (x # vs, u))
            else Inl JSONDecodeError) = Inr (vs, t)"
    by (auto simp: bindE_eq_Inr)
  from k obtain d r where dr: "skip_ws u = d # r" by (cases "skip_ws u") auto
  from k have 2: "d = 93 \<and> t = r \<or> d \<noteq> 93 \<and> d = 44 \<and> (\<exists>ys. parse_elems f (skip_ws r) = Inr (ys, t))"
    by (auto simp: dr bindE_eq_Inr split: if_splits)
  note 1 = 0 dr
  from 1 "5.IH"(1) have "length r < length s" by (fastforce dest: skip_ws_Cons)
  with 1 2 "5.IH"(2) [of "(x, u)" x u d r] length_skip_ws [of r] show ?case by fastforce
next
  case (7 f s)
  define body where "body v u k = (case skip_ws u of [] \<Rightarrow> Inl JSONDecodeError
       | e # r3 \<Rightarrow> if e = 125 then Inr ([(k, v)], r3)
            else if e = 44 then bindE (parse_members f (skip_ws r3)) (\<lambda>(kvs, w). Inr ((k, v) # kvs, w))
            else Inl JSONDecodeError)" for v u and k :: pystr
  from "7.prems" obtain r where s: "s = 34 # r" by (auto split: list.splits if_splits)
  with "7.prems" obtain k u where ku: "parse_str r = Inr (k, u)"
    and m: "(case skip_ws u of [] \<Rightarrow> Inl JSONDecodeError
       | d # r2 \<Rightarrow> if d = 58 then bindE (parse_value f (skip_ws r2)) (\<lambda>(v, u). body v u k)
                   else Inl JSONDecodeError) = Inr (kvs, t)"
    unfolding body_def by (auto simp: bindE_eq_Inr)
  from m obtain r2 where r2: "skip_ws u = 58 # r2" by (auto split: list.splits if_splits)
  note 1 = s ku r2
  from m r2 obtain v w where vw: "parse_value f (skip_ws r2) = Inr (v, w)" and b: "body v w k = Inr (kvs, t)"
    by (auto simp: bindE_eq_Inr)
  from b obtain e r3 where er: "skip_ws w = e # r3" by (cases "skip_ws w") (auto simp: body_def)
  from b have 3: "e = 125 \<and> t = r3 \<or> e \<noteq> 125 \<and> e = 44 \<and> (\<exists>ys. parse_members f (skip_ws r3) = Inr (ys, t))"
    by (auto simp: body_def er bindE_eq_Inr split: if_splits)
  note 2 = vw er
  have "length r2 < length s"
    using 1 by (fastforce dest: skip_ws_Cons parse_str_length)
  moreover have "length w < length (skip_ws r2)"
    using "7.IH"(1) [of 34 r "(k, u)" k u 58 r2] 1 2(1) by simp
  ultimately have "length r3 < length s"
    using skip_ws_Cons [OF 2(2)] length_skip_ws [of r2] by simp
  moreover have "length t < length (skip_ws r3)" if "e \<noteq> 125"
    using "7.IH"(2) [of 34 r "(k, u)" k u 58 r2 "(v, w)" v w e r3] 1 2 3 that by auto
  ultimately show ?case using 3 length_skip_ws [of r3] by auto
qed simp_all

lemma parse_fuel:
  "2 * length s < f \<Longrightarrow> parse_value f s \<noteq> Inl Out_of_fuel"
  "2 * length s + 1 < f \<Longrightarrow> parse_elems f s \<noteq> Inl Out_of_fuel"
  "2 * length s + 1 < f \<Longrightarrow> parse_members f s \<noteq> Inl Out_of_fuel"
proof (induction f s and f s and f s rule: parse_value_parse_elems_parse_members.induct)
  case (3 f c r)
  have "skip_ws r = d # r2 \<Longrightarrow> 2 * length (d # r2) + 1 < f" for d r2
    using length_skip_ws [of r] "3.prems" by simp
  with 3 show ?case
    by (auto simp: bindE_eq_Inl parse_str_fuel parse_number_fuel split: list.splits option.splits)
next
  case (5 f s)
  have "2 * length (skip_ws r) + 1 < f" if "parse_value f s = Inr (x, u)" "skip_ws u = d # r" for x u d r
    using parse_length(1) [OF that(1)] skip_ws_Cons [OF that(2)] length_skip_ws [of r] "5.prems" by simp
  with 5 show ?case by (auto simp: bindE_eq_Inl split: list.splits)
next
  case (7 f s)
  have a: "2 * length (skip_ws r2) < f" and b: "2 * length (skip_ws r2) + 1 < f"
    if "s = 34 # r" "parse_str r = Inr (k, u)" "skip_ws u = d # r2" for r k u d r2
    using parse_str_length [OF that(2)] skip_ws_Cons [OF that(3)] length_skip_ws [of r2] "7.prems" that
    by simp_all
  have c: "2 * length (skip_ws r3) + 1 < f"
    if "s = 34 # r" "parse_str r = Inr (k, u)" "skip_ws u = d # r2"
      "parse_value f (skip_ws r2) = Inr (v, w)" "skip_ws w = e # r3" for r k u d r2 v w e r3
    using b [OF that(1-3)] parse_length(1) [OF that(4)] skip_ws_Cons [OF that(5)]
      length_skip_ws [of r3] by simp
  from 7 a c show ?case
    by (auto simp: bindE_eq_Inl parse_str_fuel split: list.splits)
qed simp_all

lemma json_loads_fuel: "json_loads s \<noteq> Inl Out_of_fuel"
  using parse_fuel(1) [of "skip_ws s" "2 * length s + 2"] length_skip_ws [of s]
  by (auto simp: json_loads_def bindE_eq_Inl)

lemma utf8_decode_fuel: "utf8_decode sp b \<noteq> Inl Out_of_fuel"
  by (induction sp b rule: utf8_decode.induct) (auto simp: bindE_eq_Inl Let_def split: list.splits)

lemma json_loads_bytes_fuel: "json_loads_bytes b \<noteq> Inl Out_of_fuel"
  by (auto simp: json_loads_bytes_def bindE_eq_Inl json_loads_fuel utf8_decode_fuel)

end
