(* ===== verification/Dit_Objects.thy ===== *)
theory Dit_Objects
  imports Dit_Json
begin

text \<open>
  \<open>src/dit/core/objects.py\<close>: the dataclasses of the object model and their serialised forms.
  Every \<open>serialize_X\<close> builds the dictionary the source builds and prints it; every
  \<open>deserialize_X\<close> parses it and looks the keys up in the source's order, so a missing key is
  a \<open>KeyError\<close>. The locale \<open>codec\<close> is the contract the object graph relies on; it is
  interpreted for manifests, trees, commits, sidecars and blobs.
\<close>

section \<open>The dataclasses\<close>

record manifest_entry =
  row_hash :: pystr
  query_fingerprint :: "pystr option"

record manifest =
  entries :: "manifest_entry list"

record tree_entry =
  te_name :: pystr
  te_type :: pystr
  te_hash :: pystr
  te_sidecar :: "pystr option"

record tree =
  tree_entries :: "tree_entry list"

record sidecar_entry =
  sc_row_hash :: pystr
  char_count :: int
  token_estimate :: int
  field_count :: int
  lang :: "pystr option"

record sidecar =
  sc_manifest_hash :: pystr
  sc_entries :: "sidecar_entry list"

record commit =
  tree_hash :: pystr
  parent_hashes :: "pystr list"
  author :: pystr
  message :: pystr
  timestamp :: int

section \<open>Looking into parsed JSON\<close>

text \<open>\<open>obj[k]\<close> and \<open>obj.get(k)\<close>.\<close>

fun jget :: "json \<Rightarrow> pystr \<Rightarrow> json res" where
  "jget (JObj kvs) k = (case map_of kvs k of None \<Rightarrow> Inl KeyError | Some v \<Rightarrow> Inr v)"
| "jget _ k = Inl TypeError"

fun jget_opt :: "json \<Rightarrow> pystr \<Rightarrow> json res" where
  "jget_opt (JObj kvs) k = (case map_of kvs k of None \<Rightarrow> Inr JNull | Some v \<Rightarrow> Inr v)"
| "jget_opt _ k = Inl AttributeError"

text \<open>The field types the dataclasses declare.\<close>

fun as_str :: "json \<Rightarrow> pystr res" where
  "as_str (JStr s) = Inr s"
| "as_str _ = Inl Malformed"

fun as_opt_str :: "json \<Rightarrow> pystr option res" where
  "as_opt_str (JStr s) = Inr (Some s)"
| "as_opt_str JNull = Inr None"
| "as_opt_str _ = Inl Malformed"

fun as_int :: "json \<Rightarrow> int res" where
  "as_int (JInt i) = Inr i"
| "as_int _ = Inl Malformed"

fun as_list :: "json \<Rightarrow> json list res" where
  "as_list (JArr vs) = Inr vs"
| "as_list _ = Inl Malformed"

definition jopt :: "pystr option \<Rightarrow> json" where
  "jopt s = (case s of None \<Rightarrow> JNull | Some t \<Rightarrow> JStr t)"

definition get_str :: "json \<Rightarrow> string \<Rightarrow> pystr res" where
  "get_str j k = bindE (jget j (str k)) as_str"

definition get_opt_str :: "json \<Rightarrow> string \<Rightarrow> pystr option res" where
  "get_opt_str j k = bindE (jget_opt j (str k)) as_opt_str"

definition get_int :: "json \<Rightarrow> string \<Rightarrow> int res" where
  "get_int j k = bindE (jget j (str k)) as_int"

definition get_list :: "json \<Rightarrow> string \<Rightarrow> json list res" where
  "get_list j k = bindE (jget j (str k)) as_list"

section \<open>Manifests\<close>

definition manifest_entry_json :: "manifest_entry \<Rightarrow> json" where
  "manifest_entry_json e =
     JObj [(str ''row_hash'', JStr (row_hash e)),
           (str ''query_fingerprint'', jopt (query_fingerprint e))]"

definition manifest_json :: "manifest \<Rightarrow> json" where
  "manifest_json m =
     JObj [(str ''type'', JStr (str ''manifest'')),
           (str ''entries'', JArr (map manifest_entry_json (entries m)))]"

definition serialize_manifest :: "manifest \<Rightarrow> bytes" where
  "serialize_manifest m = json_encode (manifest_json m)"

definition parse_manifest_entry :: "json \<Rightarrow> manifest_entry res" where
  "parse_manifest_entry e =
     bindE (get_str e ''row_hash'') (\<lambda>rh.
     bindE (get_opt_str e ''query_fingerprint'') (\<lambda>qfp.
       Inr \<lparr>row_hash = rh, query_fingerprint = qfp\<rparr>))"

definition deserialize_manifest :: "bytes \<Rightarrow> manifest res" where
  "deserialize_manifest data =
     bindE (json_loads_bytes data) (\<lambda>obj.
     bindE (get_list obj ''entries'') (\<lambda>es.
     bindE (mapE parse_manifest_entry es) (\<lambda>xs. Inr \<lparr>entries = xs\<rparr>)))"

section \<open>Trees\<close>

definition tree_entry_json :: "tree_entry \<Rightarrow> json" where
  "tree_entry_json e =
     JObj ([(str ''name'', JStr (te_name e)), (str ''obj_hash'', JStr (te_hash e)),
            (str ''obj_type'', JStr (te_type e))] @
           (case te_sidecar e of None \<Rightarrow> [] | Some h \<Rightarrow> [(str ''sidecar_hash'', JStr h)]))"

definition tree_json :: "tree \<Rightarrow> json" where
  "tree_json t =
     JObj [(str ''type'', JStr (str ''tree'')),
           (str ''entries'', JArr (map tree_entry_json (sort_key te_name (tree_entries t))))]"

definition serialize_tree :: "tree \<Rightarrow> bytes" where
  "serialize_tree t = json_encode (tree_json t)"

definition parse_tree_entry :: "json \<Rightarrow> tree_entry res" where
  "parse_tree_entry e =
     bindE (get_str e ''name'') (\<lambda>n.
     bindE (get_str e ''obj_type'') (\<lambda>ty.
     bindE (get_str e ''obj_hash'') (\<lambda>h.
     bindE (get_opt_str e ''sidecar_hash'') (\<lambda>sc.
       Inr \<lparr>te_name = n, te_type = ty, te_hash = h, te_sidecar = sc\<rparr>))))"

definition deserialize_tree :: "bytes \<Rightarrow> tree res" where
  "deserialize_tree data =
     bindE (json_loads_bytes data) (\<lambda>obj.
     bindE (get_list obj ''entries'') (\<lambda>es.
     bindE (mapE parse_tree_entry es) (\<lambda>xs. Inr \<lparr>tree_entries = xs\<rparr>)))"

section \<open>Sidecars\<close>

definition sidecar_entry_json :: "sidecar_entry \<Rightarrow> json" where
  "sidecar_entry_json e =
     JObj [(str ''char_count'', JInt (char_count e)), (str ''field_count'', JInt (field_count e)),
           (str ''lang'', jopt (lang e)), (str ''row_hash'', JStr (sc_row_hash e)),
           (str ''token_estimate'', JInt (token_estimate e))]"

definition sidecar_json :: "sidecar \<Rightarrow> json" where
  "sidecar_json s =
     JObj [(str ''type'', JStr (str ''sidecar'')),
           (str ''manifest_hash'', JStr (sc_manifest_hash s)),
           (str ''entries'', JArr (map sidecar_entry_json (sc_entries s)))]"

definition serialize_sidecar :: "sidecar \<Rightarrow> bytes" where
  "serialize_sidecar s = json_encode (sidecar_json s)"

definition parse_sidecar_entry :: "json \<Rightarrow> sidecar_entry res" where
  "parse_sidecar_entry e =
     bindE (get_str e ''row_hash'') (\<lambda>rh.
     bindE (get_int e ''char_count'') (\<lambda>cc.
     bindE (get_int e ''token_estimate'') (\<lambda>te.
     bindE (get_int e ''field_count'') (\<lambda>fc.
     bindE (get_opt_str e ''lang'') (\<lambda>la.
       Inr \<lparr>sc_row_hash = rh, char_count = cc, token_estimate = te, field_count = fc, lang = la\<rparr>)))))"

definition deserialize_sidecar :: "bytes \<Rightarrow> sidecar res" where
  "deserialize_sidecar data =
     bindE (json_loads_bytes data) (\<lambda>obj.
     bindE (get_list obj ''entries'') (\<lambda>es.
     bindE (mapE parse_sidecar_entry es) (\<lambda>xs.
     bindE (get_str obj ''manifest_hash'') (\<lambda>mh.
       Inr \<lparr>sc_manifest_hash = mh, sc_entries = xs\<rparr>))))"

section \<open>Commits\<close>

definition commit_json :: "commit \<Rightarrow> json" where
  "commit_json c =
     JObj [(str ''type'', JStr (str ''commit'')),
           (str ''tree_hash'', JStr (tree_hash c)),
           (str ''parent_hashes'', JArr (map JStr (parent_hashes c))),
           (str ''author'', JStr (author c)),
           (str ''message'', JStr (message c)),
           (str ''timestamp'', JInt (timestamp c))]"

definition serialize_commit :: "commit \<Rightarrow> bytes" where
  "serialize_commit c = json_encode (commit_json c)"

definition deserialize_commit :: "bytes \<Rightarrow> commit res" where
  "deserialize_commit data =
     bindE (json_loads_bytes data) (\<lambda>obj.
     bindE (get_str obj ''tree_hash'') (\<lambda>th.
     bindE (bindE (get_list obj ''parent_hashes'') (mapE as_str)) (\<lambda>ps.
     bindE (get_str obj ''author'') (\<lambda>au.
     bindE (get_str obj ''message'') (\<lambda>me.
     bindE (get_int obj ''timestamp'') (\<lambda>ts.
       Inr \<lparr>tree_hash = th, parent_hashes = ps, author = au, message = me, timestamp = ts\<rparr>))))))"

section \<open>Blobs\<close>

text \<open>
  \<open>int.to_bytes(k, "big")\<close> (and \<open>struct.pack(">Q", n)\<close> for \<open>k = 8\<close>) and its inverse. Python
  raises when \<open>n\<close> does not fit in \<open>k\<close> bytes; the length of a \<open>bytes\<close> object always fits in 8.
\<close>

primrec be_bytes :: "nat \<Rightarrow> nat \<Rightarrow> bytes" where
  "be_bytes 0 n = []"
| "be_bytes (Suc k) n = be_bytes k (n div 256) @ [of_nat (n mod 256)]"

definition be_val :: "bytes \<Rightarrow> nat" where
  "be_val bs = foldl (\<lambda>n b. n * 256 + unat b) 0 bs"

definition serialize_blob :: "bytes \<Rightarrow> bytes" where
  "serialize_blob content = be_bytes 8 (length content) @ content"

definition deserialize_blob :: "bytes \<Rightarrow> bytes res" where
  "deserialize_blob data =
     (if length data < 8 then Inl ValueError
      else let len = be_val (take 8 data); payload = drop 8 data in
           if length payload \<noteq> len then Inl ValueError else Inr payload)"

section \<open>The codec contract\<close>

text \<open>
  What a component that stores an object and reads it back relies on: reading gives the
  object's normal form, and the normal form serialises to the same bytes.
\<close>

locale codec =
  fixes ser :: "'a \<Rightarrow> bytes"
    and deser :: "bytes \<Rightarrow> 'a res"
    and norm :: "'a \<Rightarrow> 'a"
    and ok :: "'a \<Rightarrow> bool"
  assumes deser_ser: "ok x \<Longrightarrow> deser (ser x) = Inr (norm x)"
    and ser_norm: "ok x \<Longrightarrow> ser (norm x) = ser x"
begin

lemma norm_idem: "ok x \<Longrightarrow> ok (norm x) \<Longrightarrow> norm (norm x) = norm x"
  by (metis deser_ser ser_norm sum.inject(2))

lemma ser_eq_iff: "ok x \<Longrightarrow> ok y \<Longrightarrow> ser x = ser y \<longleftrightarrow> norm x = norm y"
  by (metis deser_ser ser_norm sum.inject(2))

end

section \<open>Round trips\<close>

lemma jget_sort_keys [simp]:
  "distinct (map fst kvs) \<Longrightarrow> jget (sort_keys (JObj kvs)) k =
     (case map_of kvs k of None \<Rightarrow> Inl KeyError | Some v \<Rightarrow> Inr (sort_keys v))"
  by (simp add: map_of_sort_key wf_dict_def comp_def map_of_map_snd split: option.split)

lemma jget_opt_sort_keys [simp]:
  "distinct (map fst kvs) \<Longrightarrow> jget_opt (sort_keys (JObj kvs)) k =
     (case map_of kvs k of None \<Rightarrow> Inr JNull | Some v \<Rightarrow> Inr (sort_keys v))"
  by (simp add: map_of_sort_key wf_dict_def comp_def map_of_map_snd split: option.split)

declare sort_keys.simps(2) [simp del]

lemmas get_defs = get_str_def get_opt_str_def get_int_def get_list_def

lemma jopt_simps [simp]:
  "sort_keys (jopt x) = jopt x"  "as_opt_str (jopt x) = Inr x"
  "wf_json (jopt x) \<longleftrightarrow> (case x of None \<Rightarrow> True | Some s \<Rightarrow> valid_str s)"
  by (cases x; simp add: jopt_def)+

definition valid_opt :: "pystr option \<Rightarrow> bool" where
  "valid_opt x \<longleftrightarrow> (case x of None \<Rightarrow> True | Some s \<Rightarrow> valid_str s)"

lemma valid_opt_simps [simp]: "valid_opt None" "valid_opt (Some s) \<longleftrightarrow> valid_str s"
  by (simp_all add: valid_opt_def)

text \<open>The strings of an object are Unicode texts (no lone surrogates).\<close>

definition valid_manifest :: "manifest \<Rightarrow> bool" where
  "valid_manifest m \<longleftrightarrow>
     (\<forall>e \<in> set (entries m). valid_str (row_hash e) \<and> valid_opt (query_fingerprint e))"

definition valid_tree :: "tree \<Rightarrow> bool" where
  "valid_tree t \<longleftrightarrow>
     (\<forall>e \<in> set (tree_entries t). valid_str (te_name e) \<and> valid_str (te_type e) \<and>
        valid_str (te_hash e) \<and> valid_opt (te_sidecar e))"

definition valid_sidecar :: "sidecar \<Rightarrow> bool" where
  "valid_sidecar s \<longleftrightarrow>
     valid_str (sc_manifest_hash s) \<and>
     (\<forall>e \<in> set (sc_entries s). valid_str (sc_row_hash e) \<and> valid_opt (lang e))"

definition valid_commit :: "commit \<Rightarrow> bool" where
  "valid_commit c \<longleftrightarrow>
     valid_str (tree_hash c) \<and> (\<forall>p \<in> set (parent_hashes c). valid_str p) \<and>
     valid_str (author c) \<and> valid_str (message c)"

definition norm_tree :: "tree \<Rightarrow> tree" where
  "norm_tree t = t\<lparr>tree_entries := sort_key te_name (tree_entries t)\<rparr>"

lemma manifest_roundtrip:
  assumes "valid_manifest m"
  shows "deserialize_manifest (serialize_manifest m) = Inr m"
proof -
  have "wf_json (manifest_json m)"
    using assms by (auto simp: manifest_json_def manifest_entry_json_def valid_manifest_def valid_opt_def)
  moreover have "parse_manifest_entry (sort_keys (manifest_entry_json e)) = Inr e" for e
    by (simp add: parse_manifest_entry_def manifest_entry_json_def get_defs)
  ultimately show ?thesis
    by (simp add: deserialize_manifest_def serialize_manifest_def json_roundtrip)
      (simp add: manifest_json_def get_defs mapE_map)
qed

lemma tree_roundtrip:
  assumes "valid_tree t"
  shows "deserialize_tree (serialize_tree t) = Inr (norm_tree t)"
proof -
  have "wf_json (tree_json t)"
    using assms
    by (auto simp: tree_json_def tree_entry_json_def valid_tree_def valid_opt_def split: option.splits)
  moreover have "parse_tree_entry (sort_keys (tree_entry_json e)) = Inr e" for e
    by (cases "te_sidecar e") (simp_all add: parse_tree_entry_def tree_entry_json_def get_defs)
  ultimately show ?thesis
    by (simp add: deserialize_tree_def serialize_tree_def json_roundtrip)
      (simp add: tree_json_def get_defs mapE_map norm_tree_def)
qed

lemma sidecar_roundtrip:
  assumes "valid_sidecar s"
  shows "deserialize_sidecar (serialize_sidecar s) = Inr s"
proof -
  have "wf_json (sidecar_json s)"
    using assms by (auto simp: sidecar_json_def sidecar_entry_json_def valid_sidecar_def valid_opt_def)
  moreover have "parse_sidecar_entry (sort_keys (sidecar_entry_json e)) = Inr e" for e
    by (simp add: parse_sidecar_entry_def sidecar_entry_json_def get_defs)
  ultimately show ?thesis
    by (simp add: deserialize_sidecar_def serialize_sidecar_def json_roundtrip)
      (simp add: sidecar_json_def get_defs mapE_map)
qed

lemma commit_roundtrip:
  assumes "valid_commit c"
  shows "deserialize_commit (serialize_commit c) = Inr c"
proof -
  have "wf_json (commit_json c)"
    using assms by (auto simp: commit_json_def valid_commit_def)
  then show ?thesis
    by (simp add: deserialize_commit_def serialize_commit_def json_roundtrip)
      (simp add: commit_json_def get_defs mapE_map)
qed

lemma length_be_bytes [simp]: "length (be_bytes k n) = k"
  by (induction k arbitrary: n) auto

lemma be_val_snoc: "be_val (bs @ [b]) = be_val bs * 256 + unat b"
  by (simp add: be_val_def)

lemma be_val_be_bytes: "n < 256 ^ k \<Longrightarrow> be_val (be_bytes k n) = n"
proof (induction k arbitrary: n)
  case (Suc k)
  then have "be_val (be_bytes k (n div 256)) = n div 256"
    by (intro Suc.IH) (simp add: less_mult_imp_div_less mult.commute)
  then show ?case by (simp add: be_val_snoc unat_of_nat)
qed (simp add: be_val_def)

lemma blob_roundtrip:
  assumes "length content < 256 ^ 8"
  shows "deserialize_blob (serialize_blob content) = Inr content"
  using be_val_be_bytes [OF assms] by (simp add: deserialize_blob_def serialize_blob_def)

lemma deserialize_blob_iff:
  "deserialize_blob data = Inr content \<longleftrightarrow>
     8 \<le> length data \<and> content = drop 8 data \<and> be_val (take 8 data) = length content"
  by (auto simp: deserialize_blob_def Let_def)

section \<open>The codecs of the store\<close>

interpretation manifest_codec: codec serialize_manifest deserialize_manifest id valid_manifest
  by unfold_locales (simp_all add: manifest_roundtrip)

interpretation tree_codec: codec serialize_tree deserialize_tree norm_tree valid_tree
  by unfold_locales (simp_all add: tree_roundtrip, simp add: norm_tree_def serialize_tree_def tree_json_def)

interpretation sidecar_codec: codec serialize_sidecar deserialize_sidecar id valid_sidecar
  by unfold_locales (simp_all add: sidecar_roundtrip)

interpretation commit_codec: codec serialize_commit deserialize_commit id valid_commit
  by unfold_locales (simp_all add: commit_roundtrip)

interpretation blob_codec: codec serialize_blob deserialize_blob id "\<lambda>c. length c < 256 ^ 8"
  by unfold_locales (simp_all add: blob_roundtrip)

end
