(* ===== verification/Dit_Store.thy ===== *)
theory Dit_Store
  imports Dit_Objects
begin

text \<open>
  \<open>src/dit/core/store.py\<close>: the content-addressed object store, over a directory tree.

  The directory below \<open>store.root\<close> is an association list from relative paths (lists of
  components) to files; any order of the list is an order \<open>iterdir\<close> may give. What the store
  takes from outside the repository is the record \<open>env\<close>: SHA-256, zstd, the clock, the
  recursion limit of the interpreter, the iteration order of a set of strings, the package
  \<open>jcs\<close> (\<open>canonicalize\<close>) and the Unicode tables of \<open>str.lower\<close>. \<open>env_ok\<close>
  states what is documented of them; what a proof needs of \<open>jcs\<close> is a named hypothesis. No file operation fails; an interrupted write leaves at
  most a file under \<open>tmp/\<close>, which no read looks at.
\<close>

record dfile =
  fdata :: bytes
  mtime :: int

type_synonym disk = "(pystr list \<times> dfile) list"

record env =
  sha256 :: "bytes \<Rightarrow> pystr"
  zcompress :: "bytes \<Rightarrow> bytes"
  zdecompress :: "bytes \<Rightarrow> bytes option"
  now :: int
  rec_limit :: nat
  set_order :: "pystr list \<Rightarrow> pystr list"
  canonicalize :: "json \<Rightarrow> bytes res"
  py_lower :: "pystr \<Rightarrow> pystr"

definition hex_char :: "nat \<Rightarrow> bool" where
  "hex_char c \<longleftrightarrow> 48 \<le> c \<and> c \<le> 57 \<or> 97 \<le> c \<and> c \<le> 102"

text \<open>A SHA-256 hex digest.\<close>

definition hex_digest :: "pystr \<Rightarrow> bool" where
  "hex_digest h \<longleftrightarrow> length h = 64 \<and> (\<forall>c \<in> set h. hex_char c)"

text \<open>
  \<open>hexdigest()\<close> is 64 lowercase hex digits, \<open>decompress\<close> inverts \<open>compress\<close>, and iterating
  over a set visits every element once.
\<close>

definition env_ok :: "env \<Rightarrow> bool" where
  "env_ok E \<longleftrightarrow>
     (\<forall>b. hex_digest (sha256 E b)) \<and>
     (\<forall>b. zdecompress E (zcompress E b) = Some b) \<and>
     (\<forall>xs. distinct (set_order E xs) \<and> set (set_order E xs) = set xs)"

section \<open>Paths\<close>

text \<open>
  \<open>_HASH_RE.match\<close>: the \<open>$\<close> of a Python pattern also matches before a final newline, so a
  digest followed by one newline passes.
\<close>

definition hash_re :: "pystr \<Rightarrow> bool" where
  "hash_re h \<longleftrightarrow> hex_digest h \<or> (\<exists>g. h = g @ [10] \<and> hex_digest g)"

lemma hash_re_code [code]:
  "hash_re h \<longleftrightarrow> hex_digest h \<or> (h \<noteq> [] \<and> last h = 10 \<and> hex_digest (butlast h))"
  by (auto simp: hash_re_def) (metis append_butlast_last_id)

definition opath :: "pystr \<Rightarrow> pystr \<Rightarrow> pystr list" where
  "opath obj_type h = [obj_type, take 2 h, take 2 (drop 2 h), h]"

definition object_path :: "pystr \<Rightarrow> pystr \<Rightarrow> pystr list res" where
  "object_path obj_type h = (if \<not> hash_re h then Inl ValueError else Inr (opath obj_type h))"

section \<open>Operations\<close>

definition store_write :: "env \<Rightarrow> disk \<Rightarrow> pystr \<Rightarrow> bytes \<Rightarrow> (pystr \<times> disk) res" where
  "store_write E d obj_type data =
     (let h = sha256 E data in
      bindE (object_path obj_type h) (\<lambda>dest.
        if map_of d dest \<noteq> None then Inr (h, d)
        else Inr (h, AList.update dest \<lparr>fdata = zcompress E data, mtime = now E\<rparr> d)))"

definition store_read :: "env \<Rightarrow> disk \<Rightarrow> pystr \<Rightarrow> pystr \<Rightarrow> bytes option res" where
  "store_read E d obj_type h =
     bindE (object_path obj_type h) (\<lambda>path.
       case map_of d path of
         None \<Rightarrow> Inr None
       | Some f \<Rightarrow>
           (case zdecompress E (fdata f) of
              None \<Rightarrow> Inl ZstdError
            | Some b \<Rightarrow> Inr (Some b)))"

definition store_exists :: "disk \<Rightarrow> pystr \<Rightarrow> pystr \<Rightarrow> bool res" where
  "store_exists d obj_type h =
     bindE (object_path obj_type h) (\<lambda>path. Inr (map_of d path \<noteq> None))"

definition batch_exists :: "disk \<Rightarrow> pystr \<Rightarrow> pystr list \<Rightarrow> bool dict res" where
  "batch_exists d obj_type hashes =
     foldE (\<lambda>h r. bindE (store_exists d obj_type h) (\<lambda>b. Inr (AList.update h b r))) hashes []"

text \<open>\<open>write_batch\<close>: phase 1 collects what is missing, phase 3 writes it (phase 2 makes directories).\<close>

definition batch_collect ::
  "env \<Rightarrow> disk \<Rightarrow> pystr \<Rightarrow> bytes \<Rightarrow> pystr list \<times> bytes dict \<Rightarrow> (pystr list \<times> bytes dict) res" where
  "batch_collect E d obj_type data acc =
     (let (all_hashes, to_write) = acc; h = sha256 E data; all' = all_hashes @ [h] in
      if map_of to_write h \<noteq> None then Inr (all', to_write)
      else bindE (object_path obj_type h) (\<lambda>dest.
             if map_of d dest \<noteq> None then Inr (all', to_write)
             else Inr (all', AList.update h data to_write)))"

definition batch_put :: "env \<Rightarrow> pystr \<Rightarrow> pystr \<times> bytes \<Rightarrow> disk \<Rightarrow> disk res" where
  "batch_put E obj_type item d =
     bindE (object_path obj_type (fst item)) (\<lambda>dest.
       if map_of d dest \<noteq> None then Inr d
       else Inr (AList.update dest \<lparr>fdata = zcompress E (snd item), mtime = now E\<rparr> d))"

definition write_batch :: "env \<Rightarrow> disk \<Rightarrow> pystr \<Rightarrow> bytes list \<Rightarrow> (pystr list \<times> disk) res" where
  "write_batch E d obj_type items =
     (if items = [] then Inr ([], d)
      else bindE (foldE (batch_collect E d obj_type) items ([], [])) (\<lambda>(all_hashes, to_write).
           bindE (foldE (batch_put E obj_type) to_write d) (\<lambda>d'. Inr (all_hashes, d'))))"

text \<open>Calling \<open>write\<close> in a loop, which \<open>write_batch\<close> replaces.\<close>

fun write_each :: "env \<Rightarrow> disk \<Rightarrow> pystr \<Rightarrow> bytes list \<Rightarrow> (pystr list \<times> disk) res" where
  "write_each E d obj_type [] = Inr ([], d)"
| "write_each E d obj_type (data # items) =
     bindE (store_write E d obj_type data) (\<lambda>(h, d').
     bindE (write_each E d' obj_type items) (\<lambda>(hs, d''). Inr (h # hs, d'')))"

section \<open>The store invariant\<close>

text \<open>Every object file holds, compressed, the data its name is the digest of.\<close>

definition object_ok :: "env \<Rightarrow> pystr list \<times> dfile \<Rightarrow> bool" where
  "object_ok E pf \<longleftrightarrow>
     (\<exists>b. zdecompress E (fdata (snd pf)) = Some b \<and> sha256 E b = last (fst pf))"

definition store_inv :: "env \<Rightarrow> disk \<Rightarrow> bool" where
  "store_inv E d \<longleftrightarrow>
     env_ok E \<and> wf_dict d \<and> (\<forall>pf \<in> set d. length (fst pf) = 4 \<longrightarrow> object_ok E pf)"

lemma store_inv_Nil [simp]: "store_inv E [] \<longleftrightarrow> env_ok E"
  by (simp add: store_inv_def)

lemma env_okD:
  assumes "env_ok E"
  shows "hex_digest (sha256 E b)" and "zdecompress E (zcompress E b) = Some b"
    and "distinct (set_order E xs)" and "set (set_order E xs) = set xs"
  using assms by (auto simp: env_ok_def)

lemma store_inv_env [dest]: "store_inv E d \<Longrightarrow> env_ok E"
  by (simp add: store_inv_def)

lemma opath_simps [simp]:
  "opath ty h = opath ty' h' \<longleftrightarrow> ty = ty' \<and> h = h'"  "length (opath ty h) = 4"
  "last (opath ty h) = h"  "hd (opath ty h) = ty"
  by (auto simp: opath_def)

lemma hash_re_digest [simp]: "hex_digest h \<Longrightarrow> hash_re h"
  by (simp add: hash_re_def)

lemma object_path_digest [simp]: "hash_re h \<Longrightarrow> object_path ty h = Inr (opath ty h)"
  by (simp add: object_path_def)

lemma object_path_Inr: "object_path ty h = Inr p \<longleftrightarrow> hash_re h \<and> p = opath ty h"
  by (auto simp: object_path_def)

lemma store_write_Inr:
  assumes "env_ok E"
  shows "store_write E d ty b = Inr (h, d') \<longleftrightarrow>
    h = sha256 E b \<and>
    (if map_of d (opath ty h) \<noteq> None then d' = d
     else d' = AList.update (opath ty h) \<lparr>fdata = zcompress E b, mtime = now E\<rparr> d)"
  using assms by (auto simp: store_write_def Let_def env_okD)

lemma store_write_total:
  "env_ok E \<Longrightarrow> \<exists>d'. store_write E d ty b = Inr (sha256 E b, d')"
  by (auto simp: store_write_def Let_def env_okD)

lemma store_write_inv:
  assumes "store_inv E d" and "store_write E d ty b = Inr (h, d')"
  shows "store_inv E d'"
proof -
  have ok: "env_ok E" using assms(1) by auto
  have "wf_dict d'"
    using assms by (auto simp: store_write_Inr [OF ok] store_inv_def split: if_splits)
  moreover have "object_ok E pf" if "pf \<in> set d'" "length (fst pf) = 4" for pf
    using assms that env_okD [OF ok]
    by (cases pf) (auto simp: store_write_Inr [OF ok] store_inv_def object_ok_def update_new
        map_of_eq_None_iff split: if_splits)
  ultimately show ?thesis using ok by (simp add: store_inv_def)
qed

lemma store_write_mono:
  assumes "env_ok E" and "store_write E d ty b = Inr (h, d')"
  shows "map_of d \<subseteq>\<^sub>m map_of d'"
  using assms by (auto simp: store_write_Inr map_le_def update_conv' split: if_splits)

lemma store_read_Some:
  "store_read E d ty h = Inr (Some b) \<longleftrightarrow>
     hash_re h \<and> (\<exists>f. map_of d (opath ty h) = Some f \<and> zdecompress E (fdata f) = Some b)"
  by (auto simp: store_read_def bindE_eq_Inr object_path_Inr split: option.splits)

lemma store_read_None:
  "store_read E d ty h = Inr None \<longleftrightarrow> hash_re h \<and> map_of d (opath ty h) = None"
  by (auto simp: store_read_def bindE_eq_Inr object_path_Inr split: option.splits)

lemma store_read_Inl:
  "store_read E d ty h = Inl e \<longleftrightarrow>
     \<not> hash_re h \<and> e = ValueError \<or>
     hash_re h \<and> (\<exists>f. map_of d (opath ty h) = Some f \<and> zdecompress E (fdata f) = None) \<and> e = ZstdError"
  by (auto simp: store_read_def object_path_def split: option.splits)

lemma store_read_mono:
  assumes "map_of d \<subseteq>\<^sub>m map_of d'" and "store_read E d ty h = Inr (Some b)"
  shows "store_read E d' ty h = Inr (Some b)"
  using assms by (force simp: store_read_Some map_le_def dom_def)

lemma store_inv_object:
  "store_inv E d \<Longrightarrow> map_of d (opath ty h) = Some f \<Longrightarrow>
     \<exists>b. zdecompress E (fdata f) = Some b \<and> sha256 E b = h"
  by (force simp: store_inv_def object_ok_def dest: map_of_SomeD)

lemma store_read_total:
  assumes "store_inv E d" and "hash_re h"
  shows "\<exists>x. store_read E d ty h = Inr x"
  using store_inv_object [OF assms(1), of ty h] assms(2)
  by (cases "store_read E d ty h") (auto simp: store_read_Inl)

lemma store_read_addr:
  "store_inv E d \<Longrightarrow> store_read E d ty h = Inr (Some b) \<Longrightarrow> sha256 E b = h"
  using store_inv_object [of E d ty h] by (force simp: store_read_Some)

text \<open>Whatever is stored under the digest of \<open>b\<close> is \<open>b\<close>: no collision with what is there.\<close>

definition no_collision :: "env \<Rightarrow> disk \<Rightarrow> pystr \<Rightarrow> bytes \<Rightarrow> bool" where
  "no_collision E d ty b \<longleftrightarrow>
     (case store_read E d ty (sha256 E b) of Inr (Some c) \<Rightarrow> c = b | _ \<Rightarrow> True)"

lemma store_read_write:
  assumes "store_inv E d" and "no_collision E d ty b" and "store_write E d ty b = Inr (h, d')"
  shows "store_read E d' ty h = Inr (Some b)"
proof -
  have ok: "env_ok E" using assms(1) by auto
  have h: "h = sha256 E b" using assms(3) by (simp add: store_write_Inr [OF ok])
  show ?thesis
  proof (cases "map_of d (opath ty h)")
    case None
    with assms(3) h ok show ?thesis
      by (auto simp: store_write_Inr store_read_Some update_conv' env_okD)
  next
    case (Some f)
    with store_inv_object [OF assms(1) this] have "\<exists>c. store_read E d ty h = Inr (Some c)"
      using h ok by (auto simp: store_read_Some env_okD)
    with assms(2,3) h Some show ?thesis
      by (auto simp: no_collision_def store_write_Inr [OF ok])
  qed
qed

section \<open>The contract of the store\<close>

text \<open>
  What the components that write objects rely on. \<open>addr\<close> is the address the store gives to
  the data; a client never sees the directory.
\<close>

locale object_store =
  fixes wr :: "'d \<Rightarrow> pystr \<Rightarrow> bytes \<Rightarrow> (pystr \<times> 'd) res"
    and rd :: "'d \<Rightarrow> pystr \<Rightarrow> pystr \<Rightarrow> bytes option res"
    and addr :: "bytes \<Rightarrow> pystr"
    and inv :: "'d \<Rightarrow> bool"
  assumes wr_total: "inv d \<Longrightarrow> \<exists>d'. wr d ty b = Inr (addr b, d')"
    and wr_inv: "inv d \<Longrightarrow> wr d ty b = Inr (h, d') \<Longrightarrow> inv d'"
    and rd_wr: "inv d \<Longrightarrow> (\<And>c. rd d ty (addr b) = Inr (Some c) \<Longrightarrow> c = b) \<Longrightarrow>
                  wr d ty b = Inr (h, d') \<Longrightarrow> rd d' ty h = Inr (Some b)"
    and rd_mono: "inv d \<Longrightarrow> wr d ty b = Inr (h, d') \<Longrightarrow>
                  rd d ty' h' = Inr (Some c) \<Longrightarrow> rd d' ty' h' = Inr (Some c)"
    and rd_addr: "inv d \<Longrightarrow> rd d ty h = Inr (Some b) \<Longrightarrow> addr b = h"
begin

lemma wr_addr: "inv d \<Longrightarrow> wr d ty b = Inr (h, d') \<Longrightarrow> h = addr b"
  using wr_total [of d ty b] by auto

text \<open>Addresses determine contents, in any two stores, up to collisions of \<open>addr\<close>.\<close>

lemma rd_agree:
  "inv d \<Longrightarrow> inv d' \<Longrightarrow> rd d ty h = Inr (Some b) \<Longrightarrow> rd d' ty' h = Inr (Some c) \<Longrightarrow> addr b = addr c"
  by (metis rd_addr)

end

text \<open>A store of serialised objects: what is put is what is got, up to its normal form.\<close>

locale typed_store = object_store wr rd addr inv + codec ser deser norm ok
  for wr :: "'d \<Rightarrow> pystr \<Rightarrow> bytes \<Rightarrow> (pystr \<times> 'd) res" and rd addr inv
    and ser :: "'a \<Rightarrow> bytes" and deser norm ok
begin

lemma get_put:
  assumes "inv d" and "ok x" and "\<And>c. rd d ty (addr (ser x)) = Inr (Some c) \<Longrightarrow> c = ser x"
    and "wr d ty (ser x) = Inr (h, d')"
  shows "bindE (rd d' ty h) (\<lambda>b. deser (the b)) = Inr (norm x)"
  using rd_wr [OF assms(1,3,4)] deser_ser [OF assms(2)] by simp

lemma put_norm: "ok x \<Longrightarrow> wr d ty (ser (norm x)) = wr d ty (ser x)"
  by (simp add: ser_norm)

end

interpretation disk_store: object_store "store_write E" "store_read E" "sha256 E" "store_inv E" for E
proof unfold_locales
  show "store_read E d' ty h = Inr (Some b)"
    if "store_inv E d" "\<And>c. store_read E d ty (sha256 E b) = Inr (Some c) \<Longrightarrow> c = b"
      "store_write E d ty b = Inr (h, d')" for d ty b h d'
    using that by (intro store_read_write [of E d])
      (auto simp: no_collision_def split: sum.split option.split)
  show "store_read E d' ty' h' = Inr (Some c)"
    if "store_inv E d" "store_write E d ty b = Inr (h, d')" "store_read E d ty' h' = Inr (Some c)"
    for d d' ty b h ty' h' c
    using store_read_mono [OF store_write_mono [OF _ that(2)] that(3)] that(1) by auto
qed (auto intro: store_write_total store_write_inv store_read_addr)

interpretation manifest_store: typed_store "store_write E" "store_read E" "sha256 E" "store_inv E"
    serialize_manifest deserialize_manifest id valid_manifest for E ..

interpretation tree_store: typed_store "store_write E" "store_read E" "sha256 E" "store_inv E"
    serialize_tree deserialize_tree norm_tree valid_tree for E ..

interpretation commit_store: typed_store "store_write E" "store_read E" "sha256 E" "store_inv E"
    serialize_commit deserialize_commit id valid_commit for E ..

interpretation sidecar_store: typed_store "store_write E" "store_read E" "sha256 E" "store_inv E"
    serialize_sidecar deserialize_sidecar id valid_sidecar for E ..

section \<open>\<open>write_batch\<close> is a loop of writes\<close>

text \<open>The pending writes of a batch, appended to the disk.\<close>

definition batch_files :: "env \<Rightarrow> pystr \<Rightarrow> bytes dict \<Rightarrow> disk" where
  "batch_files E ty w =
     map (\<lambda>(h, b). (opath ty h, \<lparr>fdata = zcompress E b, mtime = now E\<rparr>)) w"

lemma batch_put_files:
  assumes "wf_dict w" and "\<forall>h \<in> fst ` set w. hash_re h \<and> map_of d (opath ty h) = None"
  shows "foldE (batch_put E ty) w d = Inr (d @ batch_files E ty w)"
  using assms
proof (induction w arbitrary: d)
  case (Cons hb w)
  obtain h b where hb: "hb = (h, b)" by (cases hb)
  let ?d = "d @ [(opath ty h, \<lparr>fdata = zcompress E b, mtime = now E\<rparr>)]"
  have "map_of d (opath ty h) = None" and "hash_re h" using Cons.prems(2) hb by auto
  then have "batch_put E ty hb d = Inr ?d"
    by (simp add: batch_put_def hb update_new map_of_eq_None_iff)
  moreover have "foldE (batch_put E ty) w ?d = Inr (?d @ batch_files E ty w)"
    using Cons.prems hb
    by (intro Cons.IH) (force simp: wf_dict_Cons map_add_def split: option.splits)+
  ultimately show ?case by (simp add: batch_files_def hb)
qed (simp add: batch_files_def)

lemma map_of_batch_files:
  "map_of (batch_files E ty w) (opath ty h) =
     map_option (\<lambda>b. \<lparr>fdata = zcompress E b, mtime = now E\<rparr>) (map_of w h)"
  by (induction w) (auto simp: batch_files_def)

text \<open>The invariant of the two loops run side by side.\<close>

lemma batch_collect_each:
  assumes "env_ok E" and "wf_dict w"
    and "\<forall>h \<in> fst ` set w. hash_re h \<and> map_of d (opath ty h) = None"
  shows "\<exists>w'. foldE (batch_collect E d ty) items (hs, w) = Inr (hs @ map (sha256 E) items, w') \<and>
           wf_dict w' \<and> (\<forall>h \<in> fst ` set w'. hash_re h \<and> map_of d (opath ty h) = None) \<and>
           write_each E (d @ batch_files E ty w) ty items =
             Inr (map (sha256 E) items, d @ batch_files E ty w')"
  using assms(2,3)
proof (induction items arbitrary: hs w)
  case (Cons b items)
  let ?h = "sha256 E b" and ?f = "\<lparr>fdata = zcompress E b, mtime = now E\<rparr>"
  have re: "hash_re ?h" using assms(1) by (simp add: env_okD)
  show ?case
  proof (cases "map_of w ?h = None \<and> map_of d (opath ty ?h) = None")
    case True
    let ?w = "w @ [(?h, b)]"
    have up: "AList.update ?h b w = ?w" using True by (simp add: update_new map_of_eq_None_iff)
    have files: "batch_files E ty ?w = batch_files E ty w @ [(opath ty ?h, ?f)]"
      by (simp add: batch_files_def)
    have "wf_dict ?w" using Cons.prems(1) True by (auto simp: wf_dict_def map_of_eq_None_iff)
    moreover have "\<forall>k \<in> fst ` set ?w. hash_re k \<and> map_of d (opath ty k) = None"
      using Cons.prems(2) True re by auto
    moreover have "store_write E (d @ batch_files E ty w) ty b = Inr (?h, d @ batch_files E ty ?w)"
    proof -
      have "map_of (d @ batch_files E ty w) (opath ty ?h) = None"
        using True by (simp add: map_of_batch_files map_add_def)
      with re show ?thesis
        by (simp add: store_write_def Let_def files update_new' del: map_of_append)
    qed
    moreover have "batch_collect E d ty b (hs, w) = Inr (hs @ [?h], ?w)"
      using True re up by (simp add: batch_collect_def Let_def)
    ultimately show ?thesis using Cons.IH [where hs = "hs @ [?h]" and w = ?w] by auto
  next
    case False
    then have "map_of (d @ batch_files E ty w) (opath ty ?h) \<noteq> None"
      by (auto simp: map_of_batch_files map_add_def split: option.splits)
    then have "store_write E (d @ batch_files E ty w) ty b = Inr (?h, d @ batch_files E ty w)"
      using re by (simp add: store_write_def Let_def)
    moreover have "batch_collect E d ty b (hs, w) = Inr (hs @ [?h], w)"
      using False re by (auto simp: batch_collect_def Let_def)
    ultimately show ?thesis using Cons.IH [where hs = "hs @ [?h]", OF Cons.prems] by auto
  qed
qed simp

lemma write_batch_each:
  assumes "env_ok E"
  shows "write_batch E d ty items = write_each E d ty items"
proof -
  obtain w where w: "foldE (batch_collect E d ty) items ([], []) = Inr (map (sha256 E) items, w)"
    and "wf_dict w" and "\<forall>h \<in> fst ` set w. hash_re h \<and> map_of d (opath ty h) = None"
    and each: "write_each E d ty items = Inr (map (sha256 E) items, d @ batch_files E ty w)"
    using batch_collect_each [OF assms, of "[]" d ty items "[]"] by (auto simp: batch_files_def)
  then have "foldE (batch_put E ty) w d = Inr (d @ batch_files E ty w)"
    by (intro batch_put_files)
  with w each show ?thesis by (cases items) (auto simp: write_batch_def)
qed

section \<open>Reading typed objects\<close>

text \<open>
  The idiom \<open>data = store.read(ty, h); if data is not None: deserialize(data)\<close> (\<open>load\<close>), and
  \<open>deserialize(store.read(ty, h))\<close> without the test (\<open>load_now\<close>), which raises \<open>TypeError\<close>
  in \<open>json.loads(None)\<close> when the object is missing.
\<close>

definition load :: "env \<Rightarrow> disk \<Rightarrow> string \<Rightarrow> (bytes \<Rightarrow> 'a res) \<Rightarrow> pystr \<Rightarrow> 'a option res" where
  "load E d ty deser h =
     bindE (store_read E d (str ty) h) (\<lambda>x.
       case x of None \<Rightarrow> Inr None | Some b \<Rightarrow> bindE (deser b) (\<lambda>y. Inr (Some y)))"

definition read_commit :: "env \<Rightarrow> disk \<Rightarrow> pystr \<Rightarrow> commit option res" where
  "read_commit E d = load E d ''commits'' deserialize_commit"

definition read_tree :: "env \<Rightarrow> disk \<Rightarrow> pystr \<Rightarrow> tree option res" where
  "read_tree E d = load E d ''trees'' deserialize_tree"

definition read_manifest :: "env \<Rightarrow> disk \<Rightarrow> pystr \<Rightarrow> manifest option res" where
  "read_manifest E d = load E d ''manifests'' deserialize_manifest"

definition read_sidecar :: "env \<Rightarrow> disk \<Rightarrow> pystr \<Rightarrow> sidecar option res" where
  "read_sidecar E d = load E d ''sidecars'' deserialize_sidecar"

definition must :: "err \<Rightarrow> 'a option res \<Rightarrow> 'a res" where
  "must e m = bindE m (\<lambda>x. case x of None \<Rightarrow> Inl e | Some y \<Rightarrow> Inr y)"

lemma must_Inr [res_simps]: "must e m = Inr y \<longleftrightarrow> m = Inr (Some y)"
  by (auto simp: must_def bindE_eq_Inr split: option.splits)

lemma must_simps [simp]: "must e (Inr (Some y)) = Inr y" "must e (Inr None) = Inl e" "must e (Inl f) = Inl f"
  by (simp_all add: must_def)

lemma load_Some:
  "load E d ty deser h = Inr (Some x) \<longleftrightarrow>
     (\<exists>b. store_read E d (str ty) h = Inr (Some b) \<and> deser b = Inr x)"
  by (auto simp: load_def bindE_eq_Inr split: option.splits)

lemma load_None: "load E d ty deser h = Inr None \<longleftrightarrow> store_read E d (str ty) h = Inr None"
  by (auto simp: load_def bindE_eq_Inr split: option.splits)

lemma load_mono:
  "map_of d \<subseteq>\<^sub>m map_of d' \<Longrightarrow> load E d ty deser h = Inr (Some x) \<Longrightarrow> load E d' ty deser h = Inr (Some x)"
  by (auto simp: load_Some dest: store_read_mono)

lemmas read_defs = read_commit_def read_tree_def read_manifest_def read_sidecar_def

lemmas read_mono =
  load_mono [of d d' E "''commits''" deserialize_commit h x for d d' E h x, folded read_commit_def]
  load_mono [of d d' E "''trees''" deserialize_tree h x for d d' E h x, folded read_tree_def]
  load_mono [of d d' E "''manifests''" deserialize_manifest h x for d d' E h x, folded read_manifest_def]
  load_mono [of d d' E "''sidecars''" deserialize_sidecar h x for d d' E h x, folded read_sidecar_def]

text \<open>The addresses of a disk: what is read is on it.\<close>

definition disk_names :: "disk \<Rightarrow> pystr set" where
  "disk_names d = (\<lambda>pf. last (fst pf)) ` set d"

lemma finite_disk_names [simp]: "finite (disk_names d)"
  by (simp add: disk_names_def)

lemma load_disk_names: "load E d ty deser h = Inr (Some x) \<Longrightarrow> h \<in> disk_names d"
  by (force simp: load_Some store_read_Some disk_names_def dest: map_of_SomeD)

lemma load_write:
  assumes "store_inv E d" and "no_collision E d (str ty) b" and "store_write E d (str ty) b = Inr (h, d')"
    and "deser b = Inr y"
  shows "load E d' ty deser h = Inr (Some y)"
  using store_read_write [OF assms(1-3)] assms(4) by (simp add: load_Some)

section \<open>Writes as functions of the disk\<close>

text \<open>In a good environment no write fails: \<open>put\<close> is the disk after \<open>store_write\<close>.\<close>

definition put :: "env \<Rightarrow> string \<Rightarrow> bytes \<Rightarrow> disk \<Rightarrow> disk" where
  "put E ty b d =
     (if map_of d (opath (str ty) (sha256 E b)) \<noteq> None then d
      else AList.update (opath (str ty) (sha256 E b)) \<lparr>fdata = zcompress E b, mtime = now E\<rparr> d)"

lemma store_write_put: "env_ok E \<Longrightarrow> store_write E d (str ty) b = Inr (sha256 E b, put E ty b d)"
  by (auto simp: store_write_Inr put_def)

lemma write_each_puts:
  "env_ok E \<Longrightarrow> write_each E d (str ty) bs = Inr (map (sha256 E) bs, fold (put E ty) bs d)"
  by (induction bs arbitrary: d) (simp_all add: store_write_put)

lemma put_inv: "store_inv E d \<Longrightarrow> store_inv E (put E ty b d)"
  using store_write_inv store_write_put by blast

lemma puts_inv: "store_inv E d \<Longrightarrow> store_inv E (fold (put E ty) bs d)"
  by (induction bs arbitrary: d) (auto intro: put_inv)

lemma put_mono: "map_of d \<subseteq>\<^sub>m map_of (put E ty b d)"
  by (auto simp: put_def map_le_def update_conv')

lemma puts_mono: "map_of d \<subseteq>\<^sub>m map_of (fold (put E ty) bs d)"
  by (induction bs arbitrary: d) (auto intro: map_le_trans put_mono)

text \<open>The data a disk holds as objects of one type.\<close>

definition stored :: "env \<Rightarrow> disk \<Rightarrow> string \<Rightarrow> bytes set" where
  "stored E d ty = {b. \<exists>h. store_read E d (str ty) h = Inr (Some b)}"

definition collision_free :: "env \<Rightarrow> disk \<Rightarrow> string \<Rightarrow> bytes list \<Rightarrow> bool" where
  "collision_free E d ty bs \<longleftrightarrow> inj_on (sha256 E) (set bs \<union> stored E d ty)"

lemma put_read:
  assumes "store_inv E d" and "collision_free E d ty [b]"
  shows "store_read E (put E ty b d) (str ty) (sha256 E b) = Inr (Some b)"
proof (rule store_read_write [OF assms(1)])
  show "no_collision E d (str ty) b"
    using assms(2) store_read_addr [OF assms(1)]
    by (auto simp: no_collision_def collision_free_def stored_def inj_on_def split: sum.splits option.splits)
qed (use assms(1) in \<open>auto simp: store_write_put\<close>)

lemma stored_put: "env_ok E \<Longrightarrow> stored E (put E ty b d) ty \<subseteq> insert b (stored E d ty)"
  by (auto simp: stored_def put_def store_read_Some update_conv' env_okD split: if_splits)

lemma puts_read:
  assumes "store_inv E d" and "collision_free E d ty bs" and "b \<in> set bs"
  shows "store_read E (fold (put E ty) bs d) (str ty) (sha256 E b) = Inr (Some b)"
  using assms
proof (induction bs arbitrary: d)
  case (Cons c bs)
  let ?d = "put E ty c d"
  have "stored E ?d ty \<subseteq> insert c (stored E d ty)"
    using Cons.prems(1) by (intro stored_put) auto
  then have "collision_free E ?d ty bs" and c: "collision_free E d ty [c]"
    using Cons.prems(2) unfolding collision_free_def by (auto intro: inj_on_subset)
  then show ?case
    using Cons.IH [of ?d] Cons.prems put_inv store_read_mono [OF puts_mono put_read [OF Cons.prems(1) c]]
    by auto
qed simp

section \<open>A concrete environment\<close>

text \<open>
  An instance of what is outside the repository, at which the theorems are applied: a digest
  of 64 hex digits made of two checksums of the data, no compression, and sets
  iterated in order of first occurrence.
\<close>

primrec hex_str :: "nat \<Rightarrow> int \<Rightarrow> pystr" where
  "hex_str 0 n = []"
| "hex_str (Suc k) n = hex_str k (n div 16) @ [hex_digit (nat (n mod 16))]"

definition demo_digest :: "bytes \<Rightarrow> pystr" where
  "demo_digest b =
     (let (x, y) = foldl (\<lambda>(x, y) c. (x + uint c + 1, x + y)) (7, 0) b in hex_str 32 y @ hex_str 32 x)"

definition demo_env :: env where
  "demo_env = \<lparr>sha256 = demo_digest, zcompress = id, zdecompress = Some, now = 1000,
     rec_limit = 50, set_order = remdups, canonicalize = (\<lambda>v. Inr (json_encode v)),
     py_lower = map (\<lambda>c. if 65 \<le> c \<and> c \<le> 90 then c + 32 else c)\<rparr>"

lemma demo_env_simps [simp]:
  "sha256 demo_env = demo_digest" "zcompress demo_env = id" "zdecompress demo_env = Some"
  "now demo_env = 1000" "rec_limit demo_env = 50" "set_order demo_env = remdups"
  by (simp_all add: demo_env_def)

lemma hex_char_hex_digit: "n < 16 \<Longrightarrow> hex_char (hex_digit n)"
  by (auto simp: hex_char_def hex_digit_def)

lemma hex_str_chars: "length (hex_str k n) = k \<and> (\<forall>c \<in> set (hex_str k n). hex_char c)"
proof (induction k arbitrary: n)
  case (Suc k)
  have "nat (n mod 16) < 16" by (simp add: nat_less_iff)
  with Suc show ?case by (auto intro: hex_char_hex_digit)
qed simp

lemma demo_env_ok [simp]: "env_ok demo_env"
  using hex_str_chars
  by (auto simp: env_ok_def hex_digest_def demo_digest_def Let_def split_beta)

lemma put_read_other: "ty \<noteq> ty' \<Longrightarrow> store_read E (put E ty b d) (str ty') h = store_read E d (str ty') h"
  by (simp add: store_read_def object_path_def put_def update_conv')

lemma puts_read_other:
  "ty \<noteq> ty' \<Longrightarrow> store_read E (fold (put E ty) bs d) (str ty') h = store_read E d (str ty') h"
  by (induction bs arbitrary: d) (simp_all add: put_read_other)

lemma stored_puts_other: "ty \<noteq> ty' \<Longrightarrow> stored E (fold (put E ty) bs d) ty' = stored E d ty'"
  by (simp add: stored_def puts_read_other)

lemma stored_Nil [simp]: "stored E [] ty = {}"
  by (auto simp: stored_def store_read_Some)

lemma collision_free_Nil: "distinct (map (sha256 E) bs) \<Longrightarrow> collision_free E [] ty bs"
  by (simp add: collision_free_def distinct_map)

section \<open>Properties\<close>

text \<open>
  C1: an object written to the store is read back as it was (a tree with its entries sorted by
  name), for each of the four kinds of objects, unless the digest collides with one stored.
\<close>

theorem stored_objects_roundtrip:
  assumes "store_inv E d"
  shows "(valid_manifest m \<and> no_collision E d (str ''manifests'') (serialize_manifest m) \<and>
          store_write E d (str ''manifests'') (serialize_manifest m) = Inr (h, d') \<longrightarrow>
          read_manifest E d' h = Inr (Some m)) \<and>
         (valid_sidecar s \<and> no_collision E d (str ''sidecars'') (serialize_sidecar s) \<and>
          store_write E d (str ''sidecars'') (serialize_sidecar s) = Inr (h, d') \<longrightarrow>
          read_sidecar E d' h = Inr (Some s)) \<and>
         (valid_tree t \<and> no_collision E d (str ''trees'') (serialize_tree t) \<and>
          store_write E d (str ''trees'') (serialize_tree t) = Inr (h, d') \<longrightarrow>
          read_tree E d' h = Inr (Some (norm_tree t))) \<and>
         (valid_commit c \<and> no_collision E d (str ''commits'') (serialize_commit c) \<and>
          store_write E d (str ''commits'') (serialize_commit c) = Inr (h, d') \<longrightarrow>
          read_commit E d' h = Inr (Some c))"
  unfolding read_defs
  by (intro conjI impI; elim conjE; (rule load_write [OF assms], assumption, assumption,
      simp add: manifest_roundtrip sidecar_roundtrip tree_roundtrip commit_roundtrip))

definition demo_commit :: commit where
  "demo_commit = \<lparr>tree_hash = str ''abc'', parent_hashes = [str ''p1'', str ''p2''],
     author = str ''A <a@b>'', message = [8364, 34, 10], timestamp = -5\<rparr>"

definition demo_tree :: tree where
  "demo_tree = \<lparr>tree_entries =
     [\<lparr>te_name = str ''z.jsonl'', te_type = str ''manifest'', te_hash = str ''11'', te_sidecar = Some (str ''22'')\<rparr>,
      \<lparr>te_name = str ''data'', te_type = str ''tree'', te_hash = str ''33'', te_sidecar = None\<rparr>]\<rparr>"

theorem stored_objects_roundtrip_witness:
  "\<exists>h d' g d''.
     store_write demo_env [] (str ''commits'') (serialize_commit demo_commit) = Inr (h, d') \<and>
     read_commit demo_env d' h = Inr (Some demo_commit) \<and>
     store_write demo_env [] (str ''trees'') (serialize_tree demo_tree) = Inr (g, d'') \<and>
     read_tree demo_env d'' g = Inr (Some \<lparr>tree_entries = rev (tree_entries demo_tree)\<rparr>)"
proof -
  obtain d' where d': "store_write demo_env [] (str ''commits'') (serialize_commit demo_commit) =
      Inr (sha256 demo_env (serialize_commit demo_commit), d')"
    using store_write_total [OF demo_env_ok] by blast
  obtain d'' where d'': "store_write demo_env [] (str ''trees'') (serialize_tree demo_tree) =
      Inr (sha256 demo_env (serialize_tree demo_tree), d'')"
    using store_write_total [OF demo_env_ok] by blast
  have n: "no_collision demo_env [] ty b" for ty b
    by (simp add: no_collision_def store_read_def env_okD(1) [OF demo_env_ok, simplified])
  have v: "valid_commit demo_commit" "valid_tree demo_tree"
    by (simp_all add: valid_commit_def valid_tree_def demo_commit_def demo_tree_def str_def
        scalar_def is_high_def is_low_def)
  have "norm_tree demo_tree = \<lparr>tree_entries = rev (tree_entries demo_tree)\<rparr>"
    by (simp add: norm_tree_def demo_tree_def str_def sort_key_def)
  with stored_objects_roundtrip [where E = demo_env and d = "[]"] d' d'' n v show ?thesis
    by (metis store_inv_Nil demo_env_ok)
qed

text \<open>
  C2: no operation returns data that does not have the digest it was asked for, however the
  store came about by writes; reading never fails on a valid hash.
\<close>

theorem store_integrity:
  assumes "store_inv E d" and "store_write E d ty b = Inr (g, d')" and "hash_re h"
  shows "store_inv E d' \<and>
         (\<exists>x. store_read E d' ty' h = Inr x \<and> (\<forall>c. x = Some c \<longrightarrow> sha256 E c = h)) \<and>
         (\<forall>c. store_read E d ty' h = Inr (Some c) \<longrightarrow> store_read E d' ty' h = Inr (Some c))"
proof -
  have d': "store_inv E d'" using store_write_inv assms by blast
  show ?thesis
    using d' store_read_total [OF d' assms(3), of ty'] disk_store.rd_addr [OF d']
      disk_store.rd_mono [OF assms(1,2)] by blast
qed

theorem store_integrity_witness:
  "\<exists>d'. store_write demo_env [] (str ''blobs'') [1, 2, 3] = Inr (demo_digest [1, 2, 3], d') \<and>
     store_inv demo_env d' \<and> (\<exists>x. store_read demo_env d' (str ''blobs'') (replicate 64 48) = Inr x)"
proof -
  obtain d' where d': "store_write demo_env [] (str ''blobs'') [1, 2, 3] = Inr (demo_digest [1, 2, 3], d')"
    using store_write_total [OF demo_env_ok] by (metis demo_env_simps(1))
  have "hash_re (replicate 64 48)"
    by (simp add: hash_re_def hex_digest_def hex_char_def)
  with store_integrity [OF _ d', of "replicate 64 48" "str ''blobs''"] d' show ?thesis by auto
qed

text \<open>
  \<open>write_batch\<close> is \<open>write\<close> in a loop: the same hashes in the same order, and the same files,
  for any list of items, repeated ones and ones already stored included.
\<close>

theorem write_batch_is_loop:
  assumes "env_ok E"
  shows "write_batch E d ty items = write_each E d ty items \<and>
         (\<exists>d'. write_batch E d ty items = Inr (map (sha256 E) items, d'))"
  using write_batch_each [OF assms] batch_collect_each [OF assms, of "[]" d ty items "[]"]
  by (auto simp: batch_files_def)

theorem write_batch_is_loop_witness:
  "write_batch demo_env [] (str ''blobs'') [[1], [2], [1]] =
   write_each demo_env [] (str ''blobs'') [[1], [2], [1]]"
  using write_batch_is_loop [OF demo_env_ok] by blast

section \<open>Stores that only grow\<close>

definition grows :: "env \<Rightarrow> disk \<Rightarrow> disk \<Rightarrow> bool" where
  "grows E d d' \<longleftrightarrow> store_inv E d \<longrightarrow> store_inv E d' \<and> map_of d \<subseteq>\<^sub>m map_of d'"

named_theorems grow_intros "operations that only add to a store"

lemma grows_refl [grow_intros]: "grows E d d"
  by (simp add: grows_def)

lemma grows_trans: "grows E d d1 \<Longrightarrow> grows E d1 d2 \<Longrightarrow> grows E d d2"
  by (auto simp: grows_def intro: map_le_trans)

lemma grows_write [grow_intros]: "store_write E d ty b = Inr (h, d') \<Longrightarrow> grows E d d'"
  by (auto simp: grows_def intro: store_write_inv store_write_mono)

lemma grows_put: "env_ok E \<Longrightarrow> grows E d (put E ty b d)"
  by (simp add: grows_def put_inv put_mono)

end
