(* ===== verification/Dit_Tree.thy ===== *)
theory Dit_Tree
  imports Dit_Store "HOL-Library.Multiset"
begin

text \<open>
  \<open>src/dit/core/tree_walker.py\<close> and \<open>src/dit/core/tree_builder.py\<close>: nested trees read as
  flat maps from paths to entries, looked up by path, and built from flat maps.

  Recursion over the nesting of trees is bounded as in the interpreter: the argument \<open>n\<close> is
  the depth left before \<open>RecursionError\<close>. A flat entry is \<open>(obj_type, obj_hash, sidecar_hash)\<close>.
\<close>

type_synonym flat_entry = "pystr \<times> pystr \<times> pystr option"

definition flat_of :: "tree_entry \<Rightarrow> flat_entry" where
  "flat_of e = (te_type e, te_hash e, te_sidecar e)"

definition is_tree :: "tree_entry \<Rightarrow> bool" where
  "is_tree e \<longleftrightarrow> te_type e = str ''tree''"

section \<open>Flattening\<close>

definition full_path :: "pystr \<Rightarrow> pystr \<Rightarrow> pystr" where
  "full_path prefix name = (if prefix = [] then prefix @ name else prefix @ [slash] @ name)"

primrec flatten_tree :: "env \<Rightarrow> disk \<Rightarrow> nat \<Rightarrow> pystr \<Rightarrow> pystr \<Rightarrow> flat_entry dict res" where
  "flatten_tree E d 0 = (\<lambda>th prefix. Inl RecursionError)"
| "flatten_tree E d (Suc n) = (\<lambda>th prefix.
     bindE (read_tree E d th) (\<lambda>x.
       case x of
         None \<Rightarrow> Inr []
       | Some t \<Rightarrow>
           foldE (\<lambda>e result.
             if is_tree e
             then bindE (flatten_tree E d n (te_hash e) (full_path prefix (te_name e)))
                    (\<lambda>sub. Inr (dict_update result sub))
             else Inr (AList.update (full_path prefix (te_name e)) (flat_of e) result))
           (tree_entries t) []))"

section \<open>Looking up a path\<close>

definition find_entry :: "tree \<Rightarrow> pystr \<Rightarrow> tree_entry option" where
  "find_entry t name = List.find (\<lambda>e. te_name e = name) (tree_entries t)"

text \<open>The loop over the components of a path.\<close>

fun resolve_parts :: "env \<Rightarrow> disk \<Rightarrow> pystr \<Rightarrow> pystr list \<Rightarrow> tree_entry option res" where
  "resolve_parts E d cur [] = Inr None"
| "resolve_parts E d cur (part # rest) =
     bindE (read_tree E d cur) (\<lambda>x.
       case x of
         None \<Rightarrow> Inr None
       | Some node \<Rightarrow>
           (case find_entry node part of
              None \<Rightarrow> Inr None
            | Some found \<Rightarrow>
                if rest = [] then Inr (Some found)
                else if \<not> is_tree found then Inr None
                else resolve_parts E d (te_hash found) rest))"

definition resolve_entry :: "env \<Rightarrow> disk \<Rightarrow> pystr \<Rightarrow> pystr \<Rightarrow> flat_entry option res" where
  "resolve_entry E d th path =
     (let clean_path = strip_slash path in
      if clean_path = [] \<or> clean_path = str ''.'' then Inr None
      else bindE (resolve_parts E d th (split_slash clean_path)) (\<lambda>x. Inr (map_option flat_of x)))"

text \<open>\<open>resolve_path\<close> lists a directory: the same loop, then the tree it ends at.\<close>

definition resolve_path :: "env \<Rightarrow> disk \<Rightarrow> pystr \<Rightarrow> pystr \<Rightarrow> tree_entry list option res" where
  "resolve_path E d th path =
     bindE (store_read E d (str ''trees'') th) (\<lambda>data.
       case data of
         None \<Rightarrow> Inr None
       | Some b \<Rightarrow>
           if path = [] \<or> path = str ''.''
           then bindE (deserialize_tree b) (\<lambda>t. Inr (Some (tree_entries t)))
           else bindE (resolve_parts E d th (split_slash (strip_slash path))) (\<lambda>x.
             case x of
               None \<Rightarrow> Inr None
             | Some found \<Rightarrow>
                 if \<not> is_tree found then Inr None
                 else bindE (read_tree E d (te_hash found)) (\<lambda>leaf. Inr (map_option tree_entries leaf))))"

section \<open>Building\<close>

text \<open>A staged value is a pair, or a triple with the hash of the sidecar.\<close>

datatype staged_value = Staged2 pystr pystr | Staged3 pystr pystr "pystr option"

type_synonym staged = "staged_value dict"

fun staged_flat :: "staged_value \<Rightarrow> flat_entry" where
  "staged_flat (Staged2 ty h) = (ty, h, None)"
| "staged_flat (Staged3 ty h sc) = (ty, h, sc)"

definition staged_tree_entry :: "pystr \<times> staged_value \<Rightarrow> tree_entry" where
  "staged_tree_entry nv =
     (let (ty, h, sc) = staged_flat (snd nv)
      in \<lparr>te_name = fst nv, te_type = ty, te_hash = h, te_sidecar = sc\<rparr>)"

definition subtree_entry :: "pystr \<Rightarrow> pystr \<Rightarrow> tree_entry" where
  "subtree_entry name h = \<lparr>te_name = name, te_type = str ''tree'', te_hash = h, te_sidecar = None\<rparr>"

text \<open>One path put into \<open>direct\<close> or into its \<open>subdirs\<close>, a \<open>defaultdict(dict)\<close>.\<close>

definition split_step ::
  "pystr \<Rightarrow> pystr \<times> staged_value \<Rightarrow> staged \<times> staged dict \<Rightarrow> staged \<times> staged dict" where
  "split_step prefix pv acc =
     (let (direct, subdirs) = acc; (path, value) = pv in
      if \<not> py_startswith path prefix then acc
      else let rest = drop (length prefix) path in
        if slash \<notin> set rest then (AList.update rest value direct, subdirs)
        else let subdir = takeWhile (\<lambda>c. c \<noteq> slash) rest;
                 sub_rest = drop (Suc (length subdir)) rest;
                 old = (case map_of subdirs subdir of None \<Rightarrow> [] | Some s \<Rightarrow> s) in
          (direct, AList.update subdir
             (AList.update (prefix @ subdir @ [slash] @ sub_rest) value old) subdirs))"

definition split_level :: "pystr \<Rightarrow> staged \<Rightarrow> staged \<times> staged dict" where
  "split_level prefix staged = fold (split_step prefix) staged ([], [])"

primrec build_subtree :: "env \<Rightarrow> nat \<Rightarrow> staged \<Rightarrow> pystr \<Rightarrow> disk \<Rightarrow> (pystr \<times> disk) res" where
  "build_subtree E 0 = (\<lambda>staged prefix d. Inl RecursionError)"
| "build_subtree E (Suc n) = (\<lambda>staged prefix d.
     let (direct, subdirs) = split_level prefix staged in
     bindE (foldE (\<lambda>(name, sub) (es, d).
              bindE (build_subtree E n sub (prefix @ name @ [slash]) d) (\<lambda>(h, d').
                Inr (es @ [subtree_entry name h], d')))
            subdirs (map staged_tree_entry direct, d))
       (\<lambda>(es, d). store_write E d (str ''trees'') (serialize_tree \<lparr>tree_entries = es\<rparr>)))"

definition build_nested_tree :: "env \<Rightarrow> staged \<Rightarrow> disk \<Rightarrow> (pystr \<times> disk) res" where
  "build_nested_tree E staged d = build_subtree E (rec_limit E) staged [] d"

section \<open>What a flat map holds\<close>

text \<open>The path of the components \<open>ps\<close> below \<open>prefix\<close>.\<close>

definition below :: "pystr \<Rightarrow> pystr list \<Rightarrow> pystr" where
  "below prefix ps = (if prefix = [] then join_slash ps else prefix @ [slash] @ join_slash ps)"

lemma below_simps [simp]:
  "below [] ps = join_slash ps"  "below prefix [w] = full_path prefix w"
  by (simp_all add: below_def full_path_def)

lemma below_Cons: "w \<noteq> [] \<Longrightarrow> ps \<noteq> [] \<Longrightarrow> below prefix (w # ps) = below (full_path prefix w) ps"
  by (simp add: below_def full_path_def join_slash_Cons)

lemma below_inj:
  assumes "ps \<noteq> []" "qs \<noteq> []" "\<And>w. w \<in> set ps \<union> set qs \<Longrightarrow> slash \<notin> set w"
    and "below prefix ps = below prefix qs"
  shows "ps = qs"
proof -
  have "join_slash ps = join_slash qs" using assms(4) by (auto simp: below_def split: if_splits)
  then have "split_slash (join_slash ps) = split_slash (join_slash qs)" by simp
  with assms(1-3) show ?thesis by (simp add: split_join_slash)
qed

text \<open>A name of a directory entry: not empty, no slash, not a lone dot.\<close>

definition name_ok :: "pystr \<Rightarrow> bool" where
  "name_ok w \<longleftrightarrow> w \<noteq> [] \<and> slash \<notin> set w \<and> w \<noteq> str ''.''"

text \<open>
  A stored tree of depth at most \<open>n\<close>: present trees parse, names are good and occur once at
  each level. A missing subtree is an empty one for every reader.
\<close>

primrec tree_ok :: "env \<Rightarrow> disk \<Rightarrow> nat \<Rightarrow> pystr \<Rightarrow> bool" where
  "tree_ok E d 0 = (\<lambda>th. False)"
| "tree_ok E d (Suc n) = (\<lambda>th.
     case read_tree E d th of
       Inl _ \<Rightarrow> False
     | Inr None \<Rightarrow> True
     | Inr (Some t) \<Rightarrow>
         distinct (map te_name (tree_entries t)) \<and>
         (\<forall>e \<in> set (tree_entries t). name_ok (te_name e) \<and> (is_tree e \<longrightarrow> tree_ok E d n (te_hash e))))"

text \<open>The flat map of one entry.\<close>

definition flat_piece :: "env \<Rightarrow> disk \<Rightarrow> nat \<Rightarrow> pystr \<Rightarrow> tree_entry \<Rightarrow> flat_entry dict res" where
  "flat_piece E d n prefix e =
     (if is_tree e then flatten_tree E d n (te_hash e) (full_path prefix (te_name e))
      else Inr [(full_path prefix (te_name e), flat_of e)])"

lemma flatten_tree_Suc:
  "flatten_tree E d (Suc n) th prefix =
     bindE (read_tree E d th) (\<lambda>x. case x of None \<Rightarrow> Inr [] | Some t \<Rightarrow>
       foldE (\<lambda>e r. bindE (flat_piece E d n prefix e) (\<lambda>s. Inr (dict_update r s))) (tree_entries t) [])"
proof -
  have "(if is_tree e
         then bindE (flatten_tree E d n (te_hash e) (full_path prefix (te_name e))) (\<lambda>sub. Inr (dict_update r sub))
         else Inr (AList.update (full_path prefix (te_name e)) (flat_of e) r)) =
        bindE (flat_piece E d n prefix e) (\<lambda>s. Inr (dict_update r s))" for e r
    by (simp add: flat_piece_def dict_update_single)
  then show ?thesis by simp
qed

declare flatten_tree.simps(2) [simp del]

lemma flatten_tree_pieces:
  assumes "read_tree E d th = Inr (Some t)" and "flatten_tree E d (Suc n) th prefix = Inr flat"
  obtains ss where "list_all2 (\<lambda>e s. flat_piece E d n prefix e = Inr s) (tree_entries t) ss"
    and "flat = foldl dict_update [] ss"
  using assms by (auto simp: flatten_tree_Suc mapE_eq_Inr dest!: foldE_dict_update)

lemma foldE_dict_update_total:
  "(\<And>e. e \<in> set es \<Longrightarrow> \<exists>s. c e = Inr s) \<Longrightarrow>
   \<exists>flat. foldE (\<lambda>e r. bindE (c e) (\<lambda>s. Inr (dict_update r s))) es r = Inr flat"
  by (induction es arbitrary: r) fastforce+

lemma flatten_tree_wf: "flatten_tree E d n th prefix = Inr flat \<Longrightarrow> wf_dict flat"
proof (cases n)
  case (Suc m)
  moreover assume "flatten_tree E d n th prefix = Inr flat"
  ultimately show ?thesis
    by (auto simp: flatten_tree_Suc bindE_eq_Inr wf_dict_foldl_update dest!: foldE_dict_update split: option.splits)
qed simp

lemma flatten_tree_total: "tree_ok E d n th \<Longrightarrow> \<exists>flat. flatten_tree E d n th prefix = Inr flat"
proof (induction n arbitrary: th prefix)
  case (Suc n)
  then show ?case
    by (auto simp: flatten_tree_Suc flat_piece_def split: sum.splits option.splits
        intro!: foldE_dict_update_total)
qed simp


section \<open>Flattening and looking up agree\<close>

lemma find_entry_Some: "find_entry t w = Some e \<Longrightarrow> e \<in> set (tree_entries t) \<and> te_name e = w"
  by (auto simp: find_entry_def find_Some_iff)

lemma find_entry_name:
  "distinct (map te_name (tree_entries t)) \<Longrightarrow> e \<in> set (tree_entries t) \<Longrightarrow>
   find_entry t (te_name e) = Some e"
  unfolding find_entry_def
  by (auto simp: find_Some_iff in_set_conv_nth distinct_conv_nth)

text \<open>The path \<open>p\<close> below \<open>prefix\<close> leads to the leaf \<open>e\<close> of the tree \<open>th\<close>.\<close>

definition leaf_at :: "env \<Rightarrow> disk \<Rightarrow> pystr \<Rightarrow> pystr \<Rightarrow> pystr \<Rightarrow> tree_entry \<Rightarrow> bool" where
  "leaf_at E d th prefix p e \<longleftrightarrow>
     (\<exists>ps. ps \<noteq> [] \<and> p = below prefix ps \<and> (\<forall>w \<in> set ps. name_ok w) \<and>
        resolve_parts E d th ps = Inr (Some e) \<and> \<not> is_tree e)"

lemma leaf_at_step:
  assumes "read_tree E d th = Inr (Some t)" and "distinct (map te_name (tree_entries t))"
    and "\<forall>e \<in> set (tree_entries t). name_ok (te_name e)"
  shows "leaf_at E d th prefix p x \<longleftrightarrow>
    (\<exists>e \<in> set (tree_entries t).
       if is_tree e then leaf_at E d (te_hash e) (full_path prefix (te_name e)) p x
       else p = full_path prefix (te_name e) \<and> x = e)"
proof
  assume "leaf_at E d th prefix p x"
  then obtain ps where ps: "ps \<noteq> []" "p = below prefix ps" "\<forall>w \<in> set ps. name_ok w"
      "resolve_parts E d th ps = Inr (Some x)" "\<not> is_tree x"
    by (auto simp: leaf_at_def)
  then obtain w qs where w: "ps = w # qs" by (cases ps) auto
  with ps assms(1) obtain e where "find_entry t w = Some e"
    and r: "qs = [] \<and> x = e \<or> qs \<noteq> [] \<and> is_tree e \<and> resolve_parts E d (te_hash e) qs = Inr (Some x)"
    by (auto split: option.splits if_splits)
  note e = find_entry_Some [OF this(1)]
  have "w \<noteq> []" using ps(3) w by (auto simp: name_ok_def)
  with e r ps w have "if is_tree e then leaf_at E d (te_hash e) (full_path prefix (te_name e)) p x
       else p = full_path prefix (te_name e) \<and> x = e"
    by (auto simp: leaf_at_def below_Cons)
  with e show "\<exists>e \<in> set (tree_entries t).
      if is_tree e then leaf_at E d (te_hash e) (full_path prefix (te_name e)) p x
      else p = full_path prefix (te_name e) \<and> x = e" by blast
next
  assume "\<exists>e \<in> set (tree_entries t).
      if is_tree e then leaf_at E d (te_hash e) (full_path prefix (te_name e)) p x
      else p = full_path prefix (te_name e) \<and> x = e"
  then obtain e where e: "e \<in> set (tree_entries t)"
    and x: "if is_tree e then leaf_at E d (te_hash e) (full_path prefix (te_name e)) p x
      else p = full_path prefix (te_name e) \<and> x = e" by blast
  note f = find_entry_name [OF assms(2) e]
  have ok: "name_ok (te_name e)" using assms(3) e by blast
  show "leaf_at E d th prefix p x"
  proof (cases "is_tree e")
    case False
    with x f ok assms(1) show ?thesis
      unfolding leaf_at_def by (intro exI [of _ "[te_name e]"]) auto
  next
    case True
    with x obtain ps where ps: "ps \<noteq> []" "p = below (full_path prefix (te_name e)) ps"
      "\<forall>w \<in> set ps. name_ok w" "resolve_parts E d (te_hash e) ps = Inr (Some x)" "\<not> is_tree x"
      by (auto simp: leaf_at_def)
    with f ok True assms(1) show ?thesis
      unfolding leaf_at_def
      by (intro exI [of _ "te_name e # ps"]) (auto simp: below_Cons name_ok_def)
  qed
qed

lemma leaf_at_unique: "leaf_at E d th prefix p x \<Longrightarrow> leaf_at E d th prefix p y \<Longrightarrow> x = y"
  unfolding leaf_at_def using below_inj [of _ _ prefix] by (metis Un_iff name_ok_def old.sum.inject(2) option.inject)

lemma flatten_tree_leaf:
  assumes "tree_ok E d n th" and "flatten_tree E d n th prefix = Inr flat"
  shows "map_of flat p = Some v \<longleftrightarrow> (\<exists>e. leaf_at E d th prefix p e \<and> v = flat_of e)"
  using assms
proof (induction n arbitrary: th prefix flat p v)
  case (Suc n)
  show ?case
  proof (cases "read_tree E d th")
    case (Inr x)
    show ?thesis
    proof (cases x)
      case None
      have "\<not> leaf_at E d th prefix p e" for e
        using Inr None unfolding leaf_at_def by (auto simp: neq_Nil_conv)
      with Inr None Suc.prems show ?thesis by (auto simp: flatten_tree_Suc)
    next
      case (Some t)
      with Inr have t: "read_tree E d th = Inr (Some t)" by simp
      with Suc.prems(1) have dist: "distinct (map te_name (tree_entries t))"
        and ok: "\<forall>e \<in> set (tree_entries t). name_ok (te_name e)"
        and sub: "\<And>e. e \<in> set (tree_entries t) \<Longrightarrow> is_tree e \<Longrightarrow> tree_ok E d n (te_hash e)"
        by auto
      note step = leaf_at_step [OF t dist ok]
      obtain ss where ss: "list_all2 (\<lambda>e s. flat_piece E d n prefix e = Inr s) (tree_entries t) ss"
        and flat: "flat = foldl dict_update [] ss"
        using t Suc.prems(2) by (rule flatten_tree_pieces)
      have piece: "map_of s q = Some u \<longleftrightarrow>
          (\<exists>x. (if is_tree e then leaf_at E d (te_hash e) (full_path prefix (te_name e)) q x
              else q = full_path prefix (te_name e) \<and> x = e) \<and> u = flat_of x)"
        if "e \<in> set (tree_entries t)" "flat_piece E d n prefix e = Inr s" for e s q u
        using that Suc.IH [OF sub] by (auto simp: flat_piece_def split: if_splits)
      have wf: "wf_dict s" if "s \<in> set ss" for s
        using list_all2_setD2 [OF ss that]
        by (auto simp: flat_piece_def wf_dict_Cons dest: flatten_tree_wf split: if_splits)
      show ?thesis
      proof
        assume "map_of flat p = Some v"
        then obtain s where "s \<in> set ss" "map_of s p = Some v"
          using map_of_foldl_updateD [of "[]" ss p v] wf flat by auto
        with list_all2_setD2 [OF ss] piece step show "\<exists>e. leaf_at E d th prefix p e \<and> v = flat_of e"
          by blast
      next
        assume "\<exists>e. leaf_at E d th prefix p e \<and> v = flat_of e"
        then obtain x where x: "leaf_at E d th prefix p x" and v: "v = flat_of x" by blast
        have "\<exists>s \<in> set ss. map_of s p = Some v"
          using x v step [of prefix p x] piece list_all2_setD1 [OF ss] by blast
        moreover have "map_of s p = None \<or> map_of s p = Some v" if "s \<in> set ss" for s
        proof (cases "map_of s p")
          case (Some u)
          with that obtain y where "leaf_at E d th prefix p y" "u = flat_of y"
            using list_all2_setD2 [OF ss] piece step by blast
          with x v Some leaf_at_unique show ?thesis by metis
        qed simp
        ultimately show "map_of flat p = Some v"
          unfolding flat by (intro map_of_foldl_updateI) (use wf in auto)
      qed
    qed
  qed (use Suc.prems in \<open>simp add: tree_ok.simps\<close>)
qed simp


lemma resolve_parts_names:
  "tree_ok E d n th \<Longrightarrow> resolve_parts E d th ps = Inr (Some e) \<Longrightarrow> \<forall>w \<in> set ps. name_ok w"
proof (induction n arbitrary: th ps)
  case (Suc n)
  then obtain w qs where ps: "ps = w # qs" by (cases ps) auto
  with Suc.prems(2) obtain t x where t: "read_tree E d th = Inr (Some t)" "find_entry t w = Some x"
    and r: "qs = [] \<or> is_tree x \<and> resolve_parts E d (te_hash x) qs = Inr (Some e)"
    by (auto simp: bindE_eq_Inr split: option.splits if_splits)
  with Suc.prems(1) find_entry_Some [OF t(2)] have "name_ok w" "is_tree x \<longrightarrow> tree_ok E d n (te_hash x)"
    by auto
  with r ps Suc.IH show ?case by auto
qed simp

lemma lstrip_slash_id: "s = [] \<or> hd s \<noteq> slash \<Longrightarrow> lstrip_slash s = s"
  by (cases s) (auto simp: lstrip_slash_def)

lemma strip_join_slash:
  assumes "ps \<noteq> []" and "\<forall>w \<in> set ps. name_ok w"
  shows "strip_slash (join_slash ps) = join_slash ps"
proof -
  have "join_slash ps \<noteq> [] \<and> hd (join_slash ps) \<noteq> slash \<and> last (join_slash ps) \<noteq> slash"
    using assms
  proof (induction ps rule: join_slash.induct)
    case (2 w)
    then show ?case by (auto simp: name_ok_def) (metis hd_in_set, metis last_in_set)
  next
    case (3 w v ws)
    then show ?case by (auto simp: name_ok_def hd_append) (metis hd_in_set)
  qed simp
  then show ?thesis by (simp add: strip_slash_def lstrip_slash_id hd_rev)
qed

lemma join_slash_dot:
  assumes "ps \<noteq> []" and "\<forall>w \<in> set ps. name_ok w"
  shows "join_slash ps \<noteq> [] \<and> join_slash ps \<noteq> str ''.''"
proof
  show "join_slash ps \<noteq> []" using assms by (cases ps rule: join_slash.cases) (auto simp: name_ok_def)
  show "join_slash ps \<noteq> str ''.''"
  proof
    assume "join_slash ps = str ''.''"
    moreover have "split_slash (join_slash ps) = ps"
      using assms by (intro split_join_slash) (auto simp: name_ok_def)
    ultimately have "ps = [str ''.'']" by (simp add: split_slash_single str_def)
    with assms(2) show False by (simp add: name_ok_def)
  qed
qed

lemma leaf_at_resolve:
  assumes "tree_ok E d n th"
  shows "(\<exists>e. leaf_at E d th [] p e \<and> v = flat_of e) \<longleftrightarrow>
    resolve_entry E d th p = Inr (Some v) \<and> fst v \<noteq> str ''tree'' \<and> strip_slash p = p"
proof
  assume "\<exists>e. leaf_at E d th [] p e \<and> v = flat_of e"
  then obtain e ps where ps: "ps \<noteq> []" "p = join_slash ps" "\<forall>w \<in> set ps. name_ok w"
    "resolve_parts E d th ps = Inr (Some e)" "\<not> is_tree e" "v = flat_of e"
    by (auto simp: leaf_at_def)
  moreover have "split_slash p = ps"
    unfolding ps(2) using ps(1,3) by (intro split_join_slash) (auto simp: name_ok_def)
  ultimately show "resolve_entry E d th p = Inr (Some v) \<and> fst v \<noteq> str ''tree'' \<and> strip_slash p = p"
    using strip_join_slash [OF ps(1,3)] join_slash_dot [OF ps(1,3)]
    by (simp add: resolve_entry_def Let_def is_tree_def flat_of_def)
next
  assume r: "resolve_entry E d th p = Inr (Some v) \<and> fst v \<noteq> str ''tree'' \<and> strip_slash p = p"
  then obtain e where e: "resolve_parts E d th (split_slash p) = Inr (Some e)" "v = flat_of e"
    by (auto simp: resolve_entry_def Let_def bindE_eq_Inr split: if_splits)
  with r resolve_parts_names [OF assms e(1)] show "\<exists>e. leaf_at E d th [] p e \<and> v = flat_of e"
    unfolding leaf_at_def
    by (intro exI [of _ e] conjI exI [of _ "split_slash p"]) (auto simp: is_tree_def flat_of_def)
qed


section \<open>What building writes\<close>

text \<open>The serialised trees of a flat map, subtrees first; the digest of the last is the root.\<close>

primrec subtree_blobs :: "env \<Rightarrow> nat \<Rightarrow> staged \<Rightarrow> pystr \<Rightarrow> bytes list res" where
  "subtree_blobs E 0 = (\<lambda>staged prefix. Inl RecursionError)"
| "subtree_blobs E (Suc n) = (\<lambda>staged prefix.
     let (direct, subdirs) = split_level prefix staged in
     bindE (mapE (\<lambda>ns. subtree_blobs E n (snd ns) (prefix @ fst ns @ [slash])) subdirs) (\<lambda>bss.
       Inr (concat bss @ [serialize_tree
         \<lparr>tree_entries = map staged_tree_entry direct @
            map2 (\<lambda>ns bs. subtree_entry (fst ns) (sha256 E (last bs))) subdirs bss\<rparr>])))"

lemma build_subtrees_blobs:
  assumes "\<And>ns d. ns \<in> set subdirs \<Longrightarrow> build (snd ns) (fst ns) d =
      bindE (blobs (snd ns) (fst ns)) (\<lambda>bs. Inr (sha256 E (last bs), fold (put E ty) bs d))"
  shows "foldE (\<lambda>(name, sub) (es, d). bindE (build sub name d) (\<lambda>(h, d'). Inr (es @ [subtree_entry name h], d')))
      subdirs (es, d) =
    bindE (mapE (\<lambda>ns. blobs (snd ns) (fst ns)) subdirs) (\<lambda>bss.
      Inr (es @ map2 (\<lambda>ns bs. subtree_entry (fst ns) (sha256 E (last bs))) subdirs bss,
           fold (put E ty) (concat bss) d))"
  using assms
proof (induction subdirs arbitrary: es d)
  case (Cons ns subdirs)
  obtain name sub where ns: "ns = (name, sub)" by (cases ns)
  have b: "build sub name d = bindE (blobs sub name) (\<lambda>bs. Inr (sha256 E (last bs), fold (put E ty) bs d))"
    using Cons.prems [of ns d] ns by simp
  show ?case
  proof (cases "blobs sub name")
    case (Inr bs)
    with b ns Cons show ?thesis by (simp add: bindE_assoc)
  qed (simp add: b ns)
qed simp

lemma build_subtree_blobs:
  assumes "env_ok E"
  shows "build_subtree E n staged prefix d =
    bindE (subtree_blobs E n staged prefix) (\<lambda>bs.
      Inr (sha256 E (last bs), fold (put E ''trees'') bs d))"
proof (induction n arbitrary: staged prefix d)
  case (Suc n)
  obtain direct subdirs where sl: "split_level prefix staged = (direct, subdirs)" by fastforce
  have "foldE (\<lambda>(name, sub) (es, d). bindE (build_subtree E n sub (prefix @ name @ [slash]) d)
          (\<lambda>(h, d'). Inr (es @ [subtree_entry name h], d'))) subdirs (map staged_tree_entry direct, d) =
      bindE (mapE (\<lambda>ns. subtree_blobs E n (snd ns) (prefix @ fst ns @ [slash])) subdirs) (\<lambda>bss.
        Inr (map staged_tree_entry direct @
               map2 (\<lambda>ns bs. subtree_entry (fst ns) (sha256 E (last bs))) subdirs bss,
             fold (put E ''trees'') (concat bss) d))"
    by (rule build_subtrees_blobs [of subdirs "\<lambda>sub name. build_subtree E n sub (prefix @ name @ [slash])"
          "\<lambda>sub name. subtree_blobs E n sub (prefix @ name @ [slash])"]) (simp add: Suc.IH)
  then show ?case
    by (simp add: sl bindE_assoc store_write_put [OF assms])
qed simp

section \<open>One level of a staged map\<close>

text \<open>The value at a path, looked up in the two maps a level is split into.\<close>

definition in_subdirs :: "staged dict \<Rightarrow> pystr \<Rightarrow> pystr \<Rightarrow> staged_value option" where
  "in_subdirs subdirs s q = Option.bind (map_of subdirs s) (\<lambda>m. map_of m q)"

definition level_of :: "pystr \<Rightarrow> staged \<Rightarrow> staged \<times> staged dict \<Rightarrow> bool" where
  "level_of prefix staged acc \<longleftrightarrow>
     (let (direct, subdirs) = acc in
      wf_dict direct \<and> wf_dict subdirs \<and>
      (\<forall>w. map_of direct w = (if slash \<in> set w then None else map_of staged (prefix @ w))) \<and>
      (\<forall>s m. map_of subdirs s = Some m \<longrightarrow> slash \<notin> set s \<and> wf_dict m \<and> m \<noteq> []) \<and>
      (\<forall>s q. in_subdirs subdirs s q =
         (if slash \<notin> set s \<and> py_startswith q (prefix @ s @ [slash]) then map_of staged q else None)))"

lemma take_drop_slash:
  assumes "slash \<in> set (rest :: pystr)"
  shows "rest = takeWhile (\<lambda>c. c \<noteq> slash) rest @ [slash] @
           drop (Suc (length (takeWhile (\<lambda>c. c \<noteq> slash) rest))) rest"
  using assms by (induction rest) auto

lemma slash_takeWhile [simp]: "slash \<notin> set (takeWhile (\<lambda>c. c \<noteq> slash) (rest :: pystr))"
  by (auto dest: set_takeWhileD)

lemma dir_unique:
  "slash \<notin> set s \<Longrightarrow> slash \<notin> set t \<Longrightarrow> (s :: pystr) @ slash # r = t @ slash # u \<longleftrightarrow> s = t \<and> r = u"
  by (metis split_slash_append list.inject join_split_slash)

lemma split_step_level:
  assumes "level_of prefix staged (direct, subdirs)" and snoc: "map_of staged' = (map_of staged)(path \<mapsto> v)"
  shows "level_of prefix staged' (split_step prefix (path, v) (direct, subdirs))"
proof -
  show ?thesis
  proof (cases "py_startswith path prefix")
    case False
    then have "\<And>w. path \<noteq> prefix @ w" and "\<And>s. \<not> py_startswith path (prefix @ s @ [slash])"
      by (auto simp: py_startswith_iff)
    with assms False show ?thesis
      by (auto simp: split_step_def level_of_def snoc simp del: map_of_append)
  next
    case True
    then obtain rest where path: "path = prefix @ rest" by (auto simp: py_startswith_iff)
    show ?thesis
    proof (cases "slash \<in> set rest")
      case False
      then have "\<not> py_startswith path (prefix @ s @ [slash])" for s
        by (auto simp: py_startswith_iff path)
      with assms path False show ?thesis
        by (auto simp: split_step_def level_of_def snoc update_conv' Let_def simp del: map_of_append)
    next
      case True
      define s where "s = takeWhile (\<lambda>c. c \<noteq> slash) rest"
      define r where "r = drop (Suc (length s)) rest"
      have rest: "rest = s @ [slash] @ r" and s: "slash \<notin> set s"
        using take_drop_slash [OF True] by (simp_all add: s_def r_def)
      define old where "old = (case map_of subdirs s of None \<Rightarrow> [] | Some m \<Rightarrow> m)"
      have step: "split_step prefix (path, v) (direct, subdirs) =
          (direct, AList.update s (AList.update path v old) subdirs)"
        using True by (simp add: split_step_def path Let_def s_def [symmetric] r_def [symmetric] old_def)
          (simp add: rest)
      have "wf_dict old" using assms(1) by (auto simp: old_def level_of_def split: option.splits)
      moreover have "map_of old q = in_subdirs subdirs s q" for q
        by (simp add: old_def in_subdirs_def split: option.split)
      ultimately have old: "wf_dict old" "map_of old q = in_subdirs subdirs s q" for q by auto
      have uniq: "py_startswith path (prefix @ t @ [slash]) \<longleftrightarrow> t = s" if "slash \<notin> set t" for t
        using that s by (auto simp: py_startswith_iff path rest dir_unique)
      have "in_subdirs (AList.update s (AList.update path v old) subdirs) t q =
          (if t = s then if q = path then Some v else in_subdirs subdirs s q
           else in_subdirs subdirs t q)" for t q
        using old(2) by (auto simp: in_subdirs_def update_conv')
      with assms s old uniq show ?thesis
        unfolding step level_of_def
        by (auto simp: snoc update_conv' path rest simp del: map_of_append)
    qed
  qed
qed

lemma split_level_level: "wf_dict staged \<Longrightarrow> level_of prefix staged (split_level prefix staged)"
  unfolding split_level_def
proof (induction staged rule: rev_induct)
  case (snoc pv staged)
  obtain path v where pv: "pv = (path, v)" by (cases pv)
  obtain direct subdirs where f: "fold (split_step prefix) staged ([], []) = (direct, subdirs)"
    by fastforce
  from snoc.prems pv have "wf_dict staged" "map_of (staged @ [(path, v)]) = (map_of staged)(path \<mapsto> v)"
    by (auto simp: wf_dict_def map_of_snoc simp del: map_of_append)
  with snoc.IH f pv show ?case by (simp add: split_step_level)
qed (simp add: level_of_def in_subdirs_def)


section \<open>Building, then flattening\<close>

definition valid_flat :: "flat_entry \<Rightarrow> bool" where
  "valid_flat v \<longleftrightarrow> (let (ty, h, sc) = v in valid_str ty \<and> valid_str h \<and> valid_opt sc)"

text \<open>
  Staged maps: texts are Unicode, no value is itself a tree and no path starts with a slash
  (a leading slash is lost by flattening, as an empty prefix is false in Python).
\<close>

definition staged_ok :: "staged \<Rightarrow> bool" where
  "staged_ok staged \<longleftrightarrow> wf_dict staged \<and>
     (\<forall>pv \<in> set staged. valid_str (fst pv) \<and> valid_flat (staged_flat (snd pv)) \<and>
        fst (staged_flat (snd pv)) \<noteq> str ''tree'')"

definition below_prefix :: "pystr \<Rightarrow> staged \<Rightarrow> bool" where
  "below_prefix Q staged \<longleftrightarrow>
     (\<forall>p \<in> fst ` set staged. if Q = [] then \<not> py_startswith p [slash] else py_startswith p (Q @ [slash]))"

definition dir_prefix :: "pystr \<Rightarrow> pystr" where
  "dir_prefix Q = (if Q = [] then [] else Q @ [slash])"

lemma full_path_prefix: "full_path Q w = dir_prefix Q @ w"
  by (simp add: full_path_def dir_prefix_def)

lemma dir_prefix_sub: "full_path Q w \<noteq> [] \<Longrightarrow> dir_prefix (full_path Q w) = dir_prefix Q @ w @ [slash]"
  by (simp add: dir_prefix_def full_path_def)

lemma staged_okD:
  assumes "staged_ok staged" and "map_of staged p = Some v"
  shows "valid_str p" "valid_flat (staged_flat v)" "fst (staged_flat v) \<noteq> str ''tree''"
  using assms by (auto simp: staged_ok_def dest!: map_of_SomeD)

lemma staged_ok_subset:
  assumes "staged_ok staged" and "wf_dict m" and "\<And>p v. map_of m p = Some v \<Longrightarrow> map_of staged p = Some v"
  shows "staged_ok m"
  unfolding staged_ok_def
proof (intro conjI ballI assms(2))
  fix pv assume "pv \<in> set m"
  from staged_okD [OF assms(1) assms(3) [OF wf_dict_mem [OF assms(2) this]]]
  show "valid_str (fst pv)" "valid_flat (staged_flat (snd pv))" "fst (staged_flat (snd pv)) \<noteq> str ''tree''"
    by auto
qed

lemma hex_digest_valid: "hex_digest h \<Longrightarrow> valid_str h"
  by (auto simp: hex_digest_def valid_str_def hex_char_def scalar_def is_high_def is_low_def)

lemma valid_str_append [simp]: "valid_str (s @ t) \<longleftrightarrow> valid_str s \<and> valid_str t"
  by (auto simp: valid_str_def)

lemma flat_of_staged [simp]:
  "flat_of (staged_tree_entry nv) = staged_flat (snd nv)"  "te_name (staged_tree_entry nv) = fst nv"
  "is_tree (staged_tree_entry nv) \<longleftrightarrow> fst (staged_flat (snd nv)) = str ''tree''"
  by (auto simp: staged_tree_entry_def flat_of_def is_tree_def Let_def split_beta)

lemma subtree_entry_simps [simp]:
  "te_name (subtree_entry w h) = w"  "is_tree (subtree_entry w h)"  "te_hash (subtree_entry w h) = h"
  by (simp_all add: subtree_entry_def is_tree_def)

text \<open>A subdirectory of a level.\<close>

lemma level_subdir:
  assumes "level_of (dir_prefix Q) staged (direct, subdirs)" and "map_of subdirs w = Some m"
    and "below_prefix Q staged" and "staged_ok staged"
  shows "below_prefix (full_path Q w) m" and "staged_ok m"
    and "\<And>p v. map_of m p = Some v \<Longrightarrow> map_of staged p = Some v"
    and "full_path Q w \<noteq> []" and "valid_str w"
    and "\<And>p v. py_startswith p (dir_prefix Q @ w @ [slash]) \<Longrightarrow> map_of staged p = Some v \<Longrightarrow> map_of m p = Some v"
proof -
  have w: "slash \<notin> set w" "wf_dict m" "m \<noteq> []"
    and m: "\<And>q. map_of m q = (if py_startswith q (dir_prefix Q @ w @ [slash]) then map_of staged q else None)"
    using assms(1,2) by (auto simp: level_of_def in_subdirs_def) (metis bind.bind_lunit)+
  show sub: "map_of staged p = Some v" if "map_of m p = Some v" for p v
    using that m [of p] by (simp split: if_splits)
  show "map_of m p = Some v" if "py_startswith p (dir_prefix Q @ w @ [slash])" "map_of staged p = Some v" for p v
    using that m [of p] by simp
  show "staged_ok m" using staged_ok_subset [OF assms(4) w(2) sub] .
  obtain q v where q: "map_of m q = Some v" using wf_dict_mem [OF w(2)] w(3) by (meson last_in_set)
  then have "py_startswith q (dir_prefix Q @ w @ [slash])" using m [of q] by (simp split: if_splits)
  moreover have "q \<in> fst ` set staged" using sub [OF q] by (metis domI dom_map_of_conv_image_fst)
  moreover have "valid_str q" using staged_okD(1) [OF assms(4) sub [OF q]] .
  ultimately show ne: "full_path Q w \<noteq> []" and "valid_str w"
    using assms(3) by (auto simp: below_prefix_def full_path_def dir_prefix_def py_startswith_iff split: if_splits)
  have "py_startswith p (dir_prefix Q @ w @ [slash])" if "p \<in> fst ` set m" for p
    using that m [of p] by (metis map_of_eq_None_iff)
  then show "below_prefix (full_path Q w) m"
    using ne unfolding below_prefix_def by (auto simp: full_path_prefix)
qed

text \<open>An entry of the built tree flattens to values of the staged map.\<close>

definition piece_ok :: "staged \<Rightarrow> flat_entry dict \<Rightarrow> bool" where
  "piece_ok staged s \<longleftrightarrow> wf_dict s \<and>
     (\<forall>p x. map_of s p = Some x \<longrightarrow> map_option staged_flat (map_of staged p) = Some x)"

lemma piece_okD:
  assumes "piece_ok staged s"
  shows "wf_dict s" and "map_of staged p = None \<Longrightarrow> map_of s p = None"
    and "map_of staged p = Some v \<Longrightarrow> map_of s p = None \<or> map_of s p = Some (staged_flat v)"
  using assms by (cases "map_of s p"; fastforce simp: piece_ok_def)+

lemma pieces_flat:
  assumes "\<And>e. e \<in> set es \<Longrightarrow> \<exists>s. c e = Inr s \<and> piece_ok staged s"
    and "\<And>p v. map_of staged p = Some v \<Longrightarrow> \<exists>e \<in> set es. \<exists>s. c e = Inr s \<and> map_of s p = Some (staged_flat v)"
  shows "\<exists>flat. foldE (\<lambda>e r. bindE (c e) (\<lambda>s. Inr (dict_update r s))) es [] = Inr flat \<and>
           (\<forall>p. map_of flat p = map_option staged_flat (map_of staged p))"
proof -
  obtain flat where f: "foldE (\<lambda>e r. bindE (c e) (\<lambda>s. Inr (dict_update r s))) es [] = Inr flat"
    using foldE_dict_update_total [of es c "[]"] assms(1) by blast
  then obtain ss where ss: "list_all2 (\<lambda>e s. c e = Inr s) es ss" and flat: "flat = foldl dict_update [] ss"
    by (auto simp: mapE_eq_Inr dest: foldE_dict_update)
  have ok: "piece_ok staged s" if "s \<in> set ss" for s
    using list_all2_setD2 [OF ss that] assms(1) by fastforce
  have "map_of flat p = map_option staged_flat (map_of staged p)" for p
  proof (cases "map_of staged p")
    case None
    then have "map_of (foldl dict_update [] ss) p = map_of [] p"
      using piece_okD [OF ok] by (intro map_of_foldl_update_None) simp
    with flat None show ?thesis by simp
  next
    case (Some v)
    with assms(2) list_all2_setD1 [OF ss] have "\<exists>s \<in> set ss. map_of s p = Some (staged_flat v)" by fastforce
    with Some have "map_of (foldl dict_update [] ss) p = Some (staged_flat v)"
      using piece_okD [OF ok] by (intro map_of_foldl_updateI) auto
    with flat Some show ?thesis by simp
  qed
  with f show ?thesis by blast
qed

lemma set_map2_iff: "x \<in> set (map2 f xs ys) \<longleftrightarrow> (\<exists>a b. (a, b) \<in> set (zip xs ys) \<and> x = f a b)"
  by auto

lemma flatten_blobs:
  assumes "env_ok E" and "staged_ok staged" and "below_prefix Q staged"
    and "subtree_blobs E n staged (dir_prefix Q) = Inr bs"
    and "\<forall>b \<in> set bs. store_read E d (str ''trees'') (sha256 E b) = Inr (Some b)"
  shows "\<exists>flat. flatten_tree E d n (sha256 E (last bs)) Q = Inr flat \<and>
           (\<forall>p. map_of flat p = map_option staged_flat (map_of staged p))"
  using assms(2-5)
proof (induction n arbitrary: staged Q bs)
  case (Suc n)
  obtain direct subdirs where sl: "split_level (dir_prefix Q) staged = (direct, subdirs)" by fastforce
  have level: "level_of (dir_prefix Q) staged (direct, subdirs)"
    using split_level_level [of staged "dir_prefix Q"] sl Suc.prems(1) by (simp add: staged_ok_def)
  from Suc.prems(3) sl obtain bss where
    bss: "list_all2 (\<lambda>ns bs. subtree_blobs E n (snd ns) (dir_prefix Q @ fst ns @ [slash]) = Inr bs) subdirs bss"
    and bs: "bs = concat bss @ [serialize_tree \<lparr>tree_entries = map staged_tree_entry direct @
            map2 (\<lambda>ns bs. subtree_entry (fst ns) (sha256 E (last bs))) subdirs bss\<rparr>]"
    by (auto simp: bindE_eq_Inr mapE_eq_Inr)
  let ?subs = "map2 (\<lambda>ns bs. subtree_entry (fst ns) (sha256 E (last bs))) subdirs bss"
  let ?t = "\<lparr>tree_entries = map staged_tree_entry direct @ ?subs\<rparr>"
  have wf: "wf_dict direct" "wf_dict subdirs"
    and direct: "map_of direct w = (if slash \<in> set w then None else map_of staged (dir_prefix Q @ w))" for w
    using level by (auto simp: level_of_def)
  note sub = level_subdir [OF level _ Suc.prems(2,1)]
  have dir: "map_of staged (full_path Q (fst nv)) = Some (snd nv)" if "nv \<in> set direct" for nv
    using wf_dict_mem [OF wf(1) that] direct [of "fst nv"] by (simp add: full_path_prefix split: if_splits)
  have subdir: "\<exists>flat. flatten_tree E d n (sha256 E (last b)) (full_path Q (fst ns)) = Inr flat \<and>
        (\<forall>p. map_of flat p = map_option staged_flat (map_of (snd ns) p))"
    if "(ns, b) \<in> set (zip subdirs bss)" for ns b
  proof (rule Suc.IH)
    have m: "map_of subdirs (fst ns) = Some (snd ns)"
      using wf_dict_mem [OF wf(2) set_zip_leftD [OF that]] .
    show "staged_ok (snd ns)" "below_prefix (full_path Q (fst ns)) (snd ns)"
      using sub(1,2) [OF m] by auto
    show "subtree_blobs E n (snd ns) (dir_prefix (full_path Q (fst ns))) = Inr b"
      using that bss dir_prefix_sub [OF sub(4) [OF m]] by (auto simp: list_all2_iff)
    show "\<forall>c \<in> set b. store_read E d (str ''trees'') (sha256 E c) = Inr (Some c)"
      using Suc.prems(4) set_zip_rightD [OF that] by (auto simp: bs)
  qed
  have in_sub: "map_of subdirs (fst ns) = Some (snd ns)" if "ns \<in> set subdirs" for ns
    using wf_dict_mem [OF wf(2) that] .
  have "valid_tree ?t"
  proof -
    have "valid_str (fst nv) \<and> valid_flat (staged_flat (snd nv))" if "nv \<in> set direct" for nv
      using staged_okD [OF Suc.prems(1) dir [OF that]] by (auto simp: full_path_prefix)
    moreover have "valid_str (fst ns)" if "ns \<in> set subdirs" for ns
      using sub(5) [OF in_sub [OF that]] .
    ultimately show ?thesis
      using hex_digest_valid [OF env_okD(1) [OF assms(1)]]
      by (auto simp: valid_tree_def staged_tree_entry_def subtree_entry_def valid_flat_def Let_def
          str_def scalar_def is_high_def is_low_def split_beta dest!: set_zip_leftD)
  qed
  moreover have "store_read E d (str ''trees'') (sha256 E (last bs)) = Inr (Some (serialize_tree ?t))"
    using Suc.prems(4) bs by simp
  ultimately have read: "read_tree E d (sha256 E (last bs)) = Inr (Some (norm_tree ?t))"
    by (simp add: read_tree_def load_Some tree_roundtrip)
  have piece: "\<exists>s. flat_piece E d n Q e = Inr s \<and> piece_ok staged s" if e: "e \<in> set (tree_entries (norm_tree ?t))" for e
    using e unfolding norm_tree_def
  proof (simp, elim disjE imageE)
    fix nv assume nv: "e = staged_tree_entry nv" "nv \<in> set direct"
    with dir [OF nv(2)] staged_okD(3) [OF Suc.prems(1) dir [OF nv(2)]] show ?thesis
      by (auto simp: flat_piece_def piece_ok_def wf_dict_Cons)
  next
    fix x assume x: "e = (case x of (ns, b) \<Rightarrow> subtree_entry (fst ns) (sha256 E (last b)))" "x \<in> set (zip subdirs bss)"
    obtain ns b where nb: "x = (ns, b)" by (cases x)
    with x(2) subdir obtain flat where flat: "flatten_tree E d n (sha256 E (last b)) (full_path Q (fst ns)) = Inr flat"
      "\<forall>p. map_of flat p = map_option staged_flat (map_of (snd ns) p)" by blast
    have "map_of subdirs (fst ns) = Some (snd ns)" using in_sub set_zip_leftD x(2) nb by metis
    from sub(3) [OF this] flat x nb show ?thesis
      by (auto simp: flat_piece_def piece_ok_def flatten_tree_wf)
  qed
  have complete: "\<exists>e \<in> set (tree_entries (norm_tree ?t)). \<exists>s. flat_piece E d n Q e = Inr s \<and>
      map_of s p = Some (staged_flat v)" if p: "map_of staged p = Some v" for p v
  proof -
    obtain w where w: "p = dir_prefix Q @ w"
      using Suc.prems(2) p by (force simp: below_prefix_def dir_prefix_def py_startswith_iff
          dest: map_of_SomeD split: if_splits)
    show ?thesis
    proof (cases "slash \<in> set w")
      case False
      with direct [of w] p w have "(w, v) \<in> set direct" by (auto dest: map_of_SomeD)
      moreover have "\<not> is_tree (staged_tree_entry (w, v))" using staged_okD(3) [OF Suc.prems(1) p] by simp
      ultimately show ?thesis
        by (intro bexI [of _ "staged_tree_entry (w, v)"] exI [of _ "[(p, staged_flat v)]"])
          (auto simp: flat_piece_def norm_tree_def w full_path_prefix)
    next
      case True
      define s where "s = takeWhile (\<lambda>c. c \<noteq> slash) w"
      have s: "slash \<notin> set s" "py_startswith p (dir_prefix Q @ s @ [slash])"
        using take_drop_slash [OF True] by (auto simp: s_def py_startswith_iff w)
      have "in_subdirs subdirs s p = Some v" using level s p by (simp add: level_of_def)
      then obtain m where m: "map_of subdirs s = Some m"
        by (auto simp: in_subdirs_def bind_eq_Some_conv)
      then have "(s, m) \<in> set subdirs" by (rule map_of_SomeD)
      then obtain b where b: "((s, m), b) \<in> set (zip subdirs bss)"
        using list_all2_lengthD [OF bss] by (metis in_set_impl_in_set_zip1)
      with subdir obtain flat where "flatten_tree E d n (sha256 E (last b)) (full_path Q s) = Inr flat"
        "\<forall>q. map_of flat q = map_option staged_flat (map_of m q)" by fastforce
      with sub(6) [OF m s(2) p] b show ?thesis
        by (intro bexI [of _ "subtree_entry s (sha256 E (last b))"] exI [of _ flat])
          (force simp: flat_piece_def norm_tree_def)+
    qed
  qed
  show ?case
    using pieces_flat [OF piece complete] read by (simp add: flatten_tree_Suc)
qed simp


section \<open>Depth\<close>

lemma count_list_append_slash [simp]: "count_list (xs @ ys) (c :: nat) = count_list xs c + count_list ys c"
  by (induction xs) auto

lemma subtree_blobs_total:
  assumes "staged_ok staged" and "below_prefix Q staged"
    and "\<forall>p \<in> fst ` set staged. count_list p slash < n + count_list (dir_prefix Q) slash"
    and "staged \<noteq> [] \<or> 0 < n"
  shows "\<exists>bs. subtree_blobs E n staged (dir_prefix Q) = Inr bs"
  using assms
proof (induction n arbitrary: staged Q)
  case 0
  then obtain p where "p \<in> fst ` set staged" by (cases staged) auto
  with "0.prems"(2,3) have "Q \<noteq> []" "py_startswith p (dir_prefix Q)" "count_list p slash < count_list (dir_prefix Q) slash"
    by (auto simp: below_prefix_def dir_prefix_def)
  then show ?case by (auto simp: py_startswith_iff)
next
  case (Suc n)
  obtain direct subdirs where sl: "split_level (dir_prefix Q) staged = (direct, subdirs)" by fastforce
  have level: "level_of (dir_prefix Q) staged (direct, subdirs)"
    using split_level_level [of staged "dir_prefix Q"] sl Suc.prems(1) by (simp add: staged_ok_def)
  have "\<exists>bs. subtree_blobs E n (snd ns) (dir_prefix Q @ fst ns @ [slash]) = Inr bs" if "ns \<in> set subdirs" for ns
  proof -
    have wf: "wf_dict subdirs" using level by (simp add: level_of_def)
    note m = wf_dict_mem [OF wf that]
    note sub = level_subdir [OF level m Suc.prems(2,1)]
    have ns: "slash \<notin> set (fst ns)" "snd ns \<noteq> []" using level m by (auto simp: level_of_def)
    have "\<forall>p \<in> fst ` set (snd ns). count_list p slash < n + count_list (dir_prefix (full_path Q (fst ns))) slash"
    proof
      fix p assume "p \<in> fst ` set (snd ns)"
      then obtain v where "map_of (snd ns) p = Some v" by (metis not_None_eq map_of_eq_None_iff)
      then have "p \<in> fst ` set staged" using sub(3) by (metis not_None_eq map_of_eq_None_iff)
      with Suc.prems(3) ns(1) show "count_list p slash < n + count_list (dir_prefix (full_path Q (fst ns))) slash"
        by (auto simp: dir_prefix_sub [OF sub(4)])
    qed
    from Suc.IH [OF sub(2,1) this] ns(2) show ?thesis
      by (simp add: dir_prefix_sub [OF sub(4)])
  qed
  then have "\<exists>bss. mapE (\<lambda>ns. subtree_blobs E n (snd ns) (dir_prefix Q @ fst ns @ [slash])) subdirs = Inr bss"
    by (induction subdirs) fastforce+
  with sl show ?case by auto
qed

section \<open>The tree of a map is canonical\<close>

text \<open>No file of the map is also a directory of it.\<close>

definition no_conflict :: "staged \<Rightarrow> bool" where
  "no_conflict staged \<longleftrightarrow>
     (\<forall>p \<in> fst ` set staged. \<forall>q \<in> fst ` set staged. \<not> py_startswith q (p @ [slash]))"

lemma no_conflict_subset:
  "no_conflict staged \<Longrightarrow> fst ` set m \<subseteq> fst ` set staged \<Longrightarrow> no_conflict m"
  unfolding no_conflict_def by (meson subsetD)

definition level_entries :: "env \<Rightarrow> staged \<Rightarrow> staged dict \<Rightarrow> bytes list list \<Rightarrow> tree_entry list" where
  "level_entries E direct subdirs bss =
     map staged_tree_entry direct @
       map2 (\<lambda>ns bs. subtree_entry (fst ns) (sha256 E (last bs))) subdirs bss"

lemma serialize_tree_perm:
  assumes "set es = set fs" and "distinct (map te_name es)" and "distinct (map te_name fs)"
  shows "serialize_tree \<lparr>tree_entries = es\<rparr> = serialize_tree \<lparr>tree_entries = fs\<rparr>"
proof -
  have "mset es = mset fs" using assms by (metis distinct_map set_eq_iff_mset_eq_distinct)
  then have "sort_key te_name es = sort_key te_name fs"
    using assms by (intro sort_key_inj_key_eq) (auto simp: distinct_map)
  then show ?thesis by (simp add: serialize_tree_def tree_json_def)
qed

lemma subtree_names:
  "length xs = length ys \<Longrightarrow> map te_name (map2 (\<lambda>ns bs. subtree_entry (fst ns) (f bs)) xs ys) = map fst xs"
  by (induction xs ys rule: list_induct2) auto

lemma level_names_distinct:
  assumes "level_of (dir_prefix Q) staged (direct, subdirs)" and "no_conflict staged"
    and "length subdirs = length bss" and "below_prefix Q staged" and "staged_ok staged"
  shows "distinct (map te_name (level_entries E direct subdirs bss))"
proof -
  have wf: "wf_dict direct" "wf_dict subdirs" using assms(1) by (auto simp: level_of_def)
  have "w \<notin> fst ` set subdirs" if "w \<in> fst ` set direct" for w
  proof
    assume "w \<in> fst ` set subdirs"
    then obtain m where m: "map_of subdirs w = Some m" by (metis not_None_eq map_of_eq_None_iff)
    then have "m \<noteq> []" "wf_dict m" using assms(1) by (auto simp: level_of_def)
    then obtain q v where q: "map_of m q = Some v" by (meson last_in_set wf_dict_mem)
    note sub = level_subdir [OF assms(1) m assms(4,5)]
    have "in_subdirs subdirs w q = Some v" using m q by (simp add: in_subdirs_def)
    then have "py_startswith q (dir_prefix Q @ w @ [slash])"
      using assms(1) by (auto simp: level_of_def split: if_splits)
    moreover have "q \<in> fst ` set staged" using sub(3) [OF q] by (metis not_None_eq map_of_eq_None_iff)
    moreover have "dir_prefix Q @ w \<in> fst ` set staged"
      using that assms(1) unfolding level_of_def by (metis (mono_tags, lifting) case_prodD map_of_eq_None_iff)
    ultimately show False using assms(2) unfolding no_conflict_def by (metis append.assoc)
  qed
  moreover have "map te_name (level_entries E direct subdirs bss) = map fst direct @ map fst subdirs"
    using subtree_names [OF assms(3)] by (simp add: level_entries_def comp_def)
  ultimately show ?thesis using wf by (auto simp: wf_dict_def)
qed

lemma subtree_blobs_canonical:
  assumes "staged_ok staged" "staged_ok staged'" and "below_prefix Q staged" "below_prefix Q staged'"
    and "no_conflict staged" and "map_of staged = map_of staged'"
    and "subtree_blobs E n staged (dir_prefix Q) = Inr bs"
    and "subtree_blobs E n staged' (dir_prefix Q) = Inr bs'"
  shows "last bs = last bs'"
  using assms
proof (induction n arbitrary: staged staged' Q bs bs')
  case (Suc n)
  obtain direct subdirs direct' subdirs' where
    sl: "split_level (dir_prefix Q) staged = (direct, subdirs)"
      "split_level (dir_prefix Q) staged' = (direct', subdirs')" by fastforce
  have level: "level_of (dir_prefix Q) staged (direct, subdirs)" "level_of (dir_prefix Q) staged' (direct', subdirs')"
    using split_level_level [of _ "dir_prefix Q"] sl Suc.prems(1,2) by (metis staged_ok_def)+
  let ?B = "\<lambda>ns bs. subtree_blobs E n (snd ns) (dir_prefix Q @ fst ns @ [slash]) = Inr bs"
  obtain bss bss' where bss: "list_all2 ?B subdirs bss" "list_all2 ?B subdirs' bss'"
    and bs: "last bs = serialize_tree \<lparr>tree_entries = level_entries E direct subdirs bss\<rparr>"
      "last bs' = serialize_tree \<lparr>tree_entries = level_entries E direct' subdirs' bss'\<rparr>"
    using Suc.prems(7,8) sl by (auto simp: bindE_eq_Inr mapE_eq_Inr level_entries_def)
  have keys: "fst ` set staged = fst ` set staged'"
    using Suc.prems(6) by (metis dom_map_of_conv_image_fst)
  then have nc': "no_conflict staged'" using Suc.prems(5) by (simp add: no_conflict_def)
  have direct: "set direct = set direct'"
  proof -
    have "map_of direct = map_of direct'" using level Suc.prems(6) by (auto simp: level_of_def)
    then show ?thesis using level by (auto simp: level_of_def wf_dict_def) (metis map_of_eq_Some_iff)+
  qed
  have incl: "set (level_entries E d1 s1 b1) \<subseteq> set (level_entries E d2 s2 b2)"
    if l: "level_of (dir_prefix Q) t1 (d1, s1)" "level_of (dir_prefix Q) t2 (d2, s2)" "set d1 = set d2"
      and t: "staged_ok t1" "staged_ok t2" "below_prefix Q t1" "below_prefix Q t2" "no_conflict t1" "map_of t1 = map_of t2"
      and b: "list_all2 ?B s1 b1" "list_all2 ?B s2 b2" for t1 t2 d1 d2 s1 s2 b1 b2
  proof
    fix e assume "e \<in> set (level_entries E d1 s1 b1)"
    then consider "e \<in> staged_tree_entry ` set d1"
      | ns b where "(ns, b) \<in> set (zip s1 b1)" "e = subtree_entry (fst ns) (sha256 E (last b))"
      by (auto simp: level_entries_def)
    then show "e \<in> set (level_entries E d2 s2 b2)"
    proof cases
      case 2
      have wf: "wf_dict s1" "wf_dict s2" using l by (auto simp: level_of_def)
      have m1: "map_of s1 (fst ns) = Some (snd ns)" using wf_dict_mem [OF wf(1) set_zip_leftD [OF 2(1)]] .
      have in_eq: "in_subdirs s1 s q = in_subdirs s2 s q" for s q using l t(6) by (simp add: level_of_def)
      obtain q v where qv: "map_of (snd ns) q = Some v"
        using m1 l(1) by (auto simp: level_of_def) (metis last_in_set wf_dict_mem)
      then have "in_subdirs s2 (fst ns) q = Some v" using m1 in_eq by (metis in_subdirs_def bind.bind_lunit)
      then obtain m2 where m2: "map_of s2 (fst ns) = Some m2" by (auto simp: in_subdirs_def bind_eq_Some_conv)
      then have m12: "map_of (snd ns) = map_of m2" using in_eq [of "fst ns"] m1 by (auto simp: in_subdirs_def)
      note sub1 = level_subdir [OF l(1) m1 t(3,1)] and sub2 = level_subdir [OF l(2) m2 t(4,2)]
      obtain b' where b': "((fst ns, m2), b') \<in> set (zip s2 b2)"
        using map_of_SomeD [OF m2] list_all2_lengthD [OF b(2)] by (metis in_set_impl_in_set_zip1)
      have "fst ` set (snd ns) \<subseteq> fst ` set t1"
      proof
        fix p assume "p \<in> fst ` set (snd ns)"
        with sub1(3) [of p] show "p \<in> fst ` set t1" by (metis not_None_eq map_of_eq_None_iff)
      qed
      with t(5) have "no_conflict (snd ns)" by (rule no_conflict_subset)
      moreover have "?B ns b" "?B (fst ns, m2) b'" using b 2(1) b' by (auto simp: list_all2_iff)
      ultimately have "last b = last b'"
        using Suc.IH [OF sub1(2) sub2(2) sub1(1) sub2(1) _ m12, of b b']
        by (simp add: dir_prefix_sub [OF sub1(4)])
      with 2(2) b' show ?thesis by (force simp: level_entries_def)
    qed (use l(3) in \<open>auto simp: level_entries_def\<close>)
  qed
  have "set (level_entries E direct subdirs bss) = set (level_entries E direct' subdirs' bss')"
    using incl [OF level direct] incl [OF level(2,1) direct [symmetric]] Suc.prems nc' bss
    by (intro equalityI) auto
  with level_names_distinct [OF level(1) Suc.prems(5) list_all2_lengthD [OF bss(1)] Suc.prems(3,1)]
    level_names_distinct [OF level(2) nc' list_all2_lengthD [OF bss(2)] Suc.prems(4,2)]
  show ?case unfolding bs by (intro serialize_tree_perm)
qed simp


section \<open>Properties\<close>

definition demo_hash :: "nat \<Rightarrow> pystr" where
  "demo_hash n = replicate 62 48 @ [48 + n div 10, 48 + n mod 10]"

lemma demo_hash_simps [simp]:
  "valid_str (demo_hash 11)" "valid_str (demo_hash 22)" "valid_str (demo_hash 33)" "valid_str (demo_hash 44)"
  "hash_re (demo_hash 11)" "hash_re (demo_hash 22)" "hash_re (demo_hash 33)" "hash_re (demo_hash 44)"
  by (simp_all add: demo_hash_def valid_str_def scalar_def is_high_def is_low_def hex_digest_def hex_char_def)

definition demo_staged :: staged where
  "demo_staged = [(str ''d/a'', Staged2 (str ''manifest'') (demo_hash 11)),
     (str ''c'', Staged3 (str ''blob'') (demo_hash 22) None),
     (str ''d/b'', Staged3 (str ''manifest'') (demo_hash 33) (Some (demo_hash 44)))]"

definition demo_sub :: tree where
  "demo_sub = \<lparr>tree_entries = [staged_tree_entry (str ''a'', Staged2 (str ''manifest'') (demo_hash 11)),
     staged_tree_entry (str ''b'', Staged3 (str ''manifest'') (demo_hash 33) (Some (demo_hash 44)))]\<rparr>"

definition demo_root :: tree where
  "demo_root = \<lparr>tree_entries = [staged_tree_entry (str ''c'', Staged3 (str ''blob'') (demo_hash 22) None),
     subtree_entry (str ''d'') (demo_digest (serialize_tree demo_sub))]\<rparr>"

definition demo_blobs :: "bytes list" where
  "demo_blobs = [serialize_tree demo_sub, serialize_tree demo_root]"

lemma demo_split:
  "split_level [] demo_staged = ([(str ''c'', Staged3 (str ''blob'') (demo_hash 22) None)],
     [(str ''d'', [(str ''d/a'', Staged2 (str ''manifest'') (demo_hash 11)),
       (str ''d/b'', Staged3 (str ''manifest'') (demo_hash 33) (Some (demo_hash 44)))])])"
  "split_level (str ''d/'') [(str ''d/a'', Staged2 (str ''manifest'') (demo_hash 11)),
       (str ''d/b'', Staged3 (str ''manifest'') (demo_hash 33) (Some (demo_hash 44)))] =
     ([(str ''a'', Staged2 (str ''manifest'') (demo_hash 11)),
       (str ''b'', Staged3 (str ''manifest'') (demo_hash 33) (Some (demo_hash 44)))], [])"
  by code_simp+

lemma demo_blobs: "subtree_blobs demo_env 50 demo_staged [] = Inr demo_blobs"
proof -
  have d: "str ''d'' @ [slash] = str ''d/''" by (simp add: str_def)
  have "subtree_blobs demo_env (Suc (Suc n)) demo_staged [] = Inr demo_blobs" for n
    by (simp add: demo_split d demo_blobs_def demo_sub_def demo_root_def)
  from this [of 48] show ?thesis by simp
qed

lemma demo_blobs_distinct: "distinct (map demo_digest demo_blobs)"
  by code_simp

lemma demo_staged_ok:
  "staged_ok demo_staged" "below_prefix [] demo_staged" "no_conflict demo_staged"
  "\<forall>p \<in> fst ` set demo_staged. count_list p slash < 50"
proof -
  show "staged_ok demo_staged"
    by (simp add: staged_ok_def demo_staged_def wf_dict_def valid_flat_def str_def scalar_def is_high_def is_low_def)
qed code_simp+

definition demo_disk :: disk where
  "demo_disk = fold (put demo_env ''trees'') demo_blobs []"

lemma demo_read:
  "read_tree demo_env demo_disk (demo_digest (serialize_tree demo_sub)) = Inr (Some (norm_tree demo_sub))"
  "read_tree demo_env demo_disk (demo_digest (serialize_tree demo_root)) = Inr (Some (norm_tree demo_root))"
proof -
  have r: "store_read demo_env demo_disk (str ''trees'') (demo_digest b) = Inr (Some b)" if "b \<in> set demo_blobs" for b
    using puts_read [of demo_env "[]" "''trees''" demo_blobs b] that demo_blobs_distinct
    by (simp add: demo_disk_def collision_free_Nil)
  have "valid_tree demo_sub" "valid_tree demo_root"
    using hex_digest_valid [OF env_okD(1) [OF demo_env_ok]]
    by (simp_all add: valid_tree_def demo_sub_def demo_root_def staged_tree_entry_def subtree_entry_def
        str_def scalar_def is_high_def is_low_def)
  then show "read_tree demo_env demo_disk (demo_digest (serialize_tree demo_sub)) = Inr (Some (norm_tree demo_sub))"
    "read_tree demo_env demo_disk (demo_digest (serialize_tree demo_root)) = Inr (Some (norm_tree demo_root))"
    using r by (simp_all add: read_tree_def load_Some demo_blobs_def tree_roundtrip)
qed

text \<open>
  C3: building the nested tree of a staged map and flattening it gives the map back: every
  path with its type, hash and sidecar, and no other path.
\<close>

theorem build_flatten_roundtrip:
  assumes "store_inv E d" and "staged_ok staged"
    and "\<forall>p \<in> fst ` set staged. \<not> py_startswith p [slash] \<and> count_list p slash < rec_limit E"
    and "0 < rec_limit E"
    and "\<forall>bs. subtree_blobs E (rec_limit E) staged [] = Inr bs \<longrightarrow> collision_free E d ''trees'' bs"
  shows "\<exists>h d' flat. build_nested_tree E staged d = Inr (h, d') \<and> store_inv E d' \<and>
           flatten_tree E d' (rec_limit E) h [] = Inr flat \<and>
           (\<forall>p. map_of flat p = map_option staged_flat (map_of staged p))"
proof -
  have ok: "env_ok E" using assms(1) by auto
  have below: "below_prefix [] staged" using assms(3) by (auto simp: below_prefix_def)
  obtain bs where bs: "subtree_blobs E (rec_limit E) staged [] = Inr bs"
    using subtree_blobs_total [OF assms(2) below, of "rec_limit E" E] assms(3,4)
    by (auto simp: dir_prefix_def)
  let ?d = "fold (put E ''trees'') bs d"
  have "\<forall>b \<in> set bs. store_read E ?d (str ''trees'') (sha256 E b) = Inr (Some b)"
    using puts_read [OF assms(1)] assms(5) bs by blast
  with flatten_blobs [OF ok assms(2) below] bs show ?thesis
    using puts_inv [OF assms(1)] by (auto simp: build_nested_tree_def build_subtree_blobs [OF ok] dir_prefix_def)
qed

theorem build_flatten_roundtrip_witness:
  "\<exists>h d' flat. build_nested_tree demo_env demo_staged [] = Inr (h, d') \<and>
     flatten_tree demo_env d' 50 h [] = Inr flat \<and>
     map_of flat (str ''d/b'') = Some (str ''manifest'', demo_hash 33, Some (demo_hash 44))"
proof -
  have "map_option staged_flat (map_of demo_staged (str ''d/b'')) =
      Some (str ''manifest'', demo_hash 33, Some (demo_hash 44))"
    by code_simp
  then show ?thesis
    using build_flatten_roundtrip [of demo_env "[]" demo_staged] demo_staged_ok demo_blobs
      demo_blobs_distinct collision_free_Nil [of demo_env demo_blobs "''trees''"]
    by (fastforce simp: below_prefix_def)
qed

text \<open>
  C4: the root hash is a name for the content: it does not depend on the store or on the order
  of the staged map, and maps with the same root hash hold the same entries, if no two of the
  trees built have the same digest.
\<close>

theorem root_hash_content:
  assumes "env_ok E" and "staged_ok s1" "below_prefix [] s1" "no_conflict s1"
    and "staged_ok s2" "below_prefix [] s2"
    and "build_nested_tree E s1 d1 = Inr (h1, d1')" and "build_nested_tree E s2 d2 = Inr (h2, d2')"
    and "\<forall>b1 b2. subtree_blobs E (rec_limit E) s1 [] = Inr b1 \<and>
           subtree_blobs E (rec_limit E) s2 [] = Inr b2 \<longrightarrow> inj_on (sha256 E) (set b1 \<union> set b2)"
  shows "(map_of s1 = map_of s2 \<longrightarrow> h1 = h2) \<and>
         (h1 = h2 \<longrightarrow> (\<forall>p. map_option staged_flat (map_of s1 p) = map_option staged_flat (map_of s2 p)))"
proof -
  obtain b1 b2 where b: "subtree_blobs E (rec_limit E) s1 [] = Inr b1" "subtree_blobs E (rec_limit E) s2 [] = Inr b2"
    and h: "h1 = sha256 E (last b1)" "h2 = sha256 E (last b2)"
    using assms(7,8) by (auto simp: build_nested_tree_def build_subtree_blobs [OF assms(1)] bindE_eq_Inr)
  let ?d = "fold (put E ''trees'') (b1 @ b2) []"
  have cf: "collision_free E [] ''trees'' (b1 @ b2)" using assms(9) b by (simp add: collision_free_def)
  have inv: "store_inv E []" using assms(1) by simp
  have rd: "store_read E ?d (str ''trees'') (sha256 E b) = Inr (Some b)" if "b \<in> set (b1 @ b2)" for b
    using puts_read [OF inv cf that] .
  have "\<exists>flat. flatten_tree E ?d (rec_limit E) (sha256 E (last bs)) [] = Inr flat \<and>
      (\<forall>p. map_of flat p = map_option staged_flat (map_of s p))"
    if "staged_ok s" "below_prefix [] s" "subtree_blobs E (rec_limit E) s [] = Inr bs"
      "set bs \<subseteq> set (b1 @ b2)" for s bs
  proof (rule flatten_blobs [OF assms(1) that(1,2)])
    show "subtree_blobs E (rec_limit E) s (dir_prefix []) = Inr bs" using that(3) by (simp add: dir_prefix_def)
    show "\<forall>b \<in> set bs. store_read E ?d (str ''trees'') (sha256 E b) = Inr (Some b)" using rd that(4) by blast
  qed
  from this [OF assms(2,3) b(1)] this [OF assms(5,6) b(2)]
  have "h1 = h2 \<longrightarrow> (\<forall>p. map_option staged_flat (map_of s1 p) = map_option staged_flat (map_of s2 p))"
    unfolding h by force
  moreover have "map_of s1 = map_of s2 \<longrightarrow> h1 = h2"
    using subtree_blobs_canonical [OF assms(2,5,3,6,4)] b h by (auto simp: dir_prefix_def)
  ultimately show ?thesis by blast
qed

theorem root_hash_content_witness:
  "\<exists>h d h' d'. build_nested_tree demo_env demo_staged [] = Inr (h, d) \<and>
     build_nested_tree demo_env (rev demo_staged) d = Inr (h', d') \<and> h = h'"
proof -
  have ok: "staged_ok (rev demo_staged)" "below_prefix [] (rev demo_staged)"
    using demo_staged_ok by (auto simp: staged_ok_def below_prefix_def wf_dict_def rev_map [symmetric])
  obtain bs where bs: "subtree_blobs demo_env 50 (rev demo_staged) [] = Inr bs"
    and inj: "inj_on demo_digest (set demo_blobs \<union> set bs)"
  proof
    have d: "str ''d'' @ [slash] = str ''d/''" by (simp add: str_def)
    have sl: "split_level [] (rev demo_staged) = ([(str ''c'', Staged3 (str ''blob'') (demo_hash 22) None)],
        [(str ''d'', [(str ''d/b'', Staged3 (str ''manifest'') (demo_hash 33) (Some (demo_hash 44))),
           (str ''d/a'', Staged2 (str ''manifest'') (demo_hash 11))])])"
      "split_level (str ''d/'') [(str ''d/b'', Staged3 (str ''manifest'') (demo_hash 33) (Some (demo_hash 44))),
           (str ''d/a'', Staged2 (str ''manifest'') (demo_hash 11))] =
         ([(str ''b'', Staged3 (str ''manifest'') (demo_hash 33) (Some (demo_hash 44))),
           (str ''a'', Staged2 (str ''manifest'') (demo_hash 11))], [])"
      by code_simp+
    have "serialize_tree \<lparr>tree_entries = [staged_tree_entry (str ''b'', Staged3 (str ''manifest'') (demo_hash 33) (Some (demo_hash 44))),
        staged_tree_entry (str ''a'', Staged2 (str ''manifest'') (demo_hash 11))]\<rparr> = serialize_tree demo_sub"
      unfolding demo_sub_def by (rule serialize_tree_perm) auto
    then have "subtree_blobs demo_env (Suc (Suc n)) (rev demo_staged) [] = Inr demo_blobs" for n
      by (simp add: sl d demo_blobs_def demo_root_def)
    from this [of 48] show "subtree_blobs demo_env 50 (rev demo_staged) [] = Inr demo_blobs" by simp
    show "inj_on demo_digest (set demo_blobs \<union> set demo_blobs)"
      using demo_blobs_distinct by (simp add: distinct_map)
  qed
  have b: "\<exists>h d'. build_nested_tree demo_env s d = Inr (h, d')"
    if "subtree_blobs demo_env 50 s [] = Inr c" for s d c
    using that by (simp add: build_nested_tree_def build_subtree_blobs [OF demo_env_ok])
  obtain h d where h: "build_nested_tree demo_env demo_staged [] = Inr (h, d)" using b [OF demo_blobs] by blast
  obtain h' d' where h': "build_nested_tree demo_env (rev demo_staged) d = Inr (h', d')" using b [OF bs] by blast
  have "wf_dict demo_staged" using demo_staged_ok(1) by (simp add: staged_ok_def)
  then have "map_of demo_staged = map_of (rev demo_staged)" by (simp add: map_of_rev_wf)
  moreover have "\<forall>b1 b2. subtree_blobs demo_env (rec_limit demo_env) demo_staged [] = Inr b1 \<and>
      subtree_blobs demo_env (rec_limit demo_env) (rev demo_staged) [] = Inr b2 \<longrightarrow>
      inj_on (sha256 demo_env) (set b1 \<union> set b2)"
    using bs demo_blobs inj unfolding demo_env_simps by (metis old.sum.inject(2))
  ultimately have "h = h'"
    using root_hash_content [OF demo_env_ok demo_staged_ok(1-3) ok h h'] by blast
  with h h' show ?thesis by blast
qed

text \<open>
  On a well-formed stored tree, the flat map and the lookup of single paths agree: a path
  is in the flat map, with an entry, exactly when \<open>resolve_entry\<close> finds that entry there.
\<close>

theorem flatten_resolve_agree:
  assumes "tree_ok E d n th"
  shows "\<exists>flat. flatten_tree E d n th [] = Inr flat \<and> wf_dict flat \<and>
           (\<forall>p v. map_of flat p = Some v \<longleftrightarrow>
              resolve_entry E d th p = Inr (Some v) \<and> fst v \<noteq> str ''tree'' \<and> strip_slash p = p)"
proof -
  obtain flat where f: "flatten_tree E d n th [] = Inr flat" using flatten_tree_total [OF assms] by blast
  show ?thesis
    using f flatten_tree_wf [OF f] flatten_tree_leaf [OF assms f, unfolded leaf_at_resolve [OF assms]]
    by (intro exI [of _ flat] conjI allI)
qed

theorem flatten_resolve_agree_witness:
  "\<exists>flat. flatten_tree demo_env demo_disk 50 (demo_digest (serialize_tree demo_root)) [] = Inr flat \<and>
     (\<forall>p v. map_of flat p = Some v \<longleftrightarrow>
        resolve_entry demo_env demo_disk (demo_digest (serialize_tree demo_root)) p = Inr (Some v) \<and>
        fst v \<noteq> str ''tree'' \<and> strip_slash p = p)"
proof -
  let ?E = "\<lambda>t. tree_entries (norm_tree t)"
  have e: "set (?E t) = set (tree_entries t)"
    "distinct (map te_name (?E t)) \<longleftrightarrow> distinct (map te_name (tree_entries t))" for t
    by (simp_all add: norm_tree_def distinct_map_sort_key)
  have "\<forall>e \<in> set (tree_entries demo_sub). name_ok (te_name e) \<and> \<not> is_tree e"
    "distinct (map te_name (tree_entries demo_sub))"
    by (simp_all add: demo_sub_def name_ok_def str_def)
  with demo_read(1) e have sub: "tree_ok demo_env demo_disk (Suc n) (demo_digest (serialize_tree demo_sub))" for n
    by simp
  have "\<forall>e \<in> set (tree_entries demo_root). name_ok (te_name e) \<and>
      (is_tree e \<longrightarrow> te_hash e = demo_digest (serialize_tree demo_sub))"
    "distinct (map te_name (tree_entries demo_root))"
    by (simp_all add: demo_root_def name_ok_def str_def)
  with demo_read(2) e sub have "tree_ok demo_env demo_disk (Suc (Suc n)) (demo_digest (serialize_tree demo_root))" for n
    by (simp only: tree_ok.simps(2) sum.case option.case) auto
  from this [of 48] have "tree_ok demo_env demo_disk 50 (demo_digest (serialize_tree demo_root))" by simp
  from flatten_resolve_agree [OF this] show ?thesis by blast
qed

end
