(* ===== verification/Dit_Walk.thy ===== *)
theory Dit_Walk
  imports Dit_Tree
begin

text \<open>
  \<open>src/dit/core/walker.py\<close> and \<open>src/dit/core/merge_base.py\<close>: searches of the object graph.

  The dictionary of sets the walker returns is a set of pairs (kind, hash). A Python list used
  as a stack is a list whose head is the top. The loops are total functions: every pop either
  shrinks the stack or visits an object of the store for the first time.
\<close>

section \<open>Finite graphs\<close>

text \<open>What the searches have in common: finitely many edges, given by lists of successors.\<close>

locale finite_graph =
  fixes succs :: "'n \<Rightarrow> 'n list"
  assumes finite_sources: "finite {n. succs n \<noteq> []}"
begin

definition edges :: "('n \<times> 'n) set" where
  "edges = {(n, m). m \<in> set (succs n)}"

lemma edges_iff [simp]: "(n, m) \<in> edges \<longleftrightarrow> m \<in> set (succs n)"
  by (simp add: edges_def)

lemma finite_targets: "finite (\<Union>n. set (succs n))"
proof (rule finite_subset)
  show "(\<Union>n. set (succs n)) \<subseteq> (\<Union>n \<in> {n. succs n \<noteq> []}. set (succs n))"
    by (auto intro: length_pos_if_in_set) (metis empty_iff list.set(1))
qed (use finite_sources in auto)

lemma closed_reach:
  assumes "x \<in> A" and "\<And>n m. n \<in> A \<Longrightarrow> m \<in> set (succs n) \<Longrightarrow> m \<in> A" and "(x, y) \<in> edges\<^sup>*"
  shows "y \<in> A"
  using assms(3,1) by (induction rule: rtrancl_induct) (auto intro: assms(2))

lemma finite_reach: "finite {y. (x, y) \<in> edges\<^sup>*}"
proof (rule finite_subset)
  show "{y. (x, y) \<in> edges\<^sup>*} \<subseteq> insert x (\<Union>n. set (succs n))"
    by (auto elim: rtranclE)
qed (simp add: finite_targets)

text \<open>A node reached from \<open>x\<close> is reached without passing \<open>s\<close>, or from \<open>s\<close>.\<close>

definition avoiding :: "'n \<Rightarrow> ('n \<times> 'n) set" where
  "avoiding s = {(n, m) \<in> edges. n \<noteq> s}"

lemma reach_split:
  assumes "(x, y) \<in> edges\<^sup>*"
  shows "(x, y) \<in> (avoiding s)\<^sup>* \<and> y \<noteq> s \<or> (s, y) \<in> edges\<^sup>*"
  using assms
proof (induction rule: rtrancl_induct)
  case base
  then show ?case by auto
next
  case (step y z)
  then show ?case
    by (cases "z = s") (auto simp: avoiding_def intro: rtrancl_into_rtrancl)
qed

end

section \<open>Commits\<close>

definition commit_parents :: "env \<Rightarrow> disk \<Rightarrow> pystr \<Rightarrow> pystr list" where
  "commit_parents E d h = (case read_commit E d h of Inr (Some c) \<Rightarrow> parent_hashes c | _ \<Rightarrow> [])"

lemma read_commit_names: "read_commit E d h = Inr (Some c) \<Longrightarrow> h \<in> disk_names d"
  by (simp add: read_commit_def load_disk_names)

lemma commit_parents_names: "commit_parents E d h \<noteq> [] \<Longrightarrow> h \<in> disk_names d"
  by (auto simp: commit_parents_def dest: read_commit_names split: sum.splits option.splits)

interpretation commits: finite_graph "commit_parents E d" for E d
proof
  show "finite {n. commit_parents E d n \<noteq> []}"
    by (rule finite_subset [of _ "disk_names d"]) (auto dest: commit_parents_names)
qed

text \<open>\<open>ancestor E d a b\<close>: the commit \<open>a\<close> is \<open>b\<close> or one of its ancestors.\<close>

definition ancestor :: "env \<Rightarrow> disk \<Rightarrow> pystr \<Rightarrow> pystr \<Rightarrow> bool" where
  "ancestor E d a b \<longleftrightarrow> (b, a) \<in> (commits.edges E d)\<^sup>*"

lemma ancestor_refl [simp]: "ancestor E d a a"
  by (simp add: ancestor_def)

lemma ancestor_parent: "ancestor E d h b \<Longrightarrow> p \<in> set (commit_parents E d h) \<Longrightarrow> ancestor E d p b"
  unfolding ancestor_def by (rule rtrancl_into_rtrancl) simp_all

lemma ancestor_trans: "ancestor E d a b \<Longrightarrow> ancestor E d b c \<Longrightarrow> ancestor E d a c"
  unfolding ancestor_def by (rule rtrancl_trans)

lemma ancestor_closed:
  "ancestor E d a b \<Longrightarrow> b \<in> A \<Longrightarrow> (\<And>n m. n \<in> A \<Longrightarrow> m \<in> set (commit_parents E d n) \<Longrightarrow> m \<in> A) \<Longrightarrow> a \<in> A"
  unfolding ancestor_def by (rule commits.closed_reach)

lemma ancestor_subset:
  "ancestor E d a b \<Longrightarrow> b \<in> A \<Longrightarrow> \<forall>n \<in> A. set (commit_parents E d n) \<subseteq> A \<Longrightarrow> a \<in> A"
  by (rule ancestor_closed) auto

section \<open>\<open>is_ancestor\<close>\<close>

function ancestor_loop :: "env \<Rightarrow> disk \<Rightarrow> pystr \<Rightarrow> pystr list \<Rightarrow> pystr set \<Rightarrow> bool res" where
  "ancestor_loop E d anc [] visited = Inr False"
| "ancestor_loop E d anc (current # stack) visited =
     (if current \<in> visited then ancestor_loop E d anc stack visited
      else bindE (read_commit E d current) (\<lambda>x.
        case x of
          None \<Rightarrow> ancestor_loop E d anc stack (insert current visited)
        | Some c \<Rightarrow>
            if anc \<in> set (parent_hashes c) then Inr True
            else ancestor_loop E d anc (rev (parent_hashes c) @ stack) (insert current visited)))"
  by pat_completeness auto

text \<open>Visiting an object that is on the disk leaves fewer of them to visit.\<close>

lemma card_visit: "h \<in> N \<Longrightarrow> h \<notin> V \<Longrightarrow> finite N \<Longrightarrow> card (N - insert h V) < card (N - V)"
  by (rule psubset_card_mono) auto

lemma card_visit_le: "finite N \<Longrightarrow> card (N - insert h V) \<le> card (N - V)"
  by (rule card_mono) auto

termination ancestor_loop
proof (relation "measures [\<lambda>(E, d, anc, stack, visited). card (disk_names d - visited),
      \<lambda>(E, d, anc, stack, visited). length stack]", goal_cases)
  case (3 E d anc current stack visited x)
  with card_visit_le [of "disk_names d" current visited] show ?case by (auto simp: le_less)
next
  case (4 E d anc current stack visited x c)
  with read_commit_names have "current \<in> disk_names d" by simp
  with card_visit [of current "disk_names d" visited] 4 show ?case by simp
qed auto

definition is_ancestor :: "env \<Rightarrow> disk \<Rightarrow> pystr \<Rightarrow> pystr \<Rightarrow> bool res" where
  "is_ancestor E d anc desc =
     (if anc = desc then Inr True else ancestor_loop E d anc [desc] {})"

text \<open>The loop has seen only ancestors of \<open>b\<close>, and all parents of what it has visited.\<close>

lemma ancestor_loop_correct:
  assumes "ancestor_loop E d a stack V = Inr r"
    and "\<forall>h \<in> V \<union> set stack. ancestor E d h b" and "b \<in> V \<union> set stack"
    and "\<forall>h \<in> V. set (commit_parents E d h) \<subseteq> V \<union> set stack"
    and "a \<notin> V \<union> set stack"
  shows "r \<longleftrightarrow> ancestor E d a b"
  using assms
proof (induction E d a stack V rule: ancestor_loop.induct)
  case (1 E d a V)
  with ancestor_closed [of E d a b V] show ?case by auto
next
  case (2 E d a h stack V)
  show ?case
  proof (cases "h \<in> V")
    case True
    with 2 show ?thesis by auto
  next
    case False
    with "2.prems"(1) obtain x where x: "read_commit E d h = Inr x" by (auto simp: bindE_eq_Inr)
    show ?thesis
    proof (cases x)
      case None
      with x have "commit_parents E d h = []" by (simp add: commit_parents_def)
      with None False x 2 show ?thesis by auto
    next
      case (Some c)
      with x have p: "commit_parents E d h = parent_hashes c" by (simp add: commit_parents_def)
      show ?thesis
      proof (cases "a \<in> set (parent_hashes c)")
        case True
        with "2.prems"(2) p have "ancestor E d a b" by (auto intro: ancestor_parent)
        with True x Some False "2.prems"(1) show ?thesis by simp
      next
        case nota: False
        have "ancestor E d q b" if "q \<in> set (parent_hashes c)" for q
          using that p "2.prems"(2) by (auto intro: ancestor_parent)
        with nota False x Some p "2.prems" show ?thesis
          by (intro "2.IH"(3) [OF False x Some nota]) auto
      qed
    qed
  qed
qed

lemma is_ancestor_correct: "is_ancestor E d a b = Inr r \<Longrightarrow> r \<longleftrightarrow> ancestor E d a b"
  by (auto simp: is_ancestor_def ancestor_loop_correct [of E d a "[b]" "{}" _ b] split: if_splits)


section \<open>Walking the objects of a commit\<close>

datatype okind = KCommit | KTree | KManifest | KRow | KSidecar | KBlob

type_synonym node = "okind \<times> pystr"

text \<open>What one entry of a tree adds to the result, and what it pushes.\<close>

definition entry_adds :: "tree_entry \<Rightarrow> node list" where
  "entry_adds e =
     (case te_sidecar e of Some sc \<Rightarrow> if sc = [] then [] else [(KSidecar, sc)] | None \<Rightarrow> []) @
     (if te_type e = str ''blob'' then [(KBlob, te_hash e)] else [])"

definition entry_pushes :: "tree_entry \<Rightarrow> node list" where
  "entry_pushes e =
     (if te_type e = str ''manifest'' then [(KManifest, te_hash e)]
      else if te_type e = str ''tree'' then [(KTree, te_hash e)] else [])"

text \<open>The body of the loop for one object: what it adds and what it pushes.\<close>

fun visit :: "env \<Rightarrow> disk \<Rightarrow> node \<Rightarrow> (node list \<times> node list) res" where
  "visit E d (KCommit, h) = bindE (read_commit E d h) (\<lambda>x. Inr (case x of
       None \<Rightarrow> ([], [])
     | Some c \<Rightarrow> ([], (KTree, tree_hash c) # map (Pair KCommit) (parent_hashes c))))"
| "visit E d (KTree, h) = bindE (read_tree E d h) (\<lambda>x. Inr (case x of
       None \<Rightarrow> ([], [])
     | Some t \<Rightarrow> (concat (map entry_adds (tree_entries t)), concat (map entry_pushes (tree_entries t)))))"
| "visit E d (KManifest, h) = bindE (read_manifest E d h) (\<lambda>x. Inr (case x of
       None \<Rightarrow> ([], [])
     | Some m \<Rightarrow> (map (\<lambda>e. (KRow, row_hash e)) (entries m), [])))"
| "visit E d (_, h) = Inr ([], [])"

lemma visit_on_disk:
  assumes "visit E d (k, h) = Inr (adds, pushes)" and "adds \<noteq> [] \<or> pushes \<noteq> []"
  shows "(k, h) \<in> {KCommit, KTree, KManifest} \<times> disk_names d"
  using assms by (cases k) (auto simp: bindE_eq_Inr read_defs dest!: load_disk_names split: option.splits)

abbreviation walk_nodes :: "disk \<Rightarrow> node set" where
  "walk_nodes d \<equiv> {KCommit, KTree, KManifest} \<times> disk_names d"

function walk_loop :: "env \<Rightarrow> disk \<Rightarrow> node list \<Rightarrow> node set \<Rightarrow> node set res" where
  "walk_loop E d [] result = Inr result"
| "walk_loop E d (node # stack) result =
     (if node \<in> result then walk_loop E d stack result
      else bindE (visit E d node) (\<lambda>(adds, pushes).
        walk_loop E d (rev pushes @ stack) (insert node result \<union> set adds)))"
  by pat_completeness auto

termination walk_loop
proof (relation "measures [\<lambda>(E, d, stack, result). card (walk_nodes d - result),
      \<lambda>(E, d, stack, result). length stack]", goal_cases)
  case (3 E d node stack result x adds pushes)
  have fin: "finite (walk_nodes d)" by simp
  show ?case
  proof (cases "pushes = []")
    case True
    have "card (walk_nodes d - (insert node result \<union> set adds)) \<le> card (walk_nodes d - result)"
      using fin by (intro card_mono) auto
    then show ?thesis by (auto simp: True le_less)
  next
    case False
    have "node \<in> walk_nodes d"
      using visit_on_disk [of E d "fst node" "snd node" adds pushes] 3 False by simp
    with 3 have "card (walk_nodes d - (insert node result \<union> set adds)) < card (walk_nodes d - result)"
      using fin by (intro psubset_card_mono) auto
    then show ?thesis by simp
  qed
qed auto

definition walk_commit_objects :: "env \<Rightarrow> disk \<Rightarrow> pystr \<Rightarrow> node set res" where
  "walk_commit_objects E d commit_hash = walk_loop E d [(KCommit, commit_hash)] {}"

section \<open>Walking what is new since a commit\<close>

function since_loop ::
  "env \<Rightarrow> disk \<Rightarrow> pystr \<Rightarrow> pystr list \<Rightarrow> pystr set \<Rightarrow> pystr list \<Rightarrow> pystr list res" where
  "since_loop E d stop_at [] visited new = Inr new"
| "since_loop E d stop_at (h # stack) visited new =
     (if h \<in> visited then since_loop E d stop_at stack visited new
      else if h = stop_at then since_loop E d stop_at stack (insert h visited) new
      else bindE (read_commit E d h) (\<lambda>x.
        let queued = (case x of None \<Rightarrow> [] | Some c \<Rightarrow>
              filter (\<lambda>p. p \<notin> insert h visited) (parent_hashes c)) in
        since_loop E d stop_at (rev queued @ stack) (insert h visited) (new @ [h])))"
  by pat_completeness auto

termination since_loop
proof (relation "measures [\<lambda>(E, d, stop, stack, visited, new). card (disk_names d - visited),
      \<lambda>(E, d, stop, stack, visited, new). length stack]", goal_cases)
  case (3 E d stop h stack visited new)
  with card_visit_le [of "disk_names d" h visited] show ?case by (auto simp: le_less)
next
  case (4 E d stop h stack visited new x queued)
  show ?case
  proof (cases x)
    case None
    with 4 card_visit_le [of "disk_names d" h visited] show ?thesis by (auto simp: le_less)
  next
    case (Some c)
    with 4 read_commit_names have "h \<in> disk_names d" by simp
    with 4 card_visit [of h "disk_names d" visited] show ?thesis by simp
  qed
qed auto

text \<open>\<open>new_commits\<close> is a set: its iteration order is the one of \<open>set_order\<close>.\<close>

definition commit_trees :: "env \<Rightarrow> disk \<Rightarrow> pystr list \<Rightarrow> node list res" where
  "commit_trees E d new =
     foldE (\<lambda>ch stack. bindE (read_commit E d ch) (\<lambda>x.
        Inr (case x of None \<Rightarrow> stack | Some c \<Rightarrow> (KTree, tree_hash c) # stack))) (set_order E new) []"

definition walk_commit_objects_since :: "env \<Rightarrow> disk \<Rightarrow> pystr \<Rightarrow> pystr option \<Rightarrow> node set res" where
  "walk_commit_objects_since E d head_hash stop_at =
     (case stop_at of
        None \<Rightarrow> walk_commit_objects E d head_hash
      | Some stop \<Rightarrow>
          bindE (since_loop E d stop [head_hash] {} []) (\<lambda>new.
          bindE (commit_trees E d new) (\<lambda>tree_stack.
            walk_loop E d tree_stack (Pair KCommit ` set new))))"

section \<open>What a walk finds\<close>

text \<open>The objects an object refers to.\<close>

definition object_refs :: "env \<Rightarrow> disk \<Rightarrow> node \<Rightarrow> node list" where
  "object_refs E d n = (case visit E d n of Inr (adds, pushes) \<Rightarrow> adds @ pushes | Inl _ \<Rightarrow> [])"

interpretation objects: finite_graph "object_refs E d" for E d
proof
  have "{n. object_refs E d n \<noteq> []} \<subseteq> walk_nodes d"
    using visit_on_disk by (force simp: object_refs_def split: sum.splits)
  then show "finite {n. object_refs E d n \<noteq> []}" by (rule finite_subset) simp
qed

definition reaches :: "env \<Rightarrow> disk \<Rightarrow> node \<Rightarrow> node \<Rightarrow> bool" where
  "reaches E d n m \<longleftrightarrow> (n, m) \<in> (objects.edges E d)\<^sup>*"

lemma reaches_refl [simp]: "reaches E d n n"
  by (simp add: reaches_def)

lemma reaches_ref: "reaches E d n m \<Longrightarrow> x \<in> set (object_refs E d m) \<Longrightarrow> reaches E d n x"
  unfolding reaches_def by (rule rtrancl_into_rtrancl) simp_all

lemma reaches_trans: "reaches E d n m \<Longrightarrow> reaches E d m x \<Longrightarrow> reaches E d n x"
  unfolding reaches_def by (rule rtrancl_trans)

lemma reaches_closed:
  "reaches E d n m \<Longrightarrow> n \<in> A \<Longrightarrow> (\<And>x y. x \<in> A \<Longrightarrow> y \<in> set (object_refs E d x) \<Longrightarrow> y \<in> A) \<Longrightarrow> m \<in> A"
  unfolding reaches_def by (rule objects.closed_reach)

lemma object_refs_leaf: "k \<notin> {KCommit, KTree, KManifest} \<Longrightarrow> object_refs E d (k, h) = []"
  by (cases k) (auto simp: object_refs_def)

lemma visit_adds_leaf:
  assumes "visit E d n = Inr (adds, pushes)" and "m \<in> set adds"
  shows "object_refs E d m = []"
proof -
  obtain k h where n: "n = (k, h)" by (cases n)
  show ?thesis using assms unfolding n
    by (cases k) (auto simp: bindE_eq_Inr entry_adds_def object_refs_leaf split: option.splits if_splits)
qed

text \<open>
  The invariant of the loop: what an object of the result refers to is in the result or on the
  stack. \<open>A\<close> is any set of objects whose references are already in the result.
\<close>

lemma walk_loop_correct:
  assumes "walk_loop E d stack R = Inr result"
    and "\<forall>n \<in> R - A. set (object_refs E d n) \<subseteq> R \<union> set stack"
  shows "R \<union> set stack \<subseteq> result"
    and "\<forall>n \<in> result - A. set (object_refs E d n) \<subseteq> result"
    and "\<forall>m \<in> result. m \<in> R \<or> (\<exists>n \<in> set stack. reaches E d n m)"
proof -
  have "R \<union> set stack \<subseteq> result \<and> (\<forall>n \<in> result - A. set (object_refs E d n) \<subseteq> result) \<and>
      (\<forall>m \<in> result. m \<in> R \<or> (\<exists>n \<in> set stack. reaches E d n m))"
    using assms
  proof (induction E d stack R rule: walk_loop.induct)
    case (2 E d node stack R)
    show ?case
    proof (cases "node \<in> R")
      case True
      with "2.IH"(1) [OF True] "2.prems" show ?thesis by (auto simp: insert_absorb)
    next
      case False
      with "2.prems"(1) obtain adds pushes where v: "visit E d node = Inr (adds, pushes)"
        and w: "walk_loop E d (rev pushes @ stack) (insert node R \<union> set adds) = Inr result"
        by (auto simp: bindE_eq_Inr)
      have refs: "object_refs E d node = adds @ pushes" by (simp add: object_refs_def v)
      have "\<forall>n \<in> insert node R \<union> set adds - A.
          set (object_refs E d n) \<subseteq> insert node R \<union> set adds \<union> set (rev pushes @ stack)"
        using "2.prems"(2) visit_adds_leaf [OF v] refs by fastforce
      note IH = "2.IH"(2) [OF False v refl w this]
      have new: "reaches E d node m" if "m \<in> set adds \<union> set pushes" for m
        using that refs by (auto intro: reaches_ref [OF reaches_refl])
      have "m \<in> R \<or> (\<exists>n \<in> set (node # stack). reaches E d n m)" if "m \<in> result" for m
      proof -
        from IH that have "m \<in> insert node R \<union> set adds \<or> (\<exists>n \<in> set pushes \<union> set stack. reaches E d n m)"
          by simp
        then consider "m = node" | "m \<in> R" | "m \<in> set adds"
          | n where "n \<in> set pushes" "reaches E d n m" | "\<exists>n \<in> set stack. reaches E d n m"
          by blast
        then show ?thesis by cases (use new reaches_trans in fastforce)+
      qed
      with IH show ?thesis by auto
    qed
  qed auto
  then show "R \<union> set stack \<subseteq> result" "\<forall>n \<in> result - A. set (object_refs E d n) \<subseteq> result"
    "\<forall>m \<in> result. m \<in> R \<or> (\<exists>n \<in> set stack. reaches E d n m)" by auto
qed

lemma walk_commit_objects_correct:
  assumes "walk_commit_objects E d h = Inr result"
  shows "result = {n. reaches E d (KCommit, h) n}"
proof -
  note w = walk_loop_correct [OF assms [unfolded walk_commit_objects_def], of "{}"]
  show ?thesis
    using w reaches_closed [of E d "(KCommit, h)" _ result] by fastforce
qed


section \<open>What a delta finds\<close>

lemma object_refs_commit:
  assumes "read_commit E d h = Inr (Some c)"
  shows "object_refs E d (KCommit, h) = (KTree, tree_hash c) # map (Pair KCommit) (parent_hashes c)"
    and "commit_parents E d h = parent_hashes c"
  using assms by (simp_all add: object_refs_def commit_parents_def)

lemma object_refs_no_commit:
  "read_commit E d h = Inr None \<Longrightarrow> object_refs E d (KCommit, h) = []"
  "read_commit E d h = Inr None \<Longrightarrow> commit_parents E d h = []"
  by (simp_all add: object_refs_def commit_parents_def)

lemma parent_ref:
  assumes "p \<in> set (commit_parents E d h)"
  shows "(KCommit, p) \<in> set (object_refs E d (KCommit, h))"
proof -
  obtain c where "read_commit E d h = Inr (Some c)" and "p \<in> set (parent_hashes c)"
    using assms by (cases "read_commit E d h") (auto simp: commit_parents_def split: option.splits)
  then show ?thesis by (simp add: object_refs_commit(1))
qed

lemma ancestor_reaches: "ancestor E d a b \<Longrightarrow> reaches E d (KCommit, b) (KCommit, a)"
  unfolding ancestor_def
  by (induction rule: rtrancl_induct) (auto intro: reaches_ref parent_ref)

text \<open>The commits collected: the head, and with a commit its parents except \<open>stop_at\<close>.\<close>

definition since_inv :: "env \<Rightarrow> disk \<Rightarrow> pystr \<Rightarrow> pystr \<Rightarrow> pystr list \<Rightarrow> pystr set \<Rightarrow> pystr list \<Rightarrow> bool" where
  "since_inv E d stop b stack visited new \<longleftrightarrow>
     visited \<subseteq> insert stop (set new) \<and> set new \<subseteq> visited \<and> stop \<notin> set new \<and>
     b \<in> visited \<union> set stack \<and> (\<forall>h \<in> visited \<union> set stack. ancestor E d h b) \<and>
     (\<forall>h \<in> set new. set (commit_parents E d h) \<subseteq> visited \<union> set stack \<and>
        (\<exists>x. read_commit E d h = Inr x))"

lemma since_loop_inv:
  assumes "since_loop E d stop stack visited new = Inr result" and "since_inv E d stop b stack visited new"
  shows "\<exists>V. since_inv E d stop b [] V result"
  using assms
proof (induction E d stop stack visited new rule: since_loop.induct)
  case (2 E d stop h stack visited new)
  show ?case
  proof (cases "h \<in> visited")
    case True
    with 2 show ?thesis by (auto simp: since_inv_def insert_absorb)
  next
    case hV: False
    show ?thesis
    proof (cases "h = stop")
      case True
      with hV 2 show ?thesis by (force simp: since_inv_def)
    next
      case False
      with hV "2.prems"(1) obtain x where x: "read_commit E d h = Inr x"
        and l: "since_loop E d stop (rev (case x of None \<Rightarrow> [] | Some c \<Rightarrow>
              filter (\<lambda>p. p \<notin> insert h visited) (parent_hashes c)) @ stack) (insert h visited) (new @ [h]) = Inr result"
        by (auto simp: bindE_eq_Inr Let_def)
      let ?q = "case x of None \<Rightarrow> [] | Some c \<Rightarrow> filter (\<lambda>p. p \<notin> insert h visited) (parent_hashes c)"
      have q: "set (commit_parents E d h) \<subseteq> insert h visited \<union> set ?q" "set ?q \<subseteq> set (commit_parents E d h)"
        using x by (auto simp: commit_parents_def split: option.splits)
      have anc: "ancestor E d p b" if "p \<in> set ?q" for p
        using that q(2) "2.prems"(2) by (auto simp: since_inv_def intro: ancestor_parent)
      from "2.prems"(2) hV False have
        i: "visited \<subseteq> insert stop (set new)" "set new \<subseteq> visited" "stop \<notin> set new"
          "b \<in> visited \<union> set (h # stack)" "\<forall>k \<in> visited \<union> set (h # stack). ancestor E d k b"
          "\<forall>k \<in> set new. set (commit_parents E d k) \<subseteq> visited \<union> set (h # stack) \<and> (\<exists>x. read_commit E d k = Inr x)"
        by (auto simp: since_inv_def)
      have "since_inv E d stop b (rev ?q @ stack) (insert h visited) (new @ [h])"
        unfolding since_inv_def using i False anc q(1) x by (intro conjI) auto
      with "2.IH"(3) [OF hV False x refl l] show ?thesis .
    qed
  qed
qed auto

lemma since_loop_correct:
  assumes "since_loop E d stop [b] {} [] = Inr new"
  shows "stop \<notin> set new" and "b \<in> insert stop (set new)"
    and "\<forall>h \<in> set new. set (commit_parents E d h) \<subseteq> insert stop (set new)"
    and "\<forall>h \<in> set new. ancestor E d h b \<and> (\<exists>x. read_commit E d h = Inr x)"
proof -
  obtain V where "since_inv E d stop b [] V new"
    using since_loop_inv [OF assms, of b] by (auto simp: since_inv_def)
  then show "stop \<notin> set new" "b \<in> insert stop (set new)"
    "\<forall>h \<in> set new. set (commit_parents E d h) \<subseteq> insert stop (set new)"
    "\<forall>h \<in> set new. ancestor E d h b \<and> (\<exists>x. read_commit E d h = Inr x)"
    unfolding since_inv_def by (simp_all, blast+)
qed

lemma commit_trees_fold:
  assumes "foldE (\<lambda>ch stack. bindE (read_commit E d ch) (\<lambda>x.
        Inr (case x of None \<Rightarrow> stack | Some c \<Rightarrow> (KTree, tree_hash c) # stack))) hs st = Inr ts"
  shows "set ts = set st \<union> {(KTree, tree_hash c) | h c. h \<in> set hs \<and> read_commit E d h = Inr (Some c)}"
  using assms
proof (induction hs arbitrary: st)
  case (Cons h hs)
  then obtain x where x: "read_commit E d h = Inr x"
    and f: "foldE (\<lambda>ch stack. bindE (read_commit E d ch) (\<lambda>x.
        Inr (case x of None \<Rightarrow> stack | Some c \<Rightarrow> (KTree, tree_hash c) # stack))) hs
        (case x of None \<Rightarrow> st | Some c \<Rightarrow> (KTree, tree_hash c) # st) = Inr ts"
    by (auto simp: bindE_eq_Inr)
  from Cons.IH [OF f] x show ?case by (cases x) auto
qed simp

lemma commit_trees_set:
  "env_ok E \<Longrightarrow> commit_trees E d new = Inr ts \<Longrightarrow>
   set ts = {(KTree, tree_hash c) | h c. h \<in> set new \<and> read_commit E d h = Inr (Some c)}"
  unfolding commit_trees_def by (drule commit_trees_fold) (simp add: env_okD)

lemma walk_since_correct:
  assumes "env_ok E" and "walk_commit_objects_since E d head (Some stop) = Inr result"
  shows "{n. reaches E d (KCommit, head) n} \<subseteq> result \<union> {n. reaches E d (KCommit, stop) n}"
    and "result \<subseteq> {n. reaches E d (KCommit, head) n}"
    and "(KCommit, stop) \<notin> result"
proof -
  from assms(2) obtain new ts where new: "since_loop E d stop [head] {} [] = Inr new"
    and ts: "commit_trees E d new = Inr ts" and w: "walk_loop E d ts (Pair KCommit ` set new) = Inr result"
    by (auto simp: walk_commit_objects_since_def bindE_eq_Inr)
  note N = since_loop_correct [OF new]
  note T = commit_trees_set [OF assms(1) ts]
  note W = walk_loop_correct [OF w, of "Pair KCommit ` set new"]
  have closed: "y \<in> result \<union> {n. reaches E d (KCommit, stop) n}"
    if x: "x \<in> result \<union> {n. reaches E d (KCommit, stop) n}" and y: "y \<in> set (object_refs E d x)" for x y
  proof (cases "x \<in> Pair KCommit ` set new")
    case True
    then obtain h where h: "x = (KCommit, h)" "h \<in> set new" by blast
    obtain c where c: "read_commit E d h = Inr (Some c)"
      using y h N(4) object_refs_no_commit(1) [of E d h] by (metis empty_iff list.set(1) not_None_eq)
    from y consider "y = (KTree, tree_hash c)" | p where "y = (KCommit, p)" "p \<in> set (parent_hashes c)"
      using h object_refs_commit(1) [OF c] by auto
    then show ?thesis
    proof cases
      case 1
      then show ?thesis using T W(1) h c by blast
    next
      case (2 p)
      then have "p \<in> insert stop (set new)" using N(3) h(2) unfolding object_refs_commit(2) [OF c, symmetric] by blast
      with 2 W(1) show ?thesis by auto
    qed
  next
    case False
    with x y W(2) reaches_ref show ?thesis by blast
  qed
  have "(KCommit, head) \<in> result \<union> {n. reaches E d (KCommit, stop) n}"
    using N(2) W(1) by auto
  from reaches_closed [OF _ this closed]
  show "{n. reaches E d (KCommit, head) n} \<subseteq> result \<union> {n. reaches E d (KCommit, stop) n}"
    by (intro subsetI) simp
  have commit: "reaches E d (KCommit, head) (KCommit, h)" if "h \<in> set new" for h
    using N(4) that ancestor_reaches by blast
  have tree: "reaches E d (KCommit, head) n" if "n \<in> set ts" for n
    using that T commit object_refs_commit(1) by (force intro: reaches_ref)
  show "result \<subseteq> {n. reaches E d (KCommit, head) n}"
  proof
    fix m assume "m \<in> result"
    with W(3) consider h where "m = (KCommit, h)" "h \<in> set new" | n where "n \<in> set ts" "reaches E d n m"
      by blast
    then show "m \<in> {n. reaches E d (KCommit, head) n}"
      by cases (use commit tree in \<open>auto intro: reaches_trans\<close>)
  qed
  have no_commit: "k \<noteq> KCommit" if "reaches E d n (k, h)" "fst n \<noteq> KCommit" for n k h
  proof -
    have "(k, h) \<in> {m. fst m \<noteq> KCommit}"
      using that(1)
    proof (rule reaches_closed)
      fix x y assume "x \<in> {m. fst m \<noteq> KCommit}" "y \<in> set (object_refs E d x)"
      then show "y \<in> {m. fst m \<noteq> KCommit}"
        by (cases x; cases "fst x") (auto simp: object_refs_def entry_adds_def entry_pushes_def bindE_def
            split: sum.splits option.splits if_splits)
    qed (use that in simp)
    then show ?thesis by simp
  qed
  show "(KCommit, stop) \<notin> result"
    using W(3) N(1) T no_commit by fastforce
qed


section \<open>Merge bases\<close>

text \<open>One step of a breadth-first search on one side; \<open>other\<close> is what the other side has seen.\<close>

fun mb_parents ::
  "pystr list \<Rightarrow> pystr set \<Rightarrow> pystr list \<Rightarrow> pystr set \<Rightarrow> pystr option \<times> pystr set \<times> pystr list" where
  "mb_parents [] seen queue other = (None, seen, queue)"
| "mb_parents (parent # ps) seen queue other =
     (if parent \<notin> seen
      then if parent \<in> other then (Some parent, insert parent seen, queue @ [parent])
           else mb_parents ps (insert parent seen) (queue @ [parent]) other
      else mb_parents ps seen queue other)"

definition mb_side ::
  "env \<Rightarrow> disk \<Rightarrow> pystr list \<Rightarrow> pystr set \<Rightarrow> pystr set \<Rightarrow> (pystr option \<times> pystr set \<times> pystr list) res" where
  "mb_side E d queue seen other =
     (case queue of
        [] \<Rightarrow> Inr (None, seen, [])
      | current # queue' \<Rightarrow>
          if current \<in> other then Inr (Some current, seen, queue')
          else bindE (read_commit E d current) (\<lambda>x. Inr (case x of
            None \<Rightarrow> (None, seen, queue')
          | Some c \<Rightarrow> mb_parents (parent_hashes c) seen queue' other)))"

abbreviation all_parents :: "env \<Rightarrow> disk \<Rightarrow> pystr set" where
  "all_parents E d \<equiv> (\<Union>n. set (commit_parents E d n))"

lemma mb_parents_measure:
  assumes "mb_parents ps S q O' = (f, S', q')" and "set ps \<subseteq> U" and "finite U"
  shows "card (U - S') + length q' = card (U - S) + length q"
  using assms
proof (induction ps arbitrary: S q)
  case (Cons p ps)
  have "Suc (card (U - insert p S)) = card (U - S)" if "p \<notin> S"
    using that Cons.prems(2,3) by (metis Diff_iff card_Suc_Diff1 Diff_insert finite_Diff insert_subset list.simps(15))
  with Cons show ?case by (fastforce split: if_splits)
qed simp

lemma mb_side_measure:
  assumes "mb_side E d q S O' = Inr (f, S', q')"
  shows "card (all_parents E d - S') + length q' \<le> card (all_parents E d - S) + length q"
    and "q \<noteq> [] \<Longrightarrow> card (all_parents E d - S') + length q' < card (all_parents E d - S) + length q"
proof -
  have "card (all_parents E d - S') + length q' + (if q = [] then 0 else 1) =
      card (all_parents E d - S) + length q"
  proof (cases q)
    case (Cons h q0)
    with assms consider "S' = S \<and> q' = q0"
      | c where "read_commit E d h = Inr (Some c)" "mb_parents (parent_hashes c) S q0 O' = (f, S', q')"
      by (auto simp: mb_side_def bindE_eq_Inr split: if_splits option.splits)
    then show ?thesis
    proof cases
      case (2 c)
      moreover have "set (parent_hashes c) \<subseteq> all_parents E d"
        using object_refs_commit(2) [OF 2(1)] by (metis UN_upper UNIV_I)
      ultimately show ?thesis
        using Cons mb_parents_measure [OF 2(2) _ commits.finite_targets] by simp
    qed (simp add: Cons)
  qed (use assms in \<open>simp add: mb_side_def\<close>)
  then show "card (all_parents E d - S') + length q' \<le> card (all_parents E d - S) + length q"
    "q \<noteq> [] \<Longrightarrow> card (all_parents E d - S') + length q' < card (all_parents E d - S) + length q"
    by (auto split: if_splits)
qed

function merge_base_loop ::
  "env \<Rightarrow> disk \<Rightarrow> pystr list \<Rightarrow> pystr list \<Rightarrow> pystr set \<Rightarrow> pystr set \<Rightarrow> pystr option res" where
  "merge_base_loop E d queue_a queue_b ancestors_a ancestors_b =
     (if queue_a = [] \<and> queue_b = [] then Inr None
      else bindE (mb_side E d queue_a ancestors_a ancestors_b) (\<lambda>(found, ancestors_a', queue_a').
        case found of
          Some h \<Rightarrow> Inr (Some h)
        | None \<Rightarrow>
            bindE (mb_side E d queue_b ancestors_b ancestors_a') (\<lambda>(found', ancestors_b', queue_b').
              case found' of
                Some h \<Rightarrow> Inr (Some h)
              | None \<Rightarrow> merge_base_loop E d queue_a' queue_b' ancestors_a' ancestors_b')))"
  by pat_completeness auto

termination merge_base_loop
proof (relation "measure (\<lambda>(E, d, qa, qb, A, B).
      (card (all_parents E d - A) + length qa) + (card (all_parents E d - B) + length qb))", goal_cases)
  case (2 E d qa qb A B x fa y A' qa' z fb w B' qb')
  then have a: "mb_side E d qa A B = Inr (fa, A', qa')" and b: "mb_side E d qb B A' = Inr (fb, B', qb')"
    by auto
  show ?case
    using mb_side_measure [OF a] mb_side_measure [OF b] 2(1) by (cases "qa = []") auto
qed simp

declare merge_base_loop.simps [simp del]

definition find_merge_base :: "env \<Rightarrow> disk \<Rightarrow> pystr \<Rightarrow> pystr \<Rightarrow> pystr option res" where
  "find_merge_base E d hash_a hash_b =
     (if hash_a = hash_b then Inr (Some hash_a)
      else merge_base_loop E d [hash_a] [hash_b] {hash_a} {hash_b})"

text \<open>What one side has seen: ancestors of its start, closed under parents but for the queue.\<close>

definition side_inv :: "env \<Rightarrow> disk \<Rightarrow> pystr \<Rightarrow> pystr list \<Rightarrow> pystr set \<Rightarrow> pystr set \<Rightarrow> bool" where
  "side_inv E d a queue seen other \<longleftrightarrow>
     a \<in> seen \<and> set queue \<subseteq> seen \<and> seen \<inter> other = {} \<and> (\<forall>h \<in> seen. ancestor E d h a) \<and>
     (\<forall>h \<in> seen - set queue. set (commit_parents E d h) \<subseteq> seen)"

lemma mb_parents_result:
  "mb_parents ps S q O' = (f, S', q') \<Longrightarrow>
     case f of
       Some h \<Rightarrow> h \<in> set ps \<inter> O'
     | None \<Rightarrow> S' = S \<union> set ps \<and> set q' = set q \<union> (set ps - S) \<and> (set ps - S) \<inter> O' = {}"
proof (induction ps arbitrary: S q)
  case (Cons p ps)
  show ?case
  proof (cases "p \<in> S \<or> p \<in> O'")
    case True
    with Cons show ?thesis by (fastforce split: if_splits option.splits)
  next
    case False
    with Cons.prems have "mb_parents ps (insert p S) (q @ [p]) O' = (f, S', q')" by simp
    from Cons.IH [OF this] False show ?thesis by (cases f) auto
  qed
qed auto

lemma mb_side_inv:
  assumes "mb_side E d q S O' = Inr (f, S', q')" and "side_inv E d a q S O'"
  shows "case f of Some h \<Rightarrow> h \<in> O' \<and> ancestor E d h a | None \<Rightarrow> side_inv E d a q' S' O'"
proof (cases q)
  case Nil
  with assms show ?thesis by (auto simp: mb_side_def)
next
  case (Cons h q0)
  have h: "h \<in> S" "ancestor E d h a" "h \<notin> O'" using assms(2) Cons by (auto simp: side_inv_def)
  with assms(1) Cons obtain x where x: "read_commit E d h = Inr x"
    and r: "(case x of None \<Rightarrow> (None, S, q0) | Some c \<Rightarrow> mb_parents (parent_hashes c) S q0 O') = (f, S', q')"
    by (auto simp: mb_side_def bindE_eq_Inr)
  have "(case x of None \<Rightarrow> [] | Some c \<Rightarrow> parent_hashes c) = commit_parents E d h"
    using x by (simp add: commit_parents_def)
  with r have m: "mb_parents (commit_parents E d h) S q0 O' = (f, S', q')"
    by (cases x) auto
  have anc: "ancestor E d p a" if "p \<in> set (commit_parents E d h)" for p
    using that h(2) by (rule ancestor_parent [rotated])
  show ?thesis
  proof (cases f)
    case (Some p)
    with mb_parents_result [OF m] anc show ?thesis by simp
  next
    case None
    with mb_parents_result [OF m] have "S' = S \<union> set (commit_parents E d h)"
      "set q' = set q0 \<union> (set (commit_parents E d h) - S)" "(set (commit_parents E d h) - S) \<inter> O' = {}"
      by auto
    with assms(2) Cons None anc show ?thesis
      by (auto simp: side_inv_def)
  qed
qed

lemma side_inv_disjoint: "side_inv E d b q S O' \<Longrightarrow> S \<inter> A = {} \<Longrightarrow> side_inv E d b q S A"
  by (auto simp: side_inv_def)

lemma side_inv_seen: "side_inv E d a q S O' \<Longrightarrow> h \<in> S \<Longrightarrow> ancestor E d h a"
  by (auto simp: side_inv_def)

lemma merge_base_loop_correct:
  assumes "merge_base_loop E d qa qb A B = Inr r"
    and "side_inv E d a qa A B" and "side_inv E d b qb B A"
  shows "case r of Some h \<Rightarrow> ancestor E d h a \<and> ancestor E d h b
                 | None \<Rightarrow> \<nexists>h. ancestor E d h a \<and> ancestor E d h b"
  using assms
proof (induction E d qa qb A B rule: merge_base_loop.induct)
  case (1 E d qa qb A B)
  show ?case
  proof (cases "qa = [] \<and> qb = []")
    case True
    with "1.prems" have r: "r = None" by (simp add: merge_base_loop.simps)
    have "h \<in> A" if "ancestor E d h a" for h
      using ancestor_closed [OF that, of A] "1.prems"(2) True by (auto simp: side_inv_def)
    moreover have "h \<in> B" if "ancestor E d h b" for h
      using ancestor_closed [OF that, of B] "1.prems"(3) True by (auto simp: side_inv_def)
    ultimately show ?thesis using "1.prems"(2) r by (auto simp: side_inv_def)
  next
    case False
    with "1.prems"(1) obtain fa A' qa' where sa: "mb_side E d qa A B = Inr (fa, A', qa')"
      by (subst (asm) merge_base_loop.simps) (auto simp: bindE_eq_Inr)
    note ia = mb_side_inv [OF sa "1.prems"(2)]
    show ?thesis
    proof (cases fa)
      case (Some h)
      with False sa "1.prems"(1) have "r = Some h"
        by (subst (asm) merge_base_loop.simps) auto
      with ia Some side_inv_seen [OF "1.prems"(3)] show ?thesis by simp
    next
      case fa: None
      with ia have ia: "side_inv E d a qa' A' B" by simp
      then have ib: "side_inv E d b qb B A'"
        using "1.prems"(3) by (auto simp: side_inv_def)
      from "1.prems"(1) False sa fa obtain fb B' qb' where sb: "mb_side E d qb B A' = Inr (fb, B', qb')"
        by (subst (asm) merge_base_loop.simps) (auto simp: bindE_eq_Inr)
      note ib' = mb_side_inv [OF sb ib]
      show ?thesis
      proof (cases fb)
        case (Some h)
        with False sa sb fa "1.prems"(1) have "r = Some h"
          by (subst (asm) merge_base_loop.simps) auto
        with ib' Some side_inv_seen [OF ia] show ?thesis by simp
      next
        case fb: None
        with ib' have ib': "side_inv E d b qb' B' A'" by simp
        then have "side_inv E d a qa' A' B'" using ia by (auto simp: side_inv_def)
        moreover have "merge_base_loop E d qa' qb' A' B' = Inr r"
          using "1.prems"(1) False sa fa sb fb by (subst (asm) merge_base_loop.simps) auto
        ultimately show ?thesis
          using "1.IH" [OF False sa refl refl fa sb refl refl fb] ib' by blast
      qed
    qed
  qed
qed

lemma find_merge_base_correct:
  assumes "find_merge_base E d a b = Inr r"
  shows "case r of Some h \<Rightarrow> ancestor E d h a \<and> ancestor E d h b
                 | None \<Rightarrow> \<nexists>h. ancestor E d h a \<and> ancestor E d h b"
proof (cases "a = b")
  case False
  with assms have "merge_base_loop E d [a] [b] {a} {b} = Inr r" by (simp add: find_merge_base_def)
  then show ?thesis
    by (rule merge_base_loop_correct) (use False in \<open>auto simp: side_inv_def\<close>)
qed (use assms in \<open>auto simp: find_merge_base_def\<close>)


section \<open>The searches return\<close>

text \<open>Every commit of the history of \<open>b\<close> that is stored parses.\<close>

definition commits_ok :: "env \<Rightarrow> disk \<Rightarrow> pystr \<Rightarrow> bool" where
  "commits_ok E d b \<longleftrightarrow> (\<forall>h. ancestor E d h b \<longrightarrow> (\<exists>x. read_commit E d h = Inr x))"

text \<open>Every object reached from \<open>n\<close> that is stored parses.\<close>

definition graph_ok :: "env \<Rightarrow> disk \<Rightarrow> node \<Rightarrow> bool" where
  "graph_ok E d n \<longleftrightarrow> (\<forall>m. reaches E d n m \<longrightarrow> (\<exists>x. visit E d m = Inr x))"

lemma commits_ok_read: "commits_ok E d b \<Longrightarrow> \<exists>x. read_commit E d b = Inr x"
  unfolding commits_ok_def using ancestor_refl by blast

lemma commits_ok_parent:
  "commits_ok E d b \<Longrightarrow> read_commit E d b = Inr (Some c) \<Longrightarrow> p \<in> set (parent_hashes c) \<Longrightarrow> commits_ok E d p"
  unfolding commits_ok_def
  by (metis ancestor_parent ancestor_refl ancestor_trans object_refs_commit(2))

lemma graph_ok_visit: "graph_ok E d n \<Longrightarrow> \<exists>x. visit E d n = Inr x"
  unfolding graph_ok_def using reaches_refl by blast

lemma graph_ok_ref:
  "graph_ok E d n \<Longrightarrow> m \<in> set (object_refs E d n) \<Longrightarrow> graph_ok E d m"
  unfolding graph_ok_def by (meson reaches_ref reaches_refl reaches_trans)

lemma graph_ok_commits: "graph_ok E d (KCommit, b) \<Longrightarrow> commits_ok E d b"
  unfolding graph_ok_def commits_ok_def
  by (metis (no_types, lifting) ancestor_reaches bindE_eq_Inr visit.simps(1))

lemma ancestor_loop_total: "\<forall>h \<in> set stack. commits_ok E d h \<Longrightarrow> \<exists>r. ancestor_loop E d a stack V = Inr r"
proof (induction E d a stack V rule: ancestor_loop.induct)
  case (2 E d a h stack V)
  then obtain x where "read_commit E d h = Inr x" using commits_ok_read by fastforce
  with 2 commits_ok_parent [of E d h] show ?case by (cases x) (auto simp: ball_Un)
qed auto

lemma since_loop_total:
  "\<forall>h \<in> set stack. commits_ok E d h \<Longrightarrow> \<exists>r. since_loop E d stop stack V new = Inr r"
proof (induction E d stop stack V new rule: since_loop.induct)
  case (2 E d stop h stack V new)
  then obtain x where "read_commit E d h = Inr x" using commits_ok_read by fastforce
  note x = this
  let ?q = "case x of None \<Rightarrow> [] | Some c \<Rightarrow> filter (\<lambda>p. p \<notin> insert h V) (parent_hashes c)"
  have "\<forall>p \<in> set (rev ?q @ stack). commits_ok E d p"
    using commits_ok_parent [of E d h] "2.prems" x by (cases x) auto
  with 2 x show ?case by (auto simp: Let_def)
qed simp

lemma walk_loop_total: "\<forall>n \<in> set stack. graph_ok E d n \<Longrightarrow> \<exists>r. walk_loop E d stack R = Inr r"
proof (induction E d stack R rule: walk_loop.induct)
  case (2 E d node stack R)
  then obtain adds pushes where v: "visit E d node = Inr (adds, pushes)"
    using graph_ok_visit by (metis list.set_intros(1) surj_pair)
  moreover have "graph_ok E d n" if "n \<in> set pushes" for n
    using that graph_ok_ref [of E d node n] "2.prems" v by (simp add: object_refs_def)
  ultimately show ?case using 2 by (auto simp: ball_Un)
qed simp

lemma mb_side_total:
  assumes "\<forall>h \<in> S \<union> set q. commits_ok E d h"
  shows "\<exists>f S' q'. mb_side E d q S X = Inr (f, S', q') \<and> (f = None \<longrightarrow> (\<forall>h \<in> S' \<union> set q'. commits_ok E d h))"
proof (cases q)
  case (Cons h q0)
  with assms obtain x where x: "read_commit E d h = Inr x" using commits_ok_read by fastforce
  show ?thesis
  proof (cases x)
    case (Some c)
    obtain f S' q' where m: "mb_parents (parent_hashes c) S q0 X = (f, S', q')" by (metis prod_cases3)
    have "commits_ok E d p" if "p \<in> set (parent_hashes c)" for p
      using commits_ok_parent [of E d h c p] that assms Cons x Some by auto
    with mb_parents_result [OF m] assms Cons x Some m show ?thesis
      by (auto simp: mb_side_def)
  qed (use assms Cons x in \<open>auto simp: mb_side_def\<close>)
qed (use assms in \<open>auto simp: mb_side_def\<close>)

lemma merge_base_loop_total:
  "\<forall>h \<in> A \<union> set qa. commits_ok E d h \<Longrightarrow> \<forall>h \<in> B \<union> set qb. commits_ok E d h \<Longrightarrow>
   \<exists>r. merge_base_loop E d qa qb A B = Inr r"
proof (induction E d qa qb A B rule: merge_base_loop.induct)
  case (1 E d qa qb A B)
  show ?case
  proof (cases "qa = [] \<and> qb = []")
    case False
    obtain fa A' qa' where a: "mb_side E d qa A B = Inr (fa, A', qa')"
      "fa = None \<longrightarrow> (\<forall>h \<in> A' \<union> set qa'. commits_ok E d h)"
      using mb_side_total [OF "1.prems"(1)] by blast
    obtain fb B' qb' where b: "mb_side E d qb B A' = Inr (fb, B', qb')"
      "fb = None \<longrightarrow> (\<forall>h \<in> B' \<union> set qb'. commits_ok E d h)"
      using mb_side_total [OF "1.prems"(2)] by blast
    show ?thesis
    proof (cases "fa = None \<and> fb = None")
      case True
      with "1.IH" [OF False a(1) refl refl _ b(1) refl refl _] a(2) b(2)
      have "\<exists>r. merge_base_loop E d qa' qb' A' B' = Inr r" by blast
      with True a(1) b(1) False show ?thesis
        by (subst merge_base_loop.simps) auto
    next
      case False2: False
      with a(1) b(1) False show ?thesis
        by (subst merge_base_loop.simps) (cases fa; cases fb; auto)
    qed
  qed (simp add: merge_base_loop.simps)
qed


section \<open>A small history\<close>

text \<open>A root \<open>R\<close>, its child \<open>A\<close>, \<open>M\<close> on \<open>A\<close>, and a merge \<open>B\<close> of \<open>R\<close> and \<open>M\<close>.\<close>

definition demo_mk :: "string \<Rightarrow> pystr list \<Rightarrow> commit" where
  "demo_mk msg ps = \<lparr>tree_hash = demo_digest (serialize_tree demo_root), parent_hashes = ps,
     author = str ''a'', message = str msg, timestamp = 1\<rparr>"

definition commit_R :: commit where "commit_R = demo_mk ''R'' []"
definition hash_R :: pystr where "hash_R = demo_digest (serialize_commit commit_R)"
definition commit_A :: commit where "commit_A = demo_mk ''A'' [hash_R]"
definition hash_A :: pystr where "hash_A = demo_digest (serialize_commit commit_A)"
definition commit_M :: commit where "commit_M = demo_mk ''M'' [hash_A]"
definition hash_M :: pystr where "hash_M = demo_digest (serialize_commit commit_M)"
definition commit_B :: commit where "commit_B = demo_mk ''B'' [hash_R, hash_M]"
definition hash_B :: pystr where "hash_B = demo_digest (serialize_commit commit_B)"

definition demo_commits :: "bytes list" where
  "demo_commits = map serialize_commit [commit_R, commit_A, commit_M, commit_B]"

definition demo_repo :: disk where
  "demo_repo = fold (put demo_env ''commits'') demo_commits demo_disk"

lemma demo_root_hash: "demo_digest (serialize_tree demo_root) = hex_str 32 1955646 @ hex_str 32 16132"
  by code_simp

lemma demo_hash_R: "hash_R = hex_str 32 923287 @ hex_str 32 11179"
  unfolding hash_R_def commit_R_def demo_mk_def demo_root_hash by code_simp

lemma demo_hash_A: "hash_A = hex_str 32 1660911 @ hex_str 32 14595"
  unfolding hash_A_def commit_A_def demo_mk_def demo_root_hash demo_hash_R by code_simp

lemma demo_hash_M: "hash_M = hex_str 32 1655422 @ hex_str 32 14524"
  unfolding hash_M_def commit_M_def demo_mk_def demo_root_hash demo_hash_A by code_simp

lemma demo_hash_B: "hash_B = hex_str 32 2638175 @ hex_str 32 18035"
  unfolding hash_B_def commit_B_def demo_mk_def demo_root_hash demo_hash_R demo_hash_M by code_simp

lemma demo_hashes_distinct: "distinct [hash_R, hash_A, hash_M, hash_B]"
  unfolding demo_hash_R demo_hash_A demo_hash_M demo_hash_B by code_simp

lemma demo_repo_commits:
  "read_commit demo_env demo_repo hash_R = Inr (Some commit_R)"
  "read_commit demo_env demo_repo hash_A = Inr (Some commit_A)"
  "read_commit demo_env demo_repo hash_M = Inr (Some commit_M)"
  "read_commit demo_env demo_repo hash_B = Inr (Some commit_B)"
proof -
  have dig: "valid_str (demo_digest b)" for b
    using hex_digest_valid [OF env_okD(1) [OF demo_env_ok]] by simp
  have "store_inv demo_env demo_disk" by (simp add: demo_disk_def puts_inv)
  moreover have "collision_free demo_env demo_disk ''commits'' demo_commits"
  proof -
    have "stored demo_env demo_disk ''commits'' = {}"
      by (simp add: demo_disk_def stored_puts_other)
    moreover have "distinct (map demo_digest demo_commits)"
      using demo_hashes_distinct by (simp add: demo_commits_def hash_R_def hash_A_def hash_M_def hash_B_def)
    ultimately show ?thesis by (simp add: collision_free_def distinct_map)
  qed
  ultimately have rd: "store_read demo_env demo_repo (str ''commits'') (demo_digest b) = Inr (Some b)"
    if "b \<in> set demo_commits" for b
    using puts_read [of demo_env demo_disk "''commits''" demo_commits b] that by (simp add: demo_repo_def)
  have "valid_commit c" if "c \<in> {commit_R, commit_A, commit_M, commit_B}" for c
    using that dig by (auto simp: commit_R_def commit_A_def commit_M_def commit_B_def demo_mk_def valid_commit_def
        hash_R_def hash_A_def hash_M_def str_def scalar_def is_high_def is_low_def)
  then have "read_commit demo_env demo_repo (demo_digest (serialize_commit c)) = Inr (Some c)"
    if "c \<in> {commit_R, commit_A, commit_M, commit_B}" for c
    using that rd [of "serialize_commit c"] by (auto simp: read_commit_def load_Some demo_commits_def commit_roundtrip)
  then show "read_commit demo_env demo_repo hash_R = Inr (Some commit_R)"
    "read_commit demo_env demo_repo hash_A = Inr (Some commit_A)"
    "read_commit demo_env demo_repo hash_M = Inr (Some commit_M)"
    "read_commit demo_env demo_repo hash_B = Inr (Some commit_B)"
    by (simp_all add: hash_R_def hash_A_def hash_M_def hash_B_def)
qed

lemma demo_parents:
  "parent_hashes commit_R = []" "parent_hashes commit_A = [hash_R]"
  "parent_hashes commit_M = [hash_A]" "parent_hashes commit_B = [hash_R, hash_M]"
  by (simp_all add: commit_R_def commit_A_def commit_M_def commit_B_def demo_mk_def)

lemma demo_commit_parents:
  "commit_parents demo_env demo_repo hash_R = []" "commit_parents demo_env demo_repo hash_A = [hash_R]"
  "commit_parents demo_env demo_repo hash_M = [hash_A]" "commit_parents demo_env demo_repo hash_B = [hash_R, hash_M]"
  by (simp_all add: commit_parents_def demo_repo_commits demo_parents)

lemma demo_commits_ok: "h \<in> {hash_R, hash_A, hash_M, hash_B} \<Longrightarrow> commits_ok demo_env demo_repo h"
  unfolding commits_ok_def
proof (intro allI impI)
  fix g assume "h \<in> {hash_R, hash_A, hash_M, hash_B}" "ancestor demo_env demo_repo g h"
  then have "g \<in> {hash_R, hash_A, hash_M, hash_B}"
    using ancestor_subset [of demo_env demo_repo g h "{hash_R, hash_A, hash_M, hash_B}"]
    by (auto simp: demo_commit_parents)
  then show "\<exists>x. read_commit demo_env demo_repo g = Inr x" by (auto simp: demo_repo_commits)
qed

lemma demo_repo_trees: "read_tree demo_env demo_repo h = read_tree demo_env demo_disk h"
  by (simp add: read_tree_def load_def demo_repo_def puts_read_other)

lemma demo_repo_manifests: "hash_re h \<Longrightarrow> read_manifest demo_env demo_repo h = Inr None"
  by (simp add: read_manifest_def load_None demo_repo_def demo_disk_def puts_read_other store_read_None)

definition demo_nodes :: "node set" where
  "demo_nodes = Pair KCommit ` {hash_R, hash_A, hash_M, hash_B} \<union>
     Pair KTree ` {demo_digest (serialize_tree demo_root), demo_digest (serialize_tree demo_sub)} \<union>
     Pair KManifest ` {demo_hash 11, demo_hash 33} \<union> {KRow, KSidecar, KBlob} \<times> UNIV"

lemma demo_visit_commit:
  "tree_hash commit_R = demo_digest (serialize_tree demo_root)"
  "tree_hash commit_A = demo_digest (serialize_tree demo_root)"
  "tree_hash commit_M = demo_digest (serialize_tree demo_root)"
  "tree_hash commit_B = demo_digest (serialize_tree demo_root)"
  by (simp_all add: commit_R_def commit_A_def commit_M_def commit_B_def demo_mk_def)

lemma demo_norm: "norm_tree demo_sub = demo_sub" "norm_tree demo_root = demo_root"
  by (simp_all add: norm_tree_def demo_sub_def demo_root_def sort_key_def str_def)

lemma demo_visit_tree:
  "visit demo_env demo_repo (KTree, demo_digest (serialize_tree demo_root)) =
     Inr ([(KBlob, demo_hash 22)], [(KTree, demo_digest (serialize_tree demo_sub))])"
  "visit demo_env demo_repo (KTree, demo_digest (serialize_tree demo_sub)) =
     Inr ([(KSidecar, demo_hash 44)], [(KManifest, demo_hash 11), (KManifest, demo_hash 33)])"
proof -
  have "entry_adds (staged_tree_entry (str ''c'', Staged3 (str ''blob'') (demo_hash 22) None)) = [(KBlob, demo_hash 22)]"
    "entry_pushes (staged_tree_entry (str ''c'', Staged3 (str ''blob'') (demo_hash 22) None)) = []"
    "entry_adds (staged_tree_entry (str ''a'', Staged2 (str ''manifest'') (demo_hash 11))) = []"
    "entry_pushes (staged_tree_entry (str ''a'', Staged2 (str ''manifest'') (demo_hash 11))) = [(KManifest, demo_hash 11)]"
    "entry_adds (staged_tree_entry (str ''b'', Staged3 (str ''manifest'') (demo_hash 33) (Some (demo_hash 44)))) =
       [(KSidecar, demo_hash 44)]"
    "entry_pushes (staged_tree_entry (str ''b'', Staged3 (str ''manifest'') (demo_hash 33) (Some (demo_hash 44)))) =
       [(KManifest, demo_hash 33)]"
    "entry_adds (subtree_entry (str ''d'') h) = []" "entry_pushes (subtree_entry (str ''d'') h) = [(KTree, h)]" for h
    by (simp_all add: entry_adds_def entry_pushes_def staged_tree_entry_def subtree_entry_def demo_hash_def)
  note e = this
  show "visit demo_env demo_repo (KTree, demo_digest (serialize_tree demo_root)) =
     Inr ([(KBlob, demo_hash 22)], [(KTree, demo_digest (serialize_tree demo_sub))])"
    "visit demo_env demo_repo (KTree, demo_digest (serialize_tree demo_sub)) =
     Inr ([(KSidecar, demo_hash 44)], [(KManifest, demo_hash 11), (KManifest, demo_hash 33)])"
    by (simp_all add: demo_repo_trees demo_read demo_norm)
      (simp_all add: demo_root_def demo_sub_def e)
qed

lemma demo_visit:
  assumes "n \<in> demo_nodes"
  shows "\<exists>adds pushes. visit demo_env demo_repo n = Inr (adds, pushes) \<and> set adds \<union> set pushes \<subseteq> demo_nodes"
proof -
  obtain k h where n: "n = (k, h)" by (cases n)
  show ?thesis
  proof (cases k)
    case KCommit
    with assms n have "h \<in> {hash_R, hash_A, hash_M, hash_B}" by (auto simp: demo_nodes_def)
    then show ?thesis
      by (elim insertE emptyE; simp add: n KCommit demo_repo_commits demo_parents demo_visit_commit demo_nodes_def)
  next
    case KTree
    then show ?thesis using assms n demo_visit_tree by (auto simp: demo_nodes_def simp del: visit.simps)
  next
    case KManifest
    then show ?thesis using assms n demo_repo_manifests by (auto simp: demo_nodes_def)
  qed (use n in auto)
qed

lemma demo_graph_ok: "n \<in> demo_nodes \<Longrightarrow> graph_ok demo_env demo_repo n"
  unfolding graph_ok_def
proof (intro allI impI)
  fix m assume "n \<in> demo_nodes" "reaches demo_env demo_repo n m"
  then have "m \<in> demo_nodes"
    using demo_visit by (elim reaches_closed) (fastforce simp: object_refs_def)+
  then show "\<exists>x. visit demo_env demo_repo m = Inr x" using demo_visit by blast
qed

section \<open>Properties\<close>

declare ancestor_loop.simps(2) [simp del] walk_loop.simps(2) [simp del] since_loop.simps(2) [simp del]

text \<open>
  C5: \<open>is_ancestor\<close> decides the ancestor relation: it returns, and returns True exactly when
  the first commit is the second or is reached from it over parents.
\<close>

theorem is_ancestor_decides:
  assumes "commits_ok E d b"
  shows "is_ancestor E d a b = Inr (ancestor E d a b)"
proof -
  have "\<exists>r. is_ancestor E d a b = Inr r"
    using ancestor_loop_total [of "[b]" E d a "{}"] assms by (auto simp: is_ancestor_def)
  then obtain r where r: "is_ancestor E d a b = Inr r" by blast
  with is_ancestor_correct [OF r] show ?thesis by simp
qed

theorem is_ancestor_decides_witness:
  "is_ancestor demo_env demo_repo hash_A hash_B = Inr True \<and>
   is_ancestor demo_env demo_repo hash_B hash_A = Inr False"
proof -
  note ok = demo_commits_ok [of hash_A] demo_commits_ok [of hash_B]
  have "ancestor demo_env demo_repo hash_A hash_B"
    using ancestor_parent [OF ancestor_parent [OF ancestor_refl], of hash_M demo_env demo_repo hash_B hash_A]
    by (simp add: demo_commit_parents)
  moreover have "\<not> ancestor demo_env demo_repo hash_B hash_A"
    using ancestor_subset [of demo_env demo_repo hash_B hash_A "{hash_A, hash_R}"] demo_hashes_distinct
    by (auto simp: demo_commit_parents)
  ultimately show ?thesis
    using is_ancestor_decides [of demo_env demo_repo hash_B hash_A]
      is_ancestor_decides [of demo_env demo_repo hash_A hash_B] ok by simp
qed

text \<open>
  C6: \<open>find_merge_base\<close> returns; what it returns is a common ancestor of the two commits, and it
  returns None only when there is none.
\<close>

theorem merge_base_common:
  assumes "commits_ok E d a" and "commits_ok E d b"
  shows "\<exists>r. find_merge_base E d a b = Inr r \<and>
    (case r of Some h \<Rightarrow> ancestor E d h a \<and> ancestor E d h b
             | None \<Rightarrow> \<nexists>h. ancestor E d h a \<and> ancestor E d h b)"
proof -
  have "\<exists>r. find_merge_base E d a b = Inr r"
    using merge_base_loop_total [of "{a}" "[a]" E d "{b}" "[b]"] assms by (auto simp: find_merge_base_def)
  with find_merge_base_correct show ?thesis by blast
qed

theorem merge_base_common_witness:
  "\<exists>r. find_merge_base demo_env demo_repo hash_M hash_B = Inr r \<and> r \<noteq> None"
proof -
  have "ancestor demo_env demo_repo hash_M hash_B"
    using ancestor_parent [OF ancestor_refl, of hash_M demo_env demo_repo hash_B]
    by (simp add: demo_commit_parents)
  with merge_base_common [OF demo_commits_ok demo_commits_ok, of hash_M hash_B] ancestor_refl
  show ?thesis by (fastforce split: option.splits)
qed

text \<open>
  The merge base need not be the lowest common ancestor. \<open>A\<close> is an ancestor of \<open>B\<close>, but a
  shorter path leads from \<open>B\<close> to the root, and the search returns the root: \<open>dit merge\<close> of \<open>B\<close>
  into \<open>A\<close> is then not recognised as a fast-forward.
\<close>

lemma merge_base_not_lowest:
  "find_merge_base demo_env demo_repo hash_A hash_B = Inr (Some hash_R) \<and>
   ancestor demo_env demo_repo hash_A hash_B \<and> \<not> ancestor demo_env demo_repo hash_A hash_R"
proof (intro conjI)
  show "ancestor demo_env demo_repo hash_A hash_B"
    using ancestor_parent [OF ancestor_parent [OF ancestor_refl], of hash_M demo_env demo_repo hash_B hash_A]
    by (simp add: demo_commit_parents)
  show "\<not> ancestor demo_env demo_repo hash_A hash_R"
    using ancestor_subset [of demo_env demo_repo hash_A hash_R "{hash_R}"] demo_hashes_distinct
    by (auto simp: demo_commit_parents)
  show "find_merge_base demo_env demo_repo hash_A hash_B = Inr (Some hash_R)"
    using demo_hashes_distinct
    by (auto simp: find_merge_base_def merge_base_loop.simps mb_side_def demo_repo_commits demo_parents)
qed



text \<open>
  C8: the objects sent for a head the receiver lacks, when it has \<open>stop_at\<close>: together with what
  the receiver reaches from \<open>stop_at\<close> they are all the objects of the head, they are objects of
  the head, and \<open>stop_at\<close> itself is not sent.
\<close>

theorem delta_complete:
  assumes "env_ok E" and "graph_ok E d (KCommit, head)"
  shows "\<exists>R. walk_commit_objects_since E d head (Some stop) = Inr R \<and>
    {n. reaches E d (KCommit, head) n} \<subseteq> R \<union> {n. reaches E d (KCommit, stop) n} \<and>
    R \<subseteq> {n. reaches E d (KCommit, head) n} \<and> (KCommit, stop) \<notin> R"
proof -
  obtain new where new: "since_loop E d stop [head] {} [] = Inr new"
    using since_loop_total [of "[head]" E d stop "{}" "[]"] graph_ok_commits [OF assms(2)] by auto
  note N = since_loop_correct [OF new]
  have "\<exists>ts. commit_trees E d new = Inr ts"
  proof -
    have "\<exists>ts. foldE (\<lambda>ch stack. bindE (read_commit E d ch) (\<lambda>x.
        Inr (case x of None \<Rightarrow> stack | Some c \<Rightarrow> (KTree, tree_hash c) # stack))) hs st = Inr ts"
      if "set hs \<subseteq> set new" for hs st
      using that by (induction hs arbitrary: st) (use N(4) in fastforce)+
    then show ?thesis using env_okD(4) [OF assms(1)] by (simp add: commit_trees_def)
  qed
  then obtain ts where ts: "commit_trees E d new = Inr ts" by blast
  have "graph_ok E d n" if n: "n \<in> set ts" for n
  proof -
    obtain h c where h: "n = (KTree, tree_hash c)" "h \<in> set new" "read_commit E d h = Inr (Some c)"
      using n commit_trees_set [OF assms(1) ts] by blast
    have "reaches E d (KCommit, head) (KCommit, h)" using N(4) h(2) ancestor_reaches by blast
    moreover have "n \<in> set (object_refs E d (KCommit, h))" using h object_refs_commit(1) by simp
    ultimately show ?thesis using assms(2) unfolding graph_ok_def by (meson reaches_ref reaches_trans)
  qed
  then obtain R where "walk_loop E d ts (Pair KCommit ` set new) = Inr R"
    using walk_loop_total [of ts] by blast
  then have "walk_commit_objects_since E d head (Some stop) = Inr R"
    by (simp add: walk_commit_objects_since_def new ts)
  with walk_since_correct [OF assms(1) this] show ?thesis by blast
qed


theorem delta_complete_witness:
  "\<exists>R. walk_commit_objects_since demo_env demo_repo hash_B (Some hash_A) = Inr R \<and> (KCommit, hash_A) \<notin> R"
  using delta_complete [OF demo_env_ok demo_graph_ok, of hash_B hash_A] by (auto simp: demo_nodes_def)

end
