(* ===== verification/Dit_Gc.thy ===== *)
theory Dit_Gc
  imports Dit_Walk
begin

text \<open>
  \<open>src/dit/core/gc.py\<close>: mark and sweep. The marked set is a set of (kind, hash) pairs; a kind
  stands for the name of its directory, and the dictionaries of counts are functions of the kind.
  No file operation fails, so the list of errors of the result stays empty and is left out.
\<close>

fun dir_name :: "okind \<Rightarrow> pystr" where
  "dir_name KCommit = str ''commits''"
| "dir_name KTree = str ''trees''"
| "dir_name KManifest = str ''manifests''"
| "dir_name KRow = str ''rows''"
| "dir_name KSidecar = str ''sidecars''"
| "dir_name KBlob = str ''blobs''"

definition obj_types :: "okind list" where
  "obj_types = [KCommit, KTree, KManifest, KRow, KSidecar, KBlob]"

record gc_result =
  live_counts :: "okind \<Rightarrow> nat"
  deleted_counts :: "okind \<Rightarrow> nat"
  skipped_counts :: "okind \<Rightarrow> nat"
  total_scanned :: nat
  total_deleted :: nat
  tmp_deleted :: nat

type_synonym index_entries = "(pystr \<times> pystr) dict"

section \<open>Mark\<close>

definition mark_index :: "env \<Rightarrow> disk \<Rightarrow> pystr \<times> (pystr \<times> pystr) \<Rightarrow> node set \<Rightarrow> node set res" where
  "mark_index E d item live =
     (let (obj_type, obj_hash) = snd item in
      if obj_type = str ''manifest'' then
        bindE (read_manifest E d obj_hash) (\<lambda>x. Inr (insert (KManifest, obj_hash) live \<union>
          (case x of None \<Rightarrow> {} | Some m \<Rightarrow> (\<lambda>e. (KRow, row_hash e)) ` set (entries m))))
      else if obj_type = str ''blob'' then Inr (insert (KBlob, obj_hash) live)
      else Inr live)"

definition collect_live_set :: "env \<Rightarrow> disk \<Rightarrow> pystr list \<Rightarrow> index_entries option \<Rightarrow> node set res" where
  "collect_live_set E d ref_hashes index =
     bindE (foldE (\<lambda>r live. bindE (walk_commit_objects E d r) (\<lambda>walked. Inr (live \<union> walked))) ref_hashes {})
       (\<lambda>live. case index of None \<Rightarrow> Inr live | Some ie \<Rightarrow> foldE (mark_index E d) ie live)"

section \<open>Sweep\<close>

definition is_object_file :: "okind \<Rightarrow> pystr list \<Rightarrow> bool" where
  "is_object_file k p \<longleftrightarrow> length p = 4 \<and> hd p = dir_name k"

definition is_tmp_file :: "pystr list \<Rightarrow> bool" where
  "is_tmp_file p \<longleftrightarrow> length p = 2 \<and> hd p = str ''tmp''"

text \<open>The body of the loop over the files of one kind.\<close>

definition sweep_file ::
  "env \<Rightarrow> node set \<Rightarrow> int \<Rightarrow> bool \<Rightarrow> okind \<Rightarrow> pystr list \<Rightarrow> gc_result \<times> disk \<Rightarrow> gc_result \<times> disk" where
  "sweep_file E live grace dry k p st =
     (let (r, d) = st; r = r\<lparr>total_scanned := Suc (total_scanned r)\<rparr> in
      if (k, last p) \<in> live then (r, d)
      else (case map_of d p of
          None \<Rightarrow> (r, d)
        | Some f \<Rightarrow>
            if mtime f < now E - grace then
              (r\<lparr>deleted_counts := (deleted_counts r)(k := Suc (deleted_counts r k)),
                 total_deleted := Suc (total_deleted r)\<rparr>, if dry then d else AList.delete p d)
            else (r\<lparr>skipped_counts := (skipped_counts r)(k := Suc (skipped_counts r k))\<rparr>, d)))"

definition sweep_kind ::
  "env \<Rightarrow> node set \<Rightarrow> int \<Rightarrow> bool \<Rightarrow> okind \<Rightarrow> gc_result \<times> disk \<Rightarrow> gc_result \<times> disk" where
  "sweep_kind E live grace dry k st =
     (let (r, d) = st;
          r = r\<lparr>live_counts := (live_counts r)(k := card {n \<in> live. fst n = k}),
                deleted_counts := (deleted_counts r)(k := 0), skipped_counts := (skipped_counts r)(k := 0)\<rparr> in
      fold (sweep_file E live grace dry k) (filter (is_object_file k) (map fst d)) (r, d))"

definition sweep_tmp :: "env \<Rightarrow> int \<Rightarrow> bool \<Rightarrow> pystr list \<Rightarrow> gc_result \<times> disk \<Rightarrow> gc_result \<times> disk" where
  "sweep_tmp E grace dry p st =
     (let (r, d) = st in
      case map_of d p of
        None \<Rightarrow> (r, d)
      | Some f \<Rightarrow>
          if mtime f < now E - grace
          then (r\<lparr>tmp_deleted := Suc (tmp_deleted r)\<rparr>, if dry then d else AList.delete p d)
          else (r, d))"

definition gc_start :: gc_result where
  "gc_start = \<lparr>live_counts = (\<lambda>_. 0), deleted_counts = (\<lambda>_. 0), skipped_counts = (\<lambda>_. 0),
     total_scanned = 0, total_deleted = 0, tmp_deleted = 0\<rparr>"

definition sweep :: "env \<Rightarrow> disk \<Rightarrow> node set \<Rightarrow> int \<Rightarrow> bool \<Rightarrow> gc_result \<times> disk" where
  "sweep E d live grace dry =
     (let st = fold (sweep_kind E live grace dry) obj_types (gc_start, d) in
      fold (sweep_tmp E grace dry) (filter is_tmp_file (map fst (snd st))) st)"

definition gc :: "env \<Rightarrow> disk \<Rightarrow> pystr list \<Rightarrow> index_entries option \<Rightarrow> int \<Rightarrow> bool \<Rightarrow> (gc_result \<times> disk) res" where
  "gc E d ref_hashes index grace dry =
     bindE (collect_live_set E d ref_hashes index) (\<lambda>live. Inr (sweep E d live grace dry))"

section \<open>What is deleted\<close>

lemma map_of_delete: "map_of (AList.delete p d) q = (if q = p then None else map_of d q)"
  by (simp add: delete_conv')

text \<open>Deleting, from the files \<open>ps\<close>, those that satisfy \<open>P\<close>.\<close>

definition deletes :: "(pystr list \<Rightarrow> dfile \<Rightarrow> bool) \<Rightarrow> disk \<Rightarrow> disk \<Rightarrow> bool" where
  "deletes P d d' \<longleftrightarrow>
     (\<forall>p. map_of d' p = (case map_of d p of None \<Rightarrow> None | Some f \<Rightarrow> if P p f then None else Some f))"

lemma deletes_cong:
  assumes "deletes P d d'" and "\<And>p f. map_of d p = Some f \<Longrightarrow> P p f = Q p f"
  shows "deletes Q d d'"
  unfolding deletes_def
proof
  fix p
  show "map_of d' p = (case map_of d p of None \<Rightarrow> None | Some f \<Rightarrow> if Q p f then None else Some f)"
    using assms(1) [unfolded deletes_def, rule_format, of p] assms(2) [of p] by (cases "map_of d p") simp_all
qed

lemma deletes_trans:
  assumes "deletes P d d1" and "deletes Q d1 d2"
  shows "deletes (\<lambda>p f. P p f \<or> Q p f) d d2"
  unfolding deletes_def
proof
  fix p
  show "map_of d2 p = (case map_of d p of None \<Rightarrow> None | Some f \<Rightarrow> if P p f \<or> Q p f then None else Some f)"
    using assms [unfolded deletes_def, rule_format, of p] by (simp split: option.splits if_splits)
qed

lemma deletes_refl: "deletes (\<lambda>p f. False) d d"
  by (simp add: deletes_def split: option.splits)

lemma deletes_fold:
  assumes "\<And>p r d. \<exists>r'. step p (r, d) = (r', d) \<and> (\<forall>f. map_of d p = Some f \<longrightarrow> \<not> P p f) \<or>
      step p (r, d) = (r', AList.delete p d) \<and> (\<exists>f. map_of d p = Some f \<and> P p f)"
  shows "deletes (\<lambda>p f. p \<in> set ps \<and> P p f) d (snd (fold step ps (r, d)))"
proof (induction ps arbitrary: r d)
  case (Cons q ps)
  obtain r' d1 where s: "step q (r, d) = (r', d1)" by fastforce
  then have step: "fold step (q # ps) (r, d) = fold step ps (r', d1)" by simp
  have d1: "deletes (\<lambda>p f. p = q \<and> P p f) d d1"
  proof -
    from assms [of q r d] s have "d1 = d \<and> (\<forall>f. map_of d q = Some f \<longrightarrow> \<not> P q f) \<or>
        d1 = AList.delete q d \<and> (\<exists>f. map_of d q = Some f \<and> P q f)" by fastforce
    then show ?thesis
    proof
      assume "d1 = d \<and> (\<forall>f. map_of d q = Some f \<longrightarrow> \<not> P q f)"
      then show ?thesis by (auto simp: deletes_def split: option.splits)
    next
      assume "d1 = AList.delete q d \<and> (\<exists>f. map_of d q = Some f \<and> P q f)"
      then show ?thesis by (auto simp: deletes_def map_of_delete split: option.splits)
    qed
  qed
  show ?case unfolding step
    by (rule deletes_cong [OF deletes_trans [OF d1 Cons.IH [of d1 r']]]) auto
qed (simp add: deletes_def split: option.splits)

definition garbage :: "env \<Rightarrow> int \<Rightarrow> dfile \<Rightarrow> bool" where
  "garbage E grace f \<longleftrightarrow> mtime f < now E - grace"

lemma sweep_kind_deletes:
  "deletes (\<lambda>p f. \<not> dry \<and> is_object_file k p \<and> (k, last p) \<notin> live \<and> garbage E grace f) d
     (snd (sweep_kind E live grace dry k (r, d)))"
proof -
  let ?ps = "filter (is_object_file k) (map fst d)"
  define r0 where "r0 = r\<lparr>live_counts := (live_counts r)(k := card {n \<in> live. fst n = k}),
                deleted_counts := (deleted_counts r)(k := 0), skipped_counts := (skipped_counts r)(k := 0)\<rparr>"
  have "deletes (\<lambda>p f. p \<in> set ?ps \<and> (\<not> dry \<and> (k, last p) \<notin> live \<and> garbage E grace f)) d
      (snd (fold (sweep_file E live grace dry k) ?ps (r0, d)))"
    by (rule deletes_fold) (auto simp: sweep_file_def garbage_def Let_def split: option.split)
  moreover have "map_of d p = Some f \<Longrightarrow> p \<in> set ?ps \<longleftrightarrow> is_object_file k p" for p f
    by (force dest: map_of_SomeD)
  ultimately have "deletes (\<lambda>p f. \<not> dry \<and> is_object_file k p \<and> (k, last p) \<notin> live \<and> garbage E grace f) d
      (snd (fold (sweep_file E live grace dry k) ?ps (r0, d)))"
    by (elim deletes_cong) blast
  then show ?thesis by (simp add: sweep_kind_def Let_def r0_def)
qed

lemma sweep_kinds_deletes:
  "deletes (\<lambda>p f. \<not> dry \<and> (\<exists>k \<in> set ks. is_object_file k p \<and> (k, last p) \<notin> live) \<and> garbage E grace f) d
     (snd (fold (sweep_kind E live grace dry) ks (r, d)))"
proof (induction ks arbitrary: r d)
  case (Cons k ks)
  obtain r1 d1 where s: "sweep_kind E live grace dry k (r, d) = (r1, d1)" by fastforce
  with sweep_kind_deletes [where dry = dry and k = k and live = live and E = E and grace = grace and d = d and r = r]
  have 1: "deletes (\<lambda>p f. \<not> dry \<and> is_object_file k p \<and> (k, last p) \<notin> live \<and> garbage E grace f) d d1" by simp
  from deletes_trans [OF this Cons.IH [of d1 r1]] s show ?case
    by (simp, elim deletes_cong) blast
qed (simp add: deletes_refl)

text \<open>The files a collection removes.\<close>

definition swept :: "env \<Rightarrow> node set \<Rightarrow> int \<Rightarrow> bool \<Rightarrow> pystr list \<Rightarrow> dfile \<Rightarrow> bool" where
  "swept E live grace dry p f \<longleftrightarrow> \<not> dry \<and> garbage E grace f \<and>
     ((\<exists>k. is_object_file k p \<and> (k, last p) \<notin> live) \<or> is_tmp_file p)"

lemma obj_types_all: "k \<in> set obj_types"
  by (cases k) (simp_all add: obj_types_def)

lemma sweep_deletes: "deletes (swept E live grace dry) d (snd (sweep E d live grace dry))"
proof -
  obtain r1 d1 where s: "fold (sweep_kind E live grace dry) obj_types (gc_start, d) = (r1, d1)" by fastforce
  let ?ps = "filter is_tmp_file (map fst d1)"
  have 1: "deletes (\<lambda>p f. \<not> dry \<and> (\<exists>k. is_object_file k p \<and> (k, last p) \<notin> live) \<and> garbage E grace f) d d1"
    using sweep_kinds_deletes [where ks = obj_types and r = gc_start and d = d and dry = dry and live = live
        and E = E and grace = grace] unfolding s snd_conv
    by (rule deletes_cong) (use obj_types_all in blast)
  have 2: "deletes (\<lambda>p f. p \<in> set ?ps \<and> (\<not> dry \<and> garbage E grace f)) d1 (snd (fold (sweep_tmp E grace dry) ?ps (r1, d1)))"
    by (rule deletes_fold) (auto simp: sweep_tmp_def garbage_def Let_def split: option.split)
  have 3: "deletes (\<lambda>p f. is_tmp_file p \<and> \<not> dry \<and> garbage E grace f) d1
      (snd (fold (sweep_tmp E grace dry) ?ps (r1, d1)))"
    by (rule deletes_cong [OF 2]) (force dest: map_of_SomeD)
  have w: "sweep E d live grace dry = fold (sweep_tmp E grace dry) ?ps (r1, d1)"
    by (simp add: sweep_def Let_def s)
  show ?thesis unfolding w by (rule deletes_cong [OF deletes_trans [OF 1 3]]) (auto simp: swept_def)
qed

section \<open>What is kept\<close>

lemma dir_name_inj [simp]: "dir_name k = dir_name l \<longleftrightarrow> k = l"
  by (cases k; cases l) simp_all

lemma swept_opath:
  "swept E live grace dry (opath (dir_name k) h) f \<longleftrightarrow> \<not> dry \<and> garbage E grace f \<and> (k, h) \<notin> live"
  by (auto simp: swept_def is_object_file_def is_tmp_file_def)

lemma live_read:
  assumes "deletes (swept E live grace dry) d d'" and "(k, h) \<in> live"
  shows "store_read E d' (dir_name k) h = store_read E d (dir_name k) h"
proof -
  have "map_of d' (opath (dir_name k) h) = map_of d (opath (dir_name k) h)"
    using assms by (simp add: deletes_def swept_opath split: option.split)
  then show ?thesis by (simp add: store_read_def object_path_def)
qed

lemma live_visit:
  assumes "deletes (swept E live grace dry) d d'" and "n \<in> live"
  shows "visit E d' n = visit E d n"
proof -
  obtain k h where n: "n = (k, h)" by (cases n)
  from live_read [OF assms(1)] assms(2) n have "store_read E d' (dir_name k) h = store_read E d (dir_name k) h" by simp
  with n show ?thesis by (cases k) (simp_all add: read_defs load_def)
qed

lemma walk_loop_cong:
  "(\<And>n. n \<in> set stack \<Longrightarrow> n \<in> L) \<Longrightarrow> (\<And>n. n \<in> L \<Longrightarrow> visit E d' n = visit E d n \<and> set (object_refs E d n) \<subseteq> L) \<Longrightarrow>
   walk_loop E d' stack R = walk_loop E d stack R"
proof (induction E d stack R rule: walk_loop.induct)
  case (2 E d node stack R)
  show ?case
  proof (cases "node \<in> R")
    case True
    with 2 show ?thesis by (simp add: walk_loop.simps(2))
  next
    case False
    have v: "visit E d' node = visit E d node" using "2.prems" by simp
    show ?thesis
    proof (cases "visit E d node")
      case (Inr x)
      obtain adds pushes where x: "x = (adds, pushes)" by (cases x)
      have P: "n \<in> L" if "n \<in> set pushes" for n
        using that "2.prems"(2) [of node] "2.prems"(1) [of node] Inr x by (auto simp: object_refs_def)
      have L: "n \<in> L" if "n \<in> set (rev pushes @ stack)" for n
      proof -
        from that consider "n \<in> set pushes" | "n \<in> set stack" by auto
        then show ?thesis using P [of n] "2.prems"(1) [of n] by cases simp_all
      qed
      show ?thesis
        using "2.IH"(2) [OF False Inr [unfolded x] refl L "2.prems"(2)] False v Inr x
        by (simp add: walk_loop.simps(2))
    qed (use False v in \<open>simp add: walk_loop.simps(2)\<close>)
  qed
qed simp

lemma foldE_walks:
  "foldE (\<lambda>r live. bindE (walk_commit_objects E d r) (\<lambda>walked. Inr (live \<union> walked))) rs L = Inr live \<Longrightarrow>
   L \<subseteq> live \<and> (\<forall>r \<in> set rs. \<exists>w. walk_commit_objects E d r = Inr w \<and> w \<subseteq> live)"
proof (induction rs arbitrary: L)
  case (Cons r rs)
  then obtain w where w: "walk_commit_objects E d r = Inr w"
    and f: "foldE (\<lambda>r live. bindE (walk_commit_objects E d r) (\<lambda>walked. Inr (live \<union> walked))) rs (L \<union> w) = Inr live"
    by (auto simp: bindE_eq_Inr)
  from Cons.IH [OF f] w show ?case by auto
qed simp

lemma mark_index_mono: "mark_index E d item live = Inr live' \<Longrightarrow> live \<subseteq> live'"
  by (auto simp: mark_index_def Let_def bindE_eq_Inr split: prod.splits if_splits)

lemma foldE_mark:
  assumes "foldE (mark_index E d) ie L = Inr live"
  shows "L \<subseteq> live \<and> (\<forall>item \<in> set ie. \<exists>L0 L1. mark_index E d item L0 = Inr L1 \<and> L1 \<subseteq> live)"
  using assms
proof (induction ie arbitrary: L)
  case (Cons item ie)
  then obtain L1 where m: "mark_index E d item L = Inr L1" and f: "foldE (mark_index E d) ie L1 = Inr live"
    by (auto simp: bindE_eq_Inr)
  from Cons.IH [OF f] mark_index_mono [OF m] m show ?case by auto
qed simp

lemma collect_live_refs:
  assumes "collect_live_set E d refs index = Inr live" and "r \<in> set refs"
  shows "\<exists>w. walk_commit_objects E d r = Inr w \<and> w \<subseteq> live"
proof -
  from assms(1) obtain L where L: "foldE (\<lambda>r live. bindE (walk_commit_objects E d r) (\<lambda>walked. Inr (live \<union> walked))) refs {} = Inr L"
    and i: "(case index of None \<Rightarrow> Inr L | Some ie \<Rightarrow> foldE (mark_index E d) ie L) = Inr live"
    by (auto simp: collect_live_set_def bindE_eq_Inr)
  have "L \<subseteq> live" using i foldE_mark by (fastforce split: option.splits)
  with foldE_walks [OF L] assms(2) show ?thesis by blast
qed

section \<open>The mark phase returns\<close>

lemma foldE_total:
  "(\<And>x s. x \<in> set xs \<Longrightarrow> \<exists>t. f x s = Inr t) \<Longrightarrow> \<exists>t. foldE f xs s = Inr t"
proof (induction xs arbitrary: s)
  case (Cons x xs)
  then obtain t where "f x s = Inr t" by fastforce
  with Cons show ?case by simp
qed simp

definition index_ok :: "env \<Rightarrow> disk \<Rightarrow> index_entries option \<Rightarrow> bool" where
  "index_ok E d index \<longleftrightarrow> (\<forall>ie item. index = Some ie \<longrightarrow> item \<in> set ie \<longrightarrow>
     fst (snd item) = str ''manifest'' \<longrightarrow> (\<exists>x. read_manifest E d (snd (snd item)) = Inr x))"

lemma collect_live_total:
  assumes "\<forall>r \<in> set refs. graph_ok E d (KCommit, r)" and "index_ok E d index"
  shows "\<exists>live. collect_live_set E d refs index = Inr live"
proof -
  have "\<exists>L. foldE (\<lambda>r live. bindE (walk_commit_objects E d r) (\<lambda>walked. Inr (live \<union> walked))) refs {} = Inr L"
    using assms(1) walk_loop_total [of "[(KCommit, r)]" E d "{}" for r]
    by (intro foldE_total) (fastforce simp: walk_commit_objects_def)
  moreover have "\<exists>L'. (case index of None \<Rightarrow> Inr L | Some ie \<Rightarrow> foldE (mark_index E d) ie L) = Inr L'" for L
  proof (cases index)
    case (Some ie)
    have "\<exists>t. mark_index E d item s = Inr t" if "item \<in> set ie" for item s
      using assms(2) that Some unfolding index_ok_def mark_index_def Let_def
      by (cases item) (fastforce split: prod.split if_split)
    with Some show ?thesis by (auto intro!: foldE_total)
  qed simp
  ultimately show ?thesis by (fastforce simp: collect_live_set_def)
qed

section \<open>Properties\<close>

lemma gc_Inr: "gc E d refs index grace dry = Inr (r, d') \<longleftrightarrow>
    (\<exists>live. collect_live_set E d refs index = Inr live \<and> sweep E d live grace dry = (r, d'))"
  by (auto simp: gc_def bindE_eq_Inr)

lemma collect_live_index:
  assumes "collect_live_set E d refs (Some ie) = Inr live" and "(p, ty, h) \<in> set ie"
  shows "ty = str ''blob'' \<Longrightarrow> (KBlob, h) \<in> live"
    and "ty = str ''manifest'' \<Longrightarrow> (KManifest, h) \<in> live \<and>
      (\<forall>m. read_manifest E d h = Inr (Some m) \<longrightarrow> (\<forall>e \<in> set (entries m). (KRow, row_hash e) \<in> live))"
proof -
  from assms(1) obtain L where "foldE (mark_index E d) ie L = Inr live"
    by (auto simp: collect_live_set_def bindE_eq_Inr)
  from foldE_mark [OF this] assms(2) obtain L0 L1
    where m: "mark_index E d (p, ty, h) L0 = Inr L1" and sub: "L1 \<subseteq> live" by blast
  show "(KBlob, h) \<in> live" if "ty = str ''blob''"
    using m sub that by (auto simp: mark_index_def)
  show "(KManifest, h) \<in> live \<and>
      (\<forall>m. read_manifest E d h = Inr (Some m) \<longrightarrow> (\<forall>e \<in> set (entries m). (KRow, row_hash e) \<in> live))"
    if "ty = str ''manifest''"
  proof -
    from m that obtain x where x: "read_manifest E d h = Inr x"
      and L1: "L1 = insert (KManifest, h) L0 \<union>
        (case x of None \<Rightarrow> {} | Some m \<Rightarrow> (\<lambda>e. (KRow, row_hash e)) ` set (entries m))"
      unfolding mark_index_def by (auto simp: bindE_eq_Inr)
    show ?thesis
    proof (cases x)
      case (Some m)
      with x L1 sub show ?thesis by auto
    qed (use x L1 sub in auto)
  qed
qed

lemma walk_after_sweep:
  assumes D: "deletes (swept E live grace dry) d d'"
    and w: "walk_commit_objects E d ref = Inr w" and sub: "w \<subseteq> live"
  shows "walk_commit_objects E d' ref = Inr w"
proof -
  note c = walk_loop_correct [OF w [unfolded walk_commit_objects_def], of "{}"]
  have "walk_loop E d' [(KCommit, ref)] {} = walk_loop E d [(KCommit, ref)] {}"
  proof (rule walk_loop_cong [where L = w])
    show "n \<in> w" if "n \<in> set [(KCommit, ref)]" for n using c(1) that by auto
    show "visit E d' n = visit E d n \<and> set (object_refs E d n) \<subseteq> w" if "n \<in> w" for n
      using c(2) that live_visit [OF D, of n] sub by auto
  qed
  with w show ?thesis by (simp add: walk_commit_objects_def)
qed

text \<open>What a collection keeps of a ref it was given.\<close>

lemma gc_keeps_walks:
  assumes "gc E d refs index grace dry = Inr (r, d')" and ref: "ref \<in> set refs"
  shows "\<exists>w. walk_commit_objects E d ref = Inr w \<and> walk_commit_objects E d' ref = Inr w \<and>
      (\<forall>(k, h) \<in> w. store_read E d' (dir_name k) h = store_read E d (dir_name k) h)"
proof -
  obtain live where live: "collect_live_set E d refs index = Inr live" and "sweep E d live grace dry = (r, d')"
    using assms(1) by (auto simp: gc_Inr)
  then have D: "deletes (swept E live grace dry) d d'" using sweep_deletes [of E live grace dry d] by simp
  obtain w where w: "walk_commit_objects E d ref = Inr w" "w \<subseteq> live"
    using collect_live_refs [OF live ref] by blast
  with walk_after_sweep [OF D w] live_read [OF D] show ?thesis by fastforce
qed

text \<open>
  Garbage collection is safe: what a walk of a ref finds before the collection is found by the
  same walk afterwards, and every object of it still reads the same; so do the staged manifests
  and blobs of the index and the rows of these manifests.
\<close>

theorem gc_safe:
  assumes "gc E d refs index grace dry = Inr (r, d')"
  shows "(\<forall>ref \<in> set refs. \<exists>w. walk_commit_objects E d ref = Inr w \<and> walk_commit_objects E d' ref = Inr w \<and>
      (\<forall>(k, h) \<in> w. store_read E d' (dir_name k) h = store_read E d (dir_name k) h)) \<and>
    (\<forall>ie p ty h. index = Some ie \<longrightarrow> (p, ty, h) \<in> set ie \<longrightarrow>
      (ty = str ''blob'' \<longrightarrow> store_read E d' (str ''blobs'') h = store_read E d (str ''blobs'') h) \<and>
      (ty = str ''manifest'' \<longrightarrow> read_manifest E d' h = read_manifest E d h \<and>
        (\<forall>m. read_manifest E d h = Inr (Some m) \<longrightarrow> (\<forall>e \<in> set (entries m).
           store_read E d' (str ''rows'') (row_hash e) = store_read E d (str ''rows'') (row_hash e)))))"
proof -
  obtain live where live: "collect_live_set E d refs index = Inr live" and "sweep E d live grace dry = (r, d')"
    using assms by (auto simp: gc_Inr)
  then have D: "deletes (swept E live grace dry) d d'" using sweep_deletes [of E live grace dry d] by simp
  note read = live_read [OF D]
  have "\<exists>w. walk_commit_objects E d ref = Inr w \<and> walk_commit_objects E d' ref = Inr w \<and>
      (\<forall>(k, h) \<in> w. store_read E d' (dir_name k) h = store_read E d (dir_name k) h)" if "ref \<in> set refs" for ref
    by (rule gc_keeps_walks [OF assms that])
  moreover have "store_read E d' (str ''blobs'') h = store_read E d (str ''blobs'') h"
    if "index = Some ie" "(p, str ''blob'', h) \<in> set ie" for ie p h
    using collect_live_index(1) [OF live [unfolded that(1)] that(2)] read [of KBlob h] by simp
  moreover have "read_manifest E d' h = read_manifest E d h \<and>
        (\<forall>m. read_manifest E d h = Inr (Some m) \<longrightarrow> (\<forall>e \<in> set (entries m).
           store_read E d' (str ''rows'') (row_hash e) = store_read E d (str ''rows'') (row_hash e)))"
    if "index = Some ie" "(p, str ''manifest'', h) \<in> set ie" for ie p h
    using collect_live_index(2) [OF live [unfolded that(1)] that(2)] read [of KManifest h] read [of KRow]
    by (simp add: read_defs load_def)
  ultimately show ?thesis by blast
qed

theorem gc_safe_witness:
  "\<exists>r d'. gc demo_env demo_repo [hash_B] (Some [(str ''f'', str ''blob'', hash_A)]) 0 False = Inr (r, d') \<and>
     walk_commit_objects demo_env d' hash_B = walk_commit_objects demo_env demo_repo hash_B"
proof -
  have "graph_ok demo_env demo_repo (KCommit, hash_B)" by (rule demo_graph_ok) (simp add: demo_nodes_def)
  then obtain live where "collect_live_set demo_env demo_repo [hash_B] (Some [(str ''f'', str ''blob'', hash_A)]) = Inr live"
    using collect_live_total [of "[hash_B]" demo_env demo_repo] by (fastforce simp: index_ok_def)
  then obtain r d' where g: "gc demo_env demo_repo [hash_B] (Some [(str ''f'', str ''blob'', hash_A)]) 0 False = Inr (r, d')"
    by (metis gc_Inr surj_pair)
  with gc_safe [OF g] show ?thesis by auto
qed

text \<open>
  C14: a collection returns when the objects that the refs and the index reach parse, and then deletes
  exactly the files older than the grace period that are temporary or unmarked objects; what the
  refs reach is marked, and a dry run deletes nothing.
\<close>

theorem gc_deletes_exactly:
  assumes "\<forall>ref \<in> set refs. graph_ok E d (KCommit, ref)" and "index_ok E d index"
  shows "\<exists>live r d'. collect_live_set E d refs index = Inr live \<and>
    gc E d refs index grace dry = Inr (r, d') \<and>
    (\<forall>ref \<in> set refs. \<forall>n. reaches E d (KCommit, ref) n \<longrightarrow> n \<in> live) \<and>
    (dry \<longrightarrow> (\<forall>p. map_of d' p = map_of d p)) \<and>
    (\<not> dry \<longrightarrow> (\<forall>p. map_of d' p = (case map_of d p of
       None \<Rightarrow> None
     | Some f \<Rightarrow>
         if mtime f < now E - grace \<and>
            ((\<exists>k. length p = 4 \<and> hd p = dir_name k \<and> (k, last p) \<notin> live) \<or>
             (length p = 2 \<and> hd p = str ''tmp''))
         then None else Some f)))"
proof -
  obtain live where live: "collect_live_set E d refs index = Inr live"
    using collect_live_total [OF assms] by blast
  obtain r d' where s: "sweep E d live grace dry = (r, d')" by fastforce
  have D: "deletes (swept E live grace dry) d d'" using sweep_deletes [of E live grace dry d] s by simp
  have "n \<in> live" if "ref \<in> set refs" and "reaches E d (KCommit, ref) n" for ref n
    using collect_live_refs [OF live that(1)] that(2) walk_commit_objects_correct [of E d ref] by blast
  moreover have "map_of d' p = map_of d p" if "dry" for p
    using D that by (simp add: deletes_def swept_def split: option.splits)
  moreover have "map_of d' p = (case map_of d p of None \<Rightarrow> None | Some f \<Rightarrow>
         if mtime f < now E - grace \<and>
            ((\<exists>k. length p = 4 \<and> hd p = dir_name k \<and> (k, last p) \<notin> live) \<or>
             (length p = 2 \<and> hd p = str ''tmp'')) then None else Some f)" if "\<not> dry" for p
    using D that by (auto simp: deletes_def swept_def garbage_def is_object_file_def is_tmp_file_def split: option.split)
  moreover have "gc E d refs index grace dry = Inr (r, d')" using live s by (simp add: gc_Inr)
  ultimately show ?thesis using live by blast
qed

theorem gc_deletes_exactly_witness:
  "\<exists>r d'. gc demo_env demo_repo [hash_A] None 0 True = Inr (r, d') \<and> map_of d' = map_of demo_repo"
proof -
  have "graph_ok demo_env demo_repo (KCommit, hash_A)" by (rule demo_graph_ok) (simp add: demo_nodes_def)
  then show ?thesis
    using gc_deletes_exactly [of "[hash_A]" demo_env demo_repo None 0 True] by (auto simp: index_ok_def fun_eq_iff)
qed

end
