(* ===== verification/Dit_Fsck.thy ===== *)
theory Dit_Fsck
  imports Dit_Gc
begin

text \<open>
  \<open>src/dit/core/fsck.py\<close>: verification of a store. The three sets of visited commits, trees and
  manifests are one set of (kind, hash) pairs; the check of a commit and that of a tree recurse,
  and the recursion limit of the interpreter is their fuel.
\<close>

record fsck_issue =
  issue_severity :: pystr
  issue_type :: okind
  issue_hash :: pystr
  issue_message :: pystr

record fsck_result =
  checked_objects :: "okind \<Rightarrow> nat"
  fsck_errors :: "fsck_issue list"
  fsck_warnings :: "fsck_issue list"
  total_checked :: nat
  total_errors :: nat
  total_warnings :: nat

definition fsck_start :: fsck_result where
  "fsck_start = \<lparr>checked_objects = (\<lambda>_. 0), fsck_errors = [], fsck_warnings = [],
     total_checked = 0, total_errors = 0, total_warnings = 0\<rparr>"

text \<open>\<open>result.errors.append(FsckIssue(...))\<close> and \<open>result.total_errors += 1\<close>.\<close>

definition add_error :: "okind \<Rightarrow> pystr \<Rightarrow> pystr \<Rightarrow> fsck_result \<Rightarrow> fsck_result" where
  "add_error k h msg r =
     r\<lparr>fsck_errors := fsck_errors r @
         [\<lparr>issue_severity = str ''error'', issue_type = k, issue_hash = h, issue_message = msg\<rparr>],
       total_errors := Suc (total_errors r)\<rparr>"

section \<open>Verifying hashes\<close>

definition mismatch_message :: "pystr \<Rightarrow> pystr \<Rightarrow> pystr" where
  "mismatch_message expected actual =
     str ''hash mismatch: expected '' @ take 16 expected @ str ''..., got '' @ take 16 actual @ str ''...''"

definition verify_file :: "env \<Rightarrow> disk \<Rightarrow> okind \<Rightarrow> pystr list \<Rightarrow> fsck_result \<Rightarrow> fsck_result" where
  "verify_file E d k p r =
     (if \<not> hex_digest (last p) then r
      else let expected = last p;
               r = r\<lparr>checked_objects := (checked_objects r)(k := Suc (checked_objects r k)),
                     total_checked := Suc (total_checked r)\<rparr> in
        case Option.bind (map_of d p) (\<lambda>f. zdecompress E (fdata f)) of
          None \<Rightarrow> add_error k expected (str ''corrupt object: decompression failed'') r
        | Some data \<Rightarrow>
            let actual = sha256 E data in
            if actual \<noteq> expected then add_error k expected (mismatch_message expected actual) r else r)"

definition verify_hashes :: "env \<Rightarrow> disk \<Rightarrow> fsck_result \<Rightarrow> fsck_result" where
  "verify_hashes E d r =
     fold (\<lambda>k. fold (verify_file E d k) (sort (filter (is_object_file k) (map fst d)))) obj_types r"

section \<open>Verifying the graph\<close>

type_synonym fsck_state = "node set \<times> fsck_result"

fun kind_noun :: "okind \<Rightarrow> pystr" where
  "kind_noun KCommit = str ''commit''"
| "kind_noun KTree = str ''tree''"
| "kind_noun KManifest = str ''manifest''"
| "kind_noun KRow = str ''row''"
| "kind_noun KSidecar = str ''sidecar''"
| "kind_noun KBlob = str ''blob''"

definition corrupt_message :: "okind \<Rightarrow> pystr" where
  "corrupt_message k = str ''corrupt '' @ kind_noun k @ str '' object: decompression failed''"

definition missing_message :: "okind \<Rightarrow> pystr" where
  "missing_message k = str ''missing '' @ kind_noun k @ str '' object'' @
     (if k = KCommit then str '' (dangling reference)'' else [])"

text \<open>
  Reading an object: an exception and an absent object are two errors; either way there is no
  data to go on with.
\<close>

definition check_read :: "env \<Rightarrow> disk \<Rightarrow> okind \<Rightarrow> pystr \<Rightarrow> fsck_result \<Rightarrow> bytes option \<times> fsck_result" where
  "check_read E d k h r =
     (case store_read E d (dir_name k) h of
        Inl _ \<Rightarrow> (None, add_error k h (corrupt_message k) r)
      | Inr None \<Rightarrow> (None, add_error k h (missing_message k) r)
      | Inr (Some data) \<Rightarrow> (Some data, r))"

definition check_leaf :: "env \<Rightarrow> disk \<Rightarrow> okind \<Rightarrow> pystr \<Rightarrow> fsck_state \<Rightarrow> fsck_state" where
  "check_leaf E d k h st = (let (V, r) = st in (V, snd (check_read E d k h r)))"

definition check_manifest :: "env \<Rightarrow> disk \<Rightarrow> pystr \<Rightarrow> fsck_state \<Rightarrow> fsck_state res" where
  "check_manifest E d h st =
     (let (V, r) = st in
      if (KManifest, h) \<in> V then Inr (V, r)
      else let V = insert (KManifest, h) V in
        (case check_read E d KManifest h r of
           (None, r') \<Rightarrow> Inr (V, r')
         | (Some data, r') \<Rightarrow>
             bindE (deserialize_manifest data) (\<lambda>m.
               Inr (fold (\<lambda>e. check_leaf E d KRow (row_hash e)) (entries m) (V, r')))))"

definition check_sidecar :: "env \<Rightarrow> disk \<Rightarrow> tree_entry \<Rightarrow> fsck_state \<Rightarrow> fsck_state" where
  "check_sidecar E d e st =
     (if truthy (te_sidecar e) then check_leaf E d KSidecar (the (te_sidecar e)) st else st)"

fun check_tree :: "env \<Rightarrow> disk \<Rightarrow> nat \<Rightarrow> pystr \<Rightarrow> fsck_state \<Rightarrow> fsck_state res" where
  "check_tree E d 0 h st = Inl RecursionError"
| "check_tree E d (Suc n) h (V, r) =
     (if (KTree, h) \<in> V then Inr (V, r)
      else let V = insert (KTree, h) V in
        (case check_read E d KTree h r of
           (None, r') \<Rightarrow> Inr (V, r')
         | (Some data, r') \<Rightarrow>
             bindE (deserialize_tree data) (\<lambda>t.
               foldE (\<lambda>e st.
                 bindE
                   (if te_type e = str ''tree'' then check_tree E d n (te_hash e) st
                    else if te_type e = str ''manifest'' then check_manifest E d (te_hash e) st
                    else if te_type e = str ''blob'' then Inr (check_leaf E d KBlob (te_hash e) st)
                    else Inr st)
                   (\<lambda>st. Inr (check_sidecar E d e st)))
                 (tree_entries t) (V, r'))))"

fun check_commit :: "env \<Rightarrow> disk \<Rightarrow> nat \<Rightarrow> pystr \<Rightarrow> fsck_state \<Rightarrow> fsck_state res" where
  "check_commit E d 0 h st = Inl RecursionError"
| "check_commit E d (Suc n) h (V, r) =
     (if (KCommit, h) \<in> V then Inr (V, r)
      else let V = insert (KCommit, h) V in
        (case check_read E d KCommit h r of
           (None, r') \<Rightarrow> Inr (V, r')
         | (Some data, r') \<Rightarrow>
             bindE (deserialize_commit data) (\<lambda>c.
             bindE (foldE (check_commit E d n) (parent_hashes c) (V, r')) (\<lambda>st.
               check_tree E d n (tree_hash c) st))))"

definition verify_graph :: "env \<Rightarrow> disk \<Rightarrow> pystr list \<Rightarrow> fsck_result \<Rightarrow> fsck_result res" where
  "verify_graph E d ref_hashes r =
     bindE (foldE (check_commit E d (rec_limit E)) ref_hashes ({}, r)) (\<lambda>st. Inr (snd st))"

definition fsck :: "env \<Rightarrow> disk \<Rightarrow> pystr list \<Rightarrow> bool \<Rightarrow> bool \<Rightarrow> fsck_result res" where
  "fsck E d ref_hashes check_hashes check_graph =
     (let r = (if check_hashes then verify_hashes E d fsck_start else fsck_start) in
      if check_graph then verify_graph E d ref_hashes r else Inr r)"

section \<open>What the hash check reports\<close>

text \<open>The problem of one file, if it has one.\<close>

definition file_issue :: "env \<Rightarrow> disk \<Rightarrow> okind \<Rightarrow> pystr list \<Rightarrow> fsck_issue list" where
  "file_issue E d k p =
     (if \<not> hex_digest (last p) then []
      else case Option.bind (map_of d p) (\<lambda>f. zdecompress E (fdata f)) of
        None \<Rightarrow> [\<lparr>issue_severity = str ''error'', issue_type = k, issue_hash = last p,
                 issue_message = str ''corrupt object: decompression failed''\<rparr>]
      | Some data \<Rightarrow> if sha256 E data = last p then []
          else [\<lparr>issue_severity = str ''error'', issue_type = k, issue_hash = last p,
                 issue_message = mismatch_message (last p) (sha256 E data)\<rparr>])"

definition object_files :: "disk \<Rightarrow> (okind \<times> pystr list) list" where
  "object_files d = concat (map (\<lambda>k. map (Pair k) (sort (filter (is_object_file k) (map fst d)))) obj_types)"

lemma verify_file_errors:
  "fsck_errors (verify_file E d k p r) = fsck_errors r @ file_issue E d k p"
  "total_errors (verify_file E d k p r) = total_errors r + length (file_issue E d k p)"
  "total_checked (verify_file E d k p r) = total_checked r + (if hex_digest (last p) then 1 else 0)"
  by (simp_all add: verify_file_def file_issue_def add_error_def Let_def split: option.split)

lemma verify_hashes_fold: "verify_hashes E d r = fold (\<lambda>(k, p). verify_file E d k p) (object_files d) r"
  by (simp add: verify_hashes_def object_files_def obj_types_def fold_map comp_def)

lemma verify_files_errors:
  fixes kps E d r
  defines "r' \<equiv> fold (\<lambda>(k, p). verify_file E d k p) kps r"
  shows "fsck_errors r' = fsck_errors r @ concat (map (\<lambda>(k, p). file_issue E d k p) kps)"
    and "total_errors r' = total_errors r + length (concat (map (\<lambda>(k, p). file_issue E d k p) kps))"
    and "total_checked r' = total_checked r + length (filter (\<lambda>(k, p). hex_digest (last p)) kps)"
  unfolding r'_def by (induction kps arbitrary: r) (auto simp: verify_file_errors)

lemma set_object_files: "(k, p) \<in> set (object_files d) \<longleftrightarrow> is_object_file k p \<and> p \<in> fst ` set d"
  using obj_types_all by (auto simp: object_files_def)

section \<open>What the graph check reports\<close>

definition inner :: "node \<Rightarrow> bool" where
  "inner n \<longleftrightarrow> fst n \<in> {KCommit, KTree, KManifest}"

text \<open>An object that cannot be read.\<close>

definition broken :: "env \<Rightarrow> disk \<Rightarrow> node \<Rightarrow> bool" where
  "broken E d n \<longleftrightarrow> (\<nexists>b. store_read E d (dir_name (fst n)) (snd n) = Inr (Some b))"

definition reported :: "fsck_result \<Rightarrow> node set" where
  "reported r = (\<lambda>i. (issue_type i, issue_hash i)) ` set (fsck_errors r)"

text \<open>
  What a check does that is asked for the objects \<open>L\<close> when \<open>V\<close> is visited: it visits \<open>L\<close> and
  what they reach, leaving nothing behind, and reports the broken objects it meets.
\<close>

definition explored :: "env \<Rightarrow> disk \<Rightarrow> node set \<Rightarrow> fsck_state \<Rightarrow> fsck_state \<Rightarrow> bool" where
  "explored E d L st st' \<longleftrightarrow>
     (let (V, r) = st; (V', r') = st' in
      V \<subseteq> V' \<and> {n \<in> L. inner n} \<subseteq> V' \<and>
      (\<forall>x \<in> V' - V. inner x \<and> (\<exists>l \<in> L. reaches E d l x) \<and> {m \<in> set (object_refs E d x). inner m} \<subseteq> V') \<and>
      reported r' = reported r \<union> {y. broken E d y \<and>
        (y \<in> V' - V \<or> \<not> inner y \<and> (y \<in> L \<or> (\<exists>x \<in> V' - V. y \<in> set (object_refs E d x))))})"

lemma explored_trans:
  assumes "explored E d L1 st st1" and "explored E d L2 st1 st2"
  shows "explored E d (L1 \<union> L2) st st2"
proof -
  obtain V r V1 r1 V2 r2 where st: "st = (V, r)" "st1 = (V1, r1)" "st2 = (V2, r2)"
    by (cases st, cases st1, cases st2)
  note 1 = assms(1) [unfolded explored_def st Let_def prod.case]
  note 2 = assms(2) [unfolded explored_def st Let_def prod.case]
  have V: "V \<subseteq> V1" "V1 \<subseteq> V2" using 1 2 by simp_all
  have D: "x \<in> V2 - V \<longleftrightarrow> x \<in> V1 - V \<or> x \<in> V2 - V1" for x using V by blast
  have r1: "y \<in> reported r1 \<longleftrightarrow> y \<in> reported r \<or> broken E d y \<and>
        (y \<in> V1 - V \<or> \<not> inner y \<and> (y \<in> L1 \<or> (\<exists>x \<in> V1 - V. y \<in> set (object_refs E d x))))" for y
    using 1 by (cases y) (simp add: set_eq_iff)
  have r2: "y \<in> reported r2 \<longleftrightarrow> y \<in> reported r1 \<or> broken E d y \<and>
        (y \<in> V2 - V1 \<or> \<not> inner y \<and> (y \<in> L2 \<or> (\<exists>x \<in> V2 - V1. y \<in> set (object_refs E d x))))" for y
    using 2 by (cases y) (simp add: set_eq_iff)
  have ex: "(\<exists>x \<in> V2 - V. y \<in> set (object_refs E d x)) \<longleftrightarrow>
      (\<exists>x \<in> V1 - V. y \<in> set (object_refs E d x)) \<or> (\<exists>x \<in> V2 - V1. y \<in> set (object_refs E d x))" for y
    using D by blast
  show ?thesis unfolding explored_def st Let_def prod.case
  proof (intro conjI ballI)
    show "reported r2 = reported r \<union> {y. broken E d y \<and> (y \<in> V2 - V \<or> \<not> inner y \<and>
        (y \<in> L1 \<union> L2 \<or> (\<exists>x \<in> V2 - V. y \<in> set (object_refs E d x))))}"
    proof (rule set_eqI)
      fix y
      show "y \<in> reported r2 \<longleftrightarrow> y \<in> reported r \<union> {y. broken E d y \<and> (y \<in> V2 - V \<or> \<not> inner y \<and>
        (y \<in> L1 \<union> L2 \<or> (\<exists>x \<in> V2 - V. y \<in> set (object_refs E d x))))}"
        unfolding r2 r1 Un_iff mem_Collect_eq ex D by argo
    qed
    fix x assume "x \<in> V2 - V"
    then consider (a) "x \<in> V1 - V" | (b) "x \<in> V2 - V1" using D by blast
    then have "inner x \<and> (\<exists>l \<in> L1 \<union> L2. reaches E d l x) \<and> {m \<in> set (object_refs E d x). inner m} \<subseteq> V2"
    proof cases
      case a
      with 1 have "inner x \<and> (\<exists>l \<in> L1. reaches E d l x) \<and> {m \<in> set (object_refs E d x). inner m} \<subseteq> V1" by simp
      with V show ?thesis by blast
    next
      case b
      with 2 have "inner x \<and> (\<exists>l \<in> L2. reaches E d l x) \<and> {m \<in> set (object_refs E d x). inner m} \<subseteq> V2" by simp
      then show ?thesis by blast
    qed
    then show "inner x" "\<exists>l \<in> L1 \<union> L2. reaches E d l x" "{m \<in> set (object_refs E d x). inner m} \<subseteq> V2"
      by blast+
  next
    have "{n \<in> L1. inner n} \<subseteq> V1" "{n \<in> L2. inner n} \<subseteq> V2" using 1 2 by simp_all
    then show "{n \<in> L1 \<union> L2. inner n} \<subseteq> V2" using V by blast
  qed (use V in blast)
qed

lemma explored_skip:
  "(inner n \<longrightarrow> n \<in> fst st) \<Longrightarrow> (\<not> inner n \<longrightarrow> \<not> broken E d n) \<Longrightarrow> explored E d {n} st st"
  by (auto simp: explored_def split: prod.split)

lemma explored_empty: "explored E d {} st st"
  by (auto simp: explored_def split: prod.split)

lemma reported_add [simp]: "reported (add_error k h msg r) = insert (k, h) (reported r)"
  by (auto simp: reported_def add_error_def)

lemma check_read_cases:
  obtains b where "check_read E d k h r = (Some b, r)" "store_read E d (dir_name k) h = Inr (Some b)"
    "\<not> broken E d (k, h)"
  | r' where "check_read E d k h r = (None, r')" "reported r' = insert (k, h) (reported r)"
    "broken E d (k, h)" "\<nexists>b. store_read E d (dir_name k) h = Inr (Some b)"
proof (cases "store_read E d (dir_name k) h")
  case (Inl e)
  then show ?thesis by (intro that(2)) (auto simp: check_read_def broken_def)
next
  case (Inr x)
  then show ?thesis
    by (cases x) (auto simp: check_read_def broken_def intro: that)
qed

lemma check_leaf_explored:
  assumes "k \<in> {KRow, KSidecar, KBlob}"
  shows "explored E d {(k, h)} st (check_leaf E d k h st)"
proof -
  obtain V r where st: "st = (V, r)" by (cases st)
  have "\<not> inner (k, h)" using assms by (auto simp: inner_def)
  then show ?thesis
    by (rule_tac E = E and d = d and k = k and h = h and r = r in check_read_cases)
      (auto simp: st check_leaf_def explored_def)
qed

text \<open>A node whose successors have been explored is explored.\<close>

lemma explored_node:
  assumes "explored E d (set (object_refs E d n)) (insert n V, r) st'" and "inner n" and "n \<notin> V"
    and "\<not> broken E d n"
  shows "explored E d {n} (V, r) st'"
proof -
  obtain V' r' where st: "st' = (V', r')" by (cases st')
  note 1 = assms(1) [unfolded explored_def st Let_def prod.case]
  have r: "reaches E d n x" if "l \<in> set (object_refs E d n)" "reaches E d l x" for l x
    using that reaches_ref [OF reaches_refl] reaches_trans by blast
  have V: "x \<in> V' - V \<longleftrightarrow> x = n \<or> x \<in> V' - insert n V" for x using 1 assms(3) by blast
  show ?thesis unfolding explored_def st Let_def prod.case
  proof (intro conjI ballI)
    show "reported r' = reported r \<union> {y. broken E d y \<and> (y \<in> V' - V \<or> \<not> inner y \<and>
        (y \<in> {n} \<or> (\<exists>x \<in> V' - V. y \<in> set (object_refs E d x))))}"
      using 1 V assms(2,4) by blast
    show "\<exists>l \<in> {n}. reaches E d l x" if "x \<in> V' - V" for x
      using that V [of x] 1 r by (metis reaches_refl singletonI)
  qed (use 1 V assms(2) in blast)+
qed

lemma explored_broken:
  assumes "broken E d n" and "inner n" and "n \<notin> V" and "reported r' = insert n (reported r)"
    and "object_refs E d n = []"
  shows "explored E d {n} (V, r) (insert n V, r')"
  using assms by (auto simp: explored_def)

lemma explored_fold:
  assumes "\<And>x st. x \<in> set xs \<Longrightarrow> explored E d (L x) st (f x st)"
  shows "explored E d (\<Union>x \<in> set xs. L x) st (fold f xs st)"
  using assms
proof (induction xs arbitrary: st)
  case (Cons x xs)
  then show ?case using explored_trans [of E d "L x" st "f x st"] by simp
qed (simp add: explored_empty)

lemma explored_foldE:
  assumes "foldE f xs st = Inr st'"
    and "\<And>x st st'. x \<in> set xs \<Longrightarrow> f x st = Inr st' \<Longrightarrow> explored E d (L x) st st'"
  shows "explored E d (\<Union>x \<in> set xs. L x) st st'"
  using assms
proof (induction xs arbitrary: st)
  case (Cons x xs)
  from Cons.prems(1) obtain st1 where 1: "f x st = Inr st1" "foldE f xs st1 = Inr st'"
    by (auto simp: bindE_eq_Inr)
  have "explored E d (L x) st st1" using Cons.prems(2) 1(1) by simp
  from explored_trans [OF this Cons.IH [OF 1(2)]] Cons.prems(2) show ?case by simp
qed (simp add: explored_empty)

lemma broken_no_refs: "\<nexists>b. store_read E d (dir_name k) h = Inr (Some b) \<Longrightarrow> object_refs E d (k, h) = []"
  by (cases k) (auto simp: object_refs_def bindE_def read_defs load_def split: sum.splits option.splits)

lemma check_manifest_explored:
  assumes "check_manifest E d h st = Inr st'"
  shows "explored E d {(KManifest, h)} st st'"
proof -
  obtain V r where st: "st = (V, r)" by (cases st)
  show ?thesis
  proof (cases "(KManifest, h) \<in> V")
    case True
    with assms st show ?thesis by (auto simp: check_manifest_def inner_def intro: explored_skip)
  next
    case False
    have i: "inner (KManifest, h)" by (simp add: inner_def)
    show ?thesis
    proof (rule check_read_cases [of E d KManifest h r], goal_cases)
      case (1 b)
      with assms st False obtain m where m: "deserialize_manifest b = Inr m"
        and f: "st' = fold (\<lambda>e. check_leaf E d KRow (row_hash e)) (entries m) (insert (KManifest, h) V, r)"
        by (auto simp: check_manifest_def bindE_eq_Inr)
      have refs: "set (object_refs E d (KManifest, h)) = (\<Union>e \<in> set (entries m). {(KRow, row_hash e)})"
        using 1(2) m by (auto simp: object_refs_def read_manifest_def load_def)
      have "explored E d (set (object_refs E d (KManifest, h))) (insert (KManifest, h) V, r) st'"
        unfolding refs f by (rule explored_fold) (simp add: check_leaf_explored)
      from explored_node [OF this i False 1(3)] show ?case unfolding st .
    next
      case (2 r')
      with assms st False have "st' = (insert (KManifest, h) V, r')" by (simp add: check_manifest_def)
      with explored_broken [OF 2(3) i False 2(2) broken_no_refs [OF 2(4)]] st show ?case by simp
    qed
  qed
qed

text \<open>The nodes one entry of a tree refers to.\<close>

definition entry_refs :: "tree_entry \<Rightarrow> node set" where
  "entry_refs e = set (entry_adds e) \<union> set (entry_pushes e)"

lemma entry_refs_cases:
  "entry_refs e =
     (if te_type e = str ''tree'' then {(KTree, te_hash e)}
      else if te_type e = str ''manifest'' then {(KManifest, te_hash e)}
      else if te_type e = str ''blob'' then {(KBlob, te_hash e)} else {}) \<union>
     (if truthy (te_sidecar e) then {(KSidecar, the (te_sidecar e))} else {})"
  by (cases "te_sidecar e") (auto simp: entry_refs_def entry_adds_def entry_pushes_def)

lemma check_sidecar_explored:
  "explored E d (if truthy (te_sidecar e) then {(KSidecar, the (te_sidecar e))} else {}) st (check_sidecar E d e st)"
  by (simp add: check_sidecar_def check_leaf_explored explored_empty)

lemma check_tree_explored:
  assumes "check_tree E d n h st = Inr st'"
  shows "explored E d {(KTree, h)} st st'"
  using assms
proof (induction n arbitrary: h st st')
  case (Suc n)
  obtain V r where st: "st = (V, r)" by (cases st)
  show ?case
  proof (cases "(KTree, h) \<in> V")
    case True
    with Suc.prems st show ?thesis by (auto simp: inner_def intro: explored_skip)
  next
    case False
    have i: "inner (KTree, h)" by (simp add: inner_def)
    show ?thesis
    proof (rule check_read_cases [of E d KTree h r], goal_cases)
      case (1 b)
      with Suc.prems st False obtain t where t: "deserialize_tree b = Inr t"
        and f: "foldE (\<lambda>e st. bindE
                   (if te_type e = str ''tree'' then check_tree E d n (te_hash e) st
                    else if te_type e = str ''manifest'' then check_manifest E d (te_hash e) st
                    else if te_type e = str ''blob'' then Inr (check_leaf E d KBlob (te_hash e) st)
                    else Inr st)
                   (\<lambda>st. Inr (check_sidecar E d e st)))
                 (tree_entries t) (insert (KTree, h) V, r) = Inr st'"
        by (auto simp: bindE_eq_Inr)
      have refs: "set (object_refs E d (KTree, h)) = (\<Union>e \<in> set (tree_entries t). entry_refs e)"
        using 1(2) t by (auto simp: object_refs_def read_tree_def load_def entry_refs_def)
      have "explored E d (set (object_refs E d (KTree, h))) (insert (KTree, h) V, r) st'"
        unfolding refs
      proof (rule explored_foldE [OF f])
        fix e st st'
        assume "bindE (if te_type e = str ''tree'' then check_tree E d n (te_hash e) st
                    else if te_type e = str ''manifest'' then check_manifest E d (te_hash e) st
                    else if te_type e = str ''blob'' then Inr (check_leaf E d KBlob (te_hash e) st)
                    else Inr st)
                   (\<lambda>st. Inr (check_sidecar E d e st)) = Inr st'"
        then obtain st1 where s1: "(if te_type e = str ''tree'' then check_tree E d n (te_hash e) st
                    else if te_type e = str ''manifest'' then check_manifest E d (te_hash e) st
                    else if te_type e = str ''blob'' then Inr (check_leaf E d KBlob (te_hash e) st)
                    else Inr st) = Inr st1" and s2: "st' = check_sidecar E d e st1"
          by (auto simp: bindE_eq_Inr)
        have "explored E d (if te_type e = str ''tree'' then {(KTree, te_hash e)}
            else if te_type e = str ''manifest'' then {(KManifest, te_hash e)}
            else if te_type e = str ''blob'' then {(KBlob, te_hash e)} else {}) st st1"
          using s1 Suc.IH [of "te_hash e" st st1] check_manifest_explored [of E d "te_hash e" st st1]
            check_leaf_explored [of KBlob E d "te_hash e" st] explored_empty [of E d st]
          by (simp split: if_splits)
        from explored_trans [OF this check_sidecar_explored [of E d e st1]]
        show "explored E d (entry_refs e) st st'" unfolding s2 entry_refs_cases .
      qed
      from explored_node [OF this i False 1(3)] show ?case unfolding st .
    next
      case (2 r')
      with Suc.prems st False have "st' = (insert (KTree, h) V, r')" by simp
      with explored_broken [OF 2(3) i False 2(2) broken_no_refs [OF 2(4)]] st show ?case by simp
    qed
  qed
qed simp

lemma check_commit_explored:
  assumes "check_commit E d n h st = Inr st'"
  shows "explored E d {(KCommit, h)} st st'"
  using assms
proof (induction n arbitrary: h st st')
  case (Suc n)
  obtain V r where st: "st = (V, r)" by (cases st)
  show ?case
  proof (cases "(KCommit, h) \<in> V")
    case True
    with Suc.prems st show ?thesis by (auto simp: inner_def intro: explored_skip)
  next
    case False
    have i: "inner (KCommit, h)" by (simp add: inner_def)
    show ?thesis
    proof (rule check_read_cases [of E d KCommit h r], goal_cases)
      case (1 b)
      with Suc.prems st False obtain c st1 where c: "deserialize_commit b = Inr c"
        and f: "foldE (check_commit E d n) (parent_hashes c) (insert (KCommit, h) V, r) = Inr st1"
        and t: "check_tree E d n (tree_hash c) st1 = Inr st'"
        by (auto simp: bindE_eq_Inr)
      have refs: "set (object_refs E d (KCommit, h)) =
          (\<Union>p \<in> set (parent_hashes c). {(KCommit, p)}) \<union> {(KTree, tree_hash c)}"
        using 1(2) c by (auto simp: object_refs_def read_commit_def load_def)
      have "explored E d (set (object_refs E d (KCommit, h))) (insert (KCommit, h) V, r) st'"
        unfolding refs
        by (rule explored_trans [OF explored_foldE [OF f] check_tree_explored [OF t]]) (rule Suc.IH)
      from explored_node [OF this i False 1(3)] show ?case unfolding st .
    next
      case (2 r')
      with Suc.prems st False have "st' = (insert (KCommit, h) V, r')" by simp
      with explored_broken [OF 2(3) i False 2(2) broken_no_refs [OF 2(4)]] st show ?case by simp
    qed
  qed
qed simp

lemma verify_graph_reported:
  assumes "verify_graph E d refs r = Inr r'"
  shows "reported r' = reported r \<union> {n. broken E d n \<and> (\<exists>ref \<in> set refs. reaches E d (KCommit, ref) n)}"
proof -
  obtain V where f: "foldE (check_commit E d (rec_limit E)) refs ({}, r) = Inr (V, r')"
    using assms by (auto simp: verify_graph_def bindE_eq_Inr)
  have x: "explored E d (\<Union>ref \<in> set refs. {(KCommit, ref)}) ({}, r) (V, r')"
    by (rule explored_foldE [OF f]) (rule check_commit_explored)
  note 1 = x [unfolded explored_def Let_def prod.case]
  let ?A = "V \<union> {y. \<not> inner y \<and> (\<exists>x \<in> V. y \<in> set (object_refs E d x))}"
  have leaf: "object_refs E d y = []" if "\<not> inner y" for y
    using that object_refs_leaf [of "fst y" E d "snd y"] by (simp add: inner_def)
  have closed: "n \<in> ?A" if "ref \<in> set refs" "reaches E d (KCommit, ref) n" for ref n
  proof (rule reaches_closed [OF that(2)])
    show "(KCommit, ref) \<in> ?A" using 1 that(1) by (auto simp: inner_def)
    fix x y assume x: "x \<in> ?A" and y: "y \<in> set (object_refs E d x)"
    have "inner x" using leaf [of x] y by (cases "inner x") simp_all
    with x have xV: "x \<in> V" by blast
    show "y \<in> ?A"
    proof (cases "inner y")
      case True
      have "{m \<in> set (object_refs E d x). inner m} \<subseteq> V" using 1 xV by simp
      with True y show ?thesis by blast
    qed (use xV y in blast)
  qed
  have "reported r' = reported r \<union> {y. broken E d y \<and> (y \<in> V - {} \<or> \<not> inner y \<and>
      (y \<in> (\<Union>ref \<in> set refs. {(KCommit, ref)}) \<or> (\<exists>x \<in> V - {}. y \<in> set (object_refs E d x))))}"
    using 1 by (elim conjE)
  moreover have "\<not> inner y \<Longrightarrow> y \<notin> (\<Union>ref \<in> set refs. {(KCommit, ref)})" for y by (auto simp: inner_def)
  ultimately have R: "reported r' = reported r \<union> {y. broken E d y \<and> y \<in> ?A}" by blast
  have V: "\<exists>ref \<in> set refs. reaches E d (KCommit, ref) y" if "y \<in> V" for y
    using 1 that by simp
  have "y \<in> ?A \<longleftrightarrow> (\<exists>ref \<in> set refs. reaches E d (KCommit, ref) y)" for y
  proof
    assume "y \<in> ?A"
    then consider "y \<in> V" | x where "x \<in> V" "y \<in> set (object_refs E d x)" by blast
    then show "\<exists>ref \<in> set refs. reaches E d (KCommit, ref) y"
      by cases (use V reaches_ref in blast)+
  qed (use closed in blast)
  with R show ?thesis by blast
qed

section \<open>The graph check returns\<close>

text \<open>Every object reached from \<open>n\<close> that can be read parses.\<close>

definition parses_from :: "env \<Rightarrow> disk \<Rightarrow> node \<Rightarrow> bool" where
  "parses_from E d n \<longleftrightarrow> (\<forall>m. reaches E d n m \<longrightarrow> \<not> broken E d m \<longrightarrow> (\<exists>x. visit E d m = Inr x))"

lemma parses_from_ref: "parses_from E d n \<Longrightarrow> m \<in> set (object_refs E d n) \<Longrightarrow> parses_from E d m"
  unfolding parses_from_def by (meson reaches_ref reaches_refl reaches_trans)

lemma foldE_total_inv:
  assumes "P s" and "\<And>x s. x \<in> set xs \<Longrightarrow> P s \<Longrightarrow> \<exists>t. f x s = Inr t \<and> P t"
  shows "\<exists>t. foldE f xs s = Inr t \<and> P t"
  using assms
proof (induction xs arbitrary: s)
  case (Cons x xs)
  then obtain t where "f x s = Inr t" "P t" by fastforce
  with Cons show ?case by simp
qed simp

lemma parses_from_self: "parses_from E d n \<Longrightarrow> \<not> broken E d n \<Longrightarrow> \<exists>x. visit E d n = Inr x"
  unfolding parses_from_def using reaches_refl by blast

text \<open>How many objects that can be opened are still to visit.\<close>

definition unvisited :: "disk \<Rightarrow> fsck_state \<Rightarrow> nat" where
  "unvisited d st = card (walk_nodes d - fst st)"

lemma unvisited_mono: "explored E d L st st' \<Longrightarrow> unvisited d st' \<le> unvisited d st"
  unfolding unvisited_def explored_def by (rule card_mono) (auto split: prod.splits)

lemma read_disk_names: "store_read E d ty h = Inr (Some b) \<Longrightarrow> h \<in> disk_names d"
  using load_disk_names [of E d "map (\<lambda>c. char_of c) []"] by (auto simp: store_read_Some disk_names_def dest!: map_of_SomeD
      intro: rev_image_eqI)

lemma unvisited_less:
  assumes "store_read E d (dir_name k) h = Inr (Some b)" and "inner (k, h)" and "(k, h) \<notin> V"
  shows "unvisited d (insert (k, h) V, r) < unvisited d (V, r')"
proof -
  have "(k, h) \<in> walk_nodes d" using assms(2) read_disk_names [OF assms(1)] by (simp add: inner_def)
  then have "walk_nodes d - insert (k, h) V \<subset> walk_nodes d - V" using assms(3) by blast
  then show ?thesis unfolding unvisited_def fst_conv by (rule psubset_card_mono [rotated]) simp
qed

lemma check_manifest_total:
  assumes "parses_from E d (KManifest, h)"
  shows "\<exists>st'. check_manifest E d h st = Inr st'"
proof -
  obtain V r where st: "st = (V, r)" by (cases st)
  show ?thesis
  proof (rule check_read_cases [of E d KManifest h r], goal_cases)
    case (1 b)
    have "\<exists>x. visit E d (KManifest, h) = Inr x"
      by (rule parses_from_self [OF assms 1(3)])
    then obtain m where "deserialize_manifest b = Inr m"
      using 1(2) by (cases "deserialize_manifest b") (auto simp: read_manifest_def load_def)
    with 1 st show ?case by (simp add: check_manifest_def)
  qed (simp add: check_manifest_def st)
qed

lemma check_tree_total:
  "parses_from E d (KTree, h) \<Longrightarrow> unvisited d st < n \<Longrightarrow> \<exists>st'. check_tree E d n h st = Inr st'"
proof (induction n arbitrary: h st)
  case (Suc n)
  obtain V r where st: "st = (V, r)" by (cases st)
  show ?case
  proof (cases "(KTree, h) \<in> V")
    case False
    show ?thesis
    proof (rule check_read_cases [of E d KTree h r], goal_cases)
      case (1 b)
      have "\<exists>x. visit E d (KTree, h) = Inr x"
        by (rule parses_from_self [OF Suc.prems(1) 1(3)])
      then obtain t where t: "deserialize_tree b = Inr t"
        using 1(2) by (cases "deserialize_tree b") (auto simp: read_tree_def load_def)
      let ?f = "\<lambda>e st. if te_type e = str ''tree'' then check_tree E d n (te_hash e) st
                    else if te_type e = str ''manifest'' then check_manifest E d (te_hash e) st
                    else if te_type e = str ''blob'' then Inr (check_leaf E d KBlob (te_hash e) st)
                    else Inr st"
      have refs: "entry_refs e \<subseteq> set (object_refs E d (KTree, h))" if "e \<in> set (tree_entries t)" for e
        using 1(2) t that by (auto simp: object_refs_def read_tree_def load_def entry_refs_def)
      have "unvisited d (insert (KTree, h) V, r) < n"
        using unvisited_less [OF 1(2) _ False, of r r] Suc.prems(2) st by (simp add: inner_def)
      then have "\<exists>s'. foldE (\<lambda>e st. bindE (?f e st) (\<lambda>st. Inr (check_sidecar E d e st))) (tree_entries t)
          (insert (KTree, h) V, r) = Inr s' \<and> unvisited d s' < n"
      proof (rule foldE_total_inv)
        fix e s assume e: "e \<in> set (tree_entries t)" and s: "unvisited d s < n"
        have p: "m \<in> entry_refs e \<Longrightarrow> parses_from E d m" for m
          using parses_from_ref [OF Suc.prems(1)] refs [OF e] by blast
        have "\<exists>s1. ?f e s = Inr s1"
          using p Suc.IH [OF _ s, of "te_hash e"] check_manifest_total [of E d "te_hash e" s]
          by (auto simp: entry_refs_cases)
        then obtain s1 where s1: "?f e s = Inr s1" by blast
        have "\<exists>L. explored E d L s s1"
          using s1 check_tree_explored [of E d n "te_hash e" s s1] check_manifest_explored [of E d "te_hash e" s s1]
            check_leaf_explored [of KBlob E d "te_hash e" s] explored_empty [of E d s]
          by (auto split: if_splits)
        then obtain L where "explored E d L s s1" ..
        from unvisited_mono [OF explored_trans [OF this check_sidecar_explored [of E d e s1]]] s
        show "\<exists>s'. bindE (?f e s) (\<lambda>st. Inr (check_sidecar E d e st)) = Inr s' \<and> unvisited d s' < n"
          unfolding s1 by simp
      qed
      with 1 t False st show ?case by auto
    qed (use False st in simp)
  qed (use st in simp)
qed simp

lemma check_commit_total:
  "parses_from E d (KCommit, h) \<Longrightarrow> unvisited d st < n \<Longrightarrow> \<exists>st'. check_commit E d n h st = Inr st'"
proof (induction n arbitrary: h st)
  case (Suc n)
  obtain V r where st: "st = (V, r)" by (cases st)
  show ?case
  proof (cases "(KCommit, h) \<in> V")
    case False
    show ?thesis
    proof (rule check_read_cases [of E d KCommit h r], goal_cases)
      case (1 b)
      have "\<exists>x. visit E d (KCommit, h) = Inr x"
        by (rule parses_from_self [OF Suc.prems(1) 1(3)])
      then obtain c where c: "deserialize_commit b = Inr c"
        using 1(2) by (cases "deserialize_commit b") (auto simp: read_commit_def load_def)
      have refs: "set (object_refs E d (KCommit, h)) = insert (KTree, tree_hash c) (Pair KCommit ` set (parent_hashes c))"
        using 1(2) c by (auto simp: object_refs_def read_commit_def load_def)
      note p = parses_from_ref [OF Suc.prems(1), unfolded refs]
      have "unvisited d (insert (KCommit, h) V, r) < n"
        using unvisited_less [OF 1(2) _ False, of r r] Suc.prems(2) st by (simp add: inner_def)
      then have "\<exists>s. foldE (check_commit E d n) (parent_hashes c) (insert (KCommit, h) V, r) = Inr s \<and> unvisited d s < n"
      proof (rule foldE_total_inv)
        fix q s assume q: "q \<in> set (parent_hashes c)" and s: "unvisited d s < n"
        with p Suc.IH [OF _ s, of q] obtain s' where s': "check_commit E d n q s = Inr s'" by blast
        from unvisited_mono [OF check_commit_explored [OF this]] s s'
        show "\<exists>s'. check_commit E d n q s = Inr s' \<and> unvisited d s' < n" by auto
      qed
      with p check_tree_total [of E d "tree_hash c"] 1 c False st show ?case by fastforce
    qed (use False st in simp)
  qed (use st in simp)
qed simp

lemma verify_graph_total:
  assumes "\<forall>ref \<in> set refs. parses_from E d (KCommit, ref)" and "card (walk_nodes d) < rec_limit E"
  shows "\<exists>r'. verify_graph E d refs r = Inr r'"
proof -
  have "unvisited d ({}, r) < rec_limit E" using assms(2) by (simp add: unvisited_def)
  then have "\<exists>s. foldE (check_commit E d (rec_limit E)) refs ({}, r) = Inr s \<and> unvisited d s < rec_limit E"
  proof (rule foldE_total_inv)
    fix q s assume q: "q \<in> set refs" and s: "unvisited d s < rec_limit E"
    with assms(1) check_commit_total obtain s' where s': "check_commit E d (rec_limit E) q s = Inr s'" by blast
    from unvisited_mono [OF check_commit_explored [OF this]] s s'
    show "\<exists>s'. check_commit E d (rec_limit E) q s = Inr s' \<and> unvisited d s' < rec_limit E" by auto
  qed
  then show ?thesis by (auto simp: verify_graph_def)
qed

section \<open>Properties\<close>

text \<open>
  C15: the hash check returns with exactly the errors of the object files of the store, in
  the order of kinds and paths: a file is reported when its data does not decompress or has
  another digest than its name, and a content-addressed store has no error.
\<close>

theorem fsck_hashes_exact:
  "\<exists>r. fsck E d refs True False = Inr r \<and>
     fsck_errors r = concat (map (\<lambda>(k, p). file_issue E d k p) (object_files d)) \<and>
     total_errors r = length (fsck_errors r) \<and>
     (store_inv E d \<longrightarrow> fsck_errors r = []) \<and>
     (\<forall>k p f. (p, f) \<in> set d \<and> wf_dict d \<and> is_object_file k p \<and> hex_digest (last p) \<and> \<not> object_ok E (p, f)
        \<longrightarrow> (k, last p) \<in> reported r)"
proof (intro exI conjI impI allI)
  let ?r = "verify_hashes E d fsck_start"
  show "fsck E d refs True False = Inr ?r" by (simp add: fsck_def)
  show e: "fsck_errors ?r = concat (map (\<lambda>(k, p). file_issue E d k p) (object_files d))"
    and "total_errors ?r = length (fsck_errors ?r)"
    unfolding verify_hashes_fold verify_files_errors by (simp_all add: fsck_start_def)
  show "fsck_errors ?r = []" if inv: "store_inv E d"
  proof -
    have "file_issue E d k p = []" if "(k, p) \<in> set (object_files d)" for k p
    proof -
      from that obtain f where f: "(p, f) \<in> set d" and l: "length p = 4"
        by (auto simp: set_object_files is_object_file_def)
      have "map_of d p = Some f" using inv f by (simp add: store_inv_def wf_dict_def)
      moreover have "object_ok E (p, f)" using inv f l unfolding store_inv_def by fastforce
      ultimately show ?thesis by (auto simp: file_issue_def object_ok_def)
    qed
    then show ?thesis unfolding e by auto
  qed
  show "(k, last p) \<in> reported ?r"
    if "(p, f) \<in> set d \<and> wf_dict d \<and> is_object_file k p \<and> hex_digest (last p) \<and> \<not> object_ok E (p, f)" for k p f
  proof -
    have "map_of d p = Some f" and p: "(k, p) \<in> set (object_files d)"
      using that by (force simp: set_object_files wf_dict_def)+
    then have "(k, last p) \<in> (\<lambda>i. (issue_type i, issue_hash i)) ` set (file_issue E d k p)"
      using that by (auto simp: file_issue_def object_ok_def split: option.split)
    then show ?thesis unfolding reported_def e using p by force
  qed
qed

theorem fsck_hashes_exact_witness:
  "\<exists>r. fsck demo_env demo_repo [] True False = Inr r \<and> fsck_errors r = []"
proof -
  have "store_inv demo_env demo_repo"
    unfolding demo_repo_def demo_disk_def by (intro puts_inv) (simp add: demo_env_ok)
  then show ?thesis using fsck_hashes_exact [of demo_env demo_repo "[]"] by blast
qed


lemma graph_ok_parses: "graph_ok E d n \<Longrightarrow> parses_from E d n"
  by (simp add: graph_ok_def parses_from_def)

lemma card_walk_nodes: "card (walk_nodes d) \<le> 3 * length d"
proof -
  have "card (disk_names d) \<le> length d"
    unfolding disk_names_def using card_image_le [of "set d" "\<lambda>pf. last (fst pf)"] card_length [of d] by simp
  then show ?thesis by (simp add: card_cartesian_product)
qed

lemma length_puts: "length (fold (put E ty) bs d) \<le> length d + length bs"
proof (induction bs arbitrary: d)
  case (Cons b bs)
  have "length (put E ty b d) \<le> Suc (length d)"
    by (cases "map_of d (opath (str ty) (sha256 E b))") (simp_all add: put_def update_new')
  with Cons.IH [of "put E ty b d"] show ?case by simp
qed simp

lemma demo_repo_length: "length demo_repo \<le> 6"
proof -
  have "length demo_disk \<le> 2"
    using length_puts [of demo_env "''trees''" demo_blobs "[]"] by (simp add: demo_disk_def demo_blobs_def)
  then show ?thesis
    using length_puts [of demo_env "''commits''" demo_commits demo_disk] by (simp add: demo_repo_def demo_commits_def)
qed


end
