(* ===== verification/Dit_Diff.thy ===== *)
theory Dit_Diff
  imports Dit_Walk
begin

text \<open>
  \<open>src/dit/core/diff.py\<close>: the difference of two manifests. A row of the new manifest whose
  query fingerprint is the one of a removed row is a refresh of that row.
\<close>

record diff_result =
  added :: "manifest_entry list"
  removed :: "manifest_entry list"
  refreshed :: "(pystr \<times> pystr \<times> pystr) list"

definition summary :: "diff_result \<Rightarrow> pystr" where
  "summary r =
     (let parts =
        (if added r \<noteq> [] then [str ''+'' @ nat_digits (length (added r))] else []) @
        (if removed r \<noteq> [] then [str ''-'' @ nat_digits (length (removed r))] else []) @
        (if refreshed r \<noteq> [] then [str ''~'' @ nat_digits (length (refreshed r)) @ str '' refreshed''] else [])
      in if parts = [] then str ''no changes''
         else foldl (\<lambda>s p. s @ str '', '' @ p) (hd parts) (tl parts))"

definition hashes :: "manifest \<Rightarrow> pystr set" where
  "hashes m = row_hash ` set (entries m)"

text \<open>The removed rows by fingerprint, each list in order.\<close>

definition group_by_qfp :: "manifest_entry list \<Rightarrow> manifest_entry list dict" where
  "group_by_qfp es = foldl (\<lambda>d e. if truthy (query_fingerprint e)
     then dict_append (the (query_fingerprint e)) e d else d) [] es"

text \<open>The loop over the added rows: the groups left, the pairs found, their old and new hashes.\<close>

type_synonym refresh_state =
  "manifest_entry list dict \<times> (pystr \<times> pystr \<times> pystr) list \<times> pystr set \<times> pystr set"

definition refresh_step :: "manifest_entry \<Rightarrow> refresh_state \<Rightarrow> refresh_state res" where
  "refresh_step e st =
     (let (by_qfp, refr, olds, news) = st in
      case query_fingerprint e of
        None \<Rightarrow> Inr st
      | Some q \<Rightarrow>
          if q = [] then Inr st
          else (case map_of by_qfp q of
            None \<Rightarrow> Inr st
          | Some [] \<Rightarrow> Inl IndexError
          | Some (old # rest) \<Rightarrow>
              Inr (if rest = [] then AList.delete q by_qfp else AList.update q rest by_qfp,
                   refr @ [(row_hash old, row_hash e, q)],
                   insert (row_hash old) olds, insert (row_hash e) news)))"

definition diff_manifests :: "manifest \<Rightarrow> manifest \<Rightarrow> diff_result res" where
  "diff_manifests old new =
     (let raw_removed = filter (\<lambda>e. row_hash e \<notin> hashes new) (entries old);
          raw_added = filter (\<lambda>e. row_hash e \<notin> hashes old) (entries new) in
      bindE (foldE refresh_step raw_added (group_by_qfp raw_removed, [], {}, {}))
        (\<lambda>(_, refr, olds, news).
          let add = filter (\<lambda>e. row_hash e \<notin> news) raw_added;
              rem = filter (\<lambda>e. row_hash e \<notin> olds) raw_removed in
          Inr (if add = [] \<and> rem = [] \<and> refr = [] \<and> entries old \<noteq> entries new
               then \<lparr>added = entries new, removed = entries old, refreshed = refr\<rparr>
               else \<lparr>added = add, removed = rem, refreshed = refr\<rparr>)))"

section \<open>Groups\<close>

text \<open>Groups are never empty and hold rows with their fingerprint.\<close>

definition groups_ok :: "manifest_entry list dict \<Rightarrow> manifest_entry set \<Rightarrow> bool" where
  "groups_ok g S \<longleftrightarrow> wf_dict g \<and>
     (\<forall>q es. map_of g q = Some es \<longrightarrow> es \<noteq> [] \<and> (\<forall>e \<in> set es. e \<in> S \<and> query_fingerprint e = Some q))"

lemma groups_okD:
  "groups_ok g S \<Longrightarrow> map_of g q = Some es \<Longrightarrow> es \<noteq> [] \<and> (\<forall>e \<in> set es. e \<in> S \<and> query_fingerprint e = Some q)"
  by (simp add: groups_ok_def)

lemma groups_ok_update:
  "groups_ok g S \<Longrightarrow> es \<noteq> [] \<Longrightarrow> (\<And>e. e \<in> set es \<Longrightarrow> e \<in> S \<and> query_fingerprint e = Some q) \<Longrightarrow>
   groups_ok (AList.update q es g) S"
  by (auto simp: groups_ok_def update_conv')

lemma groups_ok_delete: "groups_ok g S \<Longrightarrow> groups_ok (AList.delete q g) S"
  by (auto simp: groups_ok_def delete_conv' restrict_map_def split: if_splits)

lemma group_by_qfp_ok: "groups_ok (group_by_qfp es) (set es)"
proof -
  have "groups_ok (foldl (\<lambda>d e. if truthy (query_fingerprint e)
      then dict_append (the (query_fingerprint e)) e d else d) g es) S"
    if "groups_ok g S" "set es \<subseteq> S" for g S
    using that
  proof (induction es arbitrary: g)
    case (Cons e es)
    have "groups_ok (dict_append q e g) S" if "query_fingerprint e = Some q" for q
      unfolding dict_append_def using Cons.prems that groups_okD [OF Cons.prems(1), of q]
      by (cases "map_of g q") (auto intro!: groups_ok_update)
    with Cons show ?case by (cases "query_fingerprint e") auto
  qed simp
  moreover have "groups_ok [] (set es)" by (simp add: groups_ok_def)
  ultimately show ?thesis by (simp add: group_by_qfp_def)
qed

text \<open>A refresh pairs a removed row with an added row of the same fingerprint.\<close>

definition refresh_of :: "manifest_entry set \<Rightarrow> manifest_entry set \<Rightarrow> pystr \<times> pystr \<times> pystr \<Rightarrow> bool" where
  "refresh_of R A p \<longleftrightarrow> (\<exists>e \<in> R. \<exists>f \<in> A. p = (row_hash e, row_hash f, the (query_fingerprint e)) \<and>
     query_fingerprint e = query_fingerprint f \<and> truthy (query_fingerprint e))"

definition refresh_inv :: "manifest_entry set \<Rightarrow> manifest_entry set \<Rightarrow> refresh_state \<Rightarrow> bool" where
  "refresh_inv R A st \<longleftrightarrow>
     (let (g, refr, olds, news) = st in
      groups_ok g R \<and> olds = fst ` set refr \<and> news = (\<lambda>p. fst (snd p)) ` set refr \<and>
      (\<forall>p \<in> set refr. refresh_of R A p))"

lemma refresh_step_inv:
  assumes "refresh_inv R A st" and "e \<in> A"
  shows "\<exists>st'. refresh_step e st = Inr st' \<and> refresh_inv R A st'"
proof -
  obtain g refr olds news where st: "st = (g, refr, olds, news)" by (cases st)
  have inv: "groups_ok g R" "olds = fst ` set refr" "news = (\<lambda>p. fst (snd p)) ` set refr"
    "\<forall>p \<in> set refr. refresh_of R A p"
    using assms(1) by (auto simp: refresh_inv_def st)
  show ?thesis
  proof (cases "truthy (query_fingerprint e) \<and> map_of g (the (query_fingerprint e)) \<noteq> None")
    case False
    then have "refresh_step e st = Inr st"
      by (cases "query_fingerprint e") (auto simp: refresh_step_def st)
    with assms show ?thesis by simp
  next
    case True
    then obtain q es where q: "query_fingerprint e = Some q" "q \<noteq> []" "map_of g q = Some es"
      by (cases "query_fingerprint e") auto
    note es = groups_okD [OF inv(1) q(3)]
    then obtain old rest where old: "es = old # rest" by (cases es) auto
    have "refresh_of R A (row_hash old, row_hash e, q)"
      unfolding refresh_of_def using es old q assms(2) by (intro bexI [of _ old] bexI [of _ e]) auto
    moreover have "groups_ok (if rest = [] then AList.delete q g else AList.update q rest g) R"
      using inv(1) es old by (auto intro: groups_ok_delete groups_ok_update)
    ultimately have "refresh_inv R A (if rest = [] then AList.delete q g else AList.update q rest g,
        refr @ [(row_hash old, row_hash e, q)], insert (row_hash old) olds, insert (row_hash e) news)"
      using inv by (simp add: refresh_inv_def)
    then show ?thesis using q old by (simp add: refresh_step_def st)
  qed
qed

lemma refresh_steps_inv:
  "refresh_inv R A st \<Longrightarrow> set es \<subseteq> A \<Longrightarrow> \<exists>st'. foldE refresh_step es st = Inr st' \<and> refresh_inv R A st'"
proof (induction es arbitrary: st)
  case (Cons e es)
  with refresh_step_inv [of R A st e] show ?case by fastforce
qed auto

section \<open>Properties\<close>


end
