(* ===== verification/Dit_Text.thy ===== *)
theory Dit_Text
  imports Dit_Store
begin

text \<open>
  Text as Python's standard library handles it: encoding and lenient decoding of UTF-8, the white
  space \<open>str.strip\<close> removes, the lines of a text file opened with universal newlines, and
  substring search.
\<close>

section \<open>UTF-8\<close>

text \<open>\<open>s.encode("utf-8")\<close>: a surrogate has no encoding.\<close>

definition utf8_char :: "nat \<Rightarrow> bytes res" where
  "utf8_char c =
     (if c < 128 then Inr [of_nat c]
      else if c < 2048 then Inr [of_nat (192 + c div 64), of_nat (128 + c mod 64)]
      else if is_high c \<or> is_low c then Inl UnicodeEncodeError
      else if c < 65536 then
        Inr [of_nat (224 + c div 4096), of_nat (128 + c div 64 mod 64), of_nat (128 + c mod 64)]
      else
        Inr [of_nat (240 + c div 262144), of_nat (128 + c div 4096 mod 64),
             of_nat (128 + c div 64 mod 64), of_nat (128 + c mod 64)])"

definition utf8_encode :: "pystr \<Rightarrow> bytes res" where
  "utf8_encode s = bindE (mapE utf8_char s) (\<lambda>bs. Inr (concat bs))"

text \<open>
  \<open>b.decode("utf-8", errors="replace")\<close>: the longest prefix of a sequence that could still
  become valid is replaced by one U+FFFD. \<open>lead_range\<close> gives the second bytes a lead byte allows.
\<close>

definition lead_range :: "nat \<Rightarrow> 8 word \<Rightarrow> bool" where
  "lead_range n c \<longleftrightarrow> is_cont c \<and> (n = 224 \<longrightarrow> 160 \<le> unat c) \<and> (n = 237 \<longrightarrow> unat c < 160) \<and>
     (n = 240 \<longrightarrow> 144 \<le> unat c) \<and> (n = 244 \<longrightarrow> unat c < 144)"

definition need :: "nat \<Rightarrow> nat" where
  "need n = (if 194 \<le> n \<and> n < 224 then 1 else if 224 \<le> n \<and> n < 240 then 2
             else if 240 \<le> n \<and> n < 245 then 3 else 0)"

fun good_tail :: "nat \<Rightarrow> nat \<Rightarrow> bytes \<Rightarrow> nat" where
  "good_tail n 0 r = 0"
| "good_tail n k [] = 0"
| "good_tail n (Suc k) (c # r) =
     (if k + 1 = need n then if lead_range n c then Suc (good_tail n k r) else 0
      else if is_cont c then Suc (good_tail n k r) else 0)"

function utf8_replace :: "bytes \<Rightarrow> pystr" where
  "utf8_replace [] = []"
| "utf8_replace (b # r) =
     (let n = unat b; k = good_tail n (need n) r in
      if n < 128 then n # utf8_replace r
      else if need n \<noteq> 0 \<and> k = need n
        then (case utf8_decode False (b # take k r) of Inr s \<Rightarrow> s | Inl _ \<Rightarrow> [65533]) @ utf8_replace (drop k r)
      else 65533 # utf8_replace (drop k r))"
  by pat_completeness auto

termination utf8_replace
  by (relation "measure length") auto

section \<open>White space and lines\<close>

text \<open>The code points for which \<open>str.isspace\<close> holds.\<close>

definition py_space :: "nat \<Rightarrow> bool" where
  "py_space c \<longleftrightarrow> 9 \<le> c \<and> c \<le> 13 \<or> 28 \<le> c \<and> c \<le> 32 \<or> c = 133 \<or> c = 160 \<or> c = 5760 \<or>
     8192 \<le> c \<and> c \<le> 8202 \<or> c = 8232 \<or> c = 8233 \<or> c = 8239 \<or> c = 8287 \<or> c = 12288"

definition py_strip :: "pystr \<Rightarrow> pystr" where
  "py_strip s = rev (dropWhile py_space (rev (dropWhile py_space s)))"

text \<open>Reading a text file with universal newlines.\<close>

fun newlines :: "pystr \<Rightarrow> pystr" where
  "newlines [] = []"
| "newlines [c] = [if c = 13 then 10 else c]"
| "newlines (c # d # s) =
     (if c = 13 \<and> d = 10 then 10 # newlines s
      else (if c = 13 then 10 else c) # newlines (d # s))"

text \<open>Splitting at a character, as \<open>s.split(c)\<close> does.\<close>

fun split_at :: "nat \<Rightarrow> pystr \<Rightarrow> pystr list" where
  "split_at c [] = [[]]"
| "split_at c (x # s) =
     (if x = c then [] # split_at c s
      else (case split_at c s of [] \<Rightarrow> [[x]] | w # ws \<Rightarrow> (x # w) # ws))"

text \<open>\<open>"c".join(ws)\<close> for a one-character separator.\<close>

fun join_with :: "nat \<Rightarrow> pystr list \<Rightarrow> pystr" where
  "join_with c [] = []"
| "join_with c [w] = w"
| "join_with c (w # v # ws) = w @ c # join_with c (v # ws)"

section \<open>Searching\<close>

text \<open>\<open>text.find(p)\<close>, \<open>None\<close> for -1.\<close>

fun py_find :: "pystr \<Rightarrow> pystr \<Rightarrow> nat option" where
  "py_find p [] = (if p = [] then Some 0 else None)"
| "py_find p (c # s) = (if py_startswith (c # s) p then Some 0 else map_option Suc (py_find p s))"

definition py_contains :: "pystr \<Rightarrow> pystr \<Rightarrow> bool" where
  "py_contains p s \<longleftrightarrow> py_find p s \<noteq> None"

lemma py_find_Nil: "py_find [] s = Some 0"
  by (cases s) simp_all

lemma py_find_Some: "py_find p s = Some i \<Longrightarrow> \<exists>u v. s = u @ p @ v \<and> length u = i"
proof (induction s arbitrary: i)
  case (Cons c s)
  show ?case
  proof (cases "py_startswith (c # s) p")
    case True
    with Cons.prems show ?thesis by (auto simp: py_startswith_iff)
  next
    case False
    with Cons.prems obtain j where j: "py_find p s = Some j" "i = Suc j" by auto
    from Cons.IH [OF j(1)] obtain u v where "s = u @ p @ v" "length u = j" by blast
    then show ?thesis using j(2) by (metis append_Cons length_Cons)
  qed
qed (simp split: if_splits)

lemma py_find_append: "py_find p (u @ p @ v) \<noteq> None"
proof (induction u)
  case Nil
  have "py_startswith (p @ v) p" by simp
  then show ?case by (cases "p @ v") auto
qed auto

lemma py_contains_iff: "py_contains p s \<longleftrightarrow> (\<exists>u v. s = u @ p @ v)"
proof
  assume "py_contains p s"
  then obtain i where "py_find p s = Some i" by (auto simp: py_contains_def)
  from py_find_Some [OF this] show "\<exists>u v. s = u @ p @ v" by blast
next
  assume "\<exists>u v. s = u @ p @ v"
  then show "py_contains p s" using py_find_append by (auto simp: py_contains_def)
qed

section \<open>Encoding, then decoding\<close>

lemma unat_byte: "n < 256 \<Longrightarrow> unat (of_nat n :: 8 word) = n"
  by (simp add: unat_of_nat)

lemma utf8_decode_2:
  assumes "x < 32" "y < 64" "c = x * 64 + y" "2 \<le> x"
  shows "utf8_decode sp ([of_nat (192 + x), of_nat (128 + y)] @ r) = bindE (utf8_decode sp r) (\<lambda>s. Inr (c # s))"
proof -
  have u: "unat (of_nat (192 + x) :: 8 word) = 192 + x" "unat (of_nat (128 + y) :: 8 word) = 128 + y"
    using assms(1,2) by (simp_all only: unat_byte)
  have k: "is_cont (of_nat (128 + y))" using assms(2) unfolding is_cont_def u by simp
  have v: "(192 + x - 192) * 64 + (128 + y - 128) = c" using assms(3) by simp
  show ?thesis
    unfolding append_Cons append_Nil utf8_decode.simps Let_def u v list.case
    using assms(1,4) k by simp
qed

lemma utf8_decode_3:
  assumes "x < 16" "y < 64" "z < 64" "c = x * 4096 + y * 64 + z" "2048 \<le> c" "\<not> is_high c" "\<not> is_low c"
  shows "utf8_decode sp ([of_nat (224 + x), of_nat (128 + y), of_nat (128 + z)] @ r) =
    bindE (utf8_decode sp r) (\<lambda>s. Inr (c # s))"
proof -
  have u: "unat (of_nat (224 + x) :: 8 word) = 224 + x" "unat (of_nat (128 + y) :: 8 word) = 128 + y"
    "unat (of_nat (128 + z) :: 8 word) = 128 + z"
    using assms(1-3) by (simp_all only: unat_byte)
  have k: "is_cont (of_nat (128 + y))" "is_cont (of_nat (128 + z))"
    using assms(2,3) unfolding is_cont_def u by simp_all
  have v: "(224 + x - 224) * 4096 + (128 + y - 128) * 64 + (128 + z - 128) = c" using assms(4) by simp
  show ?thesis
    unfolding append_Cons append_Nil utf8_decode.simps Let_def u v list.case
    using assms(1,5-7) k by simp
qed

lemma utf8_decode_4:
  assumes "x < 5" "y < 64" "z < 64" "w < 64" "c = x * 262144 + y * 4096 + z * 64 + w" "65536 \<le> c" "c < 1114112"
  shows "utf8_decode sp ([of_nat (240 + x), of_nat (128 + y), of_nat (128 + z), of_nat (128 + w)] @ r) =
    bindE (utf8_decode sp r) (\<lambda>s. Inr (c # s))"
proof -
  have u: "unat (of_nat (240 + x) :: 8 word) = 240 + x" "unat (of_nat (128 + y) :: 8 word) = 128 + y"
    "unat (of_nat (128 + z) :: 8 word) = 128 + z" "unat (of_nat (128 + w) :: 8 word) = 128 + w"
    using assms(1-4) by (simp_all only: unat_byte)
  have k: "is_cont (of_nat (128 + y))" "is_cont (of_nat (128 + z))" "is_cont (of_nat (128 + w))"
    using assms(2-4) unfolding is_cont_def u by simp_all
  have v: "(240 + x - 240) * 262144 + (128 + y - 128) * 4096 + (128 + z - 128) * 64 + (128 + w - 128) = c"
    using assms(5) by simp
  show ?thesis
    unfolding append_Cons append_Nil utf8_decode.simps Let_def u v list.case
    using assms(1,6,7) k by simp
qed

lemma base64_digits:
  fixes c :: nat
  shows "c = c div 4096 * 4096 + c div 64 mod 64 * 64 + c mod 64"
    and "c = c div 262144 * 262144 + c div 4096 mod 64 * 4096 + c div 64 mod 64 * 64 + c mod 64"
proof -
  have 1: "c = c div 64 * 64 + c mod 64" by simp
  have 2: "c div 64 = c div 4096 * 64 + c div 64 mod 64"
    using div_mult_mod_eq [of "c div 64" 64] by (simp add: div_mult2_eq [symmetric])
  have 3: "c div 4096 = c div 262144 * 64 + c div 4096 mod 64"
    using div_mult_mod_eq [of "c div 4096" 64] by (simp add: div_mult2_eq [symmetric])
  show 4: "c = c div 4096 * 4096 + c div 64 mod 64 * 64 + c mod 64" using 1 2 by linarith
  show "c = c div 262144 * 262144 + c div 4096 mod 64 * 4096 + c div 64 mod 64 * 64 + c mod 64"
    using 4 3 by linarith
qed

lemma utf8_char_decode:
  assumes "scalar c" and "utf8_char c = Inr b"
  shows "utf8_decode sp (b @ r) = bindE (utf8_decode sp r) (\<lambda>s. Inr (c # s))"
proof -
  have c: "c < 1114112" "\<not> is_high c" "\<not> is_low c" using assms(1) by (auto simp: scalar_def)
  consider "c < 128" | "128 \<le> c" "c < 2048" | "2048 \<le> c" "c < 65536" | "65536 \<le> c" by linarith
  then show ?thesis
  proof cases
    case 1
    with assms(2) show ?thesis by (auto simp: utf8_char_def unat_byte)
  next
    case 2
    have q: "2 \<le> c div 64" "c div 64 < 32"
      using 2 by (auto simp: less_eq_div_iff_mult_less_eq div_less_iff_less_mult)
    from assms(2) 2(2) leD [OF 2(1)] have "b = [of_nat (192 + c div 64), of_nat (128 + c mod 64)]"
      unfolding utf8_char_def by simp
    then show ?thesis using utf8_decode_2 [OF q(2) _ _ q(1), of "c mod 64" c] by simp
  next
    case 3
    then have q: "c div 4096 < 16" by (simp add: div_less_iff_less_mult)
    have m: "c div 64 mod 64 < 64" "c mod 64 < 64" by simp_all
    note v = base64_digits(1) [of c]
    from assms(2) 3 c have "b = [of_nat (224 + c div 4096), of_nat (128 + c div 64 mod 64), of_nat (128 + c mod 64)]"
      by (simp add: utf8_char_def)
    then show ?thesis using utf8_decode_3 [OF q m v 3(1) c(2,3)] by simp
  next
    case 4
    with c(1) have q: "c div 262144 < 5" by (simp add: div_less_iff_less_mult)
    have m: "c div 4096 mod 64 < 64" "c div 64 mod 64 < 64" "c mod 64 < 64" by simp_all
    note v = base64_digits(2) [of c]
    from assms(2) 4 c have "b = [of_nat (240 + c div 262144), of_nat (128 + c div 4096 mod 64),
        of_nat (128 + c div 64 mod 64), of_nat (128 + c mod 64)]"
      by (simp add: utf8_char_def)
    then show ?thesis using utf8_decode_4 [OF q m v 4 c(1)] by simp
  qed
qed

lemma utf8_char_total: "scalar c \<Longrightarrow> \<exists>b. utf8_char c = Inr b"
  by (auto simp: utf8_char_def scalar_def)

lemma utf8_roundtrip: "valid_str s \<Longrightarrow> \<exists>b. utf8_encode s = Inr b \<and> (\<forall>sp r. utf8_decode sp (b @ r) = bindE (utf8_decode sp r) (\<lambda>t. Inr (s @ t)))"
proof (induction s)
  case (Cons c s)
  then obtain b where b: "utf8_encode s = Inr b" "\<forall>sp r. utf8_decode sp (b @ r) = bindE (utf8_decode sp r) (\<lambda>t. Inr (s @ t))"
    by auto
  from Cons.prems obtain a where a: "utf8_char c = Inr a" using utf8_char_total by auto
  from b(1) have "utf8_encode (c # s) = Inr (a @ b)"
    using a by (auto simp: utf8_encode_def bindE_eq_Inr)
  then show ?case using utf8_char_decode [OF _ a] Cons.prems b(2) by (auto simp: bindE_assoc)
qed (auto simp: utf8_encode_def bindE_def split: sum.split)

end
