(* ===== verification/Dit_Rows.thy ===== *)
theory Dit_Rows
  imports Dit_Text "HOL-Library.Sublist"
begin

text \<open>
  Rows of a data set: \<open>src/dit/core/hash.py\<close>, \<open>src/dit/utils/jsonl.py\<close> and
  \<open>src/dit/core/workspace.py\<close>. A working tree is an association list from paths below the root
  (lists of components) to the contents of the regular files; a directory is a proper prefix of
  a path. RFC 8785 serialization is the package \<open>jcs\<close>, the field \<open>canonicalize\<close> of \<open>env\<close>.
\<close>

section \<open>Hashing\<close>

definition canonical_json :: "env \<Rightarrow> json \<Rightarrow> bytes res" where
  "canonical_json E v = canonicalize E v"

definition hash_row :: "env \<Rightarrow> json \<Rightarrow> pystr res" where
  "hash_row E v = bindE (canonical_json E v) (\<lambda>b. Inr (sha256 E b))"

text \<open>Iterating over a JSON value, and \<open>m.get(k)\<close>, \<open>k in m\<close>, \<open>m[k]\<close> for one of its elements.\<close>

fun json_iter :: "json \<Rightarrow> json list res" where
  "json_iter (JArr vs) = Inr vs"
| "json_iter (JObj kvs) = Inr (map (\<lambda>kv. JStr (fst kv)) kvs)"
| "json_iter (JStr s) = Inr (map (\<lambda>c. JStr [c]) s)"
| "json_iter _ = Inl TypeError"

fun user_content :: "json \<Rightarrow> json list res" where
  "user_content (JObj kvs) =
     Inr (if map_of kvs (str ''role'') = Some (JStr (str ''user''))
          then (case map_of kvs (str ''content'') of None \<Rightarrow> [] | Some v \<Rightarrow> [v]) else [])"
| "user_content _ = Inl AttributeError"

text \<open>\<open>"\n".join(values)\<close>: an item that is no string is a TypeError.\<close>

fun join_item :: "json \<Rightarrow> pystr res" where
  "join_item (JStr s) = Inr s"
| "join_item _ = Inl TypeError"

definition fingerprint_of :: "env \<Rightarrow> json \<Rightarrow> pystr option res" where
  "fingerprint_of E conv =
     (case conv of
        JObj kvs \<Rightarrow>
          bindE (json_iter (case map_of kvs (str ''messages'') of None \<Rightarrow> JArr [] | Some v \<Rightarrow> v)) (\<lambda>messages.
          bindE (mapE user_content messages) (\<lambda>css.
            let user_contents = concat css in
            if user_contents = [] then Inr None
            else bindE (mapE join_item user_contents) (\<lambda>ss.
                 bindE (utf8_encode (join_with 10 ss)) (\<lambda>b. Inr (Some (sha256 E b))))))
      | _ \<Rightarrow> Inl AttributeError)"

section \<open>JSON lines\<close>

definition parse_line :: "pystr \<Rightarrow> json res" where
  "parse_line s = (case json_loads s of Inl e \<Rightarrow> Inl (if e = JSONDecodeError then ValueError else e) | Inr v \<Rightarrow> Inr v)"

definition row_lines :: "pystr \<Rightarrow> pystr list" where
  "row_lines t = filter (\<lambda>s. s \<noteq> []) (map py_strip (split_at 10 (newlines t)))"

definition read_rows :: "bytes \<Rightarrow> json list res" where
  "read_rows content = bindE (utf8_decode False content) (\<lambda>t. mapE parse_line (row_lines t))"

text \<open>\<open>write_rows\<close> prints with \<open>json.dumps(row, ensure_ascii=False)\<close>, a parameter here.\<close>

definition write_rows :: "(json \<Rightarrow> pystr) \<Rightarrow> json list \<Rightarrow> bytes res" where
  "write_rows dumps rows = utf8_encode (concat (map (\<lambda>r. dumps r @ [10]) rows))"

section \<open>Files of the working tree\<close>

type_synonym wtree = "(pystr list \<times> bytes) list"

definition jsonl_name :: "pystr \<Rightarrow> bool" where
  "jsonl_name n \<longleftrightarrow> suffix (str ''.jsonl'') n"

definition tree_paths :: "wtree \<Rightarrow> pystr list list" where
  "tree_paths w = remdups (filter (\<lambda>p. p \<noteq> []) (concat (map (prefixes o fst) w)))"

definition find_jsonl_files :: "pystr list \<Rightarrow> wtree \<Rightarrow> pystr list list" where
  "find_jsonl_files root w =
     filter (\<lambda>p. str ''.dit'' \<notin> set (root @ p)) (sort (filter (\<lambda>p. jsonl_name (last p)) (tree_paths w)))"

text \<open>\<open>p.suffix == ".jsonl"\<close>: a name that starts with its only dot has no suffix.\<close>

definition jsonl_suffix :: "pystr \<Rightarrow> bool" where
  "jsonl_suffix n \<longleftrightarrow> suffix (str ''.jsonl'') n \<and> n \<noteq> str ''.jsonl''"

definition find_all_files :: "pystr list \<Rightarrow> wtree \<Rightarrow> pystr list list \<times> pystr list list" where
  "find_all_files root w =
     (let ps = filter (\<lambda>p. str ''.dit'' \<notin> set (root @ p) \<and> map_of w p \<noteq> None) (sort (tree_paths w)) in
      (filter (\<lambda>p. jsonl_suffix (last p)) ps, filter (\<lambda>p. \<not> jsonl_suffix (last p)) ps))"

definition build_blob_for_file :: "wtree \<Rightarrow> pystr list \<Rightarrow> bytes res" where
  "build_blob_for_file w p = (case map_of w p of None \<Rightarrow> Inl FileNotFoundError | Some b \<Rightarrow> Inr b)"

section \<open>Manifests of files\<close>

definition manifest_step :: "env \<Rightarrow> json \<Rightarrow> manifest_entry list \<times> bytes dict \<Rightarrow> (manifest_entry list \<times> bytes dict) res" where
  "manifest_step E row acc =
     (let (es, row_data) = acc in
      bindE (canonical_json E row) (\<lambda>canon.
      bindE (hash_row E row) (\<lambda>rh.
      bindE (fingerprint_of E row) (\<lambda>qfp.
        Inr (es @ [\<lparr>row_hash = rh, query_fingerprint = qfp\<rparr>], AList.update rh canon row_data)))))"

definition build_manifest_for_file :: "env \<Rightarrow> bytes \<Rightarrow> (manifest \<times> bytes dict) res" where
  "build_manifest_for_file E content =
     bindE (read_rows content) (\<lambda>rows.
     bindE (foldE (manifest_step E) rows ([], [])) (\<lambda>(es, row_data). Inr (\<lparr>entries = es\<rparr>, row_data)))"

text \<open>
  The streaming variant; \<open>n\<close> is \<open>BATCH_SIZE\<close>. On an exception the code leaves in the store the
  batches it has flushed, which the result \<open>Inl\<close> does not show.
\<close>

definition batch_size :: nat where "batch_size = 1000"

type_synonym stream_state = "disk \<times> manifest_entry list \<times> bytes list \<times> pystr option list"

definition stream_flush :: "env \<Rightarrow> stream_state \<Rightarrow> stream_state res" where
  "stream_flush E st =
     (let (d, es, row_buffer, qfp_buffer) = st in
      bindE (write_batch E d (str ''rows'') row_buffer) (\<lambda>(hashes, d').
        Inr (d', es @ map2 (\<lambda>rh qfp. \<lparr>row_hash = rh, query_fingerprint = qfp\<rparr>) hashes qfp_buffer, [], [])))"

definition stream_step :: "env \<Rightarrow> nat \<Rightarrow> json \<Rightarrow> stream_state \<Rightarrow> stream_state res" where
  "stream_step E n row st =
     (let (d, es, row_buffer, qfp_buffer) = st in
      bindE (canonical_json E row) (\<lambda>canon.
      bindE (fingerprint_of E row) (\<lambda>qfp.
        let st' = (d, es, row_buffer @ [canon], qfp_buffer @ [qfp]) in
        if n \<le> length (row_buffer @ [canon]) then stream_flush E st' else Inr st')))"

definition build_manifest_streaming :: "env \<Rightarrow> disk \<Rightarrow> bytes \<Rightarrow> (manifest \<times> disk) res" where
  "build_manifest_streaming E d content =
     bindE (read_rows content) (\<lambda>rows.
     bindE (foldE (stream_step E batch_size) rows (d, [], [], [])) (\<lambda>st.
       let (d', es, row_buffer, qfp_buffer) = st in
       bindE (if row_buffer \<noteq> [] then stream_flush E st else Inr st) (\<lambda>(d', es, _).
         Inr (\<lparr>entries = es\<rparr>, d'))))"

section \<open>Writing a file from a manifest\<close>

text \<open>
  The text written before an error stays in the file: the result is the content and the error, if
  there is one.
\<close>

fun materialize_rows :: "env \<Rightarrow> disk \<Rightarrow> manifest_entry list \<Rightarrow> bytes \<times> err option" where
  "materialize_rows E d [] = ([], None)"
| "materialize_rows E d (e # es) =
     (case bindE (must KeyError (store_read E d (str ''rows'') (row_hash e))) (\<lambda>b.
        bindE (utf8_decode False b) (\<lambda>s. utf8_encode (s @ [10]))) of
        Inl x \<Rightarrow> ([], Some x)
      | Inr line \<Rightarrow> (let (content, x) = materialize_rows E d es in (line @ content, x)))"

text \<open>
  A file where a directory of the path should be, or a directory at the path: \<open>mkdir\<close> or \<open>open\<close>
  raises.
\<close>

definition under_file :: "wtree \<Rightarrow> pystr list \<Rightarrow> bool" where
  "under_file w p \<longleftrightarrow> (\<exists>f \<in> fst ` set w. strict_prefix f p)"

definition is_wdir :: "wtree \<Rightarrow> pystr list \<Rightarrow> bool" where
  "is_wdir w p \<longleftrightarrow> (\<exists>f \<in> fst ` set w. strict_prefix p f)"

definition materialize_file :: "env \<Rightarrow> disk \<Rightarrow> wtree \<Rightarrow> pystr \<Rightarrow> manifest \<Rightarrow> wtree \<times> err option" where
  "materialize_file E d w rel_path m =
     (let p = split_slash rel_path in
      if under_file w p \<or> is_wdir w p then (w, Some OSError)
      else let (content, x) = materialize_rows E d (entries m) in (AList.update p content w, x))"

section \<open>Streaming is batching\<close>

text \<open>One row, as both variants compute it.\<close>

definition row_entry :: "env \<Rightarrow> json \<Rightarrow> (bytes \<times> manifest_entry) res" where
  "row_entry E row =
     bindE (canonical_json E row) (\<lambda>b. bindE (fingerprint_of E row) (\<lambda>q.
       Inr (b, \<lparr>row_hash = sha256 E b, query_fingerprint = q\<rparr>)))"

lemma manifest_step_entry:
  "manifest_step E row (es, rd) = bindE (row_entry E row) (\<lambda>(b, e). Inr (es @ [e], AList.update (row_hash e) b rd))"
  by (simp add: manifest_step_def row_entry_def hash_row_def bindE_assoc)
     (cases "canonical_json E row"; simp add: bindE_assoc)

lemma manifest_steps:
  "foldE (manifest_step E) rows (es, rd) =
     bindE (mapE (row_entry E) rows) (\<lambda>xs. Inr (es @ map snd xs, fold (\<lambda>(b, e). AList.update (row_hash e) b) xs rd))"
proof (induction rows arbitrary: es rd)
  case (Cons row rows)
  then show ?case by (cases "row_entry E row") (simp_all add: manifest_step_entry bindE_assoc split_beta)
qed simp

definition hashed :: "env \<Rightarrow> (bytes \<times> manifest_entry) list \<Rightarrow> bool" where
  "hashed E xs \<longleftrightarrow> (\<forall>x \<in> set xs. sha256 E (fst x) = row_hash (snd x))"

lemma hashed_simps [simp]: "hashed E []" "hashed E (xs @ ys) \<longleftrightarrow> hashed E xs \<and> hashed E ys"
  "hashed E (x # xs) \<longleftrightarrow> sha256 E (fst x) = row_hash (snd x) \<and> hashed E xs"
  by (auto simp: hashed_def)

lemma hashed_map: "hashed E xs \<Longrightarrow> map (sha256 E) (map fst xs) = map (row_hash o snd) xs"
  by (auto simp: hashed_def)

lemma row_entries_hash: "mapE (row_entry E) rows = Inr xs \<Longrightarrow> hashed E xs"
  by (induction rows arbitrary: xs) (auto simp: bindE_eq_Inr row_entry_def)

lemma build_manifest_rows:
  "build_manifest_for_file E content =
     bindE (bindE (read_rows content) (mapE (row_entry E))) (\<lambda>xs.
       Inr (\<lparr>entries = map snd xs\<rparr>, fold (\<lambda>(b, e). AList.update (row_hash e) b) xs []))"
  by (simp add: build_manifest_for_file_def manifest_steps bindE_assoc)

text \<open>The entries a flush appends.\<close>

definition buffered :: "(bytes \<times> manifest_entry) list \<Rightarrow> bytes list \<times> pystr option list" where
  "buffered xs = (map fst xs, map (query_fingerprint o snd) xs)"

lemma map2_entries:
  "map2 (\<lambda>rh qfp. \<lparr>row_hash = rh, query_fingerprint = qfp\<rparr>) (map (row_hash o snd) xs) (map (query_fingerprint o snd) xs) = map snd xs"
  by (induction xs) auto

lemma stream_flush_rows:
  assumes "env_ok E" and "hashed E xs"
  shows "stream_flush E (d, es, buffered xs) = Inr (fold (put E ''rows'') (map fst xs) d, es @ map snd xs, [], [])"
  using hashed_map [OF assms(2)] map2_entries [of xs]
  by (simp add: stream_flush_def buffered_def write_batch_each [OF assms(1)] write_each_puts [OF assms(1)] del: map_map)

lemma stream_steps:
  assumes "env_ok E" and "mapE (row_entry E) rows = Inr xs"
    and "hashed E ys"
  shows "\<exists>zs. hashed E zs \<and>
    (\<exists>d' es'. foldE (stream_step E n) rows (d, es, buffered ys) = Inr (d', es', buffered zs) \<and>
      fold (put E ''rows'') (map fst zs) d' = fold (put E ''rows'') (map fst (ys @ xs)) d \<and>
      es' @ map snd zs = es @ map snd (ys @ xs))"
  using assms(2,3)
proof (induction rows arbitrary: d es xs ys)
  case (Cons row rows)
  then obtain b e xs' where row: "row_entry E row = Inr (b, e)" and xs': "mapE (row_entry E) rows = Inr xs'"
    and xs: "xs = (b, e) # xs'" by (auto simp: bindE_eq_Inr)
  have e: "sha256 E b = row_hash e" using row by (auto simp: row_entry_def bindE_eq_Inr)
  let ?ys = "ys @ [(b, e)]"
  have ok: "hashed E ?ys" using Cons.prems(2) e by simp
  have step: "stream_step E n row (d, es, buffered ys) =
      (if n \<le> length ?ys then stream_flush E (d, es, buffered ?ys) else Inr (d, es, buffered ?ys))"
    using row by (auto simp: stream_step_def row_entry_def bindE_eq_Inr buffered_def)
  show ?case
  proof (cases "n \<le> length ?ys")
    case True
    let ?d = "fold (put E ''rows'') (map fst ?ys) d" and ?es = "es @ map snd ?ys"
    have "stream_step E n row (d, es, buffered ys) = Inr (?d, ?es, buffered [])"
      using step True stream_flush_rows [OF assms(1) ok] by (simp add: buffered_def)
    moreover obtain zs d' es' where z: "hashed E zs"
      "foldE (stream_step E n) rows (?d, ?es, buffered []) = Inr (d', es', buffered zs)"
      "fold (put E ''rows'') (map fst zs) d' = fold (put E ''rows'') (map fst ([] @ xs')) ?d"
      "es' @ map snd zs = ?es @ map snd ([] @ xs')"
      using Cons.IH [OF xs', of "[]" ?d ?es] by auto
    ultimately have "foldE (stream_step E n) (row # rows) (d, es, buffered ys) = Inr (d', es', buffered zs)" by simp
    then show ?thesis using z(1,3,4) unfolding xs by (intro exI [of _ zs] conjI exI [of _ d'] exI [of _ es']) simp_all
  next
    case False
    obtain zs d' es' where z: "hashed E zs"
      "foldE (stream_step E n) rows (d, es, buffered ?ys) = Inr (d', es', buffered zs)"
      "fold (put E ''rows'') (map fst zs) d' = fold (put E ''rows'') (map fst (?ys @ xs')) d"
      "es' @ map snd zs = es @ map snd (?ys @ xs')"
      using Cons.IH [OF xs' ok, of d es] by auto
    then have "foldE (stream_step E n) (row # rows) (d, es, buffered ys) = Inr (d', es', buffered zs)"
      using step False by simp
    then show ?thesis using z(1,3,4) unfolding xs by (intro exI [of _ zs] conjI exI [of _ d'] exI [of _ es']) simp_all
  qed
qed auto

lemma stream_steps_error:
  assumes "env_ok E" and "mapE (row_entry E) rows = Inl x"
    and "hashed E ys"
  shows "foldE (stream_step E n) rows (d, es, buffered ys) = Inl x"
  using assms(2,3)
proof (induction rows arbitrary: d es ys)
  case (Cons row rows)
  show ?case
  proof (cases "row_entry E row")
    case (Inl y)
    then have "stream_step E n row (d, es, buffered ys) = Inl y"
      by (auto simp: stream_step_def row_entry_def bindE_eq_Inl buffered_def)
    with Inl Cons.prems(1) show ?thesis by simp
  next
    case (Inr be)
    obtain b e where be: "be = (b, e)" by (cases be)
    have e: "sha256 E b = row_hash e" using Inr be by (auto simp: row_entry_def bindE_eq_Inr)
    let ?ys = "ys @ [(b, e)]"
    have ok: "hashed E ?ys" using Cons.prems(2) e by simp
    have step: "stream_step E n row (d, es, buffered ys) =
        (if n \<le> length ?ys then stream_flush E (d, es, buffered ?ys) else Inr (d, es, buffered ?ys))"
      using Inr be by (auto simp: stream_step_def row_entry_def bindE_eq_Inr buffered_def)
    have rest: "mapE (row_entry E) rows = Inl x" using Cons.prems(1) Inr by (cases "mapE (row_entry E) rows") auto
    have 1: "foldE (stream_step E n) rows (d, es, buffered ?ys) = Inl x" by (rule Cons.IH [OF rest ok])
    have 2: "foldE (stream_step E n) rows (d', es', buffered []) = Inl x" for d' es' by (rule Cons.IH [OF rest]) simp
    show ?thesis using step 1 2 stream_flush_rows [OF assms(1) ok, of d es] by (auto simp: buffered_def)
  qed
qed simp

section \<open>Properties\<close>

text \<open>
  C17: the streaming builder is the in-memory one: it raises the same exception, or returns the same
  manifest and leaves the store as writing the rows of the file one after the other does, whatever
  the size of the batches.
\<close>

theorem streaming_equals_batch:
  assumes "env_ok E"
  shows "case build_manifest_for_file E content of
      Inl x \<Rightarrow> build_manifest_streaming E d content = Inl x
    | Inr (m, row_data) \<Rightarrow> \<exists>canons d'. build_manifest_streaming E d content = Inr (m, d') \<and>
        map (sha256 E) canons = map row_hash (entries m) \<and>
        write_each E d (str ''rows'') canons = Inr (map row_hash (entries m), d') \<and>
        (\<forall>h b. map_of row_data h = Some b \<longrightarrow> b \<in> set canons \<and> sha256 E b = h)"
proof (cases "bindE (read_rows content) (mapE (row_entry E))")
  case (Inl x)
  then consider "read_rows content = Inl x" | rows where "read_rows content = Inr rows" "mapE (row_entry E) rows = Inl x"
    by (auto simp: bindE_eq_Inl)
  then show ?thesis
    using stream_steps_error [OF assms, of _ x "[]" batch_size d "[]"]
    by cases (simp_all add: build_manifest_rows build_manifest_streaming_def buffered_def)
next
  case (Inr xs)
  then obtain rows where rows: "read_rows content = Inr rows" and xs: "mapE (row_entry E) rows = Inr xs"
    by (auto simp: bindE_eq_Inr)
  have hash: "hashed E xs" by (rule row_entries_hash [OF xs])
  obtain zs d1 es1 where z: "hashed E zs"
    "foldE (stream_step E batch_size) rows (d, [], [], []) = Inr (d1, es1, buffered zs)"
    "fold (put E ''rows'') (map fst zs) d1 = fold (put E ''rows'') (map fst xs) d" "es1 @ map snd zs = map snd xs"
    using stream_steps [OF assms xs, of "[]" batch_size d "[]"] by (auto simp: buffered_def)
  let ?d = "fold (put E ''rows'') (map fst xs) d"
  have s: "build_manifest_streaming E d content = Inr (\<lparr>entries = map snd xs\<rparr>, ?d)"
    using z stream_flush_rows [OF assms z(1), of d1 es1]
    by (cases "zs = []") (simp_all add: build_manifest_streaming_def rows buffered_def)
  have "write_each E d (str ''rows'') (map fst xs) = Inr (map (row_hash o snd) xs, ?d)"
    using write_each_puts [OF assms, of d "''rows''" "map fst xs"] hashed_map [OF hash] by (simp del: map_map)
  moreover have "b \<in> fst ` set xs \<and> sha256 E b = h"
    if "map_of (fold (\<lambda>(b, e). AList.update (row_hash e) b) xs []) h = Some b" for h b
  proof -
    have "map_of (fold (\<lambda>(b, e). AList.update (row_hash e) b) ys rd) h = Some b \<Longrightarrow>
      map_of rd h = Some b \<or> (\<exists>e. (b, e) \<in> set ys \<and> row_hash e = h)" for ys rd
      by (induction ys arbitrary: rd) (fastforce simp: update_conv' split: if_splits)+
    with that obtain e where e: "(b, e) \<in> set xs" "row_hash e = h" by fastforce
    with hash show ?thesis by (force simp: hashed_def)
  qed
  moreover have "map (row_hash o snd) xs = map row_hash (map snd xs)" by simp
  ultimately show ?thesis using Inr s hashed_map [OF hash]
    by (auto simp: build_manifest_rows simp del: map_map intro!: exI [of _ "map fst xs"])
qed

lemma demo_line: "json_loads [49] = Inr (JInt 1)"
  using json_loads_dumps [of "JInt 1"] by (simp add: json_dumps_def int_str_def nat_digits.simps)

lemma demo_rows: "read_rows [49, 10] = Inr [JInt 1]"
  by (simp add: read_rows_def row_lines_def py_strip_def py_space_def parse_line_def demo_line Let_def)

theorem streaming_equals_batch_witness:
  "build_manifest_streaming demo_env [] [49, 10] = Inl AttributeError"
proof -
  have "build_manifest_for_file demo_env [49, 10] = Inl AttributeError"
    by (simp add: build_manifest_rows demo_rows row_entry_def fingerprint_of_def canonical_json_def demo_env_def)
  with streaming_equals_batch [OF demo_env_ok, where content = "[49, 10]" and d = "[]"] show ?thesis by simp
qed

section \<open>Equal values have equal fingerprints\<close>

text \<open>The same JSON value, whatever the order of the keys of its objects (no floats).\<close>

definition same_value :: "json \<Rightarrow> json \<Rightarrow> bool" where
  "same_value v w \<longleftrightarrow> wf_json v \<and> wf_json w \<and> sort_keys v = sort_keys w"

lemma sort_keys_JStr [simp]: "sort_keys v = JStr s \<longleftrightarrow> v = JStr s"
  by (cases v) (auto simp: sort_keys.simps)

lemma sorted_lookup:
  "distinct (map fst kvs) \<Longrightarrow>
     map_of (sort_key fst (map (\<lambda>kv. (fst kv, sort_keys (snd kv))) kvs)) k = map_option sort_keys (map_of kvs k)"
  by (simp add: map_of_sort_key wf_dict_def comp_def map_of_map_snd)

lemma wf_json_lookup: "wf_json (JObj kvs) \<Longrightarrow> map_of kvs k = Some v \<Longrightarrow> wf_json v"
  by (force dest: map_of_SomeD)

lemma user_content_sort:
  "wf_json m \<Longrightarrow> user_content (sort_keys m) = bindE (user_content m) (\<lambda>cs. Inr (map sort_keys cs))"
  by (cases m) (auto simp: sort_keys.simps sorted_lookup split: option.split simp del: map_of_eq_Some_iff)

lemma user_contents_sort:
  "\<forall>m \<in> set ms. wf_json m \<Longrightarrow>
     mapE user_content (map sort_keys ms) = bindE (mapE user_content ms) (\<lambda>css. Inr (map (map sort_keys) css))"
proof (induction ms)
  case (Cons m ms)
  then show ?case by (cases "user_content m") (simp_all add: user_content_sort bindE_assoc)
qed simp

lemma mapE_join_sort: "mapE join_item (map sort_keys cs) = mapE join_item cs"
proof (induction cs)
  case (Cons c cs)
  have "join_item (sort_keys c) = join_item c" by (cases c) (simp_all add: sort_keys.simps)
  with Cons show ?case by simp
qed simp

lemma user_content_keys:
  "mapE user_content (map (\<lambda>kv. JStr (fst kv)) kvs) = (if kvs = [] then Inr [] else Inl AttributeError)"
  by (cases kvs) auto

lemma user_contents_iter:
  assumes "wf_json v"
  shows "bindE (json_iter (sort_keys v)) (mapE user_content) =
    bindE (bindE (json_iter v) (mapE user_content)) (\<lambda>css. Inr (map (map sort_keys) css))"
proof (cases v)
  case (JArr vs)
  with assms show ?thesis by (simp add: user_contents_sort)
next
  case (JObj kvs)
  have "sort_key fst (map (\<lambda>kv. (fst kv, sort_keys (snd kv))) kvs) = [] \<longleftrightarrow> kvs = []"
    by (metis length_0_conv length_map length_sort)
  then show ?thesis by (simp add: JObj sort_keys.simps user_content_keys)
next
  case (JStr s)
  then show ?thesis by (cases s) simp_all
qed simp_all

lemma fingerprint_sort:
  assumes "wf_json v"
  shows "fingerprint_of E (sort_keys v) = fingerprint_of E v"
proof (cases v)
  case (JObj kvs)
  define M where "M = (case map_of kvs (str ''messages'') of None \<Rightarrow> JArr [] | Some v \<Rightarrow> v)"
  have M: "wf_json M" using assms JObj wf_json_lookup [of kvs] by (auto simp: M_def split: option.split)
  have d: "distinct (map fst kvs)" using assms JObj by simp
  have sM: "(case map_of (sort_key fst (map (\<lambda>kv. (fst kv, sort_keys (snd kv))) kvs)) (str ''messages'') of
      None \<Rightarrow> JArr [] | Some v \<Rightarrow> v) = sort_keys M"
    unfolding sorted_lookup [OF d] by (simp add: M_def split: option.split)
  let ?K = "\<lambda>css. let user_contents = concat css in
            if user_contents = [] then Inr None
            else bindE (mapE join_item user_contents) (\<lambda>ss.
                 bindE (utf8_encode (join_with 10 ss)) (\<lambda>b. Inr (Some (sha256 E b))))"
  have "fingerprint_of E (sort_keys v) = bindE (bindE (json_iter (sort_keys M)) (mapE user_content)) ?K"
    by (simp add: fingerprint_of_def JObj sort_keys.simps sM bindE_assoc)
  also have "\<dots> = bindE (bindE (json_iter M) (mapE user_content)) ?K"
    unfolding user_contents_iter [OF M] by (simp add: bindE_assoc map_concat [symmetric] mapE_join_sort cong: if_cong)
  also have "\<dots> = fingerprint_of E v" by (simp add: fingerprint_of_def JObj M_def bindE_assoc)
  finally show ?thesis .
qed (simp_all add: fingerprint_of_def)

lemma same_value_fingerprint: "same_value v w \<Longrightarrow> fingerprint_of E v = fingerprint_of E w"
  unfolding same_value_def using fingerprint_sort [of v E] fingerprint_sort [of w E] by simp

section \<open>Checking out, then adding\<close>

text \<open>
  What is documented of \<open>jcs.canonicalize\<close>, for one value: the text is JSON on one line, without
  white space around it, of the same value, and canonicalizes to itself.
\<close>

definition jcs_row :: "env \<Rightarrow> json \<Rightarrow> bool" where
  "jcs_row E v \<longleftrightarrow> (\<forall>b. canonicalize E v = Inr b \<longrightarrow> (\<exists>s v'. valid_str s \<and> utf8_encode s = Inr b \<and>
     10 \<notin> set s \<and> 13 \<notin> set s \<and> s \<noteq> [] \<and> py_strip s = s \<and> json_loads s = Inr v' \<and>
     same_value v v' \<and> canonicalize E v' = Inr b))"

definition text_lines :: "pystr list \<Rightarrow> pystr" where
  "text_lines ss = concat (map (\<lambda>s. s @ [10]) ss)"

lemma newlines_id: "13 \<notin> set s \<Longrightarrow> newlines s = s"
  by (induction s rule: newlines.induct) auto

lemma split_at_line: "c \<notin> set s \<Longrightarrow> split_at c (s @ c # t) = s # split_at c t"
  by (induction s) auto

lemma split_text_lines: "\<forall>s \<in> set ss. 10 \<notin> set s \<Longrightarrow> split_at 10 (text_lines ss) = ss @ [[]]"
  by (induction ss) (auto simp: text_lines_def split_at_line)

lemma row_lines_text:
  assumes "\<forall>s \<in> set ss. 10 \<notin> set s \<and> 13 \<notin> set s \<and> s \<noteq> [] \<and> py_strip s = s"
  shows "row_lines (text_lines ss) = ss"
proof -
  have "13 \<notin> set (text_lines ss)" using assms by (auto simp: text_lines_def)
  moreover have "map py_strip ss = ss" using assms by (simp add: map_idI)
  moreover have "filter (\<lambda>s. s \<noteq> []) ss = ss" using assms by (simp add: filter_id_conv)
  ultimately show ?thesis
    using assms by (simp add: row_lines_def newlines_id split_text_lines py_strip_def)
qed

lemma utf8_encode_append:
  "utf8_encode s = Inr a \<Longrightarrow> utf8_encode t = Inr b \<Longrightarrow> utf8_encode (s @ t) = Inr (a @ b)"
proof (induction s arbitrary: a)
  case (Cons c s)
  then obtain x y where "utf8_char c = Inr x" "utf8_encode s = Inr y" "a = x @ y"
    by (auto simp: utf8_encode_def bindE_eq_Inr)
  with Cons.IH [of y] Cons.prems(2) show ?case by (auto simp: utf8_encode_def bindE_eq_Inr)
qed (simp add: utf8_encode_def)

lemma materialize_rebuild:
  assumes "mapE (row_entry E) rows = Inr xs" and "\<forall>v \<in> set rows. jcs_row E v"
    and "\<forall>x \<in> set xs. store_read E d (str ''rows'') (row_hash (snd x)) = Inr (Some (fst x))"
  shows "\<exists>ss rows' c. valid_str (text_lines ss) \<and> utf8_encode (text_lines ss) = Inr c \<and>
    materialize_rows E d (map snd xs) = (c, None) \<and>
    (\<forall>s \<in> set ss. 10 \<notin> set s \<and> 13 \<notin> set s \<and> s \<noteq> [] \<and> py_strip s = s) \<and>
    mapE parse_line ss = Inr rows' \<and> mapE (row_entry E) rows' = Inr xs"
  using assms
proof (induction rows arbitrary: xs)
  case Nil
  then have "valid_str (text_lines [])" "utf8_encode (text_lines []) = Inr []" "xs = []"
    by (simp_all add: text_lines_def utf8_encode_def)
  then show ?case by (intro exI [of _ "[]"]) simp
next
  case (Cons v rows)
  then obtain b e xs' where v: "row_entry E v = Inr (b, e)" and rest: "mapE (row_entry E) rows = Inr xs'"
    and xs: "xs = (b, e) # xs'" by (auto simp: bindE_eq_Inr)
  obtain ss rows' c where IH: "valid_str (text_lines ss)" "utf8_encode (text_lines ss) = Inr c"
    "materialize_rows E d (map snd xs') = (c, None)"
    "\<forall>s \<in> set ss. 10 \<notin> set s \<and> 13 \<notin> set s \<and> s \<noteq> [] \<and> py_strip s = s"
    "mapE parse_line ss = Inr rows'" "mapE (row_entry E) rows' = Inr xs'"
    using Cons.IH [OF rest] Cons.prems(2,3) xs by auto
  have canon: "canonicalize E v = Inr b" using v by (auto simp: row_entry_def canonical_json_def bindE_eq_Inr)
  with Cons.prems(2) obtain s v' where s: "valid_str s" "utf8_encode s = Inr b" "10 \<notin> set s" "13 \<notin> set s" "s \<noteq> []"
    "py_strip s = s" "json_loads s = Inr v'" "same_value v v'" "canonicalize E v' = Inr b"
    unfolding jcs_row_def by fastforce
  have "utf8_encode [10] = Inr [10]" by (simp add: utf8_encode_def utf8_char_def)
  from utf8_encode_append [OF s(2) this] have line: "utf8_encode (s @ [10]) = Inr (b @ [10])" .
  have dec: "utf8_decode False b = Inr s" using utf8_roundtrip [OF s(1)] s(2) by (metis append_Nil2 bindE_simps(2) sum.inject(2) utf8_decode.simps(1))
  have "row_entry E v' = Inr (b, e)"
    using v s(9) canon same_value_fingerprint [OF s(8)] by (simp add: row_entry_def canonical_json_def)
  moreover have "materialize_rows E d (map snd xs) = ((b @ [10]) @ c, None)"
    using Cons.prems(3) IH(3) dec line by (simp add: xs)
  moreover have "utf8_encode (text_lines (s # ss)) = Inr ((b @ [10]) @ c)"
    using utf8_encode_append [OF line IH(2)] by (simp add: text_lines_def)
  moreover have "valid_str (text_lines (s # ss))"
    using IH(1) s(1) by (auto simp: text_lines_def valid_str_def scalar_def is_high_def is_low_def)
  moreover have "mapE parse_line (s # ss) = Inr (v' # rows')" using s(7) IH(5) by (simp add: parse_line_def)
  ultimately show ?case using IH(4,6) s(3-6) xs
    by (intro exI [of _ "s # ss"] exI [of _ "v' # rows'"] exI [of _ "(b @ [10]) @ c"]) simp
qed

lemma row_data_lookup:
  assumes "hashed E xs" and "inj_on (sha256 E) (fst ` set xs)" and "x \<in> set xs"
  shows "map_of (fold (\<lambda>(b, e). AList.update (row_hash e) b) xs rd) (row_hash (snd x)) = Some (fst x)"
  using assms
proof (induction xs arbitrary: rd rule: rev_induct)
  case (snoc y xs)
  show ?case
  proof (cases "row_hash (snd x) = row_hash (snd y)")
    case True
    with snoc.prems have "sha256 E (fst x) = sha256 E (fst y)" by (auto simp: hashed_def)
    then have "fst x = fst y" using inj_onD [OF snoc.prems(2), of "fst x" "fst y"] snoc.prems(3) by auto
    with True show ?thesis by (simp add: split_beta update_conv')
  next
    case False
    then have "x \<in> set xs" using snoc.prems(3) by auto
    with snoc.IH [of rd] snoc.prems(1,2) False show ?thesis
      by (auto simp: split_beta update_conv' inj_on_def)
  qed
qed simp


lemma demo_object: "json_loads [123, 125] = Inr (JObj [])" "json_encode (JObj []) = [123, 125]"
  using json_loads_dumps [of "JObj []"] by (simp_all add: json_encode_def json_dumps_def ascii_encode_def sort_keys.simps)

lemma demo_jcs: "jcs_row demo_env (JObj [])"
  unfolding jcs_row_def demo_env_def
  by (auto simp: demo_object utf8_encode_def utf8_char_def py_strip_def py_space_def same_value_def
      valid_str_def scalar_def is_high_def is_low_def intro!: exI [of _ "[123, 125]"] exI [of _ "JObj []"])


end
