(* ===== verification/Dit_Sidecar.thy ===== *)
theory Dit_Sidecar
  imports Dit_Rows Dit_Tree
begin

text \<open>
  \<open>src/dit/core/sidecar.py\<close>: per-row metadata of a manifest and their summary. The average the
  summary holds is the float \<open>round(n / d, 2)\<close>; it is kept as the pair \<open>(n, d)\<close>.
\<close>

section \<open>The longest string and the language of a row\<close>

definition longer :: "pystr option \<Rightarrow> pystr option \<Rightarrow> pystr option" where
  "longer candidate longest =
     (case candidate of
        None \<Rightarrow> longest
      | Some c \<Rightarrow> (case longest of None \<Rightarrow> Some c
                  | Some l \<Rightarrow> if length l < length c then Some c else longest))"

fun find_longest_string :: "json \<Rightarrow> pystr option" where
  "find_longest_string (JStr s) = Some s"
| "find_longest_string (JObj kvs) = fold longer (map (\<lambda>kv. find_longest_string (snd kv)) kvs) None"
| "find_longest_string (JArr vs) = fold longer (map find_longest_string vs) None"
| "find_longest_string _ = None"

definition is_cjk :: "nat \<Rightarrow> bool" where
  "is_cjk cp \<longleftrightarrow> 19968 \<le> cp \<and> cp \<le> 40959 \<or> 13312 \<le> cp \<and> cp \<le> 19903 \<or>
     131072 \<le> cp \<and> cp \<le> 173791 \<or> 12288 \<le> cp \<and> cp \<le> 12351 \<or> 65280 \<le> cp \<and> cp \<le> 65519"

fun lang_of_chars :: "pystr \<Rightarrow> pystr" where
  "lang_of_chars [] = str ''en''"
| "lang_of_chars (cp # s) =
     (if is_cjk cp then str ''zh''
      else if 1024 \<le> cp \<and> cp \<le> 1279 then str ''ru''
      else if 1536 \<le> cp \<and> cp \<le> 1791 then str ''ar''
      else lang_of_chars s)"

definition detect_lang :: "json \<Rightarrow> pystr option" where
  "detect_lang parsed =
     (case find_longest_string parsed of
        None \<Rightarrow> None
      | Some longest \<Rightarrow> if length longest < 10 then None else Some (lang_of_chars longest))"

section \<open>Sidecars\<close>

definition sidecar_row :: "env \<Rightarrow> disk \<Rightarrow> manifest_entry \<Rightarrow> sidecar_entry res" where
  "sidecar_row E d me =
     bindE (must ValueError (store_read E d (str ''rows'') (row_hash me))) (\<lambda>row_bytes.
     bindE (utf8_decode False row_bytes) (\<lambda>row_text.
     bindE (json_loads row_text) (\<lambda>parsed.
       let char_count = int (length row_text) in
       Inr \<lparr>sc_row_hash = row_hash me, char_count = char_count, token_estimate = char_count div 4,
            field_count = (case parsed of JObj kvs \<Rightarrow> int (length kvs) | _ \<Rightarrow> 0),
            lang = (case parsed of JObj kvs \<Rightarrow> detect_lang parsed | _ \<Rightarrow> None)\<rparr>)))"

definition compute_sidecar :: "env \<Rightarrow> disk \<Rightarrow> pystr \<Rightarrow> sidecar res" where
  "compute_sidecar E d manifest_hash =
     bindE (must ValueError (read_manifest E d manifest_hash)) (\<lambda>m.
     bindE (mapE (sidecar_row E d) (entries m)) (\<lambda>es.
       Inr \<lparr>sc_manifest_hash = manifest_hash, sc_entries = es\<rparr>))"

record summary_info =
  sum_rows :: int
  sum_chars :: int
  sum_tokens :: int
  avg_fields :: "int \<times> int"
  lang_distribution :: "int dict"

definition count_lang :: "sidecar_entry \<Rightarrow> int dict \<Rightarrow> int dict" where
  "count_lang e counts =
     (let k = (if truthy (lang e) then the (lang e) else str ''unknown'') in
      AList.update k ((case map_of counts k of None \<Rightarrow> 0 | Some n \<Rightarrow> n) + 1) counts)"

definition sidecar_summary :: "sidecar \<Rightarrow> summary_info" where
  "sidecar_summary s =
     (let es = sc_entries s in
      if es = [] then \<lparr>sum_rows = 0, sum_chars = 0, sum_tokens = 0, avg_fields = (0, 1), lang_distribution = []\<rparr>
      else \<lparr>sum_rows = int (length es), sum_chars = sum_list (map char_count es),
            sum_tokens = sum_list (map token_estimate es),
            avg_fields = (sum_list (map field_count es), int (length es)),
            lang_distribution = fold count_lang es []\<rparr>)"

section \<open>The parts of a summary\<close>

lemma wf_count_lang: "wf_dict c \<Longrightarrow> wf_dict (fold count_lang es c)"
  by (induction es arbitrary: c) (simp_all add: count_lang_def Let_def)

definition dict_total :: "int dict \<Rightarrow> int" where
  "dict_total c = sum_list (map snd c)"

lemma dict_total_update:
  "wf_dict c \<Longrightarrow> dict_total (AList.update k v c) =
     dict_total c - (case map_of c k of None \<Rightarrow> 0 | Some n \<Rightarrow> n) + v"
proof (induction c)
  case (Cons p c)
  obtain l n where p: "p = (l, n)" by (cases p)
  show ?case
  proof (cases "k = l")
    case True
    with Cons.prems show ?thesis by (auto simp: p dict_total_def wf_dict_Cons)
  next
    case False
    with Cons p show ?thesis by (auto simp: dict_total_def wf_dict_Cons)
  qed
qed (simp add: dict_total_def)

lemma count_lang_total: "wf_dict c \<Longrightarrow> dict_total (fold count_lang es c) = dict_total c + int (length es)"
  by (induction es arbitrary: c) (auto simp: count_lang_def Let_def dict_total_update split: option.split)

lemma fold_longer_some:
  "fold longer cs acc = Some s \<Longrightarrow> Some s = acc \<or> Some s \<in> set cs"
proof (induction cs arbitrary: acc)
  case (Cons c cs)
  then have "Some s = longer c acc \<or> Some s \<in> set cs" by simp
  moreover have "longer c acc = acc \<or> longer c acc = c" by (auto simp: longer_def split: option.split)
  ultimately show ?case by auto
qed simp

lemma fold_longer_max:
  "Some t = acc \<or> Some t \<in> set cs \<Longrightarrow> \<exists>s. fold longer cs acc = Some s \<and> length t \<le> length s"
proof (induction cs arbitrary: acc)
  case (Cons c cs)
  have "\<exists>u. longer c acc = Some u \<and> length t \<le> length u" if "Some t = acc \<or> Some t = c"
    using that by (auto simp: longer_def split: option.split)
  note first = this
  show ?case
  proof (cases "Some t \<in> set cs")
    case True
    then show ?thesis using Cons.IH [of "longer c acc"] by simp
  next
    case False
    with Cons.prems first obtain u where u: "longer c acc = Some u" "length t \<le> length u" by auto
    have "\<exists>s. fold longer cs (Some u) = Some s \<and> length u \<le> length s" for u
    proof (induction cs arbitrary: u)
      case (Cons c cs)
      have "\<exists>w. longer c (Some u) = Some w \<and> length u \<le> length w"
        by (auto simp: longer_def split: option.split)
      then obtain w where w: "longer c (Some u) = Some w" "length u \<le> length w" by blast
      from Cons [of w] obtain s where "fold longer cs (Some w) = Some s" "length w \<le> length s" by blast
      with w show ?case by auto
    qed simp
    with u show ?thesis by (metis fold_simps(2) order_trans)
  qed
qed auto

text \<open>The strings of a value, at any depth.\<close>

fun strings_of :: "json \<Rightarrow> pystr set" where
  "strings_of (JStr s) = {s}"
| "strings_of (JObj kvs) = (\<Union>kv \<in> set kvs. strings_of (snd kv))"
| "strings_of (JArr vs) = (\<Union>v \<in> set vs. strings_of v)"
| "strings_of _ = {}"

lemma find_longest_correct:
  "case find_longest_string v of None \<Rightarrow> strings_of v = {}
   | Some s \<Rightarrow> s \<in> strings_of v \<and> (\<forall>t \<in> strings_of v. length t \<le> length s)"
proof -
  have *: "(case fold longer (map find_longest_string vs) None of None \<Rightarrow> (\<Union>v \<in> set vs. strings_of v) = {}
     | Some s \<Rightarrow> s \<in> (\<Union>v \<in> set vs. strings_of v) \<and> (\<forall>t \<in> (\<Union>v \<in> set vs. strings_of v). length t \<le> length s))"
    if IH: "\<And>v. v \<in> set vs \<Longrightarrow> case find_longest_string v of None \<Rightarrow> strings_of v = {}
     | Some s \<Rightarrow> s \<in> strings_of v \<and> (\<forall>t \<in> strings_of v. length t \<le> length s)" for vs
  proof (cases "fold longer (map find_longest_string vs) None")
    case None
    have "find_longest_string v = None" if "v \<in> set vs" for v
    proof (rule ccontr)
      assume "find_longest_string v \<noteq> None"
      then obtain t where "find_longest_string v = Some t" by blast
      then have "Some t \<in> set (map find_longest_string vs)" using that by force
      with None fold_longer_max [of t None "map find_longest_string vs"] show False by simp
    qed
    with IH None show ?thesis by fastforce
  next
    case (Some s)
    from fold_longer_some [OF Some] obtain w where w: "w \<in> set vs" "find_longest_string w = Some s" by fastforce
    have "length t \<le> length s" if t: "v \<in> set vs" "t \<in> strings_of v" for t v
    proof -
      obtain u where u: "find_longest_string v = Some u" "length t \<le> length u"
        using IH [OF t(1)] t(2) by (auto split: option.splits)
      then have "Some u \<in> set (map find_longest_string vs)" using t(1) by force
      then show ?thesis using fold_longer_max [of u None "map find_longest_string vs"] Some u(2) by fastforce
    qed
    with Some w IH [OF w(1)] show ?thesis by auto
  qed
  show ?thesis
  proof (induction v)
    case (JArr vs)
    then show ?case unfolding find_longest_string.simps strings_of.simps by (rule *)
  next
    case (JObj kvs)
    have 1: "map (\<lambda>kv. find_longest_string (snd kv)) kvs = map find_longest_string (map snd kvs)"
      and 2: "(\<Union>kv \<in> set kvs. strings_of (snd kv)) = (\<Union>v \<in> set (map snd kvs). strings_of v)" by simp_all
    show ?case unfolding find_longest_string.simps strings_of.simps 1 2
    proof (rule *)
      fix v assume "v \<in> set (map snd kvs)"
      then obtain kv where "kv \<in> set kvs" "v \<in> Basic_BNFs.snds kv" by (force simp: snds.simps)
      then show "case find_longest_string v of None \<Rightarrow> strings_of v = {}
        | Some s \<Rightarrow> s \<in> strings_of v \<and> (\<forall>t \<in> strings_of v. length t \<le> length s)" by (rule JObj)
    qed
  qed simp_all
qed

section \<open>Properties\<close>

text \<open>
  C19: a sidecar has one entry for each row of its manifest, in the same order, and each entry
  describes the stored row: its length in characters, a quarter of it (rounded down) as its token
  estimate, and as its language the one told by the longest string in it, if that has ten
  characters. The summary of any sidecar counts every row once in the distribution of languages,
  and the token estimate of a computed one is within one per row of a quarter of the characters.
\<close>

theorem sidecar_bounds:
  assumes "compute_sidecar E d h = Inr s"
  shows "\<exists>m. read_manifest E d h = Inr (Some m) \<and> map sc_row_hash (sc_entries s) = map row_hash (entries m) \<and>
    (\<forall>e \<in> set (sc_entries s). \<exists>b t v. store_read E d (str ''rows'') (sc_row_hash e) = Inr (Some b) \<and>
       utf8_decode False b = Inr t \<and> json_loads t = Inr v \<and> char_count e = int (length t) \<and>
       4 * token_estimate e \<le> char_count e \<and> char_count e < 4 * token_estimate e + 4 \<and> 0 \<le> field_count e \<and>
       (\<forall>l. lang e = Some l \<longrightarrow> (\<exists>u \<in> strings_of v. 10 \<le> length u \<and> l = lang_of_chars u \<and>
          (\<forall>w \<in> strings_of v. length w \<le> length u)))) \<and>
    sum_rows (sidecar_summary s) = int (length (entries m)) \<and>
    dict_total (lang_distribution (sidecar_summary s)) = sum_rows (sidecar_summary s) \<and>
    4 * sum_tokens (sidecar_summary s) \<le> sum_chars (sidecar_summary s) \<and>
    sum_chars (sidecar_summary s) \<le> 4 * sum_tokens (sidecar_summary s) + 3 * sum_rows (sidecar_summary s)"
proof -
  from assms obtain m es where m: "read_manifest E d h = Inr (Some m)" and es: "mapE (sidecar_row E d) (entries m) = Inr es"
    and s: "s = \<lparr>sc_manifest_hash = h, sc_entries = es\<rparr>"
    by (auto simp: compute_sidecar_def bindE_eq_Inr must_Inr)
  have rel: "list_all2 (\<lambda>x y. sidecar_row E d x = Inr y) (entries m) es" using es by (simp add: mapE_eq_Inr)
  have hash: "map sc_row_hash es = map row_hash (entries m)"
    using rel by (induction rule: list_all2_induct) (auto simp: sidecar_row_def bindE_eq_Inr Let_def)
  have row: "\<exists>b t v. store_read E d (str ''rows'') (sc_row_hash e) = Inr (Some b) \<and>
       utf8_decode False b = Inr t \<and> json_loads t = Inr v \<and> char_count e = int (length t) \<and>
       token_estimate e = char_count e div 4 \<and> 0 \<le> field_count e \<and>
       (\<forall>l. lang e = Some l \<longrightarrow> detect_lang v = Some l)" if "e \<in> set es" for e
  proof -
    from list_all2_setD2 [OF rel that] obtain me where "sidecar_row E d me = Inr e" by blast
    then show ?thesis
      by (auto simp: sidecar_row_def bindE_eq_Inr must_Inr Let_def split: json.splits)
  qed
  have tok: "4 * token_estimate e \<le> char_count e \<and> char_count e < 4 * token_estimate e + 4" if "e \<in> set es" for e
    using row [OF that] by auto
  have lang: "\<exists>u \<in> strings_of v. 10 \<le> length u \<and> l = lang_of_chars u \<and> (\<forall>w \<in> strings_of v. length w \<le> length u)"
    if "detect_lang v = Some l" for v l
    using that find_longest_correct [of v] unfolding detect_lang_def
    by (cases "find_longest_string v") (auto split: if_splits intro!: bexI)
  have sums: "4 * sum_list (map token_estimate xs) \<le> sum_list (map char_count xs) \<and>
      sum_list (map char_count xs) \<le> 4 * sum_list (map token_estimate xs) + 3 * int (length xs)"
    if "set xs \<subseteq> set es" for xs
    using that by (induction xs) (use tok in \<open>fastforce+\<close>)
  have len: "length es = length (entries m)" using rel by (simp add: list_all2_lengthD)
  show ?thesis
  proof (intro exI [of _ m] conjI ballI)
    show "read_manifest E d h = Inr (Some m)" by (rule m)
    show "map sc_row_hash (sc_entries s) = map row_hash (entries m)" using hash s by simp
    show "\<exists>b t v. store_read E d (str ''rows'') (sc_row_hash e) = Inr (Some b) \<and>
       utf8_decode False b = Inr t \<and> json_loads t = Inr v \<and> char_count e = int (length t) \<and>
       4 * token_estimate e \<le> char_count e \<and> char_count e < 4 * token_estimate e + 4 \<and> 0 \<le> field_count e \<and>
       (\<forall>l. lang e = Some l \<longrightarrow> (\<exists>u \<in> strings_of v. 10 \<le> length u \<and> l = lang_of_chars u \<and>
          (\<forall>w \<in> strings_of v. length w \<le> length u)))" if "e \<in> set (sc_entries s)" for e
      using row [of e] tok [of e] lang that s by (simp, blast)
    show "sum_rows (sidecar_summary s) = int (length (entries m))"
      using len by (auto simp: s sidecar_summary_def Let_def)
    show "dict_total (lang_distribution (sidecar_summary s)) = sum_rows (sidecar_summary s)"
      by (simp add: s sidecar_summary_def Let_def count_lang_total) (simp add: dict_total_def)
    show "4 * sum_tokens (sidecar_summary s) \<le> sum_chars (sidecar_summary s)"
      and "sum_chars (sidecar_summary s) \<le> 4 * sum_tokens (sidecar_summary s) + 3 * sum_rows (sidecar_summary s)"
      using sums [of es] by (simp_all add: s sidecar_summary_def Let_def)
  qed
qed

text \<open>A store with one row, \<open>{}\<close>, and its manifest.\<close>

definition demo_manifest :: manifest where
  "demo_manifest = \<lparr>entries = [\<lparr>row_hash = demo_digest [123, 125], query_fingerprint = None\<rparr>]\<rparr>"

definition demo_rows_disk :: disk where
  "demo_rows_disk = put demo_env ''rows'' [123, 125] (put demo_env ''manifests'' (serialize_manifest demo_manifest) [])"

lemma demo_rows_read:
  "store_read demo_env demo_rows_disk (str ''rows'') (demo_digest [123, 125]) = Inr (Some [123, 125])"
  "read_manifest demo_env demo_rows_disk (demo_digest (serialize_manifest demo_manifest)) = Inr (Some demo_manifest)"
proof -
  let ?d = "put demo_env ''manifests'' (serialize_manifest demo_manifest) []"
  have "collision_free demo_env ?d ''rows'' [[123, 125]]"
    by (simp add: collision_free_def stored_def put_read_other) (simp add: store_read_Some)
  with put_read [of demo_env ?d "''rows''" "[123, 125]"] put_inv [of demo_env "[]"]
  show "store_read demo_env demo_rows_disk (str ''rows'') (demo_digest [123, 125]) = Inr (Some [123, 125])"
    by (simp add: demo_rows_disk_def demo_env_ok)
  have "hex_digest (demo_digest [123, 125])" using env_okD(1) [OF demo_env_ok, of "[123, 125]"] by simp
  then have v: "valid_str (demo_digest [123, 125])" by (rule hex_digest_valid)
  have "store_read demo_env ?d (str ''manifests'') (demo_digest (serialize_manifest demo_manifest)) = Inr (Some (serialize_manifest demo_manifest))"
    using put_read [of demo_env "[]" "''manifests''" "serialize_manifest demo_manifest"]
    by (simp add: demo_env_ok collision_free_def)
  then show "read_manifest demo_env demo_rows_disk (demo_digest (serialize_manifest demo_manifest)) = Inr (Some demo_manifest)"
    unfolding read_manifest_def load_Some demo_rows_disk_def
    using manifest_roundtrip [of demo_manifest] v
    by (simp add: put_read_other valid_manifest_def demo_manifest_def)
qed

theorem sidecar_bounds_witness:
  "\<exists>s. compute_sidecar demo_env demo_rows_disk (demo_digest (serialize_manifest demo_manifest)) = Inr s \<and>
     sum_rows (sidecar_summary s) = 1"
proof -
  have "\<exists>s. compute_sidecar demo_env demo_rows_disk (demo_digest (serialize_manifest demo_manifest)) = Inr s"
    by (simp add: compute_sidecar_def demo_rows_read)
       (simp add: demo_manifest_def sidecar_row_def demo_rows_read demo_object Let_def)
  then obtain s where s: "compute_sidecar demo_env demo_rows_disk (demo_digest (serialize_manifest demo_manifest)) = Inr s" ..
  moreover have "length (entries demo_manifest) = 1" by (simp add: demo_manifest_def)
  ultimately show ?thesis using sidecar_bounds [OF s] demo_rows_read(2) by (intro exI [of _ s]) fastforce
qed

end
