(* ===== verification/Dit_Demo.thy ===== *)
theory Dit_Demo
  imports Dit_Sidecar Dit_Walk
begin

text \<open>
  A small repository the witnesses of other theories use: one commit without parents, a tree
  with one data file \<open>t\<close>, and in it one row, \<open>{}\<close>.
\<close>

section \<open>One file, one commit\<close>

definition file_tree :: "tree_entry \<Rightarrow> tree" where
  "file_tree e = \<lparr>tree_entries = [e]\<rparr>"

definition file_commit :: "tree_entry \<Rightarrow> commit" where
  "file_commit e = \<lparr>tree_hash = demo_digest (serialize_tree (file_tree e)), parent_hashes = [],
     author = str ''a'', message = str ''m'', timestamp = 1\<rparr>"

definition file_head :: "tree_entry \<Rightarrow> pystr" where
  "file_head e = demo_digest (serialize_commit (file_commit e))"

definition file_disk :: "tree_entry \<Rightarrow> disk \<Rightarrow> disk" where
  "file_disk e d = put demo_env ''commits'' (serialize_commit (file_commit e))
     (put demo_env ''trees'' (serialize_tree (file_tree e)) d)"

lemma demo_digest_valid: "hash_re (demo_digest b)" "valid_str (demo_digest b)"
  using env_okD(1) [OF demo_env_ok, of b] hex_digest_valid [of "demo_digest b"] by simp_all

lemma file_commit_roundtrip: "deserialize_commit (serialize_commit (file_commit e)) = Inr (file_commit e)"
  by (rule commit_roundtrip) (simp add: valid_commit_def file_commit_def demo_digest_valid)

lemma file_disk_inv: "store_inv demo_env d \<Longrightarrow> store_inv demo_env (file_disk e d)"
  by (simp add: file_disk_def put_inv)

lemma file_read_other:
  "k \<noteq> ''commits'' \<Longrightarrow> k \<noteq> ''trees'' \<Longrightarrow> store_read demo_env (file_disk e d) (str k) h = store_read demo_env d (str k) h"
  by (simp add: file_disk_def put_read_other)

lemma file_read_tree:
  assumes "store_inv demo_env d" "stored demo_env d ''trees'' = {}" "valid_tree (file_tree e)"
  shows "read_tree demo_env (file_disk e d) (tree_hash (file_commit e)) = Inr (Some (file_tree e))"
proof -
  have "norm_tree (file_tree e) = file_tree e" by (simp add: norm_tree_def file_tree_def)
  then have "deserialize_tree (serialize_tree (file_tree e)) = Inr (file_tree e)" using tree_roundtrip [OF assms(3)] by metis
  moreover have "store_read demo_env (put demo_env ''trees'' (serialize_tree (file_tree e)) d) (str ''trees'')
      (demo_digest (serialize_tree (file_tree e))) = Inr (Some (serialize_tree (file_tree e)))"
    using put_read [OF assms(1), of "''trees''" "serialize_tree (file_tree e)"] by (simp add: collision_free_def assms(2))
  ultimately show ?thesis by (simp add: file_disk_def read_tree_def load_Some put_read_other file_commit_def)
qed

lemma file_stored: "stored demo_env d ''commits'' = {} \<Longrightarrow>
    stored demo_env (put demo_env ''trees'' (serialize_tree (file_tree e)) d) ''commits'' = {}"
  using stored_puts_other [of "''trees''" "''commits''" demo_env "[serialize_tree (file_tree e)]" d] by simp

lemma file_read_commit:
  assumes "store_inv demo_env d" "stored demo_env d ''commits'' = {}"
  shows "read_commit demo_env (file_disk e d) (file_head e) = Inr (Some (file_commit e))"
proof -
  let ?d = "put demo_env ''trees'' (serialize_tree (file_tree e)) d"
  have "store_read demo_env (file_disk e d) (str ''commits'') (file_head e) = Inr (Some (serialize_commit (file_commit e)))"
    using put_read [of demo_env ?d "''commits''" "serialize_commit (file_commit e)"] put_inv [OF assms(1)] file_stored [OF assms(2)]
    by (simp add: collision_free_def file_disk_def file_head_def)
  then show ?thesis using file_commit_roundtrip by (simp add: read_commit_def load_Some)
qed

lemma file_parents:
  assumes "stored demo_env d ''commits'' = {}"
  shows "commit_parents demo_env (file_disk e d) h = []"
proof -
  let ?d = "put demo_env ''trees'' (serialize_tree (file_tree e)) d"
  have "stored demo_env (file_disk e d) ''commits'' \<subseteq> {serialize_commit (file_commit e)}"
    using file_stored [OF assms] stored_put [OF demo_env_ok, of "''commits''" "serialize_commit (file_commit e)" ?d]
    by (simp add: file_disk_def)
  then have "c = file_commit e" if "read_commit demo_env (file_disk e d) h = Inr (Some c)" for c
    using that file_commit_roundtrip by (auto simp: read_commit_def load_Some stored_def)
  then show ?thesis by (auto simp: commit_parents_def file_commit_def split: sum.split option.split)
qed

lemma file_flat:
  assumes "store_inv demo_env d" "stored demo_env d ''trees'' = {}" "valid_tree (file_tree e)" "te_type e \<noteq> str ''tree''"
  shows "flatten_tree demo_env (file_disk e d) 50 (tree_hash (file_commit e)) [] =
     Inr [(te_name e, (te_type e, te_hash e, te_sidecar e))]"
proof -
  have "flatten_tree demo_env (file_disk e d) (Suc n) (tree_hash (file_commit e)) [] =
     Inr [(te_name e, (te_type e, te_hash e, te_sidecar e))]" for n
    using assms(4)
    by (simp add: flatten_tree_Suc file_read_tree [OF assms(1-3)])
       (simp add: file_tree_def flat_piece_def is_tree_def full_path_def flat_of_def dict_update_def)
  from this [of 49] show ?thesis by simp
qed

section \<open>The data file\<close>

definition data_entry :: tree_entry where
  "data_entry = \<lparr>te_name = str ''t'', te_type = str ''manifest'',
     te_hash = demo_digest (serialize_manifest demo_manifest), te_sidecar = None\<rparr>"

definition data_commit :: commit where
  "data_commit = file_commit data_entry"

definition data_head :: pystr where
  "data_head = file_head data_entry"

definition data_disk :: disk where
  "data_disk = file_disk data_entry demo_rows_disk"

lemma demo_rows_stored: "stored demo_env demo_rows_disk ''commits'' = {}" "stored demo_env demo_rows_disk ''trees'' = {}"
  by (simp_all add: demo_rows_disk_def stored_def put_read_other) (simp_all add: store_read_Some)

lemma demo_rows_inv: "store_inv demo_env demo_rows_disk"
  by (simp add: demo_rows_disk_def put_inv demo_env_ok)

lemma data_disk_inv: "store_inv demo_env data_disk"
  by (simp add: data_disk_def file_disk_inv demo_rows_inv)

lemma data_read:
  "store_read demo_env data_disk (str ''rows'') (demo_digest [123, 125]) = Inr (Some [123, 125])"
  "read_manifest demo_env data_disk (demo_digest (serialize_manifest demo_manifest)) = Inr (Some demo_manifest)"
  using demo_rows_read by (simp_all add: data_disk_def read_manifest_def load_def file_read_other)

lemma data_entries: "entries demo_manifest = [\<lparr>row_hash = demo_digest [123, 125], query_fingerprint = None\<rparr>]"
  by (simp add: demo_manifest_def)

lemma demo_object_bytes: "json_loads_bytes [123, 125] = Inr (JObj [])"
  using json_roundtrip [of "JObj []"] by (simp add: demo_object sort_keys.simps)

lemma data_read_commit: "read_commit demo_env data_disk data_head = Inr (Some data_commit)"
  unfolding data_disk_def data_head_def data_commit_def by (rule file_read_commit [OF demo_rows_inv demo_rows_stored(1)])

lemma data_parents: "commit_parents demo_env data_disk h = []"
  unfolding data_disk_def by (rule file_parents [OF demo_rows_stored(1)])

lemma data_ancestor: "ancestor demo_env data_disk x data_head \<Longrightarrow> x = data_head"
  unfolding ancestor_def by (erule converse_rtranclE) (simp_all add: data_parents)

lemma data_flat:
  "flatten_tree demo_env data_disk 50 (tree_hash data_commit) [] =
     Inr [(str ''t'', (str ''manifest'', demo_digest (serialize_manifest demo_manifest), None))]"
proof -
  have "valid_tree (file_tree data_entry)" by (simp add: valid_tree_def file_tree_def data_entry_def demo_digest_valid)
  from file_flat [OF demo_rows_inv demo_rows_stored(2) this] show ?thesis
    by (simp add: data_disk_def data_commit_def) (simp add: data_entry_def)
qed

end
