(* ===== verification/Dit_Blame.thy ===== *)
theory Dit_Blame
  imports Dit_Diff Dit_Demo
begin

text \<open>
  \<open>src/dit/core/blame.py\<close>: which commit introduced a row, and the history of a row. Both loops
  follow first parents; on a store whose commits form a cycle they would not end, so they have
  fuel, and more fuel than the commit has ancestors is enough.
\<close>

record blame_entry =
  be_row_index :: nat
  be_row_hash :: pystr
  be_commit_hash :: pystr
  be_author :: pystr
  be_timestamp :: int
  be_qfp :: "pystr option"

section \<open>Reading a file of a commit\<close>

definition get_manifest_for_file :: "env \<Rightarrow> disk \<Rightarrow> pystr \<Rightarrow> pystr \<Rightarrow> (manifest \<times> pystr) res" where
  "get_manifest_for_file E d commit_hash file_path =
     bindE (must FileNotFoundError (read_commit E d commit_hash)) (\<lambda>c.
     bindE (flatten_tree E d (rec_limit E) (tree_hash c) []) (\<lambda>flat.
       case map_of flat (lstrip_slash file_path) of
         None \<Rightarrow> Inl FileNotFoundError
       | Some (obj_type, obj_hash, _) \<Rightarrow>
           if obj_type \<noteq> str ''manifest'' then Inl FileNotFoundError
           else bindE (must FileNotFoundError (read_manifest E d obj_hash)) (\<lambda>m. Inr (m, obj_hash))))"

definition try_get_manifest :: "env \<Rightarrow> disk \<Rightarrow> pystr \<Rightarrow> pystr \<Rightarrow> manifest option res" where
  "try_get_manifest E d commit_hash file_path =
     (case get_manifest_for_file E d commit_hash file_path of
        Inr (m, _) \<Rightarrow> Inr (Some m)
      | Inl e \<Rightarrow> if e = FileNotFoundError then Inr None else Inl e)"

definition content_preview :: "env \<Rightarrow> disk \<Rightarrow> nat \<Rightarrow> pystr \<Rightarrow> pystr res" where
  "content_preview E d max_len rh =
     bindE (store_read E d (str ''rows'') rh) (\<lambda>x. Inr (case x of
       None \<Rightarrow> []
     | Some data \<Rightarrow> let text = utf8_replace data in
         if max_len < length text then take max_len text @ str ''...'' else text))"

section \<open>Blame\<close>

text \<open>
  Attributing the rows of the target that are still unattributed. \<open>row_position\<close> is the index
  \<open>next(i for ...)\<close> finds: an unattributed row is a row of the target.
\<close>

definition row_position :: "manifest \<Rightarrow> pystr \<Rightarrow> nat" where
  "row_position target h = length (takeWhile (\<lambda>e. row_hash e \<noteq> h) (entries target))"

definition attribute_all :: "pystr \<Rightarrow> commit \<Rightarrow> manifest \<Rightarrow> pystr set \<Rightarrow> blame_entry dict \<Rightarrow> blame_entry dict" where
  "attribute_all cur c target unattributed bm =
     fold (\<lambda>(i, e) bm. if row_hash e \<in> unattributed
       then AList.update (row_hash e) \<lparr>be_row_index = i, be_row_hash = row_hash e, be_commit_hash = cur,
              be_author = author c, be_timestamp = timestamp c, be_qfp = query_fingerprint e\<rparr> bm
       else bm) (zip [0..<length (entries target)] (entries target)) bm"

definition attribute_row ::
  "pystr \<Rightarrow> commit \<Rightarrow> manifest \<Rightarrow> pystr \<times> pystr option \<Rightarrow> pystr set \<times> blame_entry dict \<Rightarrow> pystr set \<times> blame_entry dict" where
  "attribute_row cur c target hq st =
     (let (h, qfp) = hq; (unattributed, bm) = st in
      if h \<in> unattributed
      then (unattributed - {h},
            AList.update h \<lparr>be_row_index = row_position target h, be_row_hash = h, be_commit_hash = cur,
              be_author = author c, be_timestamp = timestamp c, be_qfp = qfp\<rparr> bm)
      else st)"

text \<open>The rows a commit touched: those its diff adds, then those it refreshes.\<close>

definition touched_rows :: "diff_result \<Rightarrow> (pystr \<times> pystr option) list" where
  "touched_rows r = map (\<lambda>e. (row_hash e, query_fingerprint e)) (added r) @
     map (\<lambda>(_, new_hash, q). (new_hash, Some q)) (refreshed r)"

fun blame_loop ::
  "env \<Rightarrow> disk \<Rightarrow> pystr \<Rightarrow> manifest \<Rightarrow> nat \<Rightarrow> pystr \<Rightarrow> manifest \<Rightarrow> pystr set \<Rightarrow> blame_entry dict \<Rightarrow> blame_entry dict res" where
  "blame_loop E d fl target 0 cur cm unattributed bm = Inl Out_of_fuel"
| "blame_loop E d fl target (Suc n) cur cm unattributed bm =
     (if cur = [] \<or> unattributed = {} then Inr bm
      else bindE (read_commit E d cur) (\<lambda>x.
        case x of
          None \<Rightarrow> Inr bm
        | Some c \<Rightarrow>
            (case parent_hashes c of
               [] \<Rightarrow> Inr (attribute_all cur c target unattributed bm)
             | parent # _ \<Rightarrow>
                 bindE (try_get_manifest E d parent fl) (\<lambda>pm.
                   case pm of
                     None \<Rightarrow> Inr (attribute_all cur c target unattributed bm)
                   | Some pm \<Rightarrow>
                       bindE (diff_manifests pm cm) (\<lambda>df.
                         let (unattributed', bm') = fold (attribute_row cur c target) (touched_rows df) (unattributed, bm) in
                         blame_loop E d fl target n parent pm unattributed' bm')))))"

record blame_line =
  bl_row_index :: nat
  bl_row_hash :: pystr
  bl_commit_hash :: pystr
  bl_author :: pystr
  bl_timestamp :: int
  bl_qfp :: "pystr option"
  bl_preview :: pystr

record blame_report =
  br_commit :: pystr
  br_file :: pystr
  br_lines :: "blame_line list"
  total_rows :: nat
  unique_commits :: nat
  unique_authors :: nat

definition blame_row :: "env \<Rightarrow> disk \<Rightarrow> pystr \<Rightarrow> blame_entry dict \<Rightarrow> nat \<times> manifest_entry \<Rightarrow> blame_line res" where
  "blame_row E d commit_hash bm ie =
     (let (i, me) = ie; be = map_of bm (row_hash me) in
      bindE (content_preview E d 60 (row_hash me)) (\<lambda>p. Inr
        \<lparr>bl_row_index = i, bl_row_hash = row_hash me,
         bl_commit_hash = (case be of None \<Rightarrow> commit_hash | Some b \<Rightarrow> be_commit_hash b),
         bl_author = (case be of None \<Rightarrow> str ''unknown'' | Some b \<Rightarrow> be_author b),
         bl_timestamp = (case be of None \<Rightarrow> 0 | Some b \<Rightarrow> be_timestamp b),
         bl_qfp = query_fingerprint me, bl_preview = p\<rparr>))"

definition blame_file :: "env \<Rightarrow> disk \<Rightarrow> nat \<Rightarrow> pystr \<Rightarrow> pystr \<Rightarrow> blame_report res" where
  "blame_file E d n commit_hash file_path =
     bindE (get_manifest_for_file E d commit_hash file_path) (\<lambda>(target, _).
     bindE (blame_loop E d file_path target n commit_hash target (hashes target) []) (\<lambda>bm.
     bindE (mapE (blame_row E d commit_hash bm) (zip [0..<length (entries target)] (entries target))) (\<lambda>ls.
       Inr \<lparr>br_commit = commit_hash, br_file = lstrip_slash file_path, br_lines = ls, total_rows = length ls,
            unique_commits = card (bl_commit_hash ` set ls), unique_authors = card (bl_author ` set ls)\<rparr>)))"

section \<open>The history of a row\<close>

record row_event =
  ev_commit :: pystr
  ev_author :: pystr
  ev_timestamp :: int
  ev_kind :: pystr
  ev_row_hash :: pystr
  ev_preview :: pystr

definition make_event :: "env \<Rightarrow> disk \<Rightarrow> pystr \<Rightarrow> commit \<Rightarrow> string \<Rightarrow> pystr \<Rightarrow> row_event res" where
  "make_event E d cur c kind h =
     bindE (content_preview E d 60 h) (\<lambda>p.
       Inr \<lparr>ev_commit = cur, ev_author = author c, ev_timestamp = timestamp c, ev_kind = str kind,
            ev_row_hash = h, ev_preview = p\<rparr>)"

definition root_event :: "env \<Rightarrow> disk \<Rightarrow> pystr \<Rightarrow> commit \<Rightarrow> manifest \<Rightarrow> pystr \<Rightarrow> row_event list \<Rightarrow> row_event list res" where
  "root_event E d cur c cm tracked events =
     (if tracked \<in> hashes cm then bindE (make_event E d cur c ''added'' tracked) (\<lambda>ev. Inr (events @ [ev]))
      else Inr events)"

fun history_loop ::
  "env \<Rightarrow> disk \<Rightarrow> pystr \<Rightarrow> nat \<Rightarrow> pystr \<Rightarrow> manifest \<Rightarrow> pystr \<Rightarrow> row_event list \<Rightarrow> row_event list res" where
  "history_loop E d fl 0 cur cm tracked events = Inl Out_of_fuel"
| "history_loop E d fl (Suc n) cur cm tracked events =
     (if cur = [] then Inr events
      else bindE (read_commit E d cur) (\<lambda>x.
        case x of
          None \<Rightarrow> Inr events
        | Some c \<Rightarrow>
            (case parent_hashes c of
               [] \<Rightarrow> root_event E d cur c cm tracked events
             | parent # _ \<Rightarrow>
                 bindE (try_get_manifest E d parent fl) (\<lambda>pm.
                   case pm of
                     None \<Rightarrow> root_event E d cur c cm tracked events
                   | Some pm \<Rightarrow>
                       bindE (diff_manifests pm cm) (\<lambda>df.
                         if tracked \<in> row_hash ` set (added df)
                         then bindE (make_event E d cur c ''added'' tracked) (\<lambda>ev. Inr (events @ [ev]))
                         else (case List.find (\<lambda>p. fst (snd p) = tracked) (refreshed df) of
                             None \<Rightarrow> history_loop E d fl n parent pm tracked events
                           | Some (old_hash, new_hash, _) \<Rightarrow>
                               bindE (make_event E d cur c ''refresh'' new_hash) (\<lambda>ev.
                                 history_loop E d fl n parent pm old_hash (events @ [ev]))))))))"

record history_report =
  hr_commit :: pystr
  hr_file :: pystr
  hr_row_index :: int
  hr_qfp :: "pystr option"
  hr_events :: "row_event list"

definition row_history :: "env \<Rightarrow> disk \<Rightarrow> nat \<Rightarrow> pystr \<Rightarrow> pystr \<Rightarrow> int \<Rightarrow> history_report res" where
  "row_history E d n commit_hash file_path row_index =
     bindE (get_manifest_for_file E d commit_hash file_path) (\<lambda>(target, _).
       if row_index < 0 \<or> int (length (entries target)) \<le> row_index then Inl IndexError
       else let e = entries target ! nat row_index in
         bindE (history_loop E d file_path n commit_hash target (row_hash e) []) (\<lambda>events.
           Inr \<lparr>hr_commit = commit_hash, hr_file = lstrip_slash file_path, hr_row_index = row_index,
                hr_qfp = query_fingerprint e, hr_events = events\<rparr>))"

section \<open>What a diff touches\<close>

text \<open>
  A diff touches the rows only the new manifest has; if both have the same rows, in another
  order, it touches all of them.
\<close>

lemma diff_touches:
  "\<exists>r. diff_manifests old new = Inr r \<and>
     fst ` set (touched_rows r) =
       (if hashes new = hashes old \<and> entries old \<noteq> entries new then hashes new else hashes new - hashes old)"
proof -
  let ?R = "{e \<in> set (entries old). row_hash e \<notin> hashes new}"
  let ?A = "{e \<in> set (entries new). row_hash e \<notin> hashes old}"
  let ?rr = "filter (\<lambda>e. row_hash e \<notin> hashes new) (entries old)"
  let ?ra = "filter (\<lambda>e. row_hash e \<notin> hashes old) (entries new)"
  have "refresh_inv ?R ?A (group_by_qfp ?rr, [], {}, {})"
    using group_by_qfp_ok [of ?rr] by (simp add: refresh_inv_def)
  from refresh_steps_inv [OF this, of ?ra] obtain g refr olds news where
    f: "foldE refresh_step ?ra (group_by_qfp ?rr, [], {}, {}) = Inr (g, refr, olds, news)"
    and inv: "olds = fst ` set refr" "news = (\<lambda>p. fst (snd p)) ` set refr" "\<forall>p \<in> set refr. refresh_of ?R ?A p"
    by (auto simp: refresh_inv_def)
  let ?add = "filter (\<lambda>e. row_hash e \<notin> news) ?ra" and ?rem = "filter (\<lambda>e. row_hash e \<notin> olds) ?rr"
  have A: "row_hash ` ?A = hashes new - hashes old" and R: "row_hash ` ?R = hashes old - hashes new"
    by (force simp: hashes_def)+
  have news: "news \<subseteq> hashes new - hashes old" and olds: "olds \<subseteq> hashes old - hashes new"
    unfolding A [symmetric] R [symmetric] using inv by (fastforce simp: refresh_of_def)+
  have add: "row_hash ` set ?add = hashes new - hashes old - news" unfolding A [symmetric] by auto
  show ?thesis
  proof (cases "?add = [] \<and> ?rem = [] \<and> refr = [] \<and> entries old \<noteq> entries new")
    case True
    then have e: "news = {}" "olds = {}" using inv by simp_all
    then have rr: "?rr = []" "?ra = []" using True by simp_all
    have "?R = set ?rr" "?A = set ?ra" by auto
    then have "?R = {}" "?A = {}" unfolding rr by simp_all
    then have "hashes new = hashes old" using A R by auto
    moreover have "diff_manifests old new = Inr \<lparr>added = entries new, removed = entries old, refreshed = []\<rparr>"
      using f True by (auto simp: diff_manifests_def Let_def)
    ultimately show ?thesis using True by (auto simp: touched_rows_def hashes_def image_image)
  next
    case False
    then have "diff_manifests old new = Inr \<lparr>added = ?add, removed = ?rem, refreshed = refr\<rparr>"
      using f by (auto simp: diff_manifests_def Let_def)
    moreover have "fst ` set (touched_rows \<lparr>added = ?add, removed = ?rem, refreshed = refr\<rparr>) = row_hash ` set ?add \<union> news"
      unfolding inv(2) by (force simp: touched_rows_def)
    then have "fst ` set (touched_rows \<lparr>added = ?add, removed = ?rem, refreshed = refr\<rparr>) = hashes new - hashes old"
      unfolding add using news by blast
    moreover have "\<not> (hashes new = hashes old \<and> entries old \<noteq> entries new)"
    proof
      assume eq: "hashes new = hashes old \<and> entries old \<noteq> entries new"
      then have "?rr = []" "?ra = []" by (auto simp: hashes_def filter_empty_conv)
      with False eq f show False by auto
    qed
    ultimately show ?thesis by auto
  qed
qed

section \<open>Introducing commits\<close>

definition first_parent :: "env \<Rightarrow> disk \<Rightarrow> pystr \<Rightarrow> pystr option" where
  "first_parent E d c = (case commit_parents E d c of [] \<Rightarrow> None | p # _ \<Rightarrow> Some p)"

text \<open>
  The commit \<open>c\<close> introduces the row \<open>h\<close> of the fl: its version has the row, and it has no parent,
  or its first parent has no such fl, lacks the row, or has all its rows in another order.
\<close>

definition introduces :: "env \<Rightarrow> disk \<Rightarrow> pystr \<Rightarrow> pystr \<Rightarrow> pystr \<Rightarrow> bool" where
  "introduces E d fl h c \<longleftrightarrow>
     (\<exists>m. try_get_manifest E d c fl = Inr (Some m) \<and> h \<in> hashes m \<and>
       (\<forall>p pm. first_parent E d c = Some p \<longrightarrow> try_get_manifest E d p fl = Inr (Some pm) \<longrightarrow>
          h \<notin> hashes pm \<or> (hashes pm = hashes m \<and> entries pm \<noteq> entries m)))"

text \<open>The first commit on the chain of first parents that introduces the row.\<close>

inductive introduced_by :: "env \<Rightarrow> disk \<Rightarrow> pystr \<Rightarrow> pystr \<Rightarrow> pystr \<Rightarrow> pystr \<Rightarrow> bool"
  for E d fl h where
  here: "introduces E d fl h c \<Longrightarrow> introduced_by E d fl h c c"
| there: "\<not> introduces E d fl h c \<Longrightarrow> first_parent E d c = Some p \<Longrightarrow> introduced_by E d fl h p x \<Longrightarrow>
    introduced_by E d fl h c x"

lemma introduced_by_unique: "introduced_by E d fl h c x \<Longrightarrow> introduced_by E d fl h c y \<Longrightarrow> x = y"
proof (induction arbitrary: y rule: introduced_by.induct)
  case (here c)
  from here(2,1) show ?case by cases simp_all
next
  case (there c p x)
  from there(5,1,2,4) show ?case by cases auto
qed

section \<open>What the loop finds\<close>

definition blame_of :: "env \<Rightarrow> disk \<Rightarrow> pystr \<Rightarrow> pystr \<Rightarrow> pystr \<Rightarrow> blame_entry \<Rightarrow> bool" where
  "blame_of E d fl cur h b \<longleftrightarrow> introduced_by E d fl h cur (be_commit_hash b) \<and> be_row_hash b = h \<and>
     (\<exists>c. read_commit E d (be_commit_hash b) = Inr (Some c) \<and> be_author b = author c \<and> be_timestamp b = timestamp c)"

lemma attribute_all_lookup:
  assumes "U \<subseteq> hashes target"
  shows "(h \<in> U \<longrightarrow> (\<exists>b. map_of (attribute_all cur c target U bm) h = Some b \<and> be_commit_hash b = cur \<and>
      be_row_hash b = h \<and> be_author b = author c \<and> be_timestamp b = timestamp c)) \<and>
    (h \<notin> U \<longrightarrow> map_of (attribute_all cur c target U bm) h = map_of bm h)"
proof -
  let ?f = "\<lambda>(i, e) bm. if row_hash e \<in> U
       then AList.update (row_hash e) \<lparr>be_row_index = i, be_row_hash = row_hash e, be_commit_hash = cur,
              be_author = author c, be_timestamp = timestamp c, be_qfp = query_fingerprint e\<rparr> bm else bm"
  let ?ok = "\<lambda>h b. be_commit_hash b = cur \<and> be_row_hash b = h \<and> be_author b = author c \<and> be_timestamp b = timestamp c"
  have keep: "map_of bm h = Some b \<Longrightarrow> ?ok h b \<Longrightarrow> \<exists>b. map_of (fold ?f ies bm) h = Some b \<and> ?ok h b" for ies bm b
  proof (induction ies arbitrary: bm b)
    case (Cons ie ies)
    obtain i e where ie: "ie = (i, e)" by (cases ie)
    have "\<exists>b. map_of (?f ie bm) h = Some b \<and> ?ok h b" using Cons.prems unfolding ie by (simp add: update_conv')
    then obtain b' where b': "map_of (?f ie bm) h = Some b'" "?ok h b'" by blast
    from Cons.IH [OF b'] show ?case by simp
  qed auto
  have set: "\<exists>b. map_of (fold ?f ies bm) h = Some b \<and> ?ok h b" if "h \<in> U" "h \<in> row_hash ` snd ` set ies" for ies bm
    using that(2)
  proof (induction ies arbitrary: bm)
    case (Cons ie ies)
    show ?case
    proof (cases "h = row_hash (snd ie)")
      case True
      obtain i e where ie: "ie = (i, e)" by (cases ie)
      have "\<exists>b. map_of (?f ie bm) h = Some b \<and> ?ok h b" using that(1) True unfolding ie by (simp add: update_conv')
      then obtain b where b: "map_of (?f ie bm) h = Some b" "?ok h b" by blast
      from keep [OF b] show ?thesis by simp
    next
      case False
      with Cons show ?thesis by auto
    qed
  qed simp
  have no: "map_of (fold ?f ies bm) h = map_of bm h" if "h \<notin> U" for ies bm
    using that by (induction ies arbitrary: bm) (auto simp: split_beta update_conv')
  have "row_hash ` snd ` set (zip [0..<length (entries target)] (entries target)) = hashes target"
    by (simp add: hashes_def flip: set_map)
  with set [of "zip [0..<length (entries target)] (entries target)" bm] no assms show ?thesis
    unfolding attribute_all_def by blast
qed

lemma attribute_rows_lookup:
  fixes cur c target hqs U bm
  defines "st \<equiv> fold (attribute_row cur c target) hqs (U, bm)"
  shows "fst st = U - fst ` set hqs \<and>
    (h \<in> U \<inter> fst ` set hqs \<longrightarrow> (\<exists>b. map_of (snd st) h = Some b \<and> be_commit_hash b = cur \<and>
      be_row_hash b = h \<and> be_author b = author c \<and> be_timestamp b = timestamp c)) \<and>
    (h \<notin> U \<inter> fst ` set hqs \<longrightarrow> map_of (snd st) h = map_of bm h)"
  unfolding st_def
proof (induction hqs arbitrary: U bm)
  case (Cons hq hqs)
  obtain g q where hq: "hq = (g, q)" by (cases hq)
  obtain U1 bm1 where s: "attribute_row cur c target hq (U, bm) = (U1, bm1)" by fastforce
  have U1: "U1 = U - {g}"
    and b1: "map_of bm1 h = (if h = g \<and> g \<in> U then Some \<lparr>be_row_index = row_position target h, be_row_hash = h, be_commit_hash = cur,
              be_author = author c, be_timestamp = timestamp c, be_qfp = q\<rparr> else map_of bm h)"
    using s by (auto simp: attribute_row_def hq update_conv' split: if_splits)
  from Cons.IH [of U1 bm1] show ?case unfolding U1 hq
    using b1 s hq U1 by (cases "h = g") auto
qed simp

lemma try_get_commit:
  assumes "try_get_manifest E d c fl = Inr (Some m)"
  shows "\<exists>x. read_commit E d c = Inr (Some x)" and "c \<noteq> []"
proof -
  from assms obtain mh where "get_manifest_for_file E d c fl = Inr (m, mh)"
    by (auto simp: try_get_manifest_def split: sum.splits if_splits)
  then obtain x where x: "read_commit E d c = Inr (Some x)"
    by (auto simp: get_manifest_for_file_def bindE_eq_Inr must_Inr)
  then show "\<exists>x. read_commit E d c = Inr (Some x)" ..
  from x have "hash_re c" by (auto simp: read_commit_def load_Some store_read_Some)
  then show "c \<noteq> []" by (auto simp: hash_re_def hex_digest_def)
qed

lemma first_parent_read:
  "read_commit E d c = Inr (Some x) \<Longrightarrow> first_parent E d c = (case parent_hashes x of [] \<Rightarrow> None | p # _ \<Rightarrow> Some p)"
  by (simp add: first_parent_def commit_parents_def)

lemma blame_loop_correct:
  assumes "blame_loop E d fl target n cur cm U bm = Inr bm'" and "try_get_manifest E d cur fl = Inr (Some cm)"
    and "U \<subseteq> hashes cm" and "U \<subseteq> hashes target"
  shows "(h \<in> U \<longrightarrow> (\<exists>b. map_of bm' h = Some b \<and> blame_of E d fl cur h b)) \<and> (h \<notin> U \<longrightarrow> map_of bm' h = map_of bm h)"
  using assms
proof (induction n arbitrary: cur cm U bm)
  case (Suc n)
  from try_get_commit [OF Suc.prems(2)] obtain c where c: "read_commit E d cur = Inr (Some c)" and ne: "cur \<noteq> []" by blast
  have here: "introduced_by E d fl h cur cur" if "introduces E d fl h cur" using that by (rule introduced_by.here)
  show ?case
  proof (cases "U = {}")
    case True
    with Suc.prems(1) show ?thesis by simp
  next
    case False
    have all: ?thesis if bm': "bm' = attribute_all cur c target U bm"
      and i: "h \<in> U \<Longrightarrow> introduces E d fl h cur"
      using attribute_all_lookup [OF Suc.prems(4), of h cur c bm] i c here unfolding bm' blame_of_def by blast
    show ?thesis
    proof (cases "parent_hashes c")
      case Nil
      then have "first_parent E d cur = None" using first_parent_read [OF c] by simp
      then have "h \<in> U \<Longrightarrow> introduces E d fl h cur" using Suc.prems(2,3) by (auto simp: introduces_def)
      with all Suc.prems(1) ne False c Nil show ?thesis by simp
    next
      case (Cons p ps)
      then have fp: "first_parent E d cur = Some p" using first_parent_read [OF c] by simp
      from Suc.prems(1) ne False c Cons obtain pm where pm: "try_get_manifest E d p fl = Inr pm"
        by (auto simp: bindE_eq_Inr)
      show ?thesis
      proof (cases pm)
        case None
        then have "h \<in> U \<Longrightarrow> introduces E d fl h cur"
          using Suc.prems(2,3) fp pm by (auto simp: introduces_def)
        with all Suc.prems(1) ne False c Cons pm None show ?thesis by simp
      next
        case (Some m)
        obtain r where r: "diff_manifests m cm = Inr r" and T: "fst ` set (touched_rows r) =
          (if hashes cm = hashes m \<and> entries m \<noteq> entries cm then hashes cm else hashes cm - hashes m)"
          using diff_touches by blast
        let ?T = "fst ` set (touched_rows r)"
        obtain U1 bm1 where s: "fold (attribute_row cur c target) (touched_rows r) (U, bm) = (U1, bm1)" by fastforce
        note A = attribute_rows_lookup [of cur c target "touched_rows r" U bm h, unfolded s fst_conv snd_conv]
        have loop: "blame_loop E d fl target n p m U1 bm1 = Inr bm'"
          using Suc.prems(1) ne False c Cons pm Some r s by simp
        have U1: "U1 = U - ?T" using A by blast
        have sub: "U1 \<subseteq> hashes m" using U1 T Suc.prems(3) by (auto split: if_splits)
        have intro: "introduces E d fl h cur" if "h \<in> U" "h \<in> ?T"
          using that T Suc.prems(2,3) fp pm Some by (auto simp: introduces_def split: if_splits)
        have not: "\<not> introduces E d fl h cur" if "h \<in> U1"
          using that U1 T Suc.prems(2,3) fp pm Some by (auto simp: introduces_def split: if_splits)
        from Suc.IH [OF loop pm [unfolded Some] sub] Suc.prems(4) U1
        have IH: "(h \<in> U1 \<longrightarrow> (\<exists>b. map_of bm' h = Some b \<and> blame_of E d fl p h b)) \<and> (h \<notin> U1 \<longrightarrow> map_of bm' h = map_of bm1 h)"
          by blast
        have up: "blame_of E d fl cur h b" if "h \<in> U1" "blame_of E d fl p h b" for b
          using that introduced_by.there [OF not [OF that(1)] fp] by (auto simp: blame_of_def)
        have at: "blame_of E d fl cur h b" if "h \<in> U" "h \<in> ?T" "be_commit_hash b = cur" "be_row_hash b = h"
          "be_author b = author c" "be_timestamp b = timestamp c" for b
          using that here [OF intro [OF that(1,2)]] c by (auto simp: blame_of_def)
        show ?thesis
        proof (cases "h \<in> U1")
          case True
          with IH up U1 show ?thesis by blast
        next
          case False
          with IH A at U1 show ?thesis by (metis DiffI IntI IntD1)
        qed
      qed
    qed
  qed
qed simp

lemma ancestors_less:
  assumes "acyclic (commits.edges E d)" and "first_parent E d c = Some p"
  shows "card {x. ancestor E d x p} < card {x. ancestor E d x c}"
proof (rule psubset_card_mono)
  show "finite {x. ancestor E d x c}" unfolding ancestor_def by (rule commits.finite_reach)
  have e: "(c, p) \<in> commits.edges E d" using assms(2) by (simp add: first_parent_def split: list.splits)
  have "c \<notin> {x. ancestor E d x p}"
  proof
    assume "c \<in> {x. ancestor E d x p}"
    then have "(p, c) \<in> (commits.edges E d)\<^sup>*" by (simp add: ancestor_def)
    with e have "(c, c) \<in> (commits.edges E d)\<^sup>+" by (rule rtrancl_into_trancl2)
    with assms(1) show False by (simp add: acyclic_def)
  qed
  moreover have "{x. ancestor E d x p} \<subseteq> {x. ancestor E d x c}"
    using e by (auto simp: ancestor_def intro: converse_rtrancl_into_rtrancl)
  ultimately show "{x. ancestor E d x p} \<subset> {x. ancestor E d x c}" by auto
qed

lemma ancestor_first_parent: "first_parent E d c = Some p \<Longrightarrow> ancestor E d x p \<Longrightarrow> ancestor E d x c"
  by (auto simp: first_parent_def ancestor_def intro: converse_rtrancl_into_rtrancl split: list.splits)

lemma blame_loop_total:
  assumes "acyclic (commits.edges E d)" and "\<forall>x. ancestor E d x cur \<longrightarrow> (\<exists>y. try_get_manifest E d x fl = Inr y)"
    and "try_get_manifest E d cur fl = Inr (Some cm)" and "card {x. ancestor E d x cur} \<le> n"
  shows "\<exists>bm'. blame_loop E d fl target n cur cm U bm = Inr bm'"
  using assms(2-4)
proof (induction n arbitrary: cur cm U bm)
  case 0
  have "finite {x. ancestor E d x cur}" unfolding ancestor_def by (rule commits.finite_reach)
  with 0(3) have "{x. ancestor E d x cur} = {}" by simp
  with ancestor_refl [of E d cur] have False by blast
  then show ?case ..
next
  case (Suc n)
  from try_get_commit [OF Suc.prems(2)] obtain c where c: "read_commit E d cur = Inr (Some c)" by blast
  show ?case
  proof (cases "cur = [] \<or> U = {} \<or> parent_hashes c = []")
    case True
    with c show ?thesis by auto
  next
    case False
    then obtain p ps where p: "parent_hashes c = p # ps" by (cases "parent_hashes c") auto
    then have fp: "first_parent E d cur = Some p" using first_parent_read [OF c] by simp
    with Suc.prems(1) obtain pm where pm: "try_get_manifest E d p fl = Inr pm"
      using ancestor_first_parent [OF fp ancestor_refl] by blast
    show ?thesis
    proof (cases pm)
      case None
      with c p pm False show ?thesis by simp
    next
      case (Some m)
      obtain r where r: "diff_manifests m cm = Inr r" using diff_touches by blast
      obtain U1 bm1 where s: "fold (attribute_row cur c target) (touched_rows r) (U, bm) = (U1, bm1)" by fastforce
      have "card {x. ancestor E d x p} \<le> n" using ancestors_less [OF assms(1) fp] Suc.prems(3) by simp
      with Suc.IH [of p m U1 bm1] Suc.prems(1) ancestor_first_parent [OF fp] pm Some
      show ?thesis using c p r s False by simp
    qed
  qed
qed

section \<open>Properties\<close>

lemma blame_rows:
  assumes "mapE (blame_row E d c bm) ies = Inr ls"
  shows "map bl_row_hash ls = map (row_hash o snd) ies \<and> map bl_row_index ls = map fst ies \<and>
    (\<forall>l \<in> set ls. \<forall>b. map_of bm (bl_row_hash l) = Some b \<longrightarrow>
       bl_commit_hash l = be_commit_hash b \<and> bl_author l = be_author b \<and> bl_timestamp l = be_timestamp b)"
  using assms
  by (induction ies arbitrary: ls) (auto simp: bindE_eq_Inr blame_row_def Let_def split: prod.splits)

text \<open>
  C21: blame returns, with fuel for the ancestors of the commit, when no commit is its own ancestor
  and the versions of the file in them can be read. Its lines are the rows of the file in order,
  and each is attributed to the first commit on the chain of first parents that introduces its
  row, with the author and the time of that commit.
\<close>

theorem blame_first_introducer:
  assumes "acyclic (commits.edges E d)"
    and "\<forall>x. ancestor E d x c \<longrightarrow> (\<exists>y. try_get_manifest E d x fl = Inr y)"
    and "get_manifest_for_file E d c fl = Inr (m, mh)"
    and "\<forall>e \<in> set (entries m). \<exists>p. content_preview E d 60 (row_hash e) = Inr p"
    and "card {x. ancestor E d x c} \<le> n"
  shows "\<exists>r. blame_file E d n c fl = Inr r \<and> map bl_row_hash (br_lines r) = map row_hash (entries m) \<and>
    map bl_row_index (br_lines r) = [0..<length (entries m)] \<and>
    (\<forall>l \<in> set (br_lines r). introduced_by E d fl (bl_row_hash l) c (bl_commit_hash l) \<and>
       (\<exists>x. read_commit E d (bl_commit_hash l) = Inr (Some x) \<and> bl_author l = author x \<and> bl_timestamp l = timestamp x))"
proof -
  have t: "try_get_manifest E d c fl = Inr (Some m)" using assms(3) by (simp add: try_get_manifest_def)
  obtain bm where bm: "blame_loop E d fl m n c m (hashes m) [] = Inr bm"
    using blame_loop_total [OF assms(1,2) t assms(5)] by blast
  let ?ies = "zip [0..<length (entries m)] (entries m)"
  have "\<exists>ls. mapE (blame_row E d c bm) ?ies = Inr ls"
  proof -
    have "\<exists>ls. mapE (blame_row E d c bm) ies = Inr ls" if "snd ` set ies \<subseteq> set (entries m)" for ies
      using that by (induction ies) (use assms(4) in \<open>fastforce simp: blame_row_def Let_def split: prod.splits\<close>)+
    moreover have "snd ` set ?ies \<subseteq> set (entries m)" by (auto dest: set_zip_rightD)
    ultimately show ?thesis by blast
  qed
  then obtain ls where ls: "mapE (blame_row E d c bm) ?ies = Inr ls" ..
  note rows = blame_rows [OF ls]
  have "map (row_hash o snd) ?ies = map row_hash (map snd ?ies)" by (simp only: map_map)
  then have hs: "map bl_row_hash ls = map row_hash (entries m)" using rows by (simp only: map_snd_zip length_upt diff_zero)
  have "introduced_by E d fl (bl_row_hash l) c (bl_commit_hash l) \<and>
       (\<exists>x. read_commit E d (bl_commit_hash l) = Inr (Some x) \<and> bl_author l = author x \<and> bl_timestamp l = timestamp x)"
    if l: "l \<in> set ls" for l
  proof -
    have "bl_row_hash l \<in> hashes m" using l hs unfolding hashes_def by (metis image_eqI set_map)
    with blame_loop_correct [OF bm t, of "bl_row_hash l"] obtain b
      where b: "map_of bm (bl_row_hash l) = Some b" "blame_of E d fl c (bl_row_hash l) b" by blast
    with rows l have "bl_commit_hash l = be_commit_hash b" "bl_author l = be_author b" "bl_timestamp l = be_timestamp b" by auto
    with b(2) show ?thesis by (auto simp: blame_of_def)
  qed
  with hs rows bm ls assms(3) show ?thesis by (simp add: blame_file_def)
qed

lemma data_file: "get_manifest_for_file demo_env data_disk data_head (str ''t'') =
    Inr (demo_manifest, demo_digest (serialize_manifest demo_manifest))"
  by (simp add: get_manifest_for_file_def data_read_commit data_flat data_read lstrip_slash_def str_def)

theorem blame_first_introducer_witness:
  "\<exists>r. blame_file demo_env data_disk 1 data_head (str ''t'') = Inr r \<and> length (br_lines r) = 1"
proof -
  have anc: "{x. ancestor demo_env data_disk x data_head} = {data_head}" using data_ancestor by auto
  have "commits.edges demo_env data_disk = {}" by (auto simp: commits.edges_def data_parents)
  then have a: "acyclic (commits.edges demo_env data_disk)" by (simp add: acyclic_def)
  have t: "\<forall>x. ancestor demo_env data_disk x data_head \<longrightarrow> (\<exists>y. try_get_manifest demo_env data_disk x (str ''t'') = Inr y)"
    using data_ancestor data_file by (fastforce simp: try_get_manifest_def)
  have p: "\<forall>e \<in> set (entries demo_manifest). \<exists>p. content_preview demo_env data_disk 60 (row_hash e) = Inr p"
    by (simp add: demo_manifest_def content_preview_def data_read)
  obtain r where r: "blame_file demo_env data_disk 1 data_head (str ''t'') = Inr r"
    "map bl_row_hash (br_lines r) = map row_hash (entries demo_manifest)"
    using blame_first_introducer [OF a t data_file p, of 1] anc by (auto simp del: One_nat_def)
  then have "length (br_lines r) = 1" using map_eq_imp_length_eq [OF r(2)] by (simp add: demo_manifest_def)
  with r(1) show ?thesis by blast
qed

end
