(* ===== verification/Dit_Query.thy ===== *)
theory Dit_Query
  imports Dit_Demo
begin

text \<open>
  Queries over the rows of a commit: \<open>src/dit/core/dedup.py\<close> and \<open>src/dit/core/search.py\<close>. How
  Python prints a float, the \<open>repr\<close> of a string and a quotient rounded to two digits is a record
  \<open>pyfmt\<close>, the Unicode tables of
  \<open>str.lower\<close> are in \<open>env\<close>. Digits in a field path are ASCII digits.
\<close>

section \<open>The files of a commit\<close>

definition commit_flat :: "env \<Rightarrow> disk \<Rightarrow> pystr \<Rightarrow> flat_entry dict res" where
  "commit_flat E d commit_hash =
     bindE (must FileNotFoundError (read_commit E d commit_hash)) (\<lambda>c.
       flatten_tree E d (rec_limit E) (tree_hash c) [])"

text \<open>\<open>sorted(flat.items())\<close>: the paths are distinct.\<close>

definition sorted_items :: "'v dict \<Rightarrow> 'v dict" where
  "sorted_items d = sort_key fst d"

definition row_preview :: "env \<Rightarrow> disk \<Rightarrow> pystr \<Rightarrow> pystr res" where
  "row_preview E d rh =
     bindE (store_read E d (str ''rows'') rh) (\<lambda>x. Inr (case x of
       None \<Rightarrow> []
     | Some data \<Rightarrow> let text = utf8_replace data in
         if 60 < length text then take 60 text @ str ''...'' else text))"

text \<open>\<open>enumerate(xs)\<close>.\<close>

definition py_enumerate :: "'a list \<Rightarrow> (nat \<times> 'a) list" where
  "py_enumerate xs = zip [0..<length xs] xs"

section \<open>Duplicates\<close>

record dedup_state =
  row_hash_index :: "(pystr \<times> nat) list dict"
  qfp_index :: "(pystr \<times> nat \<times> pystr) list dict"
  dd_total_rows :: nat
  dd_total_files :: nat

definition dedup_row :: "pystr \<Rightarrow> nat \<times> manifest_entry \<Rightarrow> dedup_state \<Rightarrow> dedup_state" where
  "dedup_row path ie s =
     (let (idx, e) = ie in
      s\<lparr>dd_total_rows := Suc (dd_total_rows s),
        row_hash_index := dict_append (row_hash e) (path, idx) (row_hash_index s),
        qfp_index := (if truthy (query_fingerprint e)
          then dict_append (the (query_fingerprint e)) (path, idx, row_hash e) (qfp_index s) else qfp_index s)\<rparr>)"

definition dedup_file :: "env \<Rightarrow> disk \<Rightarrow> pystr option \<Rightarrow> pystr \<times> flat_entry \<Rightarrow> dedup_state \<Rightarrow> dedup_state res" where
  "dedup_file E d path_prefix item s =
     (let (path, obj_type, obj_hash, _) = item in
      if obj_type \<noteq> str ''manifest'' then Inr s
      else if truthy path_prefix \<and> \<not> py_startswith path (the path_prefix) then Inr s
      else let s = s\<lparr>dd_total_files := Suc (dd_total_files s)\<rparr> in
        bindE (read_manifest E d obj_hash) (\<lambda>x. Inr (case x of
          None \<Rightarrow> s
        | Some m \<Rightarrow> fold (dedup_row path) (py_enumerate (entries m)) s)))"

definition dedup_start :: dedup_state where
  "dedup_start = \<lparr>row_hash_index = [], qfp_index = [], dd_total_rows = 0, dd_total_files = 0\<rparr>"

record exact_group =
  eg_row_hash :: pystr
  eg_count :: nat
  eg_occurrences :: "(pystr \<times> nat \<times> pystr) list"

record query_group =
  qg_fingerprint :: pystr
  qg_count :: nat
  qg_row_hashes :: "pystr list"
  qg_occurrences :: "(pystr \<times> nat \<times> pystr \<times> pystr) list"

text \<open>\<open>sorted(index.items(), key=lambda x: -len(x[1]))\<close>, a stable sort.\<close>

definition by_size :: "'v list dict \<Rightarrow> 'v list dict" where
  "by_size d = sort_key (\<lambda>kv. - int (length (snd kv))) d"

definition exact_groups :: "env \<Rightarrow> disk \<Rightarrow> dedup_state \<Rightarrow> exact_group list res" where
  "exact_groups E d s =
     mapE (\<lambda>(rh, occs). bindE (row_preview E d rh) (\<lambda>p.
         Inr \<lparr>eg_row_hash = rh, eg_count = length occs, eg_occurrences = map (\<lambda>(f, i). (f, i, p)) occs\<rparr>))
       (filter (\<lambda>kv. 1 < length (snd kv)) (by_size (row_hash_index s)))"

definition query_groups :: "env \<Rightarrow> disk \<Rightarrow> dedup_state \<Rightarrow> query_group list res" where
  "query_groups E d s =
     mapE (\<lambda>(q, occs).
         bindE (mapE (\<lambda>(f, i, rh). bindE (row_preview E d rh) (\<lambda>p. Inr (f, i, rh, p))) occs) (\<lambda>os.
         Inr \<lparr>qg_fingerprint = q, qg_count = length occs,
              qg_row_hashes = set_order E (map (\<lambda>(f, i, rh). rh) occs), qg_occurrences = os\<rparr>))
       (filter (\<lambda>kv. 1 < length (snd kv) \<and> 1 < length (set_order E (map (\<lambda>(f, i, rh). rh) (snd kv))))
         (by_size (qfp_index s)))"

record dedup_report =
  dr_commit :: pystr
  exact_duplicates :: "exact_group list"
  query_duplicates :: "query_group list"
  dr_total_rows :: nat
  dr_total_files :: nat
  exact_dup_groups :: nat
  exact_dup_rows :: nat
  query_dup_groups :: nat
  query_dup_rows :: nat
  dr_severity :: pystr

definition detect_duplicates :: "env \<Rightarrow> disk \<Rightarrow> pystr \<Rightarrow> pystr option \<Rightarrow> dedup_report res" where
  "detect_duplicates E d commit_hash path_prefix =
     bindE (commit_flat E d commit_hash) (\<lambda>flat.
     bindE (foldE (dedup_file E d path_prefix) flat dedup_start) (\<lambda>s.
     bindE (exact_groups E d s) (\<lambda>eg.
     bindE (query_groups E d s) (\<lambda>qg.
       Inr \<lparr>dr_commit = commit_hash, exact_duplicates = eg, query_duplicates = qg,
            dr_total_rows = dd_total_rows s, dr_total_files = dd_total_files s,
            exact_dup_groups = length eg, exact_dup_rows = sum_list (map eg_count eg),
            query_dup_groups = length qg, query_dup_rows = sum_list (map qg_count qg),
            dr_severity = (if eg \<noteq> [] then str ''warning'' else if qg \<noteq> [] then str ''info'' else str ''clean'')\<rparr>))))"

section \<open>What is grouped\<close>

lemma dict_append_lookup:
  "map_of (dict_append k v d) l =
     (if l = k then Some ((case map_of d k of None \<Rightarrow> [] | Some vs \<Rightarrow> vs) @ [v]) else map_of d l)"
  by (simp add: dict_append_def update_conv')

lemma wf_dict_append [simp]: "wf_dict d \<Longrightarrow> wf_dict (dict_append k v d)"
  by (simp add: dict_append_def)

text \<open>The rows of the selected files: path, index and entry.\<close>

definition positions_of :: "env \<Rightarrow> disk \<Rightarrow> pystr option \<Rightarrow> pystr \<times> flat_entry \<Rightarrow> (pystr \<times> nat \<times> manifest_entry) list" where
  "positions_of E d path_prefix item =
     (let (path, obj_type, obj_hash, _) = item in
      if obj_type = str ''manifest'' \<and> (truthy path_prefix \<longrightarrow> py_startswith path (the path_prefix))
      then (case read_manifest E d obj_hash of
              Inr (Some m) \<Rightarrow> map (\<lambda>(i, e). (path, i, e)) (py_enumerate (entries m))
            | _ \<Rightarrow> [])
      else [])"

definition all_positions :: "env \<Rightarrow> disk \<Rightarrow> pystr option \<Rightarrow> flat_entry dict \<Rightarrow> (pystr \<times> nat \<times> manifest_entry) list" where
  "all_positions E d path_prefix flat = concat (map (positions_of E d path_prefix) flat)"

text \<open>The index holds, for each hash, the positions of its rows in order.\<close>

definition indexed :: "dedup_state \<Rightarrow> (pystr \<times> nat \<times> manifest_entry) list \<Rightarrow> bool" where
  "indexed s ps \<longleftrightarrow> wf_dict (row_hash_index s) \<and> wf_dict (qfp_index s) \<and> dd_total_rows s = length ps \<and>
     (\<forall>h. (case map_of (row_hash_index s) h of None \<Rightarrow> [] | Some os \<Rightarrow> os) =
        map (\<lambda>(f, i, e). (f, i)) (filter (\<lambda>(f, i, e). row_hash e = h) ps)) \<and>
     (\<forall>h os. map_of (row_hash_index s) h = Some os \<longrightarrow> os \<noteq> []) \<and>
     (\<forall>q. q \<noteq> [] \<longrightarrow> (case map_of (qfp_index s) q of None \<Rightarrow> [] | Some os \<Rightarrow> os) =
        map (\<lambda>(f, i, e). (f, i, row_hash e)) (filter (\<lambda>(f, i, e). query_fingerprint e = Some q) ps)) \<and>
     (\<forall>q os. map_of (qfp_index s) q = Some os \<longrightarrow> os \<noteq> [] \<and> q \<noteq> [])"

lemma indexed_row:
  assumes "indexed s ps"
  shows "indexed (dedup_row f (i, e) s) (ps @ [(f, i, e)])"
  using assms unfolding indexed_def dedup_row_def
  by (cases "query_fingerprint e") (auto simp: dict_append_lookup Let_def)

lemma indexed_rows: "indexed s ps \<Longrightarrow> indexed (fold (dedup_row f) ies s) (ps @ map (\<lambda>(i, e). (f, i, e)) ies)"
proof (induction ies arbitrary: s ps)
  case (Cons ie ies)
  obtain i e where ie: "ie = (i, e)" by (cases ie)
  from Cons.IH [OF indexed_row [OF Cons.prems, of f i e]] show ?case by (simp add: ie)
qed simp

lemma indexed_file:
  assumes "dedup_file E d path_prefix item s = Inr s'" and "indexed s ps"
  shows "indexed s' (ps @ positions_of E d path_prefix item)"
proof -
  obtain path ty h sc where item: "item = (path, ty, h, sc)" by (cases item)
  let ?sel = "ty = str ''manifest'' \<and> (truthy path_prefix \<longrightarrow> py_startswith path (the path_prefix))"
  define t where "t = s\<lparr>dd_total_files := Suc (dd_total_files s)\<rparr>"
  have t: "indexed t ps" using assms(2) by (simp add: indexed_def t_def)
  show ?thesis
  proof (cases ?sel)
    case True
    then have "bindE (read_manifest E d h) (\<lambda>x. Inr (case x of None \<Rightarrow> t
        | Some m \<Rightarrow> fold (dedup_row path) (py_enumerate (entries m)) t)) = Inr s'"
      using assms(1) unfolding t_def by (auto simp: item dedup_file_def Let_def)
    then obtain x where x: "read_manifest E d h = Inr x"
      "s' = (case x of None \<Rightarrow> t | Some m \<Rightarrow> fold (dedup_row path) (py_enumerate (entries m)) t)"
      by (auto simp: bindE_eq_Inr)
    have "positions_of E d path_prefix item = (case x of None \<Rightarrow> []
        | Some m \<Rightarrow> map (\<lambda>(i, e). (path, i, e)) (py_enumerate (entries m)))"
      using True x(1) by (cases x) (simp_all add: item positions_of_def)
    with x(2) t indexed_rows [OF t, of path] show ?thesis by (cases x) simp_all
  next
    case False
    then have "s' = s" using assms(1) by (auto simp: item dedup_file_def split: if_splits)
    moreover have "positions_of E d path_prefix item = []" using False by (auto simp: item positions_of_def)
    ultimately show ?thesis using assms(2) by simp
  qed
qed

lemma indexed_files:
  "foldE (dedup_file E d path_prefix) items s = Inr s' \<Longrightarrow> indexed s ps \<Longrightarrow>
     indexed s' (ps @ concat (map (positions_of E d path_prefix) items))"
proof (induction items arbitrary: s ps)
  case (Cons item items)
  then obtain s1 where s1: "dedup_file E d path_prefix item s = Inr s1" "foldE (dedup_file E d path_prefix) items s1 = Inr s'"
    by (auto simp: bindE_eq_Inr)
  from Cons.IH [OF s1(2) indexed_file [OF s1(1) Cons.prems(2)]] show ?case by simp
qed simp

lemma mapE_keys:
  assumes "mapE f xs = Inr ys" and "\<And>x y. f x = Inr y \<Longrightarrow> k y = g x"
  shows "map k ys = map g xs"
  using assms(1) by (induction xs arbitrary: ys) (auto simp: bindE_eq_Inr assms(2))

lemma mapE_nth:
  assumes "mapE f xs = Inr ys" and "y \<in> set ys"
  shows "\<exists>x \<in> set xs. f x = Inr y"
  using assms by (induction xs arbitrary: ys) (auto simp: bindE_eq_Inr)

lemma indexed_start: "indexed dedup_start []"
  by (simp add: indexed_def dedup_start_def)

text \<open>The positions of the rows with a given hash.\<close>

definition hash_positions :: "pystr \<Rightarrow> (pystr \<times> nat \<times> manifest_entry) list \<Rightarrow> (pystr \<times> nat) list" where
  "hash_positions h ps = map (\<lambda>(f, i, e). (f, i)) (filter (\<lambda>(f, i, e). row_hash e = h) ps)"

lemma indexed_lookup:
  assumes "indexed s ps" and "(h, os) \<in> set (row_hash_index s)"
  shows "os = hash_positions h ps"
proof -
  have "map_of (row_hash_index s) h = Some os"
    using assms by (auto simp: indexed_def intro: map_of_is_SomeI wf_dict_mem [of _ "(h, os)", simplified])
  moreover have "(case map_of (row_hash_index s) h of None \<Rightarrow> [] | Some os \<Rightarrow> os) = hash_positions h ps"
    using assms(1) by (simp add: indexed_def hash_positions_def)
  ultimately show ?thesis by simp
qed

lemma indexed_present:
  assumes "indexed s ps" and "hash_positions h ps \<noteq> []"
  shows "(h, hash_positions h ps) \<in> set (row_hash_index s)"
proof -
  have "(case map_of (row_hash_index s) h of None \<Rightarrow> [] | Some os \<Rightarrow> os) = hash_positions h ps"
    using assms(1) by (simp add: indexed_def hash_positions_def)
  then have "map_of (row_hash_index s) h = Some (hash_positions h ps)"
    using assms(2) by (cases "map_of (row_hash_index s) h") auto
  then show ?thesis by (rule map_of_SomeD)
qed

lemma exact_group_of:
  assumes "exact_groups E d s = Inr gs"
  shows "map (\<lambda>g. (eg_row_hash g, map (\<lambda>(f, i, p). (f, i)) (eg_occurrences g))) gs =
      filter (\<lambda>kv. 1 < length (snd kv)) (by_size (row_hash_index s))"
    and "\<And>g. g \<in> set gs \<Longrightarrow> eg_count g = length (eg_occurrences g)"
proof -
  let ?f = "\<lambda>(rh, occs). bindE (row_preview E d rh) (\<lambda>p.
         Inr \<lparr>eg_row_hash = rh, eg_count = length occs, eg_occurrences = map (\<lambda>(f, i). (f, i, p)) occs\<rparr>)"
  have m: "mapE ?f (filter (\<lambda>kv. 1 < length (snd kv)) (by_size (row_hash_index s))) = Inr gs"
    using assms by (simp add: exact_groups_def)
  have "map (\<lambda>g. (eg_row_hash g, map (\<lambda>(f, i, p). (f, i)) (eg_occurrences g))) gs =
      map (\<lambda>kv. kv) (filter (\<lambda>kv. 1 < length (snd kv)) (by_size (row_hash_index s)))"
    by (rule mapE_keys [OF m]) (auto simp: bindE_eq_Inr comp_def split_beta)
  then show "map (\<lambda>g. (eg_row_hash g, map (\<lambda>(f, i, p). (f, i)) (eg_occurrences g))) gs =
      filter (\<lambda>kv. 1 < length (snd kv)) (by_size (row_hash_index s))" by simp
  show "eg_count g = length (eg_occurrences g)" if "g \<in> set gs" for g
    using mapE_nth [OF m that] by (auto simp: bindE_eq_Inr)
qed

text \<open>The sizes of the groups of one hash each add up to the number of positions with such a hash.\<close>

lemma length_hash_positions: "length (hash_positions h ps) = length (filter (\<lambda>(f, i, e). row_hash e = h) ps)"
  by (simp add: hash_positions_def)

lemma sum_hash_positions:
  assumes "distinct hs"
  shows "sum_list (map (\<lambda>h. length (hash_positions h ps)) hs) = length (filter (\<lambda>(f, i, e). row_hash e \<in> set hs) ps)"
  using assms
proof (induction hs)
  case (Cons h hs)
  have "length (filter (\<lambda>(f, i, e). row_hash e \<in> set (h # hs)) ps) =
      length (filter (\<lambda>(f, i, e). row_hash e = h) ps) + length (filter (\<lambda>(f, i, e). row_hash e \<in> set hs) ps)"
    using Cons.prems by (induction ps) auto
  with Cons show ?case by (simp add: length_hash_positions)
qed simp

lemma by_size_sorted: "sorted_wrt (\<lambda>a b. length (snd b) \<le> length (snd a)) (filter P (by_size d))"
proof -
  have "sorted (map (\<lambda>kv. - int (length (snd kv))) (filter P (by_size d)))"
    unfolding by_size_def by (rule sorted_filter) simp
  then show ?thesis by (simp add: sorted_map)
qed

text \<open>
  C22: Duplicate detection is exact. Over the rows of the selected files of the commit, there is
  one exact group for each row hash that occurs at least twice and no other; a group lists all
  positions of its hash, in order; the groups come largest first; the totals count the rows and
  the rows with a duplicate.
\<close>

theorem dedup_exact:
  assumes "detect_duplicates E d commit_hash path_prefix = Inr r"
  shows "\<exists>flat ps. commit_flat E d commit_hash = Inr flat \<and> ps = all_positions E d path_prefix flat \<and>
     dr_total_rows r = length ps \<and>
     distinct (map eg_row_hash (exact_duplicates r)) \<and>
     eg_row_hash ` set (exact_duplicates r) = {h. 2 \<le> length (hash_positions h ps)} \<and>
     (\<forall>g \<in> set (exact_duplicates r).
        map (\<lambda>(f, i, p). (f, i)) (eg_occurrences g) = hash_positions (eg_row_hash g) ps \<and>
        eg_count g = length (hash_positions (eg_row_hash g) ps)) \<and>
     sorted_wrt (\<lambda>a b. eg_count b \<le> eg_count a) (exact_duplicates r) \<and>
     exact_dup_groups r = length (exact_duplicates r) \<and>
     exact_dup_rows r = length (filter (\<lambda>(f, i, e). 2 \<le> length (hash_positions (row_hash e) ps)) ps) \<and>
     (dr_severity r = str ''warning'' \<longleftrightarrow> (\<exists>h. 2 \<le> length (hash_positions h ps)))"
proof -
  from assms obtain flat s gs qs where flat: "commit_flat E d commit_hash = Inr flat"
    and s: "foldE (dedup_file E d path_prefix) flat dedup_start = Inr s"
    and gs: "exact_groups E d s = Inr gs"
    and qs: "query_groups E d s = Inr qs"
    by (auto simp: detect_duplicates_def bindE_eq_Inr)
  have r: "exact_duplicates r = gs" "dr_total_rows r = dd_total_rows s" "exact_dup_groups r = length gs"
      "exact_dup_rows r = sum_list (map eg_count gs)"
      "dr_severity r = (if gs \<noteq> [] then str ''warning'' else if qs \<noteq> [] then str ''info'' else str ''clean'')"
    using assms by (auto simp: detect_duplicates_def flat s gs qs)
  define ps where "ps = all_positions E d path_prefix flat"
  have ix: "indexed s ps" using indexed_files [OF s indexed_start] by (simp add: ps_def all_positions_def)
  let ?kvs = "filter (\<lambda>kv. 1 < length (snd kv)) (by_size (row_hash_index s))"
  have keys: "map (\<lambda>g. (eg_row_hash g, map (\<lambda>(f, i, p). (f, i)) (eg_occurrences g))) gs = ?kvs"
    and count: "\<And>g. g \<in> set gs \<Longrightarrow> eg_count g = length (eg_occurrences g)"
    using exact_group_of [OF gs] by auto
  have hashes: "map eg_row_hash gs = map fst ?kvs" using arg_cong [OF keys, of "map fst"] by (simp add: comp_def)
  have occ: "map (\<lambda>(f, i, p). (f, i)) (eg_occurrences g) = hash_positions (eg_row_hash g) ps" if "g \<in> set gs" for g
  proof -
    have "(eg_row_hash g, map (\<lambda>(f, i, p). (f, i)) (eg_occurrences g)) \<in> set ?kvs"
      unfolding keys [symmetric] using that by force
    then show ?thesis by (intro indexed_lookup [OF ix]) (simp add: by_size_def)
  qed
  have cnt: "eg_count g = length (hash_positions (eg_row_hash g) ps)" if "g \<in> set gs" for g
    using count [OF that] occ [OF that] by (metis length_map)
  have "wf_dict (by_size (row_hash_index s))" using ix by (simp add: indexed_def by_size_def)
  then have dist: "distinct (map eg_row_hash gs)" by (simp add: hashes wf_dict_def distinct_map_filter)
  have "fst ` set ?kvs = {h. 2 \<le> length (hash_positions h ps)}"
  proof (intro equalityI subsetI)
    fix h assume "h \<in> fst ` set ?kvs"
    then obtain os where "(h, os) \<in> set (row_hash_index s)" "1 < length os" by (auto simp: by_size_def)
    with indexed_lookup [OF ix] show "h \<in> {h. 2 \<le> length (hash_positions h ps)}" by auto
  next
    fix h assume h: "h \<in> {h. 2 \<le> length (hash_positions h ps)}"
    then have "(h, hash_positions h ps) \<in> set (row_hash_index s)" by (intro indexed_present [OF ix]) auto
    with h have "(h, hash_positions h ps) \<in> set ?kvs" by (simp add: by_size_def)
    then show "h \<in> fst ` set ?kvs" by force
  qed
  then have hs: "eg_row_hash ` set gs = {h. 2 \<le> length (hash_positions h ps)}"
    using arg_cong [OF hashes, of set] by simp
  have "sorted_wrt (\<lambda>a b. length (eg_occurrences b) \<le> length (eg_occurrences a)) gs"
    using by_size_sorted [of "\<lambda>kv. 1 < length (snd kv)" "row_hash_index s"] unfolding keys [symmetric]
    by (simp add: sorted_wrt_map)
  then have sorted: "sorted_wrt (\<lambda>a b. eg_count b \<le> eg_count a) gs"
    by (rule sorted_wrt_mono_rel [rotated]) (simp add: count)
  have "sum_list (map eg_count gs) = sum_list (map (\<lambda>h. length (hash_positions h ps)) (map eg_row_hash gs))"
    by (simp add: cnt comp_def cong: map_cong)
  then have rows: "sum_list (map eg_count gs) =
      length (filter (\<lambda>(f, i, e). 2 \<le> length (hash_positions (row_hash e) ps)) ps)"
    using sum_hash_positions [OF dist, of ps] by (simp add: hs)
  have sev: "dr_severity r = str ''warning'' \<longleftrightarrow> (\<exists>h. 2 \<le> length (hash_positions h ps))"
    using hs by (cases gs) (auto simp: r(5))
  show ?thesis
    by (rule exI [of _ flat], rule exI [of _ ps])
       (use flat ix dist hs occ cnt sorted rows sev r(1-4) ps_def in \<open>simp add: indexed_def\<close>)
qed

lemma data_commit_flat: "commit_flat demo_env data_disk data_head =
    Inr [(str ''t'', (str ''manifest'', demo_digest (serialize_manifest demo_manifest), None))]"
  by (simp add: commit_flat_def data_read_commit must_def data_flat)

theorem dedup_exact_witness:
  "\<exists>r. detect_duplicates demo_env data_disk data_head None = Inr r \<and> dr_total_rows r = 1"
proof -
  have "row_hash_index s = [(demo_digest [123, 125], [(str ''t'', 0)])] \<Longrightarrow> exact_groups demo_env data_disk s = Inr []" for s
    by (simp add: exact_groups_def by_size_def)
  moreover have "qfp_index s = [] \<Longrightarrow> query_groups demo_env data_disk s = Inr []" for s
    by (simp add: query_groups_def by_size_def)
  ultimately obtain r where r: "detect_duplicates demo_env data_disk data_head None = Inr r"
    by (simp add: detect_duplicates_def data_commit_flat dedup_file_def data_read data_entries py_enumerate_def
        dedup_start_def dedup_row_def dict_append_def Let_def)
  have "length (all_positions demo_env data_disk None
      [(str ''t'', (str ''manifest'', demo_digest (serialize_manifest demo_manifest), None))]) = 1"
    by (simp add: all_positions_def positions_of_def data_read data_entries py_enumerate_def)
  with dedup_exact [OF r] r show ?thesis by (auto simp: data_commit_flat)
qed

section \<open>Search\<close>

record pyfmt =
  float_repr :: "pystr \<Rightarrow> pystr"
  str_repr :: "pystr \<Rightarrow> pystr"
  round2_div :: "int \<times> int \<Rightarrow> pystr"

text \<open>Strings as \<open>json.dumps(v, ensure_ascii=False)\<close> prints them.\<close>

definition raw_char :: "nat \<Rightarrow> pystr" where
  "raw_char c =
     (if c = 34 then [92, 34] else if c = 92 then [92, 92] else if c = 10 then [92, 110]
      else if c = 13 then [92, 114] else if c = 9 then [92, 116] else if c = 12 then [92, 102]
      else if c = 8 then [92, 98] else if c < 32 then esc_u c else [c])"

definition raw_string :: "pystr \<Rightarrow> pystr" where
  "raw_string s = 34 # concat (map raw_char s) @ [34]"

fun sep_join :: "pystr \<Rightarrow> pystr list \<Rightarrow> pystr" where
  "sep_join sep [] = []"
| "sep_join sep [w] = w"
| "sep_join sep (w # v # ws) = w @ sep @ sep_join sep (v # ws)"

text \<open>
  \<open>json.dumps(v)\<close> with the given separators; \<open>quote\<close> prints a string, escaping what is not ASCII
  (\<open>json_string\<close>) or not (\<open>raw_string\<close>).
\<close>

fun json_text :: "(pystr \<Rightarrow> pystr) \<Rightarrow> pyfmt \<Rightarrow> pystr \<Rightarrow> pystr \<Rightarrow> json \<Rightarrow> pystr" where
  "json_text quote F comma colon JNull = str ''null''"
| "json_text quote F comma colon (JBool b) = (if b then str ''true'' else str ''false'')"
| "json_text quote F comma colon (JInt i) = int_str i"
| "json_text quote F comma colon (JFloat l) = float_repr F l"
| "json_text quote F comma colon (JStr s) = quote s"
| "json_text quote F comma colon (JArr vs) = 91 # sep_join comma (map (json_text quote F comma colon) vs) @ [93]"
| "json_text quote F comma colon (JObj kvs) =
     123 # sep_join comma (map (\<lambda>kv. quote (fst kv) @ colon @ json_text quote F comma colon (snd kv)) kvs) @ [125]"

text \<open>\<open>repr(v)\<close> and \<open>str(v)\<close> of the Python value of a JSON value.\<close>

fun py_repr :: "pyfmt \<Rightarrow> json \<Rightarrow> pystr" where
  "py_repr F JNull = str ''None''"
| "py_repr F (JBool b) = (if b then str ''True'' else str ''False'')"
| "py_repr F (JInt i) = int_str i"
| "py_repr F (JFloat l) = float_repr F l"
| "py_repr F (JStr s) = str_repr F s"
| "py_repr F (JArr vs) = 91 # sep_join (str '', '') (map (py_repr F) vs) @ [93]"
| "py_repr F (JObj kvs) =
     123 # sep_join (str '', '') (map (\<lambda>kv. str_repr F (fst kv) @ str '': '' @ py_repr F (snd kv)) kvs) @ [125]"

fun py_str :: "pyfmt \<Rightarrow> json \<Rightarrow> pystr" where
  "py_str F (JStr s) = s"
| "py_str F v = py_repr F v"

text \<open>A segment \<open>key[n]\<close> of a field path.\<close>

definition index_segment :: "pystr \<Rightarrow> (pystr \<times> nat) option" where
  "index_segment seg =
     (let key = takeWhile (\<lambda>c. c \<noteq> 91) seg; rest = drop (length key) seg in
      if key \<noteq> [] \<and> 3 \<le> length rest \<and> last rest = 93 \<and> (\<forall>c \<in> set (butlast (tl rest)). is_digit c)
      then Some (key, digits_val (butlast (tl rest))) else None)"

text \<open>\<open>None\<close> and JSON \<open>null\<close> are the same Python value, here \<open>JNull\<close>.\<close>

fun resolve_field :: "json \<Rightarrow> pystr list \<Rightarrow> json" where
  "resolve_field current [] = current"
| "resolve_field current (segment # segments) =
     (if current = JNull then JNull
      else case index_segment segment of
        Some (key, idx) \<Rightarrow>
          (case current of
             JObj kvs \<Rightarrow> (case map_of kvs key of
               Some (JArr vs) \<Rightarrow> if idx < length vs then resolve_field (vs ! idx) segments else JNull
             | _ \<Rightarrow> JNull)
           | _ \<Rightarrow> JNull)
      | None \<Rightarrow>
          (case current of
             JArr vs \<Rightarrow>
               let results = concat (map (\<lambda>item. case item of
                     JObj kvs \<Rightarrow> (case map_of kvs segment of Some v \<Rightarrow> [v] | None \<Rightarrow> []) | _ \<Rightarrow> []) vs) in
               resolve_field (if results = [] then JNull else JArr results) segments
           | JObj kvs \<Rightarrow> (case map_of kvs segment of None \<Rightarrow> JNull | Some v \<Rightarrow> resolve_field v segments)
           | _ \<Rightarrow> JNull))"

definition make_highlight :: "env \<Rightarrow> pystr \<Rightarrow> pystr \<Rightarrow> nat \<Rightarrow> pystr" where
  "make_highlight E text query context =
     (case py_find (py_lower E query) (py_lower E text) of
        None \<Rightarrow> take (context * 2 + length query) text
      | Some pos \<Rightarrow>
          let start = pos - context; en = min (length text) (pos + length query + context);
              excerpt = take (en - start) (drop start text) in
          (if 0 < start then str ''...'' else []) @ excerpt @ (if en < length text then str ''...'' else []))"

record search_match =
  sm_file :: pystr
  sm_row_index :: nat
  sm_row_hash :: pystr
  sm_content :: json
  sm_highlight :: pystr

text \<open>The text of a row that is searched; \<open>None\<close> when the field is missing.\<close>

definition search_text :: "pyfmt \<Rightarrow> pystr option \<Rightarrow> json \<Rightarrow> pystr option" where
  "search_text F field_path row =
     (case field_path of
        None \<Rightarrow> Some (json_text raw_string F (str '', '') (str '': '') row)
      | Some fp \<Rightarrow>
          (case resolve_field row (split_at 46 fp) of
             JNull \<Rightarrow> None
           | JArr vs \<Rightarrow> Some (sep_join (str '' '') (map (py_str F) vs))
           | v \<Rightarrow> Some (py_str F v)))"

text \<open>One row; the state is the matches, the count of rows scanned, and whether the limit is reached.\<close>

type_synonym search_state = "search_match list \<times> nat \<times> bool"

definition search_row ::
  "env \<Rightarrow> pyfmt \<Rightarrow> disk \<Rightarrow> pystr \<Rightarrow> pystr option \<Rightarrow> int \<Rightarrow> pystr \<Rightarrow> nat \<times> manifest_entry \<Rightarrow> search_state \<Rightarrow> search_state res" where
  "search_row E F d query field_path limit path ie st =
     (let (matches, total_scanned, limit_reached) = st; (row_index, entry) = ie in
      if limit_reached then Inr st
      else bindE (store_read E d (str ''rows'') (row_hash entry)) (\<lambda>x.
        case x of
          None \<Rightarrow> Inr (matches, Suc total_scanned, False)
        | Some row_bytes \<Rightarrow>
            bindE (json_loads_bytes row_bytes) (\<lambda>row.
              case search_text F field_path row of
                None \<Rightarrow> Inr (matches, Suc total_scanned, False)
              | Some text \<Rightarrow>
                  if py_contains (py_lower E query) (py_lower E text)
                  then let matches' = matches @ [\<lparr>sm_file = path, sm_row_index = row_index,
                         sm_row_hash = row_hash entry, sm_content = row,
                         sm_highlight = make_highlight E text query 20\<rparr>] in
                       Inr (matches', Suc total_scanned, int (length matches') = limit)
                  else Inr (matches, Suc total_scanned, False))))"

definition search_file ::
  "env \<Rightarrow> pyfmt \<Rightarrow> disk \<Rightarrow> pystr \<Rightarrow> pystr option \<Rightarrow> pystr option \<Rightarrow> int \<Rightarrow> pystr \<times> flat_entry \<Rightarrow> search_state \<Rightarrow> search_state res" where
  "search_file E F d query clean_prefix field_path limit item st =
     (let (path, obj_type, obj_hash, _) = item in
      if snd (snd st) then Inr st
      else if obj_type \<noteq> str ''manifest'' then Inr st
      else if clean_prefix \<noteq> None \<and> \<not> py_startswith path (the clean_prefix) then Inr st
      else bindE (read_manifest E d obj_hash) (\<lambda>x. case x of
          None \<Rightarrow> Inr st
        | Some m \<Rightarrow> foldE (search_row E F d query field_path limit path) (py_enumerate (entries m)) st))"

record search_report =
  sr_commit :: pystr
  sr_query :: pystr
  sr_field_path :: "pystr option"
  sr_matches :: "search_match list"
  sr_total_scanned :: nat
  sr_limit_reached :: bool

definition search_rows ::
  "env \<Rightarrow> pyfmt \<Rightarrow> disk \<Rightarrow> pystr \<Rightarrow> pystr \<Rightarrow> pystr option \<Rightarrow> pystr option \<Rightarrow> int \<Rightarrow> search_report res" where
  "search_rows E F d commit_hash query path_prefix field_path limit =
     bindE (commit_flat E d commit_hash) (\<lambda>flat.
       let clean_prefix = (if truthy path_prefix then Some (lstrip_slash (the path_prefix)) else None) in
       bindE (foldE (search_file E F d query clean_prefix field_path limit) (sorted_items flat) ([], 0, False))
         (\<lambda>(matches, total_scanned, limit_reached).
           Inr \<lparr>sr_commit = commit_hash, sr_query = query, sr_field_path = field_path, sr_matches = matches,
                sr_total_scanned = total_scanned, sr_limit_reached = limit_reached\<rparr>))"

section \<open>What is found\<close>

text \<open>The match a row gives, if any.\<close>

definition hit ::
  "env \<Rightarrow> pyfmt \<Rightarrow> disk \<Rightarrow> pystr \<Rightarrow> pystr option \<Rightarrow> pystr \<times> nat \<times> manifest_entry \<Rightarrow> search_match option res" where
  "hit E F d query field_path pos =
     (let (path, i, e) = pos in
      bindE (store_read E d (str ''rows'') (row_hash e)) (\<lambda>x. case x of
        None \<Rightarrow> Inr None
      | Some b \<Rightarrow> bindE (json_loads_bytes b) (\<lambda>row. Inr (case search_text F field_path row of
          None \<Rightarrow> None
        | Some text \<Rightarrow> if py_contains (py_lower E query) (py_lower E text)
            then Some \<lparr>sm_file = path, sm_row_index = i, sm_row_hash = row_hash e, sm_content = row,
                       sm_highlight = make_highlight E text query 20\<rparr>
            else None))))"

definition found :: "'a option list \<Rightarrow> 'a list" where
  "found xs = concat (map (\<lambda>x. case x of None \<Rightarrow> [] | Some y \<Rightarrow> [y]) xs)"

lemma found_append [simp]: "found (xs @ ys) = found xs @ found ys" "found [None] = []" "found [Some y] = [y]" "found [] = []"
  by (simp_all add: found_def)

definition scanned ::
  "env \<Rightarrow> pyfmt \<Rightarrow> disk \<Rightarrow> pystr \<Rightarrow> pystr option \<Rightarrow> int \<Rightarrow> (pystr \<times> nat \<times> manifest_entry) list \<Rightarrow> search_state \<Rightarrow> bool" where
  "scanned E F d query field_path limit ps st =
     (case st of (ms, n, lr) \<Rightarrow> \<exists>hs. n \<le> length ps \<and>
        mapE (hit E F d query field_path) (take n ps) = Inr hs \<and> ms = found hs \<and>
        (if lr then int (length ms) = limit \<and> hs \<noteq> [] \<and> last hs \<noteq> None
         else n = length ps \<and> (0 < limit \<longrightarrow> int (length ms) < limit)))"

lemma mapE_snoc: "mapE f (xs @ [x]) = bindE (mapE f xs) (\<lambda>ys. bindE (f x) (\<lambda>y. Inr (ys @ [y])))"
  by (induction xs) (simp_all add: bindE_assoc)

lemma search_row_hit:
  "search_row E F d query field_path limit path (i, e) (ms, n, False) =
     bindE (hit E F d query field_path (path, i, e)) (\<lambda>x. Inr (case x of
       None \<Rightarrow> (ms, Suc n, False) | Some m \<Rightarrow> (ms @ [m], Suc n, int (length (ms @ [m])) = limit)))"
proof (cases "store_read E d (str ''rows'') (row_hash e)")
  case (Inr x)
  show ?thesis
  proof (cases x)
    case (Some b)
    then show ?thesis
      by (cases "json_loads_bytes b") (simp_all add: search_row_def hit_def Inr Let_def split: option.splits)
  qed (simp add: search_row_def hit_def Inr)
qed (simp add: search_row_def hit_def)

lemma scanned_row:
  assumes "scanned E F d query field_path limit ps st"
    and "search_row E F d query field_path limit path (i, e) st = Inr st'"
  shows "scanned E F d query field_path limit (ps @ [(path, i, e)]) st'"
proof -
  obtain ms n lr where st: "st = (ms, n, lr)" by (cases st)
  show ?thesis
  proof (cases lr)
    case True
    then have "st' = st" using assms(2) by (simp add: search_row_def st)
    with assms(1) True show ?thesis by (auto simp: scanned_def st)
  next
    case False
    with assms(2) have "search_row E F d query field_path limit path (i, e) (ms, n, False) = Inr st'" by (simp add: st)
    then obtain x where x: "hit E F d query field_path (path, i, e) = Inr x"
      "st' = (case x of None \<Rightarrow> (ms, Suc n, False) | Some m \<Rightarrow> (ms @ [m], Suc n, int (length (ms @ [m])) = limit))"
      unfolding search_row_hit by (auto simp: bindE_eq_Inr)
    from assms(1) False obtain hs where hs: "n = length ps" "mapE (hit E F d query field_path) ps = Inr hs"
      "ms = found hs" "0 < limit \<longrightarrow> int (length ms) < limit"
      by (auto simp: scanned_def st)
    have "mapE (hit E F d query field_path) (ps @ [(path, i, e)]) = Inr (hs @ [x])"
      by (simp add: mapE_snoc hs(2) x(1))
    with hs x(2) show ?thesis by (cases x) (auto simp: scanned_def)
  qed
qed

lemma scanned_rows:
  "foldE (search_row E F d query field_path limit path) ies st = Inr st' \<Longrightarrow>
   scanned E F d query field_path limit ps st \<Longrightarrow>
   scanned E F d query field_path limit (ps @ map (\<lambda>(i, e). (path, i, e)) ies) st'"
proof (induction ies arbitrary: st ps)
  case (Cons ie ies)
  obtain i e where ie: "ie = (i, e)" by (cases ie)
  from Cons.prems(1) obtain s1 where s1: "search_row E F d query field_path limit path (i, e) st = Inr s1"
    "foldE (search_row E F d query field_path limit path) ies s1 = Inr st'"
    by (auto simp: bindE_eq_Inr ie)
  from Cons.IH [OF s1(2) scanned_row [OF Cons.prems(2) s1(1)]] show ?case by (simp add: ie)
qed simp

lemma scanned_stop: "scanned E F d query field_path limit ps (ms, n, True) \<Longrightarrow>
   scanned E F d query field_path limit (ps @ qs) (ms, n, True)"
  by (auto simp: scanned_def)

lemma scanned_file:
  assumes "search_file E F d query clean field_path limit item st = Inr st'"
    and "scanned E F d query field_path limit ps st"
  shows "scanned E F d query field_path limit (ps @ positions_of E d clean item) st'"
proof -
  obtain path ty h sc where item: "item = (path, ty, h, sc)" by (cases item)
  obtain ms n lr where st: "st = (ms, n, lr)" by (cases st)
  show ?thesis
  proof (cases lr)
    case True
    then have "st' = (ms, n, True)" using assms(1) by (simp add: search_file_def st item)
    with assms(2) True show ?thesis by (simp add: st scanned_stop)
  next
    case lr: False
    show ?thesis
    proof (cases "ty = str ''manifest'' \<and> (clean \<noteq> None \<longrightarrow> py_startswith path (the clean))")
      case sel: True
      then have "bindE (read_manifest E d h) (\<lambda>x. case x of None \<Rightarrow> Inr st
          | Some m \<Rightarrow> foldE (search_row E F d query field_path limit path) (py_enumerate (entries m)) st) = Inr st'"
        using assms(1) unfolding search_file_def item st iffD2 [OF eq_False lr] by (auto split: if_splits)
      then obtain x where x: "read_manifest E d h = Inr x"
        "(case x of None \<Rightarrow> Inr st | Some m \<Rightarrow> foldE (search_row E F d query field_path limit path)
            (py_enumerate (entries m)) st) = Inr st'"
        by (auto simp: bindE_eq_Inr)
      have pos: "positions_of E d clean item = (case x of None \<Rightarrow> []
          | Some m \<Rightarrow> map (\<lambda>(i, e). (path, i, e)) (py_enumerate (entries m)))"
        using sel x(1) by (cases x; cases clean) (simp_all add: item positions_of_def)
      show ?thesis
      proof (cases x)
        case None
        with x(2) pos assms(2) show ?thesis by simp
      next
        case (Some m)
        with x(2) have "foldE (search_row E F d query field_path limit path) (py_enumerate (entries m)) st = Inr st'" by simp
        from scanned_rows [OF this assms(2)] show ?thesis by (simp add: pos Some)
      qed
    next
      case False
      then have "st' = st" using assms(1) by (auto simp: search_file_def item split: if_splits)
      moreover have "positions_of E d clean item = []" using False by (cases clean) (auto simp: item positions_of_def)
      ultimately show ?thesis using assms(2) by simp
    qed
  qed
qed

lemma scanned_files:
  "foldE (search_file E F d query clean field_path limit) items st = Inr st' \<Longrightarrow>
   scanned E F d query field_path limit ps st \<Longrightarrow>
   scanned E F d query field_path limit (ps @ concat (map (positions_of E d clean) items)) st'"
proof (induction items arbitrary: st ps)
  case (Cons item items)
  then obtain s1 where s1: "search_file E F d query clean field_path limit item st = Inr s1"
    "foldE (search_file E F d query clean field_path limit) items s1 = Inr st'"
    by (auto simp: bindE_eq_Inr)
  from Cons.IH [OF s1(2) scanned_file [OF s1(1) Cons.prems(2)]] show ?case by simp
qed simp

text \<open>
  C23: A search scans a prefix of the rows of the selected files, in the order of the sorted paths,
  and returns exactly the matches of that prefix, in order. The prefix is everything unless the limit
  is reached; then there are exactly \<open>limit\<close> matches and the last row scanned is one of them. With
  a positive limit there are never more matches.
\<close>

theorem search_exact:
  assumes "search_rows E F d commit_hash query path_prefix field_path limit = Inr r"
  shows "\<exists>flat ps hs. commit_flat E d commit_hash = Inr flat \<and>
     ps = all_positions E d (map_option lstrip_slash (if truthy path_prefix then path_prefix else None)) (sorted_items flat) \<and>
     sr_total_scanned r \<le> length ps \<and>
     mapE (hit E F d query field_path) (take (sr_total_scanned r) ps) = Inr hs \<and>
     sr_matches r = found hs \<and>
     (if sr_limit_reached r then int (length (sr_matches r)) = limit \<and> hs \<noteq> [] \<and> last hs \<noteq> None
      else sr_total_scanned r = length ps \<and> (0 < limit \<longrightarrow> int (length (sr_matches r)) < limit))"
proof -
  let ?clean = "if truthy path_prefix then Some (lstrip_slash (the path_prefix)) else None"
  from assms obtain flat ms n lr where flat: "commit_flat E d commit_hash = Inr flat"
    and s: "foldE (search_file E F d query ?clean field_path limit) (sorted_items flat) ([], 0, False) = Inr (ms, n, lr)"
    and r: "sr_matches r = ms" "sr_total_scanned r = n" "sr_limit_reached r = lr"
    by (auto simp: search_rows_def bindE_eq_Inr Let_def)
  have clean: "?clean = map_option lstrip_slash (if truthy path_prefix then path_prefix else None)"
    by (cases path_prefix) auto
  have "scanned E F d query field_path limit [] ([], 0, False)" by (simp add: scanned_def)
  from scanned_files [OF s this] have "scanned E F d query field_path limit (all_positions E d
      (map_option lstrip_slash (if truthy path_prefix then path_prefix else None)) (sorted_items flat)) (ms, n, lr)"
    unfolding clean by (simp add: all_positions_def)
  then show ?thesis unfolding scanned_def r using flat by auto
qed

lemma demo_lower: "py_lower demo_env [] = []"
  by (simp add: demo_env_def)

definition demo_fmt :: pyfmt where
  "demo_fmt = \<lparr>float_repr = id, str_repr = id, round2_div = (\<lambda>_. [48])\<rparr>"

theorem search_exact_witness:
  "\<exists>r. search_rows demo_env demo_fmt data_disk data_head [] None None 1 = Inr r \<and> length (sr_matches r) = 1"
proof -
  obtain r where r: "search_rows demo_env demo_fmt data_disk data_head [] None None 1 = Inr r" "sr_limit_reached r"
    by (simp add: search_rows_def data_commit_flat sorted_items_def search_file_def data_read data_entries
        py_enumerate_def search_row_def demo_object_bytes search_text_def py_contains_def py_find_Nil Let_def
        demo_lower)
  from search_exact [OF r(1)] r show ?thesis by auto
qed

end
