(* ===== verification/Dit_Export.thy ===== *)
theory Dit_Export
  imports Dit_Query
begin

text \<open>
  Export of a commit to local files: \<open>src/dit/core/export.py\<close>. The file system is a map from the
  parts of absolute paths to contents; directories, and a path that is both a file and a directory,
  are not modelled. CSV is written as Python's \<open>csv.DictWriter\<close> does in the default dialect.
\<close>

type_synonym fs = "(pystr list \<times> bytes) list"

section \<open>Paths\<close>

text \<open>The parts of \<open>Path(p)\<close>, and \<open>output_dir / p\<close>.\<close>

definition path_parts :: "pystr \<Rightarrow> pystr list" where
  "path_parts p = filter (\<lambda>w. w \<noteq> [] \<and> w \<noteq> [46]) (split_slash p)"

definition join_path :: "pystr list \<Rightarrow> pystr \<Rightarrow> pystr list" where
  "join_path out p = (if py_startswith p [slash] then path_parts p else out @ path_parts p)"

text \<open>\<open>Path(name).with_suffix(".csv").name\<close>.\<close>

definition csv_name :: "pystr \<Rightarrow> pystr" where
  "csv_name name =
     (let suffix = takeWhile (\<lambda>c. c \<noteq> 46) (rev name) in
      if suffix \<noteq> [] \<and> Suc (length suffix) < length name then take (length name - Suc (length suffix)) name @ str ''.csv''
      else name @ str ''.csv'')"

definition with_csv_suffix :: "pystr list \<Rightarrow> pystr list res" where
  "with_csv_suffix parts = (if parts = [] then Inl ValueError else Inr (butlast parts @ [csv_name (last parts)]))"

text \<open>\<open>str(Path(p).with_suffix(".csv"))\<close>.\<close>

definition csv_report_path :: "pystr \<Rightarrow> pystr res" where
  "csv_report_path p =
     bindE (with_csv_suffix (path_parts p)) (\<lambda>parts.
       Inr ((if py_startswith p [slash] then [slash] else []) @ join_slash parts))"

section \<open>JSON lines\<close>

text \<open>What is in the file when the loop stops, and how it stops: an error, or the count of bytes.\<close>

fun write_jsonl_rows :: "env \<Rightarrow> disk \<Rightarrow> manifest_entry list \<Rightarrow> bytes \<Rightarrow> nat \<Rightarrow> bytes \<times> nat res" where
  "write_jsonl_rows E d [] content n = (content, Inr n)"
| "write_jsonl_rows E d (e # es) content n =
     (case must FileNotFoundError (store_read E d (str ''rows'') (row_hash e)) of
        Inl x \<Rightarrow> (content, Inl x)
      | Inr row_bytes \<Rightarrow> write_jsonl_rows E d es (content @ row_bytes @ [10]) (n + (length row_bytes + 1)))"

definition write_jsonl :: "env \<Rightarrow> disk \<Rightarrow> manifest \<Rightarrow> pystr list \<Rightarrow> fs \<Rightarrow> fs \<times> nat res" where
  "write_jsonl E d m dest fs =
     (let (content, r) = write_jsonl_rows E d (entries m) [] 0 in (AList.update dest content fs, r))"

section \<open>CSV\<close>

definition csv_special :: "nat \<Rightarrow> bool" where
  "csv_special c \<longleftrightarrow> c = 44 \<or> c = 34 \<or> c = 13 \<or> c = 10"

definition csv_quoted :: "pystr \<Rightarrow> pystr" where
  "csv_quoted s = 34 # concat (map (\<lambda>c. if c = 34 then [34, 34] else [c]) s) @ [34]"

definition csv_field :: "pystr \<Rightarrow> pystr" where
  "csv_field s = (if \<exists>c \<in> set s. csv_special c then csv_quoted s else s)"

text \<open>A record whose only field is empty is written as a quoted field.\<close>

definition csv_record :: "pystr list \<Rightarrow> pystr" where
  "csv_record cells = (if cells = [[]] then csv_quoted [] else sep_join [44] (map csv_field cells)) @ [13, 10]"

fun csv_value :: "pyfmt \<Rightarrow> json \<Rightarrow> pystr" where
  "csv_value F JNull = []"
| "csv_value F (JArr vs) = json_text json_string F (str '', '') (str '': '') (JArr vs)"
| "csv_value F (JObj kvs) = json_text json_string F (str '', '') (str '': '') (JObj kvs)"
| "csv_value F v = py_str F v"

text \<open>A row that is not a dictionary becomes \<open>{"value": json.dumps(row)}\<close>.\<close>

fun csv_dict :: "pyfmt \<Rightarrow> json \<Rightarrow> json dict" where
  "csv_dict F (JObj kvs) = kvs"
| "csv_dict F v = [(str ''value'', JStr (json_text json_string F (str '', '') (str '': '') v))]"

definition csv_cells :: "pyfmt \<Rightarrow> pystr list \<Rightarrow> json \<Rightarrow> pystr list" where
  "csv_cells F fieldnames row =
     map (\<lambda>k. case map_of (csv_dict F row) k of None \<Rightarrow> [] | Some v \<Rightarrow> csv_value F v) fieldnames"

definition add_keys :: "json \<Rightarrow> pystr list \<Rightarrow> pystr list" where
  "add_keys row all_keys =
     (case row of JObj kvs \<Rightarrow> fold (\<lambda>k ks. if k \<in> set ks then ks else ks @ [k]) (map fst kvs) all_keys | _ \<Rightarrow> all_keys)"

definition read_row :: "env \<Rightarrow> disk \<Rightarrow> manifest_entry \<Rightarrow> json res" where
  "read_row E d e = bindE (must FileNotFoundError (store_read E d (str ''rows'') (row_hash e))) json_loads_bytes"

definition csv_text :: "pyfmt \<Rightarrow> json list \<Rightarrow> pystr" where
  "csv_text F rows =
     (let fieldnames = sort (fold add_keys rows []) in
      concat (map csv_record (fieldnames # map (csv_cells F fieldnames) rows)))"

definition write_csv :: "env \<Rightarrow> pyfmt \<Rightarrow> disk \<Rightarrow> manifest \<Rightarrow> pystr list \<Rightarrow> fs \<Rightarrow> fs \<times> nat res" where
  "write_csv E F d m dest fs =
     (case bindE (mapE (read_row E d) (entries m)) (\<lambda>rows. utf8_encode (csv_text F rows)) of
        Inl x \<Rightarrow> (fs, Inl x)
      | Inr content \<Rightarrow> (AList.update dest content fs, Inr (length content)))"

section \<open>Metadata\<close>

text \<open>\<open>json.dumps(v, indent=2)\<close>.\<close>

definition newline_indent :: "nat \<Rightarrow> pystr" where
  "newline_indent n = 10 # replicate (2 * n) 32"

fun json_indent :: "pyfmt \<Rightarrow> nat \<Rightarrow> json \<Rightarrow> pystr" where
  "json_indent F n (JArr vs) =
     (if vs = [] then [91, 93]
      else 91 # newline_indent (Suc n) @ sep_join (44 # newline_indent (Suc n)) (map (json_indent F (Suc n)) vs) @
        newline_indent n @ [93])"
| "json_indent F n (JObj kvs) =
     (if kvs = [] then [123, 125]
      else 123 # newline_indent (Suc n) @
        sep_join (44 # newline_indent (Suc n))
          (map (\<lambda>kv. json_string (fst kv) @ [58, 32] @ json_indent F (Suc n) (snd kv)) kvs) @
        newline_indent n @ [125])"
| "json_indent F n v = json_text json_string F [] [] v"

definition summary_json :: "pyfmt \<Rightarrow> summary_info \<Rightarrow> json dict" where
  "summary_json F s =
     [(str ''row_count'', JInt (sum_rows s)), (str ''char_count'', JInt (sum_chars s)),
      (str ''token_estimate'', JInt (sum_tokens s)), (str ''avg_fields'', JFloat (round2_div F (avg_fields s))),
      (str ''lang_distribution'', JObj (map (\<lambda>(k, n). (k, JInt n)) (lang_distribution s)))]"

definition write_meta :: "env \<Rightarrow> pyfmt \<Rightarrow> disk \<Rightarrow> pystr \<Rightarrow> pystr \<Rightarrow> pystr \<Rightarrow> pystr list \<Rightarrow> fs \<Rightarrow> fs \<times> unit res" where
  "write_meta E F d path manifest_hash sidecar_hash output_dir fs =
     (case bindE (read_sidecar E d sidecar_hash) (\<lambda>x. case x of
         None \<Rightarrow> Inr None
       | Some sc \<Rightarrow> bindE (utf8_encode (json_indent F 0 (JObj (
             [(str ''file'', JStr path), (str ''manifest_hash'', JStr manifest_hash), (str ''sidecar_hash'', JStr sidecar_hash)] @
             summary_json F (sidecar_summary sc))))) (\<lambda>b. Inr (Some b))) of
        Inl x \<Rightarrow> (fs, Inl x)
      | Inr None \<Rightarrow> (fs, Inr ())
      | Inr (Some b) \<Rightarrow> (AList.update (join_path output_dir (path @ str ''.meta.json'')) b fs, Inr ()))"

section \<open>The export\<close>

record export_entry =
  ex_path :: pystr
  ex_rows :: nat
  ex_bytes :: nat

definition export_body ::
  "env \<Rightarrow> pyfmt \<Rightarrow> disk \<Rightarrow> pystr \<Rightarrow> pystr \<Rightarrow> manifest \<Rightarrow> pystr list \<Rightarrow> fs \<Rightarrow> fs \<times> nat res" where
  "export_body E F d fmt path m output_dir fs =
     (if fmt = str ''csv'' then
        (case with_csv_suffix (join_path output_dir path) of
           Inl x \<Rightarrow> (fs, Inl x) | Inr dest \<Rightarrow> write_csv E F d m dest fs)
      else if fmt = str ''jsonl'' then write_jsonl E d m (join_path output_dir path) fs
      else (fs, Inl ValueError))"

text \<open>One file: what is on disk after it, and the report entry or the error.\<close>

definition export_file ::
  "env \<Rightarrow> pyfmt \<Rightarrow> disk \<Rightarrow> pystr \<Rightarrow> bool \<Rightarrow> pystr list \<Rightarrow> pystr \<times> flat_entry \<Rightarrow> fs \<Rightarrow> fs \<times> export_entry res" where
  "export_file E F d fmt include_meta output_dir item fs =
     (let (path, _, obj_hash, sidecar_hash) = item in
      case must FileNotFoundError (read_manifest E d obj_hash) of
        Inl x \<Rightarrow> (fs, Inl x)
      | Inr m \<Rightarrow>
          (case export_body E F d fmt path m output_dir fs of
             (fs1, Inl x) \<Rightarrow> (fs1, Inl x)
           | (fs1, Inr total_bytes) \<Rightarrow>
               (case (if fmt = str ''csv'' then csv_report_path path else Inr path) of
                  Inl x \<Rightarrow> (fs1, Inl x)
                | Inr report_path \<Rightarrow>
                    let entry = \<lparr>ex_path = report_path, ex_rows = length (entries m), ex_bytes = total_bytes\<rparr> in
                    (case sidecar_hash of
                       None \<Rightarrow> (fs1, Inr entry)
                     | Some sh \<Rightarrow>
                         if include_meta
                         then (case write_meta E F d path obj_hash sh output_dir fs1 of
                             (fs2, Inl x) \<Rightarrow> (fs2, Inl x) | (fs2, Inr _) \<Rightarrow> (fs2, Inr entry))
                         else (fs1, Inr entry)))))"

fun export_all ::
  "env \<Rightarrow> pyfmt \<Rightarrow> disk \<Rightarrow> pystr \<Rightarrow> bool \<Rightarrow> pystr list \<Rightarrow> (pystr \<times> flat_entry) list \<Rightarrow> fs \<Rightarrow> fs \<times> export_entry list res" where
  "export_all E F d fmt include_meta output_dir [] fs = (fs, Inr [])"
| "export_all E F d fmt include_meta output_dir (item # items) fs =
     (case export_file E F d fmt include_meta output_dir item fs of
        (fs1, Inl x) \<Rightarrow> (fs1, Inl x)
      | (fs1, Inr entry) \<Rightarrow>
          (case export_all E F d fmt include_meta output_dir items fs1 of
             (fs2, Inl x) \<Rightarrow> (fs2, Inl x) | (fs2, Inr report) \<Rightarrow> (fs2, Inr (entry # report))))"

definition export_selected :: "pystr option \<Rightarrow> flat_entry dict \<Rightarrow> (pystr \<times> flat_entry) list" where
  "export_selected file_filter flat =
     filter (\<lambda>(path, obj_type, _). obj_type = str ''manifest'' \<and>
         (file_filter \<noteq> None \<longrightarrow> path = lstrip_slash (the file_filter))) (sorted_items flat)"

definition export_commit ::
  "env \<Rightarrow> pyfmt \<Rightarrow> disk \<Rightarrow> pystr \<Rightarrow> pystr list \<Rightarrow> pystr option \<Rightarrow> pystr \<Rightarrow> bool \<Rightarrow> fs \<Rightarrow> fs \<times> export_entry list res" where
  "export_commit E F d commit_hash output_dir file_filter fmt include_meta fs =
     (case commit_flat E d commit_hash of
        Inl x \<Rightarrow> (fs, Inl x)
      | Inr flat \<Rightarrow>
          if file_filter \<noteq> None \<and> lstrip_slash (the file_filter) \<notin> fst ` set flat then (fs, Inl FileNotFoundError)
          else export_all E F d fmt include_meta output_dir (export_selected file_filter flat) fs)"

section \<open>Reading CSV\<close>

text \<open>A reader of the same dialect, to say what a written table means.\<close>

fun quoted_rest :: "pystr \<Rightarrow> (pystr \<times> pystr) option" where
  "quoted_rest [] = None"
| "quoted_rest [c] = (if c = 34 then Some ([], []) else None)"
| "quoted_rest (c # c' # r) =
     (if c \<noteq> 34 then map_option (\<lambda>(s, r'). (c # s, r')) (quoted_rest (c' # r))
      else if c' = 34 then map_option (\<lambda>(s, r'). (34 # s, r')) (quoted_rest r)
      else Some ([], c' # r))"

definition read_field :: "pystr \<Rightarrow> (pystr \<times> pystr) option" where
  "read_field s =
     (if py_startswith s [34] then quoted_rest (tl s)
      else Some (takeWhile (\<lambda>c. \<not> csv_special c) s, dropWhile (\<lambda>c. \<not> csv_special c) s))"

lemma quoted_rest_shorter: "quoted_rest s = Some (f, r) \<Longrightarrow> length r \<le> length s"
  by (induction s arbitrary: f r rule: quoted_rest.induct) (fastforce split: if_splits)+

lemma read_field_shorter: "read_field s = Some (f, r) \<Longrightarrow> length r \<le> length s"
  using quoted_rest_shorter [of "tl s" f r] by (auto simp: read_field_def length_dropWhile_le split: if_splits)

function read_record :: "pystr \<Rightarrow> (pystr list \<times> pystr) option" where
  "read_record s =
     (case read_field s of
        None \<Rightarrow> None
      | Some (f, r) \<Rightarrow>
          (case r of
             [] \<Rightarrow> None
           | c # r' \<Rightarrow>
               if c = 44 then map_option (\<lambda>(fs, r2). (f # fs, r2)) (read_record r')
               else if c = 13 \<and> py_startswith r' [10] then Some ([f], tl r') else None))"
  by pat_completeness auto

termination read_record
  by (relation "measure length") (auto dest: read_field_shorter)

declare read_record.simps [simp del]

lemma read_record_shorter: "read_record s = Some (fs, r) \<Longrightarrow> length r < length s"
proof (induction s arbitrary: fs r rule: read_record.induct)
  case (1 s)
  from "1.prems" obtain f c r' where f: "read_field s = Some (f, c # r')"
    by (auto simp: read_record.simps [of s] split: option.splits list.splits)
  have len: "Suc (length r') \<le> length s" using read_field_shorter [OF f] by simp
  show ?case
  proof (cases "c = 44")
    case True
    with "1.prems" f obtain gs where g: "read_record r' = Some (gs, r)"
      by (auto simp: read_record.simps [of s])
    from "1.IH" [OF f refl refl True g] len show ?thesis by simp
  next
    case False
    with "1.prems" f have "r = tl r'" by (auto simp: read_record.simps [of s] split: if_splits)
    with len show ?thesis by simp
  qed
qed

function read_table :: "pystr \<Rightarrow> pystr list list option" where
  "read_table s =
     (if s = [] then Some []
      else case read_record s of None \<Rightarrow> None | Some (fs, r) \<Rightarrow> map_option ((#) fs) (read_table r))"
  by pat_completeness auto

termination read_table
  by (relation "measure length") (auto dest: read_record_shorter)

declare read_table.simps [simp del]

section \<open>Writing, then reading CSV\<close>

lemma quoted_rest_escape:
  assumes "\<not> py_startswith r [34]"
  shows "quoted_rest (concat (map (\<lambda>c. if c = 34 then [34, 34] else [c]) s) @ 34 # r) = Some (s, r)"
proof (induction s)
  case Nil
  then show ?case using assms by (cases r) (auto simp: py_startswith_def)
next
  case (Cons c s)
  then show ?case
    by (cases "concat (map (\<lambda>c. if c = 34 then [34, 34] else [c]) s) @ 34 # r") auto
qed

lemma read_field_quoted: "\<not> py_startswith r [34] \<Longrightarrow> read_field (csv_quoted s @ r) = Some (s, r)"
  using quoted_rest_escape [of r s] by (simp add: read_field_def csv_quoted_def py_startswith_def)

lemma read_field_csv:
  assumes "csv_special c" "c \<noteq> 34"
  shows "read_field (csv_field s @ c # r) = Some (s, c # r)"
proof (cases "\<exists>x \<in> set s. csv_special x")
  case True
  then show ?thesis using read_field_quoted [of "c # r" s] assms by (simp add: csv_field_def py_startswith_def)
next
  case False
  then have "\<not> py_startswith (s @ c # r) [34]"
    using assms by (cases s) (auto simp: py_startswith_def csv_special_def)
  with False assms show ?thesis by (auto simp: read_field_def csv_field_def)
qed

lemma read_record_fields:
  "cells \<noteq> [] \<Longrightarrow> read_record (sep_join [44] (map csv_field cells) @ 13 # 10 # r) = Some (cells, r)"
proof (induction cells rule: induct_list012)
  case (2 f)
  have "read_field (csv_field f @ 13 # 10 # r) = Some (f, 13 # 10 # r)" by (rule read_field_csv) (simp_all add: csv_special_def)
  then show ?case by (simp add: read_record.simps py_startswith_def)
next
  case (3 f g cells)
  have "read_field (csv_field f @ 44 # sep_join [44] (map csv_field (g # cells)) @ 13 # 10 # r) =
      Some (f, 44 # sep_join [44] (map csv_field (g # cells)) @ 13 # 10 # r)"
    by (rule read_field_csv) (simp_all add: csv_special_def)
  with 3 show ?case by (simp add: read_record.simps [of "csv_field f @ _"])
qed simp

lemma read_record_csv: "cells \<noteq> [] \<Longrightarrow> read_record (csv_record cells @ r) = Some (cells, r)"
proof (cases "cells = [[]]")
  case True
  have "read_field (csv_quoted [] @ 13 # 10 # r) = Some ([], 13 # 10 # r)" by (rule read_field_quoted) (simp add: py_startswith_def)
  then show ?thesis by (simp add: True csv_record_def read_record.simps py_startswith_def)
qed (simp add: csv_record_def read_record_fields)

lemma read_table_csv: "\<forall>cells \<in> set rows. cells \<noteq> [] \<Longrightarrow> read_table (concat (map csv_record rows)) = Some rows"
proof (induction rows)
  case Nil
  then show ?case by (simp add: read_table.simps)
next
  case (Cons cells rows)
  have "csv_record cells @ concat (map csv_record rows) \<noteq> []" by (simp add: csv_record_def)
  with Cons read_record_csv [of cells "concat (map csv_record rows)"] show ?case
    by (simp add: read_table.simps [of "csv_record cells @ _"])
qed

text \<open>The columns are the keys of the rows that are objects, sorted.\<close>

lemma fold_keys: "distinct ks \<Longrightarrow> distinct (fold (\<lambda>k ks. if k \<in> set ks then ks else ks @ [k]) xs ks) \<and>
    set (fold (\<lambda>k ks. if k \<in> set ks then ks else ks @ [k]) xs ks) = set ks \<union> set xs"
  by (induction xs arbitrary: ks) auto

lemma add_keys_set: "distinct ks \<Longrightarrow> distinct (add_keys row ks) \<and>
    set (add_keys row ks) = set ks \<union> (case row of JObj kvs \<Rightarrow> fst ` set kvs | _ \<Rightarrow> {})"
  using fold_keys [of ks] by (auto simp: add_keys_def split: json.splits)

lemma columns: "distinct ks \<Longrightarrow> distinct (fold add_keys rows ks) \<and>
    set (fold add_keys rows ks) = set ks \<union> {k. \<exists>kvs. JObj kvs \<in> set rows \<and> k \<in> fst ` set kvs}"
proof (induction rows arbitrary: ks)
  case (Cons row rows)
  have d: "distinct (add_keys row ks)" using add_keys_set [OF Cons.prems] by blast
  from Cons.IH [OF d] add_keys_set [OF Cons.prems, of row] show ?case by (cases row) auto
qed simp



end
