(* ===== verification/Dit_Refs.thy ===== *)
theory Dit_Refs
  imports Dit_Export
begin

text \<open>
  Branches, tags and HEAD: \<open>src/dit/core/refs.py\<close>. A directory of refs holds files, keyed by the
  parts of the name, and directories, which stay when their last file goes. Names with \<open>..\<close> and
  absolute names, which leave the directory, are not modelled. A write replaces the file in one step.

  The interface is the locale \<open>ref_map\<close>: whatever stores values under keys by \<open>put\<close> and \<open>del\<close>
  refines a finite map. The staging index is another provider of it.
\<close>

section \<open>The interface\<close>

datatype ('k, 'v) map_op = Put 'k 'v | Del 'k

fun map_step :: "('k, 'v) map_op \<Rightarrow> ('k \<Rightarrow> 'v option) \<Rightarrow> ('k \<Rightarrow> 'v option)" where
  "map_step (Put k v) m = m(k := Some v)"
| "map_step (Del k) m = m(k := None)"

locale ref_map =
  fixes inv :: "'s \<Rightarrow> bool"
    and look :: "'s \<Rightarrow> 'k \<Rightarrow> 'v option"
    and put :: "'k \<Rightarrow> 'v \<Rightarrow> 's \<Rightarrow> 's res"
    and del :: "'k \<Rightarrow> 's \<Rightarrow> 's res"
  assumes put_ok: "inv s \<Longrightarrow> put k v s = Inr s' \<Longrightarrow> inv s' \<and> look s' = (look s)(k := Some v)"
    and del_ok: "inv s \<Longrightarrow> del k s = Inr s' \<Longrightarrow> inv s' \<and> look s' = (look s)(k := None)"
begin

fun step :: "('k, 'v) map_op \<Rightarrow> 's \<Rightarrow> 's res" where
  "step (Put k v) s = put k v s"
| "step (Del k) s = del k s"

lemma step_refines: "inv s \<Longrightarrow> step op s = Inr s' \<Longrightarrow> inv s' \<and> look s' = map_step op (look s)"
  by (cases op) (auto dest: put_ok del_ok)

lemma steps_refine: "inv s \<Longrightarrow> foldE step ops s = Inr s' \<Longrightarrow> inv s' \<and> look s' = fold map_step ops (look s)"
proof (induction ops arbitrary: s)
  case (Cons op ops)
  then obtain s1 where s1: "step op s = Inr s1" "foldE step ops s1 = Inr s'" by (auto simp: bindE_eq_Inr)
  with step_refines [OF Cons.prems(1) s1(1)] Cons.IH [of s1] show ?case by simp
qed simp

text \<open>A key no operation names keeps its value.\<close>

lemma steps_frame:
  assumes "inv s" "foldE step ops s = Inr s'" "\<forall>op \<in> set ops. k \<noteq> (case op of Put k' v \<Rightarrow> k' | Del k' \<Rightarrow> k')"
  shows "look s' k = look s k"
proof -
  have "fold map_step ops m k = m k" for m
    using assms(3) by (induction ops arbitrary: m) (auto split: map_op.splits)
  with steps_refine [OF assms(1,2)] show ?thesis by simp
qed

end

section \<open>A directory of refs\<close>

record ref_dir =
  rd_files :: "(pystr list \<times> pystr) list"
  rd_dirs :: "pystr list list"

text \<open>The proper prefixes of a path.\<close>

definition parents_of :: "pystr list \<Rightarrow> pystr list list" where
  "parents_of p = map (\<lambda>i. take i p) [0..<length p]"

definition rd_is_file :: "ref_dir \<Rightarrow> pystr list \<Rightarrow> bool" where
  "rd_is_file d p \<longleftrightarrow> map_of (rd_files d) p \<noteq> None"

text \<open>Reading, atomically writing and deleting one file.\<close>

definition ref_read :: "ref_dir \<Rightarrow> pystr \<Rightarrow> pystr option res" where
  "ref_read d name =
     (let p = path_parts name in
      case map_of (rd_files d) p of
        Some text \<Rightarrow> Inr (Some (py_strip (newlines text)))
      | None \<Rightarrow> if p \<in> set (rd_dirs d) then Inl OSError else Inr None)"

definition atomic_write :: "ref_dir \<Rightarrow> pystr list \<Rightarrow> pystr \<Rightarrow> ref_dir res" where
  "atomic_write d p content =
     (if \<exists>q \<in> set (parents_of p). rd_is_file d q then Inl OSError
      else if p \<in> set (rd_dirs d) then Inl OSError
      else Inr \<lparr>rd_files = AList.update p content (rd_files d), rd_dirs = remdups (rd_dirs d @ parents_of p)\<rparr>)"

definition ref_write :: "ref_dir \<Rightarrow> pystr \<Rightarrow> pystr \<Rightarrow> ref_dir res" where
  "ref_write d name commit_hash = atomic_write d (path_parts name) (commit_hash @ [10])"

definition ref_delete :: "ref_dir \<Rightarrow> pystr \<Rightarrow> (bool \<times> ref_dir) res" where
  "ref_delete d name =
     (let p = path_parts name in
      if rd_is_file d p then Inr (True, d\<lparr>rd_files := AList.delete p (rd_files d)\<rparr>)
      else if p \<in> set (rd_dirs d) then Inl OSError else Inr (False, d))"

text \<open>\<open>iterdir()\<close> sees the files directly in the directory.\<close>

definition ref_list :: "ref_dir \<Rightarrow> pystr dict" where
  "ref_list d = map (\<lambda>(p, text). (hd p, py_strip (newlines text))) (filter (\<lambda>(p, text). length p = 1) (rd_files d))"

section \<open>The ref store\<close>

record ref_store =
  head_text :: "pystr option"
  heads :: ref_dir
  tags :: ref_dir

definition empty_dir :: ref_dir where
  "empty_dir = \<lparr>rd_files = [], rd_dirs = [[]]\<rparr>"

definition no_refs :: ref_store where
  "no_refs = \<lparr>head_text = None, heads = \<lparr>rd_files = [], rd_dirs = []\<rparr>, tags = \<lparr>rd_files = [], rd_dirs = []\<rparr>\<rparr>"

definition make_root :: "ref_dir \<Rightarrow> ref_dir" where
  "make_root d = d\<lparr>rd_dirs := remdups (rd_dirs d @ [[]])\<rparr>"

definition refs_init :: "ref_store \<Rightarrow> ref_store" where
  "refs_init r =
     r\<lparr>heads := make_root (heads r), tags := make_root (tags r),
       head_text := (case head_text r of None \<Rightarrow> Some (str ''ref:main'' @ [10]) | Some t \<Rightarrow> Some t)\<rparr>"

definition get_head :: "ref_store \<Rightarrow> pystr res" where
  "get_head r = (case head_text r of None \<Rightarrow> Inl FileNotFoundError | Some t \<Rightarrow> Inr (py_strip (newlines t)))"

definition branch_of_head :: "pystr \<Rightarrow> pystr option" where
  "branch_of_head head = (if py_startswith head (str ''ref:'') then Some (drop 4 head) else None)"

definition current_branch :: "ref_store \<Rightarrow> pystr option res" where
  "current_branch r = bindE (get_head r) (\<lambda>head. Inr (branch_of_head head))"

definition get_branch :: "ref_store \<Rightarrow> pystr \<Rightarrow> pystr option res" where
  "get_branch r name = ref_read (heads r) name"

definition resolve_head :: "ref_store \<Rightarrow> pystr option res" where
  "resolve_head r =
     bindE (get_head r) (\<lambda>head.
       case branch_of_head head of Some b \<Rightarrow> get_branch r b | None \<Rightarrow> Inr (Some head))"

definition set_head :: "ref_store \<Rightarrow> pystr \<Rightarrow> ref_store" where
  "set_head r v = r\<lparr>head_text := Some (v @ [10])\<rparr>"

definition set_branch :: "ref_store \<Rightarrow> pystr \<Rightarrow> pystr \<Rightarrow> ref_store res" where
  "set_branch r name commit_hash = bindE (ref_write (heads r) name commit_hash) (\<lambda>d. Inr (r\<lparr>heads := d\<rparr>))"

definition list_branches :: "ref_store \<Rightarrow> pystr dict" where
  "list_branches r = ref_list (heads r)"

definition delete_branch :: "ref_store \<Rightarrow> pystr \<Rightarrow> (bool \<times> ref_store) res" where
  "delete_branch r name = bindE (ref_delete (heads r) name) (\<lambda>(b, d). Inr (b, r\<lparr>heads := d\<rparr>))"

definition get_tag :: "ref_store \<Rightarrow> pystr \<Rightarrow> pystr option res" where
  "get_tag r name = ref_read (tags r) name"

definition set_tag :: "ref_store \<Rightarrow> pystr \<Rightarrow> pystr \<Rightarrow> ref_store res" where
  "set_tag r name commit_hash = bindE (ref_write (make_root (tags r)) name commit_hash) (\<lambda>d. Inr (r\<lparr>tags := d\<rparr>))"

definition delete_tag :: "ref_store \<Rightarrow> pystr \<Rightarrow> (bool \<times> ref_store) res" where
  "delete_tag r name = bindE (ref_delete (tags r) name) (\<lambda>(b, d). Inr (b, r\<lparr>tags := d\<rparr>))"

definition list_tags :: "ref_store \<Rightarrow> pystr dict" where
  "list_tags r = ref_list (tags r)"

section \<open>The branches as a map\<close>

definition rd_inv :: "ref_dir \<Rightarrow> bool" where
  "rd_inv d \<longleftrightarrow> wf_dict (rd_files d) \<and> [] \<in> set (rd_dirs d) \<and>
     (\<forall>p \<in> set (rd_dirs d). \<not> rd_is_file d p) \<and>
     (\<forall>p. rd_is_file d p \<or> p \<in> set (rd_dirs d) \<longrightarrow> set (parents_of p) \<subseteq> set (rd_dirs d))"

definition branch_files :: "ref_store \<Rightarrow> pystr list \<Rightarrow> pystr option" where
  "branch_files r = map_of (rd_files (heads r))"

definition refs_inv :: "ref_store \<Rightarrow> bool" where
  "refs_inv r \<longleftrightarrow> rd_inv (heads r) \<and> rd_inv (tags r)"

lemma parents_of_parents: "q \<in> set (parents_of p) \<Longrightarrow> set (parents_of q) \<subseteq> set (parents_of p)"
  by (auto simp: parents_of_def min_def)

lemma self_not_parent: "p \<notin> set (parents_of p)"
proof
  assume "p \<in> set (parents_of p)"
  then obtain i where i: "i < length p" "p = take i p" by (auto simp: parents_of_def)
  from arg_cong [OF i(2), of length] i(1) show False by simp
qed

lemma rd_invD: "rd_inv d \<Longrightarrow> rd_is_file d p \<or> p \<in> set (rd_dirs d) \<Longrightarrow> set (parents_of p) \<subseteq> set (rd_dirs d)"
  unfolding rd_inv_def by blast

lemma rd_inv_delete:
  assumes "rd_inv d"
  shows "rd_inv (d\<lparr>rd_files := AList.delete p (rd_files d)\<rparr>)"
proof -
  have fl: "rd_is_file (d\<lparr>rd_files := AList.delete p (rd_files d)\<rparr>) q \<longleftrightarrow> q \<noteq> p \<and> rd_is_file d q" for q
    by (simp add: rd_is_file_def delete_conv')
  show ?thesis using assms unfolding rd_inv_def fl by simp
qed

lemma atomic_write_inv:
  assumes "rd_inv d" "atomic_write d p content = Inr d'"
  shows "rd_inv d'" and "rd_files d' = AList.update p content (rd_files d)"
proof -
  from assms(2) have nf: "\<forall>q \<in> set (parents_of p). \<not> rd_is_file d q" and nd: "p \<notin> set (rd_dirs d)"
    and d': "d' = \<lparr>rd_files = AList.update p content (rd_files d), rd_dirs = remdups (rd_dirs d @ parents_of p)\<rparr>"
    by (auto simp: atomic_write_def split: if_splits)
  show "rd_files d' = AList.update p content (rd_files d)" by (simp add: d')
  have fl: "rd_is_file d' q \<longleftrightarrow> q = p \<or> rd_is_file d q" for q
    by (simp add: rd_is_file_def d' update_conv')
  have dir: "q \<in> set (rd_dirs d') \<longleftrightarrow> q \<in> set (rd_dirs d) \<or> q \<in> set (parents_of p)" for q by (simp add: d')
  show "rd_inv d'" unfolding rd_inv_def
  proof (intro conjI allI impI ballI)
    show "wf_dict (rd_files d')" using assms(1) by (simp add: d' rd_inv_def)
    show "[] \<in> set (rd_dirs d')" using assms(1) by (simp add: dir rd_inv_def)
  next
    fix q assume q: "q \<in> set (rd_dirs d')"
    then have "q \<noteq> p" using nd self_not_parent by (auto simp: dir)
    with q nf assms(1) show "\<not> rd_is_file d' q" by (auto simp: fl dir rd_inv_def)
  next
    fix q assume "rd_is_file d' q \<or> q \<in> set (rd_dirs d')"
    then consider "q = p" | "rd_is_file d q \<or> q \<in> set (rd_dirs d)" | "q \<in> set (parents_of p)" by (auto simp: fl dir)
    then show "set (parents_of q) \<subseteq> set (rd_dirs d')"
      using rd_invD [OF assms(1), of q] parents_of_parents [of q p] by cases (auto simp: dir)
  qed
qed

lemma ref_delete_inv:
  assumes "rd_inv d" "ref_delete d name = Inr (b, d')"
  shows "rd_inv d'" and "map_of (rd_files d') = (map_of (rd_files d))(path_parts name := None)"
    and "b \<longleftrightarrow> rd_is_file d (path_parts name)"
proof -
  show "rd_inv d'" using assms rd_inv_delete by (auto simp: ref_delete_def Let_def split: if_splits)
  show "map_of (rd_files d') = (map_of (rd_files d))(path_parts name := None)"
    using assms(2) by (auto simp: ref_delete_def Let_def rd_is_file_def delete_conv' split: if_splits)
  show "b \<longleftrightarrow> rd_is_file d (path_parts name)"
    using assms(2) by (auto simp: ref_delete_def Let_def split: if_splits)
qed

text \<open>Branches by the parts of their names, as the interface wants them.\<close>

definition put_branch :: "pystr list \<Rightarrow> pystr \<Rightarrow> ref_store \<Rightarrow> ref_store res" where
  "put_branch p text r = bindE (atomic_write (heads r) p text) (\<lambda>d. Inr (r\<lparr>heads := d\<rparr>))"

lemma put_branch_ok:
  assumes "refs_inv r" "put_branch p text r = Inr r'"
  shows "refs_inv r' \<and> branch_files r' = (branch_files r)(p := Some text)"
proof -
  from assms(2) obtain d where d: "atomic_write (heads r) p text = Inr d" "r' = r\<lparr>heads := d\<rparr>"
    by (auto simp: put_branch_def bindE_eq_Inr)
  from atomic_write_inv [OF _ d(1)] assms(1) show ?thesis
    by (auto simp: refs_inv_def d(2) branch_files_def update_conv')
qed

lemma delete_branch_ok:
  assumes "refs_inv r" "delete_branch r name = Inr (b, r')"
  shows "refs_inv r' \<and> branch_files r' = (branch_files r)(path_parts name := None) \<and>
     (b \<longleftrightarrow> branch_files r (path_parts name) \<noteq> None) \<and> tags r' = tags r \<and> head_text r' = head_text r"
proof -
  from assms(2) obtain d where d: "ref_delete (heads r) name = Inr (b, d)" "r' = r\<lparr>heads := d\<rparr>"
    by (auto simp: delete_branch_def bindE_eq_Inr)
  from ref_delete_inv [OF _ d(1)] assms(1) show ?thesis
    by (auto simp: refs_inv_def d(2) branch_files_def rd_is_file_def)
qed

text \<open>The operations of the command line on branches.\<close>

datatype branch_op = SetBranch pystr pystr | DeleteBranch pystr

definition branch_del :: "pystr list \<Rightarrow> ref_store \<Rightarrow> ref_store res" where
  "branch_del p r =
     (if rd_is_file (heads r) p then Inr (r\<lparr>heads := (heads r)\<lparr>rd_files := AList.delete p (rd_files (heads r))\<rparr>\<rparr>)
      else if p \<in> set (rd_dirs (heads r)) then Inl OSError else Inr r)"

fun run_branch_op :: "branch_op \<Rightarrow> ref_store \<Rightarrow> ref_store res" where
  "run_branch_op (SetBranch name h) r = set_branch r name h"
| "run_branch_op (DeleteBranch name) r = bindE (delete_branch r name) (\<lambda>(b, r'). Inr r')"

fun abs_branch_op :: "branch_op \<Rightarrow> (pystr list, pystr) map_op" where
  "abs_branch_op (SetBranch name h) = Put (path_parts name) (h @ [10])"
| "abs_branch_op (DeleteBranch name) = Del (path_parts name)"

lemma branch_del_ok: "refs_inv r \<Longrightarrow> branch_del p r = Inr r' \<Longrightarrow> refs_inv r' \<and> branch_files r' = (branch_files r)(p := None)"
  by (auto simp: branch_del_def refs_inv_def rd_inv_delete rd_is_file_def branch_files_def delete_conv' split: if_splits)

interpretation branches: ref_map refs_inv branch_files put_branch branch_del
  by unfold_locales (erule (1) put_branch_ok, erule (1) branch_del_ok)

lemma run_branch_op_step: "run_branch_op op r = branches.step (abs_branch_op op) r"
proof (cases op)
  case (SetBranch name h)
  then show ?thesis by (simp add: set_branch_def ref_write_def put_branch_def)
next
  case (DeleteBranch name)
  then show ?thesis by (simp add: delete_branch_def ref_delete_def branch_del_def Let_def)
qed

lemma run_branch_ops_steps: "foldE run_branch_op ops r = foldE branches.step (map abs_branch_op ops) r"
proof (induction ops arbitrary: r)
  case (Cons op ops)
  have "foldE run_branch_op ops = foldE branches.step (map abs_branch_op ops)" using Cons.IH by (rule ext)
  then show ?case by (simp only: list.map foldE.simps run_branch_op_step [of op])
qed simp

lemma run_branch_op_rest: "run_branch_op op r = Inr r' \<Longrightarrow> tags r' = tags r \<and> head_text r' = head_text r"
  by (cases op) (auto simp: set_branch_def delete_branch_def bindE_eq_Inr)

text \<open>
  C27: The branches refine a map from paths to hashes. Any sequence of writes and deletions that
  succeeds keeps the directory well-formed and does to the map what the sequence does; tags and HEAD
  are untouched; and reading a name gives the text last written under its path without white space
  around it, unless the name is a directory.
\<close>

theorem branches_refine_map:
  assumes "refs_inv r" and "foldE run_branch_op ops r = Inr r'"
  shows "refs_inv r' \<and> branch_files r' = fold map_step (map abs_branch_op ops) (branch_files r) \<and>
     tags r' = tags r \<and> head_text r' = head_text r \<and>
     (\<forall>name. path_parts name \<notin> set (rd_dirs (heads r')) \<longrightarrow>
        get_branch r' name = Inr (map_option (\<lambda>t. py_strip (newlines t)) (branch_files r' (path_parts name))))"
proof -
  have "tags r' = tags r \<and> head_text r' = head_text r"
    by (rule foldE_invariant [OF assms(2)]) (use run_branch_op_rest in auto)
  moreover have "get_branch r' name = Inr (map_option (\<lambda>t. py_strip (newlines t)) (branch_files r' (path_parts name)))"
    if "path_parts name \<notin> set (rd_dirs (heads r'))" for name
    using that by (auto simp: get_branch_def ref_read_def branch_files_def Let_def split: option.splits)
  ultimately show ?thesis
    using branches.steps_refine [OF assms(1), of "map abs_branch_op ops"] assms(2) by (simp add: run_branch_ops_steps)
qed

lemma refs_init_inv: "refs_inv (refs_init no_refs)"
  by (simp add: refs_inv_def refs_init_def no_refs_def make_root_def rd_inv_def rd_is_file_def parents_of_def)

theorem branches_refine_map_witness:
  "\<exists>r'. foldE run_branch_op [SetBranch (str ''x/y'') (str ''00''), DeleteBranch (str ''x/y'')] (refs_init no_refs) = Inr r' \<and>
     branch_files r' = Map.empty"
proof -
  let ?ops = "[SetBranch (str ''x/y'') (str ''00''), DeleteBranch (str ''x/y'')]"
  have p: "path_parts (str ''x/y'') = [str ''x'', str ''y'']" by (simp add: path_parts_def str_def)
  obtain r' where r': "foldE run_branch_op ?ops (refs_init no_refs) = Inr r'"
    by (simp add: set_branch_def ref_write_def p atomic_write_def parents_of_def refs_init_def no_refs_def make_root_def
        rd_is_file_def delete_branch_def ref_delete_def Let_def)
  have "branch_files (refs_init no_refs) = Map.empty" by (simp add: branch_files_def refs_init_def no_refs_def make_root_def)
  with branches_refine_map [OF refs_init_inv r'] r' show ?thesis by (auto simp: fun_eq_iff)
qed

section \<open>The roots of a collection\<close>

text \<open>What \<open>dit gc\<close> and \<open>dit fsck\<close> start from.\<close>

definition gc_roots :: "ref_store \<Rightarrow> pystr list" where
  "gc_roots r = map snd (list_branches r) @ map snd (list_tags r)"

text \<open>
  A branch whose name has a slash is a branch like any other, but not a root of a collection: in a
  fresh repository whose only branch is \<open>x/y\<close> the branch resolves to its commit and the collector
  is given no root at all, so it deletes the commit and everything it reaches once it is old enough.
\<close>

lemma nested_branch_no_root:
  "\<exists>r. set_branch (refs_init no_refs) (str ''x/y'') (str ''ab'') = Inr r \<and>
     get_branch r (str ''x/y'') = Inr (Some (str ''ab'')) \<and> gc_roots r = []"
proof -
  have p: "path_parts (str ''x/y'') = [str ''x'', str ''y'']" by (simp add: path_parts_def str_def)
  have "py_strip (newlines (str ''ab'' @ [10])) = str ''ab''" by (simp add: str_def py_strip_def py_space_def)
  then show ?thesis
    by (simp add: set_branch_def ref_write_def p atomic_write_def parents_of_def refs_init_def no_refs_def make_root_def
        rd_is_file_def get_branch_def ref_read_def gc_roots_def list_branches_def list_tags_def ref_list_def Let_def)
qed

end
