(* ===== verification/Dit_Glob.thy ===== *)
theory Dit_Glob
  imports Dit_Text
begin

text \<open>
  \<open>fnmatch.fnmatch(name, pattern)\<close> on POSIX, which the validator and the branch rules of the
  server use. A pattern is translated as the standard library does: \<open>*\<close>, \<open>?\<close>, \<open>[seq]\<close> and
  \<open>[!seq]\<close>; a bracket that is not closed is a literal; an empty range \<open>z-a\<close> vanishes.
\<close>

section \<open>Translation\<close>

datatype class_item = Single nat | Range nat nat

datatype pat_item = PStar | PAny | PLit nat | PClass bool "class_item list"

text \<open>The text between the brackets, and what follows the closing one.\<close>

definition class_body :: "pystr \<Rightarrow> (pystr \<times> pystr) option" where
  "class_body s =
     (let a = (if py_startswith s [33] then [33] else []);
          s1 = drop (length a) s;
          b = (if py_startswith s1 [93] then [93] else []);
          s2 = drop (length b) s1;
          c = takeWhile (\<lambda>x. x \<noteq> 93) s2 in
      if length c < length s2 then Some (a @ b @ c, drop (Suc (length c)) s2) else None)"

fun class_items :: "pystr \<Rightarrow> class_item list" where
  "class_items (x # c # y # r) = (if c = 45 then Range x y # class_items r else Single x # class_items (c # y # r))"
| "class_items (x # r) = Single x # class_items r"
| "class_items [] = []"

fun nonempty_item :: "class_item \<Rightarrow> bool" where
  "nonempty_item (Single x) = True"
| "nonempty_item (Range x y) = (x \<le> y)"

text \<open>An exclamation mark that comes first only because empty ranges vanished negates, too.\<close>

definition class_of :: "pystr \<Rightarrow> pat_item" where
  "class_of stuff =
     (if py_startswith stuff [33] then PClass True (filter nonempty_item (class_items (tl stuff)))
      else (case filter nonempty_item (class_items stuff) of
          Single c # items \<Rightarrow> if c = 33 then PClass True items else PClass False (Single c # items)
        | Range x y # items \<Rightarrow> if x = 33 then PClass True (Single 45 # Single y # items) else PClass False (Range x y # items)
        | [] \<Rightarrow> PClass False []))"

lemma class_body_shorter: "class_body s = Some (stuff, r) \<Longrightarrow> length r \<le> length s"
  by (auto simp: class_body_def Let_def split: if_splits)

function glob_parse :: "pystr \<Rightarrow> pat_item list" where
  "glob_parse [] = []"
| "glob_parse (c # r) =
     (if c = 42 then PStar # glob_parse r
      else if c = 63 then PAny # glob_parse r
      else if c = 91 then
        (case class_body r of
           None \<Rightarrow> PLit 91 # glob_parse r
         | Some (stuff, r2) \<Rightarrow> class_of stuff # glob_parse r2)
      else PLit c # glob_parse r)"
  by pat_completeness auto

termination glob_parse
  by (relation "measure length") (auto dest: class_body_shorter)

section \<open>Matching\<close>

fun item_has :: "nat \<Rightarrow> class_item \<Rightarrow> bool" where
  "item_has c (Single x) = (c = x)"
| "item_has c (Range x y) = (x \<le> c \<and> c \<le> y)"

fun char_matches :: "pat_item \<Rightarrow> nat \<Rightarrow> bool" where
  "char_matches PStar c = True"
| "char_matches PAny c = True"
| "char_matches (PLit x) c = (c = x)"
| "char_matches (PClass neg items) c = ((\<exists>i \<in> set items. item_has c i) \<noteq> neg)"

fun glob_match :: "pat_item list \<Rightarrow> pystr \<Rightarrow> bool" where
  "glob_match [] s = (s = [])"
| "glob_match (PStar # p) [] = glob_match p []"
| "glob_match (PStar # p) (c # s) = (glob_match p (c # s) \<or> glob_match (PStar # p) s)"
| "glob_match (i # p) [] = False"
| "glob_match (i # p) (c # s) = (char_matches i c \<and> glob_match p s)"

definition fnmatch :: "pystr \<Rightarrow> pystr \<Rightarrow> bool" where
  "fnmatch name pattern = glob_match (glob_parse pattern) name"

section \<open>What is matched\<close>

text \<open>A star stands for any string, the other items for one character each.\<close>

lemma glob_match_star: "glob_match (PStar # p) s \<longleftrightarrow> (\<exists>u v. s = u @ v \<and> glob_match p v)"
proof (induction s)
  case (Cons c s)
  show ?case
  proof
    assume "glob_match (PStar # p) (c # s)"
    then consider "glob_match p (c # s)" | "\<exists>u v. s = u @ v \<and> glob_match p v" using Cons.IH by auto
    then show "\<exists>u v. c # s = u @ v \<and> glob_match p v" by cases (force, metis append_Cons)
  next
    assume "\<exists>u v. c # s = u @ v \<and> glob_match p v"
    then obtain u v where uv: "c # s = u @ v" "glob_match p v" by blast
    then show "glob_match (PStar # p) (c # s)" using Cons.IH by (cases u) auto
  qed
qed simp

lemma glob_match_Cons: "i \<noteq> PStar \<Longrightarrow> glob_match (i # p) s \<longleftrightarrow> (\<exists>c r. s = c # r \<and> char_matches i c \<and> glob_match p r)"
  by (cases i; cases s) auto

text \<open>A pattern without special characters matches itself only.\<close>

lemma fnmatch_plain:
  assumes "\<forall>c \<in> set pattern. c \<noteq> 42 \<and> c \<noteq> 63 \<and> c \<noteq> 91"
  shows "fnmatch name pattern \<longleftrightarrow> name = pattern"
  using assms unfolding fnmatch_def
proof (induction pattern arbitrary: name)
  case (Cons c p)
  then show ?case by (cases name) auto
qed simp

lemma fnmatch_star [simp]: "fnmatch name [42]"
  by (auto simp: fnmatch_def glob_match_star)

lemma fnmatch_prefix:
  assumes "\<forall>c \<in> set p. c \<noteq> 42 \<and> c \<noteq> 63 \<and> c \<noteq> 91"
  shows "fnmatch name (p @ [42]) \<longleftrightarrow> py_startswith name p"
  using assms unfolding fnmatch_def
proof (induction p arbitrary: name)
  case (Cons c p)
  then show ?case by (cases name) (auto simp: py_startswith_def)
qed (simp add: glob_match_star)

end
