(* ===== verification/Dit_Validate.thy ===== *)
theory Dit_Validate
  imports Dit_Query Dit_Glob
begin

text \<open>
  Validation of the rows of a commit: \<open>src/dit/core/validate.py\<close> and the way the server loads the
  rules of a commit (\<open>server/routes/validate_api.py\<close>). The YAML parser is an argument \<open>yaml\<close> from a
  text to a JSON-like value: keys are strings, dates and tags are outside the model.
\<close>

section \<open>Rules\<close>

record file_override =
  ov_required :: "pystr list option option"
  ov_forbidden :: "pystr list option option"
  ov_max :: "json option"
  ov_min :: "json option"

record rules =
  r_required :: "pystr list"
  r_forbidden :: "pystr list"
  r_max :: json
  r_min :: json
  r_per_file :: "file_override dict"

definition default_rules :: rules where
  "default_rules = \<lparr>r_required = [], r_forbidden = [], r_max = JNull, r_min = JNull, r_per_file = []\<rparr>"

text \<open>\<open>isinstance(v, int)\<close> holds of booleans, too.\<close>

fun py_int :: "json \<Rightarrow> int option" where
  "py_int (JInt i) = Some i"
| "py_int (JBool b) = Some (if b then 1 else 0)"
| "py_int v = None"

definition field_or :: "json dict \<Rightarrow> string \<Rightarrow> json \<Rightarrow> json" where
  "field_or raw k v = (case map_of raw (str k) of None \<Rightarrow> v | Some x \<Rightarrow> x)"

definition check_limit :: "json \<Rightarrow> json res" where
  "check_limit v =
     (if v = JNull then Inr v
      else case py_int v of None \<Rightarrow> Inl ValueError | Some n \<Rightarrow> if n \<le> 0 then Inl ValueError else Inr v)"

fun string_list :: "pyfmt \<Rightarrow> json \<Rightarrow> pystr list res" where
  "string_list F (JArr vs) = Inr (map (py_str F) vs)"
| "string_list F v = Inl ValueError"

definition opt_string_list :: "pyfmt \<Rightarrow> json \<Rightarrow> pystr list option res" where
  "opt_string_list F v = (if v = JNull then Inr None else bindE (string_list F v) (\<lambda>xs. Inr (Some xs)))"

text \<open>\<open>if k in overrides: entry[k] = f(overrides[k])\<close>.\<close>

definition if_present :: "json dict \<Rightarrow> string \<Rightarrow> (json \<Rightarrow> 'a res) \<Rightarrow> 'a option res" where
  "if_present kvs k f = (case map_of kvs (str k) of None \<Rightarrow> Inr None | Some v \<Rightarrow> bindE (f v) (\<lambda>x. Inr (Some x)))"

fun load_override :: "pyfmt \<Rightarrow> json \<Rightarrow> file_override res" where
  "load_override F (JObj kvs) =
     bindE (if_present kvs ''required_fields'' (opt_string_list F)) (\<lambda>rf.
     bindE (if_present kvs ''forbidden_keywords'' (opt_string_list F)) (\<lambda>fk.
     bindE (if_present kvs ''max_row_chars'' check_limit) (\<lambda>mx.
     bindE (if_present kvs ''min_row_chars'' check_limit) (\<lambda>mn.
       Inr \<lparr>ov_required = rf, ov_forbidden = fk, ov_max = mx, ov_min = mn\<rparr>))))"
| "load_override F v = Inl ValueError"

fun load_per_file :: "pyfmt \<Rightarrow> json \<Rightarrow> file_override dict res" where
  "load_per_file F JNull = Inr []"
| "load_per_file F (JObj kvs) = mapE (\<lambda>(p, v). bindE (load_override F v) (\<lambda>ov. Inr (p, ov))) kvs"
| "load_per_file F v = Inl ValueError"

fun rules_of_yaml :: "pyfmt \<Rightarrow> json \<Rightarrow> rules res" where
  "rules_of_yaml F JNull = Inr default_rules"
| "rules_of_yaml F (JObj raw) =
     bindE (string_list F (field_or raw ''required_fields'' (JArr []))) (\<lambda>rf.
     bindE (string_list F (field_or raw ''forbidden_keywords'' (JArr []))) (\<lambda>fk.
     bindE (check_limit (field_or raw ''max_row_chars'' JNull)) (\<lambda>mx.
     bindE (check_limit (field_or raw ''min_row_chars'' JNull)) (\<lambda>mn.
     bindE (load_per_file F (field_or raw ''per_file'' (JObj []))) (\<lambda>pf.
       Inr \<lparr>r_required = rf, r_forbidden = fk, r_max = mx, r_min = mn, r_per_file = pf\<rparr>)))))"
| "rules_of_yaml F v = Inl ValueError"

text \<open>The contents of \<open>.ditvalidate.yaml\<close>, if there is such a file.\<close>

definition load_rules :: "pyfmt \<Rightarrow> (pystr \<Rightarrow> json res) \<Rightarrow> bytes option \<Rightarrow> rules res" where
  "load_rules F yaml contents =
     (case contents of
        None \<Rightarrow> Inr default_rules
      | Some data \<Rightarrow> bindE (utf8_decode False data) (\<lambda>s. bindE (yaml (newlines s)) (rules_of_yaml F)))"

text \<open>The rules for one file.\<close>

record file_rules =
  f_required :: "pystr list"
  f_forbidden :: "pystr list"
  f_max :: json
  f_min :: json

fun override_list :: "'a list option option \<Rightarrow> 'a list \<Rightarrow> 'a list" where
  "override_list None xs = xs"
| "override_list (Some None) xs = []"
| "override_list (Some (Some ys)) xs = ys"

definition override_with :: "'a option \<Rightarrow> 'a \<Rightarrow> 'a" where
  "override_with v x = (case v of None \<Rightarrow> x | Some y \<Rightarrow> y)"

definition apply_override :: "pystr \<Rightarrow> pystr \<times> file_override \<Rightarrow> file_rules \<Rightarrow> file_rules" where
  "apply_override path pov resolved =
     (let (pattern, ov) = pov in
      if fnmatch path pattern
      then \<lparr>f_required = override_list (ov_required ov) (f_required resolved),
            f_forbidden = override_list (ov_forbidden ov) (f_forbidden resolved),
            f_max = override_with (ov_max ov) (f_max resolved),
            f_min = override_with (ov_min ov) (f_min resolved)\<rparr>
      else resolved)"

definition resolve_rules_for_file :: "rules \<Rightarrow> pystr \<Rightarrow> file_rules" where
  "resolve_rules_for_file R path =
     fold (apply_override path) (r_per_file R)
       \<lparr>f_required = r_required R, f_forbidden = r_forbidden R, f_max = r_max R, f_min = r_min R\<rparr>"

section \<open>Checking a row\<close>

record violation =
  vi_file :: pystr
  vi_row_index :: nat
  vi_row_hash :: pystr
  vi_rule :: pystr
  vi_detail :: pystr

text \<open>\<open>name in row\<close>.\<close>

fun field_in :: "pystr \<Rightarrow> json \<Rightarrow> bool res" where
  "field_in k (JObj kvs) = Inr (k \<in> fst ` set kvs)"
| "field_in k (JArr vs) = Inr (JStr k \<in> set vs)"
| "field_in k (JStr s) = Inr (py_contains k s)"
| "field_in k v = Inl TypeError"

definition over_limit :: "json \<Rightarrow> (int \<Rightarrow> bool) \<Rightarrow> bool res" where
  "over_limit v f = (if v = JNull then Inr False
     else case py_int v of None \<Rightarrow> Inl TypeError | Some n \<Rightarrow> Inr (f n))"

definition row_text :: "pyfmt \<Rightarrow> json \<Rightarrow> pystr" where
  "row_text F row = json_text raw_string F [44] [58] row"

definition check_row :: "env \<Rightarrow> pyfmt \<Rightarrow> file_rules \<Rightarrow> pystr \<Rightarrow> nat \<Rightarrow> pystr \<Rightarrow> json \<Rightarrow> violation list res" where
  "check_row E F fr path i rh row =
     (let viol = (\<lambda>rule detail. \<lparr>vi_file = path, vi_row_index = i, vi_row_hash = rh, vi_rule = str rule, vi_detail = detail\<rparr>);
          row_json = row_text F row; n = length row_json in
      bindE (mapE (\<lambda>name. bindE (field_in name row) (\<lambda>b.
          Inr (if b then [] else [viol ''required_fields'' (str ''missing field: '' @ name)]))) (f_required fr)) (\<lambda>missing.
      let forbidden = map (\<lambda>keyword. viol ''forbidden_keywords'' (str ''keyword \"'' @ keyword @ str ''\" found''))
            (filter (\<lambda>keyword. py_contains (py_lower E keyword) (py_lower E row_json)) (f_forbidden fr)) in
      bindE (over_limit (f_max fr) (\<lambda>m. m < int n)) (\<lambda>too_long.
      bindE (over_limit (f_min fr) (\<lambda>m. int n < m)) (\<lambda>too_short.
        Inr (concat missing @ forbidden @
          (if too_long then [viol ''max_row_chars'' (str ''row has '' @ int_str (int n) @ str '' chars (limit '' @ py_str F (f_max fr) @ str '')'')] else []) @
          (if too_short then [viol ''min_row_chars'' (str ''row has '' @ int_str (int n) @ str '' chars (minimum '' @ py_str F (f_min fr) @ str '')'')] else []))))))"

section \<open>Validating a commit\<close>

definition validate_row ::
  "env \<Rightarrow> pyfmt \<Rightarrow> disk \<Rightarrow> file_rules \<Rightarrow> pystr \<Rightarrow> nat \<times> manifest_entry \<Rightarrow> violation list \<times> nat \<Rightarrow> (violation list \<times> nat) res" where
  "validate_row E F d fr path ie st =
     (let (row_index, entry) = ie; (violations, checked_rows) = st in
      bindE (store_read E d (str ''rows'') (row_hash entry)) (\<lambda>x. case x of
        None \<Rightarrow> Inr (violations, Suc checked_rows)
      | Some row_bytes \<Rightarrow> bindE (json_loads_bytes row_bytes) (\<lambda>row.
          bindE (check_row E F fr path row_index (row_hash entry) row) (\<lambda>vs.
            Inr (violations @ vs, Suc checked_rows)))))"

definition validate_file ::
  "env \<Rightarrow> pyfmt \<Rightarrow> disk \<Rightarrow> rules \<Rightarrow> pystr \<times> flat_entry \<Rightarrow> violation list \<times> nat \<Rightarrow> (violation list \<times> nat) res" where
  "validate_file E F d R item st =
     (let (path, obj_type, obj_hash, _) = item in
      if obj_type \<noteq> str ''manifest'' then Inr st
      else bindE (read_manifest E d obj_hash) (\<lambda>x. case x of
          None \<Rightarrow> Inr st
        | Some m \<Rightarrow> foldE (validate_row E F d (resolve_rules_for_file R path) path) (py_enumerate (entries m)) st))"

record validation =
  va_status :: pystr
  va_violations :: "violation list"
  va_checked_rows :: nat

definition validate_commit :: "env \<Rightarrow> pyfmt \<Rightarrow> disk \<Rightarrow> pystr \<Rightarrow> rules \<Rightarrow> validation res" where
  "validate_commit E F d commit_hash R =
     bindE (commit_flat E d commit_hash) (\<lambda>flat.
     bindE (foldE (validate_file E F d R) (sorted_items flat) ([], 0)) (\<lambda>(violations, checked_rows).
       Inr \<lparr>va_status = (if violations \<noteq> [] then str ''fail'' else str ''pass''),
            va_violations = violations, va_checked_rows = checked_rows\<rparr>))"

section \<open>The rules of a commit on the server\<close>

definition load_rules_from_store :: "env \<Rightarrow> pyfmt \<Rightarrow> (pystr \<Rightarrow> json res) \<Rightarrow> disk \<Rightarrow> pystr \<Rightarrow> rules res" where
  "load_rules_from_store E F yaml d commit_hash =
     bindE (read_commit E d commit_hash) (\<lambda>x. case x of
       None \<Rightarrow> load_rules F yaml None
     | Some c \<Rightarrow>
         bindE (flatten_tree E d (rec_limit E) (tree_hash c) []) (\<lambda>flat.
           case map_of flat (str ''.ditvalidate.yaml'') of
             None \<Rightarrow> load_rules F yaml None
           | Some (obj_type, obj_hash, _) \<Rightarrow>
               if obj_type \<noteq> str ''blob'' then load_rules F yaml None
               else bindE (store_read E d (str ''blobs'') obj_hash) (load_rules F yaml)))"

section \<open>Well-typed rules\<close>

definition limit_ok :: "json \<Rightarrow> bool" where
  "limit_ok v \<longleftrightarrow> v = JNull \<or> (\<exists>n. py_int v = Some n \<and> 0 < n)"

definition wf_override :: "file_override \<Rightarrow> bool" where
  "wf_override ov \<longleftrightarrow> (\<forall>v. ov_max ov = Some v \<longrightarrow> limit_ok v) \<and> (\<forall>v. ov_min ov = Some v \<longrightarrow> limit_ok v)"

definition wf_rules :: "rules \<Rightarrow> bool" where
  "wf_rules R \<longleftrightarrow> limit_ok (r_max R) \<and> limit_ok (r_min R) \<and> (\<forall>pov \<in> set (r_per_file R). wf_override (snd pov))"

definition wf_file_rules :: "file_rules \<Rightarrow> bool" where
  "wf_file_rules fr \<longleftrightarrow> limit_ok (f_max fr) \<and> limit_ok (f_min fr)"

lemma check_limit_ok: "check_limit v = Inr w \<Longrightarrow> limit_ok w"
  by (auto simp: check_limit_def limit_ok_def split: if_splits option.splits)

lemma if_present_limit: "if_present kvs k check_limit = Inr x \<Longrightarrow> x = Some v \<Longrightarrow> limit_ok v"
  by (auto simp: if_present_def bindE_eq_Inr check_limit_ok split: option.splits)

lemma load_override_ok: "load_override F v = Inr ov \<Longrightarrow> wf_override ov"
  by (cases "(F, v)" rule: load_override.cases) (auto simp: bindE_eq_Inr wf_override_def if_present_limit)

lemma load_per_file_ok: "load_per_file F v = Inr pf \<Longrightarrow> pov \<in> set pf \<Longrightarrow> wf_override (snd pov)"
proof (cases "(F, v)" rule: load_per_file.cases)
  case (2 G kvs)
  assume "load_per_file F v = Inr pf" "pov \<in> set pf"
  with 2 have "\<exists>x \<in> set kvs. (\<lambda>(p, v). bindE (load_override F v) (\<lambda>ov. Inr (p, ov))) x = Inr pov"
    by (intro mapE_nth) auto
  then show ?thesis by (auto simp: bindE_eq_Inr load_override_ok)
qed auto

lemma rules_of_yaml_ok: "rules_of_yaml F v = Inr R \<Longrightarrow> wf_rules R"
  by (cases "(F, v)" rule: rules_of_yaml.cases)
     (auto simp: bindE_eq_Inr wf_rules_def default_rules_def limit_ok_def [of JNull] dest: check_limit_ok load_per_file_ok)

lemma resolve_rules_ok:
  assumes "wf_rules R"
  shows "wf_file_rules (resolve_rules_for_file R path)"
proof -
  have "wf_file_rules (fold (apply_override path) povs fr)"
    if "wf_file_rules fr" "\<forall>pov \<in> set povs. wf_override (snd pov)" for povs fr
    using that
  proof (induction povs arbitrary: fr)
    case (Cons pov povs)
    then have "wf_file_rules (apply_override path pov fr)"
      by (cases pov) (auto simp: apply_override_def wf_file_rules_def wf_override_def override_with_def split: option.splits)
    with Cons show ?case by simp
  qed simp
  with assms show ?thesis by (simp add: resolve_rules_for_file_def wf_rules_def wf_file_rules_def)
qed

lemma over_limit_total: "limit_ok v \<Longrightarrow> \<exists>b. over_limit v f = Inr b"
  by (auto simp: over_limit_def limit_ok_def)

lemma mapE_total: "(\<And>x. x \<in> set xs \<Longrightarrow> \<exists>y. f x = Inr y) \<Longrightarrow> \<exists>ys. mapE f xs = Inr ys"
  by (induction xs) fastforce+

lemma check_row_total:
  assumes "wf_file_rules fr"
  shows "\<exists>vs. check_row E F fr path i h (JObj kvs) = Inr vs"
proof -
  from assms obtain a b where ab: "over_limit (f_max fr) (\<lambda>m. m < int (length (row_text F (JObj kvs)))) = Inr a"
    "over_limit (f_min fr) (\<lambda>m. int (length (row_text F (JObj kvs))) < m) = Inr b"
    using over_limit_total unfolding wf_file_rules_def by metis
  obtain ms where "mapE (\<lambda>name. bindE (field_in name (JObj kvs)) (\<lambda>b. Inr (if b then [] else
      [\<lparr>vi_file = path, vi_row_index = i, vi_row_hash = h, vi_rule = str ''required_fields'',
        vi_detail = str ''missing field: '' @ name\<rparr>]))) (f_required fr) = Inr ms"
    using mapE_total [of "f_required fr"] by (metis (no_types, lifting) bindE_simps(2) field_in.simps(1))
  with ab show ?thesis by (simp add: check_row_def Let_def)
qed



section \<open>What validation decides\<close>

definition satisfies :: "env \<Rightarrow> pyfmt \<Rightarrow> file_rules \<Rightarrow> json \<Rightarrow> bool" where
  "satisfies E F fr row \<longleftrightarrow>
     (\<forall>k \<in> set (f_required fr). field_in k row = Inr True) \<and>
     (\<forall>w \<in> set (f_forbidden fr). \<not> py_contains (py_lower E w) (py_lower E (row_text F row))) \<and>
     (\<forall>n. py_int (f_max fr) = Some n \<longrightarrow> int (length (row_text F row)) \<le> n) \<and>
     (\<forall>n. py_int (f_min fr) = Some n \<longrightarrow> n \<le> int (length (row_text F row)))"

lemma over_limit_iff: "over_limit v f = Inr b \<Longrightarrow> b \<longleftrightarrow> (\<exists>n. py_int v = Some n \<and> f n)"
  by (auto simp: over_limit_def split: if_splits option.splits)

lemma mapE_flags:
  assumes "mapE (\<lambda>x. bindE (f x) (\<lambda>b. Inr (if b then [] else [g x]))) xs = Inr yss"
  shows "concat yss = [] \<longleftrightarrow> (\<forall>x \<in> set xs. f x = Inr True)" and "set (concat yss) \<subseteq> g ` set xs"
proof -
  show "concat yss = [] \<longleftrightarrow> (\<forall>x \<in> set xs. f x = Inr True)"
    using assms by (induction xs arbitrary: yss) (auto simp: bindE_eq_Inr split: if_splits)
  show "set (concat yss) \<subseteq> g ` set xs"
    using assms
  proof (induction xs arbitrary: yss)
    case (Cons x xs)
    then obtain b zss where "f x = Inr b" and z: "mapE (\<lambda>x. bindE (f x) (\<lambda>b. Inr (if b then [] else [g x]))) xs = Inr zss"
      and y: "yss = (if b then [] else [g x]) # zss" by (auto simp: bindE_eq_Inr)
    have "set (concat yss) \<subseteq> insert (g x) (set (concat zss))" by (simp add: y subset_insertI)
    with Cons.IH [OF z] show ?case unfolding list.set image_insert by blast
  qed simp
qed

lemma check_row_spec:
  assumes "check_row E F fr path i h row = Inr vs"
  shows "vs = [] \<longleftrightarrow> satisfies E F fr row"
    and "v \<in> set vs \<Longrightarrow> vi_file v = path \<and> vi_row_index v = i \<and> vi_row_hash v = h"
proof -
  let ?viol = "\<lambda>rule detail. \<lparr>vi_file = path, vi_row_index = i, vi_row_hash = h, vi_rule = str rule, vi_detail = detail\<rparr>"
  let ?n = "length (row_text F row)"
  let ?ws = "filter (\<lambda>w. py_contains (py_lower E w) (py_lower E (row_text F row))) (f_forbidden fr)"
  from assms obtain ms a b where ms: "mapE (\<lambda>name. bindE (field_in name row) (\<lambda>b.
      Inr (if b then [] else [?viol ''required_fields'' (str ''missing field: '' @ name)]))) (f_required fr) = Inr ms"
    and a: "over_limit (f_max fr) (\<lambda>m. m < int ?n) = Inr a" and b: "over_limit (f_min fr) (\<lambda>m. int ?n < m) = Inr b"
    and vs: "vs = concat ms @ map (\<lambda>w. ?viol ''forbidden_keywords'' (str ''keyword \"'' @ w @ str ''\" found'')) ?ws @
       (if a then [?viol ''max_row_chars'' (str ''row has '' @ int_str (int ?n) @ str '' chars (limit '' @ py_str F (f_max fr) @ str '')'')] else []) @
       (if b then [?viol ''min_row_chars'' (str ''row has '' @ int_str (int ?n) @ str '' chars (minimum '' @ py_str F (f_min fr) @ str '')'')] else [])"
    unfolding check_row_def Let_def bindE_eq_Inr by blast
  have ws: "?ws = [] \<longleftrightarrow> (\<forall>w \<in> set (f_forbidden fr). \<not> py_contains (py_lower E w) (py_lower E (row_text F row)))"
    by (simp add: filter_empty_conv)
  show "vs = [] \<longleftrightarrow> satisfies E F fr row"
    using mapE_flags(1) [OF ms] ws over_limit_iff [OF a] over_limit_iff [OF b]
    unfolding vs satisfies_def by (auto simp: not_less)
  show "v \<in> set vs \<Longrightarrow> vi_file v = path \<and> vi_row_index v = i \<and> vi_row_hash v = h"
    using mapE_flags(2) [OF ms] unfolding vs by (auto split: if_splits)
qed

text \<open>What is wrong with one row; a row that is not in the store passes.\<close>

definition row_verdict :: "env \<Rightarrow> pyfmt \<Rightarrow> disk \<Rightarrow> rules \<Rightarrow> pystr \<times> nat \<times> manifest_entry \<Rightarrow> violation list res" where
  "row_verdict E F d R pos =
     (let (path, i, e) = pos in
      bindE (store_read E d (str ''rows'') (row_hash e)) (\<lambda>x. case x of
        None \<Rightarrow> Inr []
      | Some b \<Rightarrow> bindE (json_loads_bytes b) (check_row E F (resolve_rules_for_file R path) path i (row_hash e))))"

definition row_passes :: "env \<Rightarrow> pyfmt \<Rightarrow> disk \<Rightarrow> rules \<Rightarrow> pystr \<times> nat \<times> manifest_entry \<Rightarrow> bool" where
  "row_passes E F d R pos =
     (let (path, i, e) = pos in
      case store_read E d (str ''rows'') (row_hash e) of
        Inr (Some b) \<Rightarrow> (case json_loads_bytes b of
            Inr row \<Rightarrow> satisfies E F (resolve_rules_for_file R path) row | Inl x \<Rightarrow> False)
      | Inr None \<Rightarrow> True
      | Inl x \<Rightarrow> False)"

lemma row_verdict_spec:
  assumes "row_verdict E F d R pos = Inr vs"
  shows "vs = [] \<longleftrightarrow> row_passes E F d R pos"
    and "v \<in> set vs \<Longrightarrow> vi_file v = fst pos \<and> vi_row_index v = fst (snd pos) \<and> vi_row_hash v = row_hash (snd (snd pos))"
  using assms check_row_spec
  by (auto simp: row_verdict_def row_passes_def bindE_eq_Inr split: prod.splits option.splits) blast+

definition validated ::
  "env \<Rightarrow> pyfmt \<Rightarrow> disk \<Rightarrow> rules \<Rightarrow> (pystr \<times> nat \<times> manifest_entry) list \<Rightarrow> violation list \<times> nat \<Rightarrow> bool" where
  "validated E F d R ps st \<longleftrightarrow> (\<exists>vss. mapE (row_verdict E F d R) ps = Inr vss \<and> st = (concat vss, length ps))"

lemma validated_row:
  assumes "validated E F d R ps st"
    and "validate_row E F d (resolve_rules_for_file R path) path (i, e) st = Inr st'"
  shows "validated E F d R (ps @ [(path, i, e)]) st'"
proof -
  from assms(1) obtain vss where vss: "mapE (row_verdict E F d R) ps = Inr vss" "st = (concat vss, length ps)"
    by (auto simp: validated_def)
  from assms(2) obtain x where x: "store_read E d (str ''rows'') (row_hash e) = Inr x"
    by (auto simp: validate_row_def vss(2) bindE_eq_Inr)
  show ?thesis
  proof (cases x)
    case None
    with assms(2) x vss have "st' = (concat vss, Suc (length ps))" "row_verdict E F d R (path, i, e) = Inr []"
      by (simp_all add: validate_row_def row_verdict_def)
    with vss show ?thesis by (simp add: validated_def mapE_snoc)
  next
    case (Some b)
    with assms(2) x vss obtain row vs where "json_loads_bytes b = Inr row"
      "check_row E F (resolve_rules_for_file R path) path i (row_hash e) row = Inr vs" "st' = (concat vss @ vs, Suc (length ps))"
      by (auto simp: validate_row_def bindE_eq_Inr)
    with Some x vss show ?thesis by (simp add: validated_def mapE_snoc row_verdict_def)
  qed
qed

lemma validated_rows:
  "foldE (validate_row E F d (resolve_rules_for_file R path) path) ies st = Inr st' \<Longrightarrow> validated E F d R ps st \<Longrightarrow>
   validated E F d R (ps @ map (\<lambda>(i, e). (path, i, e)) ies) st'"
proof (induction ies arbitrary: st ps)
  case (Cons ie ies)
  obtain i e where ie: "ie = (i, e)" by (cases ie)
  from Cons.prems(1) obtain s1 where s1: "validate_row E F d (resolve_rules_for_file R path) path (i, e) st = Inr s1"
    "foldE (validate_row E F d (resolve_rules_for_file R path) path) ies s1 = Inr st'"
    by (auto simp: bindE_eq_Inr ie)
  from Cons.IH [OF s1(2) validated_row [OF Cons.prems(2) s1(1)]] show ?case by (simp add: ie)
qed simp

lemma validated_file:
  assumes "validate_file E F d R item st = Inr st'" and "validated E F d R ps st"
  shows "validated E F d R (ps @ positions_of E d None item) st'"
proof -
  obtain path ty h sc where item: "item = (path, ty, h, sc)" by (cases item)
  show ?thesis
  proof (cases "ty = str ''manifest''")
    case True
    with assms(1) obtain x where x: "read_manifest E d h = Inr x"
      "(case x of None \<Rightarrow> Inr st | Some m \<Rightarrow> foldE (validate_row E F d (resolve_rules_for_file R path) path) (py_enumerate (entries m)) st) = Inr st'"
      by (auto simp: validate_file_def item bindE_eq_Inr)
    show ?thesis
    proof (cases x)
      case None
      with x assms(2) True show ?thesis by (simp add: item positions_of_def)
    next
      case (Some m)
      with x(2) have "foldE (validate_row E F d (resolve_rules_for_file R path) path) (py_enumerate (entries m)) st = Inr st'"
        by simp
      from validated_rows [OF this assms(2)] show ?thesis using x(1) True Some by (simp add: item positions_of_def)
    qed
  next
    case False
    with assms show ?thesis by (simp add: validate_file_def item positions_of_def)
  qed
qed

lemma validated_files:
  "foldE (validate_file E F d R) items st = Inr st' \<Longrightarrow> validated E F d R ps st \<Longrightarrow>
   validated E F d R (ps @ concat (map (positions_of E d None) items)) st'"
proof (induction items arbitrary: st ps)
  case (Cons item items)
  then obtain s1 where s1: "validate_file E F d R item st = Inr s1" "foldE (validate_file E F d R) items s1 = Inr st'"
    by (auto simp: bindE_eq_Inr)
  from Cons.IH [OF s1(2) validated_file [OF s1(1) Cons.prems(2)]] show ?case by simp
qed simp

text \<open>
  C25: Validation checks every row of every data file of the commit, in the order of the sorted
  paths, and never stops early: the violations are those of the rows one after the other, each naming
  its row; the status is \<open>pass\<close> exactly when every row in the store satisfies the rules of its file.
\<close>

theorem validate_exact:
  assumes "validate_commit E F d commit_hash R = Inr r"
  shows "\<exists>flat ps vss. commit_flat E d commit_hash = Inr flat \<and> ps = all_positions E d None (sorted_items flat) \<and>
     va_checked_rows r = length ps \<and>
     mapE (row_verdict E F d R) ps = Inr vss \<and> va_violations r = concat vss \<and>
     (va_status r = str ''pass'' \<longleftrightarrow> (\<forall>pos \<in> set ps. row_passes E F d R pos)) \<and>
     (va_status r = str ''fail'' \<longleftrightarrow> va_violations r \<noteq> []) \<and>
     (\<forall>v \<in> set (va_violations r). \<exists>(path, i, e) \<in> set ps. \<not> row_passes E F d R (path, i, e) \<and>
        vi_file v = path \<and> vi_row_index v = i \<and> vi_row_hash v = row_hash e)"
proof -
  from assms obtain flat vs n where flat: "commit_flat E d commit_hash = Inr flat"
    and s: "foldE (validate_file E F d R) (sorted_items flat) ([], 0) = Inr (vs, n)"
    and r: "r = \<lparr>va_status = (if vs \<noteq> [] then str ''fail'' else str ''pass''), va_violations = vs, va_checked_rows = n\<rparr>"
    by (auto simp: validate_commit_def bindE_eq_Inr)
  define ps where "ps = all_positions E d None (sorted_items flat)"
  have "validated E F d R [] ([], 0)" by (simp add: validated_def)
  from validated_files [OF s this] have "validated E F d R ps (vs, n)" by (simp add: ps_def all_positions_def)
  then obtain vss where vss: "mapE (row_verdict E F d R) ps = Inr vss" "vs = concat vss" "n = length ps"
    by (auto simp: validated_def)
  have rel: "list_all2 (\<lambda>p v. row_verdict E F d R p = Inr v) ps vss" using vss(1) by (simp add: mapE_eq_Inr)
  have "concat vss = [] \<longleftrightarrow> (\<forall>p \<in> set ps. row_passes E F d R p)"
    using rel by (induction rule: list_all2_induct) (auto simp: row_verdict_spec(1))
  then have pass: "vs = [] \<longleftrightarrow> (\<forall>p \<in> set ps. row_passes E F d R p)" by (simp add: vss(2))
  have viol: "\<forall>v \<in> set vs. \<exists>(path, i, e) \<in> set ps. \<not> row_passes E F d R (path, i, e) \<and>
        vi_file v = path \<and> vi_row_index v = i \<and> vi_row_hash v = row_hash e"
  proof
    fix v assume "v \<in> set vs"
    then obtain ws where ws: "ws \<in> set vss" "v \<in> set ws" by (auto simp: vss(2))
    with mapE_nth [OF vss(1)] obtain p where p: "p \<in> set ps" "row_verdict E F d R p = Inr ws" by blast
    have "ws \<noteq> []" using ws(2) by auto
    with row_verdict_spec [OF p(2)] ws(2) p(1) show "\<exists>(path, i, e) \<in> set ps. \<not> row_passes E F d R (path, i, e) \<and>
        vi_file v = path \<and> vi_row_index v = i \<and> vi_row_hash v = row_hash e"
      by (intro bexI [of _ p]) (auto simp: split_beta)
  qed
  have r': "va_checked_rows r = n" "va_violations r = vs" "va_status r = str ''pass'' \<longleftrightarrow> vs = []"
    "va_status r = str ''fail'' \<longleftrightarrow> vs \<noteq> []" by (simp_all add: r)
  show ?thesis
    by (rule exI [of _ flat], rule exI [of _ ps], rule exI [of _ vss], unfold r' pass [symmetric])
       (use flat vss viol ps_def in \<open>simp only: simp_thms\<close>)
qed

theorem validate_exact_witness:
  "\<exists>r. validate_commit demo_env demo_fmt data_disk data_head (default_rules\<lparr>r_required := [str ''k'']\<rparr>) = Inr r \<and>
     va_status r = str ''fail'' \<and> va_checked_rows r = 1"
proof -
  let ?R = "default_rules\<lparr>r_required := [str ''k'']\<rparr>"
  have rules: "resolve_rules_for_file ?R path = \<lparr>f_required = [str ''k''], f_forbidden = [], f_max = JNull, f_min = JNull\<rparr>" for path
    by (simp add: resolve_rules_for_file_def default_rules_def)
  obtain r where r: "validate_commit demo_env demo_fmt data_disk data_head ?R = Inr r" "va_status r = str ''fail''"
    by (simp add: validate_commit_def data_commit_flat sorted_items_def validate_file_def data_read data_entries
        py_enumerate_def validate_row_def demo_object_bytes rules check_row_def Let_def over_limit_def)
  have "length (all_positions demo_env data_disk None (sorted_items
      [(str ''t'', (str ''manifest'', demo_digest (serialize_manifest demo_manifest), None))])) = 1"
    by (simp add: all_positions_def positions_of_def data_read data_entries py_enumerate_def sorted_items_def)
  with validate_exact [OF r(1)] r show ?thesis by (auto simp: data_commit_flat)
qed

section \<open>The server cannot read committed rules\<close>

lemma be_bytes_head: "n < 256 ^ k \<Longrightarrow> \<exists>r. be_bytes (Suc k) n = 0 # r"
proof (induction k arbitrary: n)
  case (Suc k)
  have "n div 256 < 256 ^ k" using Suc.prems by (simp add: less_mult_imp_div_less mult.commute)
  from Suc.IH [OF this] show ?case by (metis append_Cons be_bytes.simps(2))
qed simp

text \<open>
  A commit can carry its own rules in a blob \<open>.ditvalidate.yaml\<close>. The command line stores
  blobs in an envelope whose first byte is zero, and the server hands the whole envelope to the YAML
  parser, which rejects texts with a zero character: whatever the committed rules are, loading them
  fails on the server, although the file itself may load.
\<close>

theorem server_rules_unreadable:
  assumes "read_commit E d commit_hash = Inr (Some c)"
    and "flatten_tree E d (rec_limit E) (tree_hash c) [] = Inr flat"
    and "map_of flat (str ''.ditvalidate.yaml'') = Some (str ''blob'', h, sc)"
    and "store_read E d (str ''blobs'') h = Inr (Some (serialize_blob content))"
    and "length content < 256 ^ 7"
    and "\<And>t. 0 \<in> set t \<Longrightarrow> yaml t = Inl YAMLError"
  shows "\<exists>e. load_rules_from_store E F yaml d commit_hash = Inl e"
proof -
  have "Suc 7 = 8" by simp
  then obtain r where "be_bytes 8 (length content) = 0 # r" using be_bytes_head [OF assms(5)] by metis
  then have b: "serialize_blob content = 0 # r @ content" by (simp only: serialize_blob_def append_Cons)
  have "0 \<in> set (newlines (0 # s))" for s by (cases s) auto
  then have "\<exists>e. load_rules F yaml (Some (0 # r @ content)) = Inl e"
    using assms(6) by (cases "utf8_decode False (r @ content)") (auto simp: load_rules_def)
  then show ?thesis using assms(1-4) by (simp add: load_rules_from_store_def b)
qed

definition config_entry :: tree_entry where
  "config_entry = \<lparr>te_name = str ''.ditvalidate.yaml'', te_type = str ''blob'',
     te_hash = demo_digest (serialize_blob [123, 125]), te_sidecar = None\<rparr>"

theorem server_rules_unreadable_witness:
  "\<exists>d c e. load_rules_from_store demo_env demo_fmt (\<lambda>t. if 0 \<in> set t then Inl YAMLError else Inr (JObj [])) d c = Inl e \<and>
     load_rules demo_fmt (\<lambda>t. if 0 \<in> set t then Inl YAMLError else Inr (JObj [])) (Some [123, 125]) = Inr default_rules"
proof -
  let ?yaml = "\<lambda>t :: pystr. if 0 \<in> set t then Inl YAMLError else Inr (JObj [])"
  define base where "base = put demo_env ''blobs'' (serialize_blob [123, 125]) []"
  let ?d = "file_disk config_entry base"
  have inv: "store_inv demo_env base" by (simp add: base_def put_inv)
  have st: "stored demo_env base ''commits'' = {}" "stored demo_env base ''trees'' = {}"
    by (simp_all add: base_def stored_def put_read_other) (simp_all add: store_read_Some)
  have "valid_tree (file_tree config_entry)"
    by (simp add: valid_tree_def file_tree_def config_entry_def demo_digest_valid)
  from file_flat [OF inv st(2) this] have flat: "flatten_tree demo_env ?d (rec_limit demo_env) (tree_hash (file_commit config_entry)) [] =
      Inr [(str ''.ditvalidate.yaml'', str ''blob'', demo_digest (serialize_blob [123, 125]), None)]"
    by (simp add: config_entry_def)
  have "store_read demo_env base (str ''blobs'') (demo_digest (serialize_blob [123, 125])) = Inr (Some (serialize_blob [123, 125]))"
    using put_read [of demo_env "[]" "''blobs''" "serialize_blob [123, 125]"]
    by (simp add: base_def collision_free_def stored_def) (simp add: store_read_Some)
  then have blob: "store_read demo_env ?d (str ''blobs'') (demo_digest (serialize_blob [123, 125])) = Inr (Some (serialize_blob [123, 125]))"
    by (simp add: file_read_other)
  obtain e where "load_rules_from_store demo_env demo_fmt ?yaml ?d (file_head config_entry) = Inl e"
    using server_rules_unreadable [OF file_read_commit [OF inv st(1)] flat _ blob, of None ?yaml] by auto
  moreover have "load_rules demo_fmt ?yaml (Some [123, 125]) = Inr default_rules"
    by (simp add: load_rules_def field_or_def check_limit_def default_rules_def)
  ultimately show ?thesis by blast
qed

end
