(* ===== verification/Dit_Local.thy ===== *)
theory Dit_Local
  imports Dit_Refs Dit_Validate
begin

text \<open>
  The small state files of a repository: the staging index (\<open>src/dit/core/index.py\<close>), the cache of
  file stats (\<open>core/stat_cache.py\<close>), the sparse checkout (\<open>core/sparse.py\<close>) and the configuration
  (\<open>core/config.py\<close>). A JSON or TOML file is the value in it. The file lock makes each operation on
  the index one step; \<open>free\<close> says whether the lock could be had before the timeout.
\<close>

section \<open>The staging index\<close>

type_synonym index_file = "json option"

definition with_lock :: "bool \<Rightarrow> 'a res \<Rightarrow> 'a res" where
  "with_lock free r = (if free then r else Inl TimeoutError)"

definition index_entry :: "pystr \<Rightarrow> pystr \<Rightarrow> json" where
  "index_entry obj_hash obj_type = JObj [(str ''hash'', JStr obj_hash), (str ''type'', JStr obj_type)]"

definition upgrade_entry :: "json \<Rightarrow> json" where
  "upgrade_entry v = (case v of JStr h \<Rightarrow> index_entry h (str ''manifest'') | _ \<Rightarrow> v)"

fun index_load :: "index_file \<Rightarrow> json dict res" where
  "index_load None = Inr []"
| "index_load (Some (JObj raw)) = Inr (map (\<lambda>kv. (fst kv, upgrade_entry (snd kv))) raw)"
| "index_load (Some v) = Inl AttributeError"

definition index_write :: "json dict \<Rightarrow> index_file" where
  "index_write data = Some (sort_keys (JObj data))"

definition index_stage :: "bool \<Rightarrow> pystr \<Rightarrow> pystr \<Rightarrow> pystr \<Rightarrow> index_file \<Rightarrow> index_file res" where
  "index_stage free rel_path obj_hash obj_type f =
     with_lock free (bindE (index_load f) (\<lambda>data.
       Inr (index_write (AList.update rel_path (index_entry obj_hash obj_type) data))))"

definition index_stage_delete :: "bool \<Rightarrow> pystr \<Rightarrow> index_file \<Rightarrow> index_file res" where
  "index_stage_delete free rel_path f = index_stage free rel_path [] (str ''delete'') f"

definition index_unstage :: "bool \<Rightarrow> pystr \<Rightarrow> index_file \<Rightarrow> index_file res" where
  "index_unstage free rel_path f =
     with_lock free (bindE (index_load f) (\<lambda>data. Inr (index_write (AList.delete rel_path data))))"

definition index_clear :: "bool \<Rightarrow> index_file \<Rightarrow> index_file res" where
  "index_clear free f = with_lock free (Inr (index_write []))"

text \<open>\<open>v[k]\<close> of an entry, a string.\<close>

definition entry_field :: "json \<Rightarrow> string \<Rightarrow> pystr res" where
  "entry_field v k =
     (case v of
        JObj kvs \<Rightarrow> (case map_of kvs (str k) of None \<Rightarrow> Inl KeyError | Some (JStr s) \<Rightarrow> Inr s | _ \<Rightarrow> Inl Malformed)
      | _ \<Rightarrow> Inl TypeError)"

definition index_entries :: "bool \<Rightarrow> index_file \<Rightarrow> pystr dict res" where
  "index_entries free f =
     with_lock free (bindE (index_load f) (mapE (\<lambda>(k, v). bindE (entry_field v ''hash'') (\<lambda>h. Inr (k, h)))))"

definition index_entries_typed :: "bool \<Rightarrow> index_file \<Rightarrow> (pystr \<times> pystr) dict res" where
  "index_entries_typed free f =
     with_lock free (bindE (index_load f) (mapE (\<lambda>(k, v).
       bindE (entry_field v ''type'') (\<lambda>t. bindE (entry_field v ''hash'') (\<lambda>h. Inr (k, t, h))))))"

section \<open>The index as a map\<close>

definition typed_entry :: "json \<Rightarrow> bool" where
  "typed_entry v \<longleftrightarrow> (\<exists>h. v = JStr h) \<or>
     (\<exists>kvs t h. v = JObj kvs \<and> wf_dict kvs \<and> map_of kvs (str ''type'') = Some (JStr t) \<and> map_of kvs (str ''hash'') = Some (JStr h))"

fun wf_index :: "index_file \<Rightarrow> bool" where
  "wf_index None = True"
| "wf_index (Some (JObj raw)) = (wf_dict raw \<and> (\<forall>kv \<in> set raw. typed_entry (snd kv)))"
| "wf_index (Some v) = False"

text \<open>Type and hash of an entry.\<close>

definition entry_pair :: "json \<Rightarrow> pystr \<times> pystr" where
  "entry_pair v =
     (case v of JStr h \<Rightarrow> (str ''manifest'', h)
      | JObj kvs \<Rightarrow> (case (map_of kvs (str ''type''), map_of kvs (str ''hash'')) of
            (Some (JStr t), Some (JStr h)) \<Rightarrow> (t, h) | _ \<Rightarrow> ([], []))
      | _ \<Rightarrow> ([], []))"

definition index_look :: "index_file \<Rightarrow> pystr \<Rightarrow> (pystr \<times> pystr) option" where
  "index_look f p = (case f of Some (JObj raw) \<Rightarrow> map_option entry_pair (map_of raw p) | _ \<Rightarrow> None)"

lemma entry_pair_upgrade: "entry_pair (upgrade_entry v) = entry_pair v"
  by (cases v) (simp_all add: upgrade_entry_def entry_pair_def index_entry_def)

lemma typed_upgrade: "typed_entry v \<Longrightarrow> typed_entry (upgrade_entry v)"
  by (cases v) (auto simp: upgrade_entry_def typed_entry_def index_entry_def dict_simps)

lemma upgrade_object: "typed_entry v \<Longrightarrow> \<exists>kvs. upgrade_entry v = JObj kvs"
  by (cases v) (auto simp: upgrade_entry_def typed_entry_def index_entry_def)

lemma map_of_sorted_values:
  "wf_dict kvs \<Longrightarrow> map_of (sort_key fst (map (\<lambda>kv. (fst kv, sort_keys (snd kv))) kvs)) k = map_option sort_keys (map_of kvs k)"
  by (subst map_of_sort_key) (simp_all add: wf_dict_def comp_def map_of_map_snd)

lemma typed_sort: "typed_entry v \<Longrightarrow> typed_entry (sort_keys v) \<and> entry_pair (sort_keys v) = entry_pair v"
  by (auto simp: typed_entry_def entry_pair_def map_of_sorted_values wf_dict_def comp_def distinct_map_sort_key sort_keys.simps)

lemma index_write_ok:
  assumes "wf_dict data" "\<forall>kv \<in> set data. typed_entry (snd kv)"
  shows "wf_index (index_write data) \<and> index_look (index_write data) p = map_option entry_pair (map_of data p)"
proof -
  have "map_option entry_pair (map_option sort_keys (map_of data p)) = map_option entry_pair (map_of data p)"
  proof (cases "map_of data p")
    case (Some v)
    then have "typed_entry v" using assms(2) by (fastforce dest: map_of_SomeD)
    with Some typed_sort show ?thesis by simp
  qed simp
  then show ?thesis
    using assms typed_sort
    by (auto simp: index_write_def index_look_def map_of_sorted_values sort_keys.simps wf_dict_def comp_def distinct_map_sort_key)
qed

lemma index_load_ok:
  assumes "wf_index f"
  shows "\<exists>data. index_load f = Inr data \<and> wf_dict data \<and> (\<forall>kv \<in> set data. typed_entry (snd kv)) \<and>
    (\<forall>p. map_option entry_pair (map_of data p) = index_look f p)"
  using assms
proof (cases f rule: wf_index.cases)
  case (2 raw)
  have "map_option entry_pair (map_of (map (\<lambda>kv. (fst kv, upgrade_entry (snd kv))) raw) p) = index_look f p" for p
    by (cases "map_of raw p") (simp_all add: 2 index_look_def map_of_map_snd entry_pair_upgrade)
  then show ?thesis using assms by (auto simp: 2 typed_upgrade wf_dict_def comp_def)
qed (auto simp: index_look_def)

definition index_put :: "pystr \<Rightarrow> pystr \<times> pystr \<Rightarrow> index_file \<Rightarrow> index_file res" where
  "index_put p th f = index_stage True p (snd th) (fst th) f"

lemma index_put_ok:
  assumes "wf_index f" "index_put p th f = Inr f'"
  shows "wf_index f' \<and> index_look f' = (index_look f)(p := Some th)"
proof -
  obtain data where d: "index_load f = Inr data" "wf_dict data" "\<forall>kv \<in> set data. typed_entry (snd kv)"
    "\<forall>p. map_option entry_pair (map_of data p) = index_look f p"
    using index_load_ok [OF assms(1)] by blast
  let ?data = "AList.update p (index_entry (snd th) (fst th)) data"
  have f': "f' = index_write ?data" using assms(2) d(1) by (auto simp: index_put_def index_stage_def with_lock_def)
  have e: "typed_entry (index_entry (snd th) (fst th))" "entry_pair (index_entry (snd th) (fst th)) = th"
    by (auto simp: typed_entry_def index_entry_def entry_pair_def dict_simps)
  have "set ?data \<subseteq> insert (p, index_entry (snd th) (fst th)) (set data)" by (induction data) auto
  then have "\<forall>kv \<in> set ?data. typed_entry (snd kv)" using d(3) e(1) by fastforce
  with index_write_ok [of ?data] d(2,4) e(2) show ?thesis by (auto simp: f' update_conv' fun_eq_iff)
qed

lemma index_del_ok:
  assumes "wf_index f" "index_unstage True p f = Inr f'"
  shows "wf_index f' \<and> index_look f' = (index_look f)(p := None)"
proof -
  obtain data where d: "index_load f = Inr data" "wf_dict data" "\<forall>kv \<in> set data. typed_entry (snd kv)"
    "\<forall>p. map_option entry_pair (map_of data p) = index_look f p"
    using index_load_ok [OF assms(1)] by blast
  have f': "f' = index_write (AList.delete p data)" using assms(2) d(1) by (auto simp: index_unstage_def with_lock_def)
  have "\<forall>kv \<in> set (AList.delete p data). typed_entry (snd kv)" using d(3) by (auto simp: AList.delete_eq)
  with index_write_ok [of "AList.delete p data"] d(2,4) show ?thesis by (auto simp: f' delete_conv' fun_eq_iff)
qed

interpretation index: ref_map wf_index index_look index_put "index_unstage True"
  by unfold_locales (erule (1) index_put_ok, erule (1) index_del_ok)

text \<open>What is staged is what the commit sees: the entries are those of the map.\<close>

lemma index_entries_typed_ok:
  assumes "wf_index f"
  shows "\<exists>d. index_entries_typed True f = Inr d \<and> wf_dict d \<and> map_of d = index_look f"
proof -
  obtain data where d: "index_load f = Inr data" "wf_dict data" "\<forall>kv \<in> set data. typed_entry (snd kv)"
    "\<forall>p. map_option entry_pair (map_of data p) = index_look f p" "\<forall>kv \<in> set data. \<exists>kvs. snd kv = JObj kvs"
  proof -
    obtain data where "index_load f = Inr data" "wf_dict data" "\<forall>kv \<in> set data. typed_entry (snd kv)"
      "\<forall>p. map_option entry_pair (map_of data p) = index_look f p" using index_load_ok [OF assms] by blast
    moreover have "\<forall>kv \<in> set data. \<exists>kvs. snd kv = JObj kvs"
      using assms calculation(1) by (cases f rule: wf_index.cases)
        (fastforce intro: upgrade_object)+
    ultimately show ?thesis using that by blast
  qed
  have "mapE (\<lambda>(k, v). bindE (entry_field v ''type'') (\<lambda>t. bindE (entry_field v ''hash'') (\<lambda>h. Inr (k, t, h)))) data =
      Inr (map (\<lambda>kv. (fst kv, entry_pair (snd kv))) data)"
  proof (rule mapE_all_Inr)
    fix kv assume kv: "kv \<in> set data"
    obtain k v where [simp]: "kv = (k, v)" by (cases kv)
    from d(3,5) kv obtain kvs t h where "v = JObj kvs" "map_of kvs (str ''type'') = Some (JStr t)" "map_of kvs (str ''hash'') = Some (JStr h)"
      by (fastforce simp: typed_entry_def)
    then show "(case kv of (k, v) \<Rightarrow> bindE (entry_field v ''type'') (\<lambda>t. bindE (entry_field v ''hash'') (\<lambda>h. Inr (k, t, h)))) =
        Inr (fst kv, entry_pair (snd kv))"
      by (simp add: entry_field_def entry_pair_def)
  qed
  moreover have "map_of (map (\<lambda>kv. (fst kv, entry_pair (snd kv))) data) = index_look f"
    using d(4) by (simp add: fun_eq_iff map_of_map_snd)
  ultimately show ?thesis using d(1,2) by (auto simp: index_entries_typed_def with_lock_def wf_dict_def comp_def)
qed

section \<open>The cache of file stats\<close>

text \<open>A missing or unreadable file is an empty cache. \<open>stat\<close> is the time and size, or an error.\<close>

type_synonym stat_file = "json option"

fun stat_load :: "stat_file \<Rightarrow> json" where
  "stat_load None = JObj []"
| "stat_load (Some v) = v"

definition stat_save :: "json \<Rightarrow> stat_file" where
  "stat_save data = Some (sort_keys data)"

text \<open>\<open>d.get(k)\<close>: \<open>JNull\<close> stands for \<open>None\<close>.\<close>

fun py_get :: "json \<Rightarrow> pystr \<Rightarrow> json res" where
  "py_get (JObj kvs) k = Inr (case map_of kvs k of None \<Rightarrow> JNull | Some v \<Rightarrow> v)"
| "py_get v k = Inl AttributeError"

definition get_manifest_hash :: "stat_file \<Rightarrow> pystr \<Rightarrow> (int \<times> int) option \<Rightarrow> json res" where
  "get_manifest_hash f rel_path stat =
     bindE (py_get (stat_load f) rel_path) (\<lambda>entry.
       if entry = JNull then Inr JNull
       else (case stat of
           None \<Rightarrow> Inr JNull
         | Some (st_mtime_ns, st_size) \<Rightarrow>
             bindE (py_get entry (str ''mtime_ns'')) (\<lambda>m.
             if py_int m \<noteq> Some st_mtime_ns then Inr JNull
             else bindE (py_get entry (str ''size'')) (\<lambda>z.
               if py_int z = Some st_size then py_get entry (str ''manifest_hash'') else Inr JNull))))"

definition stat_entry :: "int \<Rightarrow> int \<Rightarrow> pystr \<Rightarrow> json" where
  "stat_entry m z h = JObj [(str ''mtime_ns'', JInt m), (str ''size'', JInt z), (str ''manifest_hash'', JStr h)]"

definition stat_update :: "stat_file \<Rightarrow> pystr \<Rightarrow> (int \<times> int) option \<Rightarrow> pystr \<Rightarrow> stat_file res" where
  "stat_update f rel_path stat manifest_hash =
     (case stat of
        None \<Rightarrow> Inr f
      | Some (m, z) \<Rightarrow> (case stat_load f of
            JObj data \<Rightarrow> Inr (stat_save (JObj (AList.update rel_path (stat_entry m z manifest_hash) data)))
          | _ \<Rightarrow> Inl TypeError))"

definition stat_invalidate :: "stat_file \<Rightarrow> pystr \<Rightarrow> stat_file res" where
  "stat_invalidate f rel_path =
     (case stat_load f of
        JObj data \<Rightarrow> Inr (if rel_path \<in> fst ` set data then stat_save (JObj (AList.delete rel_path data)) else f)
      | _ \<Rightarrow> Inl TypeError)"

definition stat_clear :: "stat_file \<Rightarrow> stat_file" where
  "stat_clear f = stat_save (JObj [])"

text \<open>After an update the hash is found exactly while time and size stay the same.\<close>

lemma stat_update_get:
  assumes "stat_load f = JObj data" "wf_dict data" "stat_update f p (Some (m, z)) h = Inr f'"
  shows "get_manifest_hash f' p st = Inr (if st = Some (m, z) then JStr h else JNull)"
proof -
  have f': "f' = stat_save (JObj (AList.update p (stat_entry m z h) data))" using assms by (simp add: stat_update_def)
  have "map_of (sort_key fst (map (\<lambda>kv. (fst kv, sort_keys (snd kv))) (AList.update p (stat_entry m z h) data))) p =
      Some (sort_keys (stat_entry m z h))"
    using assms(2) by (simp add: map_of_sorted_values update_conv')
  then have e: "py_get (stat_load f') p = Inr (sort_keys (stat_entry m z h))" by (simp add: f' stat_save_def sort_keys.simps)
  have g: "py_get (sort_keys (stat_entry m z h)) (str k) =
      Inr (if k = ''mtime_ns'' then JInt m else if k = ''size'' then JInt z else if k = ''manifest_hash'' then JStr h else JNull)" for k
    by (simp add: stat_entry_def sort_keys.simps map_of_sorted_values [of "[(str ''mtime_ns'', JInt m), (str ''size'', JInt z),
        (str ''manifest_hash'', JStr h)]", simplified] wf_dict_def)
  have "sort_keys (stat_entry m z h) \<noteq> JNull" by (simp add: stat_entry_def sort_keys.simps)
  then show ?thesis
    using g [of "''mtime_ns''"] g [of "''size''"] g [of "''manifest_hash''"]
    by (cases st) (auto simp: get_manifest_hash_def e cong: if_cong split: if_splits)
qed

section \<open>Sparse checkout\<close>

definition line_break :: "nat \<Rightarrow> bool" where
  "line_break c \<longleftrightarrow> 10 \<le> c \<and> c \<le> 13 \<or> 28 \<le> c \<and> c \<le> 30 \<or> c = 133 \<or> c = 8232 \<or> c = 8233"

text \<open>\<open>s.splitlines()\<close> of a text with universal newlines.\<close>

fun splitlines :: "pystr \<Rightarrow> pystr list" where
  "splitlines [] = []"
| "splitlines [c] = (if line_break c then [[]] else [[c]])"
| "splitlines (c # d # s) =
     (if line_break c then [] # splitlines (d # s)
      else (case splitlines (d # s) of [] \<Rightarrow> [[c]] | w # ws \<Rightarrow> (c # w) # ws))"

definition is_sparse :: "pystr option \<Rightarrow> bool" where
  "is_sparse f \<longleftrightarrow> f \<noteq> None"

definition load_sparse_paths :: "pystr option \<Rightarrow> pystr set option" where
  "load_sparse_paths f =
     map_option (\<lambda>text. set (filter (\<lambda>l. l \<noteq> [] \<and> \<not> py_startswith l [35]) (map py_strip (splitlines (newlines text))))) f"

definition save_sparse_paths :: "pystr list \<Rightarrow> pystr option" where
  "save_sparse_paths paths = Some (if paths = [] then [] else join_with 10 (sort (remdups paths)) @ [10])"

definition py_endswith_slash :: "pystr \<Rightarrow> bool" where
  "py_endswith_slash s \<longleftrightarrow> s \<noteq> [] \<and> last s = slash"

definition is_in_sparse_set :: "pystr \<Rightarrow> pystr set \<Rightarrow> bool" where
  "is_in_sparse_set file_path sparse_paths \<longleftrightarrow>
     file_path \<in> sparse_paths \<or> (\<exists>sp \<in> sparse_paths. py_endswith_slash sp \<and> py_startswith file_path sp)"

section \<open>Configuration\<close>

text \<open>The TOML value of \<open>.dit/config\<close>, a table.\<close>

type_synonym config_file = "json dict option"

definition load_config :: "config_file \<Rightarrow> json dict" where
  "load_config f = (case f of None \<Rightarrow> [] | Some c \<Rightarrow> c)"

definition get_remote :: "config_file \<Rightarrow> pystr \<Rightarrow> json res" where
  "get_remote f name = py_get (field_or (load_config f) ''remote'' (JObj [])) name"

definition set_remote :: "config_file \<Rightarrow> pystr \<Rightarrow> pystr \<Rightarrow> pystr \<Rightarrow> config_file res" where
  "set_remote f name url token =
     (case field_or (load_config f) ''remote'' (JObj []) of
        JObj remotes \<Rightarrow> Inr (Some (AList.update (str ''remote'')
            (JObj (AList.update name (JObj [(str ''url'', JStr url), (str ''token'', JStr token)]) remotes)) (load_config f)))
      | _ \<Rightarrow> Inl TypeError)"

definition get_user_identity :: "config_file \<Rightarrow> pystr dict" where
  "get_user_identity f =
     (case field_or (load_config f) ''user'' (JObj []) of
        JObj user \<Rightarrow> concat (map (\<lambda>(k, v). case v of
            JStr s \<Rightarrow> if k = str ''name'' \<or> k = str ''email'' then [(k, s)] else [] | _ \<Rightarrow> []) user)
      | _ \<Rightarrow> [])"

definition set_user_identity :: "config_file \<Rightarrow> pystr option \<Rightarrow> pystr option \<Rightarrow> config_file" where
  "set_user_identity f name email =
     (let user = (case field_or (load_config f) ''user'' (JObj []) of JObj u \<Rightarrow> u | _ \<Rightarrow> []);
          user = (case name of None \<Rightarrow> user | Some n \<Rightarrow> AList.update (str ''name'') (JStr n) user);
          user = (case email of None \<Rightarrow> user | Some e \<Rightarrow> AList.update (str ''email'') (JStr e) user) in
      Some (AList.update (str ''user'') (JObj user) (load_config f)))"

definition remove_remote :: "config_file \<Rightarrow> pystr \<Rightarrow> (bool \<times> config_file) res" where
  "remove_remote f name =
     (case field_or (load_config f) ''remote'' (JObj []) of
        JObj remotes \<Rightarrow>
          if name \<notin> fst ` set remotes then Inr (False, f)
          else Inr (True, Some (AList.update (str ''remote'') (JObj (AList.delete name remotes)) (load_config f)))
      | JArr vs \<Rightarrow> if JStr name \<in> set vs then Inl TypeError else Inr (False, f)
      | JStr s \<Rightarrow> if py_contains name s then Inl TypeError else Inr (False, f)
      | _ \<Rightarrow> Inl TypeError)"

lemma set_remote_get: "set_remote f name url token = Inr f' \<Longrightarrow>
    get_remote f' name = Inr (JObj [(str ''url'', JStr url), (str ''token'', JStr token)])"
  by (auto simp: set_remote_def get_remote_def field_or_def load_config_def update_conv' split: json.splits)

lemma remove_remote_get:
  assumes "remove_remote f name = Inr (b, f')" "get_remote f name = Inr v"
  shows "get_remote f' name = Inr JNull"
proof -
  from assms(2) obtain remotes where r: "field_or (load_config f) ''remote'' (JObj []) = JObj remotes"
    unfolding get_remote_def by (cases "field_or (load_config f) ''remote'' (JObj [])") auto
  show ?thesis
  proof (cases "name \<in> fst ` set remotes")
    case True
    with assms(1) r have "f' = Some (AList.update (str ''remote'') (JObj (AList.delete name remotes)) (load_config f))"
      by (simp add: remove_remote_def)
    then show ?thesis by (simp add: get_remote_def field_or_def load_config_def update_conv' delete_conv')
  next
    case False
    with assms(1) r have "f' = f" by (simp add: remove_remote_def)
    moreover have "map_of remotes name = None" using False by (simp add: map_of_eq_None_iff)
    ultimately show ?thesis using r by (simp add: get_remote_def)
  qed
qed

end
