(* ===== verification/Dit_Merge.thy ===== *)
theory Dit_Merge
  imports Dit_Diff
begin

text \<open>
  \<open>src/dit/core/merge.py\<close>: the three-way merge of two commits, by file and, for a file both
  sides changed, by row. Python iterates over a set of fingerprints in \<open>merge_manifests\<close>; the
  order is \<open>set_order\<close> of the environment.
\<close>

datatype conflict_type = Both_modified | Modify_delete | Both_added

record merge_conflict =
  file_path :: pystr
  conflict_type :: conflict_type
  base_entries :: "manifest_entry list option"
  ours_entries :: "manifest_entry list option"
  theirs_entries :: "manifest_entry list option"

record merge_result =
  merged_tree_entries :: "pystr dict"
  conflicts :: "merge_conflict list"

section \<open>Rows\<close>

definition qfp_in :: "manifest_entry \<Rightarrow> 'v dict \<Rightarrow> bool" where
  "qfp_in e d \<longleftrightarrow> truthy (query_fingerprint e) \<and> map_of d (the (query_fingerprint e)) \<noteq> None"

definition by_qfp :: "manifest_entry list \<Rightarrow> manifest_entry dict" where
  "by_qfp es = foldl (\<lambda>d e. if truthy (query_fingerprint e)
     then AList.update (the (query_fingerprint e)) e d else d) [] es"

text \<open>The fingerprints of base rows a side no longer has but has a row for.\<close>

definition refreshed_by :: "manifest_entry dict \<Rightarrow> manifest \<Rightarrow> manifest_entry dict" where
  "refreshed_by base_by_qfp side =
     (let side_by_qfp = by_qfp (entries side) in
      foldl (\<lambda>d (q, b).
        if row_hash b \<notin> hashes side
        then (case map_of side_by_qfp q of Some e \<Rightarrow> AList.update q e d | None \<Rightarrow> d)
        else d) [] base_by_qfp)"

type_synonym refresh_resolution =
  "merge_conflict list \<times> pystr set \<times> pystr set \<times> manifest_entry dict"

definition resolve_refresh ::
  "pystr \<Rightarrow> manifest_entry dict \<Rightarrow> manifest_entry dict \<Rightarrow> manifest_entry dict \<Rightarrow>
   pystr \<Rightarrow> refresh_resolution \<Rightarrow> refresh_resolution" where
  "resolve_refresh path base_by_qfp ours_refreshed theirs_refreshed q st =
     (let (confl, conflict_ours, conflict_theirs, resolved) = st in
      case (map_of ours_refreshed q, map_of theirs_refreshed q) of
        (Some a, Some b) \<Rightarrow>
          if row_hash a = row_hash b then (confl, conflict_ours, conflict_theirs, AList.update q a resolved)
          else (confl @ [\<lparr>file_path = path, conflict_type = Both_modified,
                    base_entries = map_option (\<lambda>e. [e]) (map_of base_by_qfp q),
                    ours_entries = Some [a], theirs_entries = Some [b]\<rparr>],
                insert (row_hash a) conflict_ours, insert (row_hash b) conflict_theirs, resolved)
      | (Some a, None) \<Rightarrow> (confl, conflict_ours, conflict_theirs, AList.update q a resolved)
      | (None, Some b) \<Rightarrow> (confl, conflict_ours, conflict_theirs, AList.update q b resolved)
      | (None, None) \<Rightarrow> st)"

definition append_new :: "manifest_entry \<Rightarrow> manifest_entry list \<times> pystr set \<Rightarrow> manifest_entry list \<times> pystr set" where
  "append_new e acc =
     (let (merged, seen) = acc in
      if row_hash e \<notin> seen then (merged @ [e], insert (row_hash e) seen) else (merged, seen))"

text \<open>The body of the loop over the rows of ours.\<close>

definition merge_row ::
  "manifest \<Rightarrow> manifest \<Rightarrow> manifest_entry dict \<Rightarrow> manifest_entry dict \<Rightarrow> pystr set \<Rightarrow> pystr set \<Rightarrow>
   manifest_entry \<Rightarrow> manifest_entry list \<times> pystr set \<Rightarrow> manifest_entry list \<times> pystr set" where
  "merge_row base theirs theirs_refreshed resolved conflict_ours deleted e acc =
     (if row_hash e \<in> conflict_ours then acc
      else if qfp_in e resolved then append_new (the (map_of resolved (the (query_fingerprint e)))) acc
      else if row_hash e \<in> hashes base \<and> row_hash e \<notin> hashes theirs \<and> \<not> qfp_in e theirs_refreshed then acc
      else if row_hash e \<in> deleted then acc
      else append_new e acc)"

definition merge_manifests ::
  "env \<Rightarrow> manifest \<Rightarrow> manifest \<Rightarrow> manifest \<Rightarrow> pystr \<Rightarrow> manifest_entry list \<times> merge_conflict list" where
  "merge_manifests E base ours theirs path =
     (let base_by_qfp = by_qfp (entries base);
          ours_refreshed = refreshed_by base_by_qfp ours;
          theirs_refreshed = refreshed_by base_by_qfp theirs;
          (confl, conflict_ours, conflict_theirs, resolved) =
            foldl (\<lambda>st q. resolve_refresh path base_by_qfp ours_refreshed theirs_refreshed q st)
              ([], {}, {}, []) (set_order E (dict_keys ours_refreshed @ dict_keys theirs_refreshed));
          deleted = row_hash ` {e \<in> set (entries base).
            \<not> (row_hash e \<in> hashes ours \<or> qfp_in e ours_refreshed) \<or>
            \<not> (row_hash e \<in> hashes theirs \<or> qfp_in e theirs_refreshed)};
          theirs_refreshed_hashes = row_hash ` snd ` set theirs_refreshed;
          theirs_only_new = filter (\<lambda>e. row_hash e \<notin> hashes base \<and>
            row_hash e \<notin> hashes ours \<union> conflict_ours \<and> row_hash e \<notin> conflict_theirs \<and>
            row_hash e \<notin> theirs_refreshed_hashes) (entries theirs);
          acc = foldl (\<lambda>acc e. merge_row base theirs theirs_refreshed resolved conflict_ours deleted e acc)
            ([], {}) (entries ours);
          acc' = foldl (\<lambda>acc e. append_new e acc) acc theirs_only_new
      in (fst acc', confl))"

section \<open>Files\<close>

definition load_tree_manifests :: "env \<Rightarrow> disk \<Rightarrow> pystr \<Rightarrow> pystr dict res" where
  "load_tree_manifests E d commit_hash =
     bindE (must TypeError (read_commit E d commit_hash)) (\<lambda>c.
     bindE (flatten_tree E d (rec_limit E) (tree_hash c) []) (\<lambda>flat.
       Inr (map (\<lambda>(path, ty, h, sc). (path, h)) (filter (\<lambda>(path, ty, h, sc). ty = str ''manifest'') flat))))"

definition add_merged :: "pystr \<Rightarrow> pystr \<Rightarrow> merge_result \<Rightarrow> merge_result" where
  "add_merged path h r = r\<lparr>merged_tree_entries := AList.update path h (merged_tree_entries r)\<rparr>"

definition add_conflicts :: "merge_conflict list \<Rightarrow> merge_result \<Rightarrow> merge_result" where
  "add_conflicts cs r = r\<lparr>conflicts := conflicts r @ cs\<rparr>"

text \<open>\<open>deserialize_manifest(store.read("manifests", h)).entries\<close>\<close>

definition manifest_at :: "env \<Rightarrow> disk \<Rightarrow> pystr \<Rightarrow> manifest res" where
  "manifest_at E d h = must TypeError (read_manifest E d h)"

definition both_changed ::
  "env \<Rightarrow> pystr \<Rightarrow> pystr \<Rightarrow> pystr \<Rightarrow> pystr \<Rightarrow> merge_result \<times> disk \<Rightarrow> (merge_result \<times> disk) res" where
  "both_changed E path b a t st =
     (let (r, d) = st in
      bindE (manifest_at E d b) (\<lambda>base_m.
      bindE (manifest_at E d a) (\<lambda>ours_m.
      bindE (manifest_at E d t) (\<lambda>theirs_m.
        let (merged, confl) = merge_manifests E base_m ours_m theirs_m path in
        bindE (store_write E d (str ''manifests'') (serialize_manifest \<lparr>entries = merged\<rparr>)) (\<lambda>(h, d').
          Inr (add_merged path h (add_conflicts confl r), d'))))))"

definition merge_path ::
  "env \<Rightarrow> pystr \<Rightarrow> pystr option \<Rightarrow> pystr option \<Rightarrow> pystr option \<Rightarrow>
   merge_result \<times> disk \<Rightarrow> (merge_result \<times> disk) res" where
  "merge_path E path base_mhash ours_mhash theirs_mhash st =
     (let (r, d) = st in
      case base_mhash of
        Some b \<Rightarrow>
          if ours_mhash = Some b \<and> theirs_mhash = Some b then Inr (add_merged path b r, d)
          else if ours_mhash = Some b \<and> theirs_mhash \<noteq> None then Inr (add_merged path (the theirs_mhash) r, d)
          else if theirs_mhash = Some b \<and> ours_mhash \<noteq> None then Inr (add_merged path (the ours_mhash) r, d)
          else (case (ours_mhash, theirs_mhash) of
            (None, None) \<Rightarrow> Inr (r, d)
          | (None, Some t) \<Rightarrow>
              if t = b then Inr (r, d)
              else bindE (manifest_at E d t) (\<lambda>theirs_m. bindE (manifest_at E d b) (\<lambda>base_m.
                Inr (add_conflicts [\<lparr>file_path = path, conflict_type = Modify_delete,
                  base_entries = Some (entries base_m), ours_entries = None,
                  theirs_entries = Some (entries theirs_m)\<rparr>] r, d)))
          | (Some a, None) \<Rightarrow>
              if a = b then Inr (r, d)
              else bindE (manifest_at E d a) (\<lambda>ours_m. bindE (manifest_at E d b) (\<lambda>base_m.
                Inr (add_conflicts [\<lparr>file_path = path, conflict_type = Modify_delete,
                  base_entries = Some (entries base_m), ours_entries = Some (entries ours_m),
                  theirs_entries = None\<rparr>] r, d)))
          | (Some a, Some t) \<Rightarrow>
              if a = t then Inr (add_merged path a r, d) else both_changed E path b a t (r, d))
      | None \<Rightarrow>
          (case (ours_mhash, theirs_mhash) of
            (Some a, None) \<Rightarrow> Inr (add_merged path a r, d)
          | (None, Some t) \<Rightarrow> Inr (add_merged path t r, d)
          | (None, None) \<Rightarrow> Inr (r, d)
          | (Some a, Some t) \<Rightarrow>
              if a = t then Inr (add_merged path a r, d)
              else bindE (manifest_at E d a) (\<lambda>ours_m. bindE (manifest_at E d t) (\<lambda>theirs_m.
                Inr (add_conflicts [\<lparr>file_path = path, conflict_type = Both_added,
                  base_entries = None, ours_entries = Some (entries ours_m),
                  theirs_entries = Some (entries theirs_m)\<rparr>] r, d)))))"

definition three_way_merge ::
  "env \<Rightarrow> disk \<Rightarrow> pystr option \<Rightarrow> pystr \<Rightarrow> pystr \<Rightarrow> (merge_result \<times> disk) res" where
  "three_way_merge E d base_hash ours_hash theirs_hash =
     bindE (if truthy base_hash then load_tree_manifests E d (the base_hash) else Inr []) (\<lambda>base_files.
     bindE (load_tree_manifests E d ours_hash) (\<lambda>ours_files.
     bindE (load_tree_manifests E d theirs_hash) (\<lambda>theirs_files.
       foldE (\<lambda>path st. merge_path E path (map_of base_files path) (map_of ours_files path)
                 (map_of theirs_files path) st)
         (sort (remdups (dict_keys base_files @ dict_keys ours_files @ dict_keys theirs_files)))
         (\<lparr>merged_tree_entries = [], conflicts = []\<rparr>, d))))"


section \<open>Fingerprints\<close>

lemma foldl_dict_Some:
  assumes "map_of (foldl (\<lambda>d x. if c x then AList.update (k x) (v x) d else d) d xs) q = Some y"
  shows "map_of d q = Some y \<or> (\<exists>x \<in> set xs. c x \<and> k x = q \<and> v x = y)"
  using assms by (induction xs arbitrary: d) (fastforce simp: update_conv' split: if_splits)+

lemma foldl_dict_wf:
  "wf_dict d \<Longrightarrow> wf_dict (foldl (\<lambda>d x. if c x then AList.update (k x) (v x) d else d) d xs)"
  by (induction xs arbitrary: d) auto

lemma by_qfp_Some: "map_of (by_qfp es) q = Some e \<Longrightarrow> e \<in> set es \<and> query_fingerprint e = Some q \<and> q \<noteq> []"
  unfolding by_qfp_def by (drule foldl_dict_Some) (auto elim: truthy.elims)

lemma wf_by_qfp: "wf_dict (by_qfp es)"
  unfolding by_qfp_def by (rule foldl_dict_wf) simp

lemma refreshed_by_conv:
  "refreshed_by bq side = foldl (\<lambda>d qb.
     if row_hash (snd qb) \<notin> hashes side \<and> map_of (by_qfp (entries side)) (fst qb) \<noteq> None
     then AList.update (fst qb) (the (map_of (by_qfp (entries side)) (fst qb))) d else d) [] bq"
  unfolding refreshed_by_def Let_def
  by (intro arg_cong [of _ _ "\<lambda>f. foldl f [] bq"] ext) (auto split: option.split)

text \<open>A refreshed fingerprint: the base row is gone, a row of the side has its fingerprint.\<close>

lemma refreshed_by_Some:
  assumes "map_of (refreshed_by bq side) q = Some e"
  shows "e \<in> set (entries side)" "query_fingerprint e = Some q" "q \<noteq> []"
    and "\<exists>b. (q, b) \<in> set bq \<and> row_hash b \<notin> hashes side"
proof -
  obtain b where "(q, b) \<in> set bq" "row_hash b \<notin> hashes side" "map_of (by_qfp (entries side)) q = Some e"
    using foldl_dict_Some [OF assms [unfolded refreshed_by_conv]] by auto
  with by_qfp_Some show "e \<in> set (entries side)" "query_fingerprint e = Some q" "q \<noteq> []"
    "\<exists>b. (q, b) \<in> set bq \<and> row_hash b \<notin> hashes side" by blast+
qed

lemma wf_refreshed_by: "wf_dict (refreshed_by bq side)"
  unfolding refreshed_by_conv by (rule foldl_dict_wf) simp

section \<open>Refreshes\<close>

definition refresh_choice :: "manifest_entry dict \<Rightarrow> manifest_entry dict \<Rightarrow> pystr \<Rightarrow> manifest_entry option" where
  "refresh_choice R S q =
     (case (map_of R q, map_of S q) of
        (Some a, Some b) \<Rightarrow> if row_hash a = row_hash b then Some a else None
      | (Some a, None) \<Rightarrow> Some a
      | (None, x) \<Rightarrow> x)"

definition refresh_clash :: "manifest_entry dict \<Rightarrow> manifest_entry dict \<Rightarrow> pystr \<Rightarrow> (manifest_entry \<times> manifest_entry) option" where
  "refresh_clash R S q =
     (case (map_of R q, map_of S q) of
        (Some a, Some b) \<Rightarrow> if row_hash a = row_hash b then None else Some (a, b)
      | _ \<Rightarrow> None)"

definition clash_conflict :: "pystr \<Rightarrow> manifest_entry dict \<Rightarrow> pystr \<Rightarrow> manifest_entry \<times> manifest_entry \<Rightarrow> merge_conflict" where
  "clash_conflict path bq q ab =
     \<lparr>file_path = path, conflict_type = Both_modified, base_entries = map_option (\<lambda>e. [e]) (map_of bq q),
      ours_entries = Some [fst ab], theirs_entries = Some [snd ab]\<rparr>"

lemma resolve_refresh_cases:
  "resolve_refresh path bq R S q (confl, co, ct, res) =
     (case refresh_clash R S q of
        Some ab \<Rightarrow> (confl @ [clash_conflict path bq q ab], insert (row_hash (fst ab)) co,
                     insert (row_hash (snd ab)) ct, res)
      | None \<Rightarrow> (confl, co, ct, case refresh_choice R S q of None \<Rightarrow> res | Some e \<Rightarrow> AList.update q e res))"
  by (cases "map_of R q"; cases "map_of S q")
    (auto simp: resolve_refresh_def refresh_clash_def refresh_choice_def clash_conflict_def)

lemma choice_clash: "refresh_clash R S q = Some ab \<Longrightarrow> refresh_choice R S q = None"
  by (auto simp: refresh_clash_def refresh_choice_def split: option.splits if_splits)

lemma resolve_refresh_fold:
  assumes "foldl (\<lambda>st q. resolve_refresh path bq R S q st) ([], {}, {}, []) qs = (confl, co, ct, res)"
  shows "set confl = {clash_conflict path bq q ab | q ab. q \<in> set qs \<and> refresh_clash R S q = Some ab}"
    and "co = {row_hash (fst ab) | q ab. q \<in> set qs \<and> refresh_clash R S q = Some ab}"
    and "map_of res q = (if q \<in> set qs then refresh_choice R S q else None)"
proof -
  have "set confl = {clash_conflict path bq q ab | q ab. q \<in> set qs \<and> refresh_clash R S q = Some ab} \<and>
      co = {row_hash (fst ab) | q ab. q \<in> set qs \<and> refresh_clash R S q = Some ab} \<and>
      (\<forall>q. map_of res q = (if q \<in> set qs then refresh_choice R S q else None))"
    using assms
  proof (induction qs arbitrary: confl co ct res rule: rev_induct)
    case (snoc q qs)
    obtain confl' co' ct' res' where
      f: "foldl (\<lambda>st q. resolve_refresh path bq R S q st) ([], {}, {}, []) qs = (confl', co', ct', res')"
      by (metis prod_cases4)
    note IH = snoc.IH [OF f]
    show ?case
    proof (cases "refresh_clash R S q")
      case (Some ab)
      with snoc.prems f have e: "confl = confl' @ [clash_conflict path bq q ab]"
        "co = insert (row_hash (fst ab)) co'" "res = res'"
        by (simp_all add: resolve_refresh_cases)
      have "co = {row_hash (fst ab) | p ab. p \<in> set (qs @ [q]) \<and> refresh_clash R S p = Some ab}"
      proof -
        have "{row_hash (fst ab) | p ab. p \<in> set (qs @ [q]) \<and> refresh_clash R S p = Some ab} =
            insert (row_hash (fst ab)) {row_hash (fst ab) | p ab. p \<in> set qs \<and> refresh_clash R S p = Some ab}"
          (is "?L = insert _ ?R")
        proof (intro equalityI subsetI)
          fix h assume "h \<in> insert (row_hash (fst ab)) ?R"
          with Some show "h \<in> ?L" by (elim insertE CollectE exE) (fastforce simp del: split_paired_Ex)+
        next
          fix h assume "h \<in> ?L"
          with Some show "h \<in> insert (row_hash (fst ab)) ?R" by (auto simp del: split_paired_Ex)
        qed
        with IH e(2) show ?thesis by simp
      qed
      with IH Some e choice_clash [OF Some] show ?thesis by (auto simp del: split_paired_Ex)
    next
      case None
      with snoc.prems f have e: "confl = confl'" "co = co'"
        "res = (case refresh_choice R S q of None \<Rightarrow> res' | Some e \<Rightarrow> AList.update q e res')"
        by (simp_all add: resolve_refresh_cases)
      have "co = {row_hash (fst ab) | p ab. p \<in> set (qs @ [q]) \<and> refresh_clash R S p = Some ab}"
        unfolding e(2) IH [THEN conjunct2, THEN conjunct1] using None by auto
      moreover have "set confl = {clash_conflict path bq p ab | p ab. p \<in> set (qs @ [q]) \<and> refresh_clash R S p = Some ab}"
        unfolding e(1) IH [THEN conjunct1] using None by auto
      moreover have "map_of res p = (if p \<in> set (qs @ [q]) then refresh_choice R S p else None)" for p
        using IH unfolding e(3) by (auto simp: update_conv' split: option.split)
      ultimately show ?thesis by blast
    qed
  qed simp
  then show "set confl = {clash_conflict path bq q ab | q ab. q \<in> set qs \<and> refresh_clash R S q = Some ab}"
    "co = {row_hash (fst ab) | q ab. q \<in> set qs \<and> refresh_clash R S q = Some ab}"
    "map_of res q = (if q \<in> set qs then refresh_choice R S q else None)"
    by blast+
qed

section \<open>The merged rows\<close>

text \<open>Both loops keep \<open>seen\<close> equal to the hashes of the rows merged so far, each once.\<close>

definition rows_inv :: "manifest_entry set \<Rightarrow> manifest_entry list \<times> pystr set \<Rightarrow> bool" where
  "rows_inv S acc \<longleftrightarrow> set (fst acc) \<subseteq> S \<and> distinct (map row_hash (fst acc)) \<and> snd acc = row_hash ` set (fst acc)"

lemma append_new_inv: "rows_inv S acc \<Longrightarrow> e \<in> S \<Longrightarrow> rows_inv S (append_new e acc)"
  by (cases acc) (auto simp: rows_inv_def append_new_def)

lemma append_new_rows: "rows_inv S acc \<Longrightarrow>
   row_hash ` set (fst (append_new e acc)) = insert (row_hash e) (row_hash ` set (fst acc))"
  by (cases acc) (auto simp: rows_inv_def append_new_def)

text \<open>The row a row of ours contributes, if any.\<close>

definition row_choice ::
  "manifest \<Rightarrow> manifest \<Rightarrow> manifest_entry dict \<Rightarrow> manifest_entry dict \<Rightarrow> pystr set \<Rightarrow> pystr set \<Rightarrow>
   manifest_entry \<Rightarrow> manifest_entry option" where
  "row_choice base theirs tref res co del e =
     (if row_hash e \<in> co then None
      else if qfp_in e res then map_of res (the (query_fingerprint e))
      else if row_hash e \<in> hashes base \<and> row_hash e \<notin> hashes theirs \<and> \<not> qfp_in e tref then None
      else if row_hash e \<in> del then None
      else Some e)"

lemma merge_row_choice:
  "merge_row base theirs tref res co del e acc =
     (case row_choice base theirs tref res co del e of None \<Rightarrow> acc | Some f \<Rightarrow> append_new f acc)"
  by (auto simp: merge_row_def row_choice_def qfp_in_def)

lemma append_fold:
  assumes "rows_inv S acc" and "\<And>e f. e \<in> set es \<Longrightarrow> c e = Some f \<Longrightarrow> f \<in> S"
  shows "rows_inv S (foldl (\<lambda>acc e. case c e of None \<Rightarrow> acc | Some f \<Rightarrow> append_new f acc) acc es) \<and>
         row_hash ` set (fst (foldl (\<lambda>acc e. case c e of None \<Rightarrow> acc | Some f \<Rightarrow> append_new f acc) acc es)) =
           row_hash ` set (fst acc) \<union> {row_hash f | e f. e \<in> set es \<and> c e = Some f}"
  using assms
proof (induction es arbitrary: acc)
  case (Cons e es)
  have sub: "f \<in> S" if "x \<in> set es" "c x = Some f" for x f
    using that Cons.prems(2) by (meson list.set_intros(2))
  show ?case
  proof (cases "c e")
    case None
    have "{row_hash f | x f. x \<in> set (e # es) \<and> c x = Some f} = {row_hash f | x f. x \<in> set es \<and> c x = Some f}"
      using None by auto
    with None Cons.IH [OF Cons.prems(1) sub] show ?thesis by simp
  next
    case (Some f)
    have "{row_hash g | x g. x \<in> set (e # es) \<and> c x = Some g} =
        insert (row_hash f) {row_hash g | x g. x \<in> set es \<and> c x = Some g}"
      using Some by auto
    moreover have "rows_inv S (append_new f acc)"
      using Cons.prems(1) Cons.prems(2) [OF _ Some] by (intro append_new_inv) auto
    ultimately show ?thesis
      using Some Cons.IH [OF _ sub, of "append_new f acc"] append_new_rows [OF Cons.prems(1), of f] by simp
  qed
qed simp

text \<open>The parts of a row merge, named once.\<close>

lemma merge_manifests_parts:
  assumes "merge_manifests E base ours theirs path = (merged, confl)" and "env_ok E"
  obtains R S co ct res del where
    "R = refreshed_by (by_qfp (entries base)) ours" "S = refreshed_by (by_qfp (entries base)) theirs"
    "set confl = {clash_conflict path (by_qfp (entries base)) q ab | q ab. refresh_clash R S q = Some ab}"
    "co = {row_hash (fst ab) | q ab. refresh_clash R S q = Some ab}"
    "\<And>q. map_of res q = refresh_choice R S q"
    "del = row_hash ` {e \<in> set (entries base). \<not> (row_hash e \<in> hashes ours \<or> qfp_in e R) \<or>
       \<not> (row_hash e \<in> hashes theirs \<or> qfp_in e S)}"
    "rows_inv (set (entries ours) \<union> set (entries theirs)) (merged, row_hash ` set merged)"
    "row_hash ` set merged =
       {row_hash f | e f. e \<in> set (entries ours) \<and> row_choice base theirs S res co del e = Some f} \<union>
       {h \<in> hashes theirs. h \<notin> hashes base \<and> h \<notin> hashes ours \<and> h \<notin> co \<and> h \<notin> ct \<and> h \<notin> row_hash ` snd ` set S}"
    "ct = {} \<or> (\<exists>q. refresh_clash R S q \<noteq> None)"
proof -
  define R where "R = refreshed_by (by_qfp (entries base)) ours"
  define S where "S = refreshed_by (by_qfp (entries base)) theirs"
  define qs where "qs = set_order E (dict_keys R @ dict_keys S)"
  obtain confl' co ct res where
    f: "foldl (\<lambda>st q. resolve_refresh path (by_qfp (entries base)) R S q st) ([], {}, {}, []) qs = (confl', co, ct, res)"
    by (metis prod_cases4)
  define del where "del = row_hash ` {e \<in> set (entries base). \<not> (row_hash e \<in> hashes ours \<or> qfp_in e R) \<or>
       \<not> (row_hash e \<in> hashes theirs \<or> qfp_in e S)}"
  define only where "only = filter (\<lambda>e. row_hash e \<notin> hashes base \<and> row_hash e \<notin> hashes ours \<union> co \<and>
      row_hash e \<notin> ct \<and> row_hash e \<notin> row_hash ` snd ` set S) (entries theirs)"
  define acc where "acc = foldl (\<lambda>acc e. case row_choice base theirs S res co del e of
      None \<Rightarrow> acc | Some f \<Rightarrow> append_new f acc) ([], {}) (entries ours)"
  define acc' where "acc' = foldl (\<lambda>acc e. case Some e of None \<Rightarrow> acc | Some f \<Rightarrow> append_new f acc) acc only"
  have m: "merged = fst acc'" "confl = confl'"
    using assms(1) f unfolding merge_manifests_def Let_def R_def [symmetric] S_def [symmetric] qs_def [symmetric]
    by (simp_all add: merge_row_choice acc'_def acc_def only_def del_def)
  have qs: "set qs = dom (map_of R) \<union> dom (map_of S)"
    using assms(2) by (simp add: qs_def env_okD dict_keys_def dom_map_of_conv_image_fst)
  have clash: "refresh_clash R S q = Some ab \<Longrightarrow> q \<in> set qs" for q ab
    by (auto simp: qs refresh_clash_def split: option.splits)
  have choice: "q \<notin> set qs \<Longrightarrow> refresh_choice R S q = None" for q
    by (auto simp: qs refresh_choice_def dom_def)
  note F = resolve_refresh_fold [OF f]
  have res: "map_of res q = refresh_choice R S q" for q using F(3) choice by simp
  let ?S = "set (entries ours) \<union> set (entries theirs)"
  have in_S: "g \<in> ?S" if "e \<in> set (entries ours)" "row_choice base theirs S res co del e = Some g" for e g
    using that refreshed_by_Some(1) [of _ ours] refreshed_by_Some(1) [of _ theirs]
    by (fastforce simp: row_choice_def res refresh_choice_def R_def S_def split: if_splits option.splits)
  have "rows_inv ?S acc \<and> row_hash ` set (fst acc) =
      {row_hash f | e f. e \<in> set (entries ours) \<and> row_choice base theirs S res co del e = Some f}"
    unfolding acc_def using append_fold [of ?S "([], {})" "entries ours" "row_choice base theirs S res co del"] in_S
    by (simp add: rows_inv_def)
  note A = this
  have "rows_inv ?S acc' \<and> row_hash ` set (fst acc') =
      row_hash ` set (fst acc) \<union> {row_hash f | e f. e \<in> set only \<and> Some e = Some f}"
    unfolding acc'_def by (rule append_fold) (use A in \<open>auto simp: only_def\<close>)
  note B = this
  have "{row_hash f | e f. e \<in> set only \<and> Some e = Some f} =
      {h \<in> hashes theirs. h \<notin> hashes base \<and> h \<notin> hashes ours \<and> h \<notin> co \<and> h \<notin> ct \<and> h \<notin> row_hash ` snd ` set S}"
    by (auto simp: only_def hashes_def)
  with A B m have rows: "row_hash ` set merged =
       {row_hash f | e f. e \<in> set (entries ours) \<and> row_choice base theirs S res co del e = Some f} \<union>
       {h \<in> hashes theirs. h \<notin> hashes base \<and> h \<notin> hashes ours \<and> h \<notin> co \<and> h \<notin> ct \<and> h \<notin> row_hash ` snd ` set S}"
    by simp
  have "ct = {} \<or> (\<exists>q. refresh_clash R S q \<noteq> None)"
    using f
  proof (induction qs arbitrary: confl' co ct res rule: rev_induct)
    case (snoc q qs)
    then show ?case
      by (cases "foldl (\<lambda>st q. resolve_refresh path (by_qfp (entries base)) R S q st) ([], {}, {}, []) qs")
        (fastforce simp: resolve_refresh_cases split: option.splits)
  qed simp
  moreover have "rows_inv ?S (merged, row_hash ` set merged)"
    using B m by (simp add: rows_inv_def)
  moreover have "set confl = {clash_conflict path (by_qfp (entries base)) q ab | q ab. refresh_clash R S q = Some ab}"
    using F(1) clash m by blast
  moreover have "co = {row_hash (fst ab) | q ab. refresh_clash R S q = Some ab}"
    using F(2) clash by blast
  ultimately show thesis
    using that [OF R_def S_def _ _ res del_def _ rows] by blast
qed


section \<open>Files\<close>

text \<open>The outcome for a file two of whose three versions agree: the other one, deletion included.\<close>

definition trivial_merge :: "pystr option \<Rightarrow> pystr option \<Rightarrow> pystr option \<Rightarrow> pystr option option" where
  "trivial_merge b a t =
     (if a = t then Some a else if a = b then Some t else if t = b then Some a else None)"

definition set_merged :: "pystr \<Rightarrow> pystr option \<Rightarrow> merge_result \<Rightarrow> merge_result" where
  "set_merged path x r = (case x of None \<Rightarrow> r | Some h \<Rightarrow> add_merged path h r)"

lemma merge_path_trivial:
  assumes "trivial_merge b a t = Some x"
  shows "merge_path E path b a t (r, d) = Inr (set_merged path x r, d)"
  using assms
  by (cases b; cases a; cases t) (auto simp: trivial_merge_def merge_path_def set_merged_def split: if_splits)

text \<open>Otherwise: a conflict, or the row merge written to the store.\<close>

definition path_step ::
  "env \<Rightarrow> pystr \<Rightarrow> pystr option \<Rightarrow> pystr option \<Rightarrow> pystr option \<Rightarrow> merge_result \<times> disk \<Rightarrow> merge_result \<times> disk \<Rightarrow> bool" where
  "path_step E path b a t st st' \<longleftrightarrow>
     (let (r, d) = st; (r', d') = st' in
      (\<exists>cs. conflicts r' = conflicts r @ cs \<and> (\<forall>c \<in> set cs. file_path c = path) \<and>
         (merged_tree_entries r' = merged_tree_entries r \<and> cs \<noteq> [] \<and> d' = d \<or>
          (\<exists>h base ours theirs merged.
             merged_tree_entries r' = AList.update path h (merged_tree_entries r) \<and>
             manifest_at E d (the b) = Inr base \<and> manifest_at E d (the a) = Inr ours \<and>
             manifest_at E d (the t) = Inr theirs \<and> merge_manifests E base ours theirs path = (merged, cs) \<and>
             store_write E d (str ''manifests'') (serialize_manifest \<lparr>entries = merged\<rparr>) = Inr (h, d')))))"

lemma clash_file_path: "file_path (clash_conflict path bq q ab) = path"
  by (simp add: clash_conflict_def)

lemma merge_manifests_paths:
  assumes "env_ok E" and "merge_manifests E base ours theirs path = (merged, cs)" and "c \<in> set cs"
  shows "file_path c = path"
proof (rule merge_manifests_parts [OF assms(2,1)], goal_cases)
  case (1 R S co ct res del)
  from 1(3) assms(3) show ?case by (auto simp: clash_file_path)
qed

lemma path_step_conflict: "file_path c = path \<Longrightarrow> path_step E path b a t (r, d) (add_conflicts [c] r, d)"
  by (simp add: path_step_def add_conflicts_def)

lemma merge_path_clash:
  assumes "env_ok E" and "trivial_merge b a t = None" and "merge_path E path b a t (r, d) = Inr (r', d')"
  shows "path_step E path b a t (r, d) (r', d')"
proof -
  have *: "path_step E path (Some p) (Some q) (Some s) (r, d) (r', d')"
    if "both_changed E path p q s (r, d) = Inr (r', d')" for p q s
  proof -
    from that obtain base ours theirs where
      rd: "manifest_at E d p = Inr base" "manifest_at E d q = Inr ours" "manifest_at E d s = Inr theirs" and
      "(let (merged, confl) = merge_manifests E base ours theirs path in
        bindE (store_write E d (str ''manifests'') (serialize_manifest \<lparr>entries = merged\<rparr>)) (\<lambda>(h, d').
          Inr (add_merged path h (add_conflicts confl r), d'))) = Inr (r', d')"
      by (auto simp: both_changed_def bindE_eq_Inr)
    moreover obtain merged cs where m: "merge_manifests E base ours theirs path = (merged, cs)" by fastforce
    ultimately obtain h where
      "store_write E d (str ''manifests'') (serialize_manifest \<lparr>entries = merged\<rparr>) = Inr (h, d')"
      "r' = add_merged path h (add_conflicts cs r)"
      by (auto simp: bindE_eq_Inr)
    then show ?thesis
      using m rd merge_manifests_paths [OF assms(1) m] unfolding path_step_def Let_def split_conv
      by (intro exI [of _ cs] conjI disjI2 exI [of _ h] exI [of _ base] exI [of _ ours] exI [of _ theirs]
          exI [of _ merged]) (auto simp: add_merged_def add_conflicts_def)
  qed
  show ?thesis
    using assms(2,3) * by (cases b; cases a; cases t)
      (auto simp: trivial_merge_def merge_path_def bindE_eq_Inr intro!: path_step_conflict split: if_splits)
qed

text \<open>What the merge promises for one path, and after the loop over the paths \<open>ps\<close>.\<close>

definition path_merged ::
  "env \<Rightarrow> pystr option \<Rightarrow> pystr option \<Rightarrow> pystr option \<Rightarrow> pystr \<Rightarrow> merge_result \<times> disk \<Rightarrow> bool" where
  "path_merged E b a t p st =
     (let (r, d) = st in
      case trivial_merge b a t of
        Some x \<Rightarrow> map_of (merged_tree_entries r) p = x \<and> (\<forall>c \<in> set (conflicts r). file_path c \<noteq> p)
      | None \<Rightarrow> (\<exists>c \<in> set (conflicts r). file_path c = p) \<or>
          (\<exists>base ours theirs merged.
             manifest_at E d (the b) = Inr base \<and> manifest_at E d (the a) = Inr ours \<and>
             manifest_at E d (the t) = Inr theirs \<and> merge_manifests E base ours theirs p = (merged, []) \<and>
             map_of (merged_tree_entries r) p = Some (sha256 E (serialize_manifest \<lparr>entries = merged\<rparr>))))"

definition merge_spec ::
  "env \<Rightarrow> (pystr \<Rightarrow> pystr option) \<Rightarrow> (pystr \<Rightarrow> pystr option) \<Rightarrow> (pystr \<Rightarrow> pystr option) \<Rightarrow>
   pystr set \<Rightarrow> merge_result \<times> disk \<Rightarrow> bool" where
  "merge_spec E B A T ps st \<longleftrightarrow>
     store_inv E (snd st) \<and> (\<forall>c \<in> set (conflicts (fst st)). file_path c \<in> ps) \<and>
     dom (map_of (merged_tree_entries (fst st))) \<subseteq> ps \<and>
     (\<forall>p \<in> ps. path_merged E (B p) (A p) (T p) p st)"

lemma manifest_at_mono:
  "map_of d \<subseteq>\<^sub>m map_of d' \<Longrightarrow> manifest_at E d h = Inr m \<Longrightarrow> manifest_at E d' h = Inr m"
  by (auto simp: manifest_at_def must_Inr dest: read_mono(3))

lemma path_merged_other:
  assumes "path_merged E b a t q (r, d)" and "map_of (merged_tree_entries r') q = map_of (merged_tree_entries r) q"
    and "conflicts r' = conflicts r @ cs" and "\<forall>c \<in> set cs. file_path c \<noteq> q" and "map_of d \<subseteq>\<^sub>m map_of d'"
  shows "path_merged E b a t q (r', d')"
  using assms(1-4) manifest_at_mono [OF assms(5)]
  unfolding path_merged_def Let_def split_conv
  by (cases "trivial_merge b a t") (simp, blast, auto)

lemma merge_spec_extend:
  assumes "merge_spec E B A T ps (r, d)" and "p \<notin> ps" and "store_inv E d'" and "map_of d \<subseteq>\<^sub>m map_of d'"
    and "\<And>q. q \<noteq> p \<Longrightarrow> map_of (merged_tree_entries r') q = map_of (merged_tree_entries r) q"
    and "conflicts r' = conflicts r @ cs" and "\<forall>c \<in> set cs. file_path c = p"
    and "path_merged E (B p) (A p) (T p) p (r', d')"
  shows "merge_spec E B A T (insert p ps) (r', d')"
proof -
  have "path_merged E (B q) (A q) (T q) q (r', d')" if "q \<in> ps" for q
  proof (rule path_merged_other [OF _ _ assms(6) _ assms(4)])
    have "q \<noteq> p" using that assms(2) by blast
    then show "map_of (merged_tree_entries r') q = map_of (merged_tree_entries r) q"
      "\<forall>c \<in> set cs. file_path c \<noteq> q" using assms(5,7) by auto
    show "path_merged E (B q) (A q) (T q) q (r, d)" using assms(1) that by (simp add: merge_spec_def)
  qed
  moreover have "dom (map_of (merged_tree_entries r')) \<subseteq> insert p ps"
    using assms(1,5) by (force simp: merge_spec_def dom_def)
  moreover have "\<forall>c \<in> set (conflicts r'). file_path c \<in> insert p ps"
    using assms(1,6,7) by (auto simp: merge_spec_def)
  ultimately show ?thesis using assms(3,8) by (simp add: merge_spec_def)
qed

lemma merge_spec_step:
  assumes "merge_spec E B A T ps (r, d)" and "p \<notin> ps"
    and "merge_path E p (B p) (A p) (T p) (r, d) = Inr (r', d')"
  shows "merge_spec E B A T (insert p ps) (r', d') \<and> map_of d \<subseteq>\<^sub>m map_of d'"
proof -
  have inv: "store_inv E d" and ok: "env_ok E" using assms(1) by (auto simp: merge_spec_def)
  have pc: "\<forall>c \<in> set (conflicts r). file_path c \<noteq> p" using assms(1,2) by (auto simp: merge_spec_def)
  have pm: "map_of (merged_tree_entries r) p = None" using assms(1,2) by (auto simp: merge_spec_def dom_def)
  show ?thesis
  proof (cases "trivial_merge (B p) (A p) (T p)")
    case (Some x)
    with assms(3) merge_path_trivial have r': "r' = set_merged p x r" "d' = d" by auto
    have m: "map_of (merged_tree_entries r') q = (if q = p then x else map_of (merged_tree_entries r) q)" for q
      using pm by (cases x) (auto simp: r' set_merged_def add_merged_def update_conv')
    moreover have c: "conflicts r' = conflicts r @ []"
      by (cases x) (auto simp: r' set_merged_def add_merged_def)
    ultimately have "path_merged E (B p) (A p) (T p) p (r', d')" using Some pc by (simp add: path_merged_def)
    with merge_spec_extend [OF assms(1,2) inv _ _ c] m r'(2) show ?thesis by simp
  next
    case None
    from merge_path_clash [OF ok None assms(3)] obtain cs where
      cs: "conflicts r' = conflicts r @ cs" "\<forall>c \<in> set cs. file_path c = p" and
      alt: "merged_tree_entries r' = merged_tree_entries r \<and> cs \<noteq> [] \<and> d' = d \<or>
          (\<exists>h base ours theirs merged. merged_tree_entries r' = AList.update p h (merged_tree_entries r) \<and>
             manifest_at E d (the (B p)) = Inr base \<and> manifest_at E d (the (A p)) = Inr ours \<and>
             manifest_at E d (the (T p)) = Inr theirs \<and> merge_manifests E base ours theirs p = (merged, cs) \<and>
             store_write E d (str ''manifests'') (serialize_manifest \<lparr>entries = merged\<rparr>) = Inr (h, d'))"
      unfolding path_step_def Let_def split_conv by blast
    have other: "map_of (merged_tree_entries r') q = map_of (merged_tree_entries r) q" if "q \<noteq> p" for q
      using alt that by (auto simp: update_conv')
    have inv': "store_inv E d'" and mono: "map_of d \<subseteq>\<^sub>m map_of d'"
      using alt inv ok by (auto intro: store_write_inv store_write_mono)
    have "path_merged E (B p) (A p) (T p) p (r', d')"
    proof (cases "cs = []")
      case True
      with alt obtain h base ours theirs merged where u: "merged_tree_entries r' = AList.update p h (merged_tree_entries r)"
        and rd: "manifest_at E d (the (B p)) = Inr base" "manifest_at E d (the (A p)) = Inr ours"
          "manifest_at E d (the (T p)) = Inr theirs"
        and m: "merge_manifests E base ours theirs p = (merged, [])"
        and w: "store_write E d (str ''manifests'') (serialize_manifest \<lparr>entries = merged\<rparr>) = Inr (h, d')" by blast
      have "map_of (merged_tree_entries r') p = Some (sha256 E (serialize_manifest \<lparr>entries = merged\<rparr>))"
        using w by (simp add: u store_write_Inr [OF ok] update_conv')
      with None m rd [THEN manifest_at_mono [OF mono]] show ?thesis
        unfolding path_merged_def Let_def split_conv None option.case by blast
    next
      case False
      then show ?thesis using cs None by (cases cs) (auto simp: path_merged_def)
    qed
    with merge_spec_extend [OF assms(1,2) inv' mono other cs] mono show ?thesis by simp
  qed
qed

lemma merge_spec_loop:
  assumes "merge_spec E B A T ps (r, d)" and "distinct qs" and "set qs \<inter> ps = {}"
    and "foldE (\<lambda>p st. merge_path E p (B p) (A p) (T p) st) qs (r, d) = Inr (r', d')"
  shows "merge_spec E B A T (ps \<union> set qs) (r', d') \<and> map_of d \<subseteq>\<^sub>m map_of d'"
  using assms
proof (induction qs arbitrary: ps r d)
  case (Cons p qs)
  from Cons.prems(4) obtain r1 d1 where s: "merge_path E p (B p) (A p) (T p) (r, d) = Inr (r1, d1)"
    and f: "foldE (\<lambda>p st. merge_path E p (B p) (A p) (T p) st) qs (r1, d1) = Inr (r', d')"
    by (auto simp: bindE_eq_Inr)
  have "p \<notin> ps" using Cons.prems(3) by auto
  from merge_spec_step [OF Cons.prems(1) this s] Cons.IH [of "insert p ps" r1 d1] Cons.prems(2,3) f
  show ?case by (auto intro: map_le_trans)
qed auto


lemma merge_path_total:
  assumes "env_ok E" and "trivial_merge b a t = None \<Longrightarrow>
    \<forall>h. b = Some h \<or> a = Some h \<or> t = Some h \<longrightarrow> (\<exists>m. manifest_at E d h = Inr m)"
  shows "\<exists>r' d'. merge_path E path b a t (r, d) = Inr (r', d')"
proof (cases "trivial_merge b a t")
  case None
  have both: "\<exists>r' d'. both_changed E path p q s (r, d) = Inr (r', d')"
    if rd: "manifest_at E d p = Inr m1" "manifest_at E d q = Inr m2" "manifest_at E d s = Inr m3" for p q s m1 m2 m3
  proof -
    obtain merged cs where m: "merge_manifests E m1 m2 m3 path = (merged, cs)" by fastforce
    obtain d' where "store_write E d (str ''manifests'') (serialize_manifest \<lparr>entries = merged\<rparr>) =
        Inr (sha256 E (serialize_manifest \<lparr>entries = merged\<rparr>), d')"
      using store_write_total [OF assms(1)] by blast
    with m show ?thesis by (simp add: both_changed_def rd)
  qed
  have rd: "\<exists>m. manifest_at E d h = Inr m" if "b = Some h \<or> a = Some h \<or> t = Some h" for h
    using assms(2) [OF None] that by blast
  obtain f where f: "\<And>h. b = Some h \<or> a = Some h \<or> t = Some h \<Longrightarrow> manifest_at E d h = Inr (f h)"
    using rd by metis
  show ?thesis
    using None f both [OF f f f]
    by (cases b; cases a; cases t) (simp_all add: trivial_merge_def merge_path_def split: if_splits)
qed (use merge_path_trivial in blast)

lemma merge_loop_total:
  assumes "env_ok E" and "\<forall>p h. trivial_merge (B p) (A p) (T p) = None \<and> (B p = Some h \<or> A p = Some h \<or> T p = Some h) \<longrightarrow>
      (\<exists>m. manifest_at E d h = Inr m)"
    and "merge_spec E B A T ps (r, d)" and "distinct qs" and "set qs \<inter> ps = {}"
  shows "\<exists>r' d'. foldE (\<lambda>p st. merge_path E p (B p) (A p) (T p) st) qs (r, d) = Inr (r', d')"
  using assms(2-)
proof (induction qs arbitrary: ps r d)
  case (Cons p qs)
  obtain r1 d1 where s: "merge_path E p (B p) (A p) (T p) (r, d) = Inr (r1, d1)"
    using merge_path_total [OF assms(1), of "B p" "A p" "T p" d p r] Cons.prems(1) by blast
  have "p \<notin> ps" using Cons.prems(4) by auto
  from merge_spec_step [OF Cons.prems(2) this s]
  have "merge_spec E B A T (insert p ps) (r1, d1)" and mono: "map_of d \<subseteq>\<^sub>m map_of d1" by auto
  moreover have "\<forall>p h. trivial_merge (B p) (A p) (T p) = None \<and> (B p = Some h \<or> A p = Some h \<or> T p = Some h) \<longrightarrow>
      (\<exists>m. manifest_at E d1 h = Inr m)"
    using Cons.prems(1) manifest_at_mono [OF mono] by blast
  ultimately show ?case using Cons.IH [of d1 "insert p ps" r1] Cons.prems(3,4) s by auto
qed simp

section \<open>Properties\<close>

text \<open>
  A row merge returns rows of ours or theirs only, no row hash twice, and reports one
  conflict for each fingerprint whose base row both sides replaced, with different rows.
\<close>

theorem merge_rows_sound:
  assumes "env_ok E" and "merge_manifests E base ours theirs path = (merged, confl)"
  shows "distinct (map row_hash merged) \<and> set merged \<subseteq> set (entries ours) \<union> set (entries theirs) \<and>
    set confl = {clash_conflict path (by_qfp (entries base)) q ab | q ab.
      refresh_clash (refreshed_by (by_qfp (entries base)) ours) (refreshed_by (by_qfp (entries base)) theirs) q = Some ab}"
proof (rule merge_manifests_parts [OF assms(2,1)], goal_cases)
  case (1 R S co ct res del)
  from 1(7) show ?case unfolding 1(3) 1(1,2) by (simp add: rows_inv_def)
qed

definition demo_row :: "nat \<Rightarrow> nat \<Rightarrow> manifest_entry" where
  "demo_row h q = \<lparr>row_hash = [h], query_fingerprint = if q = 0 then None else Some [q]\<rparr>"

theorem merge_rows_sound_witness:
  "\<exists>merged confl. merge_manifests demo_env \<lparr>entries = [demo_row 1 0]\<rparr> \<lparr>entries = [demo_row 2 0]\<rparr>
     \<lparr>entries = [demo_row 3 0]\<rparr> [] = (merged, confl) \<and> distinct (map row_hash merged)"
proof -
  obtain merged confl where m: "merge_manifests demo_env \<lparr>entries = [demo_row 1 0]\<rparr> \<lparr>entries = [demo_row 2 0]\<rparr>
     \<lparr>entries = [demo_row 3 0]\<rparr> [] = (merged, confl)" by fastforce
  from merge_rows_sound [OF demo_env_ok m] m show ?thesis by blast
qed





text \<open>
  Two ways a row merge loses rows without a conflict. A row both sides kept is dropped when
  one of them replaced another row of the same fingerprint; and a row theirs replaced is dropped,
  replacement and all, when ours deleted it.
\<close>

lemma merge_row_losses:
  "merge_manifests demo_env \<lparr>entries = [demo_row 1 7, demo_row 2 7]\<rparr> \<lparr>entries = [demo_row 1 7, demo_row 3 7]\<rparr>
     \<lparr>entries = [demo_row 1 7, demo_row 2 7]\<rparr> [] = ([demo_row 3 7], []) \<and>
   merge_manifests demo_env \<lparr>entries = [demo_row 1 7]\<rparr> \<lparr>entries = []\<rparr> \<lparr>entries = [demo_row 2 7]\<rparr> [] = ([], [])"
  by (simp add: merge_manifests_def by_qfp_def refreshed_by_def demo_row_def hashes_def dict_keys_def
      resolve_refresh_def merge_row_def append_new_def qfp_in_def)

text \<open>
  C12: a merge of commits returns when the manifests both sides changed can be read. For every
  path, if two of the three versions agree the result is the third (a deletion included) and
  there is no conflict for the path; otherwise there is a conflict, or the result is the row
  merge of the three manifests, stored. The store only grows.
\<close>

theorem three_way_merge_files:
  assumes "store_inv E d"
    and "(if truthy base_hash then load_tree_manifests E d (the base_hash) else Inr []) = Inr B"
    and "load_tree_manifests E d ours_hash = Inr A" and "load_tree_manifests E d theirs_hash = Inr T"
    and "\<forall>p h. trivial_merge (map_of B p) (map_of A p) (map_of T p) = None \<and>
        (map_of B p = Some h \<or> map_of A p = Some h \<or> map_of T p = Some h) \<longrightarrow> (\<exists>m. manifest_at E d h = Inr m)"
  shows "\<exists>r d'. three_way_merge E d base_hash ours_hash theirs_hash = Inr (r, d') \<and> store_inv E d' \<and>
    map_of d \<subseteq>\<^sub>m map_of d' \<and> (\<forall>p. path_merged E (map_of B p) (map_of A p) (map_of T p) p (r, d'))"
proof -
  let ?ps = "sort (remdups (dict_keys B @ dict_keys A @ dict_keys T))"
  let ?r = "\<lparr>merged_tree_entries = [], conflicts = []\<rparr>"
  have init: "merge_spec E (map_of B) (map_of A) (map_of T) {} (?r, d)"
    using assms(1) by (simp add: merge_spec_def)
  have ps: "distinct ?ps" "set ?ps \<inter> {} = {}" by simp_all
  obtain r d' where f: "foldE (\<lambda>p st. merge_path E p (map_of B p) (map_of A p) (map_of T p) st) ?ps (?r, d) = Inr (r, d')"
    using merge_loop_total [OF _ assms(5) init ps] assms(1) by blast
  have spec: "merge_spec E (map_of B) (map_of A) (map_of T) (set ?ps) (r, d')" and mono: "map_of d \<subseteq>\<^sub>m map_of d'"
    using merge_spec_loop [OF init ps f] by auto
  have "path_merged E (map_of B p) (map_of A p) (map_of T p) p (r, d')" for p
  proof (cases "p \<in> set ?ps")
    case False
    then have "map_of B p = None" "map_of A p = None" "map_of T p = None"
      by (auto simp: dict_keys_def map_of_eq_None_iff)
    moreover have "map_of (merged_tree_entries r) p = None" "\<forall>c \<in> set (conflicts r). file_path c \<noteq> p"
      using spec False by (auto simp: merge_spec_def dom_def)
    ultimately show ?thesis by (simp add: path_merged_def trivial_merge_def)
  qed (use spec in \<open>simp add: merge_spec_def\<close>)
  with f spec mono show ?thesis
    by (simp add: three_way_merge_def assms(2-4) merge_spec_def)
qed


lemma demo_flat_sub:
  "flatten_tree demo_env demo_repo (Suc n) (demo_digest (serialize_tree demo_sub)) (str ''d'') =
     Inr [(str ''d/a'', str ''manifest'', demo_hash 11, None),
          (str ''d/b'', str ''manifest'', demo_hash 33, Some (demo_hash 44))]"
  by (simp add: flatten_tree_Suc demo_repo_trees demo_read demo_norm)
    (simp add: demo_sub_def flat_piece_def full_path_def dict_update_def str_def)

lemma demo_flat:
  "flatten_tree demo_env demo_repo (Suc (Suc n)) (demo_digest (serialize_tree demo_root)) [] =
     Inr [(str ''c'', str ''blob'', demo_hash 22, None), (str ''d/a'', str ''manifest'', demo_hash 11, None),
          (str ''d/b'', str ''manifest'', demo_hash 33, Some (demo_hash 44))]"
  by (subst flatten_tree_Suc, simp add: demo_repo_trees demo_read demo_norm)
    (simp add: demo_root_def flat_piece_def full_path_def dict_update_def demo_flat_sub)

lemma demo_load:
  "load_tree_manifests demo_env demo_repo hash_R = Inr [(str ''d/a'', demo_hash 11), (str ''d/b'', demo_hash 33)]"
  "load_tree_manifests demo_env demo_repo hash_A = Inr [(str ''d/a'', demo_hash 11), (str ''d/b'', demo_hash 33)]"
proof -
  have "flatten_tree demo_env demo_repo 50 (demo_digest (serialize_tree demo_root)) [] =
     Inr [(str ''c'', str ''blob'', demo_hash 22, None), (str ''d/a'', str ''manifest'', demo_hash 11, None),
          (str ''d/b'', str ''manifest'', demo_hash 33, Some (demo_hash 44))]"
    using demo_flat [of 48] by simp
  then show "load_tree_manifests demo_env demo_repo hash_R = Inr [(str ''d/a'', demo_hash 11), (str ''d/b'', demo_hash 33)]"
    "load_tree_manifests demo_env demo_repo hash_A = Inr [(str ''d/a'', demo_hash 11), (str ''d/b'', demo_hash 33)]"
    by (simp_all add: load_tree_manifests_def demo_repo_commits demo_visit_commit)
qed

lemma demo_repo_inv: "store_inv demo_env demo_repo"
  by (simp add: demo_repo_def demo_disk_def puts_inv)

theorem three_way_merge_files_witness:
  "\<exists>r d'. three_way_merge demo_env demo_repo (Some hash_R) hash_A hash_R = Inr (r, d') \<and>
     map_of (merged_tree_entries r) (str ''d/a'') = Some (demo_hash 11)"
proof -
  have t: "trivial_merge x x x = Some x" for x by (simp add: trivial_merge_def)
  have "length hash_R = 64" using hex_str_chars by (simp add: demo_hash_R)
  then have "hash_R \<noteq> []" by auto
  then obtain r d' where "three_way_merge demo_env demo_repo (Some hash_R) hash_A hash_R = Inr (r, d')"
    and "\<forall>p. path_merged demo_env (map_of [(str ''d/a'', demo_hash 11), (str ''d/b'', demo_hash 33)] p)
      (map_of [(str ''d/a'', demo_hash 11), (str ''d/b'', demo_hash 33)] p)
      (map_of [(str ''d/a'', demo_hash 11), (str ''d/b'', demo_hash 33)] p) p (r, d')"
    using three_way_merge_files [OF demo_repo_inv _ demo_load(2,1), of "Some hash_R"] t demo_load by fastforce
  then show ?thesis by (force simp: path_merged_def t split: if_splits)
qed

lemma grows_merge [grow_intros]:
  assumes "three_way_merge E d base a b = Inr (r, d')"
  shows "grows E d d'"
  unfolding grows_def
proof
  assume inv: "store_inv E d"
  from assms obtain B A T where f: "foldE (\<lambda>p st. merge_path E p (map_of B p) (map_of A p) (map_of T p) st)
      (sort (remdups (dict_keys B @ dict_keys A @ dict_keys T))) (\<lparr>merged_tree_entries = [], conflicts = []\<rparr>, d) = Inr (r, d')"
    by (auto simp: three_way_merge_def bindE_eq_Inr)
  have "merge_spec E (map_of B) (map_of A) (map_of T) {} (\<lparr>merged_tree_entries = [], conflicts = []\<rparr>, d)"
    using inv by (simp add: merge_spec_def)
  from merge_spec_loop [OF this _ _ f] show "store_inv E d' \<and> map_of d \<subseteq>\<^sub>m map_of d'" by (simp add: merge_spec_def)
qed

end
