(* ===== verification/Dit_Work.thy ===== *)
theory Dit_Work
  imports Dit_Local Dit_Diff Dit_Merge
begin

text \<open>
  A repository and its working directory, and the commands of \<open>src/dit/cli/main.py\<close> that work on
  them: \<open>init\<close>, \<open>config\<close>, \<open>add\<close>, \<open>commit\<close>, \<open>status\<close>, \<open>branch\<close>, \<open>tag\<close>, \<open>checkout\<close>, \<open>switch\<close>,
  \<open>reset\<close>, \<open>diff\<close>. A command is a function from the repository to the repository it leaves behind
  and its result: an exception does not undo what the command has done before it. What an operation
  of the store writes before it raises is not shown. Printed text is left out, or returned as the value that is
  printed. No other process works on the repository, so the lock of the index is free.
\<close>

section \<open>Commands\<close>

type_synonym ('s, 'a) cmd = "'s \<Rightarrow> 's \<times> 'a res"

definition ret :: "'a \<Rightarrow> ('s, 'a) cmd" where
  "ret x = (\<lambda>s. (s, Inr x))"

definition exit_with :: "err \<Rightarrow> ('s, 'a) cmd" where
  "exit_with e = (\<lambda>s. (s, Inl e))"

definition bindC :: "('s, 'a) cmd \<Rightarrow> ('a \<Rightarrow> ('s, 'b) cmd) \<Rightarrow> ('s, 'b) cmd" where
  "bindC m f = (\<lambda>s. case m s of (s', Inl e) \<Rightarrow> (s', Inl e) | (s', Inr x) \<Rightarrow> f x s')"

definition seqC :: "('s, 'a) cmd \<Rightarrow> ('s, 'b) cmd \<Rightarrow> ('s, 'b) cmd" where
  "seqC m n = bindC m (\<lambda>_. n)"

text \<open>Reading the state, changing it, and an operation that fails or gives the new state.\<close>

definition readC :: "('s \<Rightarrow> 'a res) \<Rightarrow> ('s, 'a) cmd" where
  "readC f = (\<lambda>s. (s, f s))"

definition doC :: "('s \<Rightarrow> 's) \<Rightarrow> ('s, unit) cmd" where
  "doC f = (\<lambda>s. (f s, Inr ()))"

definition stepC :: "('s \<Rightarrow> ('s \<times> 'a) res) \<Rightarrow> ('s, 'a) cmd" where
  "stepC f = (\<lambda>s. case f s of Inl e \<Rightarrow> (s, Inl e) | Inr (s', x) \<Rightarrow> (s', Inr x))"

primrec forC :: "('a \<Rightarrow> ('s, unit) cmd) \<Rightarrow> 'a list \<Rightarrow> ('s, unit) cmd" where
  "forC f [] = ret ()"
| "forC f (x # xs) = seqC (f x) (forC f xs)"

text \<open>The condition of an early exit: \<open>ExitCode 1\<close> unless it holds.\<close>

definition needC :: "bool \<Rightarrow> ('s, unit) cmd" where
  "needC b = (if b then ret () else exit_with (ExitCode 1))"

lemma ret_apply [simp]: "ret x s = (s, Inr x)"
  by (simp add: ret_def)

lemma exit_with_apply [simp]: "exit_with e s = (s, Inl e)"
  by (simp add: exit_with_def)

lemma readC_apply [simp]: "readC f s = (s, f s)"
  by (simp add: readC_def)

lemma doC_apply [simp]: "doC f s = (f s, Inr ())"
  by (simp add: doC_def)

lemma needC_apply [simp]: "needC b s = (s, if b then Inr () else Inl (ExitCode 1))"
  by (simp add: needC_def)

lemma bindC_Inr: "bindC m f s = (t, Inr y) \<longleftrightarrow> (\<exists>s' x. m s = (s', Inr x) \<and> f x s' = (t, Inr y))"
  by (auto simp: bindC_def split: prod.splits sum.splits)

lemma seqC_Inr: "seqC m n s = (t, Inr y) \<longleftrightarrow> (\<exists>s' x. m s = (s', Inr x) \<and> n s' = (t, Inr y))"
  by (simp add: seqC_def bindC_Inr)

lemma bindC_step [simp]: "m s = (s', Inr x) \<Longrightarrow> bindC m f s = f x s'" "m s = (s', Inl e) \<Longrightarrow> bindC m f s = (s', Inl e)"
  by (simp_all add: bindC_def)

lemma seqC_step [simp]: "m s = (s', Inr x) \<Longrightarrow> seqC m n s = n s'" "m s = (s', Inl e) \<Longrightarrow> seqC m n s = (s', Inl e)"
  by (simp_all add: seqC_def)

lemma stepC_Inr: "stepC f s = (t, Inr y) \<longleftrightarrow> f s = Inr (t, y)"
  by (auto simp: stepC_def split: sum.splits prod.splits)

lemma exit_Inr [simp]: "exit_with e s = (t, Inr y) \<longleftrightarrow> False"
  by simp

lemmas cmd_Inr = bindC_Inr seqC_Inr stepC_Inr

section \<open>The repository\<close>

record repo =
  g_objects :: disk
  g_refs :: ref_store
  g_index :: index_file
  g_stats :: stat_file
  g_sparse :: "pystr option"
  g_config :: config_file
  g_merge_head :: "pystr option"
  g_merge_msg :: "pystr option"
  g_pick_head :: "pystr option"
  g_conflicts :: "json option"
  g_work :: wtree
  g_mtimes :: "(pystr list \<times> int) list"

text \<open>
  Where the repository lies, the time stamp a file gets when it is written, and the variables
  \<open>DIT_AUTHOR\<close> and \<open>USER\<close> (empty when not set).
\<close>

record world =
  w_root :: "pystr list"
  w_mtime :: "pystr list \<Rightarrow> int"
  w_dit_author :: pystr
  w_user :: pystr

type_synonym 'a command = "(repo, 'a) cmd"

definition empty_repo :: "wtree \<Rightarrow> (pystr list \<times> int) list \<Rightarrow> repo" where
  "empty_repo w ts = \<lparr>g_objects = [], g_refs = refs_init no_refs, g_index = None, g_stats = None, g_sparse = None,
     g_config = None, g_merge_head = None, g_merge_msg = None, g_pick_head = None, g_conflicts = None,
     g_work = w, g_mtimes = ts\<rparr>"

text \<open>\<open>init\<close>: nothing happens when there is a repository.\<close>

definition cli_init :: "wtree \<Rightarrow> (pystr list \<times> int) list \<Rightarrow> repo option \<Rightarrow> repo" where
  "cli_init w ts dot = (case dot of Some g \<Rightarrow> g | None \<Rightarrow> empty_repo w ts)"

definition work_stat :: "repo \<Rightarrow> pystr list \<Rightarrow> (int \<times> int) option" where
  "work_stat g p =
     (case (map_of (g_work g) p, map_of (g_mtimes g) p) of
        (Some content, Some t) \<Rightarrow> Some (t, int (length content)) | _ \<Rightarrow> None)"

definition put_work :: "world \<Rightarrow> pystr list \<Rightarrow> bytes \<Rightarrow> repo \<Rightarrow> repo" where
  "put_work W p content g =
     g\<lparr>g_work := AList.update p content (g_work g), g_mtimes := AList.update p (w_mtime W p) (g_mtimes g)\<rparr>"

definition del_work :: "pystr list \<Rightarrow> repo \<Rightarrow> repo" where
  "del_work p g = g\<lparr>g_work := AList.delete p (g_work g), g_mtimes := AList.delete p (g_mtimes g)\<rparr>"

text \<open>\<open>store.write\<close> and the writes of refs and of the index, as steps of a command.\<close>

definition writeC :: "env \<Rightarrow> string \<Rightarrow> bytes \<Rightarrow> pystr command" where
  "writeC E obj_type data =
     stepC (\<lambda>g. bindE (store_write E (g_objects g) (str obj_type) data) (\<lambda>(h, d). Inr (g\<lparr>g_objects := d\<rparr>, h)))"

definition refsC :: "(ref_store \<Rightarrow> ref_store res) \<Rightarrow> unit command" where
  "refsC f = stepC (\<lambda>g. bindE (f (g_refs g)) (\<lambda>r. Inr (g\<lparr>g_refs := r\<rparr>, ())))"

definition indexC :: "(index_file \<Rightarrow> index_file res) \<Rightarrow> unit command" where
  "indexC f = stepC (\<lambda>g. bindE (f (g_index g)) (\<lambda>i. Inr (g\<lparr>g_index := i\<rparr>, ())))"

definition statsC :: "(repo \<Rightarrow> stat_file res) \<Rightarrow> unit command" where
  "statsC f = stepC (\<lambda>g. bindE (f g) (\<lambda>c. Inr (g\<lparr>g_stats := c\<rparr>, ())))"

text \<open>\<open>refs.set_branch(branch, h)\<close>, where \<open>branch\<close> is \<open>None\<close> on a detached HEAD.\<close>

definition set_branchC :: "pystr option \<Rightarrow> pystr \<Rightarrow> unit command" where
  "set_branchC branch h = (case branch of None \<Rightarrow> exit_with TypeError | Some b \<Rightarrow> refsC (\<lambda>r. set_branch r b h))"

definition headC :: "pystr option command" where
  "headC = readC (\<lambda>g. resolve_head (g_refs g))"

definition current_branchC :: "pystr option command" where
  "current_branchC = readC (\<lambda>g. current_branch (g_refs g))"

text \<open>\<open>deserialize_commit(store.read("commits", h))\<close>, and its flattened tree.\<close>

definition commitC :: "env \<Rightarrow> pystr \<Rightarrow> commit command" where
  "commitC E h = readC (\<lambda>g. must TypeError (read_commit E (g_objects g) h))"

definition flatC :: "env \<Rightarrow> pystr \<Rightarrow> flat_entry dict command" where
  "flatC E th = readC (\<lambda>g. flatten_tree E (g_objects g) (rec_limit E) th [])"

definition head_flatC :: "env \<Rightarrow> pystr \<Rightarrow> flat_entry dict command" where
  "head_flatC E h = bindC (commitC E h) (\<lambda>c. flatC E (tree_hash c))"

section \<open>Author and configuration\<close>

definition format_identity :: "pystr \<Rightarrow> pystr option \<Rightarrow> pystr" where
  "format_identity name email =
     (let name = py_strip name in
      case email of
        Some e \<Rightarrow> if e \<noteq> [] \<and> py_strip e \<noteq> [] then name @ str '' <'' @ py_strip e @ str ''>'' else name
      | None \<Rightarrow> name)"

definition get_author :: "world \<Rightarrow> config_file \<Rightarrow> pystr res" where
  "get_author W f =
     (let identity = get_user_identity f;
          name = py_strip (case map_of identity (str ''name'') of None \<Rightarrow> [] | Some n \<Rightarrow> n) in
      if name \<noteq> [] then Inr (format_identity name (map_of identity (str ''email'')))
      else if py_strip (w_dit_author W) \<noteq> [] then Inr (py_strip (w_dit_author W))
      else if py_strip (w_user W) \<noteq> [] \<and> py_strip (w_user W) \<noteq> str ''unknown'' then Inr (py_strip (w_user W))
      else Inl (ExitCode 1))"

definition authorC :: "world \<Rightarrow> pystr command" where
  "authorC W = readC (\<lambda>g. get_author W (g_config g))"

text \<open>\<open>config key [value]\<close>; the result is the configured value that is printed.\<close>

definition cli_config :: "pystr \<Rightarrow> pystr option \<Rightarrow> pystr option command" where
  "cli_config key value =
     (case value of
        None \<Rightarrow>
          if key = str ''user.name'' \<or> key = str ''user.email''
          then readC (\<lambda>g. Inr (map_of (get_user_identity (g_config g)) (drop 5 key)))
          else exit_with (ExitCode 1)
      | Some v \<Rightarrow>
          if key = str ''user.name'' then seqC (doC (\<lambda>g. g\<lparr>g_config := set_user_identity (g_config g) (Some v) None\<rparr>)) (ret None)
          else if key = str ''user.email'' then seqC (doC (\<lambda>g. g\<lparr>g_config := set_user_identity (g_config g) None (Some v)\<rparr>)) (ret None)
          else exit_with (ExitCode 1))"

section \<open>Staging\<close>

text \<open>
  What a path argument of \<open>add\<close> resolves to: a path below the root of the repository, or one outside,
  which is an error (the code skips an outside directory without files).
\<close>

datatype resolved = Inside "pystr list" | Outside

definition norm_path :: "pystr \<Rightarrow> pystr" where
  "norm_path s = (let ps = path_parts s in if ps = [] then str ''.'' else join_slash ps)"

definition is_value_error :: "err \<Rightarrow> bool" where
  "is_value_error e \<longleftrightarrow> e \<in> {ValueError, JSONDecodeError, UnicodeDecodeError, UnicodeEncodeError}"

text \<open>Staging a data file: its rows and its manifest are stored, the index and the stat cache updated.\<close>

definition stage_data :: "env \<Rightarrow> pystr list \<Rightarrow> unit command" where
  "stage_data E fp =
     (let rel = join_slash fp in
      bindC (readC (\<lambda>g. build_blob_for_file (g_work g) fp)) (\<lambda>content.
      bindC (stepC (\<lambda>g. case build_manifest_streaming E (g_objects g) content of
          Inl e \<Rightarrow> Inl (if is_value_error e then ExitCode 1 else e)
        | Inr (m, d) \<Rightarrow> Inr (g\<lparr>g_objects := d\<rparr>, m))) (\<lambda>m.
      bindC (writeC E ''manifests'' (serialize_manifest m)) (\<lambda>mh.
      seqC (indexC (index_stage True rel mh (str ''manifest'')))
        (statsC (\<lambda>g. stat_update (g_stats g) rel (work_stat g fp) mh))))))"

definition stage_blob :: "env \<Rightarrow> pystr list \<Rightarrow> unit command" where
  "stage_blob E fp =
     bindC (readC (\<lambda>g. build_blob_for_file (g_work g) fp)) (\<lambda>content.
     bindC (writeC E ''blobs'' (serialize_blob content)) (\<lambda>bh.
       indexC (index_stage True (join_slash fp) bh (str ''blob''))))"

text \<open>The files below a directory, with the paths they have from the root.\<close>

definition files_below :: "world \<Rightarrow> wtree \<Rightarrow> pystr list \<Rightarrow> pystr list list \<times> pystr list list" where
  "files_below W w dir =
     (let sub = map (\<lambda>(p, c). (drop (length dir) p, c)) (filter (\<lambda>(p, c). prefix dir p) w);
          (js, bs) = find_all_files (w_root W @ dir) sub in
      (map (\<lambda>p. dir @ p) js, map (\<lambda>p. dir @ p) bs))"

definition stage_deleted :: "pystr set \<Rightarrow> pystr set option \<Rightarrow> pystr \<Rightarrow> unit command" where
  "stage_deleted tracked sparse path_str =
     (if \<not> py_startswith path_str [slash] \<and> norm_path path_str \<in> tracked
      then seqC (needC (case sparse of None \<Rightarrow> True | Some sp \<Rightarrow> is_in_sparse_set (norm_path path_str) sp))
             (indexC (index_stage_delete True (norm_path path_str)))
      else exit_with (ExitCode 1))"

definition stage_all :: "env \<Rightarrow> pystr list list \<times> pystr list list \<Rightarrow> unit command" where
  "stage_all E files = seqC (forC (stage_data E) (fst files)) (forC (stage_blob E) (snd files))"

definition add_path :: "env \<Rightarrow> world \<Rightarrow> pystr set \<Rightarrow> pystr set option \<Rightarrow> pystr \<times> resolved \<Rightarrow> unit command" where
  "add_path E W tracked sparse a =
     bindC (readC (\<lambda>g. Inr (g_work g))) (\<lambda>w.
       if fst a = str ''.'' then stage_all E (files_below W w [])
       else (case snd a of
           Outside \<Rightarrow> exit_with (ExitCode 1)
         | Inside p \<Rightarrow>
             if p = [] \<or> is_wdir w p then stage_all E (files_below W w p)
             else if map_of w p \<noteq> None
             then stage_all E (if jsonl_suffix (last p) then ([p], []) else ([], [p]))
             else stage_deleted tracked sparse (fst a)))"

definition cli_add :: "env \<Rightarrow> world \<Rightarrow> (pystr \<times> resolved) list \<Rightarrow> unit command" where
  "cli_add E W paths =
     bindC (readC (\<lambda>g. Inr (load_sparse_paths (g_sparse g)))) (\<lambda>sparse.
     bindC headC (\<lambda>head.
     bindC (if truthy head then bindC (head_flatC E (the head)) (\<lambda>flat. ret (fst ` set flat)) else ret {}) (\<lambda>tracked.
       forC (add_path E W tracked sparse) paths)))"

section \<open>Committing\<close>

definition commit_stage :: "pystr \<times> (pystr \<times> pystr) \<Rightarrow> staged \<Rightarrow> staged" where
  "commit_stage item merged =
     (let (rel_path, obj_type, obj_hash) = item in
      if obj_type = str ''delete'' then AList.delete rel_path merged
      else AList.update rel_path (Staged2 obj_type obj_hash) merged)"

definition kept_entry :: "pystr \<times> flat_entry \<Rightarrow> pystr \<times> staged_value" where
  "kept_entry e = (let (p, ty, h, sc) = e in (p, Staged3 ty h sc))"

definition commit_map :: "flat_entry dict \<Rightarrow> (pystr \<times> pystr) dict \<Rightarrow> staged" where
  "commit_map existing staged = fold commit_stage staged (map kept_entry existing)"

definition treeC :: "env \<Rightarrow> staged \<Rightarrow> pystr command" where
  "treeC E staged =
     stepC (\<lambda>g. bindE (build_nested_tree E staged (g_objects g)) (\<lambda>(h, d). Inr (g\<lparr>g_objects := d\<rparr>, h)))"

text \<open>\<open>Commit(...)\<close> is stored with the author of the repository and the current time.\<close>

definition store_commitC :: "env \<Rightarrow> world \<Rightarrow> pystr \<Rightarrow> pystr list \<Rightarrow> pystr \<Rightarrow> pystr command" where
  "store_commitC E W th parents msg =
     bindC (authorC W) (\<lambda>a.
       writeC E ''commits'' (serialize_commit
         \<lparr>tree_hash = th, parent_hashes = parents, author = a, message = msg, timestamp = now E\<rparr>))"

definition head_list :: "pystr option \<Rightarrow> pystr list" where
  "head_list head = (if truthy head then [the head] else [])"

definition cli_commit :: "env \<Rightarrow> world \<Rightarrow> pystr \<Rightarrow> pystr command" where
  "cli_commit E W msg =
     bindC (readC (\<lambda>g. index_entries_typed True (g_index g))) (\<lambda>staged.
     seqC (needC (staged \<noteq> [])) (
     bindC headC (\<lambda>head.
     bindC (if truthy head then head_flatC E (the head) else ret []) (\<lambda>existing.
     bindC (treeC E (commit_map existing staged)) (\<lambda>th.
     bindC (store_commitC E W th (head_list head) msg) (\<lambda>ch.
     bindC current_branchC (\<lambda>b.
     seqC (set_branchC b ch) (
     seqC (indexC (index_clear True)) (ret ch)))))))))"

section \<open>Refs\<close>

text \<open>\<open>resolve_commit_hash\<close>: a full hash, or the only stored commit that starts with the text.\<close>

definition resolve_commit_hash :: "disk \<Rightarrow> pystr \<Rightarrow> pystr option res" where
  "resolve_commit_hash d h =
     (if length h = 64 then bindE (store_exists d (str ''commits'') h) (\<lambda>b. Inr (if b then Some h else None))
      else Inr (case sort (map last (filter (\<lambda>p. length p = 4 \<and> hd p = str ''commits'' \<and> py_startswith (last p) h)
             (remdups (map fst d)))) of
           [m] \<Rightarrow> Some m | _ \<Rightarrow> None))"

definition resolve_ref :: "repo \<Rightarrow> pystr \<Rightarrow> pystr option res" where
  "resolve_ref g ref_str =
     bindE (get_branch (g_refs g) ref_str) (\<lambda>h. if truthy h then Inr h
     else bindE (get_tag (g_refs g) ref_str) (\<lambda>h. if truthy h then Inr h
     else resolve_commit_hash (g_objects g) ref_str))"

datatype ref_action = ListRefs | CreateRef pystr | DeleteRef pystr

text \<open>\<open>branch\<close> and \<open>tag\<close>; the result lists the names and hashes printed by the listing.\<close>

definition cli_branch :: "ref_action \<Rightarrow> pystr dict command" where
  "cli_branch a = (case a of
     DeleteRef n \<Rightarrow>
       bindC current_branchC (\<lambda>current.
       seqC (needC (current \<noteq> Some n)) (
       bindC (stepC (\<lambda>g. bindE (delete_branch (g_refs g) n) (\<lambda>(b, r). Inr (g\<lparr>g_refs := r\<rparr>, b)))) (\<lambda>b.
       seqC (needC b) (ret []))))
   | CreateRef n \<Rightarrow>
       bindC (readC (\<lambda>g. get_branch (g_refs g) n)) (\<lambda>x.
       seqC (needC (x = None)) (
       bindC headC (\<lambda>head.
       seqC (needC (head \<noteq> None)) (
       seqC (refsC (\<lambda>r. set_branch r n (the head))) (ret [])))))
   | ListRefs \<Rightarrow> bindC current_branchC (\<lambda>current. readC (\<lambda>g. Inr (sort_key fst (list_branches (g_refs g))))))"

definition cli_tag :: "ref_action \<Rightarrow> pystr dict command" where
  "cli_tag a = (case a of
     DeleteRef n \<Rightarrow>
       bindC (stepC (\<lambda>g. bindE (delete_tag (g_refs g) n) (\<lambda>(b, r). Inr (g\<lparr>g_refs := r\<rparr>, b)))) (\<lambda>b.
       seqC (needC b) (ret []))
   | CreateRef n \<Rightarrow>
       bindC (readC (\<lambda>g. get_tag (g_refs g) n)) (\<lambda>x.
       seqC (needC (x = None)) (
       bindC headC (\<lambda>head.
       seqC (needC (head \<noteq> None)) (
       seqC (refsC (\<lambda>r. set_tag r n (the head))) (ret [])))))
   | ListRefs \<Rightarrow> readC (\<lambda>g. Inr (sort_key fst (list_tags (g_refs g)))))"

section \<open>Changes in the working directory\<close>

definition manifests_of :: "flat_entry dict \<Rightarrow> pystr dict" where
  "manifests_of flat = map (\<lambda>(p, ty, h, sc). (p, h)) (filter (\<lambda>(p, ty, h, sc). ty = str ''manifest'') flat)"

definition blobs_of :: "flat_entry dict \<Rightarrow> pystr dict" where
  "blobs_of flat = map (\<lambda>(p, ty, h, sc). (p, h)) (filter (\<lambda>(p, ty, h, sc). ty = str ''blob'') flat)"

definition in_sparse :: "pystr set option \<Rightarrow> pystr \<Rightarrow> bool" where
  "in_sparse sparse p = (case sparse of None \<Rightarrow> True | Some sp \<Rightarrow> is_in_sparse_set p sp)"

definition file_manifest :: "env \<Rightarrow> wtree \<Rightarrow> pystr list \<Rightarrow> manifest res" where
  "file_manifest E w fp =
     (case map_of w fp of
        None \<Rightarrow> Inl OSError
      | Some content \<Rightarrow> bindE (build_manifest_for_file E content) (\<lambda>(m, row_data). Inr m))"

definition manifest_digest :: "env \<Rightarrow> manifest \<Rightarrow> pystr" where
  "manifest_digest E m = sha256 E (serialize_manifest m)"

text \<open>The manifest hash of a file is computed, and put into the stat cache.\<close>

definition hash_fileC :: "env \<Rightarrow> pystr list \<Rightarrow> manifest command" where
  "hash_fileC E fp =
     bindC (readC (\<lambda>g. file_manifest E (g_work g) fp)) (\<lambda>m.
     seqC (statsC (\<lambda>g. stat_update (g_stats g) (join_slash fp) (work_stat g fp) (manifest_digest E m))) (ret m))"

definition differsC :: "env \<Rightarrow> pystr list \<Rightarrow> pystr \<Rightarrow> bool command" where
  "differsC E fp mh =
     bindC (readC (\<lambda>g. get_manifest_hash (g_stats g) (join_slash fp) (work_stat g fp))) (\<lambda>cached.
       if cached \<noteq> JNull then ret (cached \<noteq> JStr mh)
       else bindC (hash_fileC E fp) (\<lambda>m. ret (manifest_digest E m \<noteq> mh)))"

primrec any_differs :: "env \<Rightarrow> pystr dict \<Rightarrow> pystr list list \<Rightarrow> bool command" where
  "any_differs E ms [] = ret False"
| "any_differs E ms (fp # fps) =
     bindC (case map_of ms (join_slash fp) of None \<Rightarrow> ret False | Some mh \<Rightarrow> differsC E fp mh) (\<lambda>b.
       if b then ret True else any_differs E ms fps)"

definition has_uncommitted_changes :: "env \<Rightarrow> world \<Rightarrow> bool command" where
  "has_uncommitted_changes E W =
     bindC headC (\<lambda>head.
     bindC (readC (\<lambda>g. Inr (find_jsonl_files (w_root W) (g_work g)))) (\<lambda>current.
     (case head of
        None \<Rightarrow> ret (current \<noteq> [])
      | Some h \<Rightarrow>
          bindC (head_flatC E h) (\<lambda>flat.
          bindC (readC (\<lambda>g. Inr (load_sparse_paths (g_sparse g)))) (\<lambda>sparse.
            if set (map join_slash current) \<noteq> {r \<in> fst ` set (manifests_of flat). in_sparse sparse r}
            then ret True else any_differs E (manifests_of flat) current)))))"

record status_report =
  st_staged :: "(pystr \<times> pystr) dict"
  st_modified :: "pystr list"
  st_new :: "pystr list"
  st_deleted :: "pystr list"

primrec modified_files :: "env \<Rightarrow> pystr dict \<Rightarrow> pystr list list \<Rightarrow> pystr list command" where
  "modified_files E ms [] = ret []"
| "modified_files E ms (fp # fps) =
     bindC (case map_of ms (join_slash fp) of None \<Rightarrow> ret False | Some mh \<Rightarrow> differsC E fp mh) (\<lambda>b.
     bindC (modified_files E ms fps) (\<lambda>rest. ret (if b then join_slash fp # rest else rest)))"

definition cli_status :: "env \<Rightarrow> world \<Rightarrow> status_report command" where
  "cli_status E W =
     bindC current_branchC (\<lambda>_.
     bindC (readC (\<lambda>g. Inr (load_sparse_paths (g_sparse g)))) (\<lambda>sparse.
     bindC (readC (\<lambda>g. index_entries_typed True (g_index g))) (\<lambda>staged.
     bindC headC (\<lambda>head.
     bindC (if truthy head then head_flatC E (the head) else ret []) (\<lambda>flat.
     bindC (readC (\<lambda>g. Inr (find_jsonl_files (w_root W) (g_work g)))) (\<lambda>current.
     bindC (modified_files E (manifests_of flat) current) (\<lambda>modified.
       let ms = manifests_of flat; rels = map join_slash current; unstaged = (\<lambda>r. r \<notin> fst ` set staged) in
       ret \<lparr>st_staged = sort_key fst staged,
            st_modified = sort (filter unstaged modified),
            st_new = sort (filter (\<lambda>r. map_of ms r = None \<and> unstaged r) rels),
            st_deleted = sort (filter (\<lambda>r. in_sparse sparse r \<and> r \<notin> set rels \<and>
               (case map_of staged r of Some (ty, h) \<Rightarrow> ty \<noteq> str ''delete'' | None \<Rightarrow> True)) (remdups (map fst ms)))\<rparr>)))))))"

section \<open>Differences\<close>

definition load_manifests_from_commit :: "env \<Rightarrow> disk \<Rightarrow> pystr \<Rightarrow> pystr set option \<Rightarrow> manifest dict res" where
  "load_manifests_from_commit E d h sparse =
     bindE (must TypeError (read_commit E d h)) (\<lambda>c.
     bindE (flatten_tree E d (rec_limit E) (tree_hash c) []) (\<lambda>flat.
       foldE (\<lambda>(p, mh) r.
         if in_sparse sparse p
         then bindE (store_read E d (str ''manifests'') mh) (\<lambda>b. case b of
             None \<Rightarrow> Inr r
           | Some data \<Rightarrow> if data = [] then Inr r
               else bindE (deserialize_manifest data) (\<lambda>m. Inr (AList.update p m r)))
         else Inr r) (manifests_of flat) []))"

text \<open>The lines that are printed: path, rows before and after, and the difference.\<close>

definition print_diff :: "manifest dict \<Rightarrow> manifest dict \<Rightarrow> (pystr \<times> nat option \<times> nat option \<times> diff_result) list res" where
  "print_diff old_files new_files =
     foldE (\<lambda>rel out.
       let old_m = (case map_of old_files rel of None \<Rightarrow> \<lparr>entries = []\<rparr> | Some m \<Rightarrow> m);
           new_m = (case map_of new_files rel of None \<Rightarrow> \<lparr>entries = []\<rparr> | Some m \<Rightarrow> m) in
       bindE (diff_manifests old_m new_m) (\<lambda>r.
         if added r = [] \<and> removed r = [] \<and> refreshed r = [] then Inr out
         else Inr (out @ [(rel, map_option (\<lambda>m. length (entries m)) (map_of old_files rel),
                map_option (\<lambda>m. length (entries m)) (map_of new_files rel), r)])))
       (sort (remdups (map fst old_files @ map fst new_files))) []"

primrec working_manifests :: "env \<Rightarrow> pystr list list \<Rightarrow> manifest dict command" where
  "working_manifests E [] = ret []"
| "working_manifests E (fp # fps) =
     bindC (hash_fileC E fp) (\<lambda>m. bindC (working_manifests E fps) (\<lambda>rest. ret ((join_slash fp, m) # rest)))"

definition ref_manifestsC :: "env \<Rightarrow> pystr set option \<Rightarrow> pystr \<Rightarrow> manifest dict command" where
  "ref_manifestsC E sparse ref_str =
     bindC (readC (\<lambda>g. resolve_ref g ref_str)) (\<lambda>h.
     seqC (needC (h \<noteq> None)) (readC (\<lambda>g. load_manifests_from_commit E (g_objects g) (the h) sparse)))"

definition cli_diff :: "env \<Rightarrow> world \<Rightarrow> pystr option \<Rightarrow> pystr option \<Rightarrow>
    (pystr \<times> nat option \<times> nat option \<times> diff_result) list command" where
  "cli_diff E W ref1 ref2 =
     bindC (readC (\<lambda>g. Inr (load_sparse_paths (g_sparse g)))) (\<lambda>sparse.
     let working = bindC (readC (\<lambda>g. Inr (find_jsonl_files (w_root W) (g_work g)))) (working_manifests E) in
     (case (ref1, ref2) of
        (Some r1, Some r2) \<Rightarrow>
          bindC (readC (\<lambda>g. resolve_ref g r1)) (\<lambda>h1. seqC (needC (h1 \<noteq> None)) (
          bindC (readC (\<lambda>g. resolve_ref g r2)) (\<lambda>h2. seqC (needC (h2 \<noteq> None)) (
          bindC (ref_manifestsC E sparse r1) (\<lambda>old. bindC (ref_manifestsC E sparse r2) (\<lambda>new.
            readC (\<lambda>_. print_diff old new)))))))
      | (Some r1, None) \<Rightarrow>
          bindC (ref_manifestsC E sparse r1) (\<lambda>old. bindC working (\<lambda>new. readC (\<lambda>_. print_diff old new)))
      | (None, _) \<Rightarrow>
          bindC working (\<lambda>new. bindC headC (\<lambda>head.
          bindC (if truthy head then readC (\<lambda>g. load_manifests_from_commit E (g_objects g) (the head) sparse) else ret [])
            (\<lambda>old. readC (\<lambda>_. print_diff old new))))))"

section \<open>Writing the working directory from a tree\<close>

text \<open>Data files: the rows written before an error stay in the file.\<close>

definition checkout_manifest :: "env \<Rightarrow> world \<Rightarrow> pystr \<Rightarrow> pystr \<Rightarrow> unit command" where
  "checkout_manifest E W name mhash =
     bindC (readC (\<lambda>g. must TypeError (read_manifest E (g_objects g) mhash))) (\<lambda>m.
       (\<lambda>g. let (w, x) = materialize_file E (g_objects g) (g_work g) name m;
                p = split_slash name;
                r = (case x of None \<Rightarrow> Inr () | Some e \<Rightarrow> Inl e) in
            if under_file (g_work g) p \<or> is_wdir (g_work g) p then (g, r)
            else (g\<lparr>g_work := w, g_mtimes := AList.update p (w_mtime W p) (g_mtimes g)\<rparr>, r)))"

definition checkout_blob :: "env \<Rightarrow> world \<Rightarrow> pystr \<Rightarrow> pystr \<Rightarrow> unit command" where
  "checkout_blob E W name bhash =
     bindC (readC (\<lambda>g. store_read E (g_objects g) (str ''blobs'') bhash)) (\<lambda>data.
     let p = split_slash name in
     (case data of
        None \<Rightarrow> ret ()
      | Some b \<Rightarrow> stepC (\<lambda>g.
          if under_file (g_work g) p then Inl OSError
          else bindE (deserialize_blob b) (\<lambda>content.
            if is_wdir (g_work g) p then Inl OSError else Inr (put_work W p content g, ())))))"

text \<open>Directories that become empty are removed with their last file: the model has no empty directories.\<close>

definition remove_file :: "pystr \<Rightarrow> unit command" where
  "remove_file name =
     (let p = split_slash name in
      stepC (\<lambda>g. if map_of (g_work g) p \<noteq> None then Inr (del_work p g, ())
                 else if is_wdir (g_work g) p then Inl OSError else Inr (g, ())))"

definition materialize_flat ::
  "env \<Rightarrow> world \<Rightarrow> flat_entry dict \<Rightarrow> flat_entry dict option \<Rightarrow> pystr set option \<Rightarrow> unit command" where
  "materialize_flat E W new_flat old_flat sparse =
     (let new_manifests = filter (\<lambda>e. in_sparse sparse (fst e)) (manifests_of new_flat);
          new_blobs = filter (\<lambda>e. in_sparse sparse (fst e)) (blobs_of new_flat);
          old_manifests = (case old_flat of None \<Rightarrow> [] | Some f \<Rightarrow> manifests_of f);
          old_blobs = (case old_flat of None \<Rightarrow> [] | Some f \<Rightarrow> blobs_of f) in
      seqC (forC (\<lambda>(name, mhash). checkout_manifest E W name mhash)
              (filter (\<lambda>(name, mhash). map_of old_manifests name \<noteq> Some mhash) new_manifests))
     (seqC (forC (\<lambda>(name, bhash). checkout_blob E W name bhash)
              (filter (\<lambda>(name, bhash). map_of old_blobs name \<noteq> Some bhash) new_blobs))
           (forC remove_file
              (filter (\<lambda>name. name \<notin> fst ` set new_manifests \<union> fst ` set new_blobs)
                 (set_order E (map fst old_manifests @ map fst old_blobs))))))"

definition materialize_tree ::
  "env \<Rightarrow> world \<Rightarrow> pystr \<Rightarrow> pystr option \<Rightarrow> pystr set option \<Rightarrow> unit command" where
  "materialize_tree E W th old_th sparse =
     bindC (flatC E th) (\<lambda>new_flat.
     bindC (if truthy old_th then bindC (flatC E (the old_th)) (\<lambda>f. ret (Some f)) else ret None) (\<lambda>old_flat.
       materialize_flat E W new_flat old_flat sparse))"

section \<open>Checkout, switch and reset\<close>

definition set_headC :: "pystr \<Rightarrow> unit command" where
  "set_headC branch = doC (\<lambda>g. g\<lparr>g_refs := set_head (g_refs g) (str ''ref:'' @ branch)\<rparr>)"

definition discard_or_clean :: "env \<Rightarrow> world \<Rightarrow> bool \<Rightarrow> unit command" where
  "discard_or_clean E W force =
     bindC (readC (\<lambda>g. index_entries True (g_index g))) (\<lambda>staged.
       if force then if staged \<noteq> [] then indexC (index_clear True) else ret ()
       else seqC (needC (staged = []))
              (bindC (has_uncommitted_changes E W) (\<lambda>changed. needC (\<not> changed))))"

definition tree_of_headC :: "env \<Rightarrow> pystr option \<Rightarrow> pystr option command" where
  "tree_of_headC E head =
     (if truthy head then bindC (commitC E (the head)) (\<lambda>c. ret (Some (tree_hash c))) else ret None)"

definition cli_switch :: "env \<Rightarrow> world \<Rightarrow> pystr \<Rightarrow> bool \<Rightarrow> unit command" where
  "cli_switch E W target force =
     bindC (readC (\<lambda>g. get_branch (g_refs g) target)) (\<lambda>t.
     seqC (needC (t \<noteq> None)) (
     seqC (discard_or_clean E W force) (
     bindC headC (\<lambda>current.
     bindC (tree_of_headC E current) (\<lambda>old_tree.
     bindC (commitC E (the t)) (\<lambda>tc.
     bindC (readC (\<lambda>g. Inr (load_sparse_paths (g_sparse g)))) (\<lambda>sp.
     seqC (materialize_tree E W (tree_hash tc) old_tree sp) (set_headC target))))))))"

definition cli_checkout :: "env \<Rightarrow> world \<Rightarrow> pystr \<Rightarrow> bool \<Rightarrow> bool \<Rightarrow> unit command" where
  "cli_checkout E W target create force =
     (if create
      then bindC (readC (\<lambda>g. get_branch (g_refs g) target)) (\<lambda>t.
           seqC (needC (t = None)) (
           bindC headC (\<lambda>head.
           seqC (needC (head \<noteq> None)) (
           seqC (refsC (\<lambda>r. set_branch r target (the head))) (set_headC target)))))
      else cli_switch E W target force)"

definition remove_data_file :: "pystr list \<Rightarrow> unit command" where
  "remove_data_file fp =
     stepC (\<lambda>g. if map_of (g_work g) fp = None then Inl OSError else Inr (del_work fp g, ()))"

definition reset_hard :: "env \<Rightarrow> world \<Rightarrow> unit command" where
  "reset_hard E W =
     seqC (indexC (index_clear True)) (
     bindC headC (\<lambda>head.
     seqC (if truthy head
       then bindC (commitC E (the head)) (\<lambda>c.
         seqC (materialize_tree E W (tree_hash c) None None) (
         bindC (flatC E (tree_hash c)) (\<lambda>flat.
         bindC (readC (\<lambda>g. Inr (find_jsonl_files (w_root W) (g_work g)))) (\<lambda>files.
           forC remove_data_file (filter (\<lambda>fp. join_slash fp \<notin> fst ` set flat) files)))))
       else bindC (readC (\<lambda>g. Inr (find_jsonl_files (w_root W) (g_work g)))) (forC remove_data_file))
     (bindC headC (\<lambda>_. ret ()))))"

definition cli_reset :: "env \<Rightarrow> world \<Rightarrow> pystr list \<Rightarrow> bool \<Rightarrow> unit command" where
  "cli_reset E W paths hard =
     (if hard then reset_hard E W
      else if paths \<noteq> [] then forC (\<lambda>p. indexC (index_unstage True p)) paths
      else indexC (index_clear True))"

end
