(* ===== verification/Dit_Combine.thy ===== *)
theory Dit_Combine
  imports Dit_Work Dit_Sidecar
begin

text \<open>
  The commands of \<open>src/dit/cli/main.py\<close> that make commits out of other commits: \<open>merge\<close>, \<open>cherry-pick\<close>
  and \<open>meta compute\<close>; and \<open>log\<close>. The files \<open>MERGE_HEAD\<close>, \<open>MERGE_MSG\<close> and \<open>CHERRY_PICK_HEAD\<close> hold their text,
  \<open>conflicts.json\<close> the value that was written.
\<close>

section \<open>The files of a merge that is not finished\<close>

definition read_stripped :: "pystr \<Rightarrow> pystr" where
  "read_stripped t = py_strip (newlines t)"

definition conflict_name :: "conflict_type \<Rightarrow> pystr" where
  "conflict_name c = (case c of
     Both_modified \<Rightarrow> str ''both_modified'' | Modify_delete \<Rightarrow> str ''modify_delete'' | Both_added \<Rightarrow> str ''both_added'')"

definition opt_json :: "pystr option \<Rightarrow> json" where
  "opt_json x = (case x of None \<Rightarrow> JNull | Some s \<Rightarrow> JStr s)"

definition conflict_data :: "pystr option \<Rightarrow> pystr \<Rightarrow> pystr \<Rightarrow> merge_conflict list \<Rightarrow> json" where
  "conflict_data base ours theirs cs =
     JObj [(str ''base_commit'', opt_json base), (str ''ours_commit'', JStr ours), (str ''theirs_commit'', JStr theirs),
       (str ''conflicts'', JArr (map (\<lambda>c. JObj [(str ''file_path'', JStr (file_path c)),
          (str ''conflict_type'', JStr (conflict_name (conflict_type c)))]) cs))]"

text \<open>
  \<open>conflicts_data.get("ours_commit")\<close>: the file holds an object that \<open>conflict_data\<close> made, or is missing;
  other contents are outside the model.
\<close>

definition saved_ours :: "json option \<Rightarrow> pystr option res" where
  "saved_ours f = (case f of
     None \<Rightarrow> Inr None
   | Some (JObj kvs) \<Rightarrow> (case map_of kvs (str ''ours_commit'') of
         None \<Rightarrow> Inr None | Some JNull \<Rightarrow> Inr None | Some (JStr s) \<Rightarrow> Inr (Some s) | _ \<Rightarrow> Inl Malformed)
   | _ \<Rightarrow> Inl Malformed)"

definition clear_merge :: "repo \<Rightarrow> repo" where
  "clear_merge g = g\<lparr>g_merge_head := None, g_merge_msg := None, g_conflicts := None\<rparr>"

definition clear_pick :: "repo \<Rightarrow> repo" where
  "clear_pick g = g\<lparr>g_pick_head := None, g_merge_msg := None, g_conflicts := None\<rparr>"

text \<open>\<open>--abort\<close>: the files of our commit are written again; nothing is removed.\<close>

definition restore_ours :: "env \<Rightarrow> world \<Rightarrow> unit command" where
  "restore_ours E W =
     bindC (readC (\<lambda>g. saved_ours (g_conflicts g))) (\<lambda>saved.
     bindC (if truthy saved then ret saved else headC) (\<lambda>ours.
       if truthy ours
       then bindC (commitC E (the ours)) (\<lambda>c. materialize_tree E W (tree_hash c) None None)
       else ret ()))"

definition merge_abort :: "env \<Rightarrow> world \<Rightarrow> unit command" where
  "merge_abort E W =
     bindC (readC (\<lambda>g. Inr (g_merge_head g))) (\<lambda>mh.
     seqC (needC (mh \<noteq> None)) (seqC (restore_ours E W) (seqC (doC clear_merge) (indexC (index_clear True)))))"

definition pick_abort :: "env \<Rightarrow> world \<Rightarrow> unit command" where
  "pick_abort E W =
     bindC (readC (\<lambda>g. Inr (g_pick_head g))) (\<lambda>ph.
     seqC (needC (ph \<noteq> None)) (seqC (restore_ours E W) (seqC (doC clear_pick) (indexC (index_clear True)))))"

section \<open>Continuing\<close>

text \<open>
  The entries of the root of the tree of HEAD by name, then every staged path as a data file, whatever
  its type in the index.
\<close>

definition root_entries :: "tree option \<Rightarrow> pystr dict \<Rightarrow> tree_entry dict" where
  "root_entries old staged =
     fold (\<lambda>(p, h). AList.update p \<lparr>te_name = p, te_type = str ''manifest'', te_hash = h, te_sidecar = None\<rparr>) staged
       (fold (\<lambda>e. AList.update (te_name e) e) (case old of None \<Rightarrow> [] | Some t \<Rightarrow> tree_entries t) [])"

definition flat_treeC :: "env \<Rightarrow> pystr option \<Rightarrow> pystr dict \<Rightarrow> pystr command" where
  "flat_treeC E head staged =
     bindC (if truthy head
            then bindC (commitC E (the head)) (\<lambda>c.
                 bindC (readC (\<lambda>g. must TypeError (read_tree E (g_objects g) (tree_hash c)))) (\<lambda>t. ret (Some t)))
            else ret None) (\<lambda>old.
       writeC E ''trees'' (serialize_tree \<lparr>tree_entries = map snd (root_entries old staged)\<rparr>))"

definition saved_message :: "pystr \<Rightarrow> pystr \<Rightarrow> repo \<Rightarrow> pystr" where
  "saved_message opt dflt g =
     (if opt \<noteq> [] then opt
      else case g_merge_msg g of Some t \<Rightarrow> read_stripped t | None \<Rightarrow> dflt)"

definition finishC :: "(repo \<Rightarrow> repo) \<Rightarrow> pystr option \<Rightarrow> pystr \<Rightarrow> unit command" where
  "finishC clear branch ch = seqC (set_branchC branch ch) (seqC (indexC (index_clear True)) (doC clear))"

text \<open>Without a HEAD the commit would have a null among its parents, which is outside the model.\<close>

definition need_head :: "pystr option \<Rightarrow> unit command" where
  "need_head head = (if head = None then exit_with Malformed else ret ())"

definition merge_continue :: "env \<Rightarrow> world \<Rightarrow> pystr \<Rightarrow> unit command" where
  "merge_continue E W opt =
     bindC (readC (\<lambda>g. Inr (g_merge_head g))) (\<lambda>mh.
     seqC (needC (mh \<noteq> None)) (
     bindC (readC (\<lambda>g. index_entries True (g_index g))) (\<lambda>staged.
     seqC (needC (staged \<noteq> [])) (
     bindC headC (\<lambda>ours.
     bindC (readC (\<lambda>g. Inr (saved_message opt (str ''merge commit'') g))) (\<lambda>msg.
     bindC (flat_treeC E ours staged) (\<lambda>th.
     seqC (need_head ours) (
     bindC (store_commitC E W th [the ours, read_stripped (the mh)] msg) (\<lambda>ch.
     bindC current_branchC (\<lambda>b. finishC clear_merge b ch))))))))))"

definition pick_continue :: "env \<Rightarrow> world \<Rightarrow> pystr \<Rightarrow> unit command" where
  "pick_continue E W opt =
     bindC (readC (\<lambda>g. Inr (g_pick_head g))) (\<lambda>ph.
     seqC (needC (ph \<noteq> None)) (
     bindC (readC (\<lambda>g. index_entries True (g_index g))) (\<lambda>staged.
     seqC (needC (staged \<noteq> [])) (
     bindC (readC (\<lambda>g. Inr (saved_message opt (str ''cherry-pick commit'') g))) (\<lambda>msg.
     bindC headC (\<lambda>head.
     bindC (flat_treeC E head staged) (\<lambda>th.
     seqC (need_head head) (
     bindC (store_commitC E W th [the head] msg) (\<lambda>ch.
     bindC current_branchC (\<lambda>b. finishC clear_pick b ch))))))))))"

section \<open>Merging\<close>

definition three_wayC :: "env \<Rightarrow> pystr option \<Rightarrow> pystr \<Rightarrow> pystr \<Rightarrow> merge_result command" where
  "three_wayC E base ours theirs =
     stepC (\<lambda>g. bindE (three_way_merge E (g_objects g) base ours theirs) (\<lambda>(r, d). Inr (g\<lparr>g_objects := d\<rparr>, r)))"

text \<open>Conflicts: the files that merged are written, the state of the merge is saved, exit code 1.\<close>

definition write_merged :: "env \<Rightarrow> world \<Rightarrow> merge_result \<Rightarrow> unit command" where
  "write_merged E W r =
     forC (\<lambda>(path, mhash). checkout_manifest E W path mhash)
       (filter (\<lambda>(path, mhash). path \<notin> file_path ` set (conflicts r)) (merged_tree_entries r))"

definition default_message :: "pystr \<Rightarrow> pystr option \<Rightarrow> pystr \<Rightarrow> pystr" where
  "default_message source current opt =
     (if opt \<noteq> [] then opt
      else str ''Merge branch '' @ [39] @ source @ [39] @ str '' into '' @
        (case current of None \<Rightarrow> str ''None'' | Some b \<Rightarrow> b))"

definition save_conflicts :: "pystr option \<Rightarrow> pystr \<Rightarrow> pystr \<Rightarrow> merge_result \<Rightarrow> pystr \<Rightarrow> (repo \<Rightarrow> repo) \<Rightarrow> unit command" where
  "save_conflicts base ours theirs r msg mark =
     seqC (doC (\<lambda>g. (mark g)\<lparr>g_merge_msg := Some (msg @ [10]),
             g_conflicts := Some (conflict_data base ours theirs (conflicts r))\<rparr>))
          (exit_with (ExitCode 1))"

text \<open>The sidecar of a merged file is that of ours if it has one, or else that of theirs.\<close>

definition add_sidecar :: "pystr \<times> flat_entry \<Rightarrow> pystr dict \<Rightarrow> pystr dict" where
  "add_sidecar e d = (let (path, ty, h, sc) = e in case sc of None \<Rightarrow> d | Some x \<Rightarrow> AList.update path x d)"

definition merged_sidecars :: "flat_entry dict \<Rightarrow> flat_entry dict \<Rightarrow> pystr dict" where
  "merged_sidecars source_flat target_flat = fold add_sidecar target_flat (fold add_sidecar source_flat [])"

definition merge_staged :: "merge_result \<Rightarrow> pystr dict \<Rightarrow> staged" where
  "merge_staged r sidecars =
     map (\<lambda>(name, mhash). (name, Staged3 (str ''manifest'') mhash (map_of sidecars name))) (merged_tree_entries r)"

text \<open>The sidecars of the two commits, read before the tree of the merge is written.\<close>

definition sidecarsC :: "env \<Rightarrow> pystr \<Rightarrow> pystr \<Rightarrow> pystr dict command" where
  "sidecarsC E ours theirs =
     bindC (commitC E ours) (\<lambda>oc. bindC (commitC E theirs) (\<lambda>tc.
     bindC (flatC E (tree_hash oc)) (\<lambda>tf. bindC (flatC E (tree_hash tc)) (\<lambda>sf.
       ret (merged_sidecars sf tf)))))"

text \<open>The working directory goes from the tree of ours to the new one, then the branch moves.\<close>

definition advanceC :: "env \<Rightarrow> world \<Rightarrow> pystr option \<Rightarrow> pystr \<Rightarrow> pystr \<Rightarrow> pystr \<Rightarrow> unit command" where
  "advanceC E W current ours th new =
     bindC (commitC E ours) (\<lambda>oc.
     seqC (materialize_tree E W th (Some (tree_hash oc)) None) (set_branchC current new))"

definition merge_commits :: "env \<Rightarrow> world \<Rightarrow> pystr option \<Rightarrow> pystr option \<Rightarrow> pystr \<Rightarrow> pystr \<Rightarrow> pystr \<Rightarrow> unit command" where
  "merge_commits E W current base ours theirs msg =
     bindC (three_wayC E base ours theirs) (\<lambda>r.
       if conflicts r \<noteq> []
       then bindC (commitC E ours) (\<lambda>_. seqC (write_merged E W r)
              (save_conflicts base ours theirs r msg (\<lambda>g. g\<lparr>g_merge_head := Some (theirs @ [10])\<rparr>)))
       else bindC (sidecarsC E ours theirs) (\<lambda>sidecars.
            bindC (treeC E (merge_staged r sidecars)) (\<lambda>th.
            bindC (store_commitC E W th [ours, theirs] msg) (\<lambda>ch. advanceC E W current ours th ch))))"

definition merge_branch :: "env \<Rightarrow> world \<Rightarrow> pystr \<Rightarrow> pystr \<Rightarrow> unit command" where
  "merge_branch E W source opt =
     seqC (needC (source \<noteq> [])) (
     bindC current_branchC (\<lambda>current.
     seqC (needC (Some source \<noteq> current)) (
     bindC (readC (\<lambda>g. get_branch (g_refs g) source)) (\<lambda>t.
     seqC (needC (t \<noteq> None)) (
     bindC (readC (\<lambda>g. Inr (g_merge_head g))) (\<lambda>mh.
     seqC (needC (mh = None)) (
     bindC (readC (\<lambda>g. index_entries True (g_index g))) (\<lambda>staged.
     seqC (needC (staged = [])) (
     bindC headC (\<lambda>head.
     seqC (needC (head \<noteq> None)) (
     let ours = the head; theirs = the t in
     bindC (readC (\<lambda>g. find_merge_base E (g_objects g) ours theirs)) (\<lambda>base.
       if ours = theirs then ret ()
       else if base = Some ours
       then bindC (commitC E theirs) (\<lambda>tc. advanceC E W current ours (tree_hash tc) theirs)
       else if base = Some theirs then ret ()
       else merge_commits E W current base ours theirs (default_message source current opt)))))))))))))"

datatype merge_action = Abort | Continue | Start pystr

definition cli_merge :: "env \<Rightarrow> world \<Rightarrow> merge_action \<Rightarrow> pystr \<Rightarrow> unit command" where
  "cli_merge E W a opt = (case a of
     Abort \<Rightarrow> merge_abort E W | Continue \<Rightarrow> merge_continue E W opt | Start source \<Rightarrow> merge_branch E W source opt)"

section \<open>Cherry-pick\<close>

text \<open>The commit that is applied, its hash, and the hash of its first parent.\<close>

definition picked_commit :: "env \<Rightarrow> pystr \<Rightarrow> (pystr \<times> commit) command" where
  "picked_commit E commit_hash =
     bindC (readC (\<lambda>g. resolve_commit_hash (g_objects g) commit_hash)) (\<lambda>resolved.
     bindC (if truthy resolved then readC (\<lambda>g. read_commit E (g_objects g) (the resolved)) else ret None) (\<lambda>c.
     seqC (needC (c \<noteq> None)) (
     seqC (needC (parent_hashes (the c) \<noteq> [])) (ret (the resolved, the c)))))"

text \<open>Without a HEAD the merge fails on reading its commit, after the files of the base were loaded.\<close>

definition pick_ours :: "env \<Rightarrow> pystr option \<Rightarrow> pystr \<Rightarrow> pystr command" where
  "pick_ours E head base =
     (case head of
        Some ours \<Rightarrow> ret ours
      | None \<Rightarrow> bindC (if base = [] then ret [] else readC (\<lambda>g. load_tree_manifests E (g_objects g) base)) (\<lambda>_. exit_with TypeError))"

definition picked_tree :: "merge_result \<Rightarrow> pystr dict \<Rightarrow> tree" where
  "picked_tree r sidecars =
     \<lparr>tree_entries = map (\<lambda>(name, mhash). \<lparr>te_name = name, te_type = str ''manifest'', te_hash = mhash,
        te_sidecar = map_of sidecars name\<rparr>) (merged_tree_entries r)\<rparr>"

definition pick_start :: "env \<Rightarrow> world \<Rightarrow> pystr \<Rightarrow> pystr \<Rightarrow> unit command" where
  "pick_start E W commit_hash opt =
     seqC (needC (commit_hash \<noteq> [])) (
     bindC (readC (\<lambda>g. Inr (g_merge_head g))) (\<lambda>mh.
     seqC (needC (mh = None)) (
     bindC (readC (\<lambda>g. Inr (g_pick_head g))) (\<lambda>ph.
     seqC (needC (ph = None)) (
     bindC (picked_commit E commit_hash) (\<lambda>(theirs, target).
     bindC headC (\<lambda>head.
     let base = hd (parent_hashes target);
         msg = (if opt \<noteq> [] then opt else str ''cherry-pick: '' @ message target) in
     bindC (pick_ours E head base) (\<lambda>ours.
     bindC (three_wayC E (Some base) ours theirs) (\<lambda>r.
       if conflicts r \<noteq> []
       then seqC (write_merged E W r)
              (save_conflicts (Some base) ours theirs r msg (\<lambda>g. g\<lparr>g_pick_head := Some (theirs @ [10])\<rparr>))
       else bindC (sidecarsC E ours theirs) (\<lambda>sidecars.
            bindC (writeC E ''trees'' (serialize_tree (picked_tree r sidecars))) (\<lambda>th.
            bindC (store_commitC E W th [ours] msg) (\<lambda>ch.
            bindC current_branchC (\<lambda>b. advanceC E W b ours th ch)))))))))))))"

definition cli_cherry_pick :: "env \<Rightarrow> world \<Rightarrow> merge_action \<Rightarrow> pystr \<Rightarrow> unit command" where
  "cli_cherry_pick E W a opt = (case a of
     Abort \<Rightarrow> pick_abort E W | Continue \<Rightarrow> pick_continue E W opt | Start c \<Rightarrow> pick_start E W c opt)"

section \<open>Sidecars for the files of HEAD\<close>

text \<open>A data file without a sidecar that the filter selects gets one; the flag tells whether any did.\<close>

definition meta_file :: "env \<Rightarrow> pystr option \<Rightarrow> pystr \<times> flat_entry \<Rightarrow> staged \<times> bool \<Rightarrow> (staged \<times> bool) command" where
  "meta_file E file e acc =
     (let (path, ty, h, sc) = e; (updated, any) = acc in
      if ty \<noteq> str ''manifest'' \<or> (case file of None \<Rightarrow> False | Some f \<Rightarrow> path \<noteq> lstrip_slash f) \<or> sc \<noteq> None
      then ret (updated @ [(path, Staged3 ty h sc)], any)
      else bindC (readC (\<lambda>g. compute_sidecar E (g_objects g) h)) (\<lambda>s.
           bindC (writeC E ''sidecars'' (serialize_sidecar s)) (\<lambda>sh.
             ret (updated @ [(path, Staged3 ty h (Some sh))], True))))"

primrec meta_files :: "env \<Rightarrow> pystr option \<Rightarrow> flat_entry dict \<Rightarrow> staged \<times> bool \<Rightarrow> (staged \<times> bool) command" where
  "meta_files E file [] acc = ret acc"
| "meta_files E file (e # es) acc = bindC (meta_file E file e acc) (meta_files E file es)"

text \<open>\<open>meta compute\<close>; the exit with code 0 when there is nothing to compute is a normal end.\<close>

definition cli_meta_compute :: "env \<Rightarrow> world \<Rightarrow> pystr option \<Rightarrow> unit command" where
  "cli_meta_compute E W file =
     bindC headC (\<lambda>head.
     seqC (needC (head \<noteq> None)) (
     bindC (head_flatC E (the head)) (\<lambda>flat.
     bindC (meta_files E file flat ([], False)) (\<lambda>(updated, any).
       if \<not> any then ret ()
       else bindC (treeC E updated) (\<lambda>th.
            bindC (store_commitC E W th [the head] (str ''meta: compute sidecar metadata'')) (\<lambda>ch.
            bindC current_branchC (\<lambda>b. set_branchC b ch)))))))"

section \<open>The log\<close>

text \<open>
  \<open>log\<close> follows first parents; a commit that is missing raises \<open>TypeError\<close>. The fuel is two more than the
  names of stored objects: a longer walk visits a commit twice, and the loop does not end.
\<close>

primrec log_commits :: "env \<Rightarrow> disk \<Rightarrow> nat \<Rightarrow> pystr option \<Rightarrow> (pystr \<times> commit) list res" where
  "log_commits E d 0 h = Inl Out_of_fuel"
| "log_commits E d (Suc n) h =
     (if \<not> truthy h then Inr []
      else bindE (must TypeError (read_commit E d (the h))) (\<lambda>c.
           bindE (log_commits E d n (case parent_hashes c of [] \<Rightarrow> None | p # ps \<Rightarrow> Some p)) (\<lambda>rest.
             Inr ((the h, c) # rest))))"

definition cli_log :: "env \<Rightarrow> pystr \<Rightarrow> (pystr \<times> commit) list command" where
  "cli_log E format =
     bindC headC (\<lambda>head.
       if \<not> truthy head then ret []
       else seqC (needC (format = str ''table'' \<or> format = str ''json'')) (
            readC (\<lambda>g. log_commits E (g_objects g) (Suc (Suc (card (disk_names (g_objects g))))) head)))"

end
