(* ===== verification/Dit_Finish.thy ===== *)
theory Dit_Finish
  imports Dit_Blame Dit_Combine
begin

text \<open>
  The walks along the history end. The loops of \<open>blame_file\<close>, \<open>row_history\<close> and \<open>log\<close> take fuel; on a
  history without cycles, fuel for the ancestors of the commit, and in \<open>log\<close> for the stored names, is always
  enough, whatever else goes wrong on the way: unreadable objects, missing rows, trees that are too deep.
\<close>

definition finishes :: "'a res \<Rightarrow> bool" where
  "finishes m \<longleftrightarrow> m \<noteq> Inl Out_of_fuel"

named_theorems finish_intros "what never runs out of fuel"

lemma finishes_Inr [simp, finish_intros]: "finishes (Inr x)"
  by (simp add: finishes_def)

lemma finishes_Inl [simp]: "finishes (Inl e) \<longleftrightarrow> e \<noteq> Out_of_fuel"
  by (simp add: finishes_def)

lemma finishes_bind [finish_intros]: "finishes m \<Longrightarrow> (\<And>x. m = Inr x \<Longrightarrow> finishes (f x)) \<Longrightarrow> finishes (bindE m f)"
  by (cases m) (simp_all add: finishes_def)

lemma finishes_mapE [finish_intros]: "(\<And>x. finishes (f x)) \<Longrightarrow> finishes (mapE f xs)"
  by (induction xs) (auto intro: finish_intros)

lemma finishes_foldE: "(\<And>x s. x \<in> set xs \<Longrightarrow> finishes (f x s)) \<Longrightarrow> finishes (foldE f xs s)"
  by (induction xs arbitrary: s) (auto intro!: finish_intros)

section \<open>Reading objects\<close>

lemma finishes_json [finish_intros]: "finishes (json_loads_bytes b)"
  by (simp add: finishes_def json_loads_bytes_fuel)

lemma finishes_as [finish_intros]: "finishes (as_str v)" "finishes (as_opt_str v)" "finishes (as_int v)" "finishes (as_list v)"
  by (cases v; simp)+

lemma finishes_jget [finish_intros]: "finishes (jget v k)" "finishes (jget_opt v k)"
  by (cases v; simp add: finishes_def split: option.splits)+

lemma finishes_get [finish_intros]: "finishes (get_str v k)" "finishes (get_opt_str v k)" "finishes (get_int v k)" "finishes (get_list v k)"
  unfolding get_str_def get_opt_str_def get_int_def get_list_def by (intro finish_intros)+

lemma finishes_deserialize [finish_intros]:
  "finishes (deserialize_manifest b)" "finishes (deserialize_tree b)" "finishes (deserialize_commit b)" "finishes (deserialize_sidecar b)"
  unfolding deserialize_manifest_def deserialize_tree_def deserialize_commit_def deserialize_sidecar_def
    parse_manifest_entry_def parse_tree_entry_def parse_sidecar_entry_def
  by (intro finish_intros)+

lemma finishes_store_read [finish_intros]: "finishes (store_read E d ty h)"
  by (auto simp: finishes_def store_read_def bindE_eq_Inl object_path_def split: option.splits)

lemma finishes_load [finish_intros]: "(\<And>b. finishes (deser b)) \<Longrightarrow> finishes (load E d ty deser h)"
  unfolding load_def by (intro finish_intros) (auto split: option.splits intro!: finish_intros)

lemma finishes_read [finish_intros]:
  "finishes (read_commit E d h)" "finishes (read_tree E d h)" "finishes (read_manifest E d h)" "finishes (read_sidecar E d h)"
  unfolding read_defs by (intro finish_intros)+

lemma finishes_must [finish_intros]: "finishes m \<Longrightarrow> e \<noteq> Out_of_fuel \<Longrightarrow> finishes (must e m)"
  unfolding must_def by (intro finish_intros) (auto split: option.splits)

lemma finishes_flatten [finish_intros]: "finishes (flatten_tree E d n h pre)"
proof (induction n arbitrary: h pre)
  case (Suc n)
  then show ?case
    by (auto simp: flatten_tree_Suc flat_piece_def split: option.splits intro!: finish_intros finishes_foldE)
qed simp

section \<open>Walking back\<close>

lemma finishes_manifest_for_file: "finishes (get_manifest_for_file E d c fl)"
  unfolding get_manifest_for_file_def
  by (intro finish_intros) (auto split: option.splits intro!: finish_intros)

lemma finishes_try [finish_intros]: "finishes (try_get_manifest E d c fl)"
  using finishes_manifest_for_file [of E d c fl]
  by (auto simp: try_get_manifest_def split: sum.splits)

lemma finishes_diff [finish_intros]: "finishes (diff_manifests m m')"
  using diff_touches [of m m'] by auto

lemma finishes_event [finish_intros]: "finishes (make_event E d cur c k h)"
  unfolding make_event_def content_preview_def by (intro finish_intros)

lemma finishes_root_event [finish_intros]: "finishes (root_event E d cur c cm h evs)"
  unfolding root_event_def by (auto intro!: finish_intros)

lemma ancestors_card:
  assumes "acyclic (commits.edges E d)" "read_commit E d cur = Inr (Some c)" "parent_hashes c = p # ps"
    and "card {x. ancestor E d x cur} \<le> Suc n"
  shows "card {x. ancestor E d x p} \<le> n"
proof -
  have "first_parent E d cur = Some p" using first_parent_read [OF assms(2)] assms(3) by simp
  from ancestors_less [OF assms(1) this] assms(4) show ?thesis by simp
qed

lemma no_ancestors: "\<not> card {x. ancestor E d x cur} \<le> 0"
proof -
  have "finite {x. ancestor E d x cur}" unfolding ancestor_def by (rule commits.finite_reach)
  moreover have "cur \<in> {x. ancestor E d x cur}" using ancestor_refl by simp
  ultimately show ?thesis by (metis card_eq_0_iff empty_iff le_zero_eq)
qed

lemma blame_loop_finishes:
  assumes "acyclic (commits.edges E d)"
  shows "card {x. ancestor E d x cur} \<le> n \<Longrightarrow> finishes (blame_loop E d fl target n cur cm U bm)"
proof (induction n arbitrary: cur cm U bm)
  case 0
  then show ?case using no_ancestors by blast
next
  case (Suc n)
  have rest: "finishes (blame_loop E d fl target n p pm U' bm')"
    if "read_commit E d cur = Inr (Some c)" "parent_hashes c = p # ps" for c p ps pm U' bm'
    using Suc.IH ancestors_card [OF assms that Suc.prems] by blast
  show ?case
    by (auto intro!: finish_intros rest split: option.splits list.splits prod.splits) simp_all
qed

lemma history_loop_finishes:
  assumes "acyclic (commits.edges E d)"
  shows "card {x. ancestor E d x cur} \<le> n \<Longrightarrow> finishes (history_loop E d fl n cur cm tracked evs)"
proof (induction n arbitrary: cur cm tracked evs)
  case 0
  then show ?case using no_ancestors by blast
next
  case (Suc n)
  have rest: "finishes (history_loop E d fl n p pm h evs')"
    if "read_commit E d cur = Inr (Some c)" "parent_hashes c = p # ps" for c p ps pm h evs'
    using Suc.IH ancestors_card [OF assms that Suc.prems] by blast
  show ?case
    by (auto intro!: finish_intros rest split: option.splits list.splits prod.splits) simp_all
qed

text \<open>
  The log: the commits it has passed are stored, and different since every one is an ancestor of those before it.
\<close>

lemma log_commits_fuel:
  assumes "acyclic (commits.edges E d)"
  shows "log_commits E d n h = Inl Out_of_fuel \<Longrightarrow> V \<subseteq> disk_names d \<Longrightarrow>
    (\<forall>v \<in> V. \<forall>c. h = Some c \<longrightarrow> (v, c) \<in> (commits.edges E d)\<^sup>+) \<Longrightarrow> n + card V \<le> card (disk_names d)"
proof (induction n arbitrary: h V)
  case 0
  then show ?case by (simp add: card_mono disk_names_def)
next
  case (Suc n)
  from Suc.prems(1) obtain c where h: "h = Some c" by (cases h) auto
  have f: "finishes (must TypeError (read_commit E d c))" by (intro finish_intros) simp
  with Suc.prems(1) obtain x where x: "read_commit E d c = Inr (Some x)"
    and rest: "log_commits E d n (case parent_hashes x of [] \<Rightarrow> None | p # ps \<Rightarrow> Some p) = Inl Out_of_fuel"
    by (auto simp: h bindE_eq_Inl must_Inr finishes_def split: if_split_asm)
  have "c \<notin> V" using Suc.prems(3) assms by (auto simp: h acyclic_def)
  moreover have "finite V" using Suc.prems(2) by (rule finite_subset) (simp add: disk_names_def)
  moreover have "insert c V \<subseteq> disk_names d" using read_commit_names [OF x] Suc.prems(2) by simp
  moreover have "(v, p) \<in> (commits.edges E d)\<^sup>+"
    if "v \<in> insert c V" "(case parent_hashes x of [] \<Rightarrow> None | p # ps \<Rightarrow> Some p) = Some p" for v p
  proof -
    have "(c, p) \<in> commits.edges E d"
      using that(2) x by (auto simp: commit_parents_def split: list.split_asm)
    with that(1) Suc.prems(3) h show ?thesis by (auto intro: trancl.trancl_into_trancl)
  qed
  ultimately show ?case using Suc.IH [OF rest, of "insert c V"] by simp
qed

lemma log_commits_finishes:
  "acyclic (commits.edges E d) \<Longrightarrow> card (disk_names d) < n \<Longrightarrow> finishes (log_commits E d n h)"
  using log_commits_fuel [of E d n h "{}"] by (auto simp: finishes_def)

lemma finishes_head [finish_intros]: "finishes (resolve_head r)"
  by (auto simp: finishes_def resolve_head_def get_head_def get_branch_def ref_read_def Let_def bindE_eq_Inl split: option.splits if_splits)

lemma cli_log_finishes:
  assumes "acyclic (commits.edges E (g_objects g))"
  shows "finishes (snd (cli_log E fmt g))"
proof (cases "resolve_head (g_refs g)")
  case (Inl e)
  with finishes_head [of "g_refs g"] have "cli_log E fmt g = (g, Inl e)" "e \<noteq> Out_of_fuel"
    by (simp_all add: cli_log_def bindC_def headC_def)
  then show ?thesis by simp
next
  case (Inr head)
  then have "cli_log E fmt g = (if \<not> truthy head then ret [] else seqC (needC (fmt = str ''table'' \<or> fmt = str ''json''))
      (readC (\<lambda>g. log_commits E (g_objects g) (Suc (Suc (card (disk_names (g_objects g))))) head))) g"
    unfolding cli_log_def by (subst bindC_step) (simp_all add: headC_def)
  moreover have "finishes (log_commits E (g_objects g) (Suc (Suc (card (disk_names (g_objects g))))) head)"
    by (rule log_commits_finishes [OF assms]) simp
  ultimately show ?thesis by (simp add: seqC_def bindC_def del: log_commits.simps)
qed

text \<open>
  C28: Blame, the history of a row and the log end. When the history has no cycle, fuel for the ancestors of
  the commit is enough for the first two, and what \<open>log\<close> takes for itself is enough for it: none ever runs
  out, for any file, any row, and any state of the store and of the repository around it.
\<close>

theorem history_walks_end:
  assumes "acyclic (commits.edges E d)" and "card {x. ancestor E d x c} \<le> n"
  shows "blame_file E d n c fl \<noteq> Inl Out_of_fuel \<and> row_history E d n c fl i \<noteq> Inl Out_of_fuel \<and>
    (g_objects g = d \<longrightarrow> snd (cli_log E fmt g) \<noteq> Inl Out_of_fuel)"
proof -
  have "finishes (blame_row E d c bm ie)" for bm ie
    unfolding blame_row_def content_preview_def by (auto simp: Let_def split: prod.splits intro!: finish_intros)
  then have "finishes (blame_file E d n c fl)"
    unfolding blame_file_def
    by (auto split: prod.splits intro!: finish_intros finishes_manifest_for_file blame_loop_finishes [OF assms])
  moreover have "finishes (row_history E d n c fl i)"
    unfolding row_history_def
    by (auto simp: Let_def split: prod.splits intro!: finish_intros finishes_manifest_for_file history_loop_finishes [OF assms])
  moreover have "finishes (snd (cli_log E fmt g))" if "g_objects g = d"
    using cli_log_finishes [of E g] assms(1) that by simp
  ultimately show ?thesis by (simp add: finishes_def)
qed

theorem history_walks_end_witness:
  "row_history demo_env data_disk 1 data_head (str ''t'') 0 \<noteq> Inl Out_of_fuel"
proof -
  have anc: "{x. ancestor demo_env data_disk x data_head} = {data_head}" using data_ancestor ancestor_refl by blast
  have "commits.edges demo_env data_disk = {}" by (auto simp: commits.edges_def data_parents)
  then have "acyclic (commits.edges demo_env data_disk)" by (simp add: acyclic_def)
  moreover have "card {x. ancestor demo_env data_disk x data_head} \<le> 1" by (simp add: anc)
  ultimately show ?thesis using history_walks_end by blast
qed

end
