(* ===== verification/Dit_Cache.thy ===== *)
theory Dit_Cache
  imports Dit_Sidecar
begin

text \<open>
  \<open>src/dit/core/runtime_metadata.py\<close>: the cache of summaries threads share. Each \<open>with\<close> block on
  the lock is one atomic step, and so are the wait for an event and the computation. An \<open>Event\<close>
  is a number; \<open>set_events\<close> are those that are set. The store does not change while the threads
  run (objects are immutable), so the summary of a key is a function.
\<close>

type_synonym cache_key = "pystr \<times> pystr"

datatype rm_pc =
    Idle | Waiting nat | Woken | Computing | Computed summary_info | Failed err
  | Returned summary_info | Raised err

record rm_state =
  cache :: "(cache_key \<times> summary_info) list"
  in_flight :: "(cache_key \<times> nat) list"
  set_events :: "nat set"
  next_event :: nat
  threads :: "nat \<Rightarrow> cache_key \<times> rm_pc"

definition summary_of :: "env \<Rightarrow> (pystr \<Rightarrow> disk) \<Rightarrow> cache_key \<Rightarrow> summary_info res" where
  "summary_of E disks key = bindE (compute_sidecar E (disks (fst key)) (snd key)) (\<lambda>s. Inr (sidecar_summary s))"

definition cache_max :: nat where "cache_max = 20000"

definition goto :: "nat \<Rightarrow> rm_pc \<Rightarrow> rm_state \<Rightarrow> rm_state" where
  "goto t pc s = s\<lparr>threads := (threads s)(t := (fst (threads s t), pc))\<rparr>"

section \<open>The steps of a call\<close>

text \<open>The first locked block: a hit, joining a computation, or starting one.\<close>

definition rm_enter :: "nat \<Rightarrow> cache_key \<Rightarrow> bool \<Rightarrow> rm_state \<Rightarrow> rm_state" where
  "rm_enter t key refresh s0 =
     (let s = s0\<lparr>threads := (threads s0)(t := (key, Idle))\<rparr> in
      if \<not> refresh \<and> map_of (cache s) key \<noteq> None
      then let value = the (map_of (cache s) key) in
           goto t (Returned value) (s\<lparr>cache := AList.delete key (cache s) @ [(key, value)]\<rparr>)
      else let s = (if refresh then s\<lparr>cache := AList.delete key (cache s)\<rparr> else s) in
           case map_of (in_flight s) key of
             None \<Rightarrow> goto t Computing (s\<lparr>in_flight := AList.update key (next_event s) (in_flight s),
                                        next_event := Suc (next_event s)\<rparr>)
           | Some e \<Rightarrow> goto t (Waiting e) s)"

text \<open>After \<open>wait()\<close>: the second look into the cache.\<close>

definition rm_recheck :: "nat \<Rightarrow> rm_state \<Rightarrow> rm_state" where
  "rm_recheck t s =
     (case map_of (cache s) (fst (threads s t)) of
        Some v \<Rightarrow> goto t (Returned v) s
      | None \<Rightarrow> goto t Computing s)"

definition rm_compute :: "(cache_key \<Rightarrow> summary_info res) \<Rightarrow> nat \<Rightarrow> rm_state \<Rightarrow> rm_state" where
  "rm_compute sm t s =
     (case sm (fst (threads s t)) of Inl e \<Rightarrow> goto t (Failed e) s | Inr v \<Rightarrow> goto t (Computed v) s)"

text \<open>\<open>waiter = _SUMMARY_IN_FLIGHT.pop(cache_key, None)\<close>, and \<open>set\<close> it.\<close>

definition rm_release :: "cache_key \<Rightarrow> rm_state \<Rightarrow> rm_state" where
  "rm_release key s =
     (case map_of (in_flight s) key of
        None \<Rightarrow> s
      | Some e \<Rightarrow> s\<lparr>in_flight := AList.delete key (in_flight s), set_events := insert e (set_events s)\<rparr>)"

definition rm_fail :: "nat \<Rightarrow> err \<Rightarrow> rm_state \<Rightarrow> rm_state" where
  "rm_fail t e s = goto t (Raised e) (rm_release (fst (threads s t)) s)"

fun evict :: "nat \<Rightarrow> 'a list \<Rightarrow> 'a list" where
  "evict n [] = []"
| "evict n (x # xs) = (if n < length (x # xs) then evict n xs else x # xs)"

definition rm_publish :: "nat \<Rightarrow> nat \<Rightarrow> summary_info \<Rightarrow> rm_state \<Rightarrow> rm_state" where
  "rm_publish cap t v s =
     (let key = fst (threads s t) in
      goto t (Returned v) (rm_release key (s\<lparr>cache := evict cap (AList.update key v (cache s))\<rparr>)))"

definition rm_clear :: "rm_state \<Rightarrow> rm_state" where
  "rm_clear s = s\<lparr>cache := [], in_flight := []\<rparr>"

definition rm_start :: rm_state where
  "rm_start = \<lparr>cache = [], in_flight = [], set_events = {}, next_event = 0, threads = (\<lambda>_. (([], []), Idle))\<rparr>"

text \<open>
  \<open>clears\<close> tells whether \<open>clear_runtime_metadata_cache\<close> may be called. A thread out of a call may
  start another.
\<close>

inductive rm_step :: "(cache_key \<Rightarrow> summary_info res) \<Rightarrow> nat \<Rightarrow> bool \<Rightarrow> rm_state \<Rightarrow> rm_state \<Rightarrow> bool"
  for sm cap clears where
  enter: "snd (threads s t) = Idle \<or> (\<exists>v. snd (threads s t) = Returned v) \<or> (\<exists>e. snd (threads s t) = Raised e) \<Longrightarrow>
    rm_step sm cap clears s (rm_enter t key refresh s)"
| wake: "snd (threads s t) = Waiting e \<Longrightarrow> e \<in> set_events s \<Longrightarrow> rm_step sm cap clears s (goto t Woken s)"
| recheck: "snd (threads s t) = Woken \<Longrightarrow> rm_step sm cap clears s (rm_recheck t s)"
| compute: "snd (threads s t) = Computing \<Longrightarrow> rm_step sm cap clears s (rm_compute sm t s)"
| fail: "snd (threads s t) = Failed e \<Longrightarrow> rm_step sm cap clears s (rm_fail t e s)"
| publish: "snd (threads s t) = Computed v \<Longrightarrow> rm_step sm cap clears s (rm_publish cap t v s)"
| clear: "clears \<Longrightarrow> rm_step sm cap clears s (rm_clear s)"

abbreviation rm_reach :: "(cache_key \<Rightarrow> summary_info res) \<Rightarrow> nat \<Rightarrow> bool \<Rightarrow> rm_state \<Rightarrow> rm_state \<Rightarrow> bool" where
  "rm_reach sm cap clears \<equiv> (rm_step sm cap clears)\<^sup>*\<^sup>*"

section \<open>The cache is right\<close>

definition pc_right :: "(cache_key \<Rightarrow> summary_info res) \<Rightarrow> cache_key \<times> rm_pc \<Rightarrow> bool" where
  "pc_right sm kp \<longleftrightarrow> (case snd kp of
      Returned v \<Rightarrow> sm (fst kp) = Inr v | Computed v \<Rightarrow> sm (fst kp) = Inr v
    | Failed e \<Rightarrow> sm (fst kp) = Inl e | Raised e \<Rightarrow> sm (fst kp) = Inl e | _ \<Rightarrow> True)"

definition cache_right :: "(cache_key \<Rightarrow> summary_info res) \<Rightarrow> nat \<Rightarrow> rm_state \<Rightarrow> bool" where
  "cache_right sm cap s \<longleftrightarrow> distinct (map fst (cache s)) \<and> length (cache s) \<le> cap \<and>
     (\<forall>(k, v) \<in> set (cache s). sm k = Inr v) \<and> (\<forall>t. pc_right sm (threads s t))"

lemma evict_drop: "evict n xs = drop (length xs - n) xs"
  by (induction xs) (auto simp: Suc_diff_le)

lemma length_evict: "length (evict n xs) = min n (length xs)"
  by (simp add: evict_drop)

lemma set_delete_subset: "set (AList.delete k xs) \<subseteq> set xs"
  by (auto simp: AList.delete_eq)

lemma set_update_subset: "set (AList.update k v xs) \<subseteq> insert (k, v) (set xs)"
  by (induction xs) auto

lemma length_delete_less: "k \<in> fst ` set xs \<Longrightarrow> length (AList.delete k xs) < length xs"
  unfolding AList.delete_eq by (auto intro!: length_filter_less)

lemma cache_goto [simp]: "cache (goto t pc s) = cache s" "in_flight (goto t pc s) = in_flight s"
  "set_events (goto t pc s) = set_events s" "next_event (goto t pc s) = next_event s"
  "threads (goto t pc s) = (threads s)(t := (fst (threads s t), pc))"
  by (simp_all add: goto_def)

lemma cache_release [simp]: "cache (rm_release k s) = cache s" "threads (rm_release k s) = threads s"
  "next_event (rm_release k s) = next_event s"
  by (simp_all add: rm_release_def split: option.split)

lemma cache_right_goto:
  "cache_right sm cap s \<Longrightarrow> pc_right sm (fst (threads s t), pc) \<Longrightarrow> cache_right sm cap (goto t pc s)"
  by (simp add: cache_right_def)

lemma cache_right_fields [simp]:
  "cache_right sm cap (s\<lparr>in_flight := i\<rparr>) = cache_right sm cap s"
  "cache_right sm cap (s\<lparr>next_event := n\<rparr>) = cache_right sm cap s"
  by (simp_all add: cache_right_def)

lemma cache_right_release: "cache_right sm cap s \<Longrightarrow> cache_right sm cap (rm_release k s)"
  by (simp add: cache_right_def)

lemma cache_right_step:
  assumes "rm_step sm cap clears s s'" and "cache_right sm cap s"
  shows "cache_right sm cap s'"
  using assms
proof (induction rule: rm_step.induct)
  case (enter s t key refresh)
  note inv = enter(2) [unfolded cache_right_def]
  let ?s = "s\<lparr>threads := (threads s)(t := (key, Idle))\<rparr>"
  have s: "cache_right sm cap ?s" using inv by (simp add: cache_right_def pc_right_def)
  show ?case
  proof (cases "\<not> refresh \<and> map_of (cache s) key \<noteq> None")
    case True
    then obtain v where v: "map_of (cache s) key = Some v" by auto
    then have sm: "sm key = Inr v" using inv by (auto dest: map_of_SomeD)
    have len: "length (AList.delete key (cache s)) < length (cache s)"
      using v by (intro length_delete_less) (force dest: map_of_SomeD)
    have "rm_enter t key refresh s = goto t (Returned v) (?s\<lparr>cache := AList.delete key (cache s) @ [(key, v)]\<rparr>)"
      using True v by (simp add: rm_enter_def)
    moreover have "cache_right sm cap (?s\<lparr>cache := AList.delete key (cache s) @ [(key, v)]\<rparr>)"
      using inv sm len set_delete_subset [of key "cache s"]
      by (auto simp: cache_right_def pc_right_def distinct_delete delete_notin_dom simp flip: image_set)
    ultimately show ?thesis using sm by (simp add: cache_right_goto pc_right_def)
  next
    case False
    let ?t = "if refresh then ?s\<lparr>cache := AList.delete key (cache ?s)\<rparr> else ?s"
    have t: "cache_right sm cap ?t"
      using s length_delete_le [of key "cache s"] set_delete_subset [of key "cache s"]
      by (auto simp: cache_right_def distinct_delete)
    have "rm_enter t key refresh s = (case map_of (in_flight ?t) key of
             None \<Rightarrow> goto t Computing (?t\<lparr>in_flight := AList.update key (next_event ?t) (in_flight ?t),
                                        next_event := Suc (next_event ?t)\<rparr>)
           | Some e \<Rightarrow> goto t (Waiting e) ?t)"
      using False by (auto simp: rm_enter_def Let_def)
    moreover have "pc_right sm (k, Computing)" "pc_right sm (k, Waiting e)" for k e by (simp_all add: pc_right_def)
    ultimately show ?thesis
      using t by (simp only: cache_right_fields cache_right_goto split: option.split) simp
  qed
next
  case (recheck s t)
  then have "pc_right sm (fst (threads s t), Returned v)" if "map_of (cache s) (fst (threads s t)) = Some v" for v
    using that by (auto simp: cache_right_def pc_right_def dest: map_of_SomeD)
  with recheck show ?case
    by (auto simp: rm_recheck_def pc_right_def intro!: cache_right_goto split: option.split)
next
  case (publish s t v)
  have sm: "sm (fst (threads s t)) = Inr v"
    using publish by (auto simp: cache_right_def pc_right_def dest!: spec [of _ t])
  let ?c = "evict cap (AList.update (fst (threads s t)) v (cache s))"
  have "set ?c \<subseteq> insert (fst (threads s t), v) (set (cache s))"
    using set_update_subset [of "fst (threads s t)" v "cache s"] set_drop_subset by (fastforce simp: evict_drop)
  moreover have "distinct (map fst ?c)"
    using publish(2) by (simp add: evict_drop drop_map [symmetric] distinct_update cache_right_def)
  ultimately have "cache_right sm cap (s\<lparr>cache := ?c\<rparr>)"
    using publish(2) sm by (auto simp: cache_right_def length_evict)
  then show ?case
    using sm by (simp add: rm_publish_def Let_def cache_right_goto cache_right_release pc_right_def)
next
  case (compute s t)
  then show ?case
    by (cases "sm (fst (threads s t))") (simp_all add: rm_compute_def cache_right_goto pc_right_def)
next
  case (fail s t e)
  then have "pc_right sm (fst (threads s t), snd (threads s t))"
    unfolding cache_right_def by (metis prod.collapse)
  with fail(1) have "sm (fst (threads s t)) = Inl e" by (simp add: pc_right_def)
  with fail(2) show ?case
    by (simp add: rm_fail_def cache_right_goto cache_right_release pc_right_def)
next
  case (wake s t e)
  then show ?case by (simp add: cache_right_goto pc_right_def)
next
  case (clear s)
  then show ?case by (simp add: cache_right_def rm_clear_def)
qed

lemma cache_right_reach: "rm_reach sm cap clears s s' \<Longrightarrow> cache_right sm cap s \<Longrightarrow> cache_right sm cap s'"
  by (induction rule: rtranclp_induct) (auto intro: cache_right_step)

section \<open>Nobody waits forever\<close>

fun busy :: "rm_pc \<Rightarrow> bool" where
  "busy Computing = True" | "busy (Computed v) = True" | "busy (Failed e) = True" | "busy _ = False"

fun finished :: "rm_pc \<Rightarrow> bool" where
  "finished (Returned v) = True" | "finished (Raised e) = True" | "finished _ = False"

text \<open>
  Every event in flight belongs to a thread at work on its key, and every event waited for is
  in flight or set.
\<close>

definition awake :: "rm_state \<Rightarrow> bool" where
  "awake s \<longleftrightarrow>
     (\<forall>k e. map_of (in_flight s) k = Some e \<longrightarrow> (\<exists>t. fst (threads s t) = k \<and> busy (snd (threads s t)))) \<and>
     (\<forall>t e. snd (threads s t) = Waiting e \<longrightarrow> e \<in> set_events s \<or> (\<exists>k. map_of (in_flight s) k = Some e))"

lemma awakeD:
  assumes "awake s"
  shows "map_of (in_flight s) k = Some e \<Longrightarrow> \<exists>t. fst (threads s t) = k \<and> busy (snd (threads s t))"
    and "snd (threads s t) = Waiting e \<Longrightarrow> e \<in> set_events s \<or> (\<exists>k. map_of (in_flight s) k = Some e)"
  using assms unfolding awake_def by blast+

lemma release_fields:
  "map_of (in_flight (rm_release k s)) l = (if l = k then None else map_of (in_flight s) l)"
  "set_events (rm_release k s) = set_events s \<union> set_option (map_of (in_flight s) k)"
  by (auto simp: rm_release_def delete_conv' split: option.split)

lemma awake_release:
  assumes a: "awake s" and t: "fst (threads s t) = k" and pc: "finished pc"
    and s': "in_flight s' = in_flight s" "set_events s' = set_events s" "threads s' = threads s"
  shows "awake (goto t pc (rm_release k s'))"
  unfolding awake_def
proof (intro conjI allI impI)
  fix l e assume "map_of (in_flight (goto t pc (rm_release k s'))) l = Some e"
  then have l: "l \<noteq> k" "map_of (in_flight s) l = Some e" by (simp_all add: release_fields s' split: if_splits)
  then obtain u where "fst (threads s u) = l" "busy (snd (threads s u))" using a unfolding awake_def by blast
  with l(1) t show "\<exists>u. fst (threads (goto t pc (rm_release k s')) u) = l \<and> busy (snd (threads (goto t pc (rm_release k s')) u))"
    by (intro exI [of _ u]) (auto simp: s')
next
  fix u e assume w: "snd (threads (goto t pc (rm_release k s')) u) = Waiting e"
  then have "u \<noteq> t" using pc by auto
  with w have "snd (threads s u) = Waiting e" by (simp add: s')
  with a consider "e \<in> set_events s" | l where "map_of (in_flight s) l = Some e" unfolding awake_def by blast
  then show "e \<in> set_events (goto t pc (rm_release k s')) \<or> (\<exists>l. map_of (in_flight (goto t pc (rm_release k s'))) l = Some e)"
  proof cases
    case (2 l)
    show ?thesis
    proof (cases "l = k")
      case True
      with 2 show ?thesis by (simp add: release_fields s')
    next
      case False
      with 2 show ?thesis by (intro disjI2 exI [of _ l]) (simp add: release_fields s')
    qed
  qed (auto simp: release_fields s')
qed

lemma awake_move:
  assumes "awake s" and "busy (snd (threads s t)) \<longrightarrow> busy pc"
    and "\<And>e. pc = Waiting e \<Longrightarrow> \<exists>k. map_of (in_flight s) k = Some e"
  shows "awake (goto t pc s)"
  using assms unfolding awake_def by (auto; metis)

lemma awake_step:
  assumes "rm_step sm cap False s s'" and "awake s"
  shows "awake s'"
  using assms
proof (induction rule: rm_step.induct)
  case (enter s t key refresh)
  let ?s = "s\<lparr>threads := (threads s)(t := (key, Idle))\<rparr>"
  have nb: "\<not> busy (snd (threads s t))" using enter(1) by auto
  have s: "awake ?s" unfolding awake_def
  proof (intro conjI allI impI)
    fix k e assume "map_of (in_flight ?s) k = Some e"
    then obtain u where "fst (threads s u) = k" "busy (snd (threads s u))" using awakeD(1) [OF enter(2), of k e] by auto
    with nb show "\<exists>u. fst (threads ?s u) = k \<and> busy (snd (threads ?s u))" by (intro exI [of _ u]) auto
  next
    fix u e assume "snd (threads ?s u) = Waiting e"
    then have "snd (threads s u) = Waiting e" by (auto split: if_splits)
    then show "e \<in> set_events ?s \<or> (\<exists>k. map_of (in_flight ?s) k = Some e)" using enter(2) unfolding awake_def by simp
  qed
  have cache: "awake (x\<lparr>cache := c\<rparr>) = awake x" for x c by (simp add: awake_def)
  show ?case
  proof (cases "\<not> refresh \<and> map_of (cache s) key \<noteq> None")
    case True
    have "awake (goto t (Returned v) (?s\<lparr>cache := c\<rparr>))" for v c
      by (rule awake_move) (use s cache in simp_all)
    with True show ?thesis by (simp add: rm_enter_def Let_def)
  next
    case False
    let ?t = "if refresh then ?s\<lparr>cache := AList.delete key (cache ?s)\<rparr> else ?s"
    have t: "awake ?t" using s cache by simp
    have i: "in_flight ?t = in_flight s" "next_event ?t = next_event s" "snd (threads ?t t) = Idle" by simp_all
    have "rm_enter t key refresh s = (case map_of (in_flight ?t) key of
             None \<Rightarrow> goto t Computing (?t\<lparr>in_flight := AList.update key (next_event ?t) (in_flight ?t),
                                        next_event := Suc (next_event ?t)\<rparr>)
           | Some e \<Rightarrow> goto t (Waiting e) ?t)"
      using False by (auto simp: rm_enter_def Let_def)
    moreover have "awake (goto t (Waiting e) ?t)" if "map_of (in_flight s) key = Some e" for e
    proof (rule awake_move [OF t])
      show "busy (snd (threads ?t t)) \<longrightarrow> busy (Waiting e)" using i(3) by simp
      show "\<exists>k. map_of (in_flight ?t) k = Some f" if "Waiting e = Waiting f" for f
        using that \<open>map_of (in_flight s) key = Some e\<close> i(1) by (intro exI [of _ key]) simp
    qed
    moreover have "awake (goto t Computing (?t\<lparr>in_flight := AList.update key n (in_flight ?t), next_event := m\<rparr>))"
      if "map_of (in_flight s) key = None" for n m
      unfolding awake_def
    proof (intro conjI allI impI)
      let ?u = "goto t Computing (?t\<lparr>in_flight := AList.update key n (in_flight ?t), next_event := m\<rparr>)"
      fix k e assume k: "map_of (in_flight ?u) k = Some e"
      show "\<exists>u. fst (threads ?u u) = k \<and> busy (snd (threads ?u u))"
      proof (cases "k = key")
        case True
        then show ?thesis by (intro exI [of _ t]) simp
      next
        case False
        with k have "map_of (in_flight s) k = Some e" by (simp add: update_conv' split: if_splits)
        then obtain u where "fst (threads ?s u) = k" "busy (snd (threads ?s u))" using awakeD(1) [OF s, of k e] by auto
        then show ?thesis by (intro exI [of _ u]) (auto split: if_splits)
      qed
    next
      let ?u = "goto t Computing (?t\<lparr>in_flight := AList.update key n (in_flight ?t), next_event := m\<rparr>)"
      fix u e assume "snd (threads ?u u) = Waiting e"
      then have "snd (threads s u) = Waiting e" by (auto split: if_splits)
      then have "e \<in> set_events s \<or> (\<exists>k. map_of (in_flight s) k = Some e)" using enter(2) unfolding awake_def by blast
      then show "e \<in> set_events ?u \<or> (\<exists>k. map_of (in_flight ?u) k = Some e)"
      proof (rule disjE)
        assume "\<exists>k. map_of (in_flight s) k = Some e"
        then obtain k where k: "map_of (in_flight s) k = Some e" ..
        with that have "k \<noteq> key" by auto
        with k show ?thesis by (intro disjI2 exI [of _ k]) (simp add: update_conv')
      qed simp
    qed
    ultimately show ?thesis unfolding i by (auto split: option.split)
  qed
next
  case (recheck s t)
  then show ?case by (auto simp: rm_recheck_def intro!: awake_move split: option.split)
next
  case (compute s t)
  then show ?case by (auto simp: rm_compute_def intro!: awake_move split: sum.split)
next
  case (fail s t e)
  then show ?case unfolding rm_fail_def by (intro awake_release) simp_all
next
  case (publish s t v)
  then show ?case unfolding rm_publish_def Let_def by (intro awake_release) simp_all
qed (auto intro!: awake_move)

lemma awake_reach: "rm_reach sm cap False s s' \<Longrightarrow> awake s \<Longrightarrow> awake s'"
  by (induction rule: rtranclp_induct) (auto intro: awake_step)

text \<open>A thread at work returns or raises, setting the event of its key.\<close>

lemma finish:
  assumes "busy (snd (threads s t))"
  shows "\<exists>s'. rm_reach sm cap clears s s' \<and> finished (snd (threads s' t)) \<and> (\<forall>u. u \<noteq> t \<longrightarrow> threads s' u = threads s u) \<and>
    set_events s \<union> set_option (map_of (in_flight s) (fst (threads s t))) \<subseteq> set_events s'"
proof -
  let ?P = "\<lambda>s s'. rm_reach sm cap clears s s' \<and> finished (snd (threads s' t)) \<and>
    (\<forall>u. u \<noteq> t \<longrightarrow> threads s' u = threads s u) \<and>
    set_events s \<union> set_option (map_of (in_flight s) (fst (threads s t))) \<subseteq> set_events s'"
  have 1: "?P s (rm_publish cap t v s)" if "snd (threads s t) = Computed v" for s :: rm_state and v
    using r_into_rtranclp [of "rm_step sm cap clears", OF rm_step.publish [OF that, of sm cap clears]]
    by (simp add: rm_publish_def Let_def release_fields)
  have 2: "?P s (rm_fail t e s)" if "snd (threads s t) = Failed e" for s :: rm_state and e
    using r_into_rtranclp [of "rm_step sm cap clears", OF rm_step.fail [OF that, of sm cap clears]]
    by (simp add: rm_fail_def release_fields)
  show ?thesis
  proof (cases "snd (threads s t)")
    case Computing
    let ?c = "rm_compute sm t s"
    have step: "rm_step sm cap clears s ?c" by (rule rm_step.compute [OF Computing])
    have c: "\<forall>u. u \<noteq> t \<longrightarrow> threads ?c u = threads s u" "in_flight ?c = in_flight s" "set_events ?c = set_events s"
      "fst (threads ?c t) = fst (threads s t)" "(\<exists>e. snd (threads ?c t) = Failed e) \<or> (\<exists>v. snd (threads ?c t) = Computed v)"
      by (auto simp: rm_compute_def split: sum.split)
    then obtain s' where "?P ?c s'" using 1 [of ?c] 2 [of ?c] by blast
    then show ?thesis
      using converse_rtranclp_into_rtranclp [of "rm_step sm cap clears", OF step] c by (intro exI [of _ s']) auto
  next
    case (Computed v)
    from 1 [OF this] show ?thesis by blast
  next
    case (Failed e)
    from 2 [OF this] show ?thesis by blast
  qed (use assms in simp_all)
qed

lemma wake_up:
  assumes "snd (threads s t) = Waiting e" and "e \<in> set_events s"
  shows "\<exists>s'. rm_reach sm cap clears s s' \<and> finished (snd (threads s' t))"
proof -
  let ?w = "goto t Woken s"
  have 1: "rm_step sm cap clears s ?w" by (rule rm_step.wake [OF assms])
  have 2: "rm_step sm cap clears ?w (rm_recheck t ?w)" by (rule rm_step.recheck) simp
  have "(\<exists>v. snd (threads (rm_recheck t ?w) t) = Returned v) \<or> snd (threads (rm_recheck t ?w) t) = Computing"
    by (auto simp: rm_recheck_def split: option.split)
  then have "\<exists>s'. rm_reach sm cap clears (rm_recheck t ?w) s' \<and> finished (snd (threads s' t))"
    using finish [of "rm_recheck t ?w" t sm cap clears] by auto
  then show ?thesis
    using converse_rtranclp_into_rtranclp [of "rm_step sm cap clears", OF 1]
      converse_rtranclp_into_rtranclp [of "rm_step sm cap clears", OF 2] by blast
qed

lemma call_finishes:
  assumes "awake s" and "snd (threads s t) \<noteq> Idle"
  shows "\<exists>s'. rm_reach sm cap clears s s' \<and> finished (snd (threads s' t))"
proof (cases "snd (threads s t)")
  case (Waiting e)
  from awakeD(2) [OF assms(1) this] show ?thesis
  proof
    assume "\<exists>k. map_of (in_flight s) k = Some e"
    then obtain k where k: "map_of (in_flight s) k = Some e" ..
    from awakeD(1) [OF assms(1) this] obtain u where u: "fst (threads s u) = k" "busy (snd (threads s u))" by blast
    with Waiting have ne: "t \<noteq> u" by auto
    from finish [OF u(2), of sm cap clears] obtain s1 where s1: "rm_reach sm cap clears s s1"
      "\<forall>v. v \<noteq> u \<longrightarrow> threads s1 v = threads s v"
      "set_events s \<union> set_option (map_of (in_flight s) (fst (threads s u))) \<subseteq> set_events s1" by blast
    have "e \<in> set_events s1" using s1(3) k u(1) by auto
    moreover have "snd (threads s1 t) = Waiting e" using s1(2) ne Waiting by simp
    ultimately obtain s2 where "rm_reach sm cap clears s1 s2" "finished (snd (threads s2 t))" using wake_up by blast
    with s1(1) show ?thesis by (blast intro: rtranclp_trans)
  qed (use wake_up [OF Waiting] in blast)
next
  case Woken
  have 2: "rm_step sm cap clears s (rm_recheck t s)" by (rule rm_step.recheck [OF Woken])
  have "(\<exists>v. snd (threads (rm_recheck t s) t) = Returned v) \<or> snd (threads (rm_recheck t s) t) = Computing"
    by (auto simp: rm_recheck_def split: option.split)
  then have "\<exists>s'. rm_reach sm cap clears (rm_recheck t s) s' \<and> finished (snd (threads s' t))"
    using finish [of "rm_recheck t s" t sm cap clears] by auto
  then show ?thesis using converse_rtranclp_into_rtranclp [of "rm_step sm cap clears", OF 2] by blast
next
  case (Returned v)
  then show ?thesis by (intro exI [of _ s]) simp
next
  case (Raised e)
  then show ?thesis by (intro exI [of _ s]) simp
qed (use assms(2) finish [of s t sm cap clears] in auto)

section \<open>A cleared table\<close>

text \<open>An event that is waited for but neither set nor in flight stays so.\<close>

definition lost :: "nat \<Rightarrow> nat \<Rightarrow> rm_state \<Rightarrow> bool" where
  "lost t e s \<longleftrightarrow> snd (threads s t) = Waiting e \<and> e \<notin> set_events s \<and> e \<notin> snd ` set (in_flight s) \<and> e < next_event s"

lemma snd_delete: "snd ` set (AList.delete k xs) \<subseteq> snd ` set xs"
  using set_delete_subset by fast

lemma map_of_snd: "map_of xs k = Some e \<Longrightarrow> e \<in> snd ` set xs"
  by (force dest: map_of_SomeD)

lemma lost_step:
  assumes "rm_step sm cap clears s s'" and "lost t e s"
  shows "lost t e s'"
proof -
  have rel: "lost t e (goto u pc (rm_release k s'))"
    if "lost t e s" "u \<noteq> t" "in_flight s' = in_flight s" "set_events s' = set_events s" "threads s' = threads s"
      "next_event s' = next_event s" for u pc k and s s' :: rm_state
    using that snd_delete [of k "in_flight s"] map_of_snd [of "in_flight s" k]
    by (auto simp: lost_def rm_release_def split: option.split)
  show ?thesis using assms
  proof (induction rule: rm_step.induct)
    case (enter s u key refresh)
    then have "u \<noteq> t" by (auto simp: lost_def)
    have up: "snd ` set (AList.update key n xs) \<subseteq> insert n (snd ` set xs)" for n and xs :: "(cache_key \<times> nat) list"
      using set_update_subset [of key n xs] by force
    moreover have "e \<notin> snd ` set (AList.update key (next_event s) (in_flight s))"
    proof
      assume "e \<in> snd ` set (AList.update key (next_event s) (in_flight s))"
      from subsetD [OF up this] enter(2) show False by (simp add: lost_def)
    qed
    ultimately show ?case
      using enter(2) \<open>u \<noteq> t\<close> unfolding rm_enter_def Let_def lost_def by (auto split: option.split simp del: image_iff)
  next
    case (wake s u f)
    then have "u \<noteq> t" by (auto simp: lost_def)
    with wake show ?case by (simp add: lost_def)
  next
    case (recheck s u)
    then have "u \<noteq> t" by (auto simp: lost_def)
    with recheck show ?case by (simp add: lost_def rm_recheck_def split: option.split)
  next
    case (compute s u)
    then have "u \<noteq> t" by (auto simp: lost_def)
    with compute show ?case by (simp add: lost_def rm_compute_def split: sum.split)
  next
    case (fail s u f)
    then have "u \<noteq> t" by (auto simp: lost_def)
    with fail show ?case by (simp add: rm_fail_def rel)
  next
    case (publish s u v)
    then have "u \<noteq> t" by (auto simp: lost_def)
    with publish show ?case by (simp add: rm_publish_def Let_def rel [of s])
  next
    case (clear s)
    then show ?case by (simp add: lost_def rm_clear_def)
  qed
qed

lemma lost_reach: "rm_reach sm cap clears s s' \<Longrightarrow> lost t e s \<Longrightarrow> lost t e s'"
  by (induction rule: rtranclp_induct) (auto intro: lost_step)

section \<open>Properties\<close>


text \<open>
  as long as nobody clears the cache no call is stuck: from every state a thread that is in a
  call can be brought to its return or exception, whatever it waits for.
\<close>

theorem summary_calls_finish:
  assumes "rm_reach (summary_of E disks) cache_max False rm_start s" and "snd (threads s t) \<noteq> Idle"
  shows "\<exists>s'. rm_reach (summary_of E disks) cache_max False s s' \<and> finished (snd (threads s' t))"
  by (rule call_finishes [OF awake_reach [OF assms(1)] assms(2)]) (simp add: awake_def rm_start_def)

text \<open>
  Clearing the cache while a summary is being computed loses a wake-up: a thread that joined
  the computation waits in every state that can follow.
\<close>

lemma clear_strands_waiter:
  "\<exists>s t e. rm_reach (summary_of E disks) cache_max True rm_start s \<and> snd (threads s t) = Waiting e \<and>
    {s'. rm_reach (summary_of E disks) cache_max True s s'} \<subseteq> {s'. snd (threads s' t) = Waiting e}"
proof -
  let ?k = "([], []) :: cache_key"
  let ?s1 = "rm_enter 0 ?k False rm_start" let ?s2 = "rm_enter 1 ?k False ?s1" let ?s3 = "rm_clear ?s2"
  let ?R = "rm_step (summary_of E disks) cache_max True"
  have 1: "?R rm_start ?s1" by (rule rm_step.enter) (simp add: rm_start_def)
  have 2: "?R ?s1 ?s2" by (rule rm_step.enter) (simp add: rm_start_def rm_enter_def Let_def)
  have 3: "?R ?s2 ?s3" by (rule rm_step.clear) simp
  have reach: "?R\<^sup>*\<^sup>* rm_start ?s3"
    by (rule rtranclp.rtrancl_into_rtrancl [OF rtranclp.rtrancl_into_rtrancl [OF r_into_rtranclp [of ?R, OF 1] 2] 3])
  have "lost 1 0 ?s3" by (simp add: lost_def rm_start_def rm_enter_def rm_clear_def Let_def)
  then have "snd (threads s' 1) = Waiting 0" if "?R\<^sup>*\<^sup>* ?s3 s'" for s'
    using lost_reach [OF that] by (simp add: lost_def)
  then have w: "{s'. ?R\<^sup>*\<^sup>* ?s3 s'} \<subseteq> {s'. snd (threads s' 1) = Waiting 0}" by blast
  then have "snd (threads ?s3 1) = Waiting 0" by blast
  with w reach show ?thesis by (intro exI conjI)
qed

text \<open>Two threads that ask for the same summary: the first is at work, the second waits.\<close>

definition demo_race :: rm_state where
  "demo_race = rm_enter 1 ([], []) False (rm_enter 0 ([], []) False rm_start)"

lemma demo_race_reach: "rm_reach sm cap clears rm_start demo_race"
proof -
  have 1: "rm_step sm cap clears rm_start (rm_enter 0 ([], []) False rm_start)"
    by (rule rm_step.enter) (simp add: rm_start_def)
  have "rm_step sm cap clears (rm_enter 0 ([], []) False rm_start) demo_race"
    unfolding demo_race_def by (rule rm_step.enter) (simp add: rm_start_def rm_enter_def Let_def)
  then show ?thesis by (rule rtranclp.rtrancl_into_rtrancl [OF r_into_rtranclp [of "rm_step sm cap clears", OF 1]])
qed


theorem summary_calls_finish_witness:
  "\<exists>s'. rm_reach (summary_of demo_env (\<lambda>_. [])) cache_max False demo_race s' \<and> finished (snd (threads s' 1))"
  by (rule summary_calls_finish [OF demo_race_reach])
     (simp add: demo_race_def rm_start_def rm_enter_def Let_def)

end
