(* ===== verification/Dit_Stats.thy ===== *)
theory Dit_Stats
  imports Dit_Cache Dit_Query
begin

text \<open>
  Statistics of a commit: \<open>src/dit/core/stats.py\<close>. The cache of row sizes is a state the
  operations pass on, as one caller at a time sees it: the workers that fill it in parallel ask for
  distinct rows, and their order only decides which rows a full cache drops. The size a zstd frame
  header announces is an argument \<open>frame_size\<close> of the first 16 bytes of a file; its error is any
  exception of the library.
\<close>

section \<open>The size of a row\<close>

text \<open>The cache, oldest entry first, and the rows whose computation has been announced and never ended.\<close>

record size_state =
  sz_cache :: "(cache_key \<times> nat option) list"
  sz_in_flight :: "cache_key list"

definition row_size_cache_max :: nat where
  "row_size_cache_max = 200000"

definition row_size :: "env \<Rightarrow> (bytes \<Rightarrow> nat option res) \<Rightarrow> disk \<Rightarrow> pystr \<Rightarrow> nat option res" where
  "row_size E frame_size d rh =
     bindE (object_path (str ''rows'') rh) (\<lambda>path.
       case map_of d path of
         None \<Rightarrow> Inr None
       | Some f \<Rightarrow>
           (case frame_size (take 16 (fdata f)) of
              Inr v \<Rightarrow> Inr v
            | Inl _ \<Rightarrow> bindE (store_read E d (str ''rows'') rh) (\<lambda>x. Inr (map_option length x))))"

text \<open>
  A second caller waits for the event of the first; an exception leaves the event registered and never
  set, so the next call for that row waits for ever.
\<close>

definition cached_row_size ::
  "env \<Rightarrow> (bytes \<Rightarrow> nat option res) \<Rightarrow> pystr \<Rightarrow> disk \<Rightarrow> pystr \<Rightarrow> size_state \<Rightarrow> size_state \<times> nat option res" where
  "cached_row_size E frame_size root d rh s =
     (let key = (root, rh) in
      case map_of (sz_cache s) key of
        Some v \<Rightarrow> (s\<lparr>sz_cache := AList.delete key (sz_cache s) @ [(key, v)]\<rparr>, Inr v)
      | None \<Rightarrow>
          if key \<in> set (sz_in_flight s) then (s, Inl Deadlock)
          else (case row_size E frame_size d rh of
              Inl x \<Rightarrow> (s\<lparr>sz_in_flight := sz_in_flight s @ [key]\<rparr>, Inl x)
            | Inr v \<Rightarrow> (s\<lparr>sz_cache := evict row_size_cache_max (AList.update key v (sz_cache s))\<rparr>, Inr v)))"

text \<open>\<open>executor.map\<close> over distinct rows: every row is asked for, also when one of them fails.\<close>

fun row_sizes ::
  "env \<Rightarrow> (bytes \<Rightarrow> nat option res) \<Rightarrow> pystr \<Rightarrow> disk \<Rightarrow> pystr list \<Rightarrow> size_state \<Rightarrow> size_state \<times> nat option res list" where
  "row_sizes E frame_size root d [] s = (s, [])"
| "row_sizes E frame_size root d (h # hs) s =
     (let (s1, r) = cached_row_size E frame_size root d h s; (s2, rs) = row_sizes E frame_size root d hs s1 in
      (s2, r # rs))"

definition gather_sizes :: "pystr list \<Rightarrow> nat option res list \<Rightarrow> nat option dict res" where
  "gather_sizes hashes results =
     (if Inl Deadlock \<in> set results then Inl Deadlock else bindE (mapE id results) (\<lambda>vs. Inr (zip hashes vs)))"

section \<open>One file\<close>

record file_stat =
  st_path :: pystr
  st_rows :: "int option"
  st_chars :: "int option"
  st_size :: "nat option"
  st_tokens :: "int option"
  st_avg_fields :: "(int \<times> int) option"
  st_langs :: "int dict option"
  st_has_sidecar :: bool

definition matches_path_prefix :: "pystr option \<Rightarrow> pystr \<Rightarrow> bool" where
  "matches_path_prefix clean_prefix path =
     (case clean_prefix of None \<Rightarrow> True | Some p \<Rightarrow> path = p \<or> py_startswith path (p @ [slash]))"

type_synonym selected_manifest = "pystr \<times> pystr \<times> pystr option \<times> manifest option"

definition select_manifest ::
  "env \<Rightarrow> disk \<Rightarrow> pystr option \<Rightarrow> pystr \<times> flat_entry \<Rightarrow> selected_manifest list res" where
  "select_manifest E d clean_prefix item =
     (let (path, obj_type, obj_hash, sidecar_hash) = item in
      if obj_type \<noteq> str ''manifest'' \<or> \<not> matches_path_prefix clean_prefix path then Inr []
      else bindE (read_manifest E d obj_hash) (\<lambda>x. Inr [(path, obj_hash, sidecar_hash, x)]))"

definition manifest_shape :: "bool \<Rightarrow> nat option dict \<Rightarrow> manifest option \<Rightarrow> int option \<times> nat option" where
  "manifest_shape include_size row_size_by_hash manifest =
     (case manifest of
        None \<Rightarrow> (None, None)
      | Some m \<Rightarrow>
          let n = Some (int (length (entries m)));
              sizes = map (\<lambda>e. case map_of row_size_by_hash (row_hash e) of None \<Rightarrow> None | Some v \<Rightarrow> v) (entries m) in
          if \<not> include_size then (n, None)
          else if None \<in> set sizes then (n, None)
          else (n, Some (sum_list (map the sizes))))"

definition stat_of_summary :: "pystr \<Rightarrow> nat option \<Rightarrow> summary_info \<Rightarrow> bool \<Rightarrow> file_stat" where
  "stat_of_summary path size_bytes s has_sidecar =
     \<lparr>st_path = path, st_rows = Some (sum_rows s), st_chars = Some (sum_chars s), st_size = size_bytes,
      st_tokens = Some (sum_tokens s), st_avg_fields = Some (avg_fields s), st_langs = Some (lang_distribution s),
      st_has_sidecar = has_sidecar\<rparr>"

text \<open>A file without a sidecar, or whose sidecar is not in the store.\<close>

definition stat_no_sidecar ::
  "env \<Rightarrow> pystr \<Rightarrow> disk \<Rightarrow> bool \<Rightarrow> pystr \<Rightarrow> pystr \<Rightarrow> int option \<Rightarrow> nat option \<Rightarrow> file_stat res" where
  "stat_no_sidecar E root d include_size path obj_hash manifest_row_count size_bytes =
     (if include_size then
        bindE (summary_of E (\<lambda>_. d) (root, obj_hash)) (\<lambda>s. Inr (stat_of_summary path size_bytes s False))
      else Inr \<lparr>st_path = path, st_rows = manifest_row_count, st_chars = None, st_size = size_bytes, st_tokens = None,
                st_avg_fields = None, st_langs = None, st_has_sidecar = False\<rparr>)"

definition file_stat_of ::
  "env \<Rightarrow> pystr \<Rightarrow> disk \<Rightarrow> bool \<Rightarrow> nat option dict \<Rightarrow> selected_manifest \<Rightarrow> file_stat res" where
  "file_stat_of E root d include_size row_size_by_hash sel =
     (let (path, obj_hash, sidecar_hash, manifest) = sel;
          (manifest_row_count, size_bytes) = manifest_shape include_size row_size_by_hash manifest in
      case sidecar_hash of
        None \<Rightarrow> stat_no_sidecar E root d include_size path obj_hash manifest_row_count size_bytes
      | Some sh \<Rightarrow> bindE (read_sidecar E d sh) (\<lambda>x. case x of
            None \<Rightarrow> stat_no_sidecar E root d include_size path obj_hash manifest_row_count size_bytes
          | Some sc \<Rightarrow> Inr (stat_of_summary path size_bytes (sidecar_summary sc) True)))"

section \<open>The report\<close>

record stat_totals =
  tt_file_count :: nat
  tt_files_with_sidecar :: nat
  tt_rows :: int
  tt_chars :: "int option"
  tt_size :: "nat option"
  tt_tokens :: "int option"
  tt_langs :: "int dict"

definition add_lang :: "pystr \<times> int \<Rightarrow> int dict \<Rightarrow> int dict" where
  "add_lang ln counts = AList.update (fst ln) ((case map_of counts (fst ln) of None \<Rightarrow> 0 | Some n \<Rightarrow> n) + snd ln) counts"

definition present :: "'a option list \<Rightarrow> 'a list" where
  "present xs = map the (filter (\<lambda>x. x \<noteq> None) xs)"

definition totals_of :: "bool \<Rightarrow> file_stat list \<Rightarrow> stat_totals" where
  "totals_of include_size files =
     (let with_metadata = filter (\<lambda>f. st_chars f \<noteq> None) files in
      \<lparr>tt_file_count = length files,
       tt_files_with_sidecar = length (filter st_has_sidecar files),
       tt_rows = sum_list (present (map st_rows files)),
       tt_chars = (if with_metadata = [] then None else Some (sum_list (map (\<lambda>f. the (st_chars f)) with_metadata))),
       tt_size = (if include_size then Some (sum_list (present (map st_size files))) else None),
       tt_tokens = (if with_metadata = [] then None else Some (sum_list (map (\<lambda>f. the (st_tokens f)) with_metadata))),
       tt_langs = fold add_lang (concat (map (\<lambda>f. case st_langs f of None \<Rightarrow> [] | Some l \<Rightarrow> l) with_metadata)) []\<rparr>)"

record stats_report =
  sp_commit :: pystr
  sp_files :: "file_stat list"
  sp_totals :: stat_totals

definition selected_rows :: "env \<Rightarrow> selected_manifest list \<Rightarrow> pystr list" where
  "selected_rows E sel =
     set_order E (concat (map (\<lambda>(_, _, _, m). case m of None \<Rightarrow> [] | Some m \<Rightarrow> map row_hash (entries m)) sel))"

definition select_manifests :: "env \<Rightarrow> disk \<Rightarrow> pystr \<Rightarrow> pystr option \<Rightarrow> selected_manifest list res" where
  "select_manifests E d commit_hash path_prefix =
     bindE (commit_flat E d commit_hash) (\<lambda>flat.
       let clean_prefix = (if truthy path_prefix then Some (strip_slash (the path_prefix)) else None) in
       bindE (mapE (select_manifest E d clean_prefix) (sorted_items flat)) (\<lambda>sels. Inr (concat sels)))"

definition repo_stats ::
  "env \<Rightarrow> (bytes \<Rightarrow> nat option res) \<Rightarrow> pystr \<Rightarrow> disk \<Rightarrow> pystr \<Rightarrow> pystr option \<Rightarrow> bool \<Rightarrow> size_state \<Rightarrow>
     size_state \<times> stats_report res" where
  "repo_stats E frame_size root d commit_hash path_prefix include_size s =
     (case select_manifests E d commit_hash path_prefix of
        Inl x \<Rightarrow> (s, Inl x)
      | Inr sel \<Rightarrow>
          let hashes = selected_rows E sel;
              (s1, results) = (if include_size then row_sizes E frame_size root d hashes s else (s, [])) in
          (s1, bindE (if include_size then gather_sizes hashes results else Inr []) (\<lambda>sizes.
               bindE (mapE (file_stat_of E root d include_size sizes) sel) (\<lambda>files.
                 Inr \<lparr>sp_commit = commit_hash, sp_files = files, sp_totals = totals_of include_size files\<rparr>))))"

section \<open>Comparing two commits\<close>

record stat_delta =
  dl_rows :: int
  dl_chars :: int
  dl_tokens :: int

record compared_file =
  cf_path :: pystr
  cf_old :: file_stat
  cf_new :: file_stat
  cf_delta :: stat_delta

definition delta_of :: "file_stat \<Rightarrow> file_stat \<Rightarrow> stat_delta" where
  "delta_of old_f new_f =
     \<lparr>dl_rows = the (st_rows new_f) - the (st_rows old_f), dl_chars = the (st_chars new_f) - the (st_chars old_f),
      dl_tokens = the (st_tokens new_f) - the (st_tokens old_f)\<rparr>"

definition by_path :: "file_stat list \<Rightarrow> file_stat dict" where
  "by_path files = dict_of (map (\<lambda>f. (st_path f, f)) files)"

definition compared_files :: "file_stat list \<Rightarrow> file_stat list \<Rightarrow> compared_file list" where
  "compared_files old_files new_files =
     (let old_by_path = by_path old_files; new_by_path = by_path new_files;
          all_paths = sort (filter (\<lambda>p. p \<in> set (map fst new_by_path)) (map fst old_by_path)) in
      concat (map (\<lambda>path.
        let old_f = the (map_of old_by_path path); new_f = the (map_of new_by_path path) in
        if \<not> st_has_sidecar old_f \<or> \<not> st_has_sidecar new_f then []
        else [\<lparr>cf_path = path, cf_old = old_f, cf_new = new_f, cf_delta = delta_of old_f new_f\<rparr>]) all_paths))"

record stats_comparison =
  sc_commit1 :: pystr
  sc_commit2 :: pystr
  sc_files :: "compared_file list"
  sc_totals_delta :: stat_delta

definition compare_reports :: "pystr \<Rightarrow> pystr \<Rightarrow> stats_report \<Rightarrow> stats_report \<Rightarrow> stats_comparison" where
  "compare_reports commit1 commit2 old_result new_result =
     (let files = compared_files (sp_files old_result) (sp_files new_result) in
      \<lparr>sc_commit1 = commit1, sc_commit2 = commit2, sc_files = files,
       sc_totals_delta = \<lparr>dl_rows = sum_list (map (\<lambda>f. dl_rows (cf_delta f)) files),
         dl_chars = sum_list (map (\<lambda>f. dl_chars (cf_delta f)) files),
         dl_tokens = sum_list (map (\<lambda>f. dl_tokens (cf_delta f)) files)\<rparr>\<rparr>)"

definition compare_stats ::
  "env \<Rightarrow> (bytes \<Rightarrow> nat option res) \<Rightarrow> pystr \<Rightarrow> disk \<Rightarrow> pystr \<Rightarrow> pystr \<Rightarrow> pystr option \<Rightarrow> size_state \<Rightarrow>
     size_state \<times> stats_comparison res" where
  "compare_stats E frame_size root d commit1 commit2 path_prefix s =
     (case repo_stats E frame_size root d commit1 path_prefix True s of
        (s1, Inl x) \<Rightarrow> (s1, Inl x)
      | (s1, Inr old_result) \<Rightarrow>
          (case repo_stats E frame_size root d commit2 path_prefix True s1 of
             (s2, Inl x) \<Rightarrow> (s2, Inl x)
           | (s2, Inr new_result) \<Rightarrow> (s2, Inr (compare_reports commit1 commit2 old_result new_result))))"

section \<open>Sizes come from the rows\<close>

definition true_size :: "env \<Rightarrow> disk \<Rightarrow> pystr \<Rightarrow> nat \<Rightarrow> bool" where
  "true_size E d rh n \<longleftrightarrow> (\<exists>b. store_read E d (str ''rows'') rh = Inr (Some b) \<and> length b = n)"

text \<open>What pyzstd documents: a size a frame header announces is the size of the content.\<close>

definition frames_ok :: "env \<Rightarrow> (bytes \<Rightarrow> nat option res) \<Rightarrow> disk \<Rightarrow> bool" where
  "frames_ok E frame_size d \<longleftrightarrow>
     (\<forall>pf \<in> set d. \<forall>n. frame_size (take 16 (fdata (snd pf))) = Inr (Some n) \<longrightarrow>
        (\<exists>b. zdecompress E (fdata (snd pf)) = Some b \<and> length b = n))"

definition cache_true :: "env \<Rightarrow> pystr \<Rightarrow> disk \<Rightarrow> size_state \<Rightarrow> bool" where
  "cache_true E root d s \<longleftrightarrow> (\<forall>kv \<in> set (sz_cache s). fst (fst kv) = root \<longrightarrow> (\<forall>n. snd kv = Some n \<longrightarrow> true_size E d (snd (fst kv)) n))"

lemma row_size_true:
  assumes "frames_ok E frame_size d" and "row_size E frame_size d rh = Inr (Some n)"
  shows "true_size E d rh n"
proof -
  from assms(2) obtain path f where path: "object_path (str ''rows'') rh = Inr path" "map_of d path = Some f"
    and r: "(case frame_size (take 16 (fdata f)) of Inr v \<Rightarrow> Inr v
      | Inl _ \<Rightarrow> bindE (store_read E d (str ''rows'') rh) (\<lambda>x. Inr (map_option length x))) = Inr (Some n)"
    by (auto simp: row_size_def bindE_eq_Inr split: option.splits)
  show ?thesis
  proof (cases "frame_size (take 16 (fdata f))")
    case (Inr v)
    with r have "frame_size (take 16 (fdata f)) = Inr (Some n)" by simp
    with assms(1) map_of_SomeD [OF path(2)] obtain b where "zdecompress E (fdata f) = Some b" "length b = n"
      unfolding frames_ok_def by fastforce
    with path show ?thesis by (simp add: true_size_def store_read_def)
  next
    case (Inl x)
    with r show ?thesis by (auto simp: true_size_def bindE_eq_Inr)
  qed
qed

lemma set_evict: "set (evict n c) \<subseteq> set c"
  by (induction c) auto

lemma cache_true_subset: "cache_true E root d s \<Longrightarrow> set (sz_cache s') \<subseteq> set (sz_cache s) \<Longrightarrow> cache_true E root d s'"
  by (auto simp: cache_true_def)

lemma cached_row_size_true:
  assumes "frames_ok E frame_size d" "cache_true E root d s" "cached_row_size E frame_size root d rh s = (s', r)"
  shows "cache_true E root d s' \<and> (\<forall>n. r = Inr (Some n) \<longrightarrow> true_size E d rh n)"
proof (cases "map_of (sz_cache s) (root, rh)")
  case None
  have "sz_cache s' = sz_cache s \<and> (\<exists>x. r = Inl x) \<or> (\<exists>v. row_size E frame_size d rh = Inr v \<and> r = Inr v \<and>
      sz_cache s' = evict row_size_cache_max (AList.update (root, rh) v (sz_cache s)))"
    using assms(3) None by (cases "row_size E frame_size d rh") (auto simp: cached_row_size_def Let_def split: if_splits, metis)
  then consider x where "sz_cache s' = sz_cache s" "r = Inl x" | v where "row_size E frame_size d rh = Inr v" "r = Inr v"
      "sz_cache s' = evict row_size_cache_max (AList.update (root, rh) v (sz_cache s))" by blast
  then show ?thesis
  proof cases
    case (2 v)
    have t: "\<forall>n. v = Some n \<longrightarrow> true_size E d rh n" using row_size_true [OF assms(1)] 2(1) by blast
    have "set (sz_cache s') \<subseteq> insert ((root, rh), v) (set (sz_cache s))"
      unfolding 2(3) using set_evict set_update_subset by (rule subset_trans)
    moreover have "cache_true E root d (s\<lparr>sz_cache := ((root, rh), v) # sz_cache s\<rparr>)" using assms(2) t by (simp add: cache_true_def)
    ultimately have "cache_true E root d s'" using cache_true_subset by fastforce
    with t 2(2) show ?thesis by blast
  qed (use assms(2) in \<open>simp_all add: cache_true_def\<close>)
next
  case (Some w)
  then have mem: "((root, rh), w) \<in> set (sz_cache s)" by (rule map_of_SomeD)
  from Some assms(3) have r: "r = Inr w" "sz_cache s' = AList.delete (root, rh) (sz_cache s) @ [((root, rh), w)]"
    by (auto simp: cached_row_size_def Let_def)
  have "set (sz_cache s') \<subseteq> set (sz_cache s)"
    using mem set_delete_subset [of "(root, rh)" "sz_cache s"] by (auto simp: r(2))
  moreover have "\<forall>n. w = Some n \<longrightarrow> true_size E d rh n"
    using assms(2) mem unfolding cache_true_def by (metis fst_conv snd_conv)
  ultimately show ?thesis using cache_true_subset [OF assms(2)] r(1) by simp
qed

lemma row_sizes_true:
  assumes "frames_ok E frame_size d"
  shows "row_sizes E frame_size root d hs s = (s', rs) \<Longrightarrow> cache_true E root d s \<Longrightarrow>
    cache_true E root d s' \<and> list_all2 (\<lambda>h r. \<forall>n. r = Inr (Some n) \<longrightarrow> true_size E d h n) hs rs"
proof (induction hs arbitrary: s rs)
  case (Cons h hs)
  obtain s1 r where c: "cached_row_size E frame_size root d h s = (s1, r)" by fastforce
  obtain s2 rs2 where f: "row_sizes E frame_size root d hs s1 = (s2, rs2)" by fastforce
  have s': "s' = s2" "rs = r # rs2" using Cons.prems(1) by (simp_all add: c f)
  note t = cached_row_size_true [OF assms Cons.prems(2) c]
  from Cons.IH [OF f [unfolded s'(1) [symmetric]] conjunct1 [OF t]] t show ?case by (simp add: s')
qed simp

lemma gather_true:
  assumes "gather_sizes hs rs = Inr sizes" and "list_all2 (\<lambda>h r. \<forall>n. r = Inr (Some n) \<longrightarrow> true_size E d h n) hs rs"
    and "map_of sizes h = Some (Some n)"
  shows "true_size E d h n"
proof -
  from assms(1) obtain vs where vs: "mapE id rs = Inr vs" and sizes: "sizes = zip hs vs"
    by (auto simp: gather_sizes_def bindE_eq_Inr split: if_splits)
  have "(h, Some n) \<in> set (zip hs vs)" using map_of_SomeD [OF assms(3)] by (simp add: sizes)
  then obtain i where i: "i < length hs" "i < length vs" "hs ! i = h" "vs ! i = Some n" by (auto simp: in_set_zip)
  have "list_all2 (\<lambda>r v. r = Inr v) rs vs" using vs by (simp add: mapE_eq_Inr)
  then have "rs ! i = Inr (Some n)" using i by (simp add: list_all2_conv_all_nth)
  with assms(2) i show ?thesis by (auto simp: list_all2_conv_all_nth)
qed

text \<open>The size of a file is known when all its rows are, and then it is their sum.\<close>

lemma manifest_shape_size:
  assumes "manifest_shape True sizes (Some m) = (n, Some k)"
    and "\<forall>h n. map_of sizes h = Some (Some n) \<longrightarrow> true_size E d h n"
  shows "\<exists>ks. list_all2 (\<lambda>e k. true_size E d (row_hash e) k) (entries m) ks \<and> k = sum_list ks"
proof -
  let ?f = "\<lambda>e. case map_of sizes (row_hash e) of None \<Rightarrow> None | Some v \<Rightarrow> v"
  from assms(1) have none: "None \<notin> ?f ` set (entries m)" and k: "k = sum_list (map (\<lambda>e. the (?f e)) (entries m))"
    by (auto simp: manifest_shape_def Let_def comp_def split: if_splits)
  have "true_size E d (row_hash e) (the (?f e))" if "e \<in> set (entries m)" for e
  proof -
    have "?f e \<noteq> None" using none that by force
    then obtain j where "map_of sizes (row_hash e) = Some (Some j)" by (auto split: option.splits)
    with assms(2) show ?thesis by simp
  qed
  then show ?thesis using k by (intro exI [of _ "map (\<lambda>e. the (?f e)) (entries m)"]) (simp add: list_all2_conv_all_nth)
qed

section \<open>Totals are consistent\<close>

lemma summary_langs:
  "wf_dict (lang_distribution (sidecar_summary s)) \<and> dict_total (lang_distribution (sidecar_summary s)) = sum_rows (sidecar_summary s)"
  by (auto simp: sidecar_summary_def Let_def wf_count_lang count_lang_total) (simp add: dict_total_def)

lemma add_lang_total: "wf_dict c \<Longrightarrow> dict_total (fold add_lang lns c) = dict_total c + sum_list (map snd lns) \<and> wf_dict (fold add_lang lns c)"
  by (induction lns arbitrary: c) (auto simp: add_lang_def dict_total_update split: option.split)

definition stat_ok :: "file_stat \<Rightarrow> bool" where
  "stat_ok f \<longleftrightarrow> (\<exists>r c t l. st_rows f = Some r \<and> st_chars f = Some c \<and> st_tokens f = Some t \<and> st_langs f = Some l \<and> dict_total l = r)"

lemma stat_of_summary_ok: "stat_ok (stat_of_summary path z (sidecar_summary s) b)"
  using summary_langs [of s] by (simp add: stat_ok_def stat_of_summary_def)

lemma file_stat_ok:
  assumes "file_stat_of E root d True sizes sel = Inr f"
  shows "stat_ok f \<and> st_path f = fst sel \<and> st_size f = snd (manifest_shape True sizes (snd (snd (snd sel))))"
proof -
  obtain path h sc m where sel: "sel = (path, h, sc, m)" by (cases sel)
  obtain n z where shape: "manifest_shape True sizes m = (n, z)" by (cases "manifest_shape True sizes m")
  have none: "stat_ok g \<and> st_path g = path \<and> st_size g = z" if "stat_no_sidecar E root d True path h n z = Inr g" for g
    using that stat_of_summary_ok by (auto simp: stat_no_sidecar_def summary_of_def bindE_eq_Inr stat_of_summary_def)
  show ?thesis
    using assms none stat_of_summary_ok
    by (auto simp: sel shape file_stat_of_def bindE_eq_Inr split: option.splits) (auto simp: stat_of_summary_def)
qed

lemma totals_ok:
  assumes "\<forall>f \<in> set files. stat_ok f"
  shows "dict_total (tt_langs (totals_of b files)) = tt_rows (totals_of b files)"
proof -
  have all: "filter (\<lambda>f. st_chars f \<noteq> None) files = files" using assms by (auto simp: stat_ok_def intro!: filter_True)
  have "sum_list (map snd (concat (map (\<lambda>f. case st_langs f of None \<Rightarrow> [] | Some l \<Rightarrow> l) files))) = sum_list (present (map st_rows files))"
    using assms by (induction files) (auto simp: stat_ok_def present_def dict_total_def)
  then show ?thesis using add_lang_total [of "[]"] by (simp add: totals_of_def Let_def all [simplified] dict_total_def)
qed

lemma concat_paths:
  assumes "mapE (select_manifest E d clean) items = Inr sels"
  shows "map fst (concat sels) = map fst (filter (\<lambda>(path, ty, _). ty = str ''manifest'' \<and> matches_path_prefix clean path) items)"
    and "(path, h, sc, x) \<in> set (concat sels) \<Longrightarrow> read_manifest E d h = Inr x \<and> (path, str ''manifest'', h, sc) \<in> set items"
  using assms
  by (induction items arbitrary: sels) (fastforce simp: bindE_eq_Inr select_manifest_def split: if_splits)+

text \<open>
  The statistics of a commit, with sizes: there is one entry for each selected data file, in the
  order of the sorted paths; a size that is reported for a file is the sum of the sizes of the rows its
  manifest names; and the totals are consistent: the language counts add up to the rows. A cache that
  holds only true sizes stays so.
\<close>

theorem repo_stats_exact:
  assumes "repo_stats E frame_size root d commit_hash path_prefix True s0 = (s, Inr r)"
    and "frames_ok E frame_size d" and "cache_true E root d s0"
  shows "\<exists>flat. commit_flat E d commit_hash = Inr flat \<and>
     map st_path (sp_files r) = map fst (filter (\<lambda>(path, ty, _). ty = str ''manifest'' \<and>
        matches_path_prefix (if truthy path_prefix then Some (strip_slash (the path_prefix)) else None) path) (sorted_items flat)) \<and>
     (\<forall>f \<in> set (sp_files r). \<forall>n. st_size f = Some n \<longrightarrow>
        (\<exists>h sc m ks. (st_path f, str ''manifest'', h, sc) \<in> set flat \<and> read_manifest E d h = Inr (Some m) \<and>
           list_all2 (\<lambda>e k. true_size E d (row_hash e) k) (entries m) ks \<and> n = sum_list ks)) \<and>
     tt_file_count (sp_totals r) = length (sp_files r) \<and>
     dict_total (tt_langs (sp_totals r)) = tt_rows (sp_totals r) \<and> cache_true E root d s"
proof -
  let ?clean = "if truthy path_prefix then Some (strip_slash (the path_prefix)) else None"
  obtain sel where sel: "select_manifests E d commit_hash path_prefix = Inr sel"
    using assms(1) by (cases "select_manifests E d commit_hash path_prefix") (auto simp: repo_stats_def)
  then obtain flat sels where flat: "commit_flat E d commit_hash = Inr flat"
    and sels: "mapE (select_manifest E d ?clean) (sorted_items flat) = Inr sels" and cs: "sel = concat sels"
    by (auto simp: select_manifests_def Let_def bindE_eq_Inr)
  obtain s1 rs where rs: "row_sizes E frame_size root d (selected_rows E sel) s0 = (s1, rs)" by fastforce
  from assms(1) obtain sizes files where s: "s = s1" and sizes: "gather_sizes (selected_rows E sel) rs = Inr sizes"
    and files: "mapE (file_stat_of E root d True sizes) (concat sels) = Inr files"
    and r: "r = \<lparr>sp_commit = commit_hash, sp_files = files, sp_totals = totals_of True files\<rparr>"
    by (auto simp: repo_stats_def sel rs cs [symmetric] Let_def bindE_eq_Inr)
  from row_sizes_true [OF assms(2) rs assms(3)] have c: "cache_true E root d s"
    and z: "\<forall>h n. map_of sizes h = Some (Some n) \<longrightarrow> true_size E d h n" using gather_true [OF sizes] by (auto simp: s)
  have paths: "map st_path files = map fst (concat sels)"
    by (rule mapE_keys [OF files]) (use file_stat_ok in blast)
  have ok: "\<forall>f \<in> set files. stat_ok f" using mapE_nth [OF files] file_stat_ok by blast
  have size: "\<exists>h sc m ks. (st_path f, str ''manifest'', h, sc) \<in> set flat \<and> read_manifest E d h = Inr (Some m) \<and>
           list_all2 (\<lambda>e k. true_size E d (row_hash e) k) (entries m) ks \<and> n = sum_list ks"
    if f: "f \<in> set files" "st_size f = Some n" for f n
  proof -
    obtain t where t: "t \<in> set (concat sels)" "file_stat_of E root d True sizes t = Inr f"
      using mapE_nth [OF files f(1)] by blast
    obtain path h sc x where tt: "t = (path, h, sc, x)" by (cases t)
    from file_stat_ok [OF t(2)] f(2) have path: "st_path f = path" and shape: "snd (manifest_shape True sizes x) = Some n"
      by (simp_all add: tt)
    from shape obtain m where m: "x = Some m" by (cases x) (auto simp: manifest_shape_def)
    obtain k where "manifest_shape True sizes (Some m) = (k, Some n)" using shape m by (cases "manifest_shape True sizes (Some m)") auto
    from manifest_shape_size [OF this z] concat_paths(2) [OF sels, of path h sc x] t(1) show ?thesis
      unfolding tt m path by (auto simp: sorted_items_def)
  qed
  show ?thesis
    using flat paths concat_paths(1) [OF sels] size c totals_ok [OF ok, of True] by (simp add: r totals_of_def Let_def)
qed

definition no_sizes :: size_state where
  "no_sizes = \<lparr>sz_cache = [], sz_in_flight = []\<rparr>"

theorem repo_stats_exact_witness:
  "\<exists>r s. repo_stats demo_env (\<lambda>_. Inl ZstdError) [] data_disk data_head None True no_sizes = (s, Inr r) \<and>
     dict_total (tt_langs (sp_totals r)) = tt_rows (sp_totals r) \<and> length (sp_files r) = 1"
proof -
  let ?fs = "\<lambda>_ :: bytes. Inl ZstdError :: nat option res"
  let ?mh = "demo_digest (serialize_manifest demo_manifest)"
  let ?sel = "[(str ''t'', ?mh, None, Some demo_manifest)]"
  have size: "row_size demo_env ?fs data_disk (demo_digest [123, 125]) = Inr (Some 2)"
  proof -
    from data_read(1) obtain p f where "object_path (str ''rows'') (demo_digest [123, 125]) = Inr p" "map_of data_disk p = Some f"
      by (auto simp: store_read_def bindE_eq_Inr split: option.splits)
    with data_read(1) show ?thesis by (simp add: row_size_def)
  qed
  have sel: "select_manifests demo_env data_disk data_head None = Inr ?sel"
    by (simp add: select_manifests_def data_commit_flat sorted_items_def select_manifest_def matches_path_prefix_def data_read Let_def)
  have rows: "selected_rows demo_env ?sel = [demo_digest [123, 125]]" by (simp add: selected_rows_def data_entries)
  obtain s where sizes: "row_sizes demo_env ?fs [] data_disk [demo_digest [123, 125]] no_sizes = (s, [Inr (Some 2)])"
    by (simp add: cached_row_size_def size row_size_cache_max_def no_sizes_def Let_def)
  obtain s' where s': "summary_of demo_env (\<lambda>_. data_disk) ([], ?mh) = Inr s'"
    by (simp add: summary_of_def compute_sidecar_def data_read must_def data_entries sidecar_row_def demo_object Let_def)
  have gather: "gather_sizes [demo_digest [123, 125]] [Inr (Some 2)] = Inr [(demo_digest [123, 125], Some 2)]"
    by (simp add: gather_sizes_def)
  have shape: "manifest_shape True [(demo_digest [123, 125], Some 2)] (Some demo_manifest) = (Some 1, Some 2)"
    by (simp add: manifest_shape_def data_entries Let_def)
  obtain r where r: "repo_stats demo_env ?fs [] data_disk data_head None True no_sizes = (s, Inr r)" "length (sp_files r) = 1"
    by (simp add: repo_stats_def sel rows sizes gather shape file_stat_of_def stat_no_sidecar_def s' Let_def
        del: row_sizes.simps)
  have "frames_ok demo_env ?fs data_disk" "cache_true demo_env [] data_disk no_sizes"
    by (simp_all add: frames_ok_def cache_true_def no_sizes_def)
  from repo_stats_exact [OF r(1) this] r show ?thesis by blast
qed

text \<open>The cache also keeps that a row was missing, and answers so after the row has arrived.\<close>

theorem row_size_stale:
  assumes "cached_row_size E frame_size root d rh no_sizes = (s, Inr None)"
  shows "\<exists>s'. cached_row_size E frame_size root d' rh s = (s', Inr None)"
  using assms by (auto simp: cached_row_size_def Let_def no_sizes_def row_size_cache_max_def split: sum.splits)

text \<open>Asking twice for a malformed hash never returns.\<close>

theorem row_size_hangs:
  assumes "\<not> hash_re rh"
  shows "\<exists>s. cached_row_size E frame_size root d rh no_sizes = (s, Inl ValueError) \<and>
    cached_row_size E frame_size root d rh s = (s, Inl Deadlock)"
  using assms by (simp add: cached_row_size_def Let_def no_sizes_def row_size_def object_path_def)

end
