(* ===== verification/Dit_Tables.thy ===== *)
theory Dit_Tables
  imports Dit_Merge Dit_Glob
begin

text \<open>
  The database of the server and the handlers that only work on it: \<open>src/dit/server/models.py\<close>,
  \<open>auth.py\<close>, and the routes of repositories, tokens, branch protection, reviews, reviewer rules,
  comments, webhooks and checks.

  A table is the list of its rows, in the order a \<open>SELECT\<close> without \<open>ORDER BY\<close> returns them; a
  unique or primary key that would be violated, or a foreign key to a token that is not there, is an
  \<open>IntegrityError\<close>. The database picks the id of a new row: one counter serves
  all tables. A handler that raises before its commit leaves the database as it was. Time stamps,
  the length limits of columns and the validation of request bodies are left out, except for the
  literal types whose values matter.
\<close>

section \<open>Tables\<close>

definition one_or_none :: "'a list \<Rightarrow> 'a option res" where
  "one_or_none xs = (case xs of [] \<Rightarrow> Inr None | [x] \<Rightarrow> Inr (Some x) | _ \<Rightarrow> Inl MultipleResultsFound)"

definition insert_row :: "('a \<Rightarrow> 'k) \<Rightarrow> 'a \<Rightarrow> 'a list \<Rightarrow> 'a list res" where
  "insert_row key x t = (if key x \<in> key ` set t then Inl IntegrityError else Inr (t @ [x]))"

definition alter_rows :: "('a \<Rightarrow> bool) \<Rightarrow> ('a \<Rightarrow> 'a) \<Rightarrow> 'a list \<Rightarrow> 'a list" where
  "alter_rows P f t = map (\<lambda>x. if P x then f x else x) t"

definition update_rows :: "('a \<Rightarrow> 'k) \<Rightarrow> ('a \<Rightarrow> bool) \<Rightarrow> ('a \<Rightarrow> 'a) \<Rightarrow> 'a list \<Rightarrow> 'a list res" where
  "update_rows key P f t =
     (let t' = alter_rows P f t in if distinct (map key t') then Inr t' else Inl IntegrityError)"

lemma filter_key: "distinct (map key t) \<Longrightarrow> x \<in> set t \<Longrightarrow> filter (\<lambda>y. key y = key x) t = [x]"
proof (induction t)
  case (Cons y t)
  show ?case
  proof (cases "y = x")
    case True
    with Cons.prems(1) have "filter (\<lambda>z. key z = key x) t = []" by (auto simp: filter_empty_conv image_iff)
    with True show ?thesis by simp
  next
    case False
    with Cons.prems have "x \<in> set t" "key y \<noteq> key x" by auto
    with Cons show ?thesis by simp
  qed
qed simp

text \<open>
  What the handlers rely on: a table is a field of the database, and a key is unique in it.
\<close>

locale table =
  fixes rows :: "'db \<Rightarrow> 'row list"
    and upd :: "('row list \<Rightarrow> 'row list) \<Rightarrow> 'db \<Rightarrow> 'db"
    and key :: "'row \<Rightarrow> 'key"
  assumes rows_upd [simp]: "rows (upd f s) = f (rows s)"
begin

definition unique :: "'db \<Rightarrow> bool" where
  "unique s \<longleftrightarrow> distinct (map key (rows s))"

lemma select_key: "unique s \<Longrightarrow> x \<in> set (rows s) \<Longrightarrow> filter (\<lambda>y. key y = key x) (rows s) = [x]"
  unfolding unique_def by (rule filter_key)

lemma select_none: "k \<notin> key ` set (rows s) \<Longrightarrow> filter (\<lambda>y. key y = k) (rows s) = []"
  by (auto simp: filter_empty_conv)

lemma select_one:
  assumes "unique s"
  shows "one_or_none (filter (\<lambda>y. key y = k) (rows s)) = Inr r \<longleftrightarrow>
    (case r of None \<Rightarrow> k \<notin> key ` set (rows s) | Some x \<Rightarrow> x \<in> set (rows s) \<and> key x = k)"
proof (cases "k \<in> key ` set (rows s)")
  case True
  then obtain x where x: "x \<in> set (rows s)" "key x = k" by auto
  then have f: "filter (\<lambda>y. key y = k) (rows s) = [x]" using select_key [OF assms] by blast
  have u: "y \<in> set (rows s) \<and> key y = k \<longleftrightarrow> y = x" for y
    using f by (metis (mono_tags, lifting) empty_iff empty_set mem_Collect_eq set_ConsD set_filter x)
  show ?thesis unfolding f using True u by (cases r) (auto simp: one_or_none_def)
next
  case False
  show ?thesis unfolding select_none [OF False] using False by (cases r) (auto simp: one_or_none_def)
qed

lemma select_one_total: "unique s \<Longrightarrow> \<exists>r. one_or_none (filter (\<lambda>y. key y = k) (rows s)) = Inr r"
  using select_key select_none [of k s] by (cases "k \<in> key ` set (rows s)") (auto simp: one_or_none_def)

lemma insert_unique: "unique s \<Longrightarrow> insert_row key x (rows s) = Inr t \<Longrightarrow> unique (upd (\<lambda>_. t) s)"
  by (auto simp: unique_def insert_row_def split: if_splits)

lemma filter_unique: "unique s \<Longrightarrow> unique (upd (filter P) s)"
  by (simp add: unique_def distinct_map_filter)

lemma update_unique: "update_rows key P f (rows s) = Inr t \<Longrightarrow> unique (upd (\<lambda>_. t) s)"
  by (auto simp: unique_def update_rows_def Let_def split: if_splits)

lemma alter_unique: "unique s \<Longrightarrow> (\<And>x. key (f x) = key x) \<Longrightarrow> unique (upd (alter_rows P f) s)"
  by (simp add: unique_def alter_rows_def o_def if_distrib cong: if_cong)

end

section \<open>The rows\<close>

record repo_row =
  rp_id :: int
  rp_name :: pystr

record ref_row =
  rf_repo :: int
  rf_name :: pystr
  rf_target :: pystr

record token_row =
  tk_id :: "int option"
  tk_hash :: pystr
  tk_label :: pystr
  tk_scope :: "int option"
  tk_permissions :: pystr
  tk_role :: pystr
  tk_expires :: "int option"

record hook_row =
  wh_id :: int
  wh_repo :: int
  wh_url :: pystr
  wh_secret :: pystr
  wh_events :: pystr
  wh_active :: bool

record pull_row =
  pl_id :: int
  pl_repo :: int
  pl_number :: int
  pl_title :: pystr
  pl_author :: pystr
  pl_status :: pystr
  pl_source_ref :: pystr
  pl_target_ref :: pystr
  pl_base :: pystr
  pl_source :: pystr
  pl_target :: pystr
  pl_merge :: "pystr option"
  pl_mergeable :: "bool option"
  pl_conflicts :: "(pystr \<times> conflict_type) list"
  pl_added :: nat
  pl_removed :: nat
  pl_refreshed :: nat

record comment_row =
  cm_id :: int
  cm_pull :: int
  cm_author :: pystr
  cm_body :: pystr
  cm_file :: "pystr option"
  cm_row :: "pystr option"
  cm_field :: "pystr option"
  cm_change :: "pystr option"

record protection_row =
  pt_id :: int
  pt_repo :: int
  pt_pattern :: pystr
  pt_require_pr :: bool
  pt_approvals :: int
  pt_block_force :: bool
  pt_auto_delete :: bool

record approval_row =
  ap_id :: int
  ap_repo :: int
  ap_pull :: int
  ap_token :: int
  ap_status :: pystr

record reviewer_row =
  rv_id :: int
  rv_repo :: int
  rv_pattern :: pystr
  rv_token :: "int option"

record ci_row =
  ci_id :: int
  ci_repo :: int
  ci_commit :: pystr
  ci_name :: pystr
  ci_status :: pystr
  ci_details :: "json option"

record db =
  db_repos :: "repo_row list"
  db_refs :: "ref_row list"
  db_tokens :: "token_row list"
  db_hooks :: "hook_row list"
  db_pulls :: "pull_row list"
  db_comments :: "comment_row list"
  db_protections :: "protection_row list"
  db_approvals :: "approval_row list"
  db_reviewers :: "reviewer_row list"
  db_checks :: "ci_row list"
  db_next :: int

type_synonym 'a handler = "db \<Rightarrow> (db \<times> 'a) res"

interpretation repos: table db_repos db_repos_update rp_name by unfold_locales simp
interpretation refs: table db_refs db_refs_update "\<lambda>r. (rf_repo r, rf_name r)" by unfold_locales simp
interpretation tokens: table db_tokens db_tokens_update tk_hash by unfold_locales simp
interpretation pulls: table db_pulls db_pulls_update "\<lambda>p. (pl_repo p, pl_number p)" by unfold_locales simp
interpretation protections: table db_protections db_protections_update "\<lambda>p. (pt_repo p, pt_pattern p)" by unfold_locales simp
interpretation approvals: table db_approvals db_approvals_update "\<lambda>a. (ap_repo a, ap_pull a, ap_token a)" by unfold_locales simp
interpretation checks: table db_checks db_checks_update "\<lambda>c. (ci_repo c, ci_commit c, ci_name c)" by unfold_locales simp

definition db_ok :: "db \<Rightarrow> bool" where
  "db_ok s \<longleftrightarrow> repos.unique s \<and> refs.unique s \<and> tokens.unique s \<and> pulls.unique s \<and>
     protections.unique s \<and> approvals.unique s \<and> checks.unique s"

definition bump :: "db \<Rightarrow> db" where
  "bump s = s\<lparr>db_next := db_next s + 1\<rparr>"

section \<open>Authentication\<close>

definition removeprefix :: "pystr \<Rightarrow> pystr \<Rightarrow> pystr" where
  "removeprefix p s = (if py_startswith s p then drop (length p) s else s)"

definition role_levels :: "nat dict" where
  "role_levels = [(str ''reader'', 10), (str ''reviewer'', 20), (str ''committer'', 30), (str ''maintainer'', 40),
     (str ''admin'', 50), (str ''owner'', 60)]"

definition legacy_perm_map :: "pystr dict" where
  "legacy_perm_map = [(str ''read'', str ''reader''), (str ''push'', str ''committer''), (str ''admin'', str ''admin'')]"

definition level_of :: "pystr \<Rightarrow> nat" where
  "level_of role = (case map_of role_levels role of Some n \<Rightarrow> n | None \<Rightarrow> 10)"

definition token_level :: "token_row \<Rightarrow> nat" where
  "token_level tok =
     (if tk_role tok \<noteq> [] \<and> tk_role tok \<noteq> str ''reader'' then level_of (tk_role tok)
      else case map_of legacy_perm_map (tk_permissions tok) of Some role \<Rightarrow> level_of role | None \<Rightarrow> 10)"

definition required_level :: "pystr \<Rightarrow> nat res" where
  "required_level required =
     (case map_of role_levels required of
        Some n \<Rightarrow> Inr n
      | None \<Rightarrow> (case map_of legacy_perm_map required of
          Some role \<Rightarrow> (case map_of role_levels role of Some n \<Rightarrow> Inr n | None \<Rightarrow> Inl KeyError)
        | None \<Rightarrow> Inl ValueError))"

definition require_permission :: "pystr \<Rightarrow> token_row \<Rightarrow> unit res" where
  "require_permission required tok =
     bindE (required_level required) (\<lambda>n. if token_level tok < n then Inl (HTTPException 403) else Inr ())"

definition synthetic_admin_token :: token_row where
  "synthetic_admin_token = \<lparr>tk_id = None, tk_hash = [], tk_label = str ''service-token'', tk_scope = None,
     tk_permissions = str ''admin'', tk_role = str ''owner'', tk_expires = None\<rparr>"

text \<open>\<open>secrets.compare_digest\<close> of two strings, which must be ASCII.\<close>

definition compare_digest :: "pystr \<Rightarrow> pystr \<Rightarrow> bool res" where
  "compare_digest a b = (if \<forall>c \<in> set (a @ b). c < 128 then Inr (a = b) else Inl TypeError)"

definition current_token :: "env \<Rightarrow> token_row \<Rightarrow> token_row res" where
  "current_token E tok =
     (case tk_expires tok of
        Some x \<Rightarrow> if x < now E then Inl (HTTPException 403) else Inr tok
      | None \<Rightarrow> Inr tok)"

definition bearer_token :: "env \<Rightarrow> pystr option \<Rightarrow> db \<Rightarrow> token_row res" where
  "bearer_token E auth s =
     (if \<not> truthy auth then Inl (HTTPException 401)
      else let raw = py_strip (removeprefix (str ''token '') (removeprefix (str ''Bearer '') (the auth))) in
        if raw = [] then Inl (HTTPException 401)
        else bindE (utf8_encode raw) (\<lambda>bs.
          bindE (must (HTTPException 401) (one_or_none (filter (\<lambda>t. tk_hash t = sha256 E bs) (db_tokens s)))) (current_token E)))"

text \<open>The headers of a request, and the token of the service in the settings of the server.\<close>

record headers =
  authorization :: "pystr option"
  x_service_token :: "pystr option"

definition verify_token :: "env \<Rightarrow> pystr \<Rightarrow> headers \<Rightarrow> db \<Rightarrow> token_row res" where
  "verify_token E service_token hs s =
     (if truthy (x_service_token hs) \<and> service_token \<noteq> []
      then bindE (compare_digest (the (x_service_token hs)) service_token) (\<lambda>same.
        if same then Inr synthetic_admin_token else Inl (HTTPException 401))
      else bearer_token E (authorization hs) s)"

definition verify_repo_scope :: "token_row \<Rightarrow> int \<Rightarrow> unit res" where
  "verify_repo_scope tok repo_id =
     (case tk_scope tok of
        None \<Rightarrow> Inr ()
      | Some r \<Rightarrow> if r \<noteq> repo_id then Inl (HTTPException 403) else Inr ())"

definition resolve_actor :: "env \<Rightarrow> token_row \<Rightarrow> pystr option \<Rightarrow> pystr" where
  "resolve_actor E tok requested_author =
     (let author = py_strip (case requested_author of None \<Rightarrow> [] | Some a \<Rightarrow> a) in
      if author \<noteq> [] \<and> py_lower E author \<noteq> str ''unknown'' then author
      else let label = py_strip (tk_label tok) in if label \<noteq> [] then label else str ''unknown-token'')"

text \<open>The dependency of a handler: who asks, and whether it is allowed to.\<close>

definition check_access :: "env \<Rightarrow> pystr \<Rightarrow> pystr \<Rightarrow> headers \<Rightarrow> db \<Rightarrow> token_row res" where
  "check_access E service_token required hs s =
     bindE (verify_token E service_token hs s) (\<lambda>tok. bindE (require_permission required tok) (\<lambda>_. Inr tok))"

definition need_row :: "'a list \<Rightarrow> 'a res" where
  "need_row xs = bindE (one_or_none xs) (\<lambda>x. case x of None \<Rightarrow> Inl (HTTPException 404) | Some x \<Rightarrow> Inr x)"

definition get_repo :: "pystr \<Rightarrow> db \<Rightarrow> repo_row res" where
  "get_repo repo s =
     need_row (filter (\<lambda>r. rp_name r = repo) (db_repos s))"

section \<open>Who may do what\<close>

lemma require_permission_Inr:
  "require_permission required tok = Inr u \<longleftrightarrow> (\<exists>n. required_level required = Inr n \<and> n \<le> token_level tok)"
  by (cases "required_level required") (simp_all add: require_permission_def not_less)

lemma current_token_Inr: "current_token E t = Inr tok \<longleftrightarrow> t = tok \<and> (\<forall>x. tk_expires tok = Some x \<longrightarrow> now E \<le> x)"
  by (auto simp: current_token_def split: option.splits)

text \<open>What identifies a bearer: the hash of the token in the header is that of a row that has not expired.\<close>

definition bears :: "env \<Rightarrow> pystr option \<Rightarrow> token_row \<Rightarrow> bool" where
  "bears E auth tok \<longleftrightarrow>
     (\<exists>a raw bs. auth = Some a \<and> a \<noteq> [] \<and> raw = py_strip (removeprefix (str ''token '') (removeprefix (str ''Bearer '') a)) \<and>
        raw \<noteq> [] \<and> utf8_encode raw = Inr bs \<and> tk_hash tok = sha256 E bs \<and> (\<forall>x. tk_expires tok = Some x \<longrightarrow> now E \<le> x))"

lemma bearer_token_Inr:
  assumes "tokens.unique s"
  shows "bearer_token E auth s = Inr tok \<longleftrightarrow> tok \<in> set (db_tokens s) \<and> bears E auth tok"
  by (cases auth)
     (auto simp: bearer_token_def bears_def Let_def bindE_eq_Inr must_Inr current_token_Inr tokens.select_one [OF assms])

text \<open>
  C30: a request is let through to a handler exactly when it shows the token of the service, if it shows one and the
  server has one, or else the unexpired token of a row, and the level of that token
  reaches the level the handler requires.
\<close>

theorem access_exact:
  assumes "tokens.unique s"
  shows "check_access E service_token required hs s = Inr tok \<longleftrightarrow>
    (\<exists>n. required_level required = Inr n \<and> n \<le> token_level tok) \<and>
    (if truthy (x_service_token hs) \<and> service_token \<noteq> []
     then x_service_token hs = Some service_token \<and> (\<forall>c \<in> set service_token. c < 128) \<and> tok = synthetic_admin_token
     else tok \<in> set (db_tokens s) \<and> bears E (authorization hs) tok)"
proof (cases "truthy (x_service_token hs) \<and> service_token \<noteq> []")
  case True
  then obtain x where x: "x_service_token hs = Some x" by (cases "x_service_token hs") auto
  have "verify_token E service_token hs s = Inr tok \<longleftrightarrow>
      x = service_token \<and> (\<forall>c \<in> set service_token. c < 128) \<and> tok = synthetic_admin_token"
    using True x by (auto simp: verify_token_def compare_digest_def bindE_eq_Inr not_le split: if_splits)
  with True x show ?thesis by (auto simp: check_access_def bindE_eq_Inr require_permission_Inr)
next
  case False
  then have "verify_token E service_token hs s = Inr tok \<longleftrightarrow> tok \<in> set (db_tokens s) \<and> bears E (authorization hs) tok"
    using bearer_token_Inr [OF assms] by (auto simp: verify_token_def)
  with False show ?thesis by (auto simp: check_access_def bindE_eq_Inr require_permission_Inr)
qed

definition demo_bearer :: token_row where
  "demo_bearer = \<lparr>tk_id = Some 1, tk_hash = demo_digest [97], tk_label = str ''ci'', tk_scope = None,
     tk_permissions = str ''push'', tk_role = str ''reader'', tk_expires = None\<rparr>"

definition demo_tokens :: db where
  "demo_tokens = \<lparr>db_repos = [], db_refs = [], db_tokens = [demo_bearer], db_hooks = [], db_pulls = [], db_comments = [],
     db_protections = [], db_approvals = [], db_reviewers = [], db_checks = [], db_next = 2\<rparr>"

theorem access_exact_witness:
  "check_access demo_env [] (str ''push'') \<lparr>authorization = Some (str ''Bearer a''), x_service_token = None\<rparr> demo_tokens = Inr demo_bearer"
proof -
  have u: "tokens.unique demo_tokens" by (simp add: tokens.unique_def demo_tokens_def)
  have "bears demo_env (Some (str ''Bearer a'')) demo_bearer"
    by (auto simp: bears_def demo_bearer_def removeprefix_def py_startswith_def str_def py_strip_def py_space_def utf8_encode_def utf8_char_def)
  moreover have "required_level (str ''push'') = Inr 30" "token_level demo_bearer = 30"
    by (simp_all add: required_level_def role_levels_def legacy_perm_map_def token_level_def demo_bearer_def level_of_def)
  ultimately show ?thesis using access_exact [OF u] by (simp add: demo_tokens_def)
qed

end
