(* ===== verification/Dit_Admin.thy ===== *)
theory Dit_Admin
  imports Dit_Tables
begin

text \<open>
  The handlers of the server that only read and write the database: repositories, tokens, branch
  protection, reviews, reviewer rules, comments, webhooks, checks, and reading and deleting refs.
  A handler takes the token that was verified for the request.
\<close>

section \<open>Repositories\<close>

definition repo_name_char :: "nat \<Rightarrow> bool" where
  "repo_name_char c \<longleftrightarrow> 97 \<le> c \<and> c \<le> 122 \<or> 65 \<le> c \<and> c \<le> 90 \<or> 48 \<le> c \<and> c \<le> 57 \<or> c = 46 \<or> c = 95 \<or> c = 45"

text \<open>In a pattern \<open>$\<close> also matches before a final newline.\<close>

definition repo_name_re :: "pystr \<Rightarrow> bool" where
  "repo_name_re s \<longleftrightarrow>
     (let w = (if s \<noteq> [] \<and> last s = 10 then butlast s else s) in w \<noteq> [] \<and> (\<forall>c \<in> set w. repo_name_char c))"

definition create_repo :: "token_row \<Rightarrow> pystr \<Rightarrow> repo_row handler" where
  "create_repo tok name s =
     bindE (require_permission (str ''admin'') tok) (\<lambda>_.
     if name = [] \<or> 128 < length name \<or> \<not> repo_name_re name then Inl (HTTPException 400)
     else bindE (one_or_none (filter (\<lambda>r. rp_name r = name) (db_repos s))) (\<lambda>existing.
       if existing \<noteq> None then Inl (HTTPException 409)
       else let r = \<lparr>rp_id = db_next s, rp_name = name\<rparr> in
         bindE (insert_row rp_name r (db_repos s)) (\<lambda>t. Inr (bump (s\<lparr>db_repos := t\<rparr>), r))))"

definition list_repos :: "token_row \<Rightarrow> db \<Rightarrow> repo_row list res" where
  "list_repos tok s =
     bindE (require_permission (str ''read'') tok) (\<lambda>_. Inr (sort_key rp_name (db_repos s)))"

section \<open>Tokens\<close>

definition require_admin :: "token_row \<Rightarrow> unit res" where
  "require_admin tok = (if tk_permissions tok \<noteq> str ''admin'' then Inl (HTTPException 403) else Inr ())"

record token_request =
  tq_label :: pystr
  tq_permissions :: pystr
  tq_role :: pystr
  tq_scope :: "int option"

text \<open>\<open>random\<close> is what \<open>secrets.token_hex(32)\<close> returns.\<close>

definition create_token :: "env \<Rightarrow> pystr \<Rightarrow> token_row \<Rightarrow> token_request \<Rightarrow> (token_row \<times> pystr) handler" where
  "create_token E random tok body s =
     bindE (require_admin tok) (\<lambda>_.
     if tq_role body \<notin> set (dict_keys role_levels) then Inl (HTTPException 422)
     else let raw = str ''dit_'' @ random in
       bindE (utf8_encode raw) (\<lambda>bs.
       let new = \<lparr>tk_id = Some (db_next s), tk_hash = sha256 E bs, tk_label = tq_label body, tk_scope = tq_scope body,
                  tk_permissions = tq_permissions body, tk_role = tq_role body, tk_expires = None\<rparr> in
       bindE (insert_row tk_hash new (db_tokens s)) (\<lambda>t. Inr (bump (s\<lparr>db_tokens := t\<rparr>), (new, raw)))))"

text \<open>A token that a review or a reviewer rule refers to cannot be deleted.\<close>

definition token_in_use :: "int \<Rightarrow> db \<Rightarrow> bool" where
  "token_in_use i s \<longleftrightarrow> (\<exists>a \<in> set (db_approvals s). ap_token a = i) \<or> (\<exists>r \<in> set (db_reviewers s). rv_token r = Some i)"

definition revoke_token :: "token_row \<Rightarrow> int \<Rightarrow> unit handler" where
  "revoke_token tok i s =
     bindE (require_admin tok) (\<lambda>_.
     bindE (need_row (filter (\<lambda>t. tk_id t = Some i) (db_tokens s))) (\<lambda>t.
     if token_in_use i s then Inl IntegrityError
     else Inr (s\<lparr>db_tokens := filter (\<lambda>t. tk_id t \<noteq> Some i) (db_tokens s)\<rparr>, ())))"

section \<open>Branch protection\<close>

record protection_request =
  pq_pattern :: pystr
  pq_require_pr :: bool
  pq_approvals :: int
  pq_block_force :: bool
  pq_auto_delete :: bool

record protection_update =
  pu_pattern :: "pystr option"
  pu_require_pr :: "bool option"
  pu_approvals :: "int option"
  pu_block_force :: "bool option"
  pu_auto_delete :: "bool option"

abbreviation protection_key :: "protection_row \<Rightarrow> int \<times> pystr" where
  "protection_key p \<equiv> (pt_repo p, pt_pattern p)"

definition list_branch_protection_rules :: "token_row \<Rightarrow> pystr \<Rightarrow> db \<Rightarrow> protection_row list res" where
  "list_branch_protection_rules tok repo s =
     bindE (require_permission (str ''read'') tok) (\<lambda>_. bindE (get_repo repo s) (\<lambda>r.
       Inr (sort_key pt_id (filter (\<lambda>p. pt_repo p = rp_id r) (db_protections s)))))"

definition conflict_409 :: "'a res \<Rightarrow> 'a res" where
  "conflict_409 m = (case m of Inl e \<Rightarrow> if e = IntegrityError then Inl (HTTPException 409) else Inl e | Inr x \<Rightarrow> Inr x)"

definition create_branch_protection_rule :: "token_row \<Rightarrow> pystr \<Rightarrow> protection_request \<Rightarrow> protection_row handler" where
  "create_branch_protection_rule tok repo body s =
     bindE (require_permission (str ''admin'') tok) (\<lambda>_. bindE (get_repo repo s) (\<lambda>r.
       let rule = \<lparr>pt_id = db_next s, pt_repo = rp_id r, pt_pattern = pq_pattern body, pt_require_pr = pq_require_pr body,
                   pt_approvals = pq_approvals body, pt_block_force = pq_block_force body, pt_auto_delete = pq_auto_delete body\<rparr> in
       bindE (conflict_409 (insert_row protection_key rule (db_protections s))) (\<lambda>t.
         Inr (bump (s\<lparr>db_protections := t\<rparr>), rule))))"

definition set_opt :: "'a option \<Rightarrow> 'a \<Rightarrow> 'a" where
  "set_opt new old = (case new of None \<Rightarrow> old | Some x \<Rightarrow> x)"

definition changed_rule :: "protection_update \<Rightarrow> protection_row \<Rightarrow> protection_row" where
  "changed_rule body p = p\<lparr>pt_pattern := set_opt (pu_pattern body) (pt_pattern p),
     pt_require_pr := set_opt (pu_require_pr body) (pt_require_pr p), pt_approvals := set_opt (pu_approvals body) (pt_approvals p),
     pt_block_force := set_opt (pu_block_force body) (pt_block_force p),
     pt_auto_delete := set_opt (pu_auto_delete body) (pt_auto_delete p)\<rparr>"

definition update_branch_protection_rule ::
  "token_row \<Rightarrow> pystr \<Rightarrow> int \<Rightarrow> protection_update \<Rightarrow> protection_row handler" where
  "update_branch_protection_rule tok repo i body s =
     bindE (require_permission (str ''admin'') tok) (\<lambda>_. bindE (get_repo repo s) (\<lambda>r.
     bindE (need_row (filter (\<lambda>p. pt_id p = i \<and> pt_repo p = rp_id r) (db_protections s))) (\<lambda>rule.
     bindE (conflict_409 (update_rows protection_key (\<lambda>p. pt_id p = i) (changed_rule body) (db_protections s))) (\<lambda>t.
       Inr (s\<lparr>db_protections := t\<rparr>, changed_rule body rule)))))"

definition delete_branch_protection_rule :: "token_row \<Rightarrow> pystr \<Rightarrow> int \<Rightarrow> unit handler" where
  "delete_branch_protection_rule tok repo i s =
     bindE (require_permission (str ''admin'') tok) (\<lambda>_. bindE (get_repo repo s) (\<lambda>r.
     bindE (need_row (filter (\<lambda>p. pt_id p = i \<and> pt_repo p = rp_id r) (db_protections s))) (\<lambda>rule.
       Inr (s\<lparr>db_protections := filter (\<lambda>p. pt_id p \<noteq> i) (db_protections s)\<rparr>, ()))))"

section \<open>Reviews\<close>

definition approved :: pystr where "approved = str ''approved''"

definition get_pr_meta :: "int \<Rightarrow> int \<Rightarrow> db \<Rightarrow> pull_row res" where
  "get_pr_meta repo_id pr s =
     need_row (filter (\<lambda>p. pl_repo p = repo_id \<and> pl_number p = pr) (db_pulls s))"

abbreviation approval_key :: "approval_row \<Rightarrow> int \<times> int \<times> int" where
  "approval_key a \<equiv> (ap_repo a, ap_pull a, ap_token a)"

definition submit_review :: "token_row \<Rightarrow> pystr \<Rightarrow> int \<Rightarrow> pystr \<Rightarrow> approval_row handler" where
  "submit_review tok repo pr status s =
     bindE (require_permission (str ''reviewer'') tok) (\<lambda>_.
     if status \<notin> {approved, str ''changes_requested''} then Inl (HTTPException 422)
     else bindE (get_repo repo s) (\<lambda>r. bindE (get_pr_meta (rp_id r) pr s) (\<lambda>_.
       let mine = (\<lambda>a. ap_repo a = rp_id r \<and> ap_pull a = pr \<and> Some (ap_token a) = tk_id tok) in
       bindE (one_or_none (filter mine (db_approvals s))) (\<lambda>existing. case existing of
         Some a \<Rightarrow> Inr (s\<lparr>db_approvals := alter_rows (\<lambda>b. ap_id b = ap_id a) (ap_status_update (\<lambda>_. status)) (db_approvals s)\<rparr>,
                       a\<lparr>ap_status := status\<rparr>)
       | None \<Rightarrow> (case tk_id tok of
             None \<Rightarrow> Inl IntegrityError
           | Some i \<Rightarrow> let a = \<lparr>ap_id = db_next s, ap_repo = rp_id r, ap_pull = pr, ap_token = i, ap_status = status\<rparr> in
               bindE (insert_row approval_key a (db_approvals s)) (\<lambda>t. Inr (bump (s\<lparr>db_approvals := t\<rparr>), a)))))))"

definition list_reviews :: "token_row \<Rightarrow> pystr \<Rightarrow> int \<Rightarrow> db \<Rightarrow> approval_row list res" where
  "list_reviews tok repo pr s =
     bindE (require_permission (str ''read'') tok) (\<lambda>_. bindE (get_repo repo s) (\<lambda>r.
     bindE (get_pr_meta (rp_id r) pr s) (\<lambda>_.
       Inr (filter (\<lambda>a. ap_repo a = rp_id r \<and> ap_pull a = pr) (db_approvals s)))))"

section \<open>Reviewer rules\<close>

definition list_reviewer_rules :: "token_row \<Rightarrow> pystr \<Rightarrow> db \<Rightarrow> reviewer_row list res" where
  "list_reviewer_rules tok repo s =
     bindE (require_permission (str ''read'') tok) (\<lambda>_. bindE (get_repo repo s) (\<lambda>r.
       Inr (sort_key rv_id (filter (\<lambda>v. rv_repo v = rp_id r) (db_reviewers s)))))"

definition create_reviewer_rule :: "token_row \<Rightarrow> pystr \<Rightarrow> pystr \<Rightarrow> int option \<Rightarrow> reviewer_row handler" where
  "create_reviewer_rule tok repo pattern reviewer s =
     bindE (require_permission (str ''admin'') tok) (\<lambda>_. bindE (get_repo repo s) (\<lambda>r.
       let v = \<lparr>rv_id = db_next s, rv_repo = rp_id r, rv_pattern = pattern, rv_token = reviewer\<rparr> in
       if reviewer \<noteq> None \<and> reviewer \<notin> tk_id ` set (db_tokens s) then Inl IntegrityError
       else Inr (bump (s\<lparr>db_reviewers := db_reviewers s @ [v]\<rparr>), v)))"

definition delete_reviewer_rule :: "token_row \<Rightarrow> pystr \<Rightarrow> int \<Rightarrow> unit handler" where
  "delete_reviewer_rule tok repo i s =
     bindE (require_permission (str ''admin'') tok) (\<lambda>_. bindE (get_repo repo s) (\<lambda>r.
     bindE (need_row (filter (\<lambda>v. rv_id v = i \<and> rv_repo v = rp_id r) (db_reviewers s))) (\<lambda>_.
       Inr (s\<lparr>db_reviewers := filter (\<lambda>v. rv_id v \<noteq> i) (db_reviewers s)\<rparr>, ()))))"

definition match_reviewer_rules :: "token_row \<Rightarrow> pystr \<Rightarrow> pystr list \<Rightarrow> db \<Rightarrow> reviewer_row list res" where
  "match_reviewer_rules tok repo file_paths s =
     bindE (require_permission (str ''read'') tok) (\<lambda>_. bindE (get_repo repo s) (\<lambda>r.
       Inr (filter (\<lambda>v. \<exists>path \<in> set file_paths. fnmatch path (rv_pattern v))
         (sort_key rv_id (filter (\<lambda>v. rv_repo v = rp_id r) (db_reviewers s))))))"

section \<open>Comments\<close>

record comment_request =
  cq_author :: "pystr option"
  cq_body :: pystr
  cq_file :: "pystr option"
  cq_row :: "pystr option"
  cq_field :: "pystr option"
  cq_change :: "pystr option"

definition create_comment :: "env \<Rightarrow> token_row \<Rightarrow> pystr \<Rightarrow> int \<Rightarrow> comment_request \<Rightarrow> comment_row handler" where
  "create_comment E tok repo pr body s =
     bindE (require_permission (str ''reviewer'') tok) (\<lambda>_. bindE (get_repo repo s) (\<lambda>r.
     bindE (get_pr_meta (rp_id r) pr s) (\<lambda>p.
       let c = \<lparr>cm_id = db_next s, cm_pull = pl_id p, cm_author = resolve_actor E tok (cq_author body), cm_body = cq_body body,
                cm_file = cq_file body, cm_row = cq_row body, cm_field = cq_field body, cm_change = cq_change body\<rparr> in
       Inr (bump (s\<lparr>db_comments := db_comments s @ [c]\<rparr>), c))))"

definition list_comments :: "token_row \<Rightarrow> pystr \<Rightarrow> int \<Rightarrow> pystr option \<Rightarrow> db \<Rightarrow> comment_row list res" where
  "list_comments tok repo pr fl s =
     bindE (require_permission (str ''read'') tok) (\<lambda>_. bindE (get_repo repo s) (\<lambda>r.
     bindE (get_pr_meta (rp_id r) pr s) (\<lambda>p.
       Inr (filter (\<lambda>c. truthy fl \<longrightarrow> cm_file c = fl)
         (filter (\<lambda>c. cm_pull c = pl_id p) (db_comments s))))))"

definition find_comment :: "pull_row \<Rightarrow> int \<Rightarrow> db \<Rightarrow> comment_row res" where
  "find_comment p i s = need_row (filter (\<lambda>c. cm_id c = i \<and> cm_pull c = pl_id p) (db_comments s))"

definition update_comment :: "token_row \<Rightarrow> pystr \<Rightarrow> int \<Rightarrow> int \<Rightarrow> pystr option \<Rightarrow> comment_row handler" where
  "update_comment tok repo pr i body s =
     bindE (require_permission (str ''reviewer'') tok) (\<lambda>_. bindE (get_repo repo s) (\<lambda>r.
     bindE (get_pr_meta (rp_id r) pr s) (\<lambda>p. bindE (find_comment p i s) (\<lambda>c.
       Inr (s\<lparr>db_comments := alter_rows (\<lambda>c. cm_id c = i) (cm_body_update (set_opt body)) (db_comments s)\<rparr>,
            c\<lparr>cm_body := set_opt body (cm_body c)\<rparr>)))))"

definition delete_comment :: "token_row \<Rightarrow> pystr \<Rightarrow> int \<Rightarrow> int \<Rightarrow> unit handler" where
  "delete_comment tok repo pr i s =
     bindE (require_permission (str ''push'') tok) (\<lambda>_. bindE (get_repo repo s) (\<lambda>r.
     bindE (get_pr_meta (rp_id r) pr s) (\<lambda>p. bindE (find_comment p i s) (\<lambda>c.
       Inr (s\<lparr>db_comments := filter (\<lambda>c. cm_id c \<noteq> i) (db_comments s)\<rparr>, ())))))"

section \<open>Webhooks\<close>

definition create_webhook :: "token_row \<Rightarrow> pystr \<Rightarrow> pystr \<Rightarrow> pystr \<Rightarrow> pystr \<Rightarrow> hook_row handler" where
  "create_webhook tok repo url secret events s =
     bindE (require_permission (str ''admin'') tok) (\<lambda>_. bindE (get_repo repo s) (\<lambda>r.
       let h = \<lparr>wh_id = db_next s, wh_repo = rp_id r, wh_url = url, wh_secret = secret, wh_events = events, wh_active = True\<rparr> in
       Inr (bump (s\<lparr>db_hooks := db_hooks s @ [h]\<rparr>), h)))"

definition list_webhooks :: "token_row \<Rightarrow> pystr \<Rightarrow> db \<Rightarrow> hook_row list res" where
  "list_webhooks tok repo s =
     bindE (require_permission (str ''admin'') tok) (\<lambda>_. bindE (get_repo repo s) (\<lambda>r.
       Inr (filter (\<lambda>h. wh_repo h = rp_id r) (db_hooks s))))"

definition delete_webhook :: "token_row \<Rightarrow> pystr \<Rightarrow> int \<Rightarrow> unit handler" where
  "delete_webhook tok repo i s =
     bindE (require_permission (str ''admin'') tok) (\<lambda>_. bindE (get_repo repo s) (\<lambda>r.
     bindE (need_row (filter (\<lambda>h. wh_repo h = rp_id r \<and> wh_id h = i) (db_hooks s))) (\<lambda>_.
       Inr (s\<lparr>db_hooks := filter (\<lambda>h. wh_id h \<noteq> i) (db_hooks s)\<rparr>, ()))))"

text \<open>The hooks an update of a ref fires: url and secret.\<close>

definition load_webhooks :: "int \<Rightarrow> pystr \<Rightarrow> db \<Rightarrow> (pystr \<times> pystr) list" where
  "load_webhooks repo_id event s =
     map (\<lambda>h. (wh_url h, wh_secret h))
       (filter (\<lambda>h. event \<in> py_strip ` set (split_at 44 (wh_events h)))
         (filter (\<lambda>h. wh_repo h = repo_id \<and> wh_active h) (db_hooks s)))"

section \<open>Checks\<close>

record check_request =
  kq_commit :: pystr
  kq_name :: pystr
  kq_status :: pystr
  kq_details :: "json option"

abbreviation ci_key :: "ci_row \<Rightarrow> int \<times> pystr \<times> pystr" where
  "ci_key c \<equiv> (ci_repo c, ci_commit c, ci_name c)"

definition report_check :: "token_row \<Rightarrow> pystr \<Rightarrow> check_request \<Rightarrow> ci_row handler" where
  "report_check tok repo body s =
     bindE (require_permission (str ''push'') tok) (\<lambda>_. bindE (get_repo repo s) (\<lambda>r.
     bindE (one_or_none (filter (\<lambda>c. ci_repo c = rp_id r \<and> ci_commit c = kq_commit body \<and> ci_name c = kq_name body)
         (db_checks s))) (\<lambda>existing. case existing of
       Some c \<Rightarrow>
         let new = (\<lambda>c. c\<lparr>ci_status := kq_status body, ci_details := kq_details body\<rparr>) in
         Inr (s\<lparr>db_checks := alter_rows (\<lambda>b. ci_id b = ci_id c) new (db_checks s)\<rparr>, new c)
     | None \<Rightarrow>
         let c = \<lparr>ci_id = db_next s, ci_repo = rp_id r, ci_commit = kq_commit body, ci_name = kq_name body,
                  ci_status = kq_status body, ci_details = kq_details body\<rparr> in
         bindE (insert_row ci_key c (db_checks s)) (\<lambda>t. Inr (bump (s\<lparr>db_checks := t\<rparr>), c)))))"

definition get_checks :: "token_row \<Rightarrow> pystr \<Rightarrow> pystr \<Rightarrow> db \<Rightarrow> ci_row list res" where
  "get_checks tok repo commit s =
     bindE (require_permission (str ''read'') tok) (\<lambda>_. bindE (get_repo repo s) (\<lambda>r.
       Inr (sort_key ci_id (filter (\<lambda>c. ci_repo c = rp_id r \<and> ci_commit c = commit) (db_checks s)))))"

section \<open>Refs\<close>

definition find_ref :: "int \<Rightarrow> pystr \<Rightarrow> db \<Rightarrow> ref_row option res" where
  "find_ref repo_id name s = one_or_none (filter (\<lambda>r. rf_repo r = repo_id \<and> rf_name r = name) (db_refs s))"

definition list_refs :: "token_row \<Rightarrow> pystr \<Rightarrow> db \<Rightarrow> (pystr \<times> pystr) list res" where
  "list_refs tok repo s =
     bindE (require_permission (str ''read'') tok) (\<lambda>_. bindE (get_repo repo s) (\<lambda>r.
       Inr (map (\<lambda>f. (rf_name f, rf_target f)) (sort_key rf_name (filter (\<lambda>f. rf_repo f = rp_id r) (db_refs s))))))"

definition ref_name :: "pystr \<Rightarrow> pystr \<Rightarrow> pystr" where
  "ref_name ref_type name = ref_type @ slash # name"

definition get_ref :: "token_row \<Rightarrow> pystr \<Rightarrow> pystr \<Rightarrow> pystr \<Rightarrow> db \<Rightarrow> (pystr \<times> pystr) res" where
  "get_ref tok repo ref_type name s =
     bindE (require_permission (str ''read'') tok) (\<lambda>_. bindE (get_repo repo s) (\<lambda>r.
     bindE (find_ref (rp_id r) (ref_name ref_type name) s) (\<lambda>f. case f of
       None \<Rightarrow> Inl (HTTPException 404) | Some f \<Rightarrow> Inr (rf_name f, rf_target f))))"

definition delete_ref :: "token_row \<Rightarrow> pystr \<Rightarrow> pystr \<Rightarrow> pystr \<Rightarrow> unit handler" where
  "delete_ref tok repo ref_type name s =
     bindE (require_permission (str ''admin'') tok) (\<lambda>_. bindE (get_repo repo s) (\<lambda>r.
     bindE (find_ref (rp_id r) (ref_name ref_type name) s) (\<lambda>f. case f of
       None \<Rightarrow> Inl (HTTPException 404)
     | Some f \<Rightarrow> Inr (s\<lparr>db_refs := filter (\<lambda>g. \<not> (rf_repo g = rp_id r \<and> rf_name g = ref_name ref_type name)) (db_refs s)\<rparr>, ()))))"

section \<open>Requests\<close>

text \<open>
  The requests that change the database, apart from those on branches: what the users of a repository
  may do, and what only an administrator may.
\<close>

inductive data_step :: "env \<Rightarrow> db \<Rightarrow> db \<Rightarrow> bool" for E where
  repo: "create_repo tok name s = Inr (s', r) \<Longrightarrow> data_step E s s'"
| token: "create_token E random tok body s = Inr (s', r) \<Longrightarrow> data_step E s s'"
| revoke: "revoke_token tok i s = Inr (s', u) \<Longrightarrow> data_step E s s'"
| review: "submit_review tok repo pr status s = Inr (s', a) \<Longrightarrow> data_step E s s'"
| reviewer: "create_reviewer_rule tok repo pattern reviewer s = Inr (s', v) \<Longrightarrow> data_step E s s'"
| no_reviewer: "delete_reviewer_rule tok repo i s = Inr (s', u) \<Longrightarrow> data_step E s s'"
| comment: "create_comment E tok repo pr cbody s = Inr (s', c) \<Longrightarrow> data_step E s s'"
| edit: "update_comment tok repo pr i text s = Inr (s', c) \<Longrightarrow> data_step E s s'"
| no_comment: "delete_comment tok repo pr i s = Inr (s', u) \<Longrightarrow> data_step E s s'"
| hook: "create_webhook tok repo url secret events s = Inr (s', h) \<Longrightarrow> data_step E s s'"
| no_hook: "delete_webhook tok repo i s = Inr (s', u) \<Longrightarrow> data_step E s s'"
| check: "report_check tok repo kbody s = Inr (s', k) \<Longrightarrow> data_step E s s'"

inductive config_step :: "db \<Rightarrow> db \<Rightarrow> bool" where
  protect: "create_branch_protection_rule tok repo body s = Inr (s', r) \<Longrightarrow> config_step s s'"
| change: "update_branch_protection_rule tok repo i ubody s = Inr (s', r) \<Longrightarrow> config_step s s'"
| unprotect: "delete_branch_protection_rule tok repo i s = Inr (s', u) \<Longrightarrow> config_step s s'"
| delete: "delete_ref tok repo ref_type name s = Inr (s', u) \<Longrightarrow> config_step s s'"

lemmas db_ok_defs = db_ok_def repos.unique_def refs.unique_def tokens.unique_def pulls.unique_def
  protections.unique_def approvals.unique_def checks.unique_def

lemmas table_defs = insert_row_def update_rows_def bump_def Let_def

lemma map_alter_rows: "(\<And>x. key (f x) = key x) \<Longrightarrow> map key (alter_rows P f t) = map key t"
  by (simp add: alter_rows_def)

lemma alter_rows_keys [simp]:
  "map approval_key (alter_rows P (ap_status_update g) t) = map approval_key t"
  "map ci_key (alter_rows Q (\<lambda>c. c\<lparr>ci_status := st, ci_details := d\<rparr>) u) = map ci_key u"
  by (simp_all add: map_alter_rows)

lemma conflict_409_Inr [simp]: "conflict_409 m = Inr x \<longleftrightarrow> m = Inr x"
  by (auto simp: conflict_409_def split: sum.split)

text \<open>An ordinary request leaves the branches and their protection alone, and every key unique.\<close>

lemma submit_review_Inr:
  assumes "submit_review tok repo pr status s = Inr (s', a)"
  obtains (again) P where "s' = s\<lparr>db_approvals := alter_rows P (ap_status_update (\<lambda>_. status)) (db_approvals s)\<rparr>"
    | (new) t where "insert_row approval_key a (db_approvals s) = Inr t" "s' = bump (s\<lparr>db_approvals := t\<rparr>)"
proof -
  from assms obtain r :: repo_row and e where e: "(case e of
         Some a \<Rightarrow> Inr (s\<lparr>db_approvals := alter_rows (\<lambda>b. ap_id b = ap_id a) (ap_status_update (\<lambda>_. status)) (db_approvals s)\<rparr>,
                       a\<lparr>ap_status := status\<rparr>)
       | None \<Rightarrow> (case tk_id tok of
             None \<Rightarrow> Inl IntegrityError
           | Some i \<Rightarrow> let a = \<lparr>ap_id = db_next s, ap_repo = rp_id r, ap_pull = pr, ap_token = i, ap_status = status\<rparr> in
               bindE (insert_row approval_key a (db_approvals s)) (\<lambda>t. Inr (bump (s\<lparr>db_approvals := t\<rparr>), a)))) = Inr (s', a)"
    unfolding submit_review_def Let_def bindE_eq_Inr by (auto simp: bindE_eq_Inr split: if_split_asm)
  show ?thesis
  proof (cases e)
    case None
    with e show ?thesis by (cases "tk_id tok") (auto simp: bindE_eq_Inr Let_def intro: new)
  next
    case (Some x)
    with e again show ?thesis by auto
  qed
qed

lemma report_check_Inr:
  assumes "report_check tok repo body s = Inr (s', c)"
  obtains (again) P where "s' = s\<lparr>db_checks := alter_rows P (\<lambda>c. c\<lparr>ci_status := kq_status body, ci_details := kq_details body\<rparr>) (db_checks s)\<rparr>"
    | (new) t where "insert_row ci_key c (db_checks s) = Inr t" "s' = bump (s\<lparr>db_checks := t\<rparr>)"
proof -
  from assms obtain r :: repo_row and e where e: "(case e of
       Some c \<Rightarrow>
         let new = (\<lambda>c. c\<lparr>ci_status := kq_status body, ci_details := kq_details body\<rparr>) in
         Inr (s\<lparr>db_checks := alter_rows (\<lambda>b. ci_id b = ci_id c) new (db_checks s)\<rparr>, new c)
     | None \<Rightarrow>
         let c = \<lparr>ci_id = db_next s, ci_repo = rp_id r, ci_commit = kq_commit body, ci_name = kq_name body,
                  ci_status = kq_status body, ci_details = kq_details body\<rparr> in
         bindE (insert_row ci_key c (db_checks s)) (\<lambda>t. Inr (bump (s\<lparr>db_checks := t\<rparr>), c))) = Inr (s', c)"
    unfolding report_check_def bindE_eq_Inr by blast
  then show ?thesis by (cases e) (auto simp: bindE_eq_Inr Let_def intro: new again)
qed

lemmas small_handlers = create_repo_def create_token_def revoke_token_def create_reviewer_rule_def delete_reviewer_rule_def
  create_comment_def update_comment_def delete_comment_def create_webhook_def delete_webhook_def

lemma data_step_frame:
  "data_step E s s' \<Longrightarrow> db_refs s' = db_refs s \<and> db_protections s' = db_protections s \<and> db_pulls s' = db_pulls s"
  by (induction rule: data_step.induct)
     (auto simp: small_handlers bindE_eq_Inr bump_def Let_def split: if_split_asm elim!: submit_review_Inr report_check_Inr)

lemma data_step_ok: "data_step E s s' \<Longrightarrow> db_ok s \<Longrightarrow> db_ok s'"
  by (induction rule: data_step.induct)
     (auto simp: small_handlers db_ok_defs table_defs bindE_eq_Inr distinct_map_filter
       split: if_split_asm elim!: submit_review_Inr report_check_Inr)

lemma config_step_ok: "config_step s s' \<Longrightarrow> db_ok s \<Longrightarrow> db_ok s'"
  by (induction rule: config_step.induct)
     (auto simp: create_branch_protection_rule_def update_branch_protection_rule_def delete_branch_protection_rule_def
        delete_ref_def db_ok_defs table_defs bindE_eq_Inr distinct_map_filter split: if_split_asm option.split_asm)

lemma find_ref_Some:
  "refs.unique s \<Longrightarrow> find_ref i n s = Inr (Some r) \<longleftrightarrow> r \<in> set (db_refs s) \<and> rf_repo r = i \<and> rf_name r = n"
  using refs.select_one [of s "(i, n)" "Some r"] by (simp add: find_ref_def)

lemma find_ref_None: "refs.unique s \<Longrightarrow> find_ref i n s = Inr None \<longleftrightarrow> (i, n) \<notin> (\<lambda>r. (rf_repo r, rf_name r)) ` set (db_refs s)"
  using refs.select_one [of s "(i, n)" None] by (simp add: find_ref_def)

end
