(* ===== verification/Dit_Pulls.thy ===== *)
theory Dit_Pulls
  imports Dit_Admin
begin

text \<open>
  Branches on the server: \<open>src/dit/server/routes/refs.py\<close>, \<open>merge.py\<close> and \<open>pulls.py\<close>. A merge
  runs off the event loop, so other requests are served between the moment a handler reads the branches and
  the moment it updates one. Such a handler is therefore two functions: the first ends in a
  job, what the update will do; the second is the update, an \<open>UPDATE\<close> that only takes
  effect if the branch still points where it did.

  \<open>d\<close> is the object directory of the repository of the request. Objects stored before an exception
  of the library are not accounted for: nothing refers to them.
\<close>

section \<open>Statistics and mergeability of a pull request\<close>

definition commit_tree :: "env \<Rightarrow> disk \<Rightarrow> pystr \<Rightarrow> pystr res" where
  "commit_tree E d h = bindE (must TypeError (read_commit E d h)) (\<lambda>c. Inr (tree_hash c))"

definition branch_flat :: "env \<Rightarrow> disk \<Rightarrow> pystr \<Rightarrow> flat_entry dict res" where
  "branch_flat E d h = bindE (commit_tree E d h) (\<lambda>t. flatten_tree E d (rec_limit E) t [])"

record diff_stats =
  stats_added :: nat
  stats_removed :: nat
  stats_refreshed :: nat

definition is_manifest :: "flat_entry \<Rightarrow> bool" where
  "is_manifest e \<longleftrightarrow> fst e = str ''manifest''"

definition diff_path :: "env \<Rightarrow> disk \<Rightarrow> flat_entry option \<Rightarrow> flat_entry option \<Rightarrow> diff_stats \<Rightarrow> diff_stats res" where
  "diff_path E d src tgt r =
     (case (src, tgt) of
        (None, None) \<Rightarrow> Inl TypeError
      | (None, Some t) \<Rightarrow>
          if is_manifest t
          then bindE (manifest_at E d (fst (snd t))) (\<lambda>m. Inr (r\<lparr>stats_removed := stats_removed r + length (entries m)\<rparr>))
          else Inr r
      | (Some s, None) \<Rightarrow>
          if is_manifest s
          then bindE (manifest_at E d (fst (snd s))) (\<lambda>m. Inr (r\<lparr>stats_added := stats_added r + length (entries m)\<rparr>))
          else Inr r
      | (Some s, Some t) \<Rightarrow>
          if is_manifest s \<and> is_manifest t \<and> fst (snd s) \<noteq> fst (snd t)
          then bindE (manifest_at E d (fst (snd t))) (\<lambda>old_m. bindE (manifest_at E d (fst (snd s))) (\<lambda>new_m.
            bindE (diff_manifests old_m new_m) (\<lambda>dr.
              Inr (r\<lparr>stats_added := stats_added r + length (added dr), stats_removed := stats_removed r + length (removed dr),
                     stats_refreshed := stats_refreshed r + length (refreshed dr)\<rparr>))))
          else Inr r)"

definition compute_diff_stats :: "env \<Rightarrow> disk \<Rightarrow> pystr \<Rightarrow> pystr \<Rightarrow> diff_stats res" where
  "compute_diff_stats E d source target =
     bindE (commit_tree E d source) (\<lambda>st. bindE (commit_tree E d target) (\<lambda>tt.
     bindE (flatten_tree E d (rec_limit E) st []) (\<lambda>sf. bindE (flatten_tree E d (rec_limit E) tt []) (\<lambda>tf.
       foldE (\<lambda>path r. diff_path E d (map_of sf path) (map_of tf path) r)
         (set_order E (remdups (dict_keys sf @ dict_keys tf)))
         \<lparr>stats_added = 0, stats_removed = 0, stats_refreshed = 0\<rparr>))))"

definition conflict_files :: "merge_result \<Rightarrow> (pystr \<times> conflict_type) list" where
  "conflict_files r = map (\<lambda>c. (file_path c, conflict_type c)) (conflicts r)"

record mergeability =
  mb_base :: "pystr option"
  mb_mergeable :: bool
  mb_conflicts :: "(pystr \<times> conflict_type) list"

definition compute_mergeability :: "env \<Rightarrow> disk \<Rightarrow> pystr \<Rightarrow> pystr \<Rightarrow> (mergeability \<times> disk) res" where
  "compute_mergeability E d target source =
     bindE (find_merge_base E d target source) (\<lambda>base.
     bindE (three_way_merge E d base target source) (\<lambda>(r, d').
       Inr (\<lparr>mb_base = base, mb_mergeable = (conflicts r = []), mb_conflicts = conflict_files r\<rparr>, d')))"

section \<open>Protection of a branch\<close>

text \<open>The first rule of the repository whose pattern the name of the branch matches.\<close>

definition matched_rule :: "int \<Rightarrow> pystr \<Rightarrow> db \<Rightarrow> protection_row option" where
  "matched_rule repo_id branch s =
     find (\<lambda>p. fnmatch branch (pt_pattern p)) (filter (\<lambda>p. pt_repo p = repo_id) (db_protections s))"

definition approval_count :: "int \<Rightarrow> int \<Rightarrow> db \<Rightarrow> nat" where
  "approval_count repo_id pr s =
     length (filter (\<lambda>a. ap_repo a = repo_id \<and> ap_pull a = pr \<and> ap_status a = approved) (db_approvals s))"

definition check_merge_approvals :: "int \<Rightarrow> pystr \<Rightarrow> int option \<Rightarrow> db \<Rightarrow> unit res" where
  "check_merge_approvals repo_id target_branch pull s =
     (case matched_rule repo_id target_branch s of
        None \<Rightarrow> Inr ()
      | Some rule \<Rightarrow>
          if pt_require_pr rule \<and> pull = None then Inl (HTTPException 403)
          else if pt_approvals rule = 0 then Inr ()
          else (case pull of
              None \<Rightarrow> Inl (HTTPException 403)
            | Some pr \<Rightarrow>
                bindE (get_pr_meta repo_id pr s) (\<lambda>_.
                if int (approval_count repo_id pr s) < pt_approvals rule then Inl (HTTPException 403) else Inr ())))"

definition check_pr_merge_approvals :: "int \<Rightarrow> pystr \<Rightarrow> int \<Rightarrow> db \<Rightarrow> unit res" where
  "check_pr_merge_approvals repo_id target_ref pr s =
     (case matched_rule repo_id (removeprefix (str ''heads/'') target_ref) s of
        None \<Rightarrow> Inr ()
      | Some rule \<Rightarrow>
          if pt_approvals rule \<noteq> 0 \<and> int (approval_count repo_id pr s) < pt_approvals rule
          then Inl (HTTPException 403) else Inr ())"

section \<open>The update of a branch\<close>

text \<open>\<open>UPDATE refs SET target_hash = new WHERE ... AND target_hash = old\<close>; \<open>None\<close> if no row matches.\<close>

definition cas_ref :: "int \<Rightarrow> pystr \<Rightarrow> pystr \<Rightarrow> pystr \<Rightarrow> db \<Rightarrow> db option" where
  "cas_ref repo_id name old new s =
     (let P = (\<lambda>r. rf_repo r = repo_id \<and> rf_name r = name \<and> rf_target r = old) in
      if \<exists>r \<in> set (db_refs s). P r
      then Some (s\<lparr>db_refs := alter_rows P (rf_target_update (\<lambda>_. new)) (db_refs s)\<rparr>) else None)"

text \<open>What a merge has left to do; \<open>jb_pull\<close> is the row of the pull request, if it is the merge of one.\<close>

record job =
  jb_repo :: int
  jb_ref :: pystr
  jb_old :: pystr
  jb_new :: pystr
  jb_pull :: "int option"
  jb_commit :: "commit option"

definition merged_status :: pystr where "merged_status = str ''merged''"

definition mark_merged :: "pystr \<Rightarrow> pull_row \<Rightarrow> pull_row" where
  "mark_merged h p = p\<lparr>pl_status := merged_status, pl_merge := Some h, pl_target := h\<rparr>"

definition finish_merge :: "job \<Rightarrow> (pystr \<times> bool) handler" where
  "finish_merge j s =
     (case cas_ref (jb_repo j) (jb_ref j) (jb_old j) (jb_new j) s of
        None \<Rightarrow> Inl (HTTPException 409)
      | Some s' \<Rightarrow> Inr (s', (jb_new j, jb_commit j = None)))"

definition finish_pull :: "int \<Rightarrow> job \<Rightarrow> (pystr \<times> bool) handler" where
  "finish_pull i j s =
     (case cas_ref (jb_repo j) (jb_ref j) (jb_old j) (jb_new j) s of
        None \<Rightarrow> Inl (HTTPException 409)
      | Some s' \<Rightarrow>
          Inr (s'\<lparr>db_pulls := alter_rows (\<lambda>p. pl_id p = i) (mark_merged (jb_new j)) (db_pulls s')\<rparr>, (jb_new j, jb_commit j = None)))"

definition finish_job :: "job \<Rightarrow> (pystr \<times> bool) handler" where
  "finish_job j = (case jb_pull j of None \<Rightarrow> finish_merge j | Some i \<Rightarrow> finish_pull i j)"

lemmas finish_defs = finish_job_def finish_merge_def finish_pull_def

section \<open>Merging\<close>

definition sidecar_lookup :: "flat_entry dict \<Rightarrow> flat_entry dict \<Rightarrow> pystr dict" where
  "sidecar_lookup source target =
     (let add = (\<lambda>acc (path, ty, h, sc). case sc of None \<Rightarrow> acc | Some x \<Rightarrow> AList.update path x acc)
      in foldl add (foldl add [] source) target)"

definition merged_tree :: "pystr dict \<Rightarrow> flat_entry dict \<Rightarrow> flat_entry dict \<Rightarrow> tree" where
  "merged_tree files source target =
     \<lparr>tree_entries = map (\<lambda>(name, h). \<lparr>te_name = name, te_type = str ''manifest'', te_hash = h,
        te_sidecar = map_of (sidecar_lookup source target) name\<rparr>) files\<rparr>"

text \<open>Storing the tree and the merge commit of some merged files.\<close>

definition write_merge ::
  "env \<Rightarrow> disk \<Rightarrow> pystr dict \<Rightarrow> pystr \<Rightarrow> pystr \<Rightarrow> pystr \<Rightarrow> pystr \<Rightarrow> (commit \<times> pystr \<times> disk) res" where
  "write_merge E d files target source author_name msg =
     bindE (must TypeError (read_commit E d target)) (\<lambda>tc. bindE (must TypeError (read_commit E d source)) (\<lambda>sc.
     bindE (flatten_tree E d (rec_limit E) (tree_hash tc) []) (\<lambda>tf.
     bindE (flatten_tree E d (rec_limit E) (tree_hash sc) []) (\<lambda>sf.
     bindE (store_write E d (str ''trees'') (serialize_tree (merged_tree files sf tf))) (\<lambda>(th, d1).
       let c = \<lparr>tree_hash = th, parent_hashes = [target, source], author = author_name, message = msg, timestamp = now E\<rparr> in
       bindE (store_write E d1 (str ''commits'') (serialize_commit c)) (\<lambda>(ch, d2). Inr (c, ch, d2)))))))"

definition resolve_branch :: "int \<Rightarrow> pystr \<Rightarrow> db \<Rightarrow> pystr res" where
  "resolve_branch repo_id branch s =
     bindE (find_ref repo_id (ref_name (str ''heads'') branch) s) (\<lambda>f. case f of
       None \<Rightarrow> Inl (HTTPException 404) | Some f \<Rightarrow> Inr (rf_target f))"

text \<open>The part all merges share: fast-forward, conflict, or a stored merge commit.\<close>

definition merge_job ::
  "env \<Rightarrow> int \<Rightarrow> pystr \<Rightarrow> int option \<Rightarrow> pystr \<Rightarrow> pystr \<Rightarrow> pystr \<Rightarrow> pystr \<Rightarrow> disk \<Rightarrow> (disk \<times> job res) res" where
  "merge_job E repo_id ref pull target source author_name msg d =
     bindE (find_merge_base E d target source) (\<lambda>base.
     if base = Some target
     then Inr (d, Inr \<lparr>jb_repo = repo_id, jb_ref = ref, jb_old = target, jb_new = source, jb_pull = pull, jb_commit = None\<rparr>)
     else bindE (three_way_merge E d base target source) (\<lambda>(mr, d1).
       if conflicts mr \<noteq> [] then Inr (d1, Inl (HTTPException 409))
       else bindE (write_merge E d1 (merged_tree_entries mr) target source author_name msg) (\<lambda>(c, ch, d2).
         Inr (d2, Inr \<lparr>jb_repo = repo_id, jb_ref = ref, jb_old = target, jb_new = ch, jb_pull = pull, jb_commit = Some c\<rparr>))))"

text \<open>A handler up to its update: the disk afterwards, and the job or the error.\<close>

definition begun :: "disk \<Rightarrow> (disk \<times> job res) res \<Rightarrow> disk \<times> job res" where
  "begun d m = (case m of Inl e \<Rightarrow> (d, Inl e) | Inr r \<Rightarrow> r)"

record merge_request =
  mq_source :: pystr
  mq_target :: pystr
  mq_message :: pystr
  mq_author :: "pystr option"
  mq_pull :: "int option"

definition merge_preview ::
  "env \<Rightarrow> token_row \<Rightarrow> pystr \<Rightarrow> pystr \<Rightarrow> pystr \<Rightarrow> db \<Rightarrow> disk \<Rightarrow> (mergeability \<times> disk) res" where
  "merge_preview E tok repo source target s d =
     bindE (require_permission (str ''read'') tok) (\<lambda>_. bindE (get_repo repo s) (\<lambda>r.
     bindE (resolve_branch (rp_id r) source s) (\<lambda>sh. bindE (resolve_branch (rp_id r) target s) (\<lambda>th.
       compute_mergeability E d th sh))))"

definition merge_begin :: "env \<Rightarrow> token_row \<Rightarrow> pystr \<Rightarrow> merge_request \<Rightarrow> db \<Rightarrow> disk \<Rightarrow> disk \<times> job res" where
  "merge_begin E tok repo body s d = begun d (
     bindE (require_permission (str ''push'') tok) (\<lambda>_. bindE (get_repo repo s) (\<lambda>r.
     bindE (resolve_branch (rp_id r) (mq_source body) s) (\<lambda>source.
     bindE (resolve_branch (rp_id r) (mq_target body) s) (\<lambda>target.
     bindE (check_merge_approvals (rp_id r) (mq_target body) (mq_pull body) s) (\<lambda>_.
       merge_job E (rp_id r) (ref_name (str ''heads'') (mq_target body)) None target source
         (resolve_actor E tok (mq_author body)) (mq_message body) d))))))"

section \<open>Pull requests\<close>

record pull_request =
  rq_title :: pystr
  rq_source :: pystr
  rq_target :: pystr
  rq_author :: "pystr option"

definition open_status :: pystr where "open_status = str ''open''"

definition next_pr_id :: "int \<Rightarrow> db \<Rightarrow> int" where
  "next_pr_id repo_id s = fold max (map pl_number (filter (\<lambda>p. pl_repo p = repo_id) (db_pulls s))) 0 + 1"

abbreviation pull_key :: "pull_row \<Rightarrow> int \<times> int" where
  "pull_key p \<equiv> (pl_repo p, pl_number p)"

definition create_pull_request ::
  "env \<Rightarrow> token_row \<Rightarrow> pystr \<Rightarrow> pull_request \<Rightarrow> db \<Rightarrow> disk \<Rightarrow> (db \<times> disk \<times> pull_row) res" where
  "create_pull_request E tok repo body s d =
     bindE (require_permission (str ''push'') tok) (\<lambda>_. bindE (get_repo repo s) (\<lambda>r.
     if rq_source body = rq_target body then Inl (HTTPException 400)
     else bindE (resolve_branch (rp_id r) (rq_source body) s) (\<lambda>source.
       bindE (resolve_branch (rp_id r) (rq_target body) s) (\<lambda>target.
       bindE (compute_diff_stats E d source target) (\<lambda>st.
       bindE (compute_mergeability E d target source) (\<lambda>(mb, d').
       let p = \<lparr>pl_id = db_next s, pl_repo = rp_id r, pl_number = next_pr_id (rp_id r) s, pl_title = rq_title body,
                pl_author = resolve_actor E tok (rq_author body), pl_status = open_status,
                pl_source_ref = ref_name (str ''heads'') (rq_source body), pl_target_ref = ref_name (str ''heads'') (rq_target body),
                pl_base = (case mb_base mb of None \<Rightarrow> [] | Some h \<Rightarrow> h), pl_source = source, pl_target = target,
                pl_merge = None, pl_mergeable = Some (mb_mergeable mb), pl_conflicts = mb_conflicts mb,
                pl_added = stats_added st, pl_removed = stats_removed st, pl_refreshed = stats_refreshed st\<rparr> in
       bindE (insert_row pull_key p (db_pulls s)) (\<lambda>t. Inr (bump (s\<lparr>db_pulls := t\<rparr>), d', p))))))))"

definition list_pull_requests :: "token_row \<Rightarrow> pystr \<Rightarrow> pystr option \<Rightarrow> db \<Rightarrow> pull_row list res" where
  "list_pull_requests tok repo status s =
     bindE (require_permission (str ''read'') tok) (\<lambda>_. bindE (get_repo repo s) (\<lambda>r.
       Inr (sort_key pl_number (filter (\<lambda>p. status = None \<or> Some (pl_status p) = status)
         (filter (\<lambda>p. pl_repo p = rp_id r) (db_pulls s))))))"

definition get_pull_request :: "token_row \<Rightarrow> pystr \<Rightarrow> int \<Rightarrow> db \<Rightarrow> pull_row res" where
  "get_pull_request tok repo pr s =
     bindE (require_permission (str ''read'') tok) (\<lambda>_. bindE (get_repo repo s) (\<lambda>r. get_pr_meta (rp_id r) pr s))"

definition update_pull_request ::
  "token_row \<Rightarrow> pystr \<Rightarrow> int \<Rightarrow> pystr option \<Rightarrow> pystr option \<Rightarrow> pull_row handler" where
  "update_pull_request tok repo pr title status s =
     bindE (require_permission (str ''push'') tok) (\<lambda>_. bindE (get_repo repo s) (\<lambda>r. bindE (get_pr_meta (rp_id r) pr s) (\<lambda>p.
     if pl_status p = merged_status then Inl (HTTPException 400)
     else let f = (\<lambda>p. p\<lparr>pl_title := set_opt title (pl_title p), pl_status := set_opt status (pl_status p)\<rparr>) in
       Inr (s\<lparr>db_pulls := alter_rows (\<lambda>q. pl_id q = pl_id p) f (db_pulls s)\<rparr>, f p))))"

definition merge_pull_begin ::
  "env \<Rightarrow> token_row \<Rightarrow> pystr \<Rightarrow> int \<Rightarrow> pystr option \<Rightarrow> pystr \<Rightarrow> db \<Rightarrow> disk \<Rightarrow> disk \<times> job res" where
  "merge_pull_begin E tok repo pr by msg s d = begun d (
     bindE (require_permission (str ''push'') tok) (\<lambda>_. bindE (get_repo repo s) (\<lambda>r. bindE (get_pr_meta (rp_id r) pr s) (\<lambda>p.
     if pl_status p = merged_status then Inl (HTTPException 400)
     else if pl_status p = str ''closed'' then Inl (HTTPException 400)
     else bindE (check_pr_merge_approvals (rp_id r) (pl_target_ref p) (pl_number p) s) (\<lambda>_.
       merge_job E (rp_id r) (pl_target_ref p) (Some (pl_id p)) (pl_target p) (pl_source p) (resolve_actor E tok by) msg d)))))"

section \<open>Resolving the conflicts of a pull request\<close>

record resolution =
  rs_file :: pystr
  rs_row :: pystr

definition resolution_map :: "resolution list \<Rightarrow> pystr dict" where
  "resolution_map rs = foldl (\<lambda>m r. AList.update (rs_file r) (rs_row r) m) [] rs"

definition opt_list :: "'a list option \<Rightarrow> 'a list" where
  "opt_list x = (case x of None \<Rightarrow> [] | Some xs \<Rightarrow> xs)"

definition choose_entry :: "pystr dict \<Rightarrow> merge_conflict \<Rightarrow> manifest_entry dict \<Rightarrow> manifest_entry dict res" where
  "choose_entry m c acc =
     (case map_of m (file_path c) of
        None \<Rightarrow> Inl (HTTPException 422)
      | Some h \<Rightarrow>
          (case find (\<lambda>e. row_hash e = h) (opt_list (ours_entries c) @ opt_list (theirs_entries c)) of
             None \<Rightarrow> Inl (HTTPException 422)
           | Some e \<Rightarrow> Inr (AList.update (file_path c) e acc)))"

definition resolve_file :: "env \<Rightarrow> pystr \<times> manifest_entry \<Rightarrow> pystr dict \<times> disk \<Rightarrow> (pystr dict \<times> disk) res" where
  "resolve_file E x st =
     (let (fp, e) = x; (files, d) = st in
      bindE (store_write E d (str ''manifests'') (serialize_manifest \<lparr>entries = [e]\<rparr>)) (\<lambda>(h, d').
        Inr (AList.update fp h files, d')))"

definition branch_head :: "int \<Rightarrow> pystr \<Rightarrow> db \<Rightarrow> pystr res" where
  "branch_head repo_id name s =
     bindE (find_ref repo_id name s) (\<lambda>f. case f of None \<Rightarrow> Inl (HTTPException 404) | Some f \<Rightarrow> Inr (rf_target f))"

definition resolve_job ::
  "env \<Rightarrow> pull_row \<Rightarrow> pystr \<Rightarrow> pystr \<Rightarrow> resolution list \<Rightarrow> pystr \<Rightarrow> pystr \<Rightarrow> disk \<Rightarrow> (disk \<times> job res) res" where
  "resolve_job E p target source rs author_name msg d =
     bindE (find_merge_base E d target source) (\<lambda>base.
     bindE (three_way_merge E d base target source) (\<lambda>(mr, d1).
     if conflicts mr = [] then Inr (d1, Inl (HTTPException 400))
     else case foldE (choose_entry (resolution_map rs)) (conflicts mr) [] of
       Inl e \<Rightarrow> Inr (d1, Inl e)
     | Inr chosen \<Rightarrow>
         bindE (foldE (resolve_file E) chosen (merged_tree_entries mr, d1)) (\<lambda>(files, d2).
         bindE (write_merge E d2 files target source author_name msg) (\<lambda>(c, ch, d3).
           Inr (d3, Inr \<lparr>jb_repo = pl_repo p, jb_ref = pl_target_ref p, jb_old = target, jb_new = ch,
                          jb_pull = Some (pl_id p), jb_commit = Some c\<rparr>)))))"

definition resolve_begin ::
  "env \<Rightarrow> token_row \<Rightarrow> pystr \<Rightarrow> int \<Rightarrow> resolution list \<Rightarrow> pystr option \<Rightarrow> pystr \<Rightarrow> db \<Rightarrow> disk \<Rightarrow> disk \<times> job res" where
  "resolve_begin E tok repo pr rs by msg s d = begun d (
     bindE (require_permission (str ''push'') tok) (\<lambda>_. bindE (get_repo repo s) (\<lambda>r. bindE (get_pr_meta (rp_id r) pr s) (\<lambda>p.
     if pl_status p \<noteq> open_status then Inl (HTTPException 400)
     else bindE (branch_head (rp_id r) (pl_target_ref p) s) (\<lambda>target.
       bindE (branch_head (rp_id r) (pl_source_ref p) s) (\<lambda>source.
         resolve_job E p target source rs (resolve_actor E tok by) msg d))))))"

section \<open>Pushing a branch\<close>

text \<open>The open pull requests of a branch that moved.\<close>

definition refreshed_at :: "env \<Rightarrow> pystr \<Rightarrow> pystr \<Rightarrow> pull_row \<Rightarrow> disk \<Rightarrow> (pull_row \<times> disk) res" where
  "refreshed_at E source target p d =
     bindE (find_merge_base E d target source) (\<lambda>base.
     bindE (compute_diff_stats E d source target) (\<lambda>st.
     bindE (compute_mergeability E d target source) (\<lambda>(mb, d').
       Inr (p\<lparr>pl_source := source, pl_target := target, pl_base := set_opt base (pl_base p),
              pl_added := stats_added st, pl_removed := stats_removed st, pl_refreshed := stats_refreshed st,
              pl_mergeable := Some (mb_mergeable mb), pl_conflicts := mb_conflicts mb\<rparr>, d'))))"

definition refreshed_pull :: "env \<Rightarrow> db \<Rightarrow> pull_row \<Rightarrow> disk \<Rightarrow> (pull_row \<times> disk) res" where
  "refreshed_pull E s p d =
     bindE (find_ref (pl_repo p) (pl_source_ref p) s) (\<lambda>sr. bindE (find_ref (pl_repo p) (pl_target_ref p) s) (\<lambda>tr.
       if sr = None \<or> tr = None then Inr (p, d) else refreshed_at E (rf_target (the sr)) (rf_target (the tr)) p d))"

definition of_ref :: "int \<Rightarrow> pystr \<Rightarrow> pull_row \<Rightarrow> bool" where
  "of_ref repo_id name p \<longleftrightarrow>
     pl_repo p = repo_id \<and> pl_status p = open_status \<and> (pl_source_ref p = name \<or> pl_target_ref p = name)"

fun refresh_pulls :: "env \<Rightarrow> db \<Rightarrow> (pull_row \<Rightarrow> bool) \<Rightarrow> pull_row list \<Rightarrow> disk \<Rightarrow> (pull_row list \<times> disk) res" where
  "refresh_pulls E s P [] d = Inr ([], d)"
| "refresh_pulls E s P (p # ps) d =
     bindE (if P p then refreshed_pull E s p d else Inr (p, d)) (\<lambda>(p', d').
     bindE (refresh_pulls E s P ps d') (\<lambda>(ps', d''). Inr (p' # ps', d'')))"

definition update_prs_for_ref_change :: "env \<Rightarrow> int \<Rightarrow> pystr \<Rightarrow> db \<Rightarrow> disk \<Rightarrow> (db \<times> disk) res" where
  "update_prs_for_ref_change E repo_id name s d =
     bindE (refresh_pulls E s (of_ref repo_id name) (db_pulls s) d) (\<lambda>(ps, d'). Inr (s\<lparr>db_pulls := ps\<rparr>, d'))"

definition check_push :: "env \<Rightarrow> int \<Rightarrow> pystr \<Rightarrow> pystr \<Rightarrow> pystr option \<Rightarrow> pystr \<Rightarrow> db \<Rightarrow> disk \<Rightarrow> unit res" where
  "check_push E repo_id ref_type name old new s d =
     (if truthy old \<and> ref_type = str ''heads''
      then (case matched_rule repo_id name s of
          None \<Rightarrow> Inr ()
        | Some rule \<Rightarrow>
            if pt_require_pr rule then Inl (HTTPException 403)
            else if pt_block_force rule
            then bindE (find_merge_base E d (the old) new) (\<lambda>base.
              if base \<noteq> old then Inl (HTTPException 403) else Inr ())
            else Inr ())
      else Inr ())"

definition push_ref :: "int \<Rightarrow> pystr \<Rightarrow> pystr option \<Rightarrow> pystr \<Rightarrow> db \<Rightarrow> db res" where
  "push_ref repo_id name old new s =
     (if \<not> truthy old
      then bindE (find_ref repo_id name s) (\<lambda>f. case f of
          Some _ \<Rightarrow> Inl (HTTPException 409)
        | None \<Rightarrow> bindE (insert_row (\<lambda>r. (rf_repo r, rf_name r)) \<lparr>rf_repo = repo_id, rf_name = name, rf_target = new\<rparr> (db_refs s))
            (\<lambda>t. Inr (s\<lparr>db_refs := t\<rparr>)))
      else (case cas_ref repo_id name (the old) new s of
          Some s' \<Rightarrow> Inr s'
        | None \<Rightarrow> bindE (find_ref repo_id name s) (\<lambda>f. Inl (HTTPException (if f = None then 404 else 409)))))"

text \<open>The update is committed before the pull requests are refreshed, which may fail.\<close>

definition cas_update_ref ::
  "env \<Rightarrow> token_row \<Rightarrow> pystr \<Rightarrow> pystr \<Rightarrow> pystr \<Rightarrow> pystr option \<Rightarrow> pystr \<Rightarrow> db \<Rightarrow> disk \<Rightarrow>
   db \<times> disk \<times> (pystr \<times> pystr) res" where
  "cas_update_ref E tok repo ref_type name old new s d =
     (case bindE (require_permission (str ''push'') tok) (\<lambda>_. bindE (get_repo repo s) (\<lambda>r.
             bindE (check_push E (rp_id r) ref_type name old new s d) (\<lambda>_.
             bindE (push_ref (rp_id r) (ref_name ref_type name) old new s) (\<lambda>s'. Inr (rp_id r, s'))))) of
        Inl e \<Rightarrow> (s, d, Inl e)
      | Inr (repo_id, s') \<Rightarrow>
          (case update_prs_for_ref_change E repo_id (ref_name ref_type name) s' d of
             Inl e \<Rightarrow> (s', d, Inl e)
           | Inr (s'', d') \<Rightarrow> (s'', d', Inr (ref_name ref_type name, new))))"

end
