(* ===== verification/Dit_Wire.thy ===== *)
theory Dit_Wire
  imports Dit_Text
begin

text \<open>
  Moving objects between a client and the server: the wire formats of
  \<open>src/dit/core/remote.py\<close> and the handlers of \<open>src/dit/server/routes/objects.py\<close>. A handler takes
  the object store of the repository, \<open>None\<close> when there is no such repository; what it stored
  before it raised stays stored. Authentication, HTTP framing and the JSON of the requests are not
  modelled: a request is its fields.
\<close>

section \<open>Base64\<close>

definition b64_char :: "nat \<Rightarrow> nat" where
  "b64_char n = (if n < 26 then 65 + n else if n < 52 then 71 + n else if n < 62 then n - 4 else if n = 62 then 43 else 47)"

definition b64_val :: "nat \<Rightarrow> nat option" where
  "b64_val c =
     (if 65 \<le> c \<and> c \<le> 90 then Some (c - 65) else if 97 \<le> c \<and> c \<le> 122 then Some (c - 71)
      else if 48 \<le> c \<and> c \<le> 57 then Some (c + 4) else if c = 43 then Some 62 else if c = 47 then Some 63 else None)"

fun b64encode :: "bytes \<Rightarrow> pystr" where
  "b64encode [] = []"
| "b64encode [a] = [b64_char (unat a div 4), b64_char (unat a mod 4 * 16), 61, 61]"
| "b64encode [a, b] =
     [b64_char (unat a div 4), b64_char (unat a mod 4 * 16 + unat b div 16), b64_char (unat b mod 16 * 4), 61]"
| "b64encode (a # b # c # r) =
     b64_char (unat a div 4) # b64_char (unat a mod 4 * 16 + unat b div 16) #
     b64_char (unat b mod 16 * 4 + unat c div 64) # b64_char (unat c mod 64) # b64encode r"

text \<open>
  \<open>binascii.a2b_base64\<close>, not strict: characters outside the alphabet are skipped, padding that
  completes a group ends the input. The state is the position in a group of four, the bits left over
  and the padding seen.
\<close>

fun a2b_base64 :: "nat \<Rightarrow> nat \<Rightarrow> nat \<Rightarrow> pystr \<Rightarrow> bytes option" where
  "a2b_base64 pos left pads [] = (if pos = 0 then Some [] else None)"
| "a2b_base64 pos left pads (c # s) =
     (if c = 61 then
        (if 2 \<le> pos \<and> 4 \<le> pos + Suc pads then Some []
         else a2b_base64 pos left (if 2 \<le> pos then Suc pads else pads) s)
      else (case b64_val c of
          None \<Rightarrow> a2b_base64 pos left pads s
        | Some v \<Rightarrow>
            if pos = 0 then a2b_base64 1 v 0 s
            else if pos = 1 then map_option ((#) (of_nat (left * 4 + v div 16))) (a2b_base64 2 (v mod 16) 0 s)
            else if pos = 2 then map_option ((#) (of_nat (left * 16 + v div 4))) (a2b_base64 3 (v mod 4) 0 s)
            else map_option ((#) (of_nat (left * 64 + v))) (a2b_base64 0 0 0 s)))"

definition b64decode :: "pystr \<Rightarrow> bytes res" where
  "b64decode s =
     (if \<exists>c \<in> set s. 128 \<le> c then Inl ValueError
      else case a2b_base64 0 0 0 s of None \<Rightarrow> Inl ValueError | Some b \<Rightarrow> Inr b)"

section \<open>The object store on the server\<close>

definition valid_obj_types :: "pystr list" where
  "valid_obj_types = map str [''commits'', ''trees'', ''manifests'', ''rows'', ''sidecars'', ''blobs'']"

definition validate_obj_type :: "pystr \<Rightarrow> unit res" where
  "validate_obj_type obj_type = (if obj_type \<in> set valid_obj_types then Inr () else Inl (HTTPException 400))"

definition max_batch_exists :: nat where "max_batch_exists = 10000"
definition max_batch_items :: nat where "max_batch_items = 200"
definition max_batch_download :: nat where "max_batch_download = 200"

definition repo_store :: "disk option \<Rightarrow> disk res" where
  "repo_store repo = (case repo of None \<Rightarrow> Inl (HTTPException 404) | Some d \<Rightarrow> Inr d)"

definition server_batch_exists :: "disk option \<Rightarrow> pystr \<Rightarrow> pystr list \<Rightarrow> bool dict res" where
  "server_batch_exists repo obj_type hashes =
     bindE (validate_obj_type obj_type) (\<lambda>_.
     if max_batch_exists < length hashes then Inl (HTTPException 400)
     else bindE (repo_store repo) (\<lambda>d. batch_exists d obj_type hashes))"

record upload_reply =
  up_accepted :: nat
  up_errors :: "pystr list"

text \<open>One object of a batch: stored if its digest is the one announced.\<close>

definition upload_item :: "env \<Rightarrow> pystr \<Rightarrow> pystr \<Rightarrow> bytes \<Rightarrow> disk \<times> upload_reply \<Rightarrow> disk \<times> upload_reply res" where
  "upload_item E obj_type hash_hex data st =
     (let (d, r) = st; computed = sha256 E data in
      if computed \<noteq> hash_hex
      then (d, Inr (r\<lparr>up_errors := up_errors r @ [hash_hex @ str '': hash mismatch (computed '' @ computed @ str '')'']\<rparr>))
      else (case store_write E d obj_type data of
          Inl x \<Rightarrow> (d, Inl x)
        | Inr (_, d') \<Rightarrow> (d', Inr (r\<lparr>up_accepted := Suc (up_accepted r)\<rparr>))))"

definition upload_item_b64 :: "env \<Rightarrow> pystr \<Rightarrow> pystr \<Rightarrow> pystr \<Rightarrow> disk \<times> upload_reply \<Rightarrow> disk \<times> upload_reply res" where
  "upload_item_b64 E obj_type hash_hex data_b64 st =
     (let (d, r) = st in
      case b64decode data_b64 of
        Inl _ \<Rightarrow> (d, Inr (r\<lparr>up_errors := up_errors r @ [hash_hex @ str '': invalid base64'']\<rparr>))
      | Inr data \<Rightarrow> upload_item E obj_type hash_hex data st)"

fun upload_items_b64 :: "env \<Rightarrow> pystr \<Rightarrow> (pystr \<times> pystr) list \<Rightarrow> disk \<times> upload_reply \<Rightarrow> disk \<times> upload_reply res" where
  "upload_items_b64 E obj_type [] (d, r) = (d, Inr r)"
| "upload_items_b64 E obj_type ((h, s) # items) st =
     (case upload_item_b64 E obj_type h s st of
        (d, Inl x) \<Rightarrow> (d, Inl x)
      | (d, Inr r) \<Rightarrow> upload_items_b64 E obj_type items (d, r))"

definition no_upload :: upload_reply where
  "no_upload = \<lparr>up_accepted = 0, up_errors = []\<rparr>"

text \<open>Running a handler on the store of a repository, if it exists.\<close>

definition on_repo :: "disk option \<Rightarrow> (disk \<Rightarrow> disk \<times> 'a res) \<Rightarrow> disk option \<times> 'a res" where
  "on_repo repo f =
     (case repo of
        None \<Rightarrow> (None, Inl (HTTPException 404))
      | Some d \<Rightarrow> (let (d', r) = f d in (Some d', r)))"

definition batch_upload ::
  "env \<Rightarrow> disk option \<Rightarrow> pystr \<Rightarrow> (pystr \<times> pystr) list \<Rightarrow> disk option \<times> upload_reply res" where
  "batch_upload E repo obj_type items =
     (case validate_obj_type obj_type of
        Inl x \<Rightarrow> (repo, Inl x)
      | Inr _ \<Rightarrow>
          if max_batch_items < length items then (repo, Inl (HTTPException 400))
          else on_repo repo (\<lambda>d. upload_items_b64 E obj_type items (d, no_upload)))"

text \<open>The binary format: slices of the body beyond its end are empty.\<close>

fun upload_items_bin :: "env \<Rightarrow> pystr \<Rightarrow> nat \<Rightarrow> bytes \<Rightarrow> disk \<times> upload_reply \<Rightarrow> disk \<times> upload_reply res" where
  "upload_items_bin E obj_type 0 body (d, r) = (d, Inr r)"
| "upload_items_bin E obj_type (Suc n) body st =
     (case utf8_decode False (take 64 body) of
        Inl x \<Rightarrow> (fst st, Inl x)
      | Inr hash_hex \<Rightarrow>
          let body1 = drop 64 body; data_len = be_val (take 4 body1); body2 = drop 4 body1 in
          (case upload_item E obj_type hash_hex (take data_len body2) st of
             (d, Inl x) \<Rightarrow> (d, Inl x)
           | (d, Inr r) \<Rightarrow> upload_items_bin E obj_type n (drop data_len body2) (d, r)))"

definition parse_upload_header :: "bytes \<Rightarrow> (pystr \<times> nat \<times> bytes) res" where
  "parse_upload_header body =
     (case body of
        [] \<Rightarrow> Inl IndexError
      | b # rest \<Rightarrow>
          bindE (utf8_decode False (take (unat b) rest)) (\<lambda>obj_type.
          bindE (validate_obj_type obj_type) (\<lambda>_.
          let rest = drop (unat b) rest; item_count = be_val (take 4 rest) in
          if max_batch_items < item_count then Inl (HTTPException 400) else Inr (obj_type, item_count, drop 4 rest))))"

definition batch_upload_bin :: "env \<Rightarrow> disk option \<Rightarrow> bytes \<Rightarrow> disk option \<times> upload_reply res" where
  "batch_upload_bin E repo body =
     on_repo repo (\<lambda>d.
       case parse_upload_header body of
         Inl x \<Rightarrow> (d, Inl x)
       | Inr (obj_type, item_count, rest) \<Rightarrow> upload_items_bin E obj_type item_count rest (d, no_upload))"

record download_reply =
  dn_items :: "(pystr \<times> pystr) list"
  dn_missing :: "pystr list"

definition download_step :: "env \<Rightarrow> disk \<Rightarrow> pystr \<Rightarrow> pystr \<Rightarrow> download_reply \<Rightarrow> download_reply res" where
  "download_step E d obj_type h r =
     bindE (store_read E d obj_type h) (\<lambda>x. Inr (case x of
       None \<Rightarrow> r\<lparr>dn_missing := dn_missing r @ [h]\<rparr>
     | Some data \<Rightarrow> r\<lparr>dn_items := dn_items r @ [(h, b64encode data)]\<rparr>))"

definition batch_download :: "env \<Rightarrow> disk option \<Rightarrow> pystr \<Rightarrow> pystr list \<Rightarrow> download_reply res" where
  "batch_download E repo obj_type hashes =
     bindE (validate_obj_type obj_type) (\<lambda>_.
     if max_batch_download < length hashes then Inl (HTTPException 400)
     else bindE (repo_store repo) (\<lambda>d.
       foldE (download_step E d obj_type) hashes \<lparr>dn_items = [], dn_missing = []\<rparr>))"

definition server_download_object :: "env \<Rightarrow> disk option \<Rightarrow> pystr \<Rightarrow> pystr \<Rightarrow> bytes res" where
  "server_download_object E repo obj_type h =
     bindE (validate_obj_type obj_type) (\<lambda>_.
     bindE (repo_store repo) (\<lambda>d. must (HTTPException 404) (store_read E d obj_type h)))"

definition server_upload_object :: "env \<Rightarrow> disk option \<Rightarrow> pystr \<Rightarrow> pystr \<Rightarrow> bytes \<Rightarrow> disk option \<times> unit res" where
  "server_upload_object E repo obj_type h body =
     (case validate_obj_type obj_type of
        Inl x \<Rightarrow> (repo, Inl x)
      | Inr _ \<Rightarrow> on_repo repo (\<lambda>d.
          if sha256 E body \<noteq> h then (d, Inl (HTTPException 400))
          else (case store_write E d obj_type body of Inl x \<Rightarrow> (d, Inl x) | Inr (_, d') \<Rightarrow> (d', Inr ()))))"

section \<open>The client\<close>

definition to_bytes4 :: "nat \<Rightarrow> bytes res" where
  "to_bytes4 n = (if 256 ^ 4 \<le> n then Inl ValueError else Inr (be_bytes 4 n))"

definition encode_item :: "pystr \<times> bytes \<Rightarrow> bytes res" where
  "encode_item item =
     bindE (utf8_encode (fst item)) (\<lambda>h. bindE (to_bytes4 (length (snd item))) (\<lambda>n. Inr (h @ n @ snd item)))"

definition encode_batch :: "pystr \<Rightarrow> (pystr \<times> bytes) list \<Rightarrow> bytes res" where
  "encode_batch obj_type items =
     bindE (utf8_encode obj_type) (\<lambda>t.
     if 256 \<le> length t then Inl ValueError
     else bindE (to_bytes4 (length items)) (\<lambda>n.
       bindE (mapE encode_item items) (\<lambda>bs. Inr (of_nat (length t) # t @ n @ concat bs))))"

fun upload_each :: "env \<Rightarrow> disk option \<Rightarrow> pystr \<Rightarrow> (pystr \<times> bytes) list \<Rightarrow> disk option \<times> unit res" where
  "upload_each E repo obj_type [] = (repo, Inr ())"
| "upload_each E repo obj_type ((h, data) # items) =
     (case server_upload_object E repo obj_type h data of
        (repo', Inl x) \<Rightarrow> (repo', Inl x)
      | (repo', Inr _) \<Rightarrow> upload_each E repo' obj_type items)"

definition upload_batch_json ::
  "env \<Rightarrow> disk option \<Rightarrow> pystr \<Rightarrow> (pystr \<times> bytes) list \<Rightarrow> disk option \<times> upload_reply res" where
  "upload_batch_json E repo obj_type items =
     (case batch_upload E repo obj_type (map (\<lambda>(h, data). (h, b64encode data)) items) of
        (repo', Inl x) \<Rightarrow>
          if x = HTTPException 404
          then (case upload_each E repo' obj_type items of
              (repo2, Inl y) \<Rightarrow> (repo2, Inl y)
            | (repo2, Inr _) \<Rightarrow> (repo2, Inr \<lparr>up_accepted = length items, up_errors = []\<rparr>))
          else (repo', Inl x)
      | (repo', Inr r) \<Rightarrow> (repo', Inr r))"

definition upload_batch ::
  "env \<Rightarrow> disk option \<Rightarrow> pystr \<Rightarrow> (pystr \<times> bytes) list \<Rightarrow> disk option \<times> upload_reply res" where
  "upload_batch E repo obj_type items =
     (case encode_batch obj_type items of
        Inl _ \<Rightarrow> upload_batch_json E repo obj_type items
      | Inr body \<Rightarrow>
          (case batch_upload_bin E repo body of
             (repo', Inr r) \<Rightarrow> (repo', Inr r)
           | (repo', Inl _) \<Rightarrow> upload_batch_json E repo' obj_type items))"

definition client_download_object :: "env \<Rightarrow> disk option \<Rightarrow> pystr \<Rightarrow> pystr \<Rightarrow> bytes option res" where
  "client_download_object E repo obj_type h =
     (case server_download_object E repo obj_type h of
        Inr b \<Rightarrow> Inr (Some b)
      | Inl x \<Rightarrow> if x = HTTPException 404 then Inr None else Inl x)"

definition download_batch :: "env \<Rightarrow> disk option \<Rightarrow> pystr \<Rightarrow> pystr list \<Rightarrow> bytes dict res" where
  "download_batch E repo obj_type hashes =
     (case batch_download E repo obj_type hashes of
        Inr r \<Rightarrow> foldE (\<lambda>(h, s) acc. bindE (b64decode s) (\<lambda>b. Inr (AList.update h b acc))) (dn_items r) []
      | Inl x \<Rightarrow>
          if x = HTTPException 404
          then foldE (\<lambda>h acc. bindE (client_download_object E repo obj_type h) (\<lambda>y. Inr (case y of
              None \<Rightarrow> acc | Some b \<Rightarrow> AList.update h b acc))) hashes []
          else Inl x)"

section \<open>Base64, there and back\<close>

lemma b64_val_char: "n < 64 \<Longrightarrow> b64_val (b64_char n) = Some n \<and> b64_char n \<noteq> 61 \<and> b64_char n < 128"
  by (auto simp: b64_val_def b64_char_def)

lemma a2b_char:
  assumes "n < 64"
  shows "a2b_base64 pos left pads (b64_char n # s) =
    (if pos = 0 then a2b_base64 1 n 0 s
     else if pos = 1 then map_option ((#) (of_nat (left * 4 + n div 16))) (a2b_base64 2 (n mod 16) 0 s)
     else if pos = 2 then map_option ((#) (of_nat (left * 16 + n div 4))) (a2b_base64 3 (n mod 4) 0 s)
     else map_option ((#) (of_nat (left * 64 + n))) (a2b_base64 0 0 0 s))"
  using b64_val_char [OF assms] by simp

lemma a2b_pad: "a2b_base64 pos left pads (61 # s) =
    (if 2 \<le> pos \<and> 4 \<le> pos + Suc pads then Some []
     else a2b_base64 pos left (if 2 \<le> pos then Suc pads else pads) s)"
  by simp

declare a2b_base64.simps(2) [simp del]

lemma byte_lt: "unat (a :: 8 word) < 256"
  using unsigned_less [of a, where ?'a = nat] by simp

lemma sextets:
  fixes a b c :: "8 word"
  shows "unat a div 4 < 64" "unat a mod 4 * 16 < 64" "unat a mod 4 * 16 + unat b div 16 < 64"
    "unat b mod 16 * 4 < 64" "unat b mod 16 * 4 + unat c div 64 < 64" "unat c mod 64 < 64"
    "(unat a mod 4 * 16 + unat b div 16) div 16 = unat a mod 4" "(unat a mod 4 * 16 + unat b div 16) mod 16 = unat b div 16"
    "(unat b mod 16 * 4 + unat c div 64) div 4 = unat b mod 16" "(unat b mod 16 * 4 + unat c div 64) mod 4 = unat c div 64"
proof -
  have a: "unat a mod 4 < 4" "unat b mod 16 < 16" "unat b div 16 < 16" "unat c div 64 < 4" "unat a div 4 < 64"
    using byte_lt [of a] byte_lt [of b] byte_lt [of c] by (simp_all add: less_mult_imp_div_less)
  then show "unat a div 4 < 64" "unat a mod 4 * 16 < 64" "unat a mod 4 * 16 + unat b div 16 < 64"
    "unat b mod 16 * 4 < 64" "unat b mod 16 * 4 + unat c div 64 < 64" "unat c mod 64 < 64" by simp_all
  show "(unat a mod 4 * 16 + unat b div 16) div 16 = unat a mod 4" "(unat a mod 4 * 16 + unat b div 16) mod 16 = unat b div 16"
    "(unat b mod 16 * 4 + unat c div 64) div 4 = unat b mod 16" "(unat b mod 16 * 4 + unat c div 64) mod 4 = unat c div 64"
    using a by simp_all
qed

lemma joined:
  fixes a :: "8 word"
  shows "of_nat (unat a div 4 * 4 + unat a mod 4) = a" "of_nat (unat a div 16 * 16 + unat a mod 16) = a"
    "of_nat (unat a div 64 * 64 + unat a mod 64) = a"
  by simp_all

lemma a2b_encode: "a2b_base64 0 0 0 (b64encode bs) = Some bs"
proof (induction bs rule: b64encode.induct)
  case (2 a)
  have "unat a mod 4 * 16 div 16 = unat a mod 4" "unat a mod 4 * 16 mod 16 = 0" by simp_all
  then show ?case using sextets(1,2) [of a] joined(1) [of a]
    by (simp add: a2b_char a2b_pad del: of_nat_add of_nat_mult)
next
  case (3 a b)
  have "unat b mod 16 * 4 div 4 = unat b mod 16" "unat b mod 16 * 4 mod 4 = 0" by simp_all
  then show ?case using sextets(1) [of a] sextets(3,7,8) [of a b] sextets(4) [of b] joined(1) [of a] joined(2) [of b]
    by (simp add: a2b_char a2b_pad del: of_nat_add of_nat_mult)
next
  case (4 a b c r)
  then show ?case using sextets(1) [of a] sextets(3,7,8) [of a b] sextets(5,9,10) [of b c] sextets(6) [of c] joined(1) [of a] joined(2) [of b] joined(3) [of c]
    by (simp add: a2b_char a2b_pad del: of_nat_add of_nat_mult)
qed simp

lemma b64encode_ascii: "c \<in> set (b64encode bs) \<Longrightarrow> c < 128"
proof (induction bs rule: b64encode.induct)
  case (2 a)
  then show ?case using sextets(1,2) [of a] b64_val_char by auto
next
  case (3 a b)
  then show ?case using sextets(1) [of a] sextets(3) [of a b] sextets(4) [of b] b64_val_char by auto
next
  case (4 a b c r)
  then show ?case using sextets(1) [of a] sextets(3) [of a b] sextets(5) [of b c] sextets(6) [of c] b64_val_char by auto
qed simp

lemma b64_roundtrip: "b64decode (b64encode bs) = Inr bs"
  using b64encode_ascii [of _ bs] a2b_encode [of bs] by (force simp: b64decode_def)

section \<open>The wire format, there and back\<close>

lemma utf8_encode_ascii: "\<forall>c \<in> set s. c < 128 \<Longrightarrow> utf8_encode s = Inr (ascii_encode s)"
  unfolding utf8_encode_def ascii_encode_def
  by (induction s) (auto simp: utf8_char_def bindE_eq_Inr)

lemma hex_digest_ascii: "hex_digest h \<Longrightarrow> length h = 64 \<and> (\<forall>c \<in> set h. c < 128)"
  by (auto simp: hex_digest_def hex_char_def)

lemma length_ascii [simp]: "length (ascii_encode s) = length s"
  by (simp add: ascii_encode_def)

lemma encode_item_ok:
  assumes "env_ok E" "length b < 256 ^ 4"
  shows "encode_item (sha256 E b, b) = Inr (ascii_encode (sha256 E b) @ be_bytes 4 (length b) @ b)"
  using assms hex_digest_ascii [OF env_okD(1) [OF assms(1), of b]]
  by (simp add: encode_item_def utf8_encode_ascii to_bytes4_def)

lemma upload_item_ok:
  "env_ok E \<Longrightarrow> upload_item E (str ty) (sha256 E b) b (d, r) = (put E ty b d, Inr (r\<lparr>up_accepted := Suc (up_accepted r)\<rparr>))"
  by (simp add: upload_item_def store_write_put)

lemma upload_items_bin_ok:
  assumes "env_ok E" "\<forall>b \<in> set bs. length b < 256 ^ 4"
  shows "upload_items_bin E (str ty) (length bs)
      (concat (map (\<lambda>b. ascii_encode (sha256 E b) @ be_bytes 4 (length b) @ b) bs)) (d, r) =
    (fold (put E ty) bs d, Inr (r\<lparr>up_accepted := up_accepted r + length bs\<rparr>))"
  using assms(2)
proof (induction bs arbitrary: d r)
  case (Cons b bs)
  let ?rest = "concat (map (\<lambda>b. ascii_encode (sha256 E b) @ be_bytes 4 (length b) @ b) bs)"
  have h: "length (sha256 E b) = 64" "utf8_decode False (ascii_encode (sha256 E b)) = Inr (sha256 E b)"
    using hex_digest_ascii [OF env_okD(1) [OF assms(1), of b]] by (auto intro: utf8_decode_ascii)
  have len: "be_val (be_bytes 4 (length b)) = length b" using Cons.prems by (intro be_val_be_bytes) simp
  show ?case
    using Cons.IH [of "put E ty b d"] Cons.prems
    by (simp add: h len upload_item_ok [OF assms(1)] Let_def del: be_bytes.simps)
qed simp

lemma upload_items_b64_ok:
  assumes "env_ok E"
  shows "upload_items_b64 E (str ty) (map (\<lambda>b. (sha256 E b, b64encode b)) bs) (d, r) =
    (fold (put E ty) bs d, Inr (r\<lparr>up_accepted := up_accepted r + length bs\<rparr>))"
  by (induction bs arbitrary: d r) (simp_all add: upload_item_b64_def b64_roundtrip upload_item_ok [OF assms])

lemma valid_type_ascii: "str ty \<in> set valid_obj_types \<Longrightarrow> length ty < 256 \<and> (\<forall>c \<in> set (str ty). c < 128)"
  by (auto simp: valid_obj_types_def str_def)

lemma encode_batch_ok:
  assumes "env_ok E" "str ty \<in> set valid_obj_types" "length bs \<le> 200" "\<forall>b \<in> set bs. length b < 256 ^ 4"
  shows "encode_batch (str ty) (map (\<lambda>b. (sha256 E b, b)) bs) =
    Inr (of_nat (length ty) # ascii_encode (str ty) @ be_bytes 4 (length bs) @
      concat (map (\<lambda>b. ascii_encode (sha256 E b) @ be_bytes 4 (length b) @ b) bs))"
proof -
  have "mapE encode_item (map (\<lambda>b. (sha256 E b, b)) bs) =
      Inr (map (\<lambda>b. ascii_encode (sha256 E b) @ be_bytes 4 (length b) @ b) bs)"
    unfolding mapE_map by (rule mapE_all_Inr) (use encode_item_ok assms(1,4) in auto)
  then show ?thesis using valid_type_ascii [OF assms(2)] assms(3)
    by (simp add: encode_batch_def utf8_encode_ascii to_bytes4_def del: be_bytes.simps)
qed

lemma parse_header_ok:
  assumes "str ty \<in> set valid_obj_types" "n \<le> 200"
  shows "parse_upload_header (of_nat (length ty) # ascii_encode (str ty) @ be_bytes 4 n @ rest) = Inr (str ty, n, rest)"
proof -
  have "unat (of_nat (length ty) :: 8 word) = length ty" using valid_type_ascii [OF assms(1)] by (simp add: unat_of_nat)
  moreover have "utf8_decode False (ascii_encode (str ty)) = Inr (str ty)"
    using valid_type_ascii [OF assms(1)] by (auto intro: utf8_decode_ascii)
  moreover have "be_val (be_bytes 4 n) = n" using assms(2) by (intro be_val_be_bytes) simp
  ultimately show ?thesis using assms
    by (simp add: parse_upload_header_def validate_obj_type_def max_batch_items_def Let_def del: be_bytes.simps)
qed

text \<open>
  C29: A batch upload arrives. For up to 200 objects with their digests, the server reads from the
  binary message exactly what the client put in: all are accepted, none is refused, every object can
  be read from the store of the repository and nothing stored before is lost. The base64 format of the
  fallback does exactly the same.
\<close>

theorem upload_batch_arrives:
  assumes "store_inv E d" and "str ty \<in> set valid_obj_types" and "length bs \<le> 200"
    and "\<forall>b \<in> set bs. length b < 256 ^ 4" and "collision_free E d ty bs"
  shows "\<exists>d'. upload_batch E (Some d) (str ty) (map (\<lambda>b. (sha256 E b, b)) bs) =
      (Some d', Inr \<lparr>up_accepted = length bs, up_errors = []\<rparr>) \<and>
    upload_batch_json E (Some d) (str ty) (map (\<lambda>b. (sha256 E b, b)) bs) =
      (Some d', Inr \<lparr>up_accepted = length bs, up_errors = []\<rparr>) \<and>
    store_inv E d' \<and> map_of d \<subseteq>\<^sub>m map_of d' \<and>
    (\<forall>b \<in> set bs. store_read E d' (str ty) (sha256 E b) = Inr (Some b))"
proof -
  have ok: "env_ok E" using assms(1) by auto
  let ?items = "map (\<lambda>b. (sha256 E b, b)) bs"
  have "upload_batch_json E (Some d) (str ty) ?items =
      (Some (fold (put E ty) bs d), Inr \<lparr>up_accepted = length bs, up_errors = []\<rparr>)"
    using assms(2,3) upload_items_b64_ok [OF ok, of ty bs d no_upload]
    by (simp add: upload_batch_json_def batch_upload_def validate_obj_type_def max_batch_items_def on_repo_def
        no_upload_def comp_def)
  moreover have "upload_batch E (Some d) (str ty) ?items =
      (Some (fold (put E ty) bs d), Inr \<lparr>up_accepted = length bs, up_errors = []\<rparr>)"
    using upload_items_bin_ok [OF ok assms(4), of ty d no_upload]
    by (simp add: upload_batch_def encode_batch_ok [OF ok assms(2-4)] batch_upload_bin_def on_repo_def
        parse_header_ok [OF assms(2,3)] no_upload_def)
  ultimately show ?thesis using puts_inv [OF assms(1)] puts_mono puts_read [OF assms(1,5)] by blast
qed

theorem upload_batch_arrives_witness:
  "\<exists>d'. upload_batch demo_env (Some []) (str ''rows'') [(demo_digest [1], [1])] =
     (Some d', Inr \<lparr>up_accepted = 1, up_errors = []\<rparr>) \<and>
     store_read demo_env d' (str ''rows'') (demo_digest [1]) = Inr (Some [1])"
proof -
  have "store_inv demo_env []" by (simp add: store_inv_def wf_dict_def)
  moreover have "str ''rows'' \<in> set valid_obj_types" by (simp add: valid_obj_types_def)
  moreover have "collision_free demo_env [] ''rows'' [[1]]" by (rule collision_free_Nil) simp
  ultimately show ?thesis using upload_batch_arrives [of demo_env "[]" "''rows''" "[[1]]"] by auto
qed

end
