(* ===== verification/Dit_Server.thy ===== *)
theory Dit_Server
  imports Dit_Pulls Dit_Wire
begin

text \<open>
  The server as a whole: requests served one after the other, and merges in progress between them.
\<close>

section \<open>Branches as a map\<close>

definition branch :: "db \<Rightarrow> int \<times> pystr \<Rightarrow> pystr option" where
  "branch s = map_of (map (\<lambda>r. ((rf_repo r, rf_name r), rf_target r)) (db_refs s))"

lemma branch_keys: "branch s (i, n) = None \<longleftrightarrow> (i, n) \<notin> (\<lambda>r. (rf_repo r, rf_name r)) ` set (db_refs s)"
  by (force simp: branch_def map_of_eq_None_iff)

lemma branch_row: "refs.unique s \<Longrightarrow> branch s (i, n) = Some h \<longleftrightarrow> (\<exists>r \<in> set (db_refs s). rf_repo r = i \<and> rf_name r = n \<and> rf_target r = h)"
  unfolding branch_def refs.unique_def by (subst map_of_eq_Some_iff) (auto simp: o_def)

lemma find_ref_branch: "refs.unique s \<Longrightarrow> find_ref i n s = Inr (Some r) \<Longrightarrow> branch s (i, n) = Some (rf_target r)"
  by (auto simp: find_ref_Some branch_row)

lemma find_ref_no_branch: "refs.unique s \<Longrightarrow> find_ref i n s = Inr None \<longleftrightarrow> branch s (i, n) = None"
  by (simp only: find_ref_None branch_keys)

lemma branch_alter:
  assumes "distinct (map (\<lambda>r. (rf_repo r, rf_name r)) t)" "r \<in> set t" "rf_repo r = i" "rf_name r = n" "rf_target r = old"
  shows "map_of (map (\<lambda>r. ((rf_repo r, rf_name r), rf_target r))
      (alter_rows (\<lambda>r. rf_repo r = i \<and> rf_name r = n \<and> rf_target r = old) (rf_target_update (\<lambda>_. new)) t)) =
    (map_of (map (\<lambda>r. ((rf_repo r, rf_name r), rf_target r)) t))((i, n) := Some new)"
  using assms
proof (induction t)
  case (Cons x t)
  show ?case
  proof (cases "x = r")
    case True
    have "(i, n) \<notin> (\<lambda>r. (rf_repo r, rf_name r)) ` set t" using Cons.prems(1) unfolding Cons.prems(3,4) [symmetric] True by simp
    then have "\<forall>y \<in> set t. \<not> (rf_repo y = i \<and> rf_name y = n)" by (auto simp: image_iff)
    then have "alter_rows (\<lambda>r. rf_repo r = i \<and> rf_name r = n \<and> rf_target r = old) (rf_target_update (\<lambda>_. new)) t = t"
      unfolding alter_rows_def by (intro map_idI) auto
    with True Cons.prems(3-) show ?thesis by (simp add: alter_rows_def fun_eq_iff)
  next
    case False
    then have r: "r \<in> set t" using Cons.prems(2) by auto
    moreover have "(rf_repo x, rf_name x) \<noteq> (i, n)" using Cons.prems r by force
    ultimately show ?thesis using Cons by (auto simp: alter_rows_def fun_eq_iff)
  qed
qed simp

text \<open>The update is a compare-and-swap on that map.\<close>

lemma cas_ref_None: "refs.unique s \<Longrightarrow> cas_ref i n old new s = None \<longleftrightarrow> branch s (i, n) \<noteq> Some old"
  by (auto simp: cas_ref_def Let_def branch_row)

lemma cas_ref_Some:
  assumes "db_ok s" "cas_ref i n old new s = Some s'"
  shows "branch s (i, n) = Some old" "branch s' = (branch s)((i, n) := Some new)" "db_ok s'"
    "db_protections s' = db_protections s" "db_repos s' = db_repos s" "db_pulls s' = db_pulls s" "db_next s' = db_next s"
proof -
  have u: "refs.unique s" using assms(1) by (simp add: db_ok_def)
  from assms(2) obtain r where r: "r \<in> set (db_refs s)" "rf_repo r = i" "rf_name r = n" "rf_target r = old"
    and s': "s' = s\<lparr>db_refs := alter_rows (\<lambda>r. rf_repo r = i \<and> rf_name r = n \<and> rf_target r = old) (rf_target_update (\<lambda>_. new)) (db_refs s)\<rparr>"
    by (auto simp: cas_ref_def Let_def split: if_split_asm)
  show "branch s (i, n) = Some old" using r by (auto simp: branch_row [OF u])
  show "branch s' = (branch s)((i, n) := Some new)"
    using branch_alter [OF _ r] u unfolding s' by (simp add: branch_def refs.unique_def)
  have "map (\<lambda>r. (rf_repo r, rf_name r)) (db_refs s') = map (\<lambda>r. (rf_repo r, rf_name r)) (db_refs s)"
    by (simp add: s' map_alter_rows)
  then show "db_ok s'" using assms(1) by (auto simp: db_ok_defs) (simp_all add: s')
qed (use assms(2) in \<open>auto simp: cas_ref_def Let_def split: if_split_asm\<close>)

lemma finish_job_Inr:
  assumes "db_ok s" "finish_job j s = Inr (s', x)"
  shows "branch s (jb_repo j, jb_ref j) = Some (jb_old j)"
    "branch s' = (branch s)((jb_repo j, jb_ref j) := Some (jb_new j))" "db_ok s'"
    "db_protections s' = db_protections s" "db_repos s' = db_repos s" "db_next s' = db_next s"
proof -
  from assms(2) obtain s1 where s1: "cas_ref (jb_repo j) (jb_ref j) (jb_old j) (jb_new j) s = Some s1"
    and s': "s' = (case jb_pull j of None \<Rightarrow> s1
       | Some i \<Rightarrow> s1\<lparr>db_pulls := alter_rows (\<lambda>p. pl_id p = i) (mark_merged (jb_new j)) (db_pulls s1)\<rparr>)"
    by (auto simp: finish_defs split: option.split_asm)
  have k: "map pull_key (alter_rows P (mark_merged h) t) = map pull_key t" for P h t
    by (simp add: map_alter_rows mark_merged_def)
  note c = cas_ref_Some [OF assms(1) s1]
  show "branch s (jb_repo j, jb_ref j) = Some (jb_old j)" by (rule c(1))
  show "branch s' = (branch s)((jb_repo j, jb_ref j) := Some (jb_new j))"
    using c(2) by (auto simp: s' branch_def split: option.split)
  show "db_ok s'" using c(3) k unfolding s' by (auto simp: db_ok_defs split: option.split)
  show "db_protections s' = db_protections s" "db_repos s' = db_repos s" "db_next s' = db_next s"
    using c(4,5,7) by (simp_all add: s' split: option.split)
qed

lemma push_ref_all:
  assumes "db_ok s" "push_ref i n old new s = Inr s'"
  shows "branch s (i, n) = (if truthy old then old else None) \<and> branch s' = (branch s)((i, n) := Some new) \<and> db_ok s' \<and>
    db_protections s' = db_protections s \<and> db_repos s' = db_repos s \<and> db_pulls s' = db_pulls s \<and> db_next s' = db_next s"
proof (cases "truthy old")
  case True
  with assms(2) have "cas_ref i n (the old) new s = Some s'"
    by (auto simp: push_ref_def bindE_eq_Inr split: option.split_asm)
  note c = cas_ref_Some [OF assms(1) this]
  have "Some (the old) = old" using True by (cases old) auto
  with c True show ?thesis by simp
next
  case False
  have u: "refs.unique s" using assms(1) by (simp add: db_ok_def)
  from False assms(2) obtain t where f: "find_ref i n s = Inr None" and t: "insert_row (\<lambda>r. (rf_repo r, rf_name r))
      \<lparr>rf_repo = i, rf_name = n, rf_target = new\<rparr> (db_refs s) = Inr t" "s' = s\<lparr>db_refs := t\<rparr>"
    by (auto simp: push_ref_def bindE_eq_Inr split: option.split_asm)
  have n: "branch s (i, n) = None" using f u by (simp add: find_ref_no_branch)
  have "branch s' = (branch s)((i, n) := Some new)"
    using t n by (auto simp: insert_row_def branch_def map_add_def fun_eq_iff split: if_split_asm option.split)
  moreover have "db_ok s'" using assms(1) t by (auto simp: db_ok_defs insert_row_def split: if_split_asm)
  ultimately show ?thesis using n False t(2) by simp
qed

lemmas push_ref_Inr = push_ref_all [THEN conjunct1] push_ref_all [THEN conjunct2]

section \<open>The store only grows\<close>

lemma grows_write_merge [grow_intros]: "write_merge E d files t s a m = Inr (c, ch, d') \<Longrightarrow> grows E d d'"
  by (auto simp: write_merge_def bindE_eq_Inr Let_def intro: grows_trans dest: grows_write)

lemma grows_resolve [grow_intros]:
  assumes "foldE (resolve_file E) xs (files, d) = Inr (files', d')"
  shows "grows E d d'"
proof -
  have "grows E d (snd (files', d'))"
    by (rule foldE_invariant [OF assms, where P = "\<lambda>st. grows E d (snd st)"])
       (auto simp: grows_refl resolve_file_def bindE_eq_Inr dest!: grows_write intro: grows_trans)
  then show ?thesis by simp
qed

lemma grows_mergeability [grow_intros]: "compute_mergeability E d t s = Inr (mb, d') \<Longrightarrow> grows E d d'"
  by (auto simp: compute_mergeability_def bindE_eq_Inr dest: grows_merge)

lemma grows_refreshed [grow_intros]: "refreshed_pull E s p d = Inr (p', d') \<Longrightarrow> grows E d d'"
  by (auto simp: refreshed_pull_def refreshed_at_def bindE_eq_Inr grows_refl dest: grows_mergeability split: if_split_asm)

lemma grows_refresh_pulls [grow_intros]: "refresh_pulls E s P ps d = Inr (ps', d') \<Longrightarrow> grows E d d'"
  by (induction E s P ps d arbitrary: ps' d' rule: refresh_pulls.induct)
     (auto simp: bindE_eq_Inr grows_refl intro: grows_trans dest: grows_refreshed split: if_split_asm)

lemma grows_job:
  assumes "merge_job E i ref pull t s a m d = Inr (d', r)"
  shows "grows E d d'"
  using assms by (auto simp: merge_job_def bindE_eq_Inr grows_refl intro: grows_trans dest: grows_merge grows_write_merge split: if_split_asm)

lemma grows_resolve_job: "resolve_job E p t s rs a m d = Inr (d', r) \<Longrightarrow> grows E d d'"
  by (auto simp: resolve_job_def bindE_eq_Inr grows_refl dest: grows_merge split: if_split_asm sum.split_asm)
     (meson grows_trans grows_merge grows_write_merge grows_resolve)

lemma grows_begun: "begun d m = (d', r) \<Longrightarrow> (\<And>r. m = Inr (d', r) \<Longrightarrow> grows E d d') \<Longrightarrow> grows E d d'"
  by (auto simp: begun_def grows_refl split: sum.split_asm)

lemma grows_merge_begin: "merge_begin E tok repo body s d = (d', r) \<Longrightarrow> grows E d d'"
  unfolding merge_begin_def by (erule grows_begun) (auto simp: bindE_eq_Inr dest: grows_job)

lemma grows_merge_pull_begin: "merge_pull_begin E tok repo pr by_name msg s d = (d', r) \<Longrightarrow> grows E d d'"
  unfolding merge_pull_begin_def by (erule grows_begun) (auto simp: bindE_eq_Inr dest: grows_job split: if_split_asm)

lemma grows_resolve_begin: "resolve_begin E tok repo pr rs by_name msg s d = (d', r) \<Longrightarrow> grows E d d'"
  unfolding resolve_begin_def by (erule grows_begun) (auto simp: bindE_eq_Inr dest: grows_resolve_job split: if_split_asm)

lemma grows_cas_update: "cas_update_ref E tok repo ref_type name old new s d = (s', d', r) \<Longrightarrow> grows E d d'"
  by (auto simp: cas_update_ref_def update_prs_for_ref_change_def bindE_eq_Inr grows_refl
      dest: grows_refresh_pulls split: sum.split_asm)

lemma grows_upload_item: "upload_item E ty h data (d, r) = (d', r') \<Longrightarrow> grows E d d'"
  by (auto simp: upload_item_def Let_def grows_refl dest: grows_write split: if_split_asm sum.split_asm)

lemma grows_upload_b64: "upload_items_b64 E ty items st = (d', r') \<Longrightarrow> grows E (fst st) d'"
  by (induction E ty items st rule: upload_items_b64.induct)
     (auto simp: upload_item_b64_def Let_def grows_refl dest!: grows_upload_item intro: grows_trans
       split: sum.split_asm prod.split_asm)

lemma grows_upload_bin: "upload_items_bin E ty n body (d, r) = (d', r') \<Longrightarrow> grows E d d'"
proof (induction n arbitrary: body d r)
  case (Suc n)
  show ?case
  proof (cases "utf8_decode False (take 64 body)")
    case (Inl x)
    with Suc.prems show ?thesis by (simp add: grows_refl)
  next
    case (Inr h)
    let ?len = "be_val (take 4 (drop 64 body))"
    obtain d1 x where u: "upload_item E ty h (take ?len (drop 68 body)) (d, r) = (d1, x)" by fastforce
    with Suc.prems Inr have "(case x of Inl x \<Rightarrow> (d1, Inl x)
        | Inr r1 \<Rightarrow> upload_items_bin E ty n (drop (68 + ?len) body) (d1, r1)) = (d', r')"
      by (simp add: Let_def)
    with Suc.IH have "grows E d1 d'" by (auto simp: grows_refl split: sum.split_asm)
    with grows_upload_item [OF u] show ?thesis by (rule grows_trans)
  qed
qed (simp add: grows_refl)

text \<open>Storing objects, in any of the three ways.\<close>

inductive upload_step :: "env \<Rightarrow> disk \<Rightarrow> disk \<Rightarrow> bool" for E where
  json: "batch_upload E (Some d) ty items = (Some d', r) \<Longrightarrow> upload_step E d d'"
| binary: "batch_upload_bin E (Some d) body = (Some d', r) \<Longrightarrow> upload_step E d d'"
| single: "server_upload_object E (Some d) ty h body = (Some d', r) \<Longrightarrow> upload_step E d d'"

lemma grows_upload: "upload_step E d d' \<Longrightarrow> grows E d d'"
  by (induction rule: upload_step.induct)
     (auto simp: batch_upload_def batch_upload_bin_def server_upload_object_def on_repo_def Let_def grows_refl
       dest!: grows_upload_b64 grows_upload_bin dest: grows_write split: if_split_asm sum.split_asm prod.split_asm)

lemma parents_grow:
  assumes "map_of d \<subseteq>\<^sub>m map_of d'"
  shows "set (commit_parents E d h) \<subseteq> set (commit_parents E d' h)"
proof (cases "commit_parents E d h = []")
  case False
  then obtain c where "read_commit E d h = Inr (Some c)" by (auto simp: commit_parents_def split: sum.splits option.splits)
  with read_mono(1) [OF assms this] show ?thesis by (simp add: commit_parents_def)
qed simp

lemma ancestor_grows: "map_of d \<subseteq>\<^sub>m map_of d' \<Longrightarrow> ancestor E d a b \<Longrightarrow> ancestor E d' a b"
  unfolding ancestor_def commits.edges_def
  by (erule rtrancl_mono [THEN subsetD, rotated]) (use parents_grow in blast)

section \<open>Requests, and merges in progress\<close>

record server =
  sv_db :: db
  sv_disk :: "pystr \<Rightarrow> disk"
  sv_jobs :: "job list"

definition set_disk :: "pystr \<Rightarrow> disk \<Rightarrow> server \<Rightarrow> server" where
  "set_disk repo d S = S\<lparr>sv_disk := (sv_disk S)(repo := d)\<rparr>"

definition add_job :: "job res \<Rightarrow> server \<Rightarrow> server" where
  "add_job r S = (case r of Inl _ \<Rightarrow> S | Inr j \<Rightarrow> S\<lparr>sv_jobs := j # sv_jobs S\<rparr>)"

text \<open>The three handlers that merge, up to their update.\<close>

inductive begins :: "env \<Rightarrow> db \<Rightarrow> disk \<Rightarrow> pystr \<Rightarrow> disk \<Rightarrow> job res \<Rightarrow> bool" for E s d where
  merge: "merge_begin E tok repo body s d = (d', r) \<Longrightarrow> begins E s d repo d' r"
| pull: "merge_pull_begin E tok repo pr by_name msg s d = (d', r) \<Longrightarrow> begins E s d repo d' r"
| resolve: "resolve_begin E tok repo pr rs by_name msg s d = (d', r) \<Longrightarrow> begins E s d repo d' r"

text \<open>The commit of the job is read back: its digest is that of no other stored commit.\<close>

definition commit_kept :: "env \<Rightarrow> disk \<Rightarrow> job res \<Rightarrow> bool" where
  "commit_kept E d r \<longleftrightarrow>
     (case r of Inr j \<Rightarrow> (case jb_commit j of Some c \<Rightarrow> read_commit E d (jb_new j) = Inr (Some c) | None \<Rightarrow> True) | Inl _ \<Rightarrow> True)"

text \<open>
  One step: a request, or the update of a merge in progress. A type of refs is one component of a
  path, so it has no slash. \<open>admin\<close> says whether rules are edited and refs deleted.
\<close>

inductive server_step :: "env \<Rightarrow> bool \<Rightarrow> server \<Rightarrow> server \<Rightarrow> bool" for E admin where
  data: "data_step E (sv_db S) s' \<Longrightarrow> server_step E admin S (S\<lparr>sv_db := s'\<rparr>)"
| config: "admin \<Longrightarrow> config_step (sv_db S) s' \<Longrightarrow> server_step E admin S (S\<lparr>sv_db := s'\<rparr>)"
| upload: "upload_step E (sv_disk S repo) d' \<Longrightarrow> server_step E admin S (set_disk repo d' S)"
| preview: "merge_preview E tok repo source target (sv_db S) (sv_disk S repo) = Inr (mb, d') \<Longrightarrow>
    server_step E admin S (set_disk repo d' S)"
| create: "create_pull_request E tok repo body (sv_db S) (sv_disk S repo) = Inr (s', d', p) \<Longrightarrow>
    server_step E admin S (set_disk repo d' (S\<lparr>sv_db := s'\<rparr>))"
| edit: "update_pull_request tok repo pr title status (sv_db S) = Inr (s', p) \<Longrightarrow> server_step E admin S (S\<lparr>sv_db := s'\<rparr>)"
| push: "slash \<notin> set ref_type \<Longrightarrow>
    cas_update_ref E tok repo ref_type name old new (sv_db S) (sv_disk S repo) = (s', d', r) \<Longrightarrow>
    server_step E admin S (set_disk repo d' (S\<lparr>sv_db := s'\<rparr>))"
| started: "begins E (sv_db S) (sv_disk S repo) repo d' r \<Longrightarrow> commit_kept E d' r \<Longrightarrow>
    server_step E admin S (add_job r (set_disk repo d' S))"
| finish: "j \<in> set (sv_jobs S) \<Longrightarrow> finish_job j (sv_db S) = Inr (s', x) \<Longrightarrow>
    server_step E admin S (S\<lparr>sv_db := s', sv_jobs := remove1 j (sv_jobs S)\<rparr>)"
| drop: "j \<in> set (sv_jobs S) \<Longrightarrow> finish_job j (sv_db S) = Inl e \<Longrightarrow>
    server_step E admin S (S\<lparr>sv_jobs := remove1 j (sv_jobs S)\<rparr>)"

abbreviation server_reach :: "env \<Rightarrow> bool \<Rightarrow> server \<Rightarrow> server \<Rightarrow> bool" where
  "server_reach E admin \<equiv> (server_step E admin)\<^sup>*\<^sup>*"

section \<open>What the handlers do to the database\<close>

definition ids_ok :: "db \<Rightarrow> bool" where
  "ids_ok s \<longleftrightarrow> distinct (map rp_id (db_repos s)) \<and> (\<forall>r \<in> set (db_repos s). rp_id r < db_next s)"

lemma ids_ok_next: "ids_ok s \<Longrightarrow> db_repos s' = db_repos s \<Longrightarrow> db_next s \<le> db_next s' \<Longrightarrow> ids_ok s'"
  by (fastforce simp: ids_ok_def)

lemma need_row_Inr: "need_row xs = Inr x \<Longrightarrow> x \<in> set xs"
  by (auto simp: need_row_def bindE_eq_Inr one_or_none_def split: list.split_asm)

lemma get_repo_Inr: "get_repo repo s = Inr R \<Longrightarrow> R \<in> set (db_repos s) \<and> rp_name R = repo"
  unfolding get_repo_def by (drule need_row_Inr) simp

lemma get_pr_Inr: "get_pr_meta i pr s = Inr p \<Longrightarrow> p \<in> set (db_pulls s) \<and> pl_repo p = i \<and> pl_number p = pr"
  unfolding get_pr_meta_def by (drule need_row_Inr) simp

lemma same_repo: "ids_ok s \<Longrightarrow> R \<in> set (db_repos s) \<Longrightarrow> R' \<in> set (db_repos s) \<Longrightarrow> rp_id R = rp_id R' \<Longrightarrow> R = R'"
  by (auto simp: ids_ok_def distinct_map inj_on_def)

lemma data_step_ids: "data_step E s s' \<Longrightarrow> ids_ok s \<Longrightarrow> ids_ok s' \<and> set (db_repos s) \<subseteq> set (db_repos s')"
proof (cases "\<exists>tok name r. create_repo tok name s = Inr (s', r)")
  case True
  moreover assume "ids_ok s"
  ultimately show ?thesis
    by (fastforce simp: create_repo_def insert_row_def bump_def ids_ok_def bindE_eq_Inr Let_def split: if_split_asm)
next
  case False
  assume "data_step E s s'" "ids_ok s"
  moreover from this(1) False have "db_repos s' = db_repos s \<and> db_next s \<le> db_next s'"
    by (induction rule: data_step.induct)
       (auto simp: small_handlers table_defs bindE_eq_Inr split: if_split_asm elim!: submit_review_Inr report_check_Inr)
  ultimately show ?thesis using ids_ok_next by simp
qed

lemma config_step_ids: "config_step s s' \<Longrightarrow> db_repos s' = db_repos s \<and> db_next s \<le> db_next s'"
  by (induction rule: config_step.induct)
     (auto simp: create_branch_protection_rule_def update_branch_protection_rule_def delete_branch_protection_rule_def
        delete_ref_def table_defs bindE_eq_Inr split: if_split_asm option.split_asm)

text \<open>A handler that leaves repositories, rules and refs as they are.\<close>

definition same_refs :: "db \<Rightarrow> db \<Rightarrow> bool" where
  "same_refs s s' \<longleftrightarrow> db_refs s' = db_refs s \<and> db_protections s' = db_protections s \<and> set (db_repos s) \<subseteq> set (db_repos s') \<and>
     (db_ok s \<longrightarrow> db_ok s') \<and> (ids_ok s \<longrightarrow> ids_ok s')"

lemma data_same: "data_step E s s' \<Longrightarrow> ids_ok s \<Longrightarrow> same_refs s s'"
  using data_step_frame data_step_ok data_step_ids by (fastforce simp: same_refs_def)

lemma create_pull_same: "create_pull_request E tok repo body s d = Inr (s', d', p) \<Longrightarrow> same_refs s s' \<and> grows E d d'"
  by (auto simp: create_pull_request_def same_refs_def db_ok_defs table_defs bindE_eq_Inr
      dest: grows_mergeability elim!: ids_ok_next split: if_split_asm)

lemma update_pull_same: "update_pull_request tok repo pr title status s = Inr (s', p) \<Longrightarrow> same_refs s s'"
  by (auto simp: update_pull_request_def same_refs_def db_ok_defs ids_ok_def map_alter_rows Let_def bindE_eq_Inr split: if_split_asm)

lemma refreshed_key: "refreshed_pull E s p d = Inr (p', d') \<Longrightarrow> pull_key p' = pull_key p"
  by (auto simp: refreshed_pull_def refreshed_at_def bindE_eq_Inr split: if_split_asm)

lemma refresh_keys: "refresh_pulls E s P ps d = Inr (ps', d') \<Longrightarrow> map pull_key ps' = map pull_key ps"
  by (induction E s P ps d arbitrary: ps' d' rule: refresh_pulls.induct)
     (auto simp: bindE_eq_Inr dest: refreshed_key split: if_split_asm)

lemma update_prs_same: "update_prs_for_ref_change E i n s d = Inr (s', d') \<Longrightarrow> same_refs s s'"
  by (auto simp: update_prs_for_ref_change_def same_refs_def db_ok_defs ids_ok_def bindE_eq_Inr dest!: refresh_keys)

text \<open>A push changes one branch, after the protection of the branch has been asked.\<close>

lemma cas_update_cases:
  assumes "cas_update_ref E tok repo ref_type name old new s d = (s', d', r)"
  obtains (unchanged) "s' = s"
    | (pushed) R s1 where "get_repo repo s = Inr R" "check_push E (rp_id R) ref_type name old new s d = Inr ()"
        "push_ref (rp_id R) (ref_name ref_type name) old new s = Inr s1" "same_refs s1 s'"
  using assms by (auto simp: cas_update_ref_def bindE_eq_Inr bindE_eq_Inl same_refs_def dest!: update_prs_same split: sum.split_asm)

section \<open>A merge moves its branch forward\<close>

lemma begun_Inr: "begun d m = (d', Inr j) \<longleftrightarrow> m = Inr (d', Inr j)"
  by (auto simp: begun_def split: sum.splits)

lemma write_merge_parents: "write_merge E d files t s a m = Inr (c, ch, d') \<Longrightarrow> parent_hashes c = [t, s]"
  by (auto simp: write_merge_def bindE_eq_Inr Let_def)

lemma merge_job_forward:
  assumes "merge_job E i ref pull t s a m d = Inr (d', Inr j)" "commit_kept E d' (Inr j)"
  shows "jb_repo j = i" "jb_ref j = ref" "ancestor E d' (jb_old j) (jb_new j)"
proof -
  from assms(1) obtain base where base: "find_merge_base E d t s = Inr base"
    and j: "base = Some t \<and> d' = d \<and> j = \<lparr>jb_repo = i, jb_ref = ref, jb_old = t, jb_new = s, jb_pull = pull, jb_commit = None\<rparr> \<or>
      (\<exists>d1 files c ch. write_merge E d1 files t s a m = Inr (c, ch, d') \<and>
        j = \<lparr>jb_repo = i, jb_ref = ref, jb_old = t, jb_new = ch, jb_pull = pull, jb_commit = Some c\<rparr>)"
    by (fastforce simp: merge_job_def bindE_eq_Inr split: if_split_asm)
  then show "jb_repo j = i" "jb_ref j = ref" by auto
  from j show "ancestor E d' (jb_old j) (jb_new j)"
  proof (elim disjE exE conjE)
    assume "base = Some t" "d' = d" "j = \<lparr>jb_repo = i, jb_ref = ref, jb_old = t, jb_new = s, jb_pull = pull, jb_commit = None\<rparr>"
    with find_merge_base_correct [OF base] show ?thesis by simp
  next
    fix d1 files c ch
    assume w: "write_merge E d1 files t s a m = Inr (c, ch, d')"
      and "j = \<lparr>jb_repo = i, jb_ref = ref, jb_old = t, jb_new = ch, jb_pull = pull, jb_commit = Some c\<rparr>"
    with assms(2) write_merge_parents [OF w] show ?thesis
      by (simp add: commit_kept_def) (rule ancestor_parent [OF ancestor_refl], simp add: commit_parents_def)
  qed
qed

lemma resolve_job_forward:
  assumes "resolve_job E p t s rs a m d = Inr (d', Inr j)" "commit_kept E d' (Inr j)"
  shows "jb_repo j = pl_repo p" "jb_ref j = pl_target_ref p" "ancestor E d' (jb_old j) (jb_new j)"
proof -
  from assms(1) obtain d1 files c ch where w: "write_merge E d1 files t s a m = Inr (c, ch, d')"
    and j: "j = \<lparr>jb_repo = pl_repo p, jb_ref = pl_target_ref p, jb_old = t, jb_new = ch, jb_pull = Some (pl_id p), jb_commit = Some c\<rparr>"
    by (fastforce simp: resolve_job_def bindE_eq_Inr split: if_split_asm sum.split_asm)
  then show "jb_repo j = pl_repo p" "jb_ref j = pl_target_ref p" by auto
  from j assms(2) write_merge_parents [OF w] show "ancestor E d' (jb_old j) (jb_new j)"
    by (simp add: commit_kept_def) (rule ancestor_parent [OF ancestor_refl], simp add: commit_parents_def)
qed

lemma begins_grows: "begins E s d repo d' r \<Longrightarrow> grows E d d'"
  by (induction rule: begins.induct) (auto dest: grows_merge_begin grows_merge_pull_begin grows_resolve_begin)

lemma begins_forward:
  assumes "begins E s d repo d' (Inr j)" "commit_kept E d' (Inr j)"
  shows "ancestor E d' (jb_old j) (jb_new j)" "\<exists>R. get_repo repo s = Inr R \<and> jb_repo j = rp_id R"
  using assms
  by (auto elim!: begins.cases simp: merge_begin_def merge_pull_begin_def resolve_begin_def begun_Inr bindE_eq_Inr
      dest: merge_job_forward(3) resolve_job_forward(3) split: if_split_asm)
     (auto dest!: merge_job_forward(1) resolve_job_forward(1) get_pr_Inr)

section \<open>The history of a protected branch\<close>

definition head_ref :: "pystr \<Rightarrow> pystr" where
  "head_ref b = ref_name (str ''heads'') b"

lemma split_first: "c \<notin> set u \<Longrightarrow> c \<notin> set v \<Longrightarrow> u @ c # x = v @ c # y \<longleftrightarrow> u = v \<and> x = y"
proof (induction u arbitrary: v)
  case Nil
  then show ?case by (cases v) auto
next
  case (Cons a u)
  then show ?case by (cases v) auto
qed

lemma head_ref_eq: "slash \<notin> set ty \<Longrightarrow> ref_name ty n = head_ref b \<longleftrightarrow> ty = str ''heads'' \<and> n = b"
  unfolding ref_name_def head_ref_def by (subst split_first) (auto simp: str_def)

text \<open>A rule that keeps a branch from being rewritten.\<close>

definition keeps_history :: "int \<Rightarrow> pystr \<Rightarrow> db \<Rightarrow> bool" where
  "keeps_history i b s \<longleftrightarrow> (case matched_rule i b s of None \<Rightarrow> False | Some p \<Rightarrow> pt_require_pr p \<or> pt_block_force p)"

lemma check_push_forward:
  assumes "check_push E i (str ''heads'') b old new s d = Inr ()" "keeps_history i b s" "truthy old"
  shows "ancestor E d (the old) new"
proof -
  have "find_merge_base E d (the old) new = Inr old"
    using assms by (auto simp: check_push_def keeps_history_def bindE_eq_Inr split: option.split_asm if_split_asm)
  from find_merge_base_correct [OF this] show ?thesis using assms(3) by (cases old) auto
qed

text \<open>
  The invariant: a row of the branch is a descendant of \<open>h\<close>, and every merge in
  progress in the repository would move its branch forward.
\<close>

definition forward :: "env \<Rightarrow> repo_row \<Rightarrow> pystr \<Rightarrow> pystr \<Rightarrow> server \<Rightarrow> bool" where
  "forward E R b h S \<longleftrightarrow>
     db_ok (sv_db S) \<and> ids_ok (sv_db S) \<and> store_inv E (sv_disk S (rp_name R)) \<and> R \<in> set (db_repos (sv_db S)) \<and>
     keeps_history (rp_id R) b (sv_db S) \<and>
     (\<exists>h'. branch (sv_db S) (rp_id R, head_ref b) = Some h' \<and> ancestor E (sv_disk S (rp_name R)) h h') \<and>
     (\<forall>j \<in> set (sv_jobs S). jb_repo j = rp_id R \<longrightarrow> ancestor E (sv_disk S (rp_name R)) (jb_old j) (jb_new j))"

lemma matched_same: "db_protections s' = db_protections s \<Longrightarrow> keeps_history i b s' \<longleftrightarrow> keeps_history i b s"
  by (simp add: keeps_history_def matched_rule_def)

lemma branch_same: "db_refs s' = db_refs s \<Longrightarrow> branch s' = branch s"
  by (simp add: branch_def)

lemma forward_db:
  assumes "forward E R b h S" "same_refs (sv_db S) s'"
  shows "forward E R b h (S\<lparr>sv_db := s'\<rparr>)"
proof -
  have "branch s' = branch (sv_db S)" "keeps_history i n s' \<longleftrightarrow> keeps_history i n (sv_db S)" for i n
    using assms(2) branch_same matched_same unfolding same_refs_def by blast+
  with assms show ?thesis by (auto simp: forward_def same_refs_def)
qed

lemma forward_disk:
  assumes "forward E R b h S" "grows E (sv_disk S repo) d'"
  shows "forward E R b h (set_disk repo d' S)"
proof (cases "repo = rp_name R")
  case True
  with assms have g: "store_inv E d'" "map_of (sv_disk S (rp_name R)) \<subseteq>\<^sub>m map_of d'" by (auto simp: forward_def grows_def)
  show ?thesis using assms(1) g(1) ancestor_grows [OF g(2)] True by (fastforce simp: forward_def set_disk_def)
next
  case False
  with assms(1) show ?thesis by (simp add: forward_def set_disk_def)
qed

lemma forward_fewer_jobs: "forward E R b h S \<Longrightarrow> forward E R b h (S\<lparr>sv_jobs := remove1 j (sv_jobs S)\<rparr>)"
  by (auto simp: forward_def dest: notin_set_remove1)

lemma forward_finish:
  assumes "forward E R b h S" "j \<in> set (sv_jobs S)" "finish_job j (sv_db S) = Inr (s', x)"
  shows "forward E R b h (S\<lparr>sv_db := s', sv_jobs := remove1 j (sv_jobs S)\<rparr>)"
proof -
  have ok: "db_ok (sv_db S)" using assms(1) by (simp add: forward_def)
  note f = finish_job_Inr [OF ok assms(3)]
  have "\<exists>h'. branch s' (rp_id R, head_ref b) = Some h' \<and> ancestor E (sv_disk S (rp_name R)) h h'"
  proof (cases "(rp_id R, head_ref b) = (jb_repo j, jb_ref j)")
    case True
    then have "ancestor E (sv_disk S (rp_name R)) h (jb_old j)" using assms(1) f(1) by (auto simp: forward_def)
    moreover have "ancestor E (sv_disk S (rp_name R)) (jb_old j) (jb_new j)"
      using assms(1,2) True by (auto simp: forward_def)
    ultimately show ?thesis using f(2) True ancestor_trans by auto
  next
    case False
    then have "branch s' (rp_id R, head_ref b) = branch (sv_db S) (rp_id R, head_ref b)" using f(2) by (metis fun_upd_apply)
    then show ?thesis using assms(1) by (simp add: forward_def)
  qed
  then show ?thesis using assms(1) f(3-6) matched_same [OF f(4)]
    by (auto simp: forward_def ids_ok_def dest: notin_set_remove1)
qed

lemma forward_push:
  assumes "forward E R b h S" "slash \<notin> set ref_type"
    and "cas_update_ref E tok repo ref_type name old new (sv_db S) (sv_disk S repo) = (s', d', r)"
  shows "forward E R b h (S\<lparr>sv_db := s'\<rparr>)"
  using assms(3)
proof (cases rule: cas_update_cases)
  case unchanged
  with assms(1) show ?thesis by (simp add: forward_def)
next
  case (pushed R' s1)
  have ok: "db_ok (sv_db S)" "ids_ok (sv_db S)" using assms(1) by (auto simp: forward_def)
  note p = push_ref_Inr [OF ok(1) pushed(3)]
  have "\<exists>h'. branch s1 (rp_id R, head_ref b) = Some h' \<and> ancestor E (sv_disk S (rp_name R)) h h'"
  proof (cases "(rp_id R, head_ref b) = (rp_id R', ref_name ref_type name)")
    case True
    then have "ref_name ref_type name = head_ref b" by simp
    then have rn: "ref_type = str ''heads''" "name = b" by (simp_all only: head_ref_eq [OF assms(2)])
    have "R' = R" using same_repo [OF ok(2)] get_repo_Inr [OF pushed(1)] assms(1) True by (auto simp: forward_def)
    then have repo: "repo = rp_name R" using get_repo_Inr [OF pushed(1)] by simp
    obtain h' where h': "branch (sv_db S) (rp_id R, head_ref b) = Some h'" "ancestor E (sv_disk S (rp_name R)) h h'"
      using assms(1) by (auto simp: forward_def)
    then have "truthy old" "old = Some h'" using p(1) True by (auto split: if_split_asm)
    then have "ancestor E (sv_disk S (rp_name R)) h' new"
      using check_push_forward [of E "rp_id R" b old new "sv_db S" "sv_disk S repo"] pushed(2) assms(1) rn repo \<open>R' = R\<close>
      by (simp add: forward_def)
    with h'(2) p(2) True show ?thesis using ancestor_trans by auto
  next
    case False
    then have "branch s1 (rp_id R, head_ref b) = branch (sv_db S) (rp_id R, head_ref b)" using p(2) by (metis fun_upd_apply)
    then show ?thesis using assms(1) by (simp add: forward_def)
  qed
  then have "forward E R b h (S\<lparr>sv_db := s1\<rparr>)" using assms(1) p(2) matched_same [of s1 "sv_db S"]
    by (auto simp: forward_def ids_ok_def)
  from forward_db [OF this, of s'] pushed(4) show ?thesis by simp
qed

lemma forward_begin:
  assumes "forward E R b h S" "begins E (sv_db S) (sv_disk S repo) repo d' r" "commit_kept E d' r"
  shows "forward E R b h (add_job r (set_disk repo d' S))"
proof (cases r)
  case (Inl e)
  with forward_disk [OF assms(1) begins_grows [OF assms(2)]] show ?thesis by (simp add: add_job_def)
next
  case (Inr j)
  obtain R' where R': "get_repo repo (sv_db S) = Inr R'" "jb_repo j = rp_id R'" "ancestor E d' (jb_old j) (jb_new j)"
    using begins_forward [of E "sv_db S" "sv_disk S repo" repo d' j] assms(2,3) Inr by auto
  have "repo = rp_name R" if "jb_repo j = rp_id R"
    using same_repo [of "sv_db S" R R'] get_repo_Inr [OF R'(1)] assms(1) that R'(2) by (auto simp: forward_def)
  with R'(3) forward_disk [OF assms(1) begins_grows [OF assms(2)]] Inr show ?thesis
    by (auto simp: forward_def add_job_def set_disk_def)
qed

lemma forward_step: "server_step E False S S' \<Longrightarrow> forward E R b h S \<Longrightarrow> forward E R b h S'"
proof (induction rule: server_step.induct)
  case (data S s')
  then show ?case using forward_db [of E R b h S s'] data_same by (simp add: forward_def)
next
  case (upload S repo d')
  then show ?case using forward_disk grows_upload by blast
next
  case (preview tok repo source target S mb d')
  then have "grows E (sv_disk S repo) d'" by (auto simp: merge_preview_def bindE_eq_Inr dest: grows_mergeability)
  with preview.prems show ?case by (rule forward_disk)
next
  case (create tok repo body S s' d' p)
  then show ?case using forward_disk [OF forward_db, of E R b h S s' repo d'] create_pull_same by simp
next
  case (edit tok repo pr title status S s' p)
  then show ?case using forward_db update_pull_same by blast
next
  case (push ref_type tok repo name old new S s' d' r)
  have "forward E R b h (S\<lparr>sv_db := s'\<rparr>)" using forward_push push by blast
  moreover have "grows E (sv_disk (S\<lparr>sv_db := s'\<rparr>) repo) d'" using grows_cas_update push.hyps(2) by simp
  ultimately show ?case by (rule forward_disk)
next
  case (started S repo d' r)
  then show ?case using forward_begin by blast
next
  case (finish j S s' x)
  then show ?case using forward_finish by blast
next
  case (drop j S e)
  then show ?case using forward_fewer_jobs by blast
qed simp

text \<open>
  C31: the history of a protected branch is kept. Whatever requests are served and however merges
  interleave with them, as long as no rule is edited and no ref deleted: a branch whose first matching rule demands pull
  requests or blocks force pushes still exists, and its old commit is an ancestor of the new one.
\<close>

theorem protected_history_kept:
  assumes "server_reach E False S S'" and "sv_jobs S = []" and "db_ok (sv_db S)" and "ids_ok (sv_db S)"
    and "store_inv E (sv_disk S (rp_name R))" and "R \<in> set (db_repos (sv_db S))" and "keeps_history (rp_id R) b (sv_db S)"
    and "branch (sv_db S) (rp_id R, head_ref b) = Some h"
  shows "\<exists>h'. branch (sv_db S') (rp_id R, head_ref b) = Some h' \<and> ancestor E (sv_disk S' (rp_name R)) h h'"
proof -
  have "forward E R b h S" using assms(2-) by (simp add: forward_def)
  from assms(1) this have "forward E R b h S'" by (induction rule: rtranclp_induct) (auto intro: forward_step)
  then show ?thesis by (simp add: forward_def)
qed

text \<open>A server with one repository, whose protected branch is pushed one commit forward.\<close>

definition demo_token :: token_row where
  "demo_token = \<lparr>tk_id = Some 1, tk_hash = str ''h'', tk_label = str ''ci'', tk_scope = None,
     tk_permissions = str ''push'', tk_role = str ''committer'', tk_expires = None\<rparr>"

definition demo_pull :: "int \<Rightarrow> pull_row" where
  "demo_pull n = \<lparr>pl_id = n, pl_repo = 1, pl_number = n, pl_title = str ''t'', pl_author = str ''a'', pl_status = open_status,
     pl_source_ref = head_ref (str ''dev''), pl_target_ref = head_ref (str ''main''), pl_base = hash_R, pl_source = hash_A,
     pl_target = hash_R, pl_merge = None, pl_mergeable = Some True, pl_conflicts = [],
     pl_added = 0, pl_removed = 0, pl_refreshed = 0\<rparr>"

definition demo_db :: "protection_row list \<Rightarrow> pull_row list \<Rightarrow> approval_row list \<Rightarrow> db" where
  "demo_db rules prs aps = \<lparr>db_repos = [\<lparr>rp_id = 1, rp_name = str ''r''\<rparr>],
     db_refs = [\<lparr>rf_repo = 1, rf_name = head_ref (str ''main''), rf_target = hash_R\<rparr>,
                \<lparr>rf_repo = 1, rf_name = head_ref (str ''dev''), rf_target = hash_A\<rparr>],
     db_tokens = [demo_token], db_hooks = [], db_pulls = prs, db_comments = [], db_protections = rules,
     db_approvals = aps, db_reviewers = [], db_checks = [], db_next = 9\<rparr>"

definition demo_rule :: "int \<Rightarrow> protection_row" where
  "demo_rule n = \<lparr>pt_id = 1, pt_repo = 1, pt_pattern = [42], pt_require_pr = False, pt_approvals = n, pt_block_force = True, pt_auto_delete = False\<rparr>"

definition demo_server :: "db \<Rightarrow> server" where
  "demo_server s = \<lparr>sv_db = s, sv_disk = (\<lambda>_. demo_repo), sv_jobs = []\<rparr>"

lemma demo_push_allowed: "require_permission (str ''push'') demo_token = Inr ()"
  by (simp add: require_permission_def required_level_def role_levels_def legacy_perm_map_def token_level_def demo_token_def level_of_def)

lemma head_ref_inj [simp]: "head_ref a = head_ref b \<longleftrightarrow> a = b"
  by (simp add: head_ref_def ref_name_def)

lemma demo_db_ok: "db_ok (demo_db rules [] [])" if "length rules \<le> 1" for rules
  using that by (cases rules) (auto simp: db_ok_defs demo_db_def)

lemma demo_repo_found: "get_repo (str ''r'') (demo_db rules prs aps) = Inr \<lparr>rp_id = 1, rp_name = str ''r''\<rparr>"
  by (simp add: get_repo_def need_row_def one_or_none_def demo_db_def)

lemma demo_bases:
  "find_merge_base demo_env demo_repo hash_R hash_A = Inr (Some hash_R)"
  "find_merge_base demo_env demo_repo hash_A hash_B = Inr (Some hash_R)"
  using demo_hashes_distinct
  by (auto simp: find_merge_base_def merge_base_loop.simps mb_side_def demo_repo_commits demo_parents)

lemma demo_rule_matched: "matched_rule 1 b (demo_db [demo_rule n] prs aps) = Some (demo_rule n)"
  by (simp add: matched_rule_def demo_db_def demo_rule_def)

lemma hash_truthy: "hash_R \<noteq> []" "hash_A \<noteq> []"
  by (auto simp: demo_hash_R demo_hash_A hex_str_chars dest: arg_cong [where f = length])

lemma demo_find:
  "find_ref 1 (head_ref (str ''main'')) (demo_db rules prs aps) =
     Inr (Some \<lparr>rf_repo = 1, rf_name = head_ref (str ''main''), rf_target = hash_R\<rparr>)"
  "find_ref 1 (head_ref (str ''dev'')) (demo_db rules prs aps) =
     Inr (Some \<lparr>rf_repo = 1, rf_name = head_ref (str ''dev''), rf_target = hash_A\<rparr>)"
  by (simp_all add: find_ref_def one_or_none_def demo_db_def)

definition demo_moved :: "pystr \<Rightarrow> protection_row list \<Rightarrow> pull_row list \<Rightarrow> approval_row list \<Rightarrow> db" where
  "demo_moved h rules prs aps = demo_db rules prs aps\<lparr>db_refs := [\<lparr>rf_repo = 1, rf_name = head_ref (str ''main''), rf_target = h\<rparr>,
                \<lparr>rf_repo = 1, rf_name = head_ref (str ''dev''), rf_target = hash_A\<rparr>]\<rparr>"

lemma demo_cas: "cas_ref 1 (head_ref (str ''main'')) hash_R h (demo_db rules prs aps) = Some (demo_moved h rules prs aps)"
  by (simp add: cas_ref_def demo_db_def alter_rows_def demo_moved_def)

lemma demo_push:
  "cas_update_ref demo_env demo_token (str ''r'') (str ''heads'') (str ''main'') (Some hash_R) hash_A
     (demo_db [demo_rule 0] [] []) demo_repo = (demo_moved hash_A [demo_rule 0] [] [], demo_repo, Inr (head_ref (str ''main''), hash_A))"
proof -
  have c: "check_push demo_env 1 (str ''heads'') (str ''main'') (Some hash_R) hash_A (demo_db [demo_rule 0] [] []) demo_repo = Inr ()"
    by (simp add: check_push_def demo_rule_matched demo_bases) (simp add: demo_rule_def)
  have "push_ref 1 (head_ref (str ''main'')) (Some hash_R) hash_A (demo_db [demo_rule 0] [] []) = Inr (demo_moved hash_A [demo_rule 0] [] [])"
    by (simp add: push_ref_def hash_truthy demo_cas)
  moreover have "update_prs_for_ref_change demo_env 1 n (demo_moved hash_A [demo_rule 0] [] []) demo_repo =
      Inr (demo_moved hash_A [demo_rule 0] [] [], demo_repo)" for n
    by (simp add: update_prs_for_ref_change_def demo_moved_def demo_db_def)
  ultimately show ?thesis
    by (simp add: cas_update_ref_def demo_push_allowed demo_repo_found c flip: head_ref_def)
qed

theorem protected_history_kept_witness:
  "\<exists>S' h'. server_reach demo_env False (demo_server (demo_db [demo_rule 0] [] [])) S' \<and>
     S' \<noteq> demo_server (demo_db [demo_rule 0] [] []) \<and>
     branch (sv_db S') (1, head_ref (str ''main'')) = Some h' \<and> ancestor demo_env (sv_disk S' (str ''r'')) hash_R h'"
proof -
  let ?S = "demo_server (demo_db [demo_rule 0] [] [])"
  let ?S' = "set_disk (str ''r'') demo_repo (?S\<lparr>sv_db := demo_moved hash_A [demo_rule 0] [] []\<rparr>)"
  have "server_step demo_env False ?S ?S'"
    using server_step.push [of "str ''heads''" demo_env demo_token "str ''r''" "str ''main''" "Some hash_R" hash_A ?S _ demo_repo]
    by (simp add: demo_server_def demo_push) (simp add: str_def)
  then have r: "server_reach demo_env False ?S ?S'" by blast
  have b: "branch (demo_db rules prs aps) (1, head_ref (str ''main'')) = Some hash_R" for rules prs aps
    by (simp add: branch_def demo_db_def)
  have "keeps_history 1 (str ''main'') (demo_db [demo_rule 0] [] [])"
    by (simp add: keeps_history_def demo_rule_matched) (simp add: demo_rule_def)
  then have "\<exists>h'. branch (sv_db ?S') (1, head_ref (str ''main'')) = Some h' \<and> ancestor demo_env (sv_disk ?S' (str ''r'')) hash_R h'"
    using protected_history_kept [OF r, of "\<lparr>rp_id = 1, rp_name = str ''r''\<rparr>" "str ''main''" hash_R] b demo_repo_inv
      demo_db_ok [of "[demo_rule 0]"]
    by (simp add: demo_server_def ids_ok_def) (simp add: demo_db_def)
  moreover have "?S' \<noteq> ?S"
    using demo_hashes_distinct by (auto simp: demo_server_def set_disk_def demo_moved_def demo_db_def)
  ultimately show ?thesis using r by blast
qed

end
