(* ===== verification/Dit_Approve.thy ===== *)
theory Dit_Approve
  imports Dit_Server Dit_Demo
begin

text \<open>
  What the merges of the server promise: the approvals they need, how two of them for one branch
  exclude each other, and what the commit they store contains.
\<close>

section \<open>Approvals\<close>

definition approvers :: "int \<Rightarrow> int \<Rightarrow> db \<Rightarrow> int set" where
  "approvers i pr s = {ap_token a | a. a \<in> set (db_approvals s) \<and> ap_repo a = i \<and> ap_pull a = pr \<and> ap_status a = approved}"

text \<open>One review for each token: counting rows counts reviewers.\<close>

lemma approval_count_card:
  assumes "db_ok s"
  shows "approval_count i pr s = card (approvers i pr s)"
proof -
  let ?as = "filter (\<lambda>a. ap_repo a = i \<and> ap_pull a = pr \<and> ap_status a = approved) (db_approvals s)"
  have "distinct (map approval_key ?as)" using assms by (simp add: db_ok_defs distinct_map_filter)
  then have "distinct (map ap_token ?as)" by (auto simp: distinct_map inj_on_def)
  moreover have "approvers i pr s = set (map ap_token ?as)" by (auto simp: approvers_def)
  ultimately show ?thesis using distinct_card [of "map ap_token ?as"] by (simp add: approval_count_def)
qed

lemma check_merge_approved:
  assumes "db_ok s" "check_merge_approvals i b pull s = Inr ()" "matched_rule i b s = Some p"
  shows "(pt_require_pr p \<longrightarrow> pull \<noteq> None) \<and>
    (pt_approvals p \<noteq> 0 \<longrightarrow> (\<exists>pr. pull = Some pr \<and> pt_approvals p \<le> int (card (approvers i pr s))))"
  using assms approval_count_card [OF assms(1)]
  by (auto simp: check_merge_approvals_def bindE_eq_Inr split: if_split_asm option.split_asm)

lemma check_pr_approved:
  assumes "db_ok s" "check_pr_merge_approvals i ref pr s = Inr ()" "matched_rule i (removeprefix (str ''heads/'') ref) s = Some p"
  shows "pt_approvals p \<noteq> 0 \<longrightarrow> pt_approvals p \<le> int (card (approvers i pr s))"
  using assms approval_count_card [OF assms(1)] by (auto simp: check_pr_merge_approvals_def split: if_split_asm)

lemma merge_begin_Inr:
  assumes "merge_begin E tok repo body s d = (d', Inr j)"
  obtains R source target where "get_repo repo s = Inr R" "require_permission (str ''push'') tok = Inr ()"
    "resolve_branch (rp_id R) (mq_source body) s = Inr source" "resolve_branch (rp_id R) (mq_target body) s = Inr target"
    "check_merge_approvals (rp_id R) (mq_target body) (mq_pull body) s = Inr ()"
    "merge_job E (rp_id R) (head_ref (mq_target body)) None target source (resolve_actor E tok (mq_author body)) (mq_message body) d
       = Inr (d', Inr j)"
  using assms by (auto simp: merge_begin_def begun_Inr bindE_eq_Inr head_ref_def)

lemma merge_pull_Inr:
  assumes "merge_pull_begin E tok repo pr by_name msg s d = (d', Inr j)"
  obtains R p where "get_repo repo s = Inr R" "require_permission (str ''push'') tok = Inr ()" "get_pr_meta (rp_id R) pr s = Inr p"
    "pl_status p \<notin> {merged_status, str ''closed''}" "check_pr_merge_approvals (rp_id R) (pl_target_ref p) pr s = Inr ()"
    "merge_job E (rp_id R) (pl_target_ref p) (Some (pl_id p)) (pl_target p) (pl_source p) (resolve_actor E tok by_name) msg d
       = Inr (d', Inr j)"
  using assms by (auto simp: merge_pull_begin_def begun_Inr bindE_eq_Inr split: if_split_asm dest: get_pr_Inr)


definition demo_approval :: approval_row where
  "demo_approval = \<lparr>ap_id = 5, ap_repo = 1, ap_pull = 1, ap_token = 1, ap_status = approved\<rparr>"

definition demo_job :: job where
  "demo_job = \<lparr>jb_repo = 1, jb_ref = head_ref (str ''main''), jb_old = hash_R, jb_new = hash_A, jb_pull = Some 1, jb_commit = None\<rparr>"

lemma demo_pull_found: "k \<in> {1, 2} \<Longrightarrow> get_pr_meta 1 k (demo_db rules [demo_pull 1, demo_pull 2] aps) = Inr (demo_pull k)"
  by (auto simp: get_pr_meta_def need_row_def one_or_none_def demo_db_def demo_pull_def)

lemma demo_approved: "approval_count 1 1 (demo_db rules prs [demo_approval]) = 1"
  by (simp add: approval_count_def demo_db_def demo_approval_def)

lemma removeprefix_head: "removeprefix (str ''heads/'') (head_ref b) = b"
proof -
  have "head_ref b = str ''heads/'' @ b" by (simp add: head_ref_def ref_name_def str_def)
  then show ?thesis by (simp add: removeprefix_def)
qed

lemma demo_fast_forward:
  "merge_job demo_env 1 (head_ref (str ''main'')) pull hash_R hash_A a m demo_repo =
     Inr (demo_repo, Inr \<lparr>jb_repo = 1, jb_ref = head_ref (str ''main''), jb_old = hash_R, jb_new = hash_A, jb_pull = pull, jb_commit = None\<rparr>)"
  by (simp add: merge_job_def demo_bases)

lemma demo_merge_pull:
  "merge_pull_begin demo_env demo_token (str ''r'') 1 None (str ''m'') (demo_db [demo_rule 1] [demo_pull 1, demo_pull 2] [demo_approval]) demo_repo
     = (demo_repo, Inr demo_job)"
proof -
  have "check_pr_merge_approvals 1 (head_ref (str ''main'')) 1 (demo_db [demo_rule 1] [demo_pull 1, demo_pull 2] [demo_approval]) = Inr ()"
    by (simp add: check_pr_merge_approvals_def removeprefix_head demo_rule_matched demo_approved) (simp add: demo_rule_def)
  then show ?thesis
    by (simp add: merge_pull_begin_def demo_push_allowed demo_repo_found demo_pull_found)
       (simp add: demo_pull_def open_status_def merged_status_def begun_def demo_fast_forward demo_job_def)
qed

lemma demo_full_ok: "db_ok (demo_db [demo_rule n] [demo_pull 1, demo_pull 2] [demo_approval])"
  by (simp add: db_ok_defs demo_db_def demo_pull_def)


section \<open>Two requests for one branch\<close>

text \<open>
  A pull request is merged against the commit its row names as the target, and the merge of another one
  does not refresh it. Once the update of one merge has moved a branch, the merge of any pull
  request whose row still names the old commit ends in a conflict.
\<close>

theorem sibling_pull_conflicts:
  assumes "db_ok s" and "finish_job j s = Inr (s', x)" and "jb_new j \<noteq> jb_old j"
    and "get_repo repo s' = Inr R" and "rp_id R = jb_repo j"
    and "get_pr_meta (rp_id R) pr s' = Inr q" and "pl_target_ref q = jb_ref j" and "pl_target q = jb_old j"
    and "merge_pull_begin E tok repo pr by_name msg s' d = (d', Inr k)"
  shows "finish_job k s' = Inl (HTTPException 409)"
proof -
  from assms(9) obtain R' p where p: "get_repo repo s' = Inr R'" "get_pr_meta (rp_id R') pr s' = Inr p"
    and m: "merge_job E (rp_id R') (pl_target_ref p) (Some (pl_id p)) (pl_target p) (pl_source p) (resolve_actor E tok by_name) msg d
       = Inr (d', Inr k)" by (rule merge_pull_Inr)
  have "p = q" "R' = R" using p assms(4,6) by simp_all
  with m assms(5,7,8) have k: "jb_repo k = jb_repo j" "jb_ref k = jb_ref j" "jb_old k = jb_old j"
    by (auto simp: merge_job_def bindE_eq_Inr split: if_split_asm)
  note f = finish_job_Inr [OF assms(1,2)]
  have "branch s' (jb_repo k, jb_ref k) \<noteq> Some (jb_old k)" using f(2) assms(3) k by simp
  moreover have "refs.unique s'" using f(3) by (simp add: db_ok_def)
  ultimately show ?thesis by (simp add: finish_defs cas_ref_None [THEN iffD2] split: option.split)
qed

definition demo_merged :: db where
  "demo_merged = demo_moved hash_A [demo_rule 1] [mark_merged hash_A (demo_pull 1), demo_pull 2] [demo_approval]"

lemma demo_finish:
  "finish_job demo_job (demo_db [demo_rule 0] [demo_pull 1, demo_pull 2] [demo_approval]) =
     Inr (demo_moved hash_A [demo_rule 0] [mark_merged hash_A (demo_pull 1), demo_pull 2] [demo_approval], (hash_A, True))"
  by (simp add: finish_defs demo_job_def demo_cas)
     (simp add: demo_moved_def demo_db_def alter_rows_def demo_pull_def)

theorem sibling_pull_conflicts_witness:
  "finish_job (demo_job\<lparr>jb_pull := Some 2\<rparr>)
     (demo_moved hash_A [demo_rule 0] [mark_merged hash_A (demo_pull 1), demo_pull 2] [demo_approval]) = Inl (HTTPException 409)"
proof -
  let ?s = "demo_moved hash_A [demo_rule 0] [mark_merged hash_A (demo_pull 1), demo_pull 2] [demo_approval]"
  have repo: "get_repo (str ''r'') ?s = Inr \<lparr>rp_id = 1, rp_name = str ''r''\<rparr>"
    by (simp add: get_repo_def need_row_def one_or_none_def demo_moved_def demo_db_def)
  have pr: "get_pr_meta 1 2 ?s = Inr (demo_pull 2)"
    by (simp add: get_pr_meta_def need_row_def one_or_none_def demo_moved_def demo_db_def demo_pull_def mark_merged_def)
  have "matched_rule 1 (str ''main'') ?s = Some (demo_rule 0)"
    by (simp add: matched_rule_def demo_moved_def demo_db_def demo_rule_def)
  then have "check_pr_merge_approvals 1 (head_ref (str ''main'')) 2 ?s = Inr ()"
    by (simp add: check_pr_merge_approvals_def removeprefix_head) (simp add: demo_rule_def)
  then have b: "merge_pull_begin demo_env demo_token (str ''r'') 2 None (str ''m'') ?s demo_repo
      = (demo_repo, Inr (demo_job\<lparr>jb_pull := Some 2\<rparr>))"
    by (simp add: merge_pull_begin_def demo_push_allowed repo pr)
       (simp add: demo_pull_def open_status_def merged_status_def begun_def demo_fast_forward demo_job_def)
  show ?thesis
    by (rule sibling_pull_conflicts [OF demo_full_ok demo_finish _ repo _ _ _ _ b, of "demo_pull 2"])
       (use pr demo_hashes_distinct in \<open>auto simp: demo_job_def demo_pull_def\<close>)
qed

text \<open>
  A fast-forward may be taken for a force push: \<open>A\<close> is an ancestor of \<open>B\<close>, but the search for the merge base
  returns the root.
\<close>

lemma fast_forward_rejected:
  "ancestor demo_env demo_repo hash_A hash_B \<and>
   check_push demo_env 1 (str ''heads'') (str ''main'') (Some hash_A) hash_B (demo_db [demo_rule 0] [] []) demo_repo = Inl (HTTPException 403)"
proof
  show "ancestor demo_env demo_repo hash_A hash_B"
    using ancestor_parent [OF ancestor_parent [OF ancestor_refl], of hash_M demo_env demo_repo hash_B hash_A]
    by (simp add: demo_commit_parents)
  show "check_push demo_env 1 (str ''heads'') (str ''main'') (Some hash_A) hash_B (demo_db [demo_rule 0] [] []) demo_repo = Inl (HTTPException 403)"
    using demo_hashes_distinct by (simp add: check_push_def demo_rule_matched hash_truthy demo_bases) (simp add: demo_rule_def)
qed

section \<open>The contents of a merge commit\<close>

lemma map_of_same_set: "wf_dict a \<Longrightarrow> wf_dict b \<Longrightarrow> set a = set b \<Longrightarrow> map_of a = map_of b"
  unfolding wf_dict_def by (rule ext) (metis map_of_eq_Some_iff not_Some_eq)

lemma foldE_leaves:
  assumes "\<forall>e \<in> set es. \<not> is_tree e"
  shows "foldE (\<lambda>e r. bindE (flat_piece E d n [] e) (\<lambda>s. Inr (dict_update r s))) es r =
    Inr (dict_update r (map (\<lambda>e. (te_name e, flat_of e)) es))"
  using assms by (induction es arbitrary: r) (simp_all add: flat_piece_def full_path_def dict_update_def)

lemma sidecar_fold:
  assumes "wf_dict flat"
  shows "map_of (foldl (\<lambda>acc (path, ty, h, sc). case sc of None \<Rightarrow> acc | Some x \<Rightarrow> AList.update path x acc) acc flat) p =
    (case map_of flat p of Some (_, _, Some x) \<Rightarrow> Some x | _ \<Rightarrow> map_of acc p)"
  using assms
proof (induction flat arbitrary: acc)
  case (Cons f flat)
  obtain path ty h sc where f: "f = (path, ty, h, sc)" by (cases f)
  with Cons show ?case
    by (cases "map_of flat p"; cases sc) (auto simp: wf_dict_Cons update_conv' map_of_eq_None_iff split: option.splits prod.splits
      intro: rev_image_eqI dest: map_of_SomeD)
qed simp

definition sidecar_of :: "flat_entry option \<Rightarrow> pystr option" where
  "sidecar_of e = (case e of Some (ty, h, sc) \<Rightarrow> sc | None \<Rightarrow> None)"

lemma sidecar_lookup_of:
  assumes "wf_dict sf" "wf_dict tf"
  shows "map_of (sidecar_lookup sf tf) p =
    (case sidecar_of (map_of tf p) of Some x \<Rightarrow> Some x | None \<Rightarrow> sidecar_of (map_of sf p))"
  unfolding sidecar_lookup_def Let_def sidecar_fold [OF assms(2)] sidecar_fold [OF assms(1)]
  by (auto simp: sidecar_of_def split: option.splits)

text \<open>
  C33: the tree of a merge commit lists exactly the merged data files, each with the merged manifest and
  the sidecar the target has for the path, or else the source; its parents are target
  and source. Files that are not data files are in neither.
\<close>

theorem merge_commit_contents:
  assumes "store_inv E d" and "write_merge E d files target source a m = Inr (c, ch, d')"
    and "branch_flat E d target = Inr tf" and "branch_flat E d source = Inr sf" and "wf_dict files"
    and "valid_tree (merged_tree files sf tf)" and "no_collision E d (str ''trees'') (serialize_tree (merged_tree files sf tf))"
  shows "parent_hashes c = [target, source] \<and>
    (\<exists>flat. flatten_tree E d' (Suc n) (tree_hash c) [] = Inr flat \<and>
      (\<forall>p. map_of flat p = map_option (\<lambda>h. (str ''manifest'', h,
          case sidecar_of (map_of tf p) of Some x \<Rightarrow> Some x | None \<Rightarrow> sidecar_of (map_of sf p))) (map_of files p)))"
proof -
  let ?t = "merged_tree files sf tf"
  from assms(2-4) obtain d1 where w: "store_write E d (str ''trees'') (serialize_tree ?t) = Inr (tree_hash c, d1)"
    and w2: "store_write E d1 (str ''commits'') (serialize_commit c) = Inr (ch, d')"
    by (auto simp: write_merge_def branch_flat_def commit_tree_def bindE_eq_Inr must_Inr Let_def)
  have "read_tree E d1 (tree_hash c) = Inr (Some (norm_tree ?t))"
    unfolding read_tree_def by (rule load_write [of E d _ "serialize_tree ?t"]) (use assms(1,7) w tree_roundtrip [OF assms(6)] in simp_all)
  then have r: "read_tree E d' (tree_hash c) = Inr (Some (norm_tree ?t))"
    using read_mono(2) store_write_mono [OF store_inv_env [OF assms(1)] w2] by blast
  have wf: "wf_dict sf" "wf_dict tf" using assms(3,4) flatten_tree_wf by (auto simp: branch_flat_def bindE_eq_Inr)
  let ?sc = "map_of (sidecar_lookup sf tf)"
  let ?es = "sort_key te_name (tree_entries ?t)"
  let ?flat = "map (\<lambda>e. (te_name e, flat_of e)) ?es"
  have wf_flat: "wf_dict ?flat" using assms(5)
    by (simp add: wf_dict_def o_def distinct_map_sort_key) (simp add: merged_tree_def o_def split_beta)
  have "flatten_tree E d' (Suc n) (tree_hash c) [] = Inr ?flat"
    using foldE_leaves [of ?es E d' n "[]"] wf_flat
    by (simp add: flatten_tree_Suc r norm_tree_def is_tree_def merged_tree_def split_beta str_def flip: dict_of_def)
  moreover have "map_of ?flat p = map_option (\<lambda>h. (str ''manifest'', h, ?sc p)) (map_of files p)" for p
  proof -
    have "map_of ?flat p = map_of (map (\<lambda>e. (te_name e, flat_of e)) (tree_entries ?t)) p"
      by (rule map_of_same_set [THEN fun_cong]) (use wf_flat in \<open>auto simp: wf_dict_def o_def distinct_map_sort_key\<close>)
    also have "\<dots> = map_option (\<lambda>h. (str ''manifest'', h, ?sc p)) (map_of files p)"
      by (induction files) (auto simp: merged_tree_def flat_of_def)
    finally show ?thesis .
  qed
  ultimately show ?thesis using write_merge_parents [OF assms(2)] sidecar_lookup_of [OF wf] by simp
qed

theorem merge_commit_contents_witness:
  "\<exists>c ch d' flat. write_merge demo_env data_disk [(str ''t'', demo_digest (serialize_manifest demo_manifest))] data_head data_head
       (str ''a'') (str ''m'') = Inr (c, ch, d') \<and> parent_hashes c = [data_head, data_head] \<and>
     flatten_tree demo_env d' 1 (tree_hash c) [] = Inr flat \<and>
     map_of flat (str ''t'') = Some (str ''manifest'', demo_digest (serialize_manifest demo_manifest), None)"
proof -
  let ?h = "demo_digest (serialize_manifest demo_manifest)" let ?files = "[(str ''t'', ?h)]"
  let ?flat = "[(str ''t'', (str ''manifest'', ?h, None))] :: flat_entry dict"
  have f: "branch_flat demo_env data_disk data_head = Inr ?flat"
    by (simp add: branch_flat_def commit_tree_def data_read_commit data_flat)
  have t: "merged_tree ?files ?flat ?flat = file_tree data_entry"
    by (simp add: merged_tree_def sidecar_lookup_def file_tree_def data_entry_def)
  obtain c ch d' where w: "write_merge demo_env data_disk ?files data_head data_head (str ''a'') (str ''m'') = Inr (c, ch, d')"
    by (simp add: write_merge_def data_read_commit data_flat store_write_put Let_def)
  have "valid_tree (file_tree data_entry)" by (simp add: valid_tree_def file_tree_def data_entry_def demo_digest_valid)
  moreover have "no_collision demo_env data_disk (str ''trees'') (serialize_tree (file_tree data_entry))"
    using put_read [OF demo_rows_inv, of "''trees''" "serialize_tree (file_tree data_entry)"] demo_rows_stored(2)
    by (simp add: no_collision_def data_disk_def file_disk_def put_read_other collision_free_def)
  ultimately have "parent_hashes c = [data_head, data_head] \<and> (\<exists>flat. flatten_tree demo_env d' 1 (tree_hash c) [] = Inr flat \<and>
      map_of flat (str ''t'') = Some (str ''manifest'', ?h, None))"
    using merge_commit_contents [OF data_disk_inv w f f, of 0] by (force simp: t wf_dict_Cons sidecar_of_def)
  with w show ?thesis by blast
qed

end
