(* ===== verification/Dit_Commit.thy ===== *)
theory Dit_Commit
  imports Dit_Work Dit_Demo
begin

text \<open>
  What \<open>dit commit\<close> promises: the tree and the parents of the commit, the branch and the index after it.
\<close>

section \<open>Committing\<close>

lemma bindE_flip: "bindE m f = Inr y \<Longrightarrow> \<exists>x. m = Inr x \<and> f x = Inr y"
  by (simp add: bindE_eq_Inr)

lemma map_of_commit_step:
  "map_of (commit_stage item merged) = (map_of merged)(fst item :=
     if fst (snd item) = str ''delete'' then None else Some (Staged2 (fst (snd item)) (snd (snd item))))"
  by (cases item) (auto simp: commit_stage_def update_conv' delete_conv')

lemma map_of_commit_fold:
  assumes "wf_dict staged"
  shows "map_of (fold commit_stage staged m) p = (case map_of staged p of
     Some (ty, h) \<Rightarrow> if ty = str ''delete'' then None else Some (Staged2 ty h) | None \<Rightarrow> map_of m p)"
  using assms
proof (induction staged arbitrary: m)
  case (Cons it staged)
  obtain k ty h where it: "it = (k, ty, h)" by (cases it)
  from Cons.prems it have "wf_dict staged" and k: "map_of staged k = None"
    by (auto simp: wf_dict_Cons map_of_eq_None_iff)
  from Cons.IH [OF this(1)] k show ?case
    by (auto simp: it map_of_commit_step split: option.splits)
qed simp

lemma wf_commit_map: "wf_dict existing \<Longrightarrow> wf_dict (commit_map existing staged)"
proof -
  assume wf: "wf_dict existing"
  have "wf_dict (fold commit_stage staged m)" if "wf_dict m" for m
    using that by (induction staged arbitrary: m) (auto simp: commit_stage_def split: prod.splits)
  moreover have "fst (kept_entry e) = fst e" for e by (cases e) (simp add: kept_entry_def)
  then have "wf_dict (map kept_entry existing)" using wf by (simp add: wf_dict_def o_def)
  ultimately show ?thesis by (simp add: commit_map_def)
qed

lemma map_of_commit_map:
  assumes "wf_dict staged"
  shows "map_option staged_flat (map_of (commit_map existing staged) p) = (case map_of staged p of
     Some (ty, h) \<Rightarrow> if ty = str ''delete'' then None else Some (ty, h, None) | None \<Rightarrow> map_of existing p)"
proof -
  have "map_option staged_flat (map_of (map kept_entry existing) p) = map_of existing p"
    by (induction existing) (auto simp: kept_entry_def)
  then show ?thesis by (auto simp: commit_map_def map_of_commit_fold [OF assms] split: option.splits)
qed

text \<open>The tree a map of staged values builds, as the commands write it.\<close>

definition tree_fits :: "env \<Rightarrow> disk \<Rightarrow> staged \<Rightarrow> bool" where
  "tree_fits E d staged \<longleftrightarrow> staged_ok staged \<and> 0 < rec_limit E \<and>
     (\<forall>p \<in> fst ` set staged. \<not> py_startswith p [slash] \<and> count_list p slash < rec_limit E) \<and>
     (\<forall>bs. subtree_blobs E (rec_limit E) staged [] = Inr bs \<longrightarrow> collision_free E d ''trees'' bs)"

lemma tree_fits_build:
  assumes "store_inv E d" "tree_fits E d staged" "build_nested_tree E staged d = Inr (h, d')"
  shows "store_inv E d' \<and> map_of d \<subseteq>\<^sub>m map_of d' \<and> hex_digest h \<and>
    stored E d' ''commits'' = stored E d ''commits'' \<and>
    (\<exists>flat. flatten_tree E d' (rec_limit E) h [] = Inr flat \<and> (\<forall>p. map_of flat p = map_option staged_flat (map_of staged p)))"
proof -
  have ok: "env_ok E" using assms(1) by auto
  have below: "below_prefix [] staged" using assms(2) by (auto simp: below_prefix_def tree_fits_def)
  obtain bs where bs: "subtree_blobs E (rec_limit E) staged [] = Inr bs"
    using subtree_blobs_total [OF _ below, of "rec_limit E" E] assms(2)
    by (auto simp: dir_prefix_def tree_fits_def)
  have d': "d' = fold (put E ''trees'') bs d" "h = sha256 E (last bs)"
    using assms(3) bs by (simp_all add: build_nested_tree_def build_subtree_blobs [OF ok])
  have "\<forall>b \<in> set bs. store_read E d' (str ''trees'') (sha256 E b) = Inr (Some b)"
    using puts_read [OF assms(1)] assms(2) bs by (auto simp: d' tree_fits_def)
  from flatten_blobs [OF ok _ below _ this] assms(2) bs
  have "\<exists>flat. flatten_tree E d' (rec_limit E) h [] = Inr flat \<and> (\<forall>p. map_of flat p = map_option staged_flat (map_of staged p))"
    by (auto simp: dir_prefix_def d'(2) tree_fits_def)
  then show ?thesis
    using puts_inv [OF assms(1)] puts_mono stored_puts_other [of "''trees''" "''commits''"] ok
    by (auto simp: d' env_okD)
qed

text \<open>A commit that is written does not change any tree.\<close>

lemma flatten_tree_same:
  assumes "\<And>h. read_tree E d' h = read_tree E d h"
  shows "flatten_tree E d' n = flatten_tree E d n"
  by (induction n) (simp_all only: flatten_tree.simps assms)

lemma put_commit_trees: "read_tree E (put E ''commits'' b d) h = read_tree E d h"
  by (simp add: read_tree_def load_def put_read_other)

lemma hex_digest_strip:
  assumes "hex_digest h"
  shows "py_strip (newlines (h @ [10])) = h"
proof -
  have sp: "\<not> py_space c" "c \<noteq> 13" if "c \<in> set h" for c
    using assms that by (auto simp: hex_digest_def hex_char_def py_space_def)
  have d: "dropWhile py_space xs = xs" if "\<forall>c \<in> set xs. \<not> py_space c" for xs
    using that by (cases xs) auto
  have "newlines (h @ [10]) = h @ [10]" using sp(2) by (intro newlines_id) auto
  moreover have "dropWhile py_space (h @ [10]) = h @ [10]"
    using sp(1) assms by (cases h) (auto simp: hex_digest_def)
  moreover have "rev (dropWhile py_space (rev (h @ [10]))) = h"
    using d [of "rev h"] sp(1) by (simp add: py_space_def)
  ultimately show ?thesis by (simp add: py_strip_def)
qed

lemma set_get_branch:
  assumes "set_branch r b h = Inr r'" "hex_digest h"
  shows "get_branch r' b = Inr (Some h)" and "head_text r' = head_text r" and "tags r' = tags r"
proof -
  from assms(1) obtain d where d: "atomic_write (heads r) (path_parts b) (h @ [10]) = Inr d" "r' = r\<lparr>heads := d\<rparr>"
    by (auto simp: set_branch_def ref_write_def bindE_eq_Inr)
  then have "rd_files d = AList.update (path_parts b) (h @ [10]) (rd_files (heads r))"
    by (auto simp: atomic_write_def split: if_splits)
  then show "get_branch r' b = Inr (Some h)"
    by (simp add: get_branch_def ref_read_def d(2) update_conv' hex_digest_strip [OF assms(2)])
  show "head_text r' = head_text r" "tags r' = tags r" by (simp_all add: d(2))
qed

lemma set_branch_head:
  assumes "set_branch r b h = Inr r'" "hex_digest h" "current_branch r = Inr (Some b)"
  shows "resolve_head r' = Inr (Some h)"
  using assms set_get_branch [OF assms(1,2)]
  by (auto simp: resolve_head_def current_branch_def get_head_def bindE_eq_Inr split: option.splits)

lemma index_clear_empty: "index_look (index_write []) = Map.empty"
  by (simp add: index_write_def index_look_def sort_keys.simps fun_eq_iff)

text \<open>The commit that is stored for a tree, and what remains as it was.\<close>

definition new_commit :: "env \<Rightarrow> pystr \<Rightarrow> pystr list \<Rightarrow> pystr \<Rightarrow> pystr \<Rightarrow> commit" where
  "new_commit E th parents a msg =
     \<lparr>tree_hash = th, parent_hashes = parents, author = a, message = msg, timestamp = now E\<rparr>"

lemma store_commitC_Inr:
  assumes "store_commitC E W th ps msg g = (g', Inr ch)" "env_ok E"
  shows "\<exists>a. get_author W (g_config g) = Inr a \<and>
    ch = sha256 E (serialize_commit (new_commit E th ps a msg)) \<and>
    g' = g\<lparr>g_objects := put E ''commits'' (serialize_commit (new_commit E th ps a msg)) (g_objects g)\<rparr>"
  using assms
  by (auto simp: store_commitC_def authorC_def writeC_def cmd_Inr new_commit_def store_write_put bindE_eq_Inr)


text \<open>A repository with the demo commit on \<open>main\<close>, and its data file in the working directory and staged.\<close>

definition demo_world :: world where
  "demo_world = \<lparr>w_root = [], w_mtime = (\<lambda>p. 5), w_dit_author = str ''a'', w_user = []\<rparr>"

definition demo_refs :: "pystr \<Rightarrow> ref_store" where
  "demo_refs h = (refs_init no_refs)\<lparr>heads := \<lparr>rd_files = [([str ''main''], h @ [10])], rd_dirs = [[]]\<rparr>\<rparr>"

definition demo_index :: index_file where
  "demo_index = Some (JObj [(str ''t'', index_entry (demo_digest (serialize_manifest demo_manifest)) (str ''manifest''))])"

definition demo_clone :: "index_file \<Rightarrow> repo" where
  "demo_clone i = \<lparr>g_objects = data_disk, g_refs = demo_refs data_head, g_index = i, g_stats = None, g_sparse = None,
     g_config = None, g_merge_head = None, g_merge_msg = None, g_pick_head = None, g_conflicts = None,
     g_work = [([str ''t''], [123, 125, 10])], g_mtimes = [([str ''t''], 5)]\<rparr>"

lemma main_parts: "path_parts (str ''main'') = [str ''main'']"
  by (simp add: path_parts_def str_def)

lemma demo_refs_head:
  "current_branch (demo_refs h) = Inr (Some (str ''main''))"
  "hex_digest h \<Longrightarrow> resolve_head (demo_refs h) = Inr (Some h)"
  "\<exists>r. set_branch (demo_refs h) (str ''main'') x = Inr r"
proof -
  have t: "py_strip (newlines (str ''ref:main'' @ [10])) = str ''ref:main''" by (simp add: str_def py_strip_def py_space_def)
  show c: "current_branch (demo_refs h) = Inr (Some (str ''main''))"
    by (simp add: current_branch_def get_head_def demo_refs_def refs_init_def no_refs_def t branch_of_head_def)
       (simp add: py_startswith_def str_def)
  show "\<exists>r. set_branch (demo_refs h) (str ''main'') x = Inr r"
    by (simp add: set_branch_def ref_write_def main_parts atomic_write_def parents_of_def rd_is_file_def demo_refs_def)
  show "resolve_head (demo_refs h) = Inr (Some h)" if "hex_digest h"
    using c that
    by (auto simp: current_branch_def resolve_head_def bindE_eq_Inr get_branch_def ref_read_def main_parts demo_refs_def hex_digest_strip)
qed

lemma data_head_digest: "hex_digest data_head"
  using env_okD(1) [OF demo_env_ok] by (simp add: data_head_def file_head_def)

lemma data_hash_values:
  "demo_digest (serialize_manifest demo_manifest) = hex_str 32 720385 @ hex_str 32 9904"
  "demo_digest (serialize_tree (file_tree data_entry)) = hex_str 32 676239 @ hex_str 32 9870"
  "data_head = hex_str 32 924135 @ hex_str 32 11163"
proof -
  show m: "demo_digest (serialize_manifest demo_manifest) = hex_str 32 720385 @ hex_str 32 9904" by code_simp
  show t: "demo_digest (serialize_tree (file_tree data_entry)) = hex_str 32 676239 @ hex_str 32 9870"
    unfolding data_entry_def m by code_simp
  show "data_head = hex_str 32 924135 @ hex_str 32 11163"
    unfolding data_head_def file_head_def file_commit_def t by code_simp
qed

definition demo_next :: commit where
  "demo_next = new_commit demo_env (demo_digest (serialize_tree (file_tree data_entry))) [data_head] (str ''a'') (str ''n'')"

lemma demo_next_value: "demo_digest (serialize_commit demo_next) = hex_str 32 1709435 @ hex_str 32 14751"
  unfolding demo_next_def data_hash_values by code_simp

lemma demo_next_new: "demo_digest (serialize_commit demo_next) \<noteq> data_head"
  unfolding demo_next_value data_hash_values(3) by code_simp

lemma demo_index_facts:
  "wf_index demo_index"
  "index_entries_typed True demo_index = Inr [(str ''t'', (str ''manifest'', demo_digest (serialize_manifest demo_manifest)))]"
  by (auto simp: demo_index_def index_entry_def typed_entry_def index_entries_typed_def with_lock_def upgrade_entry_def
      entry_field_def dict_simps)

lemma data_stored: "stored demo_env data_disk ''commits'' \<subseteq> {serialize_commit data_commit}"
    "stored demo_env data_disk ''trees'' \<subseteq> {serialize_tree (file_tree data_entry)}"
proof -
  let ?d = "put demo_env ''trees'' (serialize_tree (file_tree data_entry)) demo_rows_disk"
  show "stored demo_env data_disk ''commits'' \<subseteq> {serialize_commit data_commit}"
    using file_stored [OF demo_rows_stored(1)] stored_put [OF demo_env_ok, of "''commits''" "serialize_commit data_commit" ?d]
    by (simp add: data_disk_def file_disk_def data_commit_def)
  show "stored demo_env data_disk ''trees'' \<subseteq> {serialize_tree (file_tree data_entry)}"
    using stored_put [OF demo_env_ok, of "''trees''" "serialize_tree (file_tree data_entry)" demo_rows_disk] demo_rows_stored(2)
      stored_puts_other [of "''commits''" "''trees''" demo_env "[serialize_commit (file_commit data_entry)]" ?d]
    by (simp add: data_disk_def file_disk_def)
qed

lemma demo_commit_map:
  "commit_map [(str ''t'', (str ''manifest'', mh, sc))] [(str ''t'', (str ''manifest'', mh))] = [(str ''t'', Staged2 (str ''manifest'') mh)]"
  by (simp add: commit_map_def kept_entry_def commit_stage_def)

definition demo_staged_file :: staged where
  "demo_staged_file = [(str ''t'', Staged2 (str ''manifest'') (demo_digest (serialize_manifest demo_manifest)))]"

lemma demo_staged_blobs: "subtree_blobs demo_env 50 demo_staged_file [] = Inr [serialize_tree (file_tree data_entry)]"
proof -
  have "split_level [] [(str ''t'', v)] = ([(str ''t'', v)], [])" for v
    by (simp add: split_level_def split_step_def Let_def py_startswith_def str_def)
  then have "subtree_blobs demo_env (Suc n) demo_staged_file [] = Inr [serialize_tree (file_tree data_entry)]" for n
    by (simp add: demo_staged_file_def staged_tree_entry_def file_tree_def data_entry_def)
  from this [of 49] show ?thesis by simp
qed

lemma demo_tree_fits: "tree_fits demo_env data_disk demo_staged_file"
proof -
  have "collision_free demo_env data_disk ''trees'' [serialize_tree (file_tree data_entry)]"
    using data_stored(2) by (auto simp: collision_free_def inj_on_def)
  then show ?thesis
    unfolding tree_fits_def
    by (simp add: demo_staged_blobs)
       (simp add: demo_staged_file_def staged_ok_def valid_flat_def demo_digest_valid valid_opt_def wf_dict_def py_startswith_def str_def
         scalar_def is_high_def is_low_def)
qed

lemma demo_build:
  "\<exists>d. build_nested_tree demo_env demo_staged_file data_disk = Inr (demo_digest (serialize_tree (file_tree data_entry)), d)"
  by (simp add: build_nested_tree_def build_subtree_blobs demo_staged_blobs)


end
