(* ===== verification/Dit_Checkout.thy ===== *)
theory Dit_Checkout
  imports Dit_Commit
begin

text \<open>
  What the working directory holds after a tree has been written to it, when uncommitted changes are
  seen, and what a switch of branches does.
\<close>

section \<open>Writing the files of a tree\<close>

text \<open>The content a data file or a blob is written with.\<close>

definition rendered :: "env \<Rightarrow> disk \<Rightarrow> pystr \<Rightarrow> pystr \<Rightarrow> bytes res" where
  "rendered E d ty h =
     (if ty = str ''manifest''
      then bindE (must TypeError (read_manifest E d h)) (\<lambda>m.
        case materialize_rows E d (entries m) of (c, None) \<Rightarrow> Inr c | (c, Some e) \<Rightarrow> Inl e)
      else bindE (must KeyError (store_read E d (str ''blobs'') h)) deserialize_blob)"

text \<open>Only the working directory differs.\<close>

definition same_repo :: "repo \<Rightarrow> repo \<Rightarrow> bool" where
  "same_repo g g' \<longleftrightarrow> (\<exists>w ts. g' = g\<lparr>g_work := w, g_mtimes := ts\<rparr>)"

lemma same_repo_refl [simp]: "same_repo g g"
  unfolding same_repo_def by (rule exI [of _ "g_work g"], rule exI [of _ "g_mtimes g"]) simp

lemma same_repo_trans: "same_repo g g1 \<Longrightarrow> same_repo g1 g2 \<Longrightarrow> same_repo g g2"
  unfolding same_repo_def by fastforce

lemma same_repoD: "same_repo g g' \<Longrightarrow> g_objects g' = g_objects g \<and> g_refs g' = g_refs g \<and> g_index g' = g_index g \<and>
    g_sparse g' = g_sparse g \<and> g_stats g' = g_stats g \<and> g_config g' = g_config g \<and> g_merge_head g' = g_merge_head g"
  by (auto simp: same_repo_def)

lemma put_work_simps [simp]:
  "g_work (put_work W p c g) = AList.update p c (g_work g)" "same_repo g (put_work W p c g)"
  "g_work (del_work p g) = AList.delete p (g_work g)" "same_repo g (del_work p g)"
  by (auto simp: put_work_def del_work_def same_repo_def)

lemma checkout_manifest_Inr:
  "checkout_manifest E W name h g = (g', Inr ()) \<longleftrightarrow>
     \<not> under_file (g_work g) (split_slash name) \<and> \<not> is_wdir (g_work g) (split_slash name) \<and>
     (\<exists>c. rendered E (g_objects g) (str ''manifest'') h = Inr c \<and> g' = put_work W (split_slash name) c g)"
proof (cases "must TypeError (read_manifest E (g_objects g) h)")
  case (Inr m)
  obtain c x where "materialize_rows E (g_objects g) (entries m) = (c, x)" by (cases "materialize_rows E (g_objects g) (entries m)")
  with Inr show ?thesis
    by (cases x) (auto simp: checkout_manifest_def cmd_Inr materialize_file_def rendered_def put_work_def Let_def)
qed (simp add: checkout_manifest_def rendered_def cmd_Inr)

lemma checkout_blob_Inr:
  "checkout_blob E W name h g = (g', Inr ()) \<longleftrightarrow>
     store_read E (g_objects g) (str ''blobs'') h = Inr None \<and> g' = g \<or>
     \<not> under_file (g_work g) (split_slash name) \<and> \<not> is_wdir (g_work g) (split_slash name) \<and>
     (\<exists>c. rendered E (g_objects g) (str ''blob'') h = Inr c \<and> g' = put_work W (split_slash name) c g)"
  by (auto simp: checkout_blob_def cmd_Inr rendered_def must_Inr bindE_eq_Inr Let_def split: option.splits if_splits)

text \<open>Files that can lie next to each other: none is where another has a directory.\<close>

definition apart :: "pystr list set \<Rightarrow> bool" where
  "apart P \<longleftrightarrow> (\<forall>p \<in> P. \<forall>q \<in> P. \<not> strict_prefix p q)"

abbreviation work_paths :: "repo \<Rightarrow> pystr list set" where
  "work_paths g \<equiv> fst ` set (g_work g)"

lemma apart_clear: "apart P \<Longrightarrow> fst ` set w \<subseteq> P \<Longrightarrow> p \<in> P \<Longrightarrow> \<not> under_file w p \<and> \<not> is_wdir w p"
  unfolding apart_def under_file_def is_wdir_def by blast

lemma keys_update: "fst ` set (AList.update k v d) = insert k (fst ` set d)"
  by (simp add: dom_update flip: dom_map_of_conv_image_fst) (simp add: update_conv')

lemma forC_append: "forC f (xs @ ys) = seqC (forC f xs) (forC f ys)"
  by (induction xs) (auto simp: fun_eq_iff seqC_def bindC_def split: prod.splits sum.splits)

text \<open>A loop whose steps each write one file.\<close>

lemma forC_puts:
  assumes "apart P" "work_paths g \<subseteq> P" "\<forall>x \<in> set xs. pth x \<in> P"
    and "\<And>x g'. x \<in> set xs \<Longrightarrow> g_objects g' = g_objects g \<Longrightarrow> work_paths g' \<subseteq> P \<Longrightarrow> f x g' = (put_work W (pth x) (ct x) g', Inr ())"
  shows "\<exists>g'. forC f xs g = (g', Inr ()) \<and> same_repo g g' \<and> work_paths g' \<subseteq> P \<and>
    map_of (g_work g') = map_of (g_work g) ++ map_of (rev (map (\<lambda>x. (pth x, ct x)) xs))"
  using assms(2-4)
proof (induction xs arbitrary: g)
  case (Cons x xs)
  let ?g = "put_work W (pth x) (ct x) g"
  have s: "same_repo g ?g" by simp
  have o: "g_objects ?g = g_objects g" using same_repoD [OF s] by simp
  have w: "work_paths ?g \<subseteq> P" using Cons.prems(1,2) by (simp add: keys_update)
  have "\<exists>g'. forC f xs ?g = (g', Inr ()) \<and> same_repo ?g g' \<and> work_paths g' \<subseteq> P \<and>
      map_of (g_work g') = map_of (g_work ?g) ++ map_of (rev (map (\<lambda>x. (pth x, ct x)) xs))"
    by (rule Cons.IH [OF w]) (use Cons.prems(2,3) o in auto)
  then obtain g' where g': "forC f xs ?g = (g', Inr ())" "same_repo ?g g'" "work_paths g' \<subseteq> P"
    "map_of (g_work g') = map_of (g_work ?g) ++ map_of (rev (map (\<lambda>x. (pth x, ct x)) xs))" by blast
  have "f x g = (?g, Inr ())" using Cons.prems(1,3) by simp
  then show ?case
    using g' same_repo_trans [OF s g'(2)]
    by (intro exI [of _ g']) (simp add: update_conv' map_add_def fun_eq_iff split: option.split)
qed (simp add: map_add_def)

lemma forC_removes:
  assumes "apart P" "work_paths g \<subseteq> P" "split_slash ` set ns \<subseteq> P"
  shows "\<exists>g'. forC remove_file ns g = (g', Inr ()) \<and> same_repo g g' \<and>
    map_of (g_work g') = map_of (g_work g) |` (- split_slash ` set ns)"
  using assms(2,3)
proof (induction ns arbitrary: g)
  case (Cons n ns)
  let ?p = "split_slash n"
  obtain g1 where g1: "remove_file n g = (g1, Inr ())" "same_repo g g1" "map_of (g_work g1) = (map_of (g_work g))(?p := None)"
    "work_paths g1 \<subseteq> P"
  proof (cases "map_of (g_work g) ?p")
    case None
    have "\<not> is_wdir (g_work g) ?p" using apart_clear [OF assms(1) Cons.prems(1)] Cons.prems(2) by auto
    with None have "remove_file n g = (g, Inr ())" by (simp add: remove_file_def stepC_def Let_def)
    then show ?thesis using that None Cons.prems(1) by (auto simp: fun_eq_iff)
  next
    case (Some c)
    then have "remove_file n g = (del_work ?p g, Inr ())" by (simp add: remove_file_def stepC_def Let_def)
    moreover have "work_paths (del_work ?p g) \<subseteq> P" using Cons.prems(1) by (auto simp: AList.delete_eq)
    ultimately show ?thesis using that by (simp add: delete_conv')
  qed
  from Cons.IH [OF g1(4)] Cons.prems(2) obtain g' where "forC remove_file ns g1 = (g', Inr ())" "same_repo g1 g'"
    "map_of (g_work g') = map_of (g_work g1) |` (- split_slash ` set ns)" by auto
  then have "forC remove_file (n # ns) g = (g', Inr ())" "same_repo g g'"
    "map_of (g_work g') = map_of (g_work g) |` (- split_slash ` set (n # ns))"
    using g1(1) same_repo_trans [OF g1(2)] by (simp_all add: g1(3) restrict_map_def fun_eq_iff)
  then show ?case by blast
qed (simp add: restrict_map_def)

lemma split_slash_inj: "split_slash p = split_slash q \<longleftrightarrow> p = q"
  by (metis join_split_slash)

lemma map_of_filter_wf:
  "wf_dict d \<Longrightarrow> map_of (filter Q d) p = (case map_of d p of Some v \<Rightarrow> if Q (p, v) then Some v else None | None \<Rightarrow> None)"
proof (induction d)
  case (Cons kv d)
  obtain k v where kv: "kv = (k, v)" by (cases kv)
  with Cons.prems have "map_of d k = None" "wf_dict d" by (auto simp: wf_dict_Cons map_of_eq_None_iff)
  with Cons.IH kv show ?case by (cases "p = k") (simp_all split: option.split)
qed simp

lemma wf_dict_filter [simp]: "wf_dict d \<Longrightarrow> wf_dict (filter Q d)"
  by (auto simp: wf_dict_def distinct_map_filter)

lemma kind_of_flat:
  fixes flat :: "flat_entry dict"
  assumes "wf_dict flat"
  shows "wf_dict (map (\<lambda>(p, ty, h, sc). (p, h)) (filter (\<lambda>(p, ty, h, sc). ty = k) flat)) \<and>
    map_of (map (\<lambda>(p, ty, h, sc). (p, h)) (filter (\<lambda>(p, ty, h, sc). ty = k) flat)) p =
      (case map_of flat p of Some (ty, h, sc) \<Rightarrow> if ty = k then Some h else None | None \<Rightarrow> None)"
proof -
  let ?f = "filter (\<lambda>(p, ty, h, sc). ty = k) flat"
  have "map_of (map (\<lambda>(p, ty, h, sc). (p, h)) xs) p = map_option (\<lambda>(ty, h, sc). h) (map_of xs p)" for xs :: "flat_entry dict"
    by (induction xs) auto
  moreover have "wf_dict (map (\<lambda>(p, ty, h, sc). (p, h)) xs) \<longleftrightarrow> wf_dict xs" for xs :: "flat_entry dict"
    by (simp add: wf_dict_def comp_def split_beta)
  ultimately show ?thesis using assms by (simp add: map_of_filter_wf split: option.split)
qed

lemmas map_of_manifests = kind_of_flat [of _ "str ''manifest''", folded manifests_of_def]
lemmas map_of_blobs = kind_of_flat [of _ "str ''blob''", folded blobs_of_def]

lemma map_of_rev_paths:
  assumes "wf_dict xs"
  shows "map_of (rev (map (\<lambda>x. (split_slash (fst x), c (snd x))) xs)) (split_slash p) = map_option c (map_of xs p)"
proof -
  have "map_of (map (\<lambda>x. (split_slash (fst x), c (snd x))) ys) (split_slash p) = map_option c (map_of ys p)" for ys
    by (induction ys) (auto simp: split_slash_inj)
  from this [of "rev xs"] show ?thesis using map_of_rev_wf [OF assms] by (simp add: rev_map)
qed

definition file_type :: "pystr \<Rightarrow> bool" where
  "file_type ty \<longleftrightarrow> ty = str ''manifest'' \<or> ty = str ''blob''"

definition file_at :: "flat_entry dict \<Rightarrow> pystr \<Rightarrow> bool" where
  "file_at flat p \<longleftrightarrow> (case map_of flat p of Some (ty, h, sc) \<Rightarrow> file_type ty | None \<Rightarrow> False)"

text \<open>What a tree prescribes for a path, within the sparse checkout.\<close>

definition checked_out :: "env \<Rightarrow> disk \<Rightarrow> pystr set option \<Rightarrow> flat_entry dict \<Rightarrow> pystr \<Rightarrow> bytes option" where
  "checked_out E d sparse flat p =
     (case map_of flat p of
        Some (ty, h, sc) \<Rightarrow>
          if file_type ty \<and> in_sparse sparse p then (case rendered E d ty h of Inr c \<Rightarrow> Some c | Inl _ \<Rightarrow> None) else None
      | None \<Rightarrow> None)"

definition readable_files :: "env \<Rightarrow> disk \<Rightarrow> pystr set option \<Rightarrow> flat_entry dict \<Rightarrow> bool" where
  "readable_files E d sparse flat \<longleftrightarrow>
     (\<forall>(p, ty, h, sc) \<in> set flat. file_type ty \<and> in_sparse sparse p \<longrightarrow> (\<exists>c. rendered E d ty h = Inr c))"

text \<open>Files both trees have alike are in the working directory: the code does not write them.\<close>

definition unchanged_there :: "env \<Rightarrow> repo \<Rightarrow> pystr set option \<Rightarrow> flat_entry dict \<Rightarrow> flat_entry dict \<Rightarrow> bool" where
  "unchanged_there E g sparse old new \<longleftrightarrow>
     (\<forall>p ty h sc sc'. map_of new p = Some (ty, h, sc) \<and> map_of old p = Some (ty, h, sc') \<and> file_type ty \<and> in_sparse sparse p \<longrightarrow>
        map_of (g_work g) (split_slash p) = checked_out E (g_objects g) sparse new p)"

lemma forC_checkout:
  assumes "apart P" "work_paths g \<subseteq> P" "wf_dict xs" "split_slash ` fst ` set xs \<subseteq> P"
    and f: "f = (if k = str ''manifest'' then checkout_manifest E W else checkout_blob E W)" "file_type k"
    and "\<And>p h. (p, h) \<in> set xs \<Longrightarrow> \<exists>c. rendered E (g_objects g) k h = Inr c"
  shows "\<exists>g'. forC (\<lambda>(p, h). f p h) xs g = (g', Inr ()) \<and> same_repo g g' \<and> work_paths g' \<subseteq> P \<and>
    (\<forall>p. map_of (g_work g') (split_slash p) = (case map_of xs p of
        Some h \<Rightarrow> (case rendered E (g_objects g) k h of Inr c \<Rightarrow> Some c | Inl _ \<Rightarrow> None) | None \<Rightarrow> map_of (g_work g) (split_slash p)))"
proof -
  let ?c = "\<lambda>h. projr (rendered E (g_objects g) k h)"
  have "(case x of (p, h) \<Rightarrow> f p h) g' = (put_work W (split_slash (fst x)) (?c (snd x)) g', Inr ())"
    if "x \<in> set xs" "g_objects g' = g_objects g" "work_paths g' \<subseteq> P" for x g'
  proof -
    obtain p h where x: "x = (p, h)" by (cases x)
    with that(1) assms(7) [of p h] obtain c where "rendered E (g_objects g) k h = Inr c" by auto
    moreover have "split_slash p \<in> P" using assms(4) that(1) x by force
    ultimately show ?thesis
      using apart_clear [OF assms(1) that(3)] f x that(2)
      by (auto simp: checkout_manifest_Inr checkout_blob_Inr file_type_def)
  qed
  note step = this
  have P: "\<forall>x \<in> set xs. split_slash (fst x) \<in> P" using assms(4) by auto
  obtain g' where g': "forC (\<lambda>(p, h). f p h) xs g = (g', Inr ())" "same_repo g g'"
    "work_paths g' \<subseteq> P" "map_of (g_work g') = map_of (g_work g) ++ map_of (rev (map (\<lambda>x. (split_slash (fst x), ?c (snd x))) xs))"
    using forC_puts [where pth = "\<lambda>x. split_slash (fst x)" and ct = "\<lambda>x. ?c (snd x)", OF assms(1,2) P step] by blast
  moreover have "map_of (g_work g') (split_slash p) = (case map_of xs p of
      Some h \<Rightarrow> (case rendered E (g_objects g) k h of Inr c \<Rightarrow> Some c | Inl _ \<Rightarrow> None) | None \<Rightarrow> map_of (g_work g) (split_slash p))" for p
  proof (cases "map_of xs p")
    case (Some h)
    from assms(7) [OF map_of_SomeD [OF this]] obtain c where "rendered E (g_objects g) k h = Inr c" ..
    with Some show ?thesis by (simp add: g'(4) map_add_def map_of_rev_paths [OF assms(3), of ?c])
  qed (simp add: g'(4) map_add_def map_of_rev_paths [OF assms(3), of ?c])
  ultimately show ?thesis by blast
qed

lemma in_dict_iff: "p \<in> fst ` set d \<longleftrightarrow> map_of d p \<noteq> None"
  by (simp add: map_of_eq_None_iff)

lemma names_of_flat:
  assumes "wf_dict flat"
  shows "p \<in> fst ` set (manifests_of flat) \<union> fst ` set (blobs_of flat) \<longleftrightarrow> file_at flat p"
  unfolding Un_iff in_dict_iff using map_of_manifests [OF assms, of p] map_of_blobs [OF assms, of p]
  by (auto simp: file_at_def file_type_def split: option.splits)

text \<open>The files of one kind that are written.\<close>

lemma kind_writes:
  fixes new old :: "flat_entry dict"
  assumes "wf_dict new" "wf_dict old" and k: "kind = manifests_of \<and> k = str ''manifest'' \<or> kind = blobs_of \<and> k = str ''blob''"
    and xs: "xs = filter (\<lambda>(p, h). map_of (kind old) p \<noteq> Some h) (filter (\<lambda>e. in_sparse sparse (fst e)) (kind new))"
  shows "wf_dict xs" and "map_of xs p = (case map_of new p of
      Some (ty, h, sc) \<Rightarrow> if ty = k \<and> in_sparse sparse p \<and> (\<forall>sc'. map_of old p \<noteq> Some (k, h, sc')) then Some h else None
    | None \<Rightarrow> None)"
proof -
  have m: "wf_dict (kind f) \<and> map_of (kind f) p = (case map_of f p of Some (ty, h, sc) \<Rightarrow> if ty = k then Some h else None | None \<Rightarrow> None)"
    if "wf_dict f" for f p using map_of_manifests [OF that] map_of_blobs [OF that] k by auto
  show "wf_dict xs" using m [OF assms(1)] by (simp add: xs)
  show "map_of xs p = (case map_of new p of
      Some (ty, h, sc) \<Rightarrow> if ty = k \<and> in_sparse sparse p \<and> (\<forall>sc'. map_of old p \<noteq> Some (k, h, sc')) then Some h else None
    | None \<Rightarrow> None)"
    using m [OF assms(1), of p] m [OF assms(2), of p]
    by (auto simp: xs map_of_filter_wf split: option.splits)
qed

definition written :: "flat_entry dict \<Rightarrow> flat_entry dict \<Rightarrow> pystr set option \<Rightarrow> pystr \<Rightarrow> pystr \<Rightarrow> bool" where
  "written new old sparse k p \<longleftrightarrow>
     (\<exists>h sc. map_of new p = Some (k, h, sc) \<and> in_sparse sparse p \<and> (\<forall>sc'. map_of old p \<noteq> Some (k, h, sc')))"

lemma checkout_kind:
  fixes new old :: "flat_entry dict"
  assumes wf: "wf_dict new" "wf_dict old"
    and k: "kind = manifests_of \<and> k = str ''manifest'' \<and> f = checkout_manifest E W \<or> kind = blobs_of \<and> k = str ''blob'' \<and> f = checkout_blob E W"
    and xs: "xs = filter (\<lambda>(p, h). map_of (kind old) p \<noteq> Some h) (filter (\<lambda>e. in_sparse sparse (fst e)) (kind new))"
    and P: "apart P" "work_paths g \<subseteq> P" "split_slash ` {p. file_at new p} \<subseteq> P"
    and rd: "readable_files E (g_objects g) sparse new"
  shows "\<exists>g'. forC (\<lambda>(p, h). f p h) xs g = (g', Inr ()) \<and> same_repo g g' \<and> work_paths g' \<subseteq> P \<and>
    (\<forall>p. map_of (g_work g') (split_slash p) =
      (if written new old sparse k p then checked_out E (g_objects g) sparse new p else map_of (g_work g) (split_slash p)))"
proof -
  have k2: "kind = manifests_of \<and> k = str ''manifest'' \<or> kind = blobs_of \<and> k = str ''blob''" using k by auto
  have ty: "file_type k" "f = (if k = str ''manifest'' then checkout_manifest E W else checkout_blob E W)" using k by (auto simp: file_type_def)
  note m = kind_writes [OF wf k2 xs]
  have w: "written new old sparse k p \<longleftrightarrow> map_of xs p \<noteq> None" for p
    by (auto simp: m(2) written_def split: option.splits)
  have v: "\<exists>c sc. map_of new p = Some (k, h, sc) \<and> rendered E (g_objects g) k h = Inr c \<and> checked_out E (g_objects g) sparse new p = Some c"
    if "map_of xs p = Some h" for p h
  proof -
    from that obtain sc where sc: "map_of new p = Some (k, h, sc)" "in_sparse sparse p" by (auto simp: m(2) split: option.splits if_splits)
    moreover have "\<exists>c. rendered E (g_objects g) k h = Inr c"
      using rd ty(1) sc(2) map_of_SomeD [OF sc(1)] by (fastforce simp: readable_files_def)
    ultimately show ?thesis using ty(1) by (auto simp: checked_out_def)
  qed
  have "\<exists>c. rendered E (g_objects g) k h = Inr c" if "(p, h) \<in> set xs" for p h
    using v [of p h] wf_dict_mem [OF m(1) that] by auto
  moreover have "split_slash ` fst ` set xs \<subseteq> P"
  proof -
    have "file_at new p" if "p \<in> fst ` set xs" for p
    proof -
      from that obtain h where "map_of xs p = Some h" by (auto simp: in_dict_iff)
      from v [OF this] ty(1) show ?thesis by (auto simp: file_at_def)
    qed
    then show ?thesis using P(3) by blast
  qed
  ultimately obtain g' where g': "forC (\<lambda>(p, h). f p h) xs g = (g', Inr ())" "same_repo g g'" "work_paths g' \<subseteq> P"
    "\<forall>p. map_of (g_work g') (split_slash p) = (case map_of xs p of
        Some h \<Rightarrow> (case rendered E (g_objects g) k h of Inr c \<Rightarrow> Some c | Inl _ \<Rightarrow> None) | None \<Rightarrow> map_of (g_work g) (split_slash p))"
    using forC_checkout [OF P(1,2) m(1) _ ty(2,1)] by meson
  moreover have "map_of (g_work g') (split_slash p) =
      (if written new old sparse k p then checked_out E (g_objects g) sparse new p else map_of (g_work g) (split_slash p))" for p
    using v [of p] by (cases "map_of xs p") (auto simp: g'(4) w)
  ultimately show ?thesis by blast
qed

lemma materialize_flat_exact:
  assumes ok: "env_ok E" and wf: "wf_dict new" "wf_dict old"
    and P: "apart P" "work_paths g \<subseteq> P" "split_slash ` {p. file_at new p} \<subseteq> P" "split_slash ` {p. file_at old p} \<subseteq> P"
    and rd: "readable_files E (g_objects g) sparse new" and there: "unchanged_there E g sparse old new"
  shows "\<exists>g'. materialize_flat E W new (Some old) sparse g = (g', Inr ()) \<and> same_repo g g' \<and>
    (\<forall>p. map_of (g_work g') (split_slash p) = (case checked_out E (g_objects g) sparse new p of
        Some c \<Rightarrow> Some c | None \<Rightarrow> if file_at old p then None else map_of (g_work g) (split_slash p)))"
proof -
  obtain ms where ms: "ms = filter (\<lambda>(p, h). map_of (manifests_of old) p \<noteq> Some h) (filter (\<lambda>e. in_sparse sparse (fst e)) (manifests_of new))" by simp
  obtain bs where bs: "bs = filter (\<lambda>(p, h). map_of (blobs_of old) p \<noteq> Some h) (filter (\<lambda>e. in_sparse sparse (fst e)) (blobs_of new))" by simp
  obtain del where del: "del = filter (\<lambda>p. p \<notin> fst ` set (filter (\<lambda>e. in_sparse sparse (fst e)) (manifests_of new)) \<union>
      fst ` set (filter (\<lambda>e. in_sparse sparse (fst e)) (blobs_of new))) (set_order E (map fst (manifests_of old) @ map fst (blobs_of old)))" by simp
  obtain g1 where g1: "forC (\<lambda>(p, h). checkout_manifest E W p h) ms g = (g1, Inr ())" "same_repo g g1" "work_paths g1 \<subseteq> P"
    "\<forall>p. map_of (g_work g1) (split_slash p) = (if written new old sparse (str ''manifest'') p
      then checked_out E (g_objects g) sparse new p else map_of (g_work g) (split_slash p))"
    using checkout_kind [OF wf _ ms P(1-3) rd] by blast
  have o1: "g_objects g1 = g_objects g" using same_repoD [OF g1(2)] by simp
  obtain g2 where g2: "forC (\<lambda>(p, h). checkout_blob E W p h) bs g1 = (g2, Inr ())" "same_repo g1 g2" "work_paths g2 \<subseteq> P"
    "\<forall>p. map_of (g_work g2) (split_slash p) = (if written new old sparse (str ''blob'') p
      then checked_out E (g_objects g) sparse new p else map_of (g_work g1) (split_slash p))"
    using checkout_kind [OF wf _ bs P(1) g1(3) P(3), unfolded o1, OF _ rd] by blast
  have dom: "p \<in> set del \<longleftrightarrow> file_at old p \<and> \<not> (file_at new p \<and> in_sparse sparse p)" for p
  proof -
    have "p \<in> fst ` set (filter (\<lambda>e. in_sparse sparse (fst e)) xs) \<longleftrightarrow> p \<in> fst ` set xs \<and> in_sparse sparse p" for xs :: "pystr dict"
      by auto
    then show ?thesis
      using env_okD(4) [OF ok] names_of_flat [OF wf(2), of p] names_of_flat [OF wf(1), of p] by (simp add: del) blast
  qed
  then have "split_slash ` set del \<subseteq> P" using P(4) by blast
  from forC_removes [OF P(1) g2(3) this] obtain g3 where g3: "forC remove_file del g2 = (g3, Inr ())" "same_repo g2 g3"
    "map_of (g_work g3) = map_of (g_work g2) |` (- split_slash ` set del)" by blast
  have "materialize_flat E W new (Some old) sparse g = (g3, Inr ())"
    using g1(1) g2(1) g3(1) by (simp add: materialize_flat_def Let_def ms bs del)
  moreover have "same_repo g g3" using g1(2) g2(2) g3(2) same_repo_trans by blast
  moreover have "map_of (g_work g3) (split_slash p) = (case checked_out E (g_objects g) sparse new p of
        Some c \<Rightarrow> Some c | None \<Rightarrow> if file_at old p then None else map_of (g_work g) (split_slash p))" for p
  proof (cases "file_at new p \<and> in_sparse sparse p")
    case True
    then obtain k h sc where k: "map_of new p = Some (k, h, sc)" "file_type k" by (auto simp: file_at_def split: option.splits)
    obtain c where "rendered E (g_objects g) k h = Inr c"
      using rd k(2) True map_of_SomeD [OF k(1)] by (fastforce simp: readable_files_def)
    then have c: "checked_out E (g_objects g) sparse new p = Some c" using k True by (simp add: checked_out_def)
    have "map_of (g_work g2) (split_slash p) = Some c"
    proof (cases "\<exists>sc'. map_of old p = Some (k, h, sc')")
      case True
      then have "map_of (g_work g) (split_slash p) = Some c"
        using there k \<open>file_at new p \<and> in_sparse sparse p\<close> c unfolding unchanged_there_def by metis
      with c show ?thesis by (simp add: g2(4) g1(4))
    next
      case False
      then have "written new old sparse k p" using k(1) True by (auto simp: written_def)
      with k(2) c show ?thesis by (auto simp: g2(4) g1(4) file_type_def)
    qed
    with c True dom show ?thesis by (simp add: g3(3) restrict_map_def image_iff split_slash_inj)
  next
    case False
    then have "checked_out E (g_objects g) sparse new p = None" "\<not> written new old sparse (str ''manifest'') p"
      "\<not> written new old sparse (str ''blob'') p"
      by (auto simp: checked_out_def written_def file_at_def file_type_def split: option.splits)
    with False dom show ?thesis by (auto simp: g3(3) g2(4) g1(4) restrict_map_def image_iff split_slash_inj)
  qed
  ultimately show ?thesis by blast
qed

section \<open>Switching\<close>

lemma statsC_frame: "statsC f g = (g', r) \<Longrightarrow> \<exists>c. g' = g\<lparr>g_stats := c\<rparr>"
  by (auto simp: statsC_def stepC_def bindE_eq_Inr split: sum.splits intro: exI [of _ "g_stats g"])

definition stats_only :: "repo \<Rightarrow> repo \<Rightarrow> bool" where
  "stats_only g g' \<longleftrightarrow> (\<exists>c. g' = g\<lparr>g_stats := c\<rparr>)"

lemma stats_only_refl [simp]: "stats_only g g"
  unfolding stats_only_def by (rule exI [of _ "g_stats g"]) simp

lemma stats_only_trans: "stats_only g g1 \<Longrightarrow> stats_only g1 g2 \<Longrightarrow> stats_only g g2"
  unfolding stats_only_def by fastforce

lemma stats_only_bind:
  assumes "\<And>g g' r. m g = (g', r) \<Longrightarrow> stats_only g g'" "\<And>x g g' r. f x g = (g', r) \<Longrightarrow> stats_only g g'"
    and "bindC m f g = (g', r)"
  shows "stats_only g g'"
proof -
  obtain g1 x where m: "m g = (g1, x)" by (cases "m g")
  with assms(3) show ?thesis
    using assms(1) [OF m] assms(2) stats_only_trans by (cases x) (auto simp: bindC_def)
qed

lemma hash_fileC_frame: "hash_fileC E fp g = (g', r) \<Longrightarrow> stats_only g g'"
  using statsC_frame by (fastforce simp: hash_fileC_def stats_only_def bindC_def seqC_def split: sum.splits prod.splits
    intro: exI [of _ "g_stats g"])

lemma differsC_frame: "differsC E fp mh g = (g', r) \<Longrightarrow> stats_only g g'"
  unfolding differsC_def
  by (erule stats_only_bind [rotated 2])
     (auto split: if_splits elim!: stats_only_bind [rotated 2] dest: hash_fileC_frame)

lemma any_differs_frame: "any_differs E ms fps g = (g', r) \<Longrightarrow> stats_only g g'"
proof (induction fps arbitrary: g g' r)
  case (Cons fp fps)
  show ?case
    by (rule stats_only_bind [OF _ _ Cons.prems [unfolded any_differs.simps]])
       (use Cons.IH differsC_frame in \<open>auto split: if_splits option.splits\<close>)
qed simp

lemma has_uncommitted_frame: "has_uncommitted_changes E W g = (g', r) \<Longrightarrow> stats_only g g'"
  by (auto simp: has_uncommitted_changes_def headC_def head_flatC_def commitC_def flatC_def bindC_def
      split: sum.splits option.splits if_splits dest: any_differs_frame)

text \<open>A stat cache that is right about every file.\<close>

definition stats_true :: "env \<Rightarrow> repo \<Rightarrow> bool" where
  "stats_true E g \<longleftrightarrow> wf_json (stat_load (g_stats g)) \<and> (\<exists>data. stat_load (g_stats g) = JObj data) \<and>
     (\<forall>fp \<in> work_paths g. \<exists>v. get_manifest_hash (g_stats g) (join_slash fp) (work_stat g fp) = Inr v \<and>
        (v \<noteq> JNull \<longrightarrow> (\<exists>m. file_manifest E (g_work g) fp = Inr m \<and> v = JStr (manifest_digest E m))))"

lemma py_get_sorted: "wf_json v \<Longrightarrow> py_get (sort_keys v) k = bindE (py_get v k) (\<lambda>x. Inr (sort_keys x))"
  by (cases v) (auto simp: sort_keys.simps map_of_sorted_values wf_dict_def comp_def split: option.split)

lemma sort_keys_leaf: "sort_keys v = JNull \<longleftrightarrow> v = JNull" "py_int (sort_keys v) = py_int v"
  by (cases v; simp add: sort_keys.simps)+

lemma get_saved:
  assumes "wf_json (JObj data)"
  shows "get_manifest_hash (stat_save (JObj data)) q st = bindE (get_manifest_hash (Some (JObj data)) q st) (\<lambda>v. Inr (sort_keys v))"
proof (cases "map_of data q")
  case None
  then show ?thesis
    using py_get_sorted [OF assms, of q] by (simp add: get_manifest_hash_def stat_save_def sort_keys.simps(3-))
next
  case (Some e)
  then have wf: "wf_json e" using wf_json_lookup [OF assms] by simp
  have "py_get (sort_keys (JObj data)) q = Inr (sort_keys e)" using py_get_sorted [OF assms, of q] Some by simp
  with Some show ?thesis
    by (cases "py_get e (str ''mtime_ns'')"; cases "py_get e (str ''size'')")
       (auto simp: get_manifest_hash_def stat_save_def sort_keys_leaf py_get_sorted [OF wf] sort_keys.simps(3-) split: option.split)
qed

definition good_paths :: "repo \<Rightarrow> bool" where
  "good_paths g \<longleftrightarrow> (\<forall>fp \<in> work_paths g. fp \<noteq> [] \<and> (\<forall>w \<in> set fp. slash \<notin> set w) \<and> valid_str (join_slash fp))"

lemma split_join_path: "fp \<noteq> [] \<Longrightarrow> \<forall>w \<in> set fp. slash \<notin> set w \<Longrightarrow> split_slash (join_slash fp) = fp"
  by (rule split_join_slash) auto

lemma stats_true_update:
  assumes "stats_true E g" "good_paths g" "env_ok E" "fp \<in> work_paths g" "file_manifest E (g_work g) fp = Inr m"
  shows "\<exists>c. stat_update (g_stats g) (join_slash fp) (work_stat g fp) (manifest_digest E m) = Inr c \<and> stats_true E (g\<lparr>g_stats := c\<rparr>)"
proof (cases "work_stat g fp")
  case None
  with assms(1) show ?thesis by (simp add: stat_update_def)
next
  case (Some st)
  obtain t z where st: "st = (t, z)" by (cases st)
  obtain data where data: "stat_load (g_stats g) = JObj data" "wf_json (JObj data)" using assms(1) by (auto simp: stats_true_def)
  let ?d = "AList.update (join_slash fp) (stat_entry t z (manifest_digest E m)) data"
  let ?c = "stat_save (JObj ?d)"
  have u: "stat_update (g_stats g) (join_slash fp) (work_stat g fp) (manifest_digest E m) = Inr ?c"
    by (simp add: stat_update_def Some st data(1))
  have v: "valid_str (manifest_digest E m)" using assms(3) hex_digest_valid by (simp add: manifest_digest_def env_okD)
  have "wf_json (stat_entry t z (manifest_digest E m))"
    using v by (simp add: stat_entry_def str_def valid_str_def scalar_def is_high_def is_low_def)
  moreover have "set ?d \<subseteq> insert (join_slash fp, stat_entry t z (manifest_digest E m)) (set data)" by (induction data) auto
  ultimately have wf: "wf_json (JObj ?d)"
    using data(2) assms(2,4) by (fastforce simp: good_paths_def distinct_update)
  have "\<exists>v. get_manifest_hash ?c (join_slash q) (work_stat g q) = Inr v \<and>
      (v \<noteq> JNull \<longrightarrow> (\<exists>m. file_manifest E (g_work g) q = Inr m \<and> v = JStr (manifest_digest E m)))" if q: "q \<in> work_paths g" for q
  proof (cases "q = fp")
    case True
    have "wf_dict data" using data(2) by (simp add: wf_dict_def)
    from stat_update_get [OF data(1) this u [unfolded Some st]] show ?thesis using assms(5) by (auto simp: True)
  next
    case False
    then have ne: "join_slash q \<noteq> join_slash fp"
      using assms(2,4) q split_join_path unfolding good_paths_def by metis
    have g: "get_manifest_hash (Some (JObj ?d)) (join_slash q) st = get_manifest_hash (g_stats g) (join_slash q) st" for st
      using ne by (simp add: get_manifest_hash_def data(1) update_conv')
    from assms(1) q obtain v where "get_manifest_hash (g_stats g) (join_slash q) (work_stat g q) = Inr v"
      "v \<noteq> JNull \<longrightarrow> (\<exists>m. file_manifest E (g_work g) q = Inr m \<and> v = JStr (manifest_digest E m))"
      unfolding stats_true_def by blast
    then show ?thesis using get_saved [OF wf] by (cases "v = JNull") (auto simp: g sort_keys.simps)
  qed
  moreover have "wf_json (stat_load ?c) \<and> (\<exists>d. stat_load ?c = JObj d)"
    using wf_sort_keys [OF wf] by (simp add: stat_save_def sort_keys.simps(2) del: wf_json.simps)
  ultimately show ?thesis using u by (auto simp: stats_true_def work_stat_def)
qed

lemma differsC_exact:
  assumes "stats_true E g" "good_paths g" "env_ok E" "fp \<in> work_paths g" "file_manifest E (g_work g) fp = Inr m"
  shows "\<exists>g'. differsC E fp mh g = (g', Inr (manifest_digest E m \<noteq> mh)) \<and> stats_true E g'"
proof -
  from assms(1,4) obtain v where v: "get_manifest_hash (g_stats g) (join_slash fp) (work_stat g fp) = Inr v"
    "v \<noteq> JNull \<longrightarrow> v = JStr (manifest_digest E m)"
    using assms(5) unfolding stats_true_def by fastforce
  show ?thesis
  proof (cases "v = JNull")
    case True
    with stats_true_update [OF assms] v(1) assms(5) show ?thesis
      by (auto simp: differsC_def hash_fileC_def statsC_def bindC_def seqC_def stepC_def)
  next
    case False
    with v assms(1) show ?thesis by (auto simp: differsC_def bindC_def)
  qed
qed

definition data_hash :: "env \<Rightarrow> repo \<Rightarrow> pystr list \<Rightarrow> pystr" where
  "data_hash E g fp = (case file_manifest E (g_work g) fp of Inr m \<Rightarrow> manifest_digest E m | Inl _ \<Rightarrow> [])"

lemma any_differs_exact:
  assumes "stats_true E g" "good_paths g" "env_ok E" "\<forall>fp \<in> set fps. fp \<in> work_paths g \<and> (\<exists>m. file_manifest E (g_work g) fp = Inr m)"
  shows "\<exists>g'. any_differs E ms fps g =
      (g', Inr (\<exists>fp \<in> set fps. \<exists>mh. map_of ms (join_slash fp) = Some mh \<and> data_hash E g fp \<noteq> mh)) \<and> stats_true E g'"
  using assms(1,2,4)
proof (induction fps arbitrary: g)
  case (Cons fp fps)
  let ?first = "\<exists>mh. map_of ms (join_slash fp) = Some mh \<and> data_hash E g fp \<noteq> mh"
  let ?m = "case map_of ms (join_slash fp) of None \<Rightarrow> ret False | Some mh \<Rightarrow> differsC E fp mh"
  obtain g1 where g1: "?m g = (g1, Inr ?first)" "stats_true E g1" "stats_only g g1"
  proof (cases "map_of ms (join_slash fp)")
    case (Some mh)
    from Cons.prems(3) obtain m where "fp \<in> work_paths g" "file_manifest E (g_work g) fp = Inr m" by auto
    with differsC_exact [OF Cons.prems(1,2) assms(3) this, of mh] differsC_frame Some that show ?thesis by (auto simp: data_hash_def)
  qed (use Cons.prems(1) that in simp)
  then have w: "g_work g1 = g_work g" by (auto simp: stats_only_def)
  have "\<exists>g'. any_differs E ms fps g1 =
      (g', Inr (\<exists>fp \<in> set fps. \<exists>mh. map_of ms (join_slash fp) = Some mh \<and> data_hash E g1 fp \<noteq> mh)) \<and> stats_true E g'"
    by (rule Cons.IH) (use g1(2) w Cons.prems(2,3) in \<open>auto simp: good_paths_def\<close>)
  then show ?case using g1(1,2) w by (cases ?first) (auto simp: bindC_def data_hash_def)
qed simp

text \<open>The data files below the root, and the manifests the tree of HEAD has for the sparse checkout.\<close>

definition data_files :: "world \<Rightarrow> repo \<Rightarrow> pystr list list" where
  "data_files W g = find_jsonl_files (w_root W) (g_work g)"

definition sparse_paths :: "repo \<Rightarrow> pystr set option" where
  "sparse_paths g = load_sparse_paths (g_sparse g)"

definition data_map :: "env \<Rightarrow> world \<Rightarrow> repo \<Rightarrow> pystr \<Rightarrow> pystr option" where
  "data_map E W g p = (if split_slash p \<in> set (data_files W g) then Some (data_hash E g (split_slash p)) else None)"

definition head_map :: "repo \<Rightarrow> flat_entry dict \<Rightarrow> pystr \<Rightarrow> pystr option" where
  "head_map g flat p = (if in_sparse (sparse_paths g) p then map_of (manifests_of flat) p else None)"

text \<open>
  C35: The check before a switch or a pull, and the stat cache it uses: with a cache that is right about
  every file it reports a change exactly when the manifests of the data files in the working directory
  are not those of HEAD, within the sparse checkout; and the cache it leaves is right again. Other files
  are not looked at.
\<close>

theorem uncommitted_exact:
  assumes "env_ok E" and "stats_true E g" and "good_paths g"
    and "resolve_head (g_refs g) = Inr (Some h)" and "read_commit E (g_objects g) h = Inr (Some c)"
    and "flatten_tree E (g_objects g) (rec_limit E) (tree_hash c) [] = Inr flat"
    and "\<forall>fp \<in> set (data_files W g). \<exists>m. file_manifest E (g_work g) fp = Inr m"
  shows "\<exists>g'. has_uncommitted_changes E W g = (g', Inr (data_map E W g \<noteq> head_map g flat)) \<and> stats_true E g' \<and> stats_only g g'"
proof -
  have wf: "wf_dict flat" by (rule flatten_tree_wf [OF assms(6)])
  have work: "fp \<in> work_paths g" if "fp \<in> set (data_files W g)" for fp
    using assms(7) that by (force simp: file_manifest_def split: option.splits dest: map_of_SomeD)
  have sj: "split_slash (join_slash fp) = fp" if "fp \<in> set (data_files W g)" for fp
    using work [OF that] assms(3) split_join_path by (auto simp: good_paths_def)
  let ?cur = "set (map join_slash (data_files W g))"
  let ?head = "{r \<in> fst ` set (manifests_of flat). in_sparse (sparse_paths g) r}"
  have cur: "p \<in> ?cur \<longleftrightarrow> data_map E W g p \<noteq> None" for p
    using sj by (auto simp: data_map_def image_iff intro!: bexI [of _ "split_slash p"])
  have head: "p \<in> ?head \<longleftrightarrow> head_map g flat p \<noteq> None" for p
    by (auto simp: head_map_def in_dict_iff simp del: not_None_eq)
  let ?run = "if ?cur \<noteq> ?head then ret True else any_differs E (manifests_of flat) (data_files W g)"
  have start: "has_uncommitted_changes E W g = ?run g"
    using assms(4-6) by (simp add: has_uncommitted_changes_def headC_def head_flatC_def commitC_def flatC_def data_files_def
        sparse_paths_def bindC_def)
  show ?thesis
  proof (cases "?cur = ?head")
    case False
    then have "data_map E W g \<noteq> head_map g flat" using cur head by (metis (mono_tags, lifting) set_eqI)
    with False start assms(2) show ?thesis by simp
  next
    case True
    have "\<forall>fp \<in> set (data_files W g). fp \<in> work_paths g \<and> (\<exists>m. file_manifest E (g_work g) fp = Inr m)"
      using work assms(7) by blast
    from any_differs_exact [OF assms(2,3,1) this] obtain g' where g': "any_differs E (manifests_of flat) (data_files W g) g =
        (g', Inr (\<exists>fp \<in> set (data_files W g). \<exists>mh. map_of (manifests_of flat) (join_slash fp) = Some mh \<and> data_hash E g fp \<noteq> mh))"
      "stats_true E g'" by blast
    have "(\<exists>fp \<in> set (data_files W g). \<exists>mh. map_of (manifests_of flat) (join_slash fp) = Some mh \<and> data_hash E g fp \<noteq> mh)
        \<longleftrightarrow> data_map E W g \<noteq> head_map g flat" (is "?l \<longleftrightarrow> ?r")
    proof
      assume ?l
      then obtain fp mh where f: "fp \<in> set (data_files W g)" "map_of (manifests_of flat) (join_slash fp) = Some mh" "data_hash E g fp \<noteq> mh"
        by blast
      then have "join_slash fp \<in> ?head" using True by auto
      then have "head_map g flat (join_slash fp) = Some mh" using f(2) by (simp add: head_map_def)
      moreover have "data_map E W g (join_slash fp) = Some (data_hash E g fp)" using f(1) sj by (simp add: data_map_def)
      ultimately show ?r using f(3) by auto
    next
      assume ?r
      then obtain p where p: "data_map E W g p \<noteq> head_map g flat p" by blast
      with cur [of p] head [of p] True obtain x mh where "data_map E W g p = Some x" "head_map g flat p = Some mh" "x \<noteq> mh"
        by (metis not_None_eq)
      then show ?l by (intro bexI [of _ "split_slash p"]) (auto simp: data_map_def head_map_def split: if_splits)
    qed
    with g' start True any_differs_frame [OF g'(1)] show ?thesis by auto
  qed
qed

text \<open>
  C36: A switch of branches without \<open>--force\<close>, in a repository whose index is empty and whose data files are
  those of HEAD, brings the working directory from one tree to the other: afterwards every path of the target's
  tree within the sparse checkout has the target's content, the other files of the old tree are gone, and every other
  file is as before; HEAD names the target, and neither objects nor branches change. The trees must
  not have a file where the other has a directory, and what both have alike must be in the working directory.
\<close>

theorem switch_exact:
  assumes "env_ok E" and "get_branch (g_refs g) target = Inr (Some t)" and "index_entries True (g_index g) = Inr []"
    and "has_uncommitted_changes E W g = (g1, Inr False)"
    and "resolve_head (g_refs g) = Inr (Some h)" and "h \<noteq> []"
    and "read_commit E (g_objects g) h = Inr (Some hc)" and "tree_hash hc \<noteq> []"
    and "read_commit E (g_objects g) t = Inr (Some tc)"
    and "flatten_tree E (g_objects g) (rec_limit E) (tree_hash hc) [] = Inr old"
    and "flatten_tree E (g_objects g) (rec_limit E) (tree_hash tc) [] = Inr new"
    and "apart (work_paths g \<union> split_slash ` {p. file_at new p \<or> file_at old p})"
    and "readable_files E (g_objects g) (sparse_paths g) new" and "unchanged_there E g (sparse_paths g) old new"
  shows "\<exists>g'. cli_switch E W target False g = (g', Inr ()) \<and>
    (\<forall>p. map_of (g_work g') (split_slash p) = (case checked_out E (g_objects g) (sparse_paths g) new p of
        Some c \<Rightarrow> Some c | None \<Rightarrow> if file_at old p then None else map_of (g_work g) (split_slash p))) \<and>
    g_objects g' = g_objects g \<and> g_refs g' = set_head (g_refs g) (str ''ref:'' @ target) \<and> g_index g' = g_index g"
proof -
  let ?P = "work_paths g \<union> split_slash ` {p. file_at new p \<or> file_at old p}"
  obtain c where g1: "g1 = g\<lparr>g_stats := c\<rparr>" using has_uncommitted_frame [OF assms(4)] by (auto simp: stats_only_def)
  note wf = flatten_tree_wf [OF assms(11)] flatten_tree_wf [OF assms(10)]
  have "\<exists>g'. materialize_flat E W new (Some old) (sparse_paths g) g1 = (g', Inr ()) \<and> same_repo g1 g' \<and>
    (\<forall>p. map_of (g_work g') (split_slash p) = (case checked_out E (g_objects g1) (sparse_paths g) new p of
        Some c \<Rightarrow> Some c | None \<Rightarrow> if file_at old p then None else map_of (g_work g1) (split_slash p)))"
    by (rule materialize_flat_exact [OF assms(1) wf assms(12)])
       (use assms(13,14) in \<open>auto simp: g1 unchanged_there_def\<close>)
  moreover have g1s: "g_refs g1 = g_refs g" "g_objects g1 = g_objects g" "g_work g1 = g_work g" by (simp_all add: g1)
  ultimately obtain g' where g': "materialize_flat E W new (Some old) (sparse_paths g) g1 = (g', Inr ())" "same_repo g1 g'"
    "\<forall>p. map_of (g_work g') (split_slash p) = (case checked_out E (g_objects g) (sparse_paths g) new p of
        Some c \<Rightarrow> Some c | None \<Rightarrow> if file_at old p then None else map_of (g_work g) (split_slash p))"
    unfolding g1s by blast
  have tr: "truthy (Some h)" "truthy (Some (tree_hash hc))" using assms(6,8) by (cases h; cases "tree_hash hc"; simp)+
  have sp: "load_sparse_paths (g_sparse g1) = sparse_paths g" by (simp add: g1 sparse_paths_def)
  have "cli_switch E W target False g = (g'\<lparr>g_refs := set_head (g_refs g') (str ''ref:'' @ target)\<rparr>, Inr ())"
    using assms(2-5,7,9-11) tr g'(1)
    by (simp add: cli_switch_def discard_or_clean_def tree_of_headC_def headC_def commitC_def flatC_def materialize_tree_def
        set_headC_def bindC_def seqC_def g1s sp)
  then show ?thesis using g'(3) same_repoD [OF g'(2)] by (auto simp: g1)
qed

section \<open>Two branches\<close>

text \<open>The demo repository with a second branch \<open>dev\<close>, checked out, whose commit has an empty tree.\<close>

definition empty_tree :: tree where
  "empty_tree = \<lparr>tree_entries = []\<rparr>"

definition empty_commit :: commit where
  "empty_commit = \<lparr>tree_hash = demo_digest (serialize_tree empty_tree), parent_hashes = [], author = str ''a'',
     message = str ''e'', timestamp = 1\<rparr>"

definition empty_head :: pystr where
  "empty_head = demo_digest (serialize_commit empty_commit)"

definition two_disk :: disk where
  "two_disk = put demo_env ''commits'' (serialize_commit empty_commit) (put demo_env ''trees'' (serialize_tree empty_tree) data_disk)"

definition two_branches :: "wtree \<Rightarrow> (pystr list \<times> int) list \<Rightarrow> repo" where
  "two_branches w ts = (demo_clone (Some (JObj [])))\<lparr>g_objects := two_disk, g_work := w, g_mtimes := ts,
     g_refs := \<lparr>head_text = Some (str ''ref:dev'' @ [10]),
       heads = \<lparr>rd_files = [([str ''main''], data_head @ [10]), ([str ''dev''], empty_head @ [10])], rd_dirs = [[]]\<rparr>,
       tags = empty_dir\<rparr>\<rparr>"

lemma empty_hashes:
  "demo_digest (serialize_tree empty_tree) = hex_str 32 34246 @ hex_str 32 2475"
  "empty_head = hex_str 32 921352 @ hex_str 32 11147"
proof -
  show t: "demo_digest (serialize_tree empty_tree) = hex_str 32 34246 @ hex_str 32 2475" by code_simp
  show "empty_head = hex_str 32 921352 @ hex_str 32 11147"
    unfolding empty_head_def empty_commit_def t by code_simp
qed

lemma empty_new:
  "demo_digest (serialize_tree empty_tree) \<noteq> demo_digest (serialize_tree (file_tree data_entry))" "empty_head \<noteq> data_head"
  unfolding empty_hashes data_hash_values by code_simp+

lemma two_disk_mono: "map_of data_disk \<subseteq>\<^sub>m map_of two_disk"
  unfolding two_disk_def using put_mono map_le_trans by blast

lemma two_disk_reads:
  "read_commit demo_env two_disk data_head = Inr (Some data_commit)"
  "read_commit demo_env two_disk empty_head = Inr (Some empty_commit)"
  "flatten_tree demo_env two_disk 50 (tree_hash data_commit) [] =
     Inr [(str ''t'', (str ''manifest'', demo_digest (serialize_manifest demo_manifest), None))]"
  "flatten_tree demo_env two_disk 50 (tree_hash empty_commit) [] = Inr []"
proof -
  let ?t = "serialize_tree empty_tree" let ?c = "serialize_commit empty_commit"
  let ?d = "put demo_env ''trees'' ?t data_disk"
  show "read_commit demo_env two_disk data_head = Inr (Some data_commit)"
    by (rule read_mono(1) [OF two_disk_mono data_read_commit])
  have "collision_free demo_env ?d ''commits'' [?c]"
    using data_stored(1) empty_new(2) stored_puts_other [of "''trees''" "''commits''" demo_env "[?t]" data_disk]
    by (auto simp: collision_free_def inj_on_def empty_head_def data_head_def file_head_def data_commit_def)
  then have "store_read demo_env two_disk (str ''commits'') empty_head = Inr (Some ?c)"
    using put_read [OF put_inv [OF data_disk_inv, of "''trees''" ?t], of "''commits''" ?c] by (simp add: two_disk_def empty_head_def)
  moreover have "deserialize_commit ?c = Inr empty_commit"
    by (rule commit_roundtrip) (simp add: valid_commit_def empty_commit_def demo_digest_valid)
  ultimately show "read_commit demo_env two_disk empty_head = Inr (Some empty_commit)"
    by (simp add: read_commit_def load_Some)
  have "valid_tree (file_tree data_entry)" by (simp add: valid_tree_def file_tree_def data_entry_def demo_digest_valid)
  from file_read_tree [OF demo_rows_inv demo_rows_stored(2) this]
  have "read_tree demo_env data_disk (tree_hash data_commit) = Inr (Some (file_tree data_entry))"
    by (simp add: data_disk_def data_commit_def)
  note r = read_mono(2) [OF two_disk_mono this]
  have "flatten_tree demo_env two_disk (Suc n) (tree_hash data_commit) [] =
      Inr [(str ''t'', (str ''manifest'', demo_digest (serialize_manifest demo_manifest), None))]" for n
    by (simp add: flatten_tree_Suc r file_tree_def data_entry_def flat_piece_def is_tree_def full_path_def flat_of_def dict_update_def)
  from this [of 49] show "flatten_tree demo_env two_disk 50 (tree_hash data_commit) [] =
      Inr [(str ''t'', (str ''manifest'', demo_digest (serialize_manifest demo_manifest), None))]" by simp
  have "collision_free demo_env data_disk ''trees'' [?t]"
    using data_stored(2) empty_new(1) by (auto simp: collision_free_def inj_on_def)
  then have "store_read demo_env two_disk (str ''trees'') (tree_hash empty_commit) = Inr (Some ?t)"
    using put_read [OF data_disk_inv, of "''trees''" ?t] by (simp add: two_disk_def put_read_other empty_commit_def)
  moreover have "deserialize_tree ?t = Inr (norm_tree empty_tree)" by (rule tree_roundtrip) (simp add: valid_tree_def empty_tree_def)
  ultimately have "read_tree demo_env two_disk (tree_hash empty_commit) = Inr (Some empty_tree)"
    by (simp add: read_tree_def load_Some norm_tree_def empty_tree_def)
  then have "flatten_tree demo_env two_disk (Suc n) (tree_hash empty_commit) [] = Inr []" for n
    by (simp add: flatten_tree_Suc empty_tree_def)
  from this [of 49] show "flatten_tree demo_env two_disk 50 (tree_hash empty_commit) [] = Inr []" by simp
qed

lemma two_branches_head:
  "resolve_head (g_refs (two_branches w ts)) = Inr (Some empty_head)"
  "get_branch (g_refs (two_branches w ts)) (str ''main'') = Inr (Some data_head)"
proof -
  have t: "py_strip (newlines (str ''ref:dev'' @ [10])) = str ''ref:dev''" by (simp add: str_def py_strip_def py_space_def)
  have p: "path_parts (str ''dev'') = [str ''dev'']" by (simp add: path_parts_def str_def)
  have d: "hex_digest empty_head" using env_okD(1) [OF demo_env_ok] by (simp add: empty_head_def)
  have b: "branch_of_head (str ''ref:dev'') = Some (str ''dev'')" by (simp add: branch_of_head_def py_startswith_def str_def)
  show "get_branch (g_refs (two_branches w ts)) (str ''main'') = Inr (Some data_head)"
    by (simp add: get_branch_def ref_read_def main_parts two_branches_def hex_digest_strip [OF data_head_digest])
  show "resolve_head (g_refs (two_branches w ts)) = Inr (Some empty_head)"
    by (simp add: resolve_head_def get_head_def two_branches_def t b get_branch_def ref_read_def p hex_digest_strip [OF d])
qed

lemma two_simps [simp]: "g_objects (two_branches w ts) = two_disk" "g_work (two_branches w ts) = w" "g_mtimes (two_branches w ts) = ts"
  "g_index (two_branches w ts) = Some (JObj [])" "g_sparse (two_branches w ts) = None" "g_stats (two_branches w ts) = None"
  by (simp_all add: two_branches_def demo_clone_def)

theorem uncommitted_exact_witness:
  "\<exists>g'. has_uncommitted_changes demo_env demo_world (two_branches [([str ''a.jsonl''], [123, 125, 10])] []) = (g', Inr True)"
proof -
  let ?p = "[str ''a.jsonl'']" let ?w = "[(?p, [123, 125, 10])] :: wtree" let ?g = "two_branches ?w []"
  have js: "find_jsonl_files [] ?w = [?p]" by code_simp
  have "read_rows [123, 125, 10] = Inr [JObj []]"
    by (simp add: read_rows_def row_lines_def py_strip_def py_space_def parse_line_def demo_object Let_def)
  moreover have "row_entry demo_env (JObj []) = Inr ([123, 125], \<lparr>row_hash = demo_digest [123, 125], query_fingerprint = None\<rparr>)"
    by (simp add: row_entry_def canonical_json_def fingerprint_of_def demo_env_def demo_object)
  ultimately have m: "file_manifest demo_env ?w ?p = Inr demo_manifest"
    by (simp add: file_manifest_def build_manifest_rows demo_manifest_def)
  have st: "stats_true demo_env ?g"
    by (simp add: stats_true_def work_stat_def get_manifest_hash_def)
  have good: "good_paths ?g"
    by (simp add: good_paths_def) (simp add: str_def valid_str_def scalar_def is_high_def is_low_def)
  have "data_map demo_env demo_world ?g (str ''a.jsonl'') \<noteq> None"
    using js split_join_path [of ?p] by (simp add: data_map_def data_files_def demo_world_def) (simp add: str_def)
  moreover have "head_map ?g [] p = None" for p by (simp add: head_map_def manifests_of_def)
  ultimately have "data_map demo_env demo_world ?g \<noteq> head_map ?g []" by metis
  then show ?thesis
    using uncommitted_exact [OF demo_env_ok st good two_branches_head(1), of empty_commit "[]" demo_world] two_disk_reads js m
    by (auto simp: data_files_def demo_world_def)
qed

theorem switch_exact_witness:
  "\<exists>g'. cli_switch demo_env demo_world (str ''main'') False (two_branches [] []) = (g', Inr ()) \<and>
     map_of (g_work g') [str ''t''] = Some [123, 125, 10]"
proof -
  let ?g = "two_branches [] []" let ?new = "[(str ''t'', (str ''manifest'', demo_digest (serialize_manifest demo_manifest), None))] :: flat_entry dict"
  have clean: "has_uncommitted_changes demo_env demo_world ?g = (?g, Inr False)"
    using two_branches_head(1) two_disk_reads
    by (simp add: has_uncommitted_changes_def headC_def head_flatC_def commitC_def flatC_def bindC_def find_jsonl_files_def
        tree_paths_def manifests_of_def load_sparse_paths_def)
  have rd: "rendered demo_env two_disk (str ''manifest'') (demo_digest (serialize_manifest demo_manifest)) = Inr [123, 125, 10]"
  proof -
    have "read_manifest demo_env two_disk (demo_digest (serialize_manifest demo_manifest)) = Inr (Some demo_manifest)"
      by (rule read_mono(3) [OF two_disk_mono data_read(2)])
    moreover have "store_read demo_env two_disk (str ''rows'') (demo_digest [123, 125]) = Inr (Some [123, 125])"
      by (rule store_read_mono [OF two_disk_mono data_read(1)])
    then have "materialize_rows demo_env two_disk (entries demo_manifest) = ([123, 125, 10], None)"
      by (simp add: data_entries utf8_encode_def utf8_char_def)
    ultimately show ?thesis by (simp add: rendered_def)
  qed
  have t: "split_slash (str ''t'') = [str ''t'']" by (rule split_slash_single) (simp add: str_def)
  have "{p. file_at ?new p \<or> file_at [] p} = {str ''t''}" by (auto simp: file_at_def file_type_def split: if_splits)
  then have "apart (work_paths ?g \<union> split_slash ` {p. file_at ?new p \<or> file_at [] p})" by (simp add: apart_def)
  moreover have "readable_files demo_env two_disk (sparse_paths ?g) ?new" using rd by (simp add: readable_files_def)
  moreover have "unchanged_there demo_env ?g (sparse_paths ?g) [] ?new" by (simp add: unchanged_there_def)
  moreover have "empty_head \<noteq> []" "tree_hash empty_commit \<noteq> []"
    using env_okD(1) [OF demo_env_ok] by (auto simp: empty_head_def empty_commit_def hex_digest_def dest!: arg_cong [of _ "[]" length])
  ultimately obtain g' where g': "cli_switch demo_env demo_world (str ''main'') False ?g = (g', Inr ())"
    "map_of (g_work g') (split_slash (str ''t'')) = (case checked_out demo_env two_disk (sparse_paths ?g) ?new (str ''t'') of
        Some c \<Rightarrow> Some c | None \<Rightarrow> if file_at [] (str ''t'') then None else map_of (g_work ?g) (split_slash (str ''t'')))"
    using switch_exact [OF demo_env_ok two_branches_head(2) _ clean two_branches_head(1), of empty_commit data_commit "[]" ?new] two_disk_reads
    by (auto simp: index_entries_def with_lock_def)
  then show ?thesis using t rd by (auto simp: checked_out_def file_type_def in_sparse_def sparse_paths_def load_sparse_paths_def)
qed

text \<open>
  \<open>--force\<close> is to discard uncommitted changes, but a file that both trees have alike is not written: the
  change survives the switch.
\<close>

lemma forced_switch_keeps_change:
  "\<exists>g'. cli_switch demo_env demo_world (str ''main'') True ((demo_clone (Some (JObj [])))\<lparr>g_work := [([str ''t''], [120])]\<rparr>) = (g', Inr ()) \<and>
     map_of (g_work g') [str ''t''] = Some [120]"
proof -
  let ?g = "(demo_clone (Some (JObj [])))\<lparr>g_work := [([str ''t''], [120])]\<rparr>"
  have g: "g_objects ?g = data_disk" "g_refs ?g = demo_refs data_head" "g_index ?g = Some (JObj [])" "g_sparse ?g = None"
    "g_work ?g = [([str ''t''], [120])]" by (simp_all add: demo_clone_def)
  have h: "get_branch (demo_refs data_head) (str ''main'') = Inr (Some data_head)"
    by (simp add: get_branch_def ref_read_def main_parts demo_refs_def hex_digest_strip [OF data_head_digest])
  have "tree_hash data_commit \<noteq> []" "data_head \<noteq> []"
    using env_okD(1) [OF demo_env_ok] data_head_digest by (auto simp: data_commit_def file_commit_def hex_digest_def dest!: arg_cong [of _ "[]" length])
  then have tr: "truthy (Some (tree_hash data_commit))" "truthy (Some data_head)" by (cases "tree_hash data_commit"; cases data_head; simp)+
  let ?flat = "[(str ''t'', (str ''manifest'', demo_digest (serialize_manifest demo_manifest), None))] :: flat_entry dict"
  have "materialize_flat demo_env demo_world ?flat (Some ?flat) None ?g = (?g, Inr ())"
    by (simp add: materialize_flat_def manifests_of_def blobs_of_def in_sparse_def seqC_def bindC_def)
  then have "cli_switch demo_env demo_world (str ''main'') True ?g = (?g\<lparr>g_refs := set_head (g_refs ?g) (str ''ref:main'')\<rparr>, Inr ())"
    using h demo_refs_head(2) [OF data_head_digest] data_read_commit data_flat tr
    by (simp add: cli_switch_def discard_or_clean_def index_entries_def with_lock_def tree_of_headC_def headC_def commitC_def
        flatC_def materialize_tree_def set_headC_def bindC_def seqC_def g load_sparse_paths_def) (simp add: str_def)
  then show ?thesis by (auto simp: g)
qed

text \<open>
  Files are written before those of the old tree are removed, so a switch from a tree with a file to
  one with a directory of that name fails, before anything is written.
\<close>

lemma file_to_directory_fails:
  assumes "g_work g = [([str ''a''], c)]"
    and "store_read E (g_objects g) (str ''blobs'') h = Inr (Some b)"
  shows "materialize_flat E W [(str ''a/b'', (str ''blob'', h, None))] (Some [(str ''a'', (str ''blob'', h', None))]) None g = (g, Inl OSError)"
proof -
  have "split_slash (str ''a/b'') = [str ''a'', str ''b'']" by (simp add: str_def)
  then have "under_file (g_work g) (split_slash (str ''a/b''))" using assms(1) by (simp add: under_file_def strict_prefix_def)
  then show ?thesis
    using assms(2) by (simp add: materialize_flat_def manifests_of_def blobs_of_def in_sparse_def seqC_def bindC_def checkout_blob_def stepC_def Let_def)
qed

end
