(* ===== verification/Dit_Fetch.thy ===== *)
theory Dit_Fetch
  imports Dit_Work Dit_Wire
begin

text \<open>
  Bringing objects from a server: \<open>clone\<close>, \<open>fetch\<close> and the part of \<open>pull\<close> that downloads, in \<open>src/dit/cli/main.py\<close>. The
  store of the server, \<open>None\<close> when the repository does not exist there, stays the same while a command runs. The commands here
  work on the objects of the local repository; a request that fails ends them with exit code 1. The
  counts that are printed are left out.
\<close>

section \<open>Downloads\<close>

definition boundaryC :: "('s, 'a) cmd \<Rightarrow> ('s, 'a) cmd" where
  "boundaryC m = (\<lambda>s. case m s of (s', Inl e) \<Rightarrow> (s', Inl (ExitCode 1)) | (s', Inr x) \<Rightarrow> (s', Inr x))"

fun chunks :: "nat \<Rightarrow> 'a list \<Rightarrow> 'a list list" where
  "chunks n [] = []"
| "chunks n (x # xs) = take (Suc n) (x # xs) # chunks n (drop n xs)"

definition storeC :: "env \<Rightarrow> string \<Rightarrow> bytes \<Rightarrow> (disk, unit) cmd" where
  "storeC E ty data = stepC (\<lambda>d. bindE (store_write E d (str ty) data) (\<lambda>(h, d'). Inr (d', ())))"

text \<open>Batches of 200: \<open>chunks 199\<close>. What the server does not have is missing from its reply.\<close>

definition batch_download_objects :: "env \<Rightarrow> disk option \<Rightarrow> string \<Rightarrow> pystr list \<Rightarrow> (disk, unit) cmd" where
  "batch_download_objects E srv ty hs =
     forC (\<lambda>chunk. bindC (boundaryC (readC (\<lambda>d. download_batch E srv (str ty) chunk)))
       (forC (\<lambda>(h, data). storeC E ty data))) (chunks 199 hs)"

definition downloadC :: "env \<Rightarrow> disk option \<Rightarrow> string \<Rightarrow> pystr \<Rightarrow> (disk, bytes option) cmd" where
  "downloadC E srv ty h = boundaryC (readC (\<lambda>d. client_download_object E srv (str ty) h))"

section \<open>The objects of one tree\<close>

record pending =
  pe_manifests :: "pystr list"
  pe_sidecars :: "pystr list"
  pe_blobs :: "pystr list"

definition no_pending :: pending where
  "no_pending = \<lparr>pe_manifests = [], pe_sidecars = [], pe_blobs = []\<rparr>"

definition missing_here :: "disk \<Rightarrow> string \<Rightarrow> pystr \<Rightarrow> pystr list \<Rightarrow> pystr list res" where
  "missing_here d ty h acc = bindE (store_exists d (str ty) h) (\<lambda>b. Inr (if b then acc else acc @ [h]))"

text \<open>What one entry of a tree adds to the lists, an entry of another type than \<open>tree\<close>.\<close>

definition need_entry :: "disk \<Rightarrow> tree_entry \<Rightarrow> pending \<Rightarrow> pending res" where
  "need_entry d e p =
     (if te_type e = str ''manifest''
      then bindE (missing_here d ''manifests'' (te_hash e) (pe_manifests p)) (\<lambda>ms.
           bindE (if truthy (te_sidecar e) then missing_here d ''sidecars'' (the (te_sidecar e)) (pe_sidecars p) else Inr (pe_sidecars p))
             (\<lambda>ss. Inr (p\<lparr>pe_manifests := ms, pe_sidecars := ss\<rparr>)))
      else if te_type e = str ''blob''
      then bindE (missing_here d ''blobs'' (te_hash e) (pe_blobs p)) (\<lambda>bs. Inr (p\<lparr>pe_blobs := bs\<rparr>))
      else Inr p)"

primrec foldC :: "('a \<Rightarrow> 'b \<Rightarrow> ('s, 'b) cmd) \<Rightarrow> 'a list \<Rightarrow> 'b \<Rightarrow> ('s, 'b) cmd" where
  "foldC f [] acc = ret acc"
| "foldC f (x # xs) acc = bindC (f x acc) (foldC f xs)"

text \<open>The bytes of a tree: those here, or else those of the server, which are stored.\<close>

definition tree_bytesC :: "env \<Rightarrow> disk option \<Rightarrow> pystr \<Rightarrow> (disk, bytes option) cmd" where
  "tree_bytesC E srv th =
     bindC (readC (\<lambda>d. store_exists d (str ''trees'') th)) (\<lambda>here.
       if here then readC (\<lambda>d. store_read E d (str ''trees'') th)
       else bindC (downloadC E srv ''trees'' th) (\<lambda>x. case x of
           None \<Rightarrow> ret None
         | Some data \<Rightarrow> if data = [] then ret None else seqC (storeC E ''trees'' data) (ret (Some data))))"

primrec fetch_walk :: "env \<Rightarrow> disk option \<Rightarrow> nat \<Rightarrow> pystr \<Rightarrow> pending \<Rightarrow> (disk, pending) cmd" where
  "fetch_walk E srv 0 = (\<lambda>th p. exit_with RecursionError)"
| "fetch_walk E srv (Suc n) = (\<lambda>th p.
     bindC (tree_bytesC E srv th) (\<lambda>x. case x of
       None \<Rightarrow> ret p
     | Some data \<Rightarrow> bindC (readC (\<lambda>d. deserialize_tree data)) (\<lambda>t.
         foldC (\<lambda>e p. if is_tree e then fetch_walk E srv n (te_hash e) p else readC (\<lambda>d. need_entry d e p))
           (tree_entries t) p)))"

text \<open>The rows of the new manifests that are not here, each once.\<close>

definition fetch_row :: "disk \<Rightarrow> manifest_entry \<Rightarrow> pystr list \<Rightarrow> pystr list res" where
  "fetch_row d e acc = (if row_hash e \<in> set acc then Inr acc else missing_here d ''rows'' (row_hash e) acc)"

definition missing_rows :: "env \<Rightarrow> disk \<Rightarrow> pystr list \<Rightarrow> pystr list res" where
  "missing_rows E d mhs =
     foldE (\<lambda>mh acc. bindE (read_manifest E d mh) (\<lambda>x. case x of
         None \<Rightarrow> Inr acc | Some m \<Rightarrow> foldE (fetch_row d) (entries m) acc)) mhs []"

definition fetch_tree_objects :: "env \<Rightarrow> disk option \<Rightarrow> pystr \<Rightarrow> (disk, unit) cmd" where
  "fetch_tree_objects E srv th =
     bindC (fetch_walk E srv (rec_limit E) th no_pending) (\<lambda>p.
     seqC (batch_download_objects E srv ''manifests'' (pe_manifests p)) (
     bindC (readC (\<lambda>d. missing_rows E d (pe_manifests p))) (\<lambda>rows.
     seqC (batch_download_objects E srv ''rows'' rows) (
     seqC (batch_download_objects E srv ''sidecars'' (pe_sidecars p))
          (batch_download_objects E srv ''blobs'' (pe_blobs p))))))"

section \<open>The commits\<close>

text \<open>\<open>queue.pop()\<close> takes the last element: the queue is kept in reverse.\<close>

definition server_names :: "disk option \<Rightarrow> pystr set" where
  "server_names srv = (case srv of None \<Rightarrow> {} | Some d \<Rightarrow> disk_names d)"

lemma download_names: "client_download_object E srv ty h = Inr (Some b) \<Longrightarrow> h \<in> server_names srv"
  by (auto simp: client_download_object_def server_download_object_def repo_store_def server_names_def must_Inr
      bindE_eq_Inr store_read_Some disk_names_def opath_def split: option.splits sum.splits if_splits
      dest!: map_of_SomeD intro: rev_image_eqI)

text \<open>The loop of \<open>_fetch_objects_since\<close>: a commit that is here, or is \<open>stop_at\<close>, is not looked at.\<close>

function fetch_loop ::
  "env \<Rightarrow> disk option \<Rightarrow> pystr option \<Rightarrow> pystr list \<Rightarrow> pystr set \<Rightarrow> (disk, unit) cmd" where
  "fetch_loop E srv stop_at [] visited d = (d, Inr ())"
| "fetch_loop E srv stop_at (chash # queue) visited d =
     (if chash \<in> visited \<or> Some chash = stop_at then fetch_loop E srv stop_at queue visited d
      else (case store_exists d (str ''commits'') chash of
          Inl e \<Rightarrow> (d, Inl e)
        | Inr True \<Rightarrow> fetch_loop E srv stop_at queue (insert chash visited) d
        | Inr False \<Rightarrow>
            (case client_download_object E srv (str ''commits'') chash of
               Inl e \<Rightarrow> (d, Inl (ExitCode 1))
             | Inr None \<Rightarrow> fetch_loop E srv stop_at queue (insert chash visited) d
             | Inr (Some data) \<Rightarrow>
                 (case store_write E d (str ''commits'') data of
                    Inl e \<Rightarrow> (d, Inl e)
                  | Inr (h, d1) \<Rightarrow>
                      (case deserialize_commit data of
                         Inl e \<Rightarrow> (d1, Inl e)
                       | Inr c \<Rightarrow>
                           (case fetch_tree_objects E srv (tree_hash c) d1 of
                              (d2, Inl e) \<Rightarrow> (d2, Inl e)
                            | (d2, Inr _) \<Rightarrow>
                                fetch_loop E srv stop_at (rev (parent_hashes c) @ queue) (insert chash visited) d2))))))"
  by pat_completeness auto

lemma finite_server_names [simp]: "finite (server_names srv)"
  by (simp add: server_names_def split: option.split)

termination fetch_loop
proof (relation "measures [\<lambda>(E, srv, stop, queue, visited, d). card (server_names srv - visited),
      \<lambda>(E, srv, stop, queue, visited, d). length queue]", goal_cases)
  case (3 E srv stop chash queue visited d)
  with card_visit_le [of "server_names srv" chash visited] show ?case by (auto simp: le_less)
next
  case (4 E srv stop chash queue visited d)
  with card_visit_le [of "server_names srv" chash visited] show ?case by (auto simp: le_less)
next
  case (5 E srv stop chash queue visited d)
  then have "chash \<in> server_names srv" using download_names by blast
  with 5 card_visit [of chash "server_names srv" visited] show ?case by simp
qed auto

definition fetch_objects_since :: "env \<Rightarrow> disk option \<Rightarrow> pystr \<Rightarrow> pystr option \<Rightarrow> (disk, unit) cmd" where
  "fetch_objects_since E srv remote_hash stop_at = fetch_loop E srv stop_at [remote_hash] {}"

section \<open>Cloning\<close>

text \<open>
  A clone downloads every commit the queue reaches; a commit the server does not have is skipped
  with a warning. The state is the new store, the result the commits in order.
\<close>

function clone_loop ::
  "env \<Rightarrow> disk option \<Rightarrow> pystr list \<Rightarrow> pystr set \<Rightarrow> pystr list \<Rightarrow> (disk, pystr list) cmd" where
  "clone_loop E srv [] visited commits d = (d, Inr commits)"
| "clone_loop E srv (chash # queue) visited commits d =
     (if chash \<in> visited then clone_loop E srv queue visited commits d
      else (case client_download_object E srv (str ''commits'') chash of
          Inl e \<Rightarrow> (d, Inl (ExitCode 1))
        | Inr None \<Rightarrow> clone_loop E srv queue (insert chash visited) commits d
        | Inr (Some data) \<Rightarrow>
            (case store_write E d (str ''commits'') data of
               Inl e \<Rightarrow> (d, Inl e)
             | Inr (h, d1) \<Rightarrow>
                 (case deserialize_commit data of
                    Inl e \<Rightarrow> (d1, Inl e)
                  | Inr c \<Rightarrow>
                      clone_loop E srv (rev (parent_hashes c) @ queue) (insert chash visited) (commits @ [chash]) d1))))"
  by pat_completeness auto

termination clone_loop
proof (relation "measures [\<lambda>(E, srv, queue, visited, cs, d). card (server_names srv - visited),
      \<lambda>(E, srv, queue, visited, cs, d). length queue]", goal_cases)
  case (3 E srv chash queue visited cs d)
  with card_visit_le [of "server_names srv" chash visited] show ?case by (auto simp: le_less)
next
  case (4 E srv chash queue visited cs d)
  then have "chash \<in> server_names srv" using download_names by blast
  with 4 card_visit [of chash "server_names srv" visited] show ?case by simp
qed auto

definition clone_entry :: "bool \<Rightarrow> disk \<Rightarrow> tree_entry \<Rightarrow> pending \<Rightarrow> pending res" where
  "clone_entry sparse d e p =
     (if te_type e = str ''manifest''
      then bindE (if truthy (te_sidecar e) then missing_here d ''sidecars'' (the (te_sidecar e)) (pe_sidecars p) else Inr (pe_sidecars p))
             (\<lambda>ss. Inr (p\<lparr>pe_manifests := pe_manifests p @ (if sparse then [] else [te_hash e]), pe_sidecars := ss\<rparr>))
      else if te_type e = str ''blob'' \<and> \<not> sparse then Inr (p\<lparr>pe_blobs := pe_blobs p @ [te_hash e]\<rparr>)
      else Inr p)"

primrec clone_walk :: "env \<Rightarrow> disk option \<Rightarrow> bool \<Rightarrow> nat \<Rightarrow> pystr \<Rightarrow> pending \<Rightarrow> (disk, pending) cmd" where
  "clone_walk E srv sparse 0 = (\<lambda>th p. exit_with RecursionError)"
| "clone_walk E srv sparse (Suc n) = (\<lambda>th p.
     bindC (downloadC E srv ''trees'' th) (\<lambda>x. case x of
       None \<Rightarrow> ret p
     | Some data \<Rightarrow> if data = [] then ret p
         else seqC (storeC E ''trees'' data) (bindC (readC (\<lambda>d. deserialize_tree data)) (\<lambda>t.
           foldC (\<lambda>e p. if is_tree e then clone_walk E srv sparse n (te_hash e) p else readC (\<lambda>d. clone_entry sparse d e p))
             (tree_entries t) p))))"

text \<open>The result is the manifests of the tree.\<close>

definition clone_tree_objects :: "env \<Rightarrow> disk option \<Rightarrow> bool \<Rightarrow> pystr \<Rightarrow> (disk, pystr list) cmd" where
  "clone_tree_objects E srv sparse th =
     bindC (clone_walk E srv sparse (rec_limit E) th no_pending) (\<lambda>p.
     seqC (batch_download_objects E srv ''manifests'' (pe_manifests p)) (
     seqC (batch_download_objects E srv ''sidecars'' (pe_sidecars p)) (
     seqC (batch_download_objects E srv ''blobs'' (pe_blobs p)) (ret (pe_manifests p)))))"

definition clone_objects :: "env \<Rightarrow> disk option \<Rightarrow> bool \<Rightarrow> pystr \<Rightarrow> (disk, unit) cmd" where
  "clone_objects E srv sparse remote_hash =
     bindC (clone_loop E srv [remote_hash] {} []) (\<lambda>commits.
     bindC (foldC (\<lambda>ch mhs.
              bindC (readC (\<lambda>d. must TypeError (read_commit E d ch))) (\<lambda>c.
              bindC (clone_tree_objects E srv sparse (tree_hash c)) (\<lambda>ms. ret (mhs @ ms)))) commits []) (\<lambda>mhs.
       if sparse then ret ()
       else bindC (readC (\<lambda>d. missing_rows E d (set_order E mhs))) (batch_download_objects E srv ''rows'')))"

end
