(* ===== verification/Dit_Sync.thy ===== *)
theory Dit_Sync
  imports Dit_Fetch Dit_Gc Dit_Server Dit_Combine
begin

text \<open>
  The commands of \<open>src/dit/cli/main.py\<close> that talk to a server, from the URL of the remote to the answer of the
  handlers, and the sparse checkouts. The state is the local repository and the server; while a command
  runs the server serves nobody else. A request reaches the handlers of \<open>Dit_Wire\<close>, \<open>Dit_Admin\<close> and
  \<open>Dit_Pulls\<close> behind the check of its token.
\<close>

section \<open>Both sides\<close>

record session =
  ss_repo :: repo
  ss_server :: server

text \<open>The address the server answers at, and its service token.\<close>

record site =
  st_address :: pystr
  st_secret :: pystr

type_synonym 'a remote = "(session, 'a) cmd"

definition localC :: "'a command \<Rightarrow> 'a remote" where
  "localC m = (\<lambda>s. let (g, r) = m (ss_repo s) in (s\<lparr>ss_repo := g\<rparr>, r))"

section \<open>The URL of a remote\<close>

definition rstrip_slash :: "pystr \<Rightarrow> pystr" where
  "rstrip_slash s = rev (lstrip_slash (rev s))"

definition ascii_alpha :: "nat \<Rightarrow> bool" where
  "ascii_alpha c \<longleftrightarrow> 65 \<le> c \<and> c \<le> 90 \<or> 97 \<le> c \<and> c \<le> 122"

definition ascii_digit :: "nat \<Rightarrow> bool" where
  "ascii_digit c \<longleftrightarrow> 48 \<le> c \<and> c \<le> 57"

text \<open>The text before and after the first character of a kind; without one, all of it and nothing.\<close>

definition cut :: "(nat \<Rightarrow> bool) \<Rightarrow> pystr \<Rightarrow> pystr \<times> pystr" where
  "cut P s = (takeWhile (\<lambda>c. \<not> P c) s, dropWhile (\<lambda>c. \<not> P c) s)"

definition split_scheme :: "pystr \<Rightarrow> pystr \<times> pystr" where
  "split_scheme url =
     (let (s, r) = cut (\<lambda>c. c = 58) url in
      if r \<noteq> [] \<and> s \<noteq> [] \<and> ascii_alpha (hd s) \<and> (\<forall>c \<in> set s. ascii_alpha c \<or> ascii_digit c \<or> c \<in> set (str ''+-.''))
      then (map (\<lambda>c. if 65 \<le> c \<and> c \<le> 90 then c + 32 else c) s, tl r)
      else ([], url))"

text \<open>
  \<open>urlparse\<close>: scheme, network location and path. Parameters after a semicolon are cut off the last
  segment of the path when the scheme has them (\<open>uses_params\<close>). URLs with characters
  that are not ASCII or with brackets, which take further checks, are outside the model.
\<close>

definition uses_params :: "pystr list" where
  "uses_params = map str [[], ''ftp'', ''hdl'', ''prospero'', ''http'', ''imap'', ''https'', ''shttp'', ''rtsp'', ''rtsps'',
     ''rtspu'', ''sip'', ''sips'', ''mms'', ''sftp'', ''tel'']"

definition cut_params :: "pystr \<Rightarrow> pystr \<Rightarrow> pystr" where
  "cut_params scheme path =
     (if scheme \<in> set uses_params
      then join_slash (butlast (split_slash path) @ [fst (cut (\<lambda>c. c = 59) (last (split_slash path)))])
      else path)"

definition url_parse :: "pystr \<Rightarrow> (pystr \<times> pystr \<times> pystr) res" where
  "url_parse url =
     (if \<exists>c \<in> set url. 128 \<le> c \<or> c = 91 \<or> c = 93 then Inl Malformed
      else let u = filter (\<lambda>c. c \<noteq> 9 \<and> c \<noteq> 10 \<and> c \<noteq> 13) (dropWhile (\<lambda>c. c \<le> 32) url);
               (scheme, rest) = split_scheme u;
               (netloc, tail) = (if py_startswith rest (str ''//'') then cut (\<lambda>c. c = 47 \<or> c = 63 \<or> c = 35) (drop 2 rest) else ([], rest));
               path = fst (cut (\<lambda>c. c = 63 \<or> c = 35) tail)
           in Inr (scheme, netloc, cut_params scheme path))"

definition remote_parts_from_url :: "pystr \<Rightarrow> (pystr \<times> pystr) res" where
  "remote_parts_from_url url =
     (let clean_url = rstrip_slash url in
      bindE (url_parse clean_url) (\<lambda>(scheme, netloc, path).
        let path_parts = filter (\<lambda>w. w \<noteq> []) (split_slash (strip_slash path)) in
        if path_parts \<noteq> [] then Inr (scheme @ str ''://'' @ netloc, join_slash path_parts)
        else if slash \<in> set clean_url then Inr (join_slash (butlast (split_slash clean_url)), last (split_slash clean_url))
        else Inr (clean_url, clean_url)))"

section \<open>The client\<close>

record client =
  rc_base :: pystr
  rc_token :: pystr
  rc_repo :: pystr

definition remote_client :: "pystr \<Rightarrow> pystr \<Rightarrow> pystr \<Rightarrow> client" where
  "remote_client base_url token repo = \<lparr>rc_base = rstrip_slash base_url, rc_token = token, rc_repo = repo\<rparr>"

text \<open>
  Names that stand in a URL as they are; the library quotes others, and resolves \<open>.\<close> and \<open>..\<close>, which is outside
  the model.
\<close>

definition url_name :: "pystr \<Rightarrow> bool" where
  "url_name s \<longleftrightarrow> (\<forall>c \<in> set s. ascii_alpha c \<or> ascii_digit c \<or> c \<in> set (str ''-_.~/'')) \<and>
     (\<forall>w \<in> set (split_slash s). w \<notin> {[], str ''.'', str ''..''})"

text \<open>
  The URL of a remote and its token, from the configuration. A token that is not a string or cannot be
  the value of a header, and a URL that is not a string, are outside the model.
\<close>

definition header_value :: "pystr \<Rightarrow> bool" where
  "header_value s \<longleftrightarrow> (\<forall>c \<in> set s. 32 < c \<and> c < 127)"

definition remote_cfg :: "json \<Rightarrow> (pystr \<times> pystr) res" where
  "remote_cfg cfg =
     (case cfg of
        JObj kvs \<Rightarrow>
          (case field_or kvs ''url'' JNull of
             JStr url \<Rightarrow> (case field_or kvs ''token'' (JStr []) of
                 JStr token \<Rightarrow> if header_value token then Inr (url, token) else Inl Malformed | _ \<Rightarrow> Inl Malformed)
           | JNull \<Rightarrow> Inl KeyError
           | _ \<Rightarrow> Inl Malformed)
      | JNull \<Rightarrow> Inl (ExitCode 1)
      | _ \<Rightarrow> Inl TypeError)"

definition build_remote_client :: "config_file \<Rightarrow> pystr \<Rightarrow> client res" where
  "build_remote_client f name =
     bindE (get_remote f name) (\<lambda>cfg. bindE (remote_cfg cfg) (\<lambda>(url, token).
     bindE (remote_parts_from_url url) (\<lambda>(base_url, repo).
       if url_name repo then Inr (remote_client base_url token repo) else Inl Malformed)))"

definition branch_or_current :: "pystr option \<Rightarrow> pystr command" where
  "branch_or_current given =
     bindC (case given of
        Some b \<Rightarrow> ret b
      | None \<Rightarrow> bindC current_branchC (\<lambda>c. case c of None \<Rightarrow> exit_with (ExitCode 1) | Some b \<Rightarrow> ret b))
       (\<lambda>b. if url_name b then ret b else exit_with Malformed)"

section \<open>Requests\<close>

definition headers_of :: "client \<Rightarrow> headers" where
  "headers_of c = \<lparr>authorization = (if rc_token c = [] then None else Some (str ''token '' @ rc_token c)), x_service_token = None\<rparr>"

text \<open>
  Who asks: no connection to another address, no route for a repository whose name has a slash, or else what
  \<open>verify_token\<close> says.
\<close>

definition asker :: "env \<Rightarrow> site \<Rightarrow> client \<Rightarrow> server \<Rightarrow> token_row res" where
  "asker E st c S =
     (if rc_base c \<noteq> st_address st then Inl OSError
      else if slash \<in> set (rc_repo c) then Inl (HTTPException 404)
      else verify_token E (st_secret st) (headers_of c) (sv_db S))"

text \<open>
  The object store the client sees, \<open>None\<close> if every request for it is answered by 404. Names of
  repositories are unique, so the look-up of one fails only in that way.
\<close>

definition object_server :: "env \<Rightarrow> site \<Rightarrow> client \<Rightarrow> server \<Rightarrow> disk option res" where
  "object_server E st c S =
     (case asker E st c S of
        Inl e \<Rightarrow> if e = HTTPException 404 then Inr None else Inl e
      | Inr _ \<Rightarrow> Inr (case get_repo (rc_repo c) (sv_db S) of Inl _ \<Rightarrow> None | Inr _ \<Rightarrow> Some (sv_disk S (rc_repo c))))"

definition not_found :: "'a res \<Rightarrow> 'a option res" where
  "not_found r = (case r of Inr x \<Rightarrow> Inr (Some x) | Inl e \<Rightarrow> if e = HTTPException 404 then Inr None else Inl e)"

definition client_get_ref :: "env \<Rightarrow> site \<Rightarrow> client \<Rightarrow> pystr \<Rightarrow> pystr \<Rightarrow> server \<Rightarrow> pystr option res" where
  "client_get_ref E st c ref_type name S =
     not_found (bindE (asker E st c S) (\<lambda>tok.
       bindE (get_ref tok (rc_repo c) ref_type name (sv_db S)) (\<lambda>(n, target). Inr target)))"

definition client_list_refs :: "env \<Rightarrow> site \<Rightarrow> client \<Rightarrow> server \<Rightarrow> (pystr \<times> pystr) list res" where
  "client_list_refs E st c S = bindE (asker E st c S) (\<lambda>tok. list_refs tok (rc_repo c) (sv_db S))"

definition client_batch_exists :: "env \<Rightarrow> site \<Rightarrow> client \<Rightarrow> pystr \<Rightarrow> pystr list \<Rightarrow> server \<Rightarrow> bool dict res" where
  "client_batch_exists E st c ty hs S = bindE (object_server E st c S) (\<lambda>srv. server_batch_exists srv ty hs)"

text \<open>The reply of an upload, with the objects the server refused, is not looked at.\<close>

definition client_upload :: "env \<Rightarrow> site \<Rightarrow> client \<Rightarrow> pystr \<Rightarrow> (pystr \<times> bytes) list \<Rightarrow> (server, unit) cmd" where
  "client_upload E st c ty batch S =
     (case object_server E st c S of
        Inl e \<Rightarrow> (S, Inl e)
      | Inr srv \<Rightarrow>
          (let (srv', r) = upload_batch E srv ty batch in
           (case srv' of None \<Rightarrow> S | Some d \<Rightarrow> set_disk (rc_repo c) d S, bindE r (\<lambda>_. Inr ()))))"

text \<open>\<open>False\<close> for the status 409.\<close>

definition client_cas_ref :: "env \<Rightarrow> site \<Rightarrow> client \<Rightarrow> pystr \<Rightarrow> pystr \<Rightarrow> pystr option \<Rightarrow> pystr \<Rightarrow> (server, bool) cmd" where
  "client_cas_ref E st c ref_type name old new S =
     (case asker E st c S of
        Inl e \<Rightarrow> (S, Inl e)
      | Inr tok \<Rightarrow>
          (let (db', d, r) = cas_update_ref E tok (rc_repo c) ref_type name old new (sv_db S) (sv_disk S (rc_repo c)) in
           (set_disk (rc_repo c) d (S\<lparr>sv_db := db'\<rparr>),
            case r of Inr _ \<Rightarrow> Inr True | Inl e \<Rightarrow> if e = HTTPException 409 then Inr False else Inl e)))"

text \<open>A request as a part of a command: whatever fails is reported and ends it with exit code 1.\<close>

definition serverC :: "(server, 'a) cmd \<Rightarrow> 'a remote" where
  "serverC m = boundaryC (\<lambda>s. let (S, r) = m (ss_server s) in (s\<lparr>ss_server := S\<rparr>, r))"

definition remote_tipC :: "env \<Rightarrow> site \<Rightarrow> client \<Rightarrow> pystr \<Rightarrow> pystr option remote" where
  "remote_tipC E st c b = serverC (readC (client_get_ref E st c (str ''heads'') b))"

definition configC :: "(config_file \<Rightarrow> 'a res) \<Rightarrow> 'a remote" where
  "configC f = localC (readC (\<lambda>g. f (g_config g)))"

section \<open>Push\<close>

text \<open>\<open>list(new_objects.get(obj_type, set()))\<close>.\<close>

definition hashes_of :: "env \<Rightarrow> node set \<Rightarrow> okind \<Rightarrow> pystr list" where
  "hashes_of E R k = set_order E (sorted_list_of_set (snd ` {n \<in> R. fst n = k}))"

definition upload_order :: "okind list" where
  "upload_order = [KRow, KManifest, KSidecar, KBlob, KTree, KCommit]"

definition new_objectsC :: "env \<Rightarrow> pystr \<Rightarrow> pystr option \<Rightarrow> node set remote" where
  "new_objectsC E local remote =
     localC (readC (\<lambda>g. case remote of
        Some r \<Rightarrow> walk_commit_objects_since E (g_objects g) local (Some r)
      | None \<Rightarrow> walk_commit_objects E (g_objects g) local))"

definition missing_thereC :: "env \<Rightarrow> site \<Rightarrow> client \<Rightarrow> okind \<Rightarrow> pystr list \<Rightarrow> pystr list remote" where
  "missing_thereC E st c k hs =
     (if hs = [] then ret []
      else bindC (serverC (readC (client_batch_exists E st c (dir_name k) hs))) (\<lambda>there.
        ret (filter (\<lambda>h. map_of there h \<noteq> Some True) hs)))"

primrec to_uploadC :: "env \<Rightarrow> site \<Rightarrow> client \<Rightarrow> node set \<Rightarrow> okind list \<Rightarrow> (okind \<times> pystr list) list remote" where
  "to_uploadC E st c R [] = ret []"
| "to_uploadC E st c R (k # ks) =
     bindC (missing_thereC E st c k (hashes_of E R k)) (\<lambda>hs.
     bindC (to_uploadC E st c R ks) (\<lambda>rest. ret ((k, hs) # rest)))"

text \<open>
  Objects in batches of 100, or fewer when the batch has 10 MB; an object that is not here is skipped with a
  warning.
\<close>

definition batch_full :: "(pystr \<times> bytes) list \<Rightarrow> bool" where
  "batch_full batch \<longleftrightarrow> 100 \<le> length batch \<or> 10485760 \<le> sum_list (map (\<lambda>x. length (snd x)) batch)"

primrec send_loop :: "env \<Rightarrow> site \<Rightarrow> client \<Rightarrow> okind \<Rightarrow> pystr list \<Rightarrow> (pystr \<times> bytes) list \<Rightarrow> unit remote" where
  "send_loop E st c k [] batch = (if batch = [] then ret () else serverC (client_upload E st c (dir_name k) batch))"
| "send_loop E st c k (h # hs) batch =
     bindC (localC (readC (\<lambda>g. store_read E (g_objects g) (dir_name k) h))) (\<lambda>data.
     case data of
       None \<Rightarrow> send_loop E st c k hs batch
     | Some b \<Rightarrow>
         let batch' = batch @ [(h, b)] in
         if batch_full batch'
         then seqC (serverC (client_upload E st c (dir_name k) batch')) (send_loop E st c k hs [])
         else send_loop E st c k hs batch')"

definition push_objectsC :: "env \<Rightarrow> site \<Rightarrow> client \<Rightarrow> pystr \<Rightarrow> pystr option \<Rightarrow> unit remote" where
  "push_objectsC E st c local remote =
     bindC (new_objectsC E local remote) (\<lambda>R.
     bindC (to_uploadC E st c R upload_order) (forC (\<lambda>(k, hs). send_loop E st c k hs [])))"

definition cli_push :: "env \<Rightarrow> site \<Rightarrow> pystr \<Rightarrow> pystr option \<Rightarrow> unit remote" where
  "cli_push E st remote_name given =
     bindC (localC (branch_or_current given)) (\<lambda>b.
     bindC (localC (readC (\<lambda>g. get_branch (g_refs g) b))) (\<lambda>tip.
     seqC (needC (tip \<noteq> None)) (
     let local = the tip in
     bindC (configC (\<lambda>f. build_remote_client f remote_name)) (\<lambda>c.
     bindC (remote_tipC E st c b) (\<lambda>remote.
     seqC (case remote of
        None \<Rightarrow> ret ()
      | Some r \<Rightarrow> bindC (localC (readC (\<lambda>g. is_ancestor E (g_objects g) r local))) needC) (
     seqC (push_objectsC E st c local remote) (
     bindC (serverC (client_cas_ref E st c (str ''heads'') b remote local)) needC)))))))"

section \<open>Fetch and pull\<close>

definition objectsC :: "(disk, 'a) cmd \<Rightarrow> 'a command" where
  "objectsC m = (\<lambda>g. let (d, r) = m (g_objects g) in (g\<lparr>g_objects := d\<rparr>, r))"

text \<open>Downloads: the object store of the server stays the same while they run.\<close>

definition downloadsC :: "env \<Rightarrow> site \<Rightarrow> client \<Rightarrow> (disk option \<Rightarrow> (disk, 'a) cmd) \<Rightarrow> 'a remote" where
  "downloadsC E st c f =
     bindC (serverC (readC (object_server E st c))) (\<lambda>srv. localC (objectsC (f srv)))"

definition fetchC :: "env \<Rightarrow> site \<Rightarrow> client \<Rightarrow> pystr \<Rightarrow> pystr option \<Rightarrow> unit remote" where
  "fetchC E st c remote local = downloadsC E st c (\<lambda>srv. fetch_objects_since E srv remote local)"

definition cli_fetch :: "env \<Rightarrow> site \<Rightarrow> pystr \<Rightarrow> pystr option \<Rightarrow> unit remote" where
  "cli_fetch E st remote_name given =
     bindC (localC (branch_or_current given)) (\<lambda>b.
     bindC (configC (\<lambda>f. build_remote_client f remote_name)) (\<lambda>c.
     bindC (remote_tipC E st c b) (\<lambda>remote.
       case remote of
         None \<Rightarrow> ret ()
       | Some r \<Rightarrow>
           bindC (localC (readC (\<lambda>g. get_branch (g_refs g) b))) (\<lambda>local.
             if local = remote then ret () else fetchC E st c r local))))"

text \<open>
  The files are those of the branch that was pulled, also when it is not the current one. A commit
  of the old tip that is missing counts as no tree.
\<close>

definition old_treeC :: "env \<Rightarrow> pystr option \<Rightarrow> pystr option command" where
  "old_treeC E local =
     (if truthy local
      then bindC (readC (\<lambda>g. store_read E (g_objects g) (str ''commits'') (the local))) (\<lambda>data.
        if data = None \<or> data = Some [] then ret None
        else readC (\<lambda>g. bindE (deserialize_commit (the data)) (\<lambda>c. Inr (Some (tree_hash c)))))
      else ret None)"

definition pull_files :: "env \<Rightarrow> world \<Rightarrow> pystr \<Rightarrow> pystr option \<Rightarrow> unit command" where
  "pull_files E W remote local =
     bindC (commitC E remote) (\<lambda>c.
     bindC (old_treeC E local) (\<lambda>old.
     bindC (readC (\<lambda>g. Inr (load_sparse_paths (g_sparse g)))) (\<lambda>sp.
       materialize_tree E W (tree_hash c) old sp)))"

definition cli_pull :: "env \<Rightarrow> world \<Rightarrow> site \<Rightarrow> pystr \<Rightarrow> pystr option \<Rightarrow> unit remote" where
  "cli_pull E W st remote_name given =
     bindC (localC (branch_or_current given)) (\<lambda>b.
     bindC (localC (has_uncommitted_changes E W)) (\<lambda>changed.
     seqC (needC (\<not> changed)) (
     bindC (configC (\<lambda>f. build_remote_client f remote_name)) (\<lambda>c.
     bindC (remote_tipC E st c b) (\<lambda>remote.
       case remote of
         None \<Rightarrow> ret ()
       | Some r \<Rightarrow>
           bindC (localC (readC (\<lambda>g. get_branch (g_refs g) b))) (\<lambda>local.
             if local = remote then ret ()
             else seqC (fetchC E st c r local) (
                  seqC (case local of
                     None \<Rightarrow> ret ()
                   | Some l \<Rightarrow> bindC (localC (readC (\<lambda>g. is_ancestor E (g_objects g) l r))) needC) (
                  seqC (localC (refsC (\<lambda>refs. set_branch refs b r)))
                       (localC (pull_files E W r local))))))))))"

section \<open>Clone\<close>

text \<open>
  The repository that is made takes the place of the local one; \<open>full\<close> says that the destination is
  there and not empty, \<open>ts\<close> are the time stamps of its files, of which there are none.
\<close>

definition clone_client :: "pystr \<Rightarrow> pystr \<Rightarrow> pystr \<Rightarrow> client res" where
  "clone_client url token branch_name =
     bindE (remote_parts_from_url url) (\<lambda>(base_url, repo).
       if url_name repo \<and> url_name branch_name \<and> header_value token then Inr (remote_client base_url token repo) else Inl Malformed)"

definition clone_files :: "env \<Rightarrow> world \<Rightarrow> bool \<Rightarrow> pystr \<Rightarrow> unit command" where
  "clone_files E W sparse remote =
     bindC (commitC E remote) (\<lambda>c.
       if sparse
       then seqC (doC (\<lambda>g. g\<lparr>g_sparse := save_sparse_paths []\<rparr>)) (bindC (flatC E (tree_hash c)) (\<lambda>flat. ret ()))
       else materialize_tree E W (tree_hash c) None None)"

definition set_remoteC :: "pystr \<Rightarrow> pystr \<Rightarrow> pystr \<Rightarrow> unit command" where
  "set_remoteC name url token =
     stepC (\<lambda>g. bindE (set_remote (g_config g) name url token) (\<lambda>f. Inr (g\<lparr>g_config := f\<rparr>, ())))"

definition cli_clone :: "env \<Rightarrow> world \<Rightarrow> site \<Rightarrow> bool \<Rightarrow> pystr \<Rightarrow> pystr \<Rightarrow> pystr \<Rightarrow> bool \<Rightarrow> unit remote" where
  "cli_clone E W st full url token b sparse =
     bindC (readC (\<lambda>s. clone_client url token b)) (\<lambda>c.
     seqC (needC (\<not> full)) (
     seqC (localC (doC (\<lambda>g. empty_repo [] []))) (
     bindC (remote_tipC E st c b) (\<lambda>remote.
     seqC (needC (remote \<noteq> None)) (
     let r = the remote in
     seqC (downloadsC E st c (\<lambda>srv. clone_objects E srv sparse r)) (
     seqC (localC (refsC (\<lambda>refs. set_branch refs b r))) (
     seqC (localC (set_headC b)) (
     seqC (localC (set_remoteC (str ''origin'') url token))
          (localC (clone_files E W sparse r))))))))))"

section \<open>Remotes and tokens\<close>

definition cli_remote_add :: "pystr \<Rightarrow> pystr \<Rightarrow> pystr \<Rightarrow> unit command" where
  "cli_remote_add name url token = set_remoteC name url token"

definition cli_remote_remove :: "pystr \<Rightarrow> unit command" where
  "cli_remote_remove name =
     bindC (stepC (\<lambda>g. bindE (remove_remote (g_config g) name) (\<lambda>(b, f). Inr (g\<lparr>g_config := f\<rparr>, b)))) needC"

text \<open>The names and URLs that are listed; a remote that is not a table has no \<open>get\<close>.\<close>

definition remote_line :: "pystr \<times> json \<Rightarrow> (pystr \<times> json) res" where
  "remote_line r =
     (case r of (name, JObj cfg) \<Rightarrow> Inr (name, field_or cfg ''url'' (JStr [])) | _ \<Rightarrow> Inl AttributeError)"

definition cli_remote_list :: "(pystr \<times> json) list command" where
  "cli_remote_list =
     readC (\<lambda>g. case field_or (load_config (g_config g)) ''remote'' (JObj []) of
       JObj remotes \<Rightarrow> mapE remote_line remotes | _ \<Rightarrow> Inl Malformed)"

text \<open>The token of a remote is replaced; its URL is one that \<open>remote add\<close> stored.\<close>

definition cli_auth_set_token :: "pystr \<Rightarrow> pystr \<Rightarrow> unit command" where
  "cli_auth_set_token token remote_name =
     bindC (readC (\<lambda>g. get_remote (g_config g) remote_name)) (\<lambda>cfg.
     case cfg of
       JNull \<Rightarrow> exit_with (ExitCode 1)
     | JObj kvs \<Rightarrow> (case field_or kvs ''url'' JNull of
           JStr url \<Rightarrow> set_remoteC remote_name url token | JNull \<Rightarrow> exit_with KeyError | _ \<Rightarrow> exit_with Malformed)
     | _ \<Rightarrow> exit_with TypeError)"

section \<open>Sparse checkouts\<close>

definition need_sparse :: "unit command" where
  "need_sparse = bindC (readC (\<lambda>g. Inr (is_sparse (g_sparse g)))) needC"

definition sparse_set :: "repo \<Rightarrow> pystr set" where
  "sparse_set g = (case load_sparse_paths (g_sparse g) of None \<Rightarrow> {} | Some S \<Rightarrow> S)"

definition save_sparseC :: "pystr set \<Rightarrow> unit command" where
  "save_sparseC S = doC (\<lambda>g. g\<lparr>g_sparse := save_sparse_paths (sorted_list_of_set S)\<rparr>)"

definition head_filesC :: "env \<Rightarrow> flat_entry dict command" where
  "head_filesC E = bindC headC (\<lambda>head. seqC (needC (head \<noteq> None)) (head_flatC E (the head)))"

text \<open>The data files a path selects, with their manifests.\<close>

definition selected :: "pystr \<Rightarrow> flat_entry dict \<Rightarrow> pystr dict" where
  "selected path flat =
     filter (\<lambda>(f, h). py_endswith_slash path \<and> py_startswith f path \<or> f = path) (manifests_of flat)"

definition missing_manifests :: "disk \<Rightarrow> pystr list \<Rightarrow> pystr list res" where
  "missing_manifests d mhs = foldE (missing_here d ''manifests'') mhs []"

definition rows_needed :: "env \<Rightarrow> disk \<Rightarrow> pystr list \<Rightarrow> pystr list res" where
  "rows_needed E d mhs =
     foldE (\<lambda>mh acc. bindE (read_manifest E d mh) (\<lambda>x. case x of
         None \<Rightarrow> Inl (ExitCode 1) | Some m \<Rightarrow> foldE (fetch_row d) (entries m) acc)) mhs []"

definition download_missing :: "env \<Rightarrow> site \<Rightarrow> client \<Rightarrow> string \<Rightarrow> pystr list \<Rightarrow> unit remote" where
  "download_missing E st c ty hs =
     (if hs = [] then ret () else downloadsC E st c (\<lambda>srv. batch_download_objects E srv ty hs))"

text \<open>One path of \<open>sparse-checkout add\<close>; a manifest that is here is still the same when the rows have come.\<close>

definition sparse_add_path :: "env \<Rightarrow> world \<Rightarrow> site \<Rightarrow> client \<Rightarrow> flat_entry dict \<Rightarrow> pystr \<Rightarrow> unit remote" where
  "sparse_add_path E W st c flat path =
     (let matched = selected path flat; mhs = map snd matched in
      seqC (needC (matched \<noteq> [])) (
      bindC (localC (readC (\<lambda>g. missing_manifests (g_objects g) mhs))) (\<lambda>ms.
      seqC (download_missing E st c ''manifests'' ms) (
      bindC (localC (readC (\<lambda>g. rows_needed E (g_objects g) mhs))) (\<lambda>rows.
      seqC (download_missing E st c ''rows'' rows)
           (forC (\<lambda>(f, mh). localC (checkout_manifest E W f mh)) matched))))))"

definition cli_sparse_add :: "env \<Rightarrow> world \<Rightarrow> site \<Rightarrow> pystr list \<Rightarrow> unit remote" where
  "cli_sparse_add E W st paths =
     seqC (localC need_sparse) (
     bindC (localC (head_filesC E)) (\<lambda>flat.
     bindC (configC (\<lambda>f. build_remote_client f (str ''origin''))) (\<lambda>c.
     bindC (localC (readC (\<lambda>g. Inr (sparse_set g)))) (\<lambda>old.
     seqC (forC (sparse_add_path E W st c flat) paths)
          (localC (save_sparseC (old \<union> set paths)))))))"

definition sparse_remove_path :: "flat_entry dict \<Rightarrow> pystr \<Rightarrow> unit command" where
  "sparse_remove_path flat path =
     forC remove_file (filter (\<lambda>f. f = path \<or> py_endswith_slash path \<and> py_startswith f path) (dict_keys flat))"

definition cli_sparse_remove :: "env \<Rightarrow> pystr list \<Rightarrow> unit command" where
  "cli_sparse_remove E paths =
     seqC need_sparse (
     bindC (readC (\<lambda>g. Inr (sparse_set g))) (\<lambda>old.
     bindC headC (\<lambda>head.
     bindC (if head = None then exit_with TypeError else head_flatC E (the head)) (\<lambda>flat.
     seqC (forC (sparse_remove_path flat) paths) (save_sparseC (old - set paths))))))"

definition cli_sparse_list :: "env \<Rightarrow> (pystr \<times> bool) list command" where
  "cli_sparse_list E =
     seqC need_sparse (
     bindC (readC (\<lambda>g. Inr (sparse_set g))) (\<lambda>S.
     bindC headC (\<lambda>head.
       if head = None then ret []
       else bindC (head_flatC E (the head)) (\<lambda>flat.
            ret (map (\<lambda>f. (f, is_in_sparse_set f S)) (sort (dict_keys flat)))))))"

text \<open>\<open>sparse-checkout disable\<close> downloads one object at a time.\<close>

definition need_objectC :: "env \<Rightarrow> site \<Rightarrow> client \<Rightarrow> string \<Rightarrow> pystr \<Rightarrow> unit remote" where
  "need_objectC E st c ty h =
     bindC (localC (readC (\<lambda>g. store_exists (g_objects g) (str ty) h))) (\<lambda>here.
       if here then ret ()
       else downloadsC E st c (\<lambda>srv. bindC (downloadC E srv ty h) (\<lambda>x.
              case x of None \<Rightarrow> ret () | Some b \<Rightarrow> if b = [] then ret () else storeC E ty b)))"

definition fill_file :: "env \<Rightarrow> world \<Rightarrow> site \<Rightarrow> client \<Rightarrow> pystr \<times> pystr \<Rightarrow> unit remote" where
  "fill_file E W st c e =
     (let (f, mh) = e in
      seqC (need_objectC E st c ''manifests'' mh) (
      bindC (localC (readC (\<lambda>g. read_manifest E (g_objects g) mh))) (\<lambda>m.
      case m of
        None \<Rightarrow> ret ()
      | Some m \<Rightarrow> seqC (forC (need_objectC E st c ''rows'') (map row_hash (entries m)))
                      (localC (checkout_manifest E W f mh)))))"

definition cli_sparse_disable :: "env \<Rightarrow> world \<Rightarrow> site \<Rightarrow> unit remote" where
  "cli_sparse_disable E W st =
     seqC (localC need_sparse) (
     bindC (localC (head_filesC E)) (\<lambda>flat.
     bindC (configC (\<lambda>f. build_remote_client f (str ''origin''))) (\<lambda>c.
     seqC (forC (fill_file E W st c) (manifests_of flat))
          (localC (doC (\<lambda>g. g\<lparr>g_sparse := None\<rparr>))))))"

end
