(* ===== verification/Dit_Fetched.thy ===== *)
theory Dit_Fetched
  imports Dit_Fetch Dit_Gc Dit_Demo
begin

text \<open>
  What a fetch brings: everything the commit leads to that the server has. \<open>s\<close> is the store of the
  server, \<open>d\<close> the one the command works on.
\<close>

section \<open>Stores that grow by objects of the server\<close>

definition held :: "env \<Rightarrow> disk \<Rightarrow> node \<Rightarrow> bool" where
  "held E d n \<longleftrightarrow> (\<exists>b. store_read E d (dir_name (fst n)) (snd n) = Inr (Some b))"

definition agree :: "env \<Rightarrow> disk \<Rightarrow> disk \<Rightarrow> bool" where
  "agree E s d \<longleftrightarrow> (\<forall>ty h b b'. store_read E s ty h = Inr (Some b) \<and> store_read E d ty h = Inr (Some b') \<longrightarrow> b = b')"

definition gains :: "env \<Rightarrow> disk \<Rightarrow> disk \<Rightarrow> disk \<Rightarrow> bool" where
  "gains E s d d' \<longleftrightarrow> store_inv E d' \<and> map_of d \<subseteq>\<^sub>m map_of d' \<and>
     (\<forall>ty h b. store_read E d' ty h = Inr (Some b) \<longrightarrow> store_read E d ty h = Inr (Some b) \<or> store_read E s ty h = Inr (Some b))"

lemma gains_refl [simp]: "store_inv E d \<Longrightarrow> gains E s d d"
  by (simp add: gains_def)

lemma gains_trans: "gains E s d d1 \<Longrightarrow> gains E s d1 d2 \<Longrightarrow> gains E s d d2"
  unfolding gains_def by (meson map_le_trans)

lemma gainsD: "gains E s d d' \<Longrightarrow> store_inv E d' \<and> map_of d \<subseteq>\<^sub>m map_of d'"
  by (simp add: gains_def)

lemma gains_agree: "gains E s d d' \<Longrightarrow> agree E s d \<Longrightarrow> agree E s d'"
  unfolding gains_def agree_def by (metis Inr_inject option.inject)

lemma gains_held: "gains E s d d' \<Longrightarrow> held E d n \<Longrightarrow> held E d' n"
  unfolding gains_def held_def using store_read_mono by blast

lemma storeC_gains:
  assumes "store_inv E s" "store_inv E d" "agree E s d" "store_read E s (str ty) h = Inr (Some b)" "storeC E ty b d = (d', r)"
  shows "r = Inr () \<and> gains E s d d' \<and> store_read E d' (str ty) h = Inr (Some b) \<and>
    (\<forall>ty' h'. ty' \<noteq> str ty \<or> h' \<noteq> h \<longrightarrow> store_read E d' ty' h' = store_read E d ty' h')"
proof -
  have ok: "env_ok E" and h: "h = sha256 E b" using assms(1,2,4) store_read_addr by auto
  obtain d2 where w: "store_write E d (str ty) b = Inr (h, d2)" using store_write_total [OF ok] h by blast
  with assms(5) have d': "d' = d2" "r = Inr ()" by (auto simp: storeC_def stepC_def)
  have "c = b" if "store_read E d (str ty) (sha256 E b) = Inr (Some c)" for c
    using assms(3,4) that unfolding agree_def h [symmetric] by blast
  then have "no_collision E d (str ty) b" by (auto simp: no_collision_def split: sum.split option.split)
  from store_read_write [OF assms(2) this w] have rd: "store_read E d' (str ty) h = Inr (Some b)" by (simp add: d')
  have other: "store_read E d' ty' h' = store_read E d ty' h'" if "ty' \<noteq> str ty \<or> h' \<noteq> h" for ty' h'
    using w that by (auto simp: d' store_write_Inr [OF ok] store_read_def object_path_def update_conv' split: if_splits)
  have "store_read E d ty' h' = Inr (Some x) \<or> store_read E s ty' h' = Inr (Some x)"
    if "store_read E d' ty' h' = Inr (Some x)" for ty' h' x
    using that other [of ty' h'] rd assms(4) by (cases "ty' = str ty \<and> h' = h") auto
  then have "gains E s d d'"
    unfolding gains_def using store_write_inv [OF assms(2) w] store_write_mono [OF ok w] by (simp add: d')
  with rd other d'(2) show ?thesis by blast
qed

section \<open>Downloads\<close>

lemma client_download:
  assumes "client_download_object E (Some s) (str ty) h = Inr x"
  shows "(case x of Some b \<Rightarrow> store_read E s (str ty) h = Inr (Some b) | None \<Rightarrow> str ty \<in> set valid_obj_types \<longrightarrow> store_read E s (str ty) h = Inr None)"
  using assms
  by (auto simp: client_download_object_def server_download_object_def repo_store_def validate_obj_type_def must_def bindE_def
      store_read_Inl split: option.splits sum.splits if_splits)

lemma download_items:
  assumes "foldE (download_step E s ty) hs r0 = Inr r"
  shows "\<exists>new. dn_items r = dn_items r0 @ new \<and> (\<forall>(h, t) \<in> set new. h \<in> set hs \<and> (\<exists>b. t = b64encode b \<and> store_read E s ty h = Inr (Some b))) \<and>
    (\<forall>h \<in> set hs. \<forall>b. store_read E s ty h = Inr (Some b) \<longrightarrow> (h, b64encode b) \<in> set new)"
  using assms
proof (induction hs arbitrary: r0)
  case (Cons h hs)
  then obtain x where x: "store_read E s ty h = Inr x"
    by (auto simp: download_step_def bindE_eq_Inr)
  let ?r1 = "case x of None \<Rightarrow> r0\<lparr>dn_missing := dn_missing r0 @ [h]\<rparr> | Some data \<Rightarrow> r0\<lparr>dn_items := dn_items r0 @ [(h, b64encode data)]\<rparr>"
  have "download_step E s ty h r0 = Inr ?r1" using x by (simp add: download_step_def)
  then have "foldE (download_step E s ty) hs ?r1 = Inr r" using Cons.prems by simp
  from Cons.IH [OF this] obtain new where "dn_items r = dn_items ?r1 @ new"
    "\<forall>(h, t) \<in> set new. h \<in> set hs \<and> (\<exists>b. t = b64encode b \<and> store_read E s ty h = Inr (Some b))"
    "\<forall>h \<in> set hs. \<forall>b. store_read E s ty h = Inr (Some b) \<longrightarrow> (h, b64encode b) \<in> set new" by blast
  with x show ?case
    by (cases x) (auto intro!: exI [of _ "(case x of None \<Rightarrow> [] | Some data \<Rightarrow> [(h, b64encode data)]) @ new"])
qed simp

lemma decode_items:
  assumes "foldE (\<lambda>(h, t) acc. bindE (b64decode t) (\<lambda>b. Inr (AList.update h b acc))) items acc = Inr results"
    and "\<forall>(h, t) \<in> set items. \<exists>b. t = b64encode b \<and> store_read E s ty h = Inr (Some b)"
    and "\<forall>(h, b) \<in> set acc. store_read E s ty h = Inr (Some b)"
  shows "(\<forall>(h, b) \<in> set results. store_read E s ty h = Inr (Some b)) \<and> fst ` set results = fst ` set acc \<union> fst ` set items"
  using assms
proof (induction items arbitrary: acc)
  case (Cons it items)
  obtain h t where it: "it = (h, t)" by (cases it)
  from Cons.prems(2) it obtain b where b: "t = b64encode b" "store_read E s ty h = Inr (Some b)" by auto
  have sub: "set (AList.update h b acc) \<subseteq> insert (h, b) (set acc)" by (induction acc) auto
  have k: "fst ` set (AList.update h b acc) = insert h (fst ` set acc)" by (induction acc) auto
  have "foldE (\<lambda>(h, t) acc. bindE (b64decode t) (\<lambda>b. Inr (AList.update h b acc))) items (AList.update h b acc) = Inr results"
    using Cons.prems(1) by (simp add: it b(1) b64_roundtrip)
  moreover have "\<forall>(h, t) \<in> set items. \<exists>b. t = b64encode b \<and> store_read E s ty h = Inr (Some b)" using Cons.prems(2) by simp
  moreover have "\<forall>(h, b) \<in> set (AList.update h b acc). store_read E s ty h = Inr (Some b)" using Cons.prems(3) sub b(2) by blast
  ultimately show ?case using Cons.IH k by (simp add: it)
qed simp

lemma download_batch_items:
  assumes "download_batch E (Some s) (str ty) hs = Inr results"
  shows "(\<forall>(h, b) \<in> set results. h \<in> set hs \<and> store_read E s (str ty) h = Inr (Some b)) \<and>
    (\<forall>h \<in> set hs. \<forall>b. store_read E s (str ty) h = Inr (Some b) \<longrightarrow> h \<in> fst ` set results)"
proof (cases "batch_download E (Some s) (str ty) hs")
  case (Inr r)
  then have "foldE (download_step E s (str ty)) hs \<lparr>dn_items = [], dn_missing = []\<rparr> = Inr r"
    by (auto simp: batch_download_def repo_store_def bindE_eq_Inr split: if_splits)
  from download_items [OF this] obtain new where new: "dn_items r = new"
    "\<forall>(h, t) \<in> set new. h \<in> set hs \<and> (\<exists>b. t = b64encode b \<and> store_read E s (str ty) h = Inr (Some b))"
    "\<forall>h \<in> set hs. \<forall>b. store_read E s (str ty) h = Inr (Some b) \<longrightarrow> (h, b64encode b) \<in> set new" by auto
  have "foldE (\<lambda>(h, t) acc. bindE (b64decode t) (\<lambda>b. Inr (AList.update h b acc))) new [] = Inr results"
    using assms Inr new(1) by (simp add: download_batch_def)
  moreover have "\<forall>(h, t) \<in> set new. \<exists>b. t = b64encode b \<and> store_read E s (str ty) h = Inr (Some b)"
    using new(2) by auto
  ultimately have res: "\<forall>(h, b) \<in> set results. store_read E s (str ty) h = Inr (Some b)" "fst ` set results = fst ` set new"
    using decode_items [of new "[]" results E s "str ty"] by simp_all
  from res(2) have k: "h \<in> fst ` set results" if "(h, t) \<in> set new" for h t using that by (metis fst_conv image_eqI)
  have "h \<in> set hs" if "(h, b) \<in> set results" for h b
  proof -
    from that res(2) have "h \<in> fst ` set new" by (metis fst_conv image_eqI)
    with new(2) show ?thesis by auto
  qed
  with res(1) k new(3) show ?thesis by blast
next
  case (Inl x)
  have "e = ValueError \<or> e = ZstdError" if "foldE (download_step E s (str ty)) hs r = Inl e" for r e
    using that by (induction hs arbitrary: r) (auto simp: download_step_def bindE_eq_Inl bindE_eq_Inr store_read_Inl)
  with Inl have "x \<noteq> HTTPException 404"
    by (auto simp: batch_download_def repo_store_def validate_obj_type_def bindE_def split: if_splits)
  with Inl assms show ?thesis by (simp add: download_batch_def)
qed

lemma store_items:
  assumes "store_inv E s" "store_inv E d" "agree E s d"
    and "\<forall>(h, b) \<in> set items. store_read E s (str ty) h = Inr (Some b)" "forC (\<lambda>(h, data). storeC E ty data) items d = (d', r)"
  shows "r = Inr () \<and> gains E s d d' \<and> (\<forall>(h, b) \<in> set items. store_read E d' (str ty) h = Inr (Some b)) \<and>
    (\<forall>ty' h'. ty' \<noteq> str ty \<or> h' \<notin> fst ` set items \<longrightarrow> store_read E d' ty' h' = store_read E d ty' h')"
  using assms(2-)
proof (induction items arbitrary: d)
  case (Cons it items)
  obtain h b where it: "it = (h, b)" by (cases it)
  obtain d1 r1 where d1: "storeC E ty b d = (d1, r1)" by (cases "storeC E ty b d")
  from storeC_gains [OF assms(1) Cons.prems(1,2) _ d1, of h] Cons.prems(3) it
  have g: "r1 = Inr ()" "gains E s d d1" "store_read E d1 (str ty) h = Inr (Some b)"
    "\<forall>ty' h'. ty' \<noteq> str ty \<or> h' \<noteq> h \<longrightarrow> store_read E d1 ty' h' = store_read E d ty' h'" by auto
  from Cons.prems(4) d1 g(1) it have "forC (\<lambda>(h, data). storeC E ty data) items d1 = (d', r)" by simp
  from Cons.IH [OF _ gains_agree [OF g(2) Cons.prems(2)] _ this] gainsD [OF g(2)] Cons.prems(3)
  have "r = Inr ()" "gains E s d1 d'" "\<forall>(h, b) \<in> set items. store_read E d' (str ty) h = Inr (Some b)"
    "\<forall>ty' h'. ty' \<noteq> str ty \<or> h' \<notin> fst ` set items \<longrightarrow> store_read E d' ty' h' = store_read E d1 ty' h'" by simp_all
  moreover from this(2) have "store_read E d' (str ty) h = Inr (Some b)" using store_read_mono [OF _ g(3)] gainsD by blast
  ultimately show ?case using g gains_trans [OF g(2)] by (simp add: it)
qed simp

lemma concat_chunks: "concat (chunks n xs) = xs"
  by (induction n xs rule: chunks.induct) auto

text \<open>After a batch download the store holds what the server has of the hashes asked for.\<close>

lemma batch_download_gains:
  assumes "store_inv E s" "store_inv E d" "agree E s d" "batch_download_objects E (Some s) ty hs d = (d', Inr ())"
  shows "gains E s d d' \<and> (\<forall>h \<in> set hs. \<forall>b. store_read E s (str ty) h = Inr (Some b) \<longrightarrow> store_read E d' (str ty) h = Inr (Some b)) \<and>
    (\<forall>ty' h'. ty' \<noteq> str ty \<or> h' \<notin> set hs \<longrightarrow> store_read E d' ty' h' = store_read E d ty' h')"
proof -
  let ?f = "\<lambda>chunk. bindC (boundaryC (readC (\<lambda>d. download_batch E (Some s) (str ty) chunk))) (forC (\<lambda>(h, data). storeC E ty data))"
  have "gains E s d d' \<and> (\<forall>h \<in> set (concat cs). \<forall>b. store_read E s (str ty) h = Inr (Some b) \<longrightarrow> store_read E d' (str ty) h = Inr (Some b)) \<and>
      (\<forall>ty' h'. ty' \<noteq> str ty \<or> h' \<notin> set (concat cs) \<longrightarrow> store_read E d' ty' h' = store_read E d ty' h')"
    if "forC ?f cs d = (d', Inr ())" "store_inv E d" "agree E s d" for cs d
    using that
  proof (induction cs arbitrary: d)
    case (Cons c cs)
    then obtain d1 results where r: "download_batch E (Some s) (str ty) c = Inr results"
      "forC (\<lambda>(h, data). storeC E ty data) results d = (d1, Inr ())" "forC ?f cs d1 = (d', Inr ())"
      by (auto simp: cmd_Inr boundaryC_def split: sum.splits)
    note i = download_batch_items [OF r(1)]
    from i have i1: "\<forall>(h, b) \<in> set results. store_read E s (str ty) h = Inr (Some b)" by auto
    from i have i2: "h \<notin> set c \<Longrightarrow> h \<notin> fst ` set results" for h by auto
    note g = store_items [OF assms(1) Cons.prems(2,3) i1 r(2)]
    then have g1: "gains E s d d1" by simp
    from Cons.IH [OF r(3) _ gains_agree [OF g1 Cons.prems(3)]] gainsD [OF g1]
    have IH: "gains E s d1 d'" "\<forall>h \<in> set (concat cs). \<forall>b. store_read E s (str ty) h = Inr (Some b) \<longrightarrow> store_read E d' (str ty) h = Inr (Some b)"
      "\<forall>ty' h'. ty' \<noteq> str ty \<or> h' \<notin> set (concat cs) \<longrightarrow> store_read E d' ty' h' = store_read E d1 ty' h'" by simp_all
    have "store_read E d' (str ty) h = Inr (Some b)" if "h \<in> set c" "store_read E s (str ty) h = Inr (Some b)" for h b
    proof -
      from i that obtain b' where b': "(h, b') \<in> set results" by auto
      with i that(2) have "b' = b" by fastforce
      with b' g have "store_read E d1 (str ty) h = Inr (Some b)" by auto
      then show ?thesis using store_read_mono gainsD [OF IH(1)] by blast
    qed
    with IH(2) have "\<forall>h \<in> set (concat (c # cs)). \<forall>b. store_read E s (str ty) h = Inr (Some b) \<longrightarrow> store_read E d' (str ty) h = Inr (Some b)"
      by auto
    moreover have "\<forall>ty' h'. ty' \<noteq> str ty \<or> h' \<notin> set (concat (c # cs)) \<longrightarrow> store_read E d' ty' h' = store_read E d ty' h'"
      using IH(3) g i2 by simp
    ultimately show ?case using gains_trans [OF g1 IH(1)] by simp
  qed simp
  from this [of "chunks 199 hs" d] assms(2-4) show ?thesis by (simp add: batch_download_objects_def concat_chunks)
qed

section \<open>The objects of a tree\<close>

fun covered :: "env \<Rightarrow> disk \<Rightarrow> pending \<Rightarrow> node \<Rightarrow> bool" where
  "covered E d p (KManifest, h) = (held E d (KManifest, h) \<or> h \<in> set (pe_manifests p))"
| "covered E d p (KSidecar, h) = (held E d (KSidecar, h) \<or> h \<in> set (pe_sidecars p))"
| "covered E d p (KBlob, h) = (held E d (KBlob, h) \<or> h \<in> set (pe_blobs p))"
| "covered E d p (KTree, h) = held E d (KTree, h)"
| "covered E d p _ = True"

definition wider :: "pending \<Rightarrow> pending \<Rightarrow> bool" where
  "wider p p' \<longleftrightarrow> set (pe_manifests p) \<subseteq> set (pe_manifests p') \<and> set (pe_sidecars p) \<subseteq> set (pe_sidecars p') \<and>
     set (pe_blobs p) \<subseteq> set (pe_blobs p')"

lemma wider_refl [simp]: "wider p p"
  by (simp add: wider_def)

lemma wider_trans: "wider p q \<Longrightarrow> wider q r \<Longrightarrow> wider p r"
  unfolding wider_def by blast

lemma covered_mono: "covered E d p n \<Longrightarrow> gains E s d d' \<Longrightarrow> wider p p' \<Longrightarrow> covered E d' p' n"
  by (cases "(E, d, p, n)" rule: covered.cases) (auto simp: wider_def dest: gains_held)

text \<open>Only entries of data files have a sidecar: that is how trees are built.\<close>

definition plain_entry :: "tree_entry \<Rightarrow> bool" where
  "plain_entry e \<longleftrightarrow> (truthy (te_sidecar e) \<longrightarrow> te_type e = str ''manifest'')"

definition plain :: "env \<Rightarrow> disk \<Rightarrow> node \<Rightarrow> bool" where
  "plain E s n \<longleftrightarrow> (\<forall>th t. reaches E s n (KTree, th) \<and> read_tree E s th = Inr (Some t) \<longrightarrow> (\<forall>e \<in> set (tree_entries t). plain_entry e))"

definition entry_covered :: "env \<Rightarrow> disk \<Rightarrow> disk \<Rightarrow> pending \<Rightarrow> tree_entry \<Rightarrow> bool" where
  "entry_covered E s d p e \<longleftrightarrow>
     (\<forall>r \<in> set (entry_adds e @ entry_pushes e). \<forall>m. reaches E s r m \<and> held E s m \<longrightarrow> covered E d p m)"

lemma entry_covered_mono: "entry_covered E s d p e \<Longrightarrow> gains E s d d' \<Longrightarrow> wider p p' \<Longrightarrow> entry_covered E s d' p' e"
  unfolding entry_covered_def using covered_mono by blast

lemma exists_held:
  "store_inv E d \<Longrightarrow> store_exists d (dir_name k) h = Inr b \<Longrightarrow> b \<longleftrightarrow> held E d (k, h)"
proof -
  assume d: "store_inv E d" "store_exists d (dir_name k) h = Inr b"
  then have h: "hash_re h" "b \<longleftrightarrow> map_of d (opath (dir_name k) h) \<noteq> None"
    by (auto simp: store_exists_def bindE_eq_Inr object_path_Inr)
  obtain x where "store_read E d (dir_name k) h = Inr x" using store_read_total [OF d(1) h(1)] by blast
  with h show ?thesis by (cases x) (auto simp: held_def store_read_None, auto simp: store_read_Some)
qed

lemma missing_here_held:
  assumes "store_inv E d" "missing_here d ty h acc = Inr acc'" "str ty = dir_name k"
  shows "set acc \<subseteq> set acc' \<and> (held E d (k, h) \<or> h \<in> set acc')"
  using assms exists_held [OF assms(1), of k h] by (auto simp: missing_here_def bindE_eq_Inr split: if_splits)

lemma reaches_leaf: "object_refs E s n = [] \<Longrightarrow> reaches E s n m \<Longrightarrow> m = n"
  using reaches_closed [of E s n m "{n}"] by auto

lemma manifest_refs: "r \<in> set (object_refs E s (KManifest, h)) \<Longrightarrow> fst r = KRow"
  by (auto simp: object_refs_def bindE_def split: sum.splits option.splits)

lemma reaches_manifest: "reaches E s (KManifest, h) m \<Longrightarrow> m = (KManifest, h) \<or> fst m = KRow"
proof -
  assume r: "reaches E s (KManifest, h) m"
  have "m \<in> {(KManifest, h)} \<union> {n. fst n = KRow}"
    by (rule reaches_closed [OF r]) (auto dest: manifest_refs simp: object_refs_leaf)
  then show ?thesis by auto
qed

lemma need_entry_covers:
  assumes "store_inv E d" "need_entry d e p = Inr p'" "\<not> is_tree e"
  shows "wider p p' \<and> (plain_entry e \<longrightarrow> entry_covered E s d p' e)"
proof -
  have leaf: "reaches E s (KSidecar, h) m \<Longrightarrow> m = (KSidecar, h)" "reaches E s (KBlob, h) m \<Longrightarrow> m = (KBlob, h)" for h m
    using reaches_leaf by (auto simp: object_refs_leaf)
  have row: "fst m = KRow \<Longrightarrow> covered E d q m" for q m by (cases m) auto
  consider (m) "te_type e = str ''manifest''" | (b) "te_type e = str ''blob''" "te_type e \<noteq> str ''manifest''"
    | (x) "te_type e \<noteq> str ''manifest''" "te_type e \<noteq> str ''blob''" by blast
  then show ?thesis
  proof cases
    case m
    with assms(2) obtain ms ss where ms: "missing_here d ''manifests'' (te_hash e) (pe_manifests p) = Inr ms"
      "(if truthy (te_sidecar e) then missing_here d ''sidecars'' (the (te_sidecar e)) (pe_sidecars p) else Inr (pe_sidecars p)) = Inr ss"
      "p' = p\<lparr>pe_manifests := ms, pe_sidecars := ss\<rparr>" by (auto simp: need_entry_def bindE_eq_Inr)
    from missing_here_held [OF assms(1) ms(1), of KManifest] have 1: "set (pe_manifests p) \<subseteq> set ms" "held E d (KManifest, te_hash e) \<or> te_hash e \<in> set ms" by auto
    have 2: "set (pe_sidecars p) \<subseteq> set ss" "truthy (te_sidecar e) \<Longrightarrow> held E d (KSidecar, the (te_sidecar e)) \<or> the (te_sidecar e) \<in> set ss"
      using ms(2) missing_here_held [OF assms(1), of "''sidecars''" _ _ _ KSidecar] by (auto split: if_splits)
    have t: "te_sidecar e = Some sc \<Longrightarrow> sc \<noteq> [] \<Longrightarrow> truthy (te_sidecar e)" for sc by (cases sc) auto
    have "covered E d p' n" if "reaches E s (KManifest, te_hash e) n" for n
    proof (cases "n = (KManifest, te_hash e)")
      case True
      with 1(2) show ?thesis by (simp add: ms(3))
    next
      case False
      with reaches_manifest [OF that] show ?thesis by (simp add: row)
    qed
    moreover have "covered E d p' n" if "te_sidecar e = Some sc" "sc \<noteq> []" "reaches E s (KSidecar, sc) n" for sc n
      using leaf(1) [OF that(3)] 2(2) [OF t [OF that(1,2)]] that(1) by (simp add: ms(3))
    ultimately show ?thesis using m 1(1) 2(1)
      by (cases "te_sidecar e") (simp_all add: entry_covered_def entry_adds_def entry_pushes_def wider_def ms(3) ball_Un)
  next
    case b
    with assms(2) obtain bs where bs: "missing_here d ''blobs'' (te_hash e) (pe_blobs p) = Inr bs" "p' = p\<lparr>pe_blobs := bs\<rparr>"
      by (auto simp: need_entry_def bindE_eq_Inr)
    from missing_here_held [OF assms(1) bs(1), of KBlob] have 1: "set (pe_blobs p) \<subseteq> set bs" "held E d (KBlob, te_hash e) \<or> te_hash e \<in> set bs" by auto
    have "covered E d p' n" if "reaches E s (KBlob, te_hash e) n" for n using leaf(2) [OF that] 1(2) by (simp add: bs(2))
    with b 1(1) show ?thesis
      by (cases "te_sidecar e") (auto simp: entry_covered_def entry_adds_def entry_pushes_def wider_def bs(2) plain_entry_def neq_Nil_conv)
  next
    case x
    with assms show ?thesis
      by (cases "te_sidecar e") (auto simp: need_entry_def entry_covered_def entry_adds_def entry_pushes_def is_tree_def plain_entry_def neq_Nil_conv)
  qed
qed

text \<open>Everything an object leads to that the server has is here.\<close>

definition settled :: "env \<Rightarrow> disk \<Rightarrow> disk \<Rightarrow> node \<Rightarrow> bool" where
  "settled E s d n \<longleftrightarrow> (\<forall>m. reaches E s n m \<and> held E s m \<longrightarrow> held E d m)"

lemma settled_here: "settled E s d n \<Longrightarrow> held E s n \<Longrightarrow> held E d n"
  unfolding settled_def using reaches_refl by blast

lemma settled_mono: "settled E s d n \<Longrightarrow> gains E s d d' \<Longrightarrow> settled E s d' n"
  unfolding settled_def using gains_held by blast

lemma reaches_cases: "reaches E s n m \<Longrightarrow> m = n \<or> (\<exists>r \<in> set (object_refs E s n). reaches E s r m)"
  unfolding reaches_def by (erule converse_rtranclE) (auto simp: objects.edges_def)

lemma plain_ref: "plain E s n \<Longrightarrow> r \<in> set (object_refs E s n) \<Longrightarrow> plain E s r"
  unfolding plain_def by (meson reaches_ref reaches_refl reaches_trans)

abbreviation good :: "env \<Rightarrow> disk \<Rightarrow> node \<Rightarrow> bool" where
  "good E s n \<equiv> graph_ok E s n \<and> plain E s n"

lemma good_ref: "good E s n \<Longrightarrow> r \<in> set (object_refs E s n) \<Longrightarrow> good E s r"
  using graph_ok_ref plain_ref by blast

definition other_types :: "env \<Rightarrow> string \<Rightarrow> disk \<Rightarrow> disk \<Rightarrow> bool" where
  "other_types E ty d d' \<longleftrightarrow> (\<forall>ty' h. ty' \<noteq> str ty \<longrightarrow> store_read E d' ty' h = store_read E d ty' h)"

lemma other_types_refl [simp]: "other_types E ty d d"
  by (simp add: other_types_def)

lemma other_types_trans: "other_types E ty d d1 \<Longrightarrow> other_types E ty d1 d2 \<Longrightarrow> other_types E ty d d2"
  by (simp add: other_types_def)

lemma boundaryC_Inr [simp]: "boundaryC m d = (d', Inr x) \<longleftrightarrow> m d = (d', Inr x)"
  by (auto simp: boundaryC_def split: prod.splits sum.splits)

lemma tree_bytes:
  assumes inv: "store_inv E s" "store_inv E d" and a: "agree E s d" and run: "tree_bytesC E (Some s) th d = (d', Inr x)"
  shows "gains E s d d' \<and> other_types E ''trees'' d d' \<and>
    (case x of Some b \<Rightarrow> store_read E d' (str ''trees'') th = Inr (Some b)
     | None \<Rightarrow> \<forall>b. store_read E s (str ''trees'') th = Inr (Some b) \<longrightarrow> b = [])"
proof (cases "store_exists d (str ''trees'') th")
  case (Inr b)
  show ?thesis
  proof (cases b)
    case True
    with Inr run have x: "d' = d" "store_read E d (str ''trees'') th = Inr x" by (auto simp: tree_bytesC_def cmd_Inr)
    have "held E d (KTree, th)" using exists_held [OF inv(2), of KTree th b] Inr True by simp
    with x inv(2) show ?thesis by (auto simp: held_def)
  next
    case False
    from run Inr False obtain y where y: "client_download_object E (Some s) (str ''trees'') th = Inr y"
      "(case y of None \<Rightarrow> ret None | Some data \<Rightarrow> if data = [] then ret None
          else seqC (storeC E ''trees'' data) (ret (Some data))) d = (d', Inr x)"
      by (auto simp: tree_bytesC_def downloadC_def bindC_Inr)
    show ?thesis
    proof (cases y)
      case None
      with y client_download [OF y(1)] inv(2) show ?thesis by (auto simp: valid_obj_types_def)
    next
      case (Some data)
      with client_download [OF y(1)] have sd: "store_read E s (str ''trees'') th = Inr (Some data)" by simp
      show ?thesis
      proof (cases "data = []")
        case True
        with y(2) Some sd inv(2) show ?thesis by simp
      next
        case False
        with y(2) Some have "storeC E ''trees'' data d = (d', Inr ())" "x = Some data" by (auto simp: seqC_Inr)
        with storeC_gains [OF inv a sd] show ?thesis by (simp add: other_types_def)
      qed
    qed
  qed
qed (use run in \<open>auto simp: tree_bytesC_def bindC_Inr\<close>)

text \<open>One pass over a list of entries, given what each step does.\<close>

lemma fold_entries:
  assumes step: "\<And>e p d d' p'. e \<in> set es \<Longrightarrow> store_inv E d \<Longrightarrow> agree E s d \<Longrightarrow> f e p d = (d', Inr p') \<Longrightarrow>
      gains E s d d' \<and> other_types E ''trees'' d d' \<and> wider p p' \<and> (ok e \<longrightarrow> entry_covered E s d' p' e)"
    and "store_inv E d" "agree E s d" "foldC f es p d = (d', Inr p')"
  shows "gains E s d d' \<and> other_types E ''trees'' d d' \<and> wider p p' \<and> (\<forall>e \<in> set es. ok e \<longrightarrow> entry_covered E s d' p' e)"
  using assms
proof (induction es arbitrary: p d)
  case (Cons e es)
  from Cons.prems(4) obtain d1 p1 where 1: "f e p d = (d1, Inr p1)" "foldC f es p1 d1 = (d', Inr p')" by (auto simp: bindC_Inr)
  from Cons.prems(1) [OF _ Cons.prems(2,3) 1(1)] have h: "gains E s d d1" "other_types E ''trees'' d d1" "wider p p1"
    "ok e \<longrightarrow> entry_covered E s d1 p1 e" by auto
  have t: "gains E s d1 d' \<and> other_types E ''trees'' d1 d' \<and> wider p1 p' \<and> (\<forall>e \<in> set es. ok e \<longrightarrow> entry_covered E s d' p' e)"
  proof (rule Cons.IH [OF _ _ _ 1(2)])
    show "gains E s d d' \<and> other_types E ''trees'' d d' \<and> wider p p' \<and> (ok e' \<longrightarrow> entry_covered E s d' p' e')"
      if "e' \<in> set es" "store_inv E d" "agree E s d" "f e' p d = (d', Inr p')" for e' p d d' p'
      using Cons.prems(1) [of e' d p d' p'] that by simp
  qed (use gainsD [OF h(1)] gains_agree [OF h(1) Cons.prems(3)] in auto)
  have "entry_covered E s d' p' e" if "ok e" using h(4) that t entry_covered_mono by blast
  with t have "\<forall>e' \<in> set (e # es). ok e' \<longrightarrow> entry_covered E s d' p' e'" by simp
  moreover have "gains E s d d'" "other_types E ''trees'' d d'" "wider p p'"
    using h t gains_trans other_types_trans wider_trans by blast+
  ultimately show ?case by blast
qed simp

lemma walk_entry:
  assumes "\<not> is_tree e" "store_inv E d" "readC (\<lambda>d. need_entry d e p) d = (d', Inr p')"
  shows "gains E s d d' \<and> other_types E ''trees'' d d' \<and> wider p p' \<and> (plain_entry e \<longrightarrow> entry_covered E s d' p' e)"
proof -
  from assms(3) have "d' = d" "need_entry d e p = Inr p'" by auto
  with need_entry_covers [OF assms(2) this(2) assms(1), of s] assms(2) show ?thesis by simp
qed

lemma tree_empty [simp]: "deserialize_tree [] = Inr t \<longleftrightarrow> False"
  by (simp add: deserialize_tree_def json_loads_bytes_def other_encoding_def drop_bom_def json_loads_def skip_ws_def)

text \<open>After the walk of a tree what it leads to is here or is in the lists.\<close>

lemma fetch_walk_covers:
  assumes "store_inv E s" "store_inv E d" "agree E s d" "fetch_walk E (Some s) n th p d = (d', Inr p')"
  shows "gains E s d d' \<and> other_types E ''trees'' d d' \<and> wider p p' \<and>
    (good E s (KTree, th) \<longrightarrow> (\<forall>m. reaches E s (KTree, th) m \<and> held E s m \<longrightarrow> covered E d' p' m))"
  using assms(2-)
proof (induction n arbitrary: th p d d' p')
  case (Suc n)
  from Suc.prems(3) obtain d1 x where x: "tree_bytesC E (Some s) th d = (d1, Inr x)"
    "(case x of None \<Rightarrow> ret p | Some data \<Rightarrow> bindC (readC (\<lambda>d. deserialize_tree data)) (\<lambda>t.
        foldC (\<lambda>e p. if is_tree e then fetch_walk E (Some s) n (te_hash e) p else readC (\<lambda>d. need_entry d e p))
          (tree_entries t) p)) d1 = (d', Inr p')" by (auto simp: bindC_Inr)
  note b = tree_bytes [OF assms(1) Suc.prems(1,2) x(1)]
  then have g1: "gains E s d d1" "other_types E ''trees'' d d1" by simp_all
  show ?case
  proof (cases x)
    case None
    have "covered E d1 p m" if "good E s (KTree, th)" "reaches E s (KTree, th) m" "held E s m" for m
    proof -
      from that(1) graph_ok_visit obtain v where v: "read_tree E s th = Inr v" by (fastforce simp: bindE_eq_Inr)
      have e: "b = []" if "store_read E s (str ''trees'') th = Inr (Some b)" for b using b None that by simp
      with v have v0: "v = None" "\<not> held E s (KTree, th)" by (auto simp: read_defs load_def held_def bindE_eq_Inr split: option.splits)
      with v have "object_refs E s (KTree, th) = []" by (simp add: object_refs_def)
      with reaches_leaf [OF this that(2)] v0 that(3) show ?thesis by simp
    qed
    with g1 None x(2) show ?thesis by simp
  next
    case (Some data)
    with x(2) obtain t where t: "deserialize_tree data = Inr t"
      "foldC (\<lambda>e p. if is_tree e then fetch_walk E (Some s) n (te_hash e) p else readC (\<lambda>d. need_entry d e p))
          (tree_entries t) p d1 = (d', Inr p')" by (auto simp: bindC_Inr)
    have fold: "gains E s d1 d' \<and> other_types E ''trees'' d1 d' \<and> wider p p' \<and>
      (\<forall>e \<in> set (tree_entries t). plain_entry e \<and> (is_tree e \<longrightarrow> good E s (KTree, te_hash e)) \<longrightarrow> entry_covered E s d' p' e)"
    proof (rule fold_entries [OF _ _ _ t(2)])
      show "gains E s d d' \<and> other_types E ''trees'' d d' \<and> wider p p' \<and>
        (plain_entry e \<and> (is_tree e \<longrightarrow> good E s (KTree, te_hash e)) \<longrightarrow> entry_covered E s d' p' e)"
        if e: "store_inv E d" "agree E s d"
          "(if is_tree e then fetch_walk E (Some s) n (te_hash e) p else readC (\<lambda>d. need_entry d e p)) d = (d', Inr p')" for e p d d' p'
      proof (cases "is_tree e")
        case True
        then have "set (entry_adds e @ entry_pushes e) = {(KTree, te_hash e)}" if "plain_entry e"
          using that by (cases "te_sidecar e") (auto simp: entry_adds_def entry_pushes_def is_tree_def plain_entry_def neq_Nil_conv)
        with Suc.IH [OF e(1,2)] e(3) True show ?thesis by (simp add: entry_covered_def)
      qed (use e walk_entry in auto)
    qed (use gainsD [OF g1(1)] gains_agree [OF g1(1) Suc.prems(2)] in auto)
    have "covered E d' p' m" if ok: "good E s (KTree, th)" and m: "reaches E s (KTree, th) m" "held E s m" for m
    proof (cases "m = (KTree, th)")
      case True
      have "held E d1 (KTree, th)" using b Some by (simp add: held_def)
      then have "held E d' (KTree, th)" using fold gains_held by blast
      with True show ?thesis by simp
    next
      case False
      with reaches_cases [OF m(1)] obtain r where r: "r \<in> set (object_refs E s (KTree, th))" "reaches E s r m" by blast
      then obtain v where v: "read_tree E s th = Inr (Some v)" "r \<in> set (concat (map entry_adds (tree_entries v)) @ concat (map entry_pushes (tree_entries v)))"
        by (auto simp: object_refs_def bindE_def split: sum.splits option.splits)
      then obtain bs where bs: "store_read E s (str ''trees'') th = Inr (Some bs)" "deserialize_tree bs = Inr v"
        by (auto simp: read_defs load_def bindE_eq_Inr split: option.splits)
      have "bs = data" using b Some bs(1) gains_agree [OF g1(1) Suc.prems(2)] by (auto simp: agree_def)
      with bs t have "v = t" by simp
      with v(2) obtain e where e: "e \<in> set (tree_entries t)" "r \<in> set (entry_adds e @ entry_pushes e)" by auto
      have "plain_entry e" using ok v(1) e(1) \<open>v = t\<close> reaches_refl unfolding plain_def by blast
      moreover have "good E s (KTree, te_hash e)" if "is_tree e"
      proof (rule good_ref [OF ok])
        show "(KTree, te_hash e) \<in> set (object_refs E s (KTree, th))"
          using v(1) \<open>v = t\<close> e(1) that by (force simp: object_refs_def entry_pushes_def is_tree_def)
      qed
      ultimately have "entry_covered E s d' p' e" using fold e(1) by blast
      with e(2) r(2) m(2) show ?thesis unfolding entry_covered_def by blast
    qed
    with fold gains_trans [OF g1(1)] other_types_trans [OF g1(2)] show ?thesis by blast
  qed
qed simp

text \<open>The rows of the manifests that are here are here, as far as the server has them.\<close>

definition rows_here :: "env \<Rightarrow> disk \<Rightarrow> disk \<Rightarrow> bool" where
  "rows_here E s d \<longleftrightarrow>
     (\<forall>h m. read_manifest E d h = Inr (Some m) \<longrightarrow> (\<forall>e \<in> set (entries m). held E s (KRow, row_hash e) \<longrightarrow> held E d (KRow, row_hash e)))"

lemma rows_here_frame:
  assumes "rows_here E s d" "gains E s d d'" "\<forall>h. store_read E d' (str ''manifests'') h = store_read E d (str ''manifests'') h"
  shows "rows_here E s d'"
proof -
  have "read_manifest E d' h = read_manifest E d h" for h using assms(3) by (simp add: read_defs load_def)
  with assms(1) gains_held [OF assms(2)] show ?thesis unfolding rows_here_def by auto
qed

lemma fetch_rows:
  assumes "store_inv E d" "foldE (fetch_row d) es acc = Inr acc'"
  shows "set acc \<subseteq> set acc' \<and> (\<forall>e \<in> set es. held E d (KRow, row_hash e) \<or> row_hash e \<in> set acc')"
  using assms(2)
proof (induction es arbitrary: acc)
  case (Cons e es)
  then obtain a where a: "fetch_row d e acc = Inr a" "foldE (fetch_row d) es a = Inr acc'" by (auto simp: bindE_eq_Inr)
  have "set acc \<subseteq> set a \<and> (held E d (KRow, row_hash e) \<or> row_hash e \<in> set a)"
  proof (cases "row_hash e \<in> set acc")
    case False
    with a(1) have "missing_here d ''rows'' (row_hash e) acc = Inr a" by (simp add: fetch_row_def)
    from missing_here_held [OF assms(1) this, of KRow] show ?thesis by simp
  qed (use a(1) in \<open>simp add: fetch_row_def\<close>)
  with Cons.IH [OF a(2)] show ?case by auto
qed simp

lemma missing_rows_covers:
  assumes "store_inv E d" "missing_rows E d mhs = Inr rows" "h \<in> set mhs" "read_manifest E d h = Inr (Some m)" "e \<in> set (entries m)"
  shows "held E d (KRow, row_hash e) \<or> row_hash e \<in> set rows"
proof -
  let ?f = "\<lambda>mh acc. bindE (read_manifest E d mh) (\<lambda>x. case x of None \<Rightarrow> Inr acc | Some m \<Rightarrow> foldE (fetch_row d) (entries m) acc)"
  have "set acc \<subseteq> set acc' \<and> (h \<in> set mhs \<longrightarrow> held E d (KRow, row_hash e) \<or> row_hash e \<in> set acc')"
    if "foldE ?f mhs acc = Inr acc'" for mhs acc acc'
    using that
  proof (induction mhs arbitrary: acc)
    case (Cons mh mhs)
    then obtain x a where a: "read_manifest E d mh = Inr x" "(case x of None \<Rightarrow> Inr acc | Some m \<Rightarrow> foldE (fetch_row d) (entries m) acc) = Inr a"
      "foldE ?f mhs a = Inr acc'" by (auto simp: bindE_eq_Inr)
    from a(2) fetch_rows [OF assms(1)] have sub: "set acc \<subseteq> set a" by (cases x) auto
    have "held E d (KRow, row_hash e) \<or> row_hash e \<in> set a" if "h = mh"
      using a(1,2) that assms(4,5) fetch_rows [OF assms(1), of "entries m" acc a] by auto
    with sub Cons.IH [OF a(3)] show ?case by auto
  qed simp
  from this [of mhs "[]" rows] assms(2,3) show ?thesis by (simp add: missing_rows_def)
qed

text \<open>Only manifests refer to rows, and only commits to commits.\<close>

lemma refs_kinds:
  "r \<in> set (object_refs E s (k, h)) \<Longrightarrow> (fst r = KRow \<longrightarrow> k = KManifest) \<and> (fst r = KCommit \<longrightarrow> k = KCommit)"
  by (cases k) (auto simp: object_refs_def bindE_def entry_adds_def entry_pushes_def split: sum.splits option.splits if_splits)

lemma reaches_row:
  assumes "reaches E s n (KRow, r)" "fst n \<noteq> KRow"
  shows "\<exists>mh. reaches E s n (KManifest, mh) \<and> (KRow, r) \<in> set (object_refs E s (KManifest, mh))"
proof -
  from assms obtain x where x: "reaches E s n x" "(KRow, r) \<in> set (object_refs E s x)"
    unfolding reaches_def by (auto elim: rtranclE)
  with refs_kinds [of "(KRow, r)" E s "fst x" "snd x"] show ?thesis by (cases x) auto
qed

lemma reaches_no_commit: "reaches E s (KTree, th) m \<Longrightarrow> fst m \<noteq> KCommit"
proof -
  assume "reaches E s (KTree, th) m"
  then have "m \<in> {n. fst n \<noteq> KCommit}" by (rule reaches_closed) (auto dest: refs_kinds)
  then show ?thesis by simp
qed

lemma read_manifest_same:
  "store_read E d (str ''manifests'') h = store_read E d' (str ''manifests'') h \<Longrightarrow> read_manifest E d h = read_manifest E d' h"
  by (simp add: read_defs load_def)

lemma manifest_row:
  assumes "(KRow, r) \<in> set (object_refs E s (KManifest, mh))"
  shows "\<exists>b m e. store_read E s (str ''manifests'') mh = Inr (Some b) \<and> deserialize_manifest b = Inr m \<and> e \<in> set (entries m) \<and> row_hash e = r"
  using assms by (auto simp: object_refs_def bindE_def read_defs load_def split: sum.splits option.splits)

text \<open>A tree that was fetched is here with everything it leads to.\<close>

lemma fetch_tree_settles:
  assumes inv: "store_inv E s" "store_inv E d" and a: "agree E s d" and rows: "rows_here E s d" and ok: "good E s (KTree, th)"
    and run: "fetch_tree_objects E (Some s) th d = (d', Inr ())"
  shows "gains E s d d' \<and> rows_here E s d' \<and> settled E s d' (KTree, th) \<and>
    (\<forall>h. store_read E d' (str ''commits'') h = store_read E d (str ''commits'') h)"
proof -
  from run obtain d1 d2 d3 d4 p rs where st: "fetch_walk E (Some s) (rec_limit E) th no_pending d = (d1, Inr p)"
    "batch_download_objects E (Some s) ''manifests'' (pe_manifests p) d1 = (d2, Inr ())" "missing_rows E d2 (pe_manifests p) = Inr rs"
    "batch_download_objects E (Some s) ''rows'' rs d2 = (d3, Inr ())"
    "batch_download_objects E (Some s) ''sidecars'' (pe_sidecars p) d3 = (d4, Inr ())"
    "batch_download_objects E (Some s) ''blobs'' (pe_blobs p) d4 = (d', Inr ())"
    by (auto simp: fetch_tree_objects_def cmd_Inr)
  note w = fetch_walk_covers [OF inv a st(1)]
  then have g1: "gains E s d d1" by simp
  note m = batch_download_gains [OF inv(1) conjunct1 [OF gainsD [OF g1]] gains_agree [OF g1 a] st(2)]
  then have g2: "gains E s d d2" using gains_trans [OF g1] by blast
  note r = batch_download_gains [OF inv(1) conjunct1 [OF gainsD [OF g2]] gains_agree [OF g2 a] st(4)]
  then have g3: "gains E s d d3" using gains_trans [OF g2] by blast
  note sc = batch_download_gains [OF inv(1) conjunct1 [OF gainsD [OF g3]] gains_agree [OF g3 a] st(5)]
  then have g4: "gains E s d d4" using gains_trans [OF g3] by blast
  note b = batch_download_gains [OF inv(1) conjunct1 [OF gainsD [OF g4]] gains_agree [OF g4 a] st(6)]
  then have g: "gains E s d d'" using gains_trans [OF g4] by blast
  from b have u4: "gains E s d4 d'" by simp
  have u3: "gains E s d3 d'" by (rule gains_trans [OF conjunct1 [OF sc] u4])
  have u2: "gains E s d2 d'" by (rule gains_trans [OF conjunct1 [OF r] u3])
  have u1: "gains E s d1 d'" by (rule gains_trans [OF conjunct1 [OF m] u2])
  note up = u1 u2 u3 u4
  have commits: "store_read E d' (str ''commits'') h = store_read E d (str ''commits'') h" for h
    using w m r sc b by (simp add: other_types_def)
  have man: "read_manifest E d' h = read_manifest E d2 h" "h \<notin> set (pe_manifests p) \<Longrightarrow> read_manifest E d2 h = read_manifest E d h" for h
    using w m r sc b by (auto intro!: read_manifest_same simp: other_types_def)
  have rh: "rows_here E s d'"
    unfolding rows_here_def
  proof (intro allI impI ballI)
    fix h mf e
    assume mf: "read_manifest E d' h = Inr (Some mf)" "e \<in> set (entries mf)" "held E s (KRow, row_hash e)"
    show "held E d' (KRow, row_hash e)"
    proof (cases "h \<in> set (pe_manifests p)")
      case True
      with mf man missing_rows_covers [OF conjunct1 [OF gainsD [OF g2]] st(3)] have "held E d2 (KRow, row_hash e) \<or> row_hash e \<in> set rs" by simp
      moreover have "held E d3 (KRow, row_hash e)" if "row_hash e \<in> set rs" using r that mf(3) by (auto simp: held_def)
      ultimately show ?thesis using gains_held up by blast
    next
      case False
      with mf man have "read_manifest E d h = Inr (Some mf)" by simp
      with rows mf(2,3) have "held E d (KRow, row_hash e)" unfolding rows_here_def by blast
      then show ?thesis using gains_held [OF g] by blast
    qed
  qed
  have mh: "held E d' (KManifest, h)" if "reaches E s (KTree, th) (KManifest, h)" "held E s (KManifest, h)" for h
  proof -
    from w ok that have "covered E d1 p (KManifest, h)" by blast
    then have "held E d1 (KManifest, h) \<or> h \<in> set (pe_manifests p)" by simp
    moreover have "held E d2 (KManifest, h)" if "h \<in> set (pe_manifests p)" using m that \<open>held E s (KManifest, h)\<close> by (auto simp: held_def)
    ultimately show ?thesis using gains_held up by blast
  qed
  have "held E d' n" if n: "reaches E s (KTree, th) n" "held E s n" for n
  proof -
    obtain k h where kh: "n = (k, h)" by (cases n)
    from w ok n have c: "covered E d1 p n" by blast
    show ?thesis
    proof (cases k)
      case KCommit
      with reaches_no_commit [OF n(1)] kh show ?thesis by simp
    next
      case KTree
      with c kh gains_held up show ?thesis by auto
    next
      case KManifest
      with mh n kh show ?thesis by simp
    next
      case KRow
      with n kh have "reaches E s (KTree, th) (KRow, h)" by simp
      from reaches_row [OF this] obtain q where q: "reaches E s (KTree, th) (KManifest, q)" "(KRow, h) \<in> set (object_refs E s (KManifest, q))" by auto
      from manifest_row [OF q(2)] obtain bs mf e where mf: "store_read E s (str ''manifests'') q = Inr (Some bs)"
        "deserialize_manifest bs = Inr mf" "e \<in> set (entries mf)" "row_hash e = h" by blast
      with mh [OF q(1)] have "held E d' (KManifest, q)" by (simp add: held_def)
      with mf(1) gains_agree [OF g a] have "store_read E d' (str ''manifests'') q = Inr (Some bs)" by (auto simp: held_def agree_def)
      with mf(2) have "read_manifest E d' q = Inr (Some mf)" by (simp add: read_defs load_def)
      with rh mf(3,4) n(2) kh KRow show ?thesis unfolding rows_here_def by blast
    next
      case KSidecar
      have "held E d4 n" if "h \<in> set (pe_sidecars p)" using sc that n(2) kh KSidecar by (auto simp: held_def)
      with c kh KSidecar gains_held up show ?thesis by auto
    next
      case KBlob
      have "held E d' n" if "h \<in> set (pe_blobs p)" using b that n(2) kh KBlob by (auto simp: held_def)
      with c kh KBlob gains_held up show ?thesis by auto
    qed
  qed
  with g rh commits show ?thesis by (simp add: settled_def)
qed

section \<open>The history\<close>

text \<open>
  Every commit that is here is here with its tree and its parents, as far as the server has them; the
  parents in \<open>Q\<close> are still to come.
\<close>

definition frontier :: "env \<Rightarrow> disk \<Rightarrow> disk \<Rightarrow> pystr set \<Rightarrow> bool" where
  "frontier E s d Q \<longleftrightarrow>
     (\<forall>c. held E d (KCommit, c) \<longrightarrow> (\<forall>r \<in> set (object_refs E s (KCommit, c)).
        if fst r = KCommit then held E s r \<longrightarrow> held E d r \<or> snd r \<in> Q else settled E s d r))"

definition whole :: "env \<Rightarrow> disk \<Rightarrow> disk \<Rightarrow> bool" where
  "whole E s d \<longleftrightarrow> frontier E s d {} \<and> rows_here E s d"

lemma frontier_mono: "frontier E s d Q \<Longrightarrow> Q \<subseteq> Q' \<Longrightarrow> frontier E s d Q'"
  unfolding frontier_def by (smt (verit) subsetD)

lemma frontier_drop:
  assumes "frontier E s d (insert c Q)" "held E s (KCommit, c) \<longrightarrow> held E d (KCommit, c)"
  shows "frontier E s d Q"
  unfolding frontier_def
proof (intro allI impI ballI)
  fix x r
  assume x: "held E d (KCommit, x)" "r \<in> set (object_refs E s (KCommit, x))"
  with assms(1) have "if fst r = KCommit then held E s r \<longrightarrow> held E d r \<or> snd r \<in> insert c Q else settled E s d r"
    unfolding frontier_def by blast
  then show "if fst r = KCommit then held E s r \<longrightarrow> held E d r \<or> snd r \<in> Q else settled E s d r"
    using assms(2) by (cases r) auto
qed

lemma frontier_grow:
  assumes "frontier E s d Q" "gains E s d d'" "\<forall>c. held E d' (KCommit, c) \<longrightarrow> held E d (KCommit, c) \<or> c = new" "Q \<subseteq> Q'"
    and "\<forall>r \<in> set (object_refs E s (KCommit, new)). if fst r = KCommit then snd r \<in> Q' else settled E s d' r"
  shows "frontier E s d' Q'"
  unfolding frontier_def
proof (intro allI impI ballI)
  fix x r
  assume x: "held E d' (KCommit, x)" "r \<in> set (object_refs E s (KCommit, x))"
  show "if fst r = KCommit then held E s r \<longrightarrow> held E d' r \<or> snd r \<in> Q' else settled E s d' r"
  proof (cases "x = new")
    case True
    with x(2) assms(5) have "if fst r = KCommit then snd r \<in> Q' else settled E s d' r" by blast
    then show ?thesis by (simp split: if_splits)
  next
    case False
    with x(1) assms(3) have "held E d (KCommit, x)" by blast
    with assms(1) x(2) have "if fst r = KCommit then held E s r \<longrightarrow> held E d r \<or> snd r \<in> Q else settled E s d r"
      unfolding frontier_def by blast
    then show ?thesis using gains_held [OF assms(2)] settled_mono [OF _ assms(2)] assms(4) by (cases r) (auto split: if_splits)
  qed
qed

lemma whole_settled:
  assumes "whole E s d" "held E s (KCommit, r) \<longrightarrow> held E d (KCommit, r)"
  shows "settled E s d (KCommit, r)"
proof -
  let ?W = "{n. (held E s n \<longrightarrow> held E d n) \<and> (fst n \<noteq> KCommit \<longrightarrow> settled E s d n)}"
  have step: "y \<in> ?W" if "x \<in> ?W" "y \<in> set (object_refs E s x)" for x y
  proof (cases "fst x = KCommit")
    case True
    have "held E s x"
      using that(2) True by (cases x) (auto simp: object_refs_def bindE_def read_defs load_def held_def split: sum.splits option.splits)
    with that(1) have "held E d x" by simp
    moreover obtain h where "x = (KCommit, h)" using True by (cases x) auto
    moreover have "frontier E s d {}" using assms(1) by (simp add: whole_def)
    ultimately have "if fst y = KCommit then held E s y \<longrightarrow> held E d y \<or> snd y \<in> {} else settled E s d y"
      using that(2) unfolding frontier_def by blast
    then show ?thesis using settled_here [of E s d y] by (simp split: if_splits)
  next
    case False
    with that(1) have "settled E s d x" by simp
    with that(2) have "settled E s d y" unfolding settled_def by (meson reaches_ref reaches_refl reaches_trans)
    then show ?thesis using settled_here by blast
  qed
  have "m \<in> ?W" if "reaches E s (KCommit, r) m" for m
    by (rule reaches_closed [OF that _ step]) (use assms(2) in simp)
  then show ?thesis by (simp add: settled_def)
qed

lemma store_commit:
  assumes inv: "store_inv E s" "store_inv E d" and a: "agree E s d"
    and x: "client_download_object E (Some s) (str ''commits'') c = Inr (Some data)" and w: "store_write E d (str ''commits'') data = Inr (h, d1)"
  shows "store_read E s (str ''commits'') c = Inr (Some data) \<and> gains E s d d1 \<and> held E d1 (KCommit, c) \<and>
    (\<forall>ty' h'. ty' \<noteq> str ''commits'' \<or> h' \<noteq> c \<longrightarrow> store_read E d1 ty' h' = store_read E d ty' h')"
proof -
  from client_download [OF x] have sd: "store_read E s (str ''commits'') c = Inr (Some data)" by simp
  have "storeC E ''commits'' data d = (d1, Inr ())" using w by (simp add: storeC_def stepC_def)
  from storeC_gains [OF inv a sd this] sd show ?thesis by (simp add: held_def)
qed

lemma commit_refs:
  assumes "store_read E s (str ''commits'') c = Inr (Some data)" "deserialize_commit data = Inr co"
  shows "object_refs E s (KCommit, c) = (KTree, tree_hash co) # map (Pair KCommit) (parent_hashes co)"
  using assms by (simp add: object_refs_def read_defs load_def)

lemma fetch_loop_whole:
  assumes "store_inv E s" "store_inv E d" "agree E s d" "rows_here E s d" "\<forall>c \<in> set queue. good E s (KCommit, c)"
    "frontier E s d (set queue)" "\<forall>c \<in> visited. held E s (KCommit, c) \<longrightarrow> held E d (KCommit, c)"
    "\<forall>c. stop_at = Some c \<longrightarrow> held E s (KCommit, c) \<longrightarrow> held E d (KCommit, c)"
    "fetch_loop E (Some s) stop_at queue visited d = (d', Inr ())"
  shows "gains E s d d' \<and> whole E s d' \<and> (\<forall>c \<in> set queue. held E s (KCommit, c) \<longrightarrow> held E d' (KCommit, c))"
  using assms
proof (induction E "Some s" stop_at queue visited d rule: fetch_loop.induct)
  case (1 E stop_at visited d)
  then show ?case by (simp add: whole_def)
next
  case (2 E stop_at chash queue visited d)
  show ?case
  proof (cases "chash \<in> visited \<or> Some chash = stop_at")
    case True
    with "2.prems"(7,8) have "held E s (KCommit, chash) \<longrightarrow> held E d (KCommit, chash)" by auto
    note this
    moreover from this have "frontier E s d (set queue)" using frontier_drop [of E s d chash "set queue"] "2.prems"(6) by simp
    moreover have "fetch_loop E (Some s) stop_at queue visited d = (d', Inr ())" using "2.prems"(9) True by simp
    ultimately have "gains E s d d' \<and> whole E s d' \<and> (\<forall>c \<in> set queue. held E s (KCommit, c) \<longrightarrow> held E d' (KCommit, c))"
      using "2.hyps"(1) [OF True "2.prems"(1-4) _ _ "2.prems"(7,8)] "2.prems"(5) by simp
    with \<open>held E s (KCommit, chash) \<longrightarrow> held E d (KCommit, chash)\<close> gains_held show ?thesis by auto
  next
    case False
    note old = this
    have drop: "frontier E s d (set queue)" "\<forall>c \<in> insert chash visited. held E s (KCommit, c) \<longrightarrow> held E d (KCommit, c)"
      if "held E s (KCommit, chash) \<longrightarrow> held E d (KCommit, chash)"
      using "2.prems"(6,7) frontier_drop [OF _ that] that by auto
    obtain b where b: "store_exists d (str ''commits'') chash = Inr b"
      using "2.prems"(9) old by (cases "store_exists d (str ''commits'') chash") auto
    show ?thesis
    proof (cases b)
      case True
      with exists_held [OF "2.prems"(2), of KCommit chash True] b have "held E s (KCommit, chash) \<longrightarrow> held E d (KCommit, chash)" by simp
      note h = this
      have "fetch_loop E (Some s) stop_at queue (insert chash visited) d = (d', Inr ())" using "2.prems"(9) old b True by simp
      from "2.hyps"(2) [OF old b _ "2.prems"(1-4) _ drop [OF h] "2.prems"(8) this] True "2.prems"(5) h gains_held [of E s d d' "(KCommit, chash)"]
      show ?thesis by simp
    next
      case False
      obtain x where x: "client_download_object E (Some s) (str ''commits'') chash = Inr x"
        using "2.prems"(9) old b False by (cases "client_download_object E (Some s) (str ''commits'') chash") auto
      show ?thesis
      proof (cases x)
        case None
        with client_download [OF x] have "held E s (KCommit, chash) \<longrightarrow> held E d (KCommit, chash)"
          by (auto simp: valid_obj_types_def held_def)
        note h = this
        have "fetch_loop E (Some s) stop_at queue (insert chash visited) d = (d', Inr ())"
          using "2.prems"(9) old b False x None by simp
        from "2.hyps"(3) [OF old b _ x None "2.prems"(1-4) _ drop [OF h] "2.prems"(8) this] False "2.prems"(5) h gains_held [of E s d d' "(KCommit, chash)"]
        show ?thesis by simp
      next
        case (Some data)
        obtain h d1 co d2 where st: "store_write E d (str ''commits'') data = Inr (h, d1)" "deserialize_commit data = Inr co"
          "fetch_tree_objects E (Some s) (tree_hash co) d1 = (d2, Inr ())"
          "fetch_loop E (Some s) stop_at (rev (parent_hashes co) @ queue) (insert chash visited) d2 = (d', Inr ())"
          using "2.prems"(9) old b False x Some by (auto split: sum.splits prod.splits)
        note c = store_commit [OF "2.prems"(1-3) x [unfolded Some] st(1)]
        then have g1: "gains E s d d1" by simp
        note refs = commit_refs [OF conjunct1 [OF c] st(2)]
        have rows1: "rows_here E s d1"
          by (rule rows_here_frame [OF "2.prems"(4) g1]) (use c in simp)
        have gc: "good E s (KCommit, chash)" using "2.prems"(5) by simp
        have gt: "good E s (KTree, tree_hash co)" using good_ref [OF gc] refs by simp
        note t = fetch_tree_settles [OF "2.prems"(1) conjunct1 [OF gainsD [OF g1]] gains_agree [OF g1 "2.prems"(3)] rows1 gt st(3)]
        then have g12: "gains E s d1 d2" by simp
        have g2: "gains E s d d2" by (rule gains_trans [OF g1 g12])
        have hc: "held E d2 (KCommit, chash)" using c gains_held [OF g12] by blast
        have "held E d2 (KCommit, k) \<longrightarrow> held E d (KCommit, k) \<or> k = chash" for k using c t by (auto simp: held_def)
        then have fr: "frontier E s d2 (set (chash # rev (parent_hashes co) @ queue))"
          by (intro frontier_grow [OF "2.prems"(6) g2]) (use refs t in auto)
        have fr': "frontier E s d2 (set (rev (parent_hashes co) @ queue))"
          using frontier_drop [of E s d2 chash] fr hc by simp
        have gq: "\<forall>k \<in> set (rev (parent_hashes co) @ queue). good E s (KCommit, k)"
          using "2.prems"(5) good_ref [OF gc] refs by auto
        have vs: "\<forall>k \<in> insert chash visited. held E s (KCommit, k) \<longrightarrow> held E d2 (KCommit, k)"
          using "2.prems"(7) hc gains_held [OF g2] by blast
        have sp: "\<forall>k. stop_at = Some k \<longrightarrow> held E s (KCommit, k) \<longrightarrow> held E d2 (KCommit, k)"
          using "2.prems"(8) gains_held [OF g2] by blast
        have "gains E s d2 d' \<and> whole E s d' \<and>
            (\<forall>c \<in> set (rev (parent_hashes co) @ queue). held E s (KCommit, c) \<longrightarrow> held E d' (KCommit, c))"
          using False by (intro "2.hyps"(4) [OF old b _ x Some st(1) refl st(2) st(3) [symmetric] refl "2.prems"(1)
              conjunct1 [OF gainsD [OF g2]] gains_agree [OF g2 "2.prems"(3)] _ gq fr' vs sp st(4)]) (use t in simp_all)
        then show ?thesis using gains_trans [OF g2] gains_held hc by auto
      qed
    qed
  qed
qed

lemma fetch_settles:
  assumes "store_inv E s" "store_inv E d" "agree E s d" "whole E s d" "good E s (KCommit, r)"
    and "\<forall>c. stop_at = Some c \<longrightarrow> held E s (KCommit, c) \<longrightarrow> held E d (KCommit, c)"
    and "fetch_objects_since E (Some s) r stop_at d = (d', Inr ())"
  shows "gains E s d d' \<and> whole E s d' \<and> settled E s d' (KCommit, r)"
proof -
  have fr: "frontier E s d {r}" "rows_here E s d" using assms(4) frontier_mono [of E s d "{}" "{r}"] by (simp_all add: whole_def)
  have f: "gains E s d d' \<and> whole E s d' \<and> (\<forall>c \<in> set [r]. held E s (KCommit, c) \<longrightarrow> held E d' (KCommit, c))"
    by (rule fetch_loop_whole [OF assms(1-3) fr(2) _ _ _ assms(6)]) (use assms(5,7) fr(1) in \<open>auto simp: fetch_objects_since_def\<close>)
  then show ?thesis using whole_settled [of E s d' r] by simp
qed

section \<open>Properties\<close>


text \<open>A commit that is here is never looked at again, whether or not its tree is here.\<close>

lemma stored_commit_skipped:
  "store_exists d (str ''commits'') r = Inr True \<Longrightarrow> fetch_objects_since E srv r stop_at d = (d, Inr ())"
  by (simp add: fetch_objects_since_def)

section \<open>A small server\<close>

lemma absent_exists:
  "store_inv E d \<Longrightarrow> hash_re h \<Longrightarrow> \<not> held E d (k, h) \<Longrightarrow> store_exists d (dir_name k) h = Inr False"
proof -
  assume h: "store_inv E d" "hash_re h" "\<not> held E d (k, h)"
  then obtain b where "store_exists d (dir_name k) h = Inr b" by (auto simp: store_exists_def object_path_def)
  with exists_held [OF h(1) this] h(3) show ?thesis by simp
qed

lemma download_present:
  assumes "store_read E s (str ty) h = Inr (Some b)" "str ty \<in> set valid_obj_types"
  shows "client_download_object E (Some s) (str ty) h = Inr (Some b)"
    "batch_download_objects E (Some s) ty [h] = storeC E ty b"
  using assms
  by (auto simp: client_download_object_def server_download_object_def batch_download_objects_def download_batch_def batch_download_def
      repo_store_def validate_obj_type_def download_step_def max_batch_download_def b64_roundtrip AList.update.simps
      boundaryC_def bindC_def seqC_def split: prod.split sum.split)

lemma batch_none: "batch_download_objects E srv ty [] d = (d, Inr ())"
  by (simp add: batch_download_objects_def)

lemma store_run:
  assumes "store_inv E s" "store_inv E d" "agree E s d" "store_read E s (str ty) h = Inr (Some b)"
  shows "\<exists>d'. storeC E ty b d = (d', Inr ()) \<and> store_inv E d' \<and> agree E s d' \<and> store_read E d' (str ty) h = Inr (Some b) \<and>
    (\<forall>ty' h'. ty' \<noteq> str ty \<or> h' \<noteq> h \<longrightarrow> store_read E d' ty' h' = store_read E d ty' h')"
proof -
  obtain d' x where run: "storeC E ty b d = (d', x)" by (cases "storeC E ty b d")
  from storeC_gains [OF assms run] gains_agree [OF _ assms(3)] show ?thesis by (auto simp: run gains_def)
qed

definition data_manifest :: pystr where
  "data_manifest = demo_digest (serialize_manifest demo_manifest)"

definition data_row :: pystr where
  "data_row = demo_digest [123, 125]"

definition data_nodes :: "node set" where
  "data_nodes = {(KCommit, data_head), (KTree, tree_hash data_commit), (KManifest, data_manifest), (KRow, data_row)}"

lemma data_tree: "read_tree demo_env data_disk (tree_hash data_commit) = Inr (Some (file_tree data_entry))"
proof -
  have "valid_tree (file_tree data_entry)" by (simp add: valid_tree_def file_tree_def data_entry_def demo_digest_valid)
  from file_read_tree [OF demo_rows_inv demo_rows_stored(2) this] show ?thesis by (simp add: data_disk_def data_commit_def)
qed

lemma data_entry_simps [simp]:
  "te_type data_entry = str ''manifest''" "te_hash data_entry = data_manifest" "te_sidecar data_entry = None" "tree_entries (file_tree e) = [e]"
  by (simp_all add: data_entry_def data_manifest_def file_tree_def)

lemma data_visit:
  "visit demo_env data_disk (KCommit, data_head) = Inr ([], [(KTree, tree_hash data_commit)])"
  "visit demo_env data_disk (KTree, tree_hash data_commit) = Inr ([], [(KManifest, data_manifest)])"
  "visit demo_env data_disk (KManifest, data_manifest) = Inr ([(KRow, data_row)], [])"
  "visit demo_env data_disk (KRow, data_row) = Inr ([], [])"
  using data_read(2)
  by (simp_all add: data_read_commit data_tree data_entries entry_adds_def entry_pushes_def data_manifest_def data_row_def)
     (simp_all add: data_commit_def file_commit_def)

lemma data_reaches:
  assumes "reaches demo_env data_disk (KCommit, data_head) n"
  shows "n \<in> data_nodes"
  by (rule reaches_closed [OF assms]) (auto simp: data_nodes_def object_refs_def data_visit simp del: visit.simps)

lemma data_good: "good demo_env data_disk (KCommit, data_head)"
proof
  show "graph_ok demo_env data_disk (KCommit, data_head)"
    unfolding graph_ok_def using data_reaches data_visit by (fastforce simp: data_nodes_def simp del: visit.simps)
  have "th = tree_hash data_commit" if "reaches demo_env data_disk (KCommit, data_head) (KTree, th)" for th
    using data_reaches [OF that] by (simp add: data_nodes_def)
  then show "plain demo_env data_disk (KCommit, data_head)"
    unfolding plain_def by (metis Inr_inject data_entry_simps(1,4) data_tree option.inject plain_entry_def set_ConsD empty_iff empty_set)
qed

lemma data_fetch: "\<exists>d. fetch_objects_since demo_env (Some data_disk) data_head None [] = (d, Inr ())"
proof -
  let ?s = data_disk and ?E = demo_env
  have s: "store_inv ?E ?s" by (rule data_disk_inv)
  have e: "store_inv ?E []" "agree ?E ?s []" "store_read ?E [] ty h \<noteq> Inr (Some b)" for ty h b
    by (simp_all add: agree_def store_read_Some store_inv_def demo_env_ok)
  have hs: "hash_re data_head" "hash_re (tree_hash data_commit)" "hash_re data_manifest" "hash_re data_row"
    by (simp_all add: data_head_def file_head_def data_commit_def file_commit_def data_manifest_def data_row_def demo_digest_valid)
  obtain cb where c: "store_read ?E ?s (str ''commits'') data_head = Inr (Some cb)" "deserialize_commit cb = Inr data_commit"
    using data_read_commit by (auto simp: read_defs load_Some)
  obtain tb where t: "store_read ?E ?s (str ''trees'') (tree_hash data_commit) = Inr (Some tb)" "deserialize_tree tb = Inr (file_tree data_entry)"
    using data_tree by (auto simp: read_defs load_Some)
  obtain mb where m: "store_read ?E ?s (str ''manifests'') data_manifest = Inr (Some mb)" "deserialize_manifest mb = Inr demo_manifest"
    using data_read(2) by (auto simp: read_defs load_Some data_manifest_def)
  have r: "store_read ?E ?s (str ''rows'') data_row = Inr (Some [123, 125])" using data_read(1) by (simp add: data_row_def)
  obtain d1 where d1: "storeC ?E ''commits'' cb [] = (d1, Inr ())" "store_inv ?E d1" "agree ?E ?s d1"
    "\<forall>ty' h'. ty' \<noteq> str ''commits'' \<or> h' \<noteq> data_head \<longrightarrow> store_read ?E d1 ty' h' = store_read ?E [] ty' h'"
    using store_run [OF s e(1,2) c(1)] by blast
  obtain d2 where d2: "storeC ?E ''trees'' tb d1 = (d2, Inr ())" "store_inv ?E d2" "agree ?E ?s d2"
    "\<forall>ty' h'. ty' \<noteq> str ''trees'' \<or> h' \<noteq> tree_hash data_commit \<longrightarrow> store_read ?E d2 ty' h' = store_read ?E d1 ty' h'"
    using store_run [OF s d1(2,3) t(1)] by blast
  obtain d3 where d3: "storeC ?E ''manifests'' mb d2 = (d3, Inr ())" "store_inv ?E d3" "agree ?E ?s d3"
    "store_read ?E d3 (str ''manifests'') data_manifest = Inr (Some mb)"
    "\<forall>ty' h'. ty' \<noteq> str ''manifests'' \<or> h' \<noteq> data_manifest \<longrightarrow> store_read ?E d3 ty' h' = store_read ?E d2 ty' h'"
    using store_run [OF s d2(2,3) m(1)] by blast
  obtain d4 where d4: "storeC ?E ''rows'' [123, 125] d3 = (d4, Inr ())"
    using store_run [OF s d3(2,3) r] by blast
  have x: "store_exists [] (str ''commits'') data_head = Inr False" "store_exists d1 (str ''trees'') (tree_hash data_commit) = Inr False"
    "store_exists d2 (str ''manifests'') data_manifest = Inr False" "store_exists d3 (str ''rows'') data_row = Inr False"
    using absent_exists [of ?E "[]" data_head KCommit] absent_exists [of ?E d1 "tree_hash data_commit" KTree]
      absent_exists [of ?E d2 data_manifest KManifest] absent_exists [of ?E d3 data_row KRow] e hs d1(2,4) d2(2,4) d3(2,5)
    by (simp_all add: held_def)
  have "tb \<noteq> []" using t(2) by auto
  then have "tree_bytesC ?E (Some ?s) (tree_hash data_commit) d1 = (d2, Inr (Some tb))"
    using x(2) d2(1) download_present(1) [OF t(1)] by (simp add: tree_bytesC_def downloadC_def boundaryC_def valid_obj_types_def bindC_def seqC_def)
  then have "fetch_walk ?E (Some ?s) (Suc n) (tree_hash data_commit) no_pending d1 = (d2, Inr \<lparr>pe_manifests = [data_manifest], pe_sidecars = [], pe_blobs = []\<rparr>)" for n
    using t(2) x(3) by (simp add: bindC_def is_tree_def need_entry_def missing_here_def no_pending_def str_def)
  from this [of 49] have w: "fetch_walk ?E (Some ?s) 50 (tree_hash data_commit) no_pending d1 =
    (d2, Inr \<lparr>pe_manifests = [data_manifest], pe_sidecars = [], pe_blobs = []\<rparr>)" by simp
  have "missing_rows ?E d3 [data_manifest] = Inr [data_row]"
    using d3(4) m(2) x(4) by (simp add: missing_rows_def read_defs load_def data_entries fetch_row_def missing_here_def flip: data_row_def)
  then have "fetch_tree_objects ?E (Some ?s) (tree_hash data_commit) d1 = (d4, Inr ())"
    using w d3(1) d4 download_present(2) [OF m(1)] download_present(2) [OF r]
    by (simp add: fetch_tree_objects_def seqC_def valid_obj_types_def batch_none)
  moreover have "\<exists>h. store_write ?E [] (str ''commits'') cb = Inr (h, d1)"
    using d1(1) by (auto simp: storeC_def stepC_Inr bindE_eq_Inr)
  moreover have "parent_hashes data_commit = []" by (simp add: data_commit_def file_commit_def)
  ultimately show ?thesis
    using x(1) c(2) download_present(1) [OF c(1)] by (auto simp: fetch_objects_since_def valid_obj_types_def)
qed


end
