(* ===== verification/Dit_History.thy ===== *)
theory Dit_History
  imports Dit_Combine Dit_Checkout
begin

text \<open>
  What every command leaves in place: whatever a user types, and whether or not it succeeds, no object is
  changed or removed, and what is stored stays sound.
\<close>

section \<open>Frames of commands\<close>

text \<open>A relation between the states before and after, which the parts of a command respect.\<close>

locale kept =
  fixes R :: "'s \<Rightarrow> 's \<Rightarrow> bool"
  assumes R_refl: "R s s" and R_trans: "R s t \<Longrightarrow> R t u \<Longrightarrow> R s u"
begin

definition keeps :: "('s, 'a) cmd \<Rightarrow> bool" where
  "keeps m \<longleftrightarrow> (\<forall>s s' r. m s = (s', r) \<longrightarrow> R s s')"

lemma keepsD: "keeps m \<Longrightarrow> m s = (s', r) \<Longrightarrow> R s s'"
  by (simp add: keeps_def)

lemma keeps_simple [intro!]: "keeps (ret x)" "keeps (exit_with e)" "keeps (readC f)" "keeps (needC b)"
  by (auto simp: keeps_def R_refl)

lemma keeps_do: "(\<And>s. R s (f s)) \<Longrightarrow> keeps (doC f)"
  by (simp add: keeps_def)

lemma keeps_step: "(\<And>s s' x. f s = Inr (s', x) \<Longrightarrow> R s s') \<Longrightarrow> keeps (stepC f)"
  by (auto simp: keeps_def stepC_def R_refl split: sum.splits)

lemma keeps_bind [intro!]: "keeps m \<Longrightarrow> (\<And>x. keeps (f x)) \<Longrightarrow> keeps (bindC m f)"
proof -
  assume m: "keeps m" and f: "\<And>x. keeps (f x)"
  have "R s s'" if "bindC m f s = (s', r)" for s s' r
  proof -
    obtain t x where t: "m s = (t, x)" by (cases "m s")
    show ?thesis using keepsD [OF m t] R_trans keepsD [OF f] that t by (cases x) auto
  qed
  then show ?thesis by (simp add: keeps_def)
qed

lemma keeps_seq [intro!]: "keeps m \<Longrightarrow> keeps n \<Longrightarrow> keeps (seqC m n)"
  unfolding seqC_def by blast

lemma keeps_for [intro!]: "(\<And>x. x \<in> set xs \<Longrightarrow> keeps (f x)) \<Longrightarrow> keeps (forC f xs)"
  by (induction xs) auto

lemma keeps_if [intro!]: "(b \<Longrightarrow> keeps m) \<Longrightarrow> (\<not> b \<Longrightarrow> keeps n) \<Longrightarrow> keeps (if b then m else n)"
  by simp

lemma keeps_option [intro!]: "(x = None \<Longrightarrow> keeps m) \<Longrightarrow> (\<And>y. x = Some y \<Longrightarrow> keeps (f y)) \<Longrightarrow> keeps (case x of None \<Rightarrow> m | Some y \<Rightarrow> f y)"
  by (cases x) auto

lemma keeps_pair [intro!]: "(\<And>a b. x = (a, b) \<Longrightarrow> keeps (f a b)) \<Longrightarrow> keeps (case x of (a, b) \<Rightarrow> f a b)"
  by (cases x) auto

lemma keeps_let [intro!]: "(\<And>x. x = v \<Longrightarrow> keeps (f x)) \<Longrightarrow> keeps (let x = v in f x)"
  by simp

end

section \<open>Objects only grow\<close>

lemma grows_write_each [grow_intros]: "write_each E d ty items = Inr (hs, d') \<Longrightarrow> grows E d d'"
  by (induction E d ty items arbitrary: hs d' rule: write_each.induct)
     (auto simp: bindE_eq_Inr grows_refl dest: grows_write intro: grows_trans)

lemma grows_batch [grow_intros]: "write_batch E d ty items = Inr (hs, d') \<Longrightarrow> grows E d d'"
  unfolding grows_def
proof
  assume w: "write_batch E d ty items = Inr (hs, d')" and inv: "store_inv E d"
  then have "env_ok E" by auto
  with w grows_write_each have "grows E d d'" by (simp add: write_batch_each)
  with inv show "store_inv E d' \<and> map_of d \<subseteq>\<^sub>m map_of d'" by (simp add: grows_def)
qed

lemma grows_flush: "stream_flush E st = Inr st' \<Longrightarrow> grows E (fst st) (fst st')"
  by (auto simp: stream_flush_def bindE_eq_Inr split: prod.splits dest: grows_batch)

lemma grows_stream [grow_intros]:
  assumes "build_manifest_streaming E d content = Inr (m, d')"
  shows "grows E d d'"
proof -
  have step: "grows E (fst st) (fst st')" if "stream_step E n row st = Inr st'" for n row st st'
    using that by (auto simp: stream_step_def bindE_eq_Inr Let_def grows_refl split: prod.splits if_splits dest: grows_flush)
  from assms obtain rows st st' where st: "foldE (stream_step E batch_size) rows (d, [], [], []) = Inr st"
    "(if fst (snd (snd st)) \<noteq> [] then stream_flush E st else Inr st) = Inr st'" "d' = fst st'"
    by (auto simp: build_manifest_streaming_def bindE_eq_Inr split: prod.splits)
  have "grows E d (fst st)"
    by (rule foldE_invariant [OF st(1), where P = "\<lambda>st. grows E d (fst st)"]) (auto intro: grows_refl grows_trans step)
  moreover have "grows E (fst st) (fst st')" using st(2) grows_flush by (auto simp: grows_refl split: if_splits)
  ultimately show ?thesis using st(3) grows_trans by simp
qed

lemma grows_tree [grow_intros]:
  assumes "build_nested_tree E staged d = Inr (h, d')"
  shows "grows E d d'"
  unfolding grows_def
proof
  assume inv: "store_inv E d"
  then have ok: "env_ok E" by auto
  from assms obtain bs where "d' = fold (put E ''trees'') bs d"
    by (auto simp: build_nested_tree_def build_subtree_blobs [OF ok] bindE_eq_Inr)
  then show "store_inv E d' \<and> map_of d \<subseteq>\<^sub>m map_of d'" using puts_inv [OF inv] puts_mono by simp
qed

definition grown :: "env \<Rightarrow> repo \<Rightarrow> repo \<Rightarrow> bool" where
  "grown E g g' \<longleftrightarrow> grows E (g_objects g) (g_objects g')"

interpretation grow: kept "grown E" for E
  by unfold_locales (auto simp: grown_def intro: grows_refl grows_trans)

lemma grown_same: "g_objects g' = g_objects g \<Longrightarrow> grown E g g'"
  by (simp add: grown_def grows_refl)

lemma keeps_fields [intro!]:
  "grow.keeps E (indexC f1)" "grow.keeps E (statsC f2)" "grow.keeps E (refsC f3)" "grow.keeps E (set_branchC b h)" "grow.keeps E headC"
  "grow.keeps E current_branchC" "grow.keeps E (commitC E h)" "grow.keeps E (flatC E th)" "grow.keeps E (authorC W)"
  "grow.keeps E (set_headC h)" "grow.keeps E (remove_file n)" "grow.keeps E (remove_data_file fp)"
  unfolding indexC_def statsC_def refsC_def set_branchC_def headC_def current_branchC_def commitC_def flatC_def authorC_def
    set_headC_def remove_file_def remove_data_file_def Let_def
  by (auto intro!: grow.keeps_step grow.keeps_do grown_same simp: bindE_eq_Inr del_work_def split: if_splits)

lemma keeps_write [intro!]: "grow.keeps E (writeC E ty data)"
  unfolding writeC_def by (auto intro!: grow.keeps_step grows_write simp: bindE_eq_Inr grown_def)

lemma keeps_build [intro!]: "grow.keeps E (treeC E staged)"
  unfolding treeC_def by (auto intro!: grow.keeps_step grows_tree simp: bindE_eq_Inr grown_def)

lemma keeps_three_way [intro!]: "grow.keeps E (three_wayC E base ours theirs)"
  unfolding three_wayC_def by (auto intro!: grow.keeps_step grows_merge simp: bindE_eq_Inr grown_def)

lemma keeps_work [intro!]: "grow.keeps E (checkout_manifest E W n h)" "grow.keeps E (checkout_blob E W n h)"
proof -
  have "grow.keeps E (\<lambda>g. let (w, x) = materialize_file E (g_objects g) (g_work g) n m; p = split_slash n;
      r = (case x of None \<Rightarrow> Inr () | Some e \<Rightarrow> Inl e) in
      if under_file (g_work g) p \<or> is_wdir (g_work g) p then (g, r)
      else (g\<lparr>g_work := w, g_mtimes := AList.update p (w_mtime W p) (g_mtimes g)\<rparr>, r))" for m
    by (auto simp: grow.keeps_def Let_def intro!: grown_same split: prod.splits if_splits)
  then show "grow.keeps E (checkout_manifest E W n h)" unfolding checkout_manifest_def by blast
  show "grow.keeps E (checkout_blob E W n h)"
    unfolding checkout_blob_def Let_def
    by (auto intro!: grow.keeps_step grown_same simp: bindE_eq_Inr put_work_def split: if_splits)
qed

section \<open>The commands\<close>

lemma keeps_stage [intro!]: "grow.keeps E (stage_data E fp)" "grow.keeps E (stage_blob E fp)"
proof -
  have "grow.keeps E (stepC (\<lambda>g. case build_manifest_streaming E (g_objects g) content of
      Inl e \<Rightarrow> Inl (if is_value_error e then ExitCode 1 else e) | Inr (m, d) \<Rightarrow> Inr (g\<lparr>g_objects := d\<rparr>, m)))" for content
    by (auto intro!: grow.keeps_step grows_stream simp: grown_def split: sum.splits)
  then show "grow.keeps E (stage_data E fp)" unfolding stage_data_def by blast
  show "grow.keeps E (stage_blob E fp)" unfolding stage_blob_def by blast
qed

lemma keeps_add: "grow.keeps E (cli_add E W paths)"
proof -
  have all: "grow.keeps E (stage_all E fs)" for fs :: "pystr list list \<times> pystr list list" unfolding stage_all_def by blast
  have del: "grow.keeps E (stage_deleted tr sp p)" for tr sp p unfolding stage_deleted_def by blast
  have "grow.keeps E (add_path E W tr sp a)" for tr sp a
    unfolding add_path_def by (cases "snd a") (auto intro!: all del simp del: split_paired_All)
  then show ?thesis unfolding cli_add_def head_flatC_def by blast
qed

lemma keeps_store_commit [intro!]: "grow.keeps E (store_commitC E W th ps msg)"
  unfolding store_commitC_def by blast

lemma keeps_commit: "grow.keeps E (cli_commit E W msg)"
  unfolding cli_commit_def head_flatC_def by blast

lemma keeps_tree [intro!]: "grow.keeps E (materialize_tree E W th old sp)"
  unfolding materialize_tree_def materialize_flat_def by blast

lemma keeps_configuration: "grow.keeps E (cli_config k v)" "grow.keeps E (cli_branch a)" "grow.keeps E (cli_tag a)"
proof -
  show "grow.keeps E (cli_config k v)"
    unfolding cli_config_def by (auto intro!: grow.keeps_do grown_same split: option.split)
  have "grow.keeps E (stepC (\<lambda>g. bindE (f (g_refs g)) (\<lambda>(b, r). Inr (g\<lparr>g_refs := r\<rparr>, b))))"
    for f :: "ref_store \<Rightarrow> (bool \<times> ref_store) res"
    by (auto intro!: grow.keeps_step grown_same simp: bindE_eq_Inr)
  note this [where f = "\<lambda>r. delete_branch r n" for n] this [where f = "\<lambda>r. delete_tag r n" for n]
  then show "grow.keeps E (cli_branch a)" "grow.keeps E (cli_tag a)"
    unfolding cli_branch_def cli_tag_def by (cases a; simp only: ref_action.case; blast)+
qed

lemma keeps_hash [intro!]: "grow.keeps E (hash_fileC E fp)" "grow.keeps E (differsC E fp mh)"
  unfolding differsC_def hash_fileC_def by blast+

lemma keeps_check [intro!]: "grow.keeps E (has_uncommitted_changes E W)"
proof -
  have "grow.keeps E (any_differs E ms fps)" for ms fps
    by (induction fps; unfold any_differs.simps; blast)
  then show ?thesis unfolding has_uncommitted_changes_def head_flatC_def by blast
qed

lemma keeps_reports: "grow.keeps E (cli_status E W)" "grow.keeps E (cli_diff E W r1 r2)" "grow.keeps E (cli_log E f)"
proof -
  have "grow.keeps E (modified_files E ms fps)" for ms fps
    by (induction fps; unfold modified_files.simps; blast)
  then show "grow.keeps E (cli_status E W)" unfolding cli_status_def head_flatC_def Let_def by blast
  have w: "grow.keeps E (working_manifests E fps)" for fps
    by (induction fps; unfold working_manifests.simps; blast)
  show "grow.keeps E (cli_diff E W r1 r2)"
    unfolding cli_diff_def ref_manifestsC_def Let_def by (cases r1; cases r2) (auto intro!: w)
  show "grow.keeps E (cli_log E f)" unfolding cli_log_def by blast
qed

lemma keeps_switch: "grow.keeps E (cli_switch E W t f)" "grow.keeps E (cli_checkout E W t c f)" "grow.keeps E (cli_reset E W ps h)"
proof -
  have d: "grow.keeps E (discard_or_clean E W f)" for f unfolding discard_or_clean_def by blast
  have t: "grow.keeps E (tree_of_headC E h)" for h unfolding tree_of_headC_def by blast
  show s: "grow.keeps E (cli_switch E W t f)" for t f unfolding cli_switch_def by (blast intro!: d t)
  show "grow.keeps E (cli_checkout E W t c f)" unfolding cli_checkout_def by (blast intro!: s)
  show "grow.keeps E (cli_reset E W ps h)" unfolding cli_reset_def reset_hard_def by blast
qed

lemma keeps_advance [intro!]: "grow.keeps E (advanceC E W c us t n)" "grow.keeps E (write_merged E W r)"
    "grow.keeps E (sidecarsC E x y)" "grow.keeps E (flat_treeC E h st)" "grow.keeps E (need_head h)" "grow.keeps E (restore_ours E W)"
  unfolding advanceC_def write_merged_def sidecarsC_def flat_treeC_def need_head_def restore_ours_def by blast+

lemma keeps_merge: "grow.keeps E (cli_merge E W a m)" "grow.keeps E (cli_cherry_pick E W a m)"
proof -
  have fin: "grow.keeps E (finishC clear b ch)" if "clear = clear_merge \<or> clear = clear_pick" for clear b ch
    using that unfolding finishC_def by (auto intro!: grow.keeps_do grown_same simp: clear_merge_def clear_pick_def)
  have save: "grow.keeps E (save_conflicts base ours theirs r msg mark)" if "\<And>g. g_objects (mark g) = g_objects g" for base ours theirs r msg mark
    using that unfolding save_conflicts_def by (auto intro!: grow.keeps_do grown_same)
  have clear: "grow.keeps E (doC clear_merge)" "grow.keeps E (doC clear_pick)"
    by (auto intro!: grow.keeps_do grown_same simp: clear_merge_def clear_pick_def)
  have mc: "grow.keeps E (merge_commits E W c b us t msg)" for c b us t msg
    unfolding merge_commits_def by (auto intro!: save)
  show "grow.keeps E (cli_merge E W a m)"
    unfolding cli_merge_def merge_abort_def merge_continue_def merge_branch_def Let_def
    by (cases a) (auto intro!: fin clear mc)
  have "grow.keeps E (picked_commit E h)" "grow.keeps E (pick_ours E hd b)" for h hd b
    unfolding picked_commit_def pick_ours_def by auto
  then show "grow.keeps E (cli_cherry_pick E W a m)"
    unfolding cli_cherry_pick_def pick_abort_def pick_continue_def pick_start_def Let_def
    by (cases a) (auto intro!: fin clear save)
qed

lemma keeps_meta: "grow.keeps E (cli_meta_compute E W f)"
proof -
  have "grow.keeps E (meta_file E f e acc)" for e acc unfolding meta_file_def Let_def by blast
  then have "grow.keeps E (meta_files E f es acc)" for es acc
    by (induction es arbitrary: acc; unfold meta_files.simps; blast)
  then show ?thesis unfolding cli_meta_compute_def head_flatC_def by blast
qed

lemmas keeps_commands = keeps_add keeps_commit keeps_configuration keeps_reports keeps_switch keeps_merge keeps_meta

end
