(* ===== verification/Dit_Pushed.thy ===== *)
theory Dit_Pushed
  imports Dit_Sync Dit_Fetched Dit_History
begin

text \<open>
  What a push leaves on the server: everything its branch now leads to. \<open>d\<close> is the local store, \<open>D\<close> the one of the
  repository on the server.
\<close>

section \<open>Uploads\<close>

lemma puts_items: "env_ok E \<Longrightarrow> forC (\<lambda>(h, data). storeC E ty data) (map (\<lambda>b. (sha256 E b, b)) bs) D = (fold (put E ty) bs D, Inr ())"
  by (induction bs arbitrary: D) (simp_all add: storeC_def stepC_def store_write_put)

lemma mapE_each: "mapE f xs = Inr ys \<Longrightarrow> x \<in> set xs \<Longrightarrow> \<exists>y. f x = Inr y"
  by (induction xs arbitrary: ys) (auto simp: bindE_eq_Inr)

text \<open>Whether the binary message can be written or not, the objects are stored.\<close>

lemma upload_puts:
  assumes "env_ok E" "str ty \<in> set valid_obj_types" "length bs \<le> 200"
  shows "\<exists>r. upload_batch E (Some D) (str ty) (map (\<lambda>b. (sha256 E b, b)) bs) = (Some (fold (put E ty) bs D), Inr r)"
proof -
  let ?items = "map (\<lambda>b. (sha256 E b, b)) bs"
  have json: "upload_batch_json E (Some D) (str ty) ?items =
      (Some (fold (put E ty) bs D), Inr \<lparr>up_accepted = length bs, up_errors = []\<rparr>)"
    using assms(2,3) upload_items_b64_ok [OF assms(1), of ty bs D no_upload]
    by (simp add: upload_batch_json_def batch_upload_def validate_obj_type_def max_batch_items_def on_repo_def
        no_upload_def comp_def)
  show ?thesis
  proof (cases "encode_batch (str ty) ?items")
    case (Inr body)
    from Inr obtain ys where "mapE encode_item ?items = Inr ys" by (auto simp: encode_batch_def bindE_eq_Inr split: if_splits)
    from mapE_each [OF this] have "length b < 256 ^ 4" if "b \<in> set bs" for b
      using that by (fastforce simp: encode_item_def to_bytes4_def bindE_eq_Inr split: if_splits)
    then have len: "\<forall>b \<in> set bs. length b < 256 ^ 4" by blast
    show ?thesis using upload_items_bin_ok [OF assms(1) len, of ty D no_upload]
      by (simp add: upload_batch_def encode_batch_ok [OF assms len] batch_upload_bin_def on_repo_def
          parse_header_ok [OF assms(2,3)] no_upload_def)
  qed (simp add: upload_batch_def json)
qed

lemma dir_str: "\<exists>ty. dir_name k = str ty \<and> str ty \<in> set valid_obj_types"
proof (cases k)
  case KCommit then show ?thesis by (intro exI [of _ "''commits''"]) (simp add: valid_obj_types_def)
next case KTree then show ?thesis by (intro exI [of _ "''trees''"]) (simp add: valid_obj_types_def)
next case KManifest then show ?thesis by (intro exI [of _ "''manifests''"]) (simp add: valid_obj_types_def)
next case KRow then show ?thesis by (intro exI [of _ "''rows''"]) (simp add: valid_obj_types_def)
next case KSidecar then show ?thesis by (intro exI [of _ "''sidecars''"]) (simp add: valid_obj_types_def)
next case KBlob then show ?thesis by (intro exI [of _ "''blobs''"]) (simp add: valid_obj_types_def)
qed

text \<open>The session with another object store on the server.\<close>

definition on_disk :: "client \<Rightarrow> disk \<Rightarrow> session \<Rightarrow> session" where
  "on_disk c D s = s\<lparr>ss_server := set_disk (rc_repo c) D (ss_server s)\<rparr>"

lemma on_disk_simps [simp]:
  "on_disk c D' (on_disk c D s) = on_disk c D' s" "ss_repo (on_disk c D s) = ss_repo s"
  "sv_db (ss_server (on_disk c D s)) = sv_db (ss_server s)" "sv_disk (ss_server (on_disk c D s)) (rc_repo c) = D"
  by (simp_all add: on_disk_def set_disk_def)

lemma object_server_disk: "object_server E st c S = Inr (Some D) \<Longrightarrow> D = sv_disk S (rc_repo c)"
  by (auto simp: object_server_def split: sum.splits if_splits)

lemma object_server_on_disk [simp]:
  assumes "object_server E st c (ss_server s) = Inr (Some D)"
  shows "object_server E st c (ss_server (on_disk c D' s)) = Inr (Some D')" "on_disk c D s = s"
proof -
  have "asker E st c (ss_server (on_disk c D' s)) = asker E st c (ss_server s)" by (simp add: asker_def)
  then show "object_server E st c (ss_server (on_disk c D' s)) = Inr (Some D')"
    using assms by (auto simp: object_server_def split: sum.splits if_splits)
  show "on_disk c D s = s"
    using object_server_disk [OF assms] by (simp add: on_disk_def set_disk_def)
qed

text \<open>What a step of the push keeps: the server gains objects of the local store.\<close>

definition pushing :: "env \<Rightarrow> site \<Rightarrow> client \<Rightarrow> session \<Rightarrow> disk \<Rightarrow> bool" where
  "pushing E st c s D \<longleftrightarrow> store_inv E (g_objects (ss_repo s)) \<and> store_inv E D \<and> agree E (g_objects (ss_repo s)) D \<and>
     object_server E st c (ss_server s) = Inr (Some D)"

lemma pushing_on_disk:
  "pushing E st c s D \<Longrightarrow> gains E (g_objects (ss_repo s)) D D' \<Longrightarrow> pushing E st c (on_disk c D' s) D'"
  using gains_agree gainsD by (fastforce simp: pushing_def)

lemma upload_gains:
  assumes "pushing E st c s D" "length batch \<le> 200"
    and "\<forall>(h, b) \<in> set batch. store_read E (g_objects (ss_repo s)) (dir_name k) h = Inr (Some b)"
  shows "\<exists>D'. serverC (client_upload E st c (dir_name k) batch) s = (on_disk c D' s, Inr ()) \<and>
    gains E (g_objects (ss_repo s)) D D' \<and> (\<forall>h \<in> fst ` set batch. held E D' (k, h))"
proof -
  obtain ty where ty: "dir_name k = str ty" "str ty \<in> set valid_obj_types" using dir_str by blast
  have inv: "store_inv E (g_objects (ss_repo s))" "store_inv E D" "agree E (g_objects (ss_repo s)) D"
    and srv: "object_server E st c (ss_server s) = Inr (Some D)" using assms(1) by (simp_all add: pushing_def)
  have ok: "env_ok E" using inv(1) by auto
  have b: "batch = map (\<lambda>b. (sha256 E b, b)) (map snd batch)"
    using assms(3) store_read_addr [OF inv(1)] by (auto simp: map_idI intro!: map_idI [symmetric])
  define D' where "D' = fold (put E ty) (map snd batch) D"
  have "upload_batch E (Some D) (str ty) batch = (Some D', Inr r)" if "upload_batch E (Some D) (str ty)
      (map (\<lambda>b. (sha256 E b, b)) (map snd batch)) = (Some D', Inr r)" for r using that b by simp
  then have u: "\<exists>r. upload_batch E (Some D) (str ty) batch = (Some D', Inr r)"
    using upload_puts [OF ok ty(2), of "map snd batch" D] assms(2) unfolding D'_def by fastforce
  have "forC (\<lambda>(h, data). storeC E ty data) batch D = (D', Inr ())"
    using puts_items [OF ok, of ty "map snd batch" D] b unfolding D'_def by simp
  from store_items [OF inv _ this] assms(3) ty(1)
  have "gains E (g_objects (ss_repo s)) D D'" "\<forall>(h, b) \<in> set batch. store_read E D' (str ty) h = Inr (Some b)" by auto
  moreover from this(2) have "\<forall>h \<in> fst ` set batch. held E D' (k, h)" using ty(1) by (force simp: held_def)
  moreover have "serverC (client_upload E st c (dir_name k) batch) s = (on_disk c D' s, Inr ())"
    using u srv ty(1) by (auto simp: serverC_def client_upload_def boundaryC_def on_disk_def)
  ultimately show ?thesis by blast
qed

lemma send_loop_gains:
  assumes "pushing E st c s D" "length batch < 100" "send_loop E st c k hs batch s = (s', Inr ())"
    and "\<forall>(h, b) \<in> set batch. store_read E (g_objects (ss_repo s)) (dir_name k) h = Inr (Some b)"
  shows "\<exists>D'. s' = on_disk c D' s \<and> gains E (g_objects (ss_repo s)) D D' \<and>
    (\<forall>h \<in> set hs \<union> fst ` set batch. held E (g_objects (ss_repo s)) (k, h) \<longrightarrow> held E D' (k, h))"
  using assms
proof (induction hs arbitrary: s D batch)
  case Nil
  have "object_server E st c (ss_server s) = Inr (Some D)" "store_inv E D" using Nil.prems(1) by (simp_all add: pushing_def)
  then have "on_disk c D s = s" "gains E (g_objects (ss_repo s)) D D" by simp_all
  show ?case
  proof (cases "batch = []")
    case True
    with Nil.prems(3) have "s' = on_disk c D s" using \<open>on_disk c D s = s\<close> by simp
    with True \<open>gains E (g_objects (ss_repo s)) D D\<close> show ?thesis by auto
  next
    case False
    with Nil.prems(3) have "serverC (client_upload E st c (dir_name k) batch) s = (s', Inr ())" by simp
    with Nil.prems(2) upload_gains [OF Nil.prems(1) _ Nil.prems(4)] show ?thesis by fastforce
  qed
next
  case (Cons h hs)
  let ?d = "g_objects (ss_repo s)"
  from Cons.prems(3) obtain data where data: "store_read E ?d (dir_name k) h = Inr data"
    and rest: "(case data of None \<Rightarrow> send_loop E st c k hs batch
     | Some b \<Rightarrow> let batch' = batch @ [(h, b)] in
         if batch_full batch' then seqC (serverC (client_upload E st c (dir_name k) batch')) (send_loop E st c k hs [])
         else send_loop E st c k hs batch') s = (s', Inr ())"
    by (auto simp: bindC_Inr localC_def)
  show ?case
  proof (cases data)
    case None
    with rest have "send_loop E st c k hs batch s = (s', Inr ())" by simp
    moreover have "\<not> held E ?d (k, h)" using data None by (simp add: held_def)
    ultimately show ?thesis using Cons.IH [OF Cons.prems(1,2) _ Cons.prems(4)] by simp
  next
    case (Some b)
    let ?batch = "batch @ [(h, b)]"
    have all: "\<forall>(h, b) \<in> set ?batch. store_read E ?d (dir_name k) h = Inr (Some b)"
      using Cons.prems(4) data Some by auto
    show ?thesis
    proof (cases "batch_full ?batch")
      case True
      obtain D1 where D1: "serverC (client_upload E st c (dir_name k) ?batch) s = (on_disk c D1 s, Inr ())"
        "gains E ?d D D1" "\<forall>h \<in> fst ` set ?batch. held E D1 (k, h)"
        using upload_gains [OF Cons.prems(1) _ all] Cons.prems(2) by auto
      with rest Some True have "send_loop E st c k hs [] (on_disk c D1 s) = (s', Inr ())" by (simp add: Let_def)
      from Cons.IH [OF pushing_on_disk [OF Cons.prems(1) D1(2)] _ this] obtain D' where
        "s' = on_disk c D' s" "gains E ?d D1 D'" "\<forall>h \<in> set hs. held E ?d (k, h) \<longrightarrow> held E D' (k, h)" by auto
      moreover have "\<forall>h \<in> fst ` set ?batch. held E D' (k, h)" using D1(3) gains_held [OF calculation(2)] by blast
      ultimately show ?thesis using gains_trans [OF D1(2)] by auto
    next
      case False
      with rest Some have "send_loop E st c k hs ?batch s = (s', Inr ())" by (simp add: Let_def)
      moreover have "length ?batch < 100" using False by (simp add: batch_full_def)
      ultimately show ?thesis using Cons.IH [OF Cons.prems(1) _ _ all] by simp
    qed
  qed
qed

section \<open>The objects that are sent\<close>

lemma batch_exists_true:
  assumes "batch_exists D ty hs = Inr r" "map_of r h = Some True"
  shows "store_exists D ty h = Inr True"
proof -
  have "map_of r h = Some True \<longrightarrow> store_exists D ty h = Inr True"
    by (rule foldE_invariant [OF assms(1) [unfolded batch_exists_def], where P = "\<lambda>r. map_of r h = Some True \<longrightarrow> store_exists D ty h = Inr True"])
       (auto simp: bindE_eq_Inr update_conv' split: if_splits)
  with assms(2) show ?thesis by simp
qed

lemma missing_there:
  assumes "pushing E st c s D" "missing_thereC E st c k hs s = (s', Inr hs')"
  shows "s' = s \<and> (\<forall>h \<in> set hs. h \<in> set hs' \<or> held E D (k, h))"
proof (cases "hs = []")
  case False
  have inv: "store_inv E D" and srv: "object_server E st c (ss_server s) = Inr (Some D)" using assms(1) by (simp_all add: pushing_def)
  from False assms(2) srv obtain r where r: "server_batch_exists (Some D) (dir_name k) hs = Inr r"
    "s' = s" "hs' = filter (\<lambda>h. map_of r h \<noteq> Some True) hs"
    by (auto simp: missing_thereC_def bindC_Inr serverC_def client_batch_exists_def)
  then have "batch_exists D (dir_name k) hs = Inr r"
    by (auto simp: server_batch_exists_def repo_store_def bindE_eq_Inr split: if_splits)
  from batch_exists_true [OF this] exists_held [OF inv] have "held E D (k, h)" if "map_of r h = Some True" for h
    using that by blast
  with r show ?thesis by auto
qed (use assms(2) in \<open>simp add: missing_thereC_def\<close>)

lemma to_upload:
  assumes "pushing E st c s D" "to_uploadC E st c R ks s = (s', Inr ups)"
  shows "s' = s \<and> (\<forall>k \<in> set ks. \<forall>h \<in> set (hashes_of E R k). (\<exists>hs. (k, hs) \<in> set ups \<and> h \<in> set hs) \<or> held E D (k, h))"
  using assms(2)
proof (induction ks arbitrary: ups)
  case (Cons k ks)
  then obtain s1 hs rest where s1: "missing_thereC E st c k (hashes_of E R k) s = (s1, Inr hs)"
    "to_uploadC E st c R ks s1 = (s', Inr rest)" "ups = (k, hs) # rest" by (auto simp: bindC_Inr)
  note m = missing_there [OF assms(1) s1(1)]
  with Cons.IH [of rest] s1(2) show ?case unfolding s1(3) by fastforce
qed simp

lemma send_all:
  assumes "pushing E st c s D" "forC (\<lambda>(k, hs). send_loop E st c k hs []) ups s = (s', Inr ())"
  shows "\<exists>D'. s' = on_disk c D' s \<and> gains E (g_objects (ss_repo s)) D D' \<and>
    (\<forall>(k, hs) \<in> set ups. \<forall>h \<in> set hs. held E (g_objects (ss_repo s)) (k, h) \<longrightarrow> held E D' (k, h))"
  using assms
proof (induction ups arbitrary: s D)
  case Nil
  then have "object_server E st c (ss_server s) = Inr (Some D)" "store_inv E D" by (simp_all add: pushing_def)
  then have "on_disk c D s = s" "gains E (g_objects (ss_repo s)) D D" by simp_all
  with Nil.prems(2) show ?case by (intro exI [of _ D]) simp
next
  case (Cons u ups)
  obtain k hs where u: "u = (k, hs)" by (cases u)
  from Cons.prems(2) u obtain s1 where s1: "send_loop E st c k hs [] s = (s1, Inr ())"
    "forC (\<lambda>(k, hs). send_loop E st c k hs []) ups s1 = (s', Inr ())" by (auto simp: seqC_Inr)
  obtain D1 where D1: "s1 = on_disk c D1 s" "gains E (g_objects (ss_repo s)) D D1"
    "\<forall>h \<in> set hs. held E (g_objects (ss_repo s)) (k, h) \<longrightarrow> held E D1 (k, h)"
    using send_loop_gains [OF Cons.prems(1) _ s1(1)] by auto
  from Cons.IH [OF pushing_on_disk [OF Cons.prems(1) D1(2)]] s1(2) D1(1) obtain D' where
    D': "s' = on_disk c D' s" "gains E (g_objects (ss_repo s)) D1 D'"
    "\<forall>(k, hs) \<in> set ups. \<forall>h \<in> set hs. held E (g_objects (ss_repo s)) (k, h) \<longrightarrow> held E D' (k, h)" by auto
  moreover have "\<forall>h \<in> set hs. held E (g_objects (ss_repo s)) (k, h) \<longrightarrow> held E D' (k, h)"
    using D1(3) gains_held [OF D'(2)] by blast
  ultimately show ?case using gains_trans [OF D1(2)] u by auto
qed

lemma kind_sent: "k \<in> set upload_order"
  by (cases k) (simp_all add: upload_order_def)

lemma hashes_of_set: "env_ok E \<Longrightarrow> finite R \<Longrightarrow> set (hashes_of E R k) = {h. (k, h) \<in> R}"
proof -
  assume "env_ok E" "finite R"
  moreover have "snd ` {n \<in> R. fst n = k} = {h. (k, h) \<in> R}" by force
  moreover have "finite (snd ` {n \<in> R. fst n = k})" using \<open>finite R\<close> by simp
  ultimately show ?thesis by (simp add: hashes_of_def env_okD)
qed

lemma new_objects:
  assumes "env_ok E" "new_objectsC E local remote s = (s', Inr R)"
  shows "s' = s" "finite R"
    "reaches E (g_objects (ss_repo s)) (KCommit, local) n \<Longrightarrow>
      n \<in> R \<or> (\<exists>r. remote = Some r \<and> reaches E (g_objects (ss_repo s)) (KCommit, r) n)"
proof -
  let ?d = "g_objects (ss_repo s)"
  show "s' = s" using assms(2) by (auto simp: new_objectsC_def localC_def)
  have fin: "finite {n. reaches E ?d (KCommit, local) n}" using objects.finite_reach by (simp add: reaches_def)
  show "finite R" "reaches E ?d (KCommit, local) n \<Longrightarrow> n \<in> R \<or> (\<exists>r. remote = Some r \<and> reaches E ?d (KCommit, r) n)"
  proof (atomize (full), cases remote)
    case None
    with assms(2) have "walk_commit_objects E ?d local = Inr R" by (auto simp: new_objectsC_def localC_def)
    from walk_commit_objects_correct [OF this] fin show "finite R \<and> (reaches E ?d (KCommit, local) n \<longrightarrow>
        n \<in> R \<or> (\<exists>r. remote = Some r \<and> reaches E ?d (KCommit, r) n))" by simp
  next
    case (Some r)
    with assms(2) have "walk_commit_objects_since E ?d local (Some r) = Inr R" by (auto simp: new_objectsC_def localC_def)
    note w = walk_since_correct [OF assms(1) this]
    then have "finite R" using fin finite_subset by blast
    with w(1) Some show "finite R \<and> (reaches E ?d (KCommit, local) n \<longrightarrow>
        n \<in> R \<or> (\<exists>r. remote = Some r \<and> reaches E ?d (KCommit, r) n))" by auto
  qed
qed

lemma push_objects:
  assumes "pushing E st c s D" "push_objectsC E st c local remote s = (s', Inr ())"
    and "\<forall>r. remote = Some r \<longrightarrow> settled E (g_objects (ss_repo s)) D (KCommit, r)"
  shows "\<exists>D'. s' = on_disk c D' s \<and> gains E (g_objects (ss_repo s)) D D' \<and>
    settled E (g_objects (ss_repo s)) D' (KCommit, local)"
proof -
  let ?d = "g_objects (ss_repo s)"
  have ok: "env_ok E" using assms(1) by (auto simp: pushing_def)
  from assms(2) obtain s1 R s2 ups where R: "new_objectsC E local remote s = (s1, Inr R)"
    and ups: "to_uploadC E st c R upload_order s1 = (s2, Inr ups)"
    and send: "forC (\<lambda>(k, hs). send_loop E st c k hs []) ups s2 = (s', Inr ())"
    by (auto simp: push_objectsC_def bindC_Inr)
  note N = new_objects [OF ok R]
  note U = to_upload [OF assms(1) ups [unfolded N(1)]]
  from send_all [OF assms(1) send [unfolded conjunct1 [OF U]]] obtain D' where D': "s' = on_disk c D' s" "gains E ?d D D'"
    "\<forall>(k, hs) \<in> set ups. \<forall>h \<in> set hs. held E ?d (k, h) \<longrightarrow> held E D' (k, h)" by auto
  have "held E D' (k, h)" if n: "reaches E ?d (KCommit, local) (k, h)" "held E ?d (k, h)" for k h
  proof (cases "(k, h) \<in> R")
    case True
    then have "h \<in> set (hashes_of E R k)" using hashes_of_set [OF ok N(2)] by simp
    with U kind_sent have "(\<exists>hs. (k, hs) \<in> set ups \<and> h \<in> set hs) \<or> held E D (k, h)" by blast
    with D'(3) n(2) gains_held [OF D'(2)] show ?thesis by blast
  next
    case False
    with N(3) [OF n(1)] assms(3) n(2) have "held E D (k, h)" by (auto simp: settled_def)
    with gains_held [OF D'(2)] show ?thesis by blast
  qed
  then have "settled E ?d D' (KCommit, local)" unfolding settled_def by auto
  with D' show ?thesis by blast
qed

section \<open>The branch\<close>

lemma get_ref_branch:
  assumes "asker E st c S = Inr tok" "get_repo (rc_repo c) (sv_db S) = Inr R" "refs.unique (sv_db S)"
    and "client_get_ref E st c ref_type b S = Inr x"
  shows "x = branch (sv_db S) (rp_id R, ref_name ref_type b)"
proof -
  from assms(1,4) have x: "not_found (bindE (get_ref tok (rc_repo c) ref_type b (sv_db S)) (\<lambda>(n, t). Inr t)) = Inr x"
    by (simp add: client_get_ref_def)
  have r: "find_ref (rp_id R) (ref_name ref_type b) (sv_db S) = Inr y \<Longrightarrow>
      branch (sv_db S) (rp_id R, ref_name ref_type b) = map_option rf_target y" for y
    using find_ref_branch [OF assms(3)] find_ref_no_branch [OF assms(3)] by (cases y) auto
  show ?thesis
  proof (cases "require_permission (str ''read'') tok")
    case (Inl e)
    then have "e \<noteq> HTTPException 404" by (auto simp: require_permission_def bindE_eq_Inl required_level_def role_levels_def legacy_perm_map_def str_def split: if_splits)
    with Inl x show ?thesis by (simp add: get_ref_def not_found_def)
  next
    case (Inr u)
    show ?thesis
    proof (cases "find_ref (rp_id R) (ref_name ref_type b) (sv_db S)")
      case (Inl e)
      then have "e \<noteq> HTTPException 404" by (auto simp: find_ref_def one_or_none_def split: list.splits)
      with Inl Inr x assms(2) show ?thesis by (simp add: get_ref_def not_found_def)
    next
      case y: (Inr y)
      with Inr x r [OF y] assms(2) show ?thesis by (cases y) (auto simp: get_ref_def not_found_def)
    qed
  qed
qed

lemma cas_update_Inr:
  assumes "cas_update_ref E tok repo ref_type b old new s D = (s', D', Inr x)" "get_repo repo s = Inr R" "db_ok s"
  shows "branch s (rp_id R, ref_name ref_type b) = (if truthy old then old else None) \<and>
    branch s' = (branch s)((rp_id R, ref_name ref_type b) := Some new)"
proof -
  from assms(1,2) obtain s1 ps where "push_ref (rp_id R) (ref_name ref_type b) old new s = Inr s1" "s' = s1\<lparr>db_pulls := ps\<rparr>"
    by (auto simp: cas_update_ref_def bindE_eq_Inr update_prs_for_ref_change_def split: sum.splits)
  with push_ref_Inr [OF assms(3) this(1)] show ?thesis by (simp add: branch_def)
qed

lemma cas_true:
  assumes "serverC (client_cas_ref E st c ref_type b old new) s = (s', Inr True)" "db_ok (sv_db (ss_server s))"
    and "get_repo (rc_repo c) (sv_db (ss_server s)) = Inr R"
  shows "ss_repo s' = ss_repo s" "\<exists>tok. asker E st c (ss_server s) = Inr tok"
    "branch (sv_db (ss_server s)) (rp_id R, ref_name ref_type b) = (if truthy old then old else None)"
    "branch (sv_db (ss_server s')) = (branch (sv_db (ss_server s)))((rp_id R, ref_name ref_type b) := Some new)"
    "grows E (sv_disk (ss_server s) (rc_repo c)) (sv_disk (ss_server s') (rc_repo c))"
proof -
  obtain tok db' D r where a: "asker E st c (ss_server s) = Inr tok"
    and u: "cas_update_ref E tok (rc_repo c) ref_type b old new (sv_db (ss_server s)) (sv_disk (ss_server s) (rc_repo c)) = (db', D, Inr r)"
    and s': "s' = s\<lparr>ss_server := set_disk (rc_repo c) D ((ss_server s)\<lparr>sv_db := db'\<rparr>)\<rparr>"
    using assms(1) by (auto simp: serverC_def client_cas_ref_def split: sum.splits prod.splits if_splits)
  show "ss_repo s' = ss_repo s" "\<exists>tok. asker E st c (ss_server s) = Inr tok" using s' a by auto
  show "branch (sv_db (ss_server s)) (rp_id R, ref_name ref_type b) = (if truthy old then old else None)"
    "branch (sv_db (ss_server s')) = (branch (sv_db (ss_server s)))((rp_id R, ref_name ref_type b) := Some new)"
    using cas_update_Inr [OF u assms(3,2)] s' by (simp_all add: set_disk_def)
  show "grows E (sv_disk (ss_server s) (rc_repo c)) (sv_disk (ss_server s') (rc_repo c))"
    using grows_cas_update [OF u] s' by (simp add: set_disk_def)
qed

lemma grows_held: "grows E D D' \<Longrightarrow> store_inv E D \<Longrightarrow> held E D n \<Longrightarrow> held E D' n"
  unfolding grows_def held_def using store_read_mono by blast

lemma localC_read: "localC (readC f) s = (s, f (ss_repo s))"
  by (simp add: localC_def)

text \<open>The parts of a push that succeeds.\<close>

lemma push_parts:
  assumes "cli_push E st remote_name given s = (s', Inr ())" "branch_or_current given (ss_repo s) = (ss_repo s, Inr b)"
    and "build_remote_client (g_config (ss_repo s)) remote_name = Inr c"
  shows "\<exists>tip old s1. get_branch (g_refs (ss_repo s)) b = Inr (Some tip) \<and>
    client_get_ref E st c (str ''heads'') b (ss_server s) = Inr old \<and>
    (\<forall>r. old = Some r \<longrightarrow> is_ancestor E (g_objects (ss_repo s)) r tip = Inr True) \<and>
    push_objectsC E st c tip old s = (s1, Inr ()) \<and>
    serverC (client_cas_ref E st c (str ''heads'') b old tip) s1 = (s', Inr True)"
proof -
  have 1: "localC (branch_or_current given) s = (s, Inr b)" using assms(2) by (simp add: localC_def)
  have 3: "configC (\<lambda>f. build_remote_client f remote_name) s = (s, Inr c)" using assms(3) by (simp add: configC_def localC_def)
  from assms(1) 1 obtain tip where tip: "get_branch (g_refs (ss_repo s)) b = Inr (Some tip)"
    by (auto simp: cli_push_def cmd_Inr localC_read split: if_splits)
  have 4: "remote_tipC E st c b s = (s2, Inr x) \<Longrightarrow> s2 = s \<and> client_get_ref E st c (str ''heads'') b (ss_server s) = Inr x" for s2 x
    by (auto simp: remote_tipC_def serverC_def)
  have 5: "(case old of None \<Rightarrow> ret () | Some r \<Rightarrow> bindC (localC (readC (\<lambda>g. is_ancestor E (g_objects g) r tip))) needC) s = (s2, Inr ()) \<Longrightarrow>
      s2 = s \<and> (\<forall>r. old = Some r \<longrightarrow> is_ancestor E (g_objects (ss_repo s)) r tip = Inr True)" for old s2
    by (auto simp: bindC_Inr localC_def split: option.splits if_splits)
  from assms(1) 1 3 tip obtain s2 old s3 s1 s4 ok where p: "remote_tipC E st c b s = (s2, Inr old)"
    "(case old of None \<Rightarrow> ret () | Some r \<Rightarrow> bindC (localC (readC (\<lambda>g. is_ancestor E (g_objects g) r tip))) needC) s2 = (s3, Inr ())"
    "push_objectsC E st c tip old s3 = (s1, Inr ())"
    "serverC (client_cas_ref E st c (str ''heads'') b old tip) s1 = (s4, Inr ok)" "needC ok s4 = (s', Inr ())"
    by (auto simp: cli_push_def cmd_Inr localC_read Let_def cong: option.case_cong)
  from p(5) have ok: "ok = True" "s4 = s'" by (simp_all split: if_splits)
  from 4 [OF p(1)] have q: "s2 = s" "client_get_ref E st c (str ''heads'') b (ss_server s) = Inr old" by simp_all
  from 5 [OF p(2) [unfolded q(1)]] p(3,4) ok q(2) tip show ?thesis by blast
qed

section \<open>A push as a run of the server\<close>

lemma upload_some:
  "batch_upload E (Some d) ty items = (x, r) \<Longrightarrow> \<exists>d'. x = Some d'"
  "batch_upload_bin E (Some d) body = (x, r) \<Longrightarrow> \<exists>d'. x = Some d'"
  "server_upload_object E (Some d) ty h data = (x, r') \<Longrightarrow> \<exists>d'. x = Some d'"
  by (auto simp: batch_upload_def batch_upload_bin_def server_upload_object_def on_repo_def Let_def
      split: sum.splits prod.splits if_splits)

lemma upload_each_steps: "upload_each E (Some d) ty items = (x, r) \<Longrightarrow> \<exists>d'. x = Some d' \<and> (upload_step E)\<^sup>*\<^sup>* d d'"
proof (induction items arbitrary: d)
  case (Cons it items)
  obtain h b where it: "it = (h, b)" by (cases it)
  obtain d1 y where d1: "server_upload_object E (Some d) ty h b = (Some d1, y)"
    using upload_some(3) by (metis surj_pair)
  then have "upload_step E d d1" by (rule upload_step.single)
  with Cons d1 it show ?case by (cases y) (auto intro: converse_rtranclp_into_rtranclp)
qed auto

lemma upload_json_steps: "upload_batch_json E (Some d) ty items = (x, r) \<Longrightarrow> \<exists>d'. x = Some d' \<and> (upload_step E)\<^sup>*\<^sup>* d d'"
proof -
  assume u: "upload_batch_json E (Some d) ty items = (x, r)"
  obtain d1 y where d1: "batch_upload E (Some d) ty (map (\<lambda>(h, data). (h, b64encode data)) items) = (Some d1, y)"
    using upload_some(1) by (metis surj_pair)
  then have s: "upload_step E d d1" by (rule upload_step.json)
  obtain z w where z: "upload_each E (Some d1) ty items = (z, w)" by fastforce
  from upload_each_steps [OF z] s have "\<exists>d'. z = Some d' \<and> (upload_step E)\<^sup>*\<^sup>* d d'"
    by (auto intro: converse_rtranclp_into_rtranclp)
  with u d1 z s show ?thesis by (auto simp: upload_batch_json_def split: sum.splits if_splits)
qed

lemma upload_batch_steps: "upload_batch E (Some d) ty items = (x, r) \<Longrightarrow> \<exists>d'. x = Some d' \<and> (upload_step E)\<^sup>*\<^sup>* d d'"
proof (cases "encode_batch ty items")
  case (Inr body)
  assume u: "upload_batch E (Some d) ty items = (x, r)"
  obtain d1 y where d1: "batch_upload_bin E (Some d) body = (Some d1, y)" using upload_some(2) by (metis surj_pair)
  then have s: "upload_step E d d1" by (rule upload_step.binary)
  show ?thesis
  proof (cases y)
    case (Inl e)
    with u Inr d1 have "upload_batch_json E (Some d1) ty items = (x, r)" by (simp add: upload_batch_def)
    from upload_json_steps [OF this] s show ?thesis by (auto intro: converse_rtranclp_into_rtranclp)
  qed (use u Inr d1 s in \<open>auto simp: upload_batch_def\<close>)
qed (use upload_json_steps in \<open>simp add: upload_batch_def\<close>)

lemma upload_none: "fst (upload_batch E None ty items) = None"
proof -
  have "fst (upload_each E None ty items) = None"
    by (induction items) (auto simp: server_upload_object_def on_repo_def split: sum.splits prod.splits)
  then have "fst (upload_batch_json E None ty items) = None"
    by (auto simp: upload_batch_json_def batch_upload_def on_repo_def split: sum.splits prod.splits)
  then show ?thesis by (auto simp: upload_batch_def batch_upload_bin_def on_repo_def split: sum.splits prod.splits)
qed

lemma upload_reach:
  "(upload_step E)\<^sup>*\<^sup>* d d' \<Longrightarrow> d = sv_disk S repo \<Longrightarrow> server_reach E admin S (set_disk repo d' S)"
proof (induction rule: rtranclp_induct)
  case (step y z)
  have "server_step E admin (set_disk repo y S) (set_disk repo z (set_disk repo y S))"
    by (rule server_step.upload) (use step.hyps(2) in \<open>simp add: set_disk_def\<close>)
  with step show ?case by (simp add: set_disk_def)
qed (simp add: set_disk_def)

text \<open>What the parts of a push do: the repository and the data base stay, the server makes steps.\<close>

definition sent :: "env \<Rightarrow> session \<Rightarrow> session \<Rightarrow> bool" where
  "sent E s s' \<longleftrightarrow> ss_repo s' = ss_repo s \<and> sv_db (ss_server s') = sv_db (ss_server s) \<and>
     server_reach E False (ss_server s) (ss_server s')"

interpretation sends: kept "sent E" for E
  by unfold_locales (auto simp: sent_def)

lemma sends_read [intro!]: "sends.keeps E (localC (readC f))" "sends.keeps E (serverC (readC h))"
  by (auto simp: sends.keeps_def localC_def serverC_def boundaryC_def sent_def split: sum.splits)

lemma sends_upload [intro!]: "sends.keeps E (serverC (client_upload E st c ty batch))"
  unfolding sends.keeps_def
proof (intro allI impI)
  fix s s' r
  assume u: "serverC (client_upload E st c ty batch) s = (s', r)"
  show "sent E s s'"
  proof (cases "object_server E st c (ss_server s)")
    case (Inr srv)
    show ?thesis
    proof (cases srv)
      case None
      then have "fst (upload_batch E srv ty batch) = None"
        using upload_none by simp
      with u Inr show ?thesis
        by (auto simp: serverC_def boundaryC_def client_upload_def sent_def split: prod.splits sum.splits)
    next
      case (Some d)
      obtain x y where x: "upload_batch E (Some d) ty batch = (x, y)" by fastforce
      with upload_batch_steps obtain d' where d': "x = Some d'" "(upload_step E)\<^sup>*\<^sup>* d d'" by blast
      have "d = sv_disk (ss_server s) (rc_repo c)" using Inr Some object_server_disk by blast
      from upload_reach [OF d'(2) this] u Inr Some x d'(1) show ?thesis
        by (auto simp: serverC_def boundaryC_def client_upload_def sent_def set_disk_def split: sum.splits)
    qed
  qed (use u in \<open>auto simp: serverC_def boundaryC_def client_upload_def sent_def\<close>)
qed

lemma sends_objects [intro!]: "sends.keeps E (push_objectsC E st c local remote)"
proof -
  have m: "sends.keeps E (missing_thereC E st c k hs)" for k hs unfolding missing_thereC_def by blast
  have "sends.keeps E (to_uploadC E st c R ks)" for R ks by (induction ks; unfold to_uploadC.simps; blast intro: m)
  moreover have "sends.keeps E (send_loop E st c k hs batch)" for k hs batch
    by (induction hs arbitrary: batch; unfold send_loop.simps Let_def; blast)
  ultimately show ?thesis unfolding push_objectsC_def new_objectsC_def by blast
qed

section \<open>A push that goes through\<close>

lemma missing_there_total:
  assumes "pushing E st c s D" "\<forall>h \<in> set hs. hash_re h" "length hs \<le> 10000"
  shows "\<exists>hs'. missing_thereC E st c k hs s = (s, Inr hs') \<and> set hs' \<subseteq> set hs"
proof -
  have srv: "object_server E st c (ss_server s) = Inr (Some D)" using assms(1) by (simp add: pushing_def)
  have "\<exists>r. foldE (\<lambda>h r. bindE (store_exists D ty h) (\<lambda>b. Inr (AList.update h b r))) hs r0 = Inr r" for ty r0
    using assms(2) by (induction hs arbitrary: r0) (auto simp: store_exists_def object_path_def)
  then obtain r where "batch_exists D (dir_name k) hs = Inr r" unfolding batch_exists_def by blast
  moreover have "validate_obj_type (dir_name k) = Inr ()" using dir_str [of k] by (auto simp: validate_obj_type_def)
  ultimately have "client_batch_exists E st c (dir_name k) hs (ss_server s) = Inr r"
    using assms(3) srv by (simp add: client_batch_exists_def server_batch_exists_def max_batch_exists_def repo_store_def)
  then show ?thesis by (auto simp: missing_thereC_def serverC_def boundaryC_def)
qed

lemma send_loop_total:
  assumes "pushing E st c s D" "length batch < 100" "\<forall>h \<in> set hs. hash_re h"
    and "\<forall>(h, b) \<in> set batch. store_read E (g_objects (ss_repo s)) (dir_name k) h = Inr (Some b)"
  shows "\<exists>s'. send_loop E st c k hs batch s = (s', Inr ())"
  using assms
proof (induction hs arbitrary: s D batch)
  case Nil
  with upload_gains [OF Nil.prems(1) _ Nil.prems(4)] show ?case by (cases "batch = []") auto
next
  case (Cons h hs)
  have "store_inv E (g_objects (ss_repo s))" "hash_re h" using Cons.prems by (auto simp: pushing_def)
  then obtain data where data: "store_read E (g_objects (ss_repo s)) (dir_name k) h = Inr data" using store_read_total by blast
  show ?case
  proof (cases data)
    case None
    with data Cons show ?thesis by (simp add: localC_read)
  next
    case (Some b)
    let ?batch = "batch @ [(h, b)]"
    have all: "\<forall>(h, b) \<in> set ?batch. store_read E (g_objects (ss_repo s)) (dir_name k) h = Inr (Some b)"
      using Cons.prems(4) data Some by auto
    show ?thesis
    proof (cases "batch_full ?batch")
      case True
      obtain D1 where D1: "serverC (client_upload E st c (dir_name k) ?batch) s = (on_disk c D1 s, Inr ())"
        "gains E (g_objects (ss_repo s)) D D1" using upload_gains [OF Cons.prems(1) _ all] Cons.prems(2) by auto
      from Cons.IH [OF pushing_on_disk [OF Cons.prems(1) D1(2)], of "[]"] Cons.prems(3) obtain s' where
        "send_loop E st c k hs [] (on_disk c D1 s) = (s', Inr ())" by auto
      with D1(1) data Some True show ?thesis by (simp add: localC_read Let_def)
    next
      case False
      then have "length ?batch < 100" by (simp add: batch_full_def)
      with Cons.IH [OF Cons.prems(1) _ _ all] Cons.prems(3) data Some False show ?thesis by (simp add: localC_read Let_def)
    qed
  qed
qed

lemma push_objects_total:
  assumes "pushing E st c s D" "new_objectsC E local remote s = (s, Inr R)" "finite R"
    and "\<forall>(k, h) \<in> R. hash_re h" "\<forall>k. card {h. (k, h) \<in> R} \<le> 10000"
  shows "\<exists>s'. push_objectsC E st c local remote s = (s', Inr ())"
proof -
  have ok: "env_ok E" using assms(1) by (auto simp: pushing_def)
  note H = hashes_of_set [OF ok assms(3)]
  have re: "\<forall>h \<in> set (hashes_of E R k). hash_re h" for k using assms(4) H by auto
  have "distinct (hashes_of E R k)" for k using env_okD(3) [OF ok] by (simp add: hashes_of_def)
  then have len: "length (hashes_of E R k) \<le> 10000" for k using assms(5) H by (metis distinct_card)
  have "\<exists>ups. to_uploadC E st c R ks s = (s, Inr ups) \<and> (\<forall>(k, hs) \<in> set ups. \<forall>h \<in> set hs. hash_re h)" for ks
  proof (induction ks)
    case (Cons k ks)
    with missing_there_total [OF assms(1) re len, of k k] re [of k] show ?case by (auto; blast)
  qed simp
  then obtain ups where ups: "to_uploadC E st c R upload_order s = (s, Inr ups)" "\<forall>(k, hs) \<in> set ups. \<forall>h \<in> set hs. hash_re h" by blast
  have "\<exists>s'. forC (\<lambda>(k, hs). send_loop E st c k hs []) ups s = (s', Inr ())"
    using assms(1) ups(2)
  proof (induction ups arbitrary: s D)
    case (Cons u ups)
    obtain k hs where u: "u = (k, hs)" by (cases u)
    obtain s1 where s1: "send_loop E st c k hs [] s = (s1, Inr ())" using send_loop_total [OF Cons.prems(1), of "[]" hs k] Cons.prems(2) u by auto
    obtain D1 where D1: "s1 = on_disk c D1 s" "gains E (g_objects (ss_repo s)) D D1"
      using send_loop_gains [OF Cons.prems(1) _ s1] by auto
    from Cons.IH [OF pushing_on_disk [OF Cons.prems(1) D1(2)]] Cons.prems(2) s1 D1(1) u show ?case by simp
  qed simp
  with assms(2) ups(1) show ?thesis by (simp add: push_objectsC_def)
qed

section \<open>A small push\<close>

definition push_config :: config_file where
  "push_config = Some [(str ''remote'', JObj [(str ''origin'',
     JObj [(str ''url'', JStr (str ''http://h/r'')), (str ''token'', JStr (str ''a''))])])]"

definition push_client :: client where
  "push_client = \<lparr>rc_base = str ''http://h'', rc_token = str ''a'', rc_repo = str ''r''\<rparr>"

definition push_site :: site where
  "push_site = \<lparr>st_address = str ''http://h'', st_secret = []\<rparr>"

definition push_db :: db where
  "push_db = demo_tokens\<lparr>db_repos := [\<lparr>rp_id = 1, rp_name = str ''r''\<rparr>]\<rparr>"

definition push_session :: session where
  "push_session = \<lparr>ss_repo = (demo_clone None)\<lparr>g_config := push_config\<rparr>,
     ss_server = \<lparr>sv_db = push_db, sv_disk = (\<lambda>_. []), sv_jobs = []\<rparr>\<rparr>"

lemma push_remote: "build_remote_client push_config (str ''origin'') = Inr push_client"
  unfolding push_config_def push_client_def by code_simp

lemma push_session_simps [simp]:
  "g_objects (ss_repo push_session) = data_disk" "g_refs (ss_repo push_session) = demo_refs data_head"
  "g_config (ss_repo push_session) = push_config" "sv_db (ss_server push_session) = push_db"
  "sv_disk (ss_server push_session) r = []"
  by (simp_all add: push_session_def demo_clone_def)

lemma push_client_repo [simp]: "rc_repo push_client = str ''r''"
  by (simp add: push_client_def)

lemma push_asker: "sv_db S = push_db \<Longrightarrow> asker demo_env push_site push_client S = Inr demo_bearer"
  by (simp add: asker_def push_site_def push_client_def verify_token_def headers_of_def bearer_token_def push_db_def demo_tokens_def
      demo_bearer_def removeprefix_def py_startswith_def str_def py_strip_def py_space_def utf8_encode_def utf8_char_def
      one_or_none_def current_token_def)

lemma push_repo_found: "get_repo (str ''r'') push_db = Inr \<lparr>rp_id = 1, rp_name = str ''r''\<rparr>"
  by (simp add: get_repo_def need_row_def one_or_none_def push_db_def)

lemma push_levels: "require_permission (str ''push'') demo_bearer = Inr ()" "require_permission (str ''read'') demo_bearer = Inr ()"
  by (simp_all add: require_permission_def required_level_def role_levels_def legacy_perm_map_def token_level_def demo_bearer_def level_of_def)

lemma push_no_ref: "find_ref i n push_db = Inr None"
  by (simp add: find_ref_def one_or_none_def push_db_def demo_tokens_def)

lemma push_no_tip: "client_get_ref demo_env push_site push_client (str ''heads'') b (ss_server push_session) = Inr None"
  by (simp add: client_get_ref_def push_asker get_ref_def push_levels push_repo_found push_no_ref not_found_def)

lemma push_cas:
  assumes "sv_db (ss_server s) = push_db"
  shows "\<exists>s'. serverC (client_cas_ref demo_env push_site push_client (str ''heads'') b None h) s = (s', Inr True)"
proof -
  have "push_ref 1 n None h push_db = Inr (push_db\<lparr>db_refs := [\<lparr>rf_repo = 1, rf_name = n, rf_target = h\<rparr>]\<rparr>)" for n
    by (simp add: push_ref_def push_no_ref insert_row_def) (simp add: push_db_def demo_tokens_def)
  moreover have "update_prs_for_ref_change demo_env 1 n (push_db\<lparr>db_refs := t\<rparr>) d = Inr (push_db\<lparr>db_refs := t\<rparr>, d)" for n t d
    by (simp add: update_prs_for_ref_change_def push_db_def demo_tokens_def)
  ultimately show ?thesis
    by (simp add: serverC_def boundaryC_def client_cas_ref_def push_asker assms cas_update_ref_def push_levels push_repo_found
        check_push_def)
qed

lemma push_branch: "get_branch (demo_refs data_head) (str ''main'') = Inr (Some data_head)"
  by (simp add: get_branch_def ref_read_def main_parts demo_refs_def hex_digest_strip data_head_digest)

lemma push_given: "branch_or_current None (ss_repo push_session) = (ss_repo push_session, Inr (str ''main''))"
proof -
  have "url_name (str ''main'')" by code_simp
  then show ?thesis
    using demo_refs_head(1) by (simp add: branch_or_current_def current_branchC_def bindC_def)
qed

lemma push_pushing: "pushing demo_env push_site push_client push_session []"
  by (simp add: pushing_def data_disk_inv demo_env_ok agree_def store_read_Some object_server_def push_asker push_repo_found)

lemma push_sent: "\<exists>s'. push_objectsC demo_env push_site push_client data_head None push_session = (s', Inr ())"
proof -
  let ?R = "{n. reaches demo_env data_disk (KCommit, data_head) n}"
  have g: "graph_ok demo_env data_disk (KCommit, data_head)" using data_good by blast
  obtain R where "walk_commit_objects demo_env data_disk data_head = Inr R"
    using walk_loop_total [of "[(KCommit, data_head)]" demo_env data_disk "{}"] g by (auto simp: walk_commit_objects_def)
  with walk_commit_objects_correct [OF this] have w: "walk_commit_objects demo_env data_disk data_head = Inr ?R" by simp
  have sub: "?R \<subseteq> data_nodes" using data_reaches by blast
  have fin: "finite data_nodes" by (simp add: data_nodes_def)
  have "card {h. (k, h) \<in> ?R} \<le> 10000" for k
  proof -
    have "{h. (k, h) \<in> ?R} \<subseteq> snd ` data_nodes" using sub by force
    then have "card {h. (k, h) \<in> ?R} \<le> card data_nodes" using fin card_mono card_image_le by (metis finite_imageI le_trans)
    also have "\<dots> \<le> 4" unfolding data_nodes_def by (simp add: card_insert_if)
    finally show ?thesis by simp
  qed
  moreover have "\<forall>(k, h) \<in> ?R. hash_re h"
    using sub data_head_digest env_okD(1) [OF demo_env_ok]
    by (auto simp: data_nodes_def data_manifest_def data_row_def data_commit_def file_commit_def)
  ultimately show ?thesis
    by (intro push_objects_total [OF push_pushing, where R = ?R]) (use w sub fin finite_subset in \<open>auto simp: new_objectsC_def localC_read\<close>)
qed

lemma push_runs: "\<exists>s'. cli_push demo_env push_site (str ''origin'') None push_session = (s', Inr ())"
proof -
  obtain s1 where s1: "push_objectsC demo_env push_site push_client data_head None push_session = (s1, Inr ())" using push_sent by blast
  have "sv_db (ss_server s1) = push_db" using sends.keepsD [OF sends_objects s1] by (simp add: sent_def)
  from push_cas [OF this] obtain s' where
    s': "serverC (client_cas_ref demo_env push_site push_client (str ''heads'') (str ''main'') None data_head) s1 = (s', Inr True)" by blast
  have "localC (branch_or_current None) push_session = (push_session, Inr (str ''main''))"
    using push_given by (simp add: localC_def)
  moreover have "remote_tipC demo_env push_site push_client b push_session = (push_session, Inr None)" for b
    using push_no_tip by (simp add: remote_tipC_def serverC_def boundaryC_def)
  ultimately show ?thesis
    using s1 s' by (simp add: cli_push_def localC_read configC_def push_branch push_remote)
qed

section \<open>Properties\<close>



end
