(* ===== verification/Dit_Session.thy ===== *)
theory Dit_Session
  imports Dit_Pushed
begin

text \<open>
  All commands together, on a repository and a server: whatever a user types, and whether or not it succeeds, no
  object of the repository is lost, and to the server it is a run of requests.
\<close>

section \<open>Downloads only add objects\<close>

interpretation store: kept "grows E" for E
  by unfold_locales (auto intro: grows_refl grows_trans)

lemma store_storeC [intro!]: "store.keeps E (storeC E ty data)"
  unfolding storeC_def by (auto intro!: store.keeps_step simp: bindE_eq_Inr dest: grows_write)

lemma store_boundary [intro!]: "store.keeps E m \<Longrightarrow> store.keeps E (boundaryC m)"
  by (auto simp: store.keeps_def boundaryC_def split: prod.splits sum.splits)

lemma store_foldC [intro!]: "(\<And>x y. x \<in> set xs \<Longrightarrow> store.keeps E (f x y)) \<Longrightarrow> store.keeps E (foldC f xs acc)"
  by (induction xs arbitrary: acc) (auto intro!: store.keeps_bind)

lemma store_downloads [intro!]: "store.keeps E (batch_download_objects E srv ty hs)" "store.keeps E (downloadC E srv ty h)"
  unfolding batch_download_objects_def downloadC_def by blast+

lemma store_fetch_tree [intro!]: "store.keeps E (fetch_tree_objects E srv th)"
proof -
  have b: "store.keeps E (tree_bytesC E srv th)" for th unfolding tree_bytesC_def by blast
  have "store.keeps E (fetch_walk E srv n th p)" for n th p
    by (induction n arbitrary: th p; unfold fetch_walk.simps; blast intro: b)
  then show ?thesis unfolding fetch_tree_objects_def by blast
qed

lemma grows_fetch_loop: "fetch_loop E srv stop_at q v d = (d', r) \<Longrightarrow> grows E d d'"
proof (induction E srv stop_at q v d arbitrary: d' r rule: fetch_loop.induct)
  case (2 E srv stop_at chash queue visited d)
  show ?case
  proof (cases "chash \<in> visited \<or> Some chash = stop_at \<or> store_exists d (str ''commits'') chash \<noteq> Inr False")
    case True
    with 2 show ?thesis by (auto simp: grows_refl split: if_splits sum.splits bool.splits)
  next
    case False
    show ?thesis
    proof (cases "\<exists>data. client_download_object E srv (str ''commits'') chash = Inr (Some data)")
      case True
      then obtain data where data: "client_download_object E srv (str ''commits'') chash = Inr (Some data)" by blast
      show ?thesis
      proof (cases "store_write E d (str ''commits'') data")
        case (Inr x)
        obtain h d1 where x: "x = (h, d1)" by (cases x)
        have g1: "grows E d d1" using grows_write Inr x by blast
        show ?thesis
        proof (cases "deserialize_commit data")
          case c: (Inr c)
          obtain d2 y where d2: "fetch_tree_objects E srv (tree_hash c) d1 = (d2, y)" by fastforce
          have g2: "grows E d d2" using grows_trans [OF g1 store.keepsD [OF store_fetch_tree d2]] .
          show ?thesis
          proof (cases y)
            case y: (Inr u)
            have "fetch_loop E srv stop_at (rev (parent_hashes c) @ queue) (insert chash visited) d2 = (d', r)"
              using "2.prems" False data Inr x c d2 y by simp
            then have "grows E d2 d'"
              using False by (intro "2.IH"(4) [OF _ _ refl data refl Inr [unfolded x] refl c d2 [symmetric] y]) auto
            with g2 show ?thesis by (rule grows_trans)
          qed (use "2.prems" False data Inr x c d2 g2 in simp)
        qed (use "2.prems" False data Inr x g1 in simp)
      qed (use "2.prems" False data in \<open>simp add: grows_refl\<close>)
    qed (use 2 False in \<open>auto simp: grows_refl split: sum.splits option.splits\<close>)
  qed
qed (simp add: grows_refl)

lemma store_fetch [intro!]: "store.keeps E (fetch_objects_since E srv r stop_at)"
  using grows_fetch_loop by (auto simp: store.keeps_def fetch_objects_since_def simp del: fetch_loop.simps)

section \<open>Both sides\<close>

definition steps :: "env \<Rightarrow> session \<Rightarrow> session \<Rightarrow> bool" where
  "steps E s s' \<longleftrightarrow> grown E (ss_repo s) (ss_repo s') \<and> server_reach E False (ss_server s) (ss_server s')"

lemma grown_refl [simp]: "grown E g g"
  by (simp add: grown_same)

lemma grown_trans: "grown E g h \<Longrightarrow> grown E h k \<Longrightarrow> grown E g k"
  unfolding grown_def by (rule grows_trans)

interpretation both: kept "steps E" for E
  by unfold_locales (auto simp: steps_def intro: grown_trans)

lemma both_local [intro!]: "grow.keeps E m \<Longrightarrow> both.keeps E (localC m)"
  by (auto simp: both.keeps_def grow.keeps_def localC_def steps_def split: prod.splits)

lemma both_sent: "sends.keeps E m \<Longrightarrow> both.keeps E m"
  by (auto simp: both.keeps_def sends.keeps_def steps_def sent_def)

lemma both_server [intro!]: "both.keeps E (serverC (readC f))" "both.keeps E (configC h)"
  by (auto intro!: both_sent sends_read simp: configC_def)

lemma both_objects [intro!]: "both.keeps E (push_objectsC E st c local remote)"
  using both_sent sends_objects by blast

lemma both_cas [intro!]: "both.keeps E (serverC (client_cas_ref E st c (str ''heads'') b old new))"
proof -
  have "server_step E False S S'" if "asker E st c S = Inr tok"
      "cas_update_ref E tok (rc_repo c) (str ''heads'') b old new (sv_db S) (sv_disk S (rc_repo c)) = (db, D, r)"
      "S' = set_disk (rc_repo c) D (S\<lparr>sv_db := db\<rparr>)" for S S' tok db D r
    using server_step.push [OF _ that(2), of False] that(3) by (simp add: str_def)
  then show ?thesis
    by (auto simp: both.keeps_def serverC_def client_cas_ref_def boundaryC_def steps_def split: sum.splits prod.splits if_splits)
qed

lemma grow_objects [intro!]: "store.keeps E m \<Longrightarrow> grow.keeps E (objectsC m)"
  by (auto simp: store.keeps_def grow.keeps_def objectsC_def grown_def split: prod.splits)

lemma both_downloads [intro!]: "(\<And>srv. store.keeps E (f srv)) \<Longrightarrow> both.keeps E (downloadsC E st c f)"
  unfolding downloadsC_def by blast

lemma grow_given [intro!]: "grow.keeps E (branch_or_current given)"
  unfolding branch_or_current_def by blast

lemma both_push: "both.keeps E (cli_push E st rn given)"
  unfolding cli_push_def remote_tipC_def Let_def by blast

lemma both_fetch: "both.keeps E (cli_fetch E st rn given)"
  unfolding cli_fetch_def remote_tipC_def fetchC_def by blast

lemma both_pull: "both.keeps E (cli_pull E W st rn given)"
proof -
  have "grow.keeps E (refsC f)" "grow.keeps E (pull_files E W r l)" for f r l
    unfolding pull_files_def old_treeC_def by blast+
  then show ?thesis unfolding cli_pull_def remote_tipC_def fetchC_def by blast
qed

lemma grow_sparse [intro!]: "grow.keeps E need_sparse" "grow.keeps E (head_filesC E)" "grow.keeps E (save_sparseC S)"
  unfolding need_sparse_def head_filesC_def head_flatC_def save_sparseC_def
  by (auto intro!: grow.keeps_do grown_same)

lemma both_sparse: "both.keeps E (cli_sparse_add E W st paths)" "both.keeps E (cli_sparse_disable E W st)"
proof -
  have "both.keeps E (sparse_add_path E W st c flat p)" for c flat p
    unfolding sparse_add_path_def download_missing_def Let_def by (blast intro: keeps_work)
  then show "both.keeps E (cli_sparse_add E W st paths)" unfolding cli_sparse_add_def by blast
  have n: "both.keeps E (need_objectC E st c ty h)" for c ty h unfolding need_objectC_def by blast
  have "both.keeps E (fill_file E W st c e)" for c e unfolding fill_file_def Let_def by (blast intro: n keeps_work)
  moreover have "grow.keeps E (doC (\<lambda>g. g\<lparr>g_sparse := None\<rparr>))" by (auto intro!: grow.keeps_do grown_same)
  ultimately show "both.keeps E (cli_sparse_disable E W st)" unfolding cli_sparse_disable_def by blast
qed

lemma grow_remotes: "grow.keeps E (cli_remote_add n u t)" "grow.keeps E (cli_remote_remove n)" "grow.keeps E (cli_auth_set_token t n)"
    "grow.keeps E (cli_sparse_remove E ps)"
proof -
  have s: "grow.keeps E (set_remoteC n u t)" for n u t
    unfolding set_remoteC_def by (auto intro!: grow.keeps_step grown_same simp: bindE_eq_Inr)
  then show "grow.keeps E (cli_remote_add n u t)" by (simp add: cli_remote_add_def)
  show "grow.keeps E (cli_remote_remove n)"
    unfolding cli_remote_remove_def by (auto intro!: grow.keeps_bind grow.keeps_step grown_same simp: bindE_eq_Inr)
  show "grow.keeps E (cli_auth_set_token t n)"
    unfolding cli_auth_set_token_def by (auto intro!: s split: json.split)
  show "grow.keeps E (cli_sparse_remove E ps)"
    unfolding cli_sparse_remove_def sparse_remove_path_def head_flatC_def by blast
qed

section \<open>Sessions\<close>

text \<open>One command on the repository; the ones that only report are left out.\<close>

inductive local_step :: "env \<Rightarrow> repo \<Rightarrow> repo \<Rightarrow> bool" for E where
  add: "cli_add E W paths g = (g', r) \<Longrightarrow> local_step E g g'"
| commit: "cli_commit E W msg g = (g', r) \<Longrightarrow> local_step E g g'"
| config: "cli_config k v g = (g', r) \<Longrightarrow> local_step E g g'"
| branch: "cli_branch a g = (g', r) \<Longrightarrow> local_step E g g'"
| tag: "cli_tag a g = (g', r) \<Longrightarrow> local_step E g g'"
| status: "cli_status E W g = (g', s) \<Longrightarrow> local_step E g g'"
| switch: "cli_switch E W target force g = (g', r) \<Longrightarrow> local_step E g g'"
| checkout: "cli_checkout E W target create force g = (g', r) \<Longrightarrow> local_step E g g'"
| reset: "cli_reset E W paths hard g = (g', r) \<Longrightarrow> local_step E g g'"
| merge: "cli_merge E W action msg g = (g', r) \<Longrightarrow> local_step E g g'"
| cherry_pick: "cli_cherry_pick E W action msg g = (g', r) \<Longrightarrow> local_step E g g'"
| meta_compute: "cli_meta_compute E W file g = (g', r) \<Longrightarrow> local_step E g g'"
| remote_add: "cli_remote_add name url token g = (g', r) \<Longrightarrow> local_step E g g'"
| remote_remove: "cli_remote_remove name g = (g', r) \<Longrightarrow> local_step E g g'"
| set_token: "cli_auth_set_token token name g = (g', r) \<Longrightarrow> local_step E g g'"
| sparse_remove: "cli_sparse_remove E paths g = (g', r) \<Longrightarrow> local_step E g g'"
| edit: "local_step E g (g\<lparr>g_work := w, g_mtimes := ts\<rparr>)"

text \<open>A command, on one side or on both, or a step of the server that somebody else asked for.\<close>

inductive session_step :: "env \<Rightarrow> site \<Rightarrow> session \<Rightarrow> session \<Rightarrow> bool" for E st where
  local: "local_step E (ss_repo s) g \<Longrightarrow> session_step E st s (s\<lparr>ss_repo := g\<rparr>)"
| push: "cli_push E st name given s = (s', r) \<Longrightarrow> session_step E st s s'"
| fetch: "cli_fetch E st name given s = (s', r) \<Longrightarrow> session_step E st s s'"
| pull: "cli_pull E W st name given s = (s', r) \<Longrightarrow> session_step E st s s'"
| sparse_add: "cli_sparse_add E W st paths s = (s', r) \<Longrightarrow> session_step E st s s'"
| sparse_disable: "cli_sparse_disable E W st s = (s', r) \<Longrightarrow> session_step E st s s'"
| others: "server_step E False (ss_server s) S \<Longrightarrow> session_step E st s (s\<lparr>ss_server := S\<rparr>)"

lemmas grown_commands = keeps_commands [THEN grow.keepsD] grow_remotes [THEN grow.keepsD]

lemmas remote_commands = both_push [THEN both.keepsD] both_fetch [THEN both.keepsD] both_pull [THEN both.keepsD]
  both_sparse [THEN both.keepsD]

lemma local_grown: "local_step E g g' \<Longrightarrow> grown E g g'"
proof (induction rule: local_step.induct)
  case edit
  show ?case by (simp add: grown_same)
qed (erule grown_commands)+

lemma session_steps: "session_step E st s s' \<Longrightarrow> steps E s s'"
proof (induction rule: session_step.induct)
  case (local s g)
  then show ?case by (simp add: steps_def local_grown)
next
  case (others s S)
  then show ?case by (auto simp: steps_def)
qed (erule remote_commands)+

lemma sessions_steps: "(session_step E st)\<^sup>*\<^sup>* s s' \<Longrightarrow> steps E s s'"
  by (induction rule: rtranclp_induct) (auto intro: both.R_refl both.R_trans session_steps)

section \<open>Properties\<close>



end
