(* ===== verification/Dit_Pulled.thy ===== *)
theory Dit_Pulled
  imports Dit_Session
begin

text \<open>
  What a pull does to the repository: the branch goes forward to the one of the server, and everything it
  leads to has come.
\<close>

interpretation same: kept same_repo
  by unfold_locales (auto intro: same_repo_trans)

lemma same_files [intro!]: "same.keeps (checkout_manifest E W n h)" "same.keeps (checkout_blob E W n h)" "same.keeps (remove_file n)"
proof -
  have m: "same_repo g (g\<lparr>g_work := w, g_mtimes := ts\<rparr>)" for g w ts by (auto simp: same_repo_def)
  have "same.keeps (\<lambda>g. let (w, x) = materialize_file E (g_objects g) (g_work g) n m; p = split_slash n;
      r = (case x of None \<Rightarrow> Inr () | Some e \<Rightarrow> Inl e) in
      if under_file (g_work g) p \<or> is_wdir (g_work g) p then (g, r)
      else (g\<lparr>g_work := w, g_mtimes := AList.update p (w_mtime W p) (g_mtimes g)\<rparr>, r))" for m
    by (auto simp: same.keeps_def Let_def m split: prod.splits if_splits)
  then show "same.keeps (checkout_manifest E W n h)" unfolding checkout_manifest_def by blast
  show "same.keeps (checkout_blob E W n h)"
    unfolding checkout_blob_def Let_def by (auto intro!: same.keeps_step simp: bindE_eq_Inr split: if_splits)
  show "same.keeps (remove_file n)"
    unfolding remove_file_def Let_def by (auto intro!: same.keeps_step split: if_splits)
qed

lemma same_pull_files: "same.keeps (pull_files E W r local)"
proof -
  have "same.keeps (commitC E h)" "same.keeps (flatC E th)" "same.keeps (old_treeC E l)" for h th l
    unfolding commitC_def flatC_def old_treeC_def by auto
  moreover from this have "same.keeps (materialize_tree E W th old sp)" for th old sp
    unfolding materialize_tree_def materialize_flat_def Let_def by blast
  ultimately show ?thesis unfolding pull_files_def by blast
qed

lemma downloads_run:
  assumes "object_server E st c (ss_server s) = Inr srv" "downloadsC E st c f s = (s', Inr x)"
  shows "\<exists>d. f srv (g_objects (ss_repo s)) = (d, Inr x) \<and> s' = s\<lparr>ss_repo := (ss_repo s)\<lparr>g_objects := d\<rparr>\<rparr>"
  using assms by (auto simp: downloadsC_def bindC_Inr serverC_def localC_def objectsC_def split: prod.splits)

lemma get_ref_found:
  assumes "asker E st c S = Inr tok" "get_repo (rc_repo c) (sv_db S) = Inr R" "refs.unique (sv_db S)"
    and "branch (sv_db S) (rp_id R, ref_name ref_type b) = Some r"
  shows "client_get_ref E st c ref_type b S = Inr (Some r)"
proof -
  obtain x where x: "find_ref (rp_id R) (ref_name ref_type b) (sv_db S) = Inr x"
    using refs.select_one_total [OF assms(3), of "(rp_id R, ref_name ref_type b)"] by (auto simp: find_ref_def)
  then obtain f where f: "find_ref (rp_id R) (ref_name ref_type b) (sv_db S) = Inr (Some f)"
    using assms(4) find_ref_no_branch [OF assms(3)] by (cases x) auto
  have "10 \<le> token_level tok"
    by (auto simp: token_level_def level_of_def role_levels_def legacy_perm_map_def split: option.split)
  then have "require_permission (str ''read'') tok = Inr ()"
    by (simp add: require_permission_def required_level_def role_levels_def legacy_perm_map_def str_def)
  with f assms(1,2) find_ref_branch [OF assms(3) f] assms(4) show ?thesis
    by (simp add: client_get_ref_def get_ref_def not_found_def)
qed

text \<open>The parts of a pull that finds a branch.\<close>

lemma pull_parts:
  assumes "cli_pull E W st rn given s = (s', Inr ())" "branch_or_current given (ss_repo s) = (ss_repo s, Inr b)"
    and "build_remote_client (g_config (ss_repo s)) rn = Inr c" "client_get_ref E st c (str ''heads'') b (ss_server s) = Inr (Some r)"
    and "get_branch (g_refs (ss_repo s)) b = Inr local"
  shows "\<exists>s1. stats_only (ss_repo s) (ss_repo s1) \<and> ss_server s1 = ss_server s \<and>
    (if local = Some r then s' = s1
     else \<exists>s2. fetchC E st c r local s1 = (s2, Inr ()) \<and>
       (\<forall>l. local = Some l \<longrightarrow> is_ancestor E (g_objects (ss_repo s2)) l r = Inr True) \<and>
       seqC (localC (refsC (\<lambda>refs. set_branch refs b r))) (localC (pull_files E W r local)) s2 = (s', Inr ()))"
proof -
  obtain g1 x where g1: "has_uncommitted_changes E W (ss_repo s) = (g1, x)" by fastforce
  have st: "stats_only (ss_repo s) g1" using has_uncommitted_frame [OF g1] .
  then have g: "g_config g1 = g_config (ss_repo s)" "g_refs g1 = g_refs (ss_repo s)" by (auto simp: stats_only_def)
  define s1 where "s1 = s\<lparr>ss_repo := g1\<rparr>"
  then have s1: "ss_repo s1 = g1" "ss_server s1 = ss_server s" by simp_all
  have 1: "localC (branch_or_current given) s = (s, Inr b)" "localC (has_uncommitted_changes E W) s = (s1, x)"
    using assms(2) g1 by (simp_all add: localC_def s1_def)
  have 2: "configC (\<lambda>f. build_remote_client f rn) s1 = (s1, Inr c)" "remote_tipC E st c b s1 = (s1, Inr (Some r))"
    using assms(3,4) g s1 by (simp_all add: configC_def localC_read remote_tipC_def serverC_def boundaryC_def)
  have x: "x = Inr False" using assms(1) by (cases x) (auto simp: cli_pull_def seqC_def bindC_def 1 split: if_splits)
  have 3: "bindC (localC (has_uncommitted_changes E W)) f s = f False s1" for f :: "bool \<Rightarrow> unit remote"
    using 1(2) x by (simp add: bindC_def)
  from assms(1) have run: "(if local = Some r then ret ()
      else seqC (fetchC E st c r local) (
           seqC (case local of None \<Rightarrow> ret ()
             | Some l \<Rightarrow> bindC (localC (readC (\<lambda>g. is_ancestor E (g_objects g) l r))) needC) (
           seqC (localC (refsC (\<lambda>refs. set_branch refs b r)))
                (localC (pull_files E W r local))))) s1 = (s', Inr ())"
    by (simp add: cli_pull_def localC_read 1(1) 3 2 assms(5) g s1)
  have anc: "s3 = s2 \<and> (\<forall>l. local = Some l \<longrightarrow> is_ancestor E (g_objects (ss_repo s2)) l r = Inr True)"
    if "(case local of None \<Rightarrow> ret ()
      | Some l \<Rightarrow> bindC (localC (readC (\<lambda>g. is_ancestor E (g_objects g) l r))) needC) s2 = (s3, Inr ())" for s2 s3
    using that by (auto simp: bindC_Inr localC_def split: option.splits if_splits)
  show ?thesis
  proof (cases "local = Some r")
    case True
    with run st s1 show ?thesis by auto
  next
    case False
    with run obtain s2 s3 where r: "fetchC E st c r local s1 = (s2, Inr ())"
      "(case local of None \<Rightarrow> ret ()
        | Some l \<Rightarrow> bindC (localC (readC (\<lambda>g. is_ancestor E (g_objects g) l r))) needC) s2 = (s3, Inr ())"
      "seqC (localC (refsC (\<lambda>refs. set_branch refs b r))) (localC (pull_files E W r local)) s3 = (s', Inr ())"
      unfolding if_not_P [OF False] seqC_Inr [of "fetchC E st c r local"] seqC_Inr [of "case local of None \<Rightarrow> ret () | Some l \<Rightarrow> f l" for f]
      by auto
    with anc [OF r(2)] False st s1 show ?thesis by auto
  qed
qed

section \<open>A small pull\<close>

definition pull_repo :: repo where
  "pull_repo = (demo_clone None)\<lparr>g_refs := refs_init no_refs, g_config := push_config, g_work := [], g_mtimes := []\<rparr>"

definition pull_db :: db where
  "pull_db = push_db\<lparr>db_refs := [\<lparr>rf_repo = 1, rf_name = ref_name (str ''heads'') (str ''main''), rf_target = data_head\<rparr>]\<rparr>"

definition pull_session :: session where
  "pull_session = \<lparr>ss_repo = pull_repo, ss_server = \<lparr>sv_db = pull_db, sv_disk = (\<lambda>_. data_disk), sv_jobs = []\<rparr>\<rparr>"

lemma pull_simps [simp]:
  "ss_repo pull_session = pull_repo" "sv_db (ss_server pull_session) = pull_db" "sv_disk (ss_server pull_session) r = data_disk"
  "g_objects pull_repo = data_disk" "g_refs pull_repo = refs_init no_refs" "g_config pull_repo = push_config" "g_work pull_repo = []"
  "g_sparse pull_repo = None" "pull_session\<lparr>ss_repo := pull_repo\<rparr> = pull_session" "db_tokens pull_db = db_tokens push_db"
  by (simp_all add: pull_session_def pull_repo_def demo_clone_def pull_db_def)

lemma pull_asker: "sv_db S = pull_db \<Longrightarrow> asker demo_env push_site push_client S = Inr demo_bearer"
proof -
  assume S: "sv_db S = pull_db"
  have "asker demo_env push_site push_client S = asker demo_env push_site push_client (ss_server push_session)"
    by (simp add: asker_def verify_token_def bearer_token_def S headers_of_def Let_def)
  then show ?thesis using push_asker by simp
qed

lemma pull_found: "get_repo (str ''r'') pull_db = Inr \<lparr>rp_id = 1, rp_name = str ''r''\<rparr>" "refs.unique pull_db"
  "branch pull_db (1, ref_name (str ''heads'') (str ''main'')) = Some data_head"
  by (simp_all add: get_repo_def need_row_def one_or_none_def pull_db_def push_db_def refs.unique_def branch_def)

lemma no_refs_head: "current_branch (refs_init no_refs) = Inr (Some (str ''main''))" "get_branch (refs_init no_refs) (str ''main'') = Inr None"
  "resolve_head (refs_init no_refs) = Inr None"
proof -
  have t: "py_strip (newlines (str ''ref:main'' @ [10])) = str ''ref:main''" by (simp add: str_def py_strip_def py_space_def)
  show c: "current_branch (refs_init no_refs) = Inr (Some (str ''main''))"
    by (simp add: current_branch_def get_head_def refs_init_def no_refs_def t branch_of_head_def)
       (simp add: py_startswith_def str_def)
  show g: "get_branch (refs_init no_refs) (str ''main'') = Inr None"
    by (simp add: get_branch_def ref_read_def main_parts refs_init_def no_refs_def make_root_def)
  show "resolve_head (refs_init no_refs) = Inr None"
    using c g by (auto simp: current_branch_def resolve_head_def bindE_eq_Inr)
qed

lemma pull_given: "branch_or_current None pull_repo = (pull_repo, Inr (str ''main''))"
proof -
  have "url_name (str ''main'')" by code_simp
  then show ?thesis using no_refs_head(1) by (simp add: branch_or_current_def current_branchC_def bindC_def)
qed

lemma pull_clean: "has_uncommitted_changes demo_env demo_world pull_repo = (pull_repo, Inr False)"
  using no_refs_head(3)
  by (simp add: has_uncommitted_changes_def headC_def bindC_def find_jsonl_files_def tree_paths_def)

lemma pull_writes:
  assumes "g_objects g = data_disk" "g_work g = []" "g_sparse g = None"
  shows "\<exists>g'. pull_files demo_env demo_world data_head None g = (g', Inr ())"
proof -
  have rd: "rendered demo_env data_disk (str ''manifest'') data_manifest = Inr [123, 125, 10]"
    using data_read by (simp add: rendered_def data_manifest_def data_entries utf8_encode_def utf8_char_def)
  obtain g' where c: "checkout_manifest demo_env demo_world (str ''t'') data_manifest g = (g', Inr ())"
    using rd assms by (auto simp: checkout_manifest_Inr under_file_def is_wdir_def)
  have "flatten_tree demo_env data_disk (rec_limit demo_env) (tree_hash data_commit) [] =
      Inr [(str ''t'', (str ''manifest'', data_manifest, None))]" using data_flat by (simp add: data_manifest_def)
  then show ?thesis
    using assms c data_read_commit
    by (simp add: pull_files_def commitC_def old_treeC_def materialize_tree_def materialize_flat_def flatC_def manifests_of_def blobs_of_def
        load_sparse_paths_def in_sparse_def Let_def str_def)
qed

lemma pull_runs: "\<exists>s'. cli_pull demo_env demo_world push_site (str ''origin'') None pull_session = (s', Inr ())"
proof -
  have "held demo_env data_disk (KCommit, data_head)" using data_read_commit by (auto simp: held_def read_defs load_Some)
  then have "store_exists data_disk (str ''commits'') data_head = Inr True"
    using exists_held [OF data_disk_inv, of KCommit data_head] data_head_digest by (auto simp: store_exists_def)
  then have "fetch_objects_since demo_env (Some data_disk) data_head None data_disk = (data_disk, Inr ())"
    by (rule stored_commit_skipped)
  then have f: "fetchC demo_env push_site push_client data_head None pull_session = (pull_session, Inr ())"
    by (simp add: fetchC_def downloadsC_def serverC_def boundaryC_def object_server_def pull_asker pull_found localC_def objectsC_def)
  obtain refs where refs: "set_branch (refs_init no_refs) (str ''main'') data_head = Inr refs"
    by (simp add: set_branch_def ref_write_def main_parts atomic_write_def parents_of_def rd_is_file_def refs_init_def no_refs_def make_root_def)
  obtain g' where w: "pull_files demo_env demo_world data_head None (pull_repo\<lparr>g_refs := refs\<rparr>) = (g', Inr ())"
    using pull_writes [of "pull_repo\<lparr>g_refs := refs\<rparr>"] by auto
  have 1: "localC (branch_or_current None) pull_session = (pull_session, Inr (str ''main''))"
    "bindC (localC (has_uncommitted_changes demo_env demo_world)) k pull_session = k False pull_session"
    "remote_tipC demo_env push_site push_client (str ''main'') pull_session = (pull_session, Inr (Some data_head))" for k :: "bool \<Rightarrow> unit remote"
    using pull_given pull_clean get_ref_found [OF pull_asker, of "ss_server pull_session"] pull_found
    by (simp_all add: localC_def bindC_def remote_tipC_def serverC_def boundaryC_def)
  show ?thesis
    using 1 f refs w no_refs_head(2) push_remote
    by (simp add: cli_pull_def localC_read configC_def) (simp add: localC_def refsC_def stepC_def seqC_def bindC_def)
qed

section \<open>Properties\<close>



end
