(* ===== verification/Dit_Routes.thy ===== *)
theory Dit_Routes
  imports Dit_Server Dit_Work Dit_Blame Dit_Stats Dit_Validate Dit_Export Dit_Fsck
begin

text \<open>
  The routes of \<open>src/dit/server/routes/\<close> that answer from the store of a repository: log, trees, manifests,
  diffs, metadata, statistics, search, validation, blame, duplicates, export, and the two
  administrative ones that check and collect the store. A handler takes the token, the database and the store; only the
  collection changes the store. Threads that compute summaries share the cache of \<open>Dit_Cache\<close>, whose
  answers are those of \<open>summary_of\<close>.
\<close>

section \<open>What the handlers share\<close>

definition open_repo :: "string \<Rightarrow> token_row \<Rightarrow> pystr \<Rightarrow> db \<Rightarrow> repo_row res" where
  "open_repo required tok repo s = bindE (require_permission (str required) tok) (\<lambda>_. get_repo repo s)"

text \<open>A parameter of the query outside its range is refused with 422.\<close>

definition in_range :: "bool \<Rightarrow> unit res" where
  "in_range b = (if b then Inr () else Inl (HTTPException 422))"

definition target_of_ref :: "int \<Rightarrow> pystr \<Rightarrow> db \<Rightarrow> pystr res" where
  "target_of_ref i ref s = bindE (must (HTTPException 404) (find_ref i ref s)) (\<lambda>r. Inr (rf_target r))"

text \<open>A full digest stands for a commit, anything else is the name of a ref.\<close>

definition commit_at :: "int \<Rightarrow> pystr \<Rightarrow> db \<Rightarrow> pystr res" where
  "commit_at i ref s = (if hex_digest ref then Inr ref else target_of_ref i ref s)"

text \<open>\<open>except\<close> clauses that answer with a status. Decoding errors are kinds of \<open>ValueError\<close>.\<close>

definition answer_with :: "(err \<Rightarrow> bool) \<Rightarrow> nat \<Rightarrow> 'a res \<Rightarrow> 'a res" where
  "answer_with P code r = (case r of Inl e \<Rightarrow> Inl (if P e then HTTPException code else e) | Inr x \<Rightarrow> Inr x)"

abbreviation or_404 :: "'a res \<Rightarrow> 'a res" where
  "or_404 \<equiv> answer_with (\<lambda>e. e = FileNotFoundError) 404"

definition flat_at :: "env \<Rightarrow> disk \<Rightarrow> nat \<Rightarrow> pystr \<Rightarrow> flat_entry dict res" where
  "flat_at E d code h =
     bindE (must (HTTPException code) (read_commit E d h)) (\<lambda>c. flatten_tree E d (rec_limit E) (tree_hash c) [])"

text \<open>\<open>xs[a:b]\<close>; a negative bound counts from the end.\<close>

definition slice_bound :: "nat \<Rightarrow> int \<Rightarrow> nat" where
  "slice_bound n i = (if i < 0 then nat (int n + i) else min n (nat i))"

definition py_slice :: "int \<Rightarrow> int \<Rightarrow> 'a list \<Rightarrow> 'a list" where
  "py_slice a b xs =
     (let i = slice_bound (length xs) a; j = slice_bound (length xs) b in take (j - i) (drop i xs))"

lemma py_slice_nat: "py_slice (int a) (int a + int n) xs = take n (drop a xs)"
  by (cases "a \<le> length xs") (auto simp: py_slice_def slice_bound_def Let_def nat_add_distrib min_def)

section \<open>Log\<close>

text \<open>
  The loop over first parents. Its queue never holds more than one hash, so a visited one ends it; the number is how many commits
  are still wanted.
\<close>

primrec log_chain :: "env \<Rightarrow> disk \<Rightarrow> nat \<Rightarrow> pystr set \<Rightarrow> pystr \<Rightarrow> (pystr \<times> commit) list res" where
  "log_chain E d 0 visited chash = Inr []"
| "log_chain E d (Suc n) visited chash =
     (if chash \<in> visited then Inr []
      else bindE (read_commit E d chash) (\<lambda>x. case x of
          None \<Rightarrow> Inr []
        | Some c \<Rightarrow> (case parent_hashes c of
              [] \<Rightarrow> Inr [(chash, c)]
            | p # _ \<Rightarrow> bindE (log_chain E d n (insert chash visited) p) (\<lambda>rest. Inr ((chash, c) # rest)))))"

definition log_start :: "env \<Rightarrow> disk \<Rightarrow> int \<Rightarrow> pystr \<Rightarrow> db \<Rightarrow> pystr res" where
  "log_start E d i ref s =
     bindE (find_ref i ref s) (\<lambda>r. case r of
       Some r \<Rightarrow> Inr (rf_target r)
     | None \<Rightarrow> (case store_read E d (str ''commits'') ref of
           Inr (Some _) \<Rightarrow> Inr ref
         | Inr None \<Rightarrow> Inl (HTTPException 404)
         | Inl e \<Rightarrow> Inl (if is_value_error e then HTTPException 404 else e)))"

record log_page =
  lp_ref :: pystr
  lp_total :: nat
  lp_offset :: nat
  lp_limit :: nat
  lp_commits :: "(pystr \<times> commit) list"

definition get_log :: "env \<Rightarrow> token_row \<Rightarrow> pystr \<Rightarrow> pystr \<Rightarrow> int \<Rightarrow> int \<Rightarrow> db \<Rightarrow> disk \<Rightarrow> log_page res" where
  "get_log E tok repo ref limit offset s d =
     bindE (require_permission (str ''read'') tok) (\<lambda>_.
     bindE (in_range (1 \<le> limit \<and> limit \<le> 200 \<and> 0 \<le> offset)) (\<lambda>_.
     bindE (get_repo repo s) (\<lambda>r.
     bindE (log_start E d (rp_id r) ref s) (\<lambda>start.
     bindE (log_chain E d (nat (offset + limit)) {} start) (\<lambda>commits.
       let page = take (nat limit) (drop (nat offset) commits) in
       Inr \<lparr>lp_ref = ref, lp_total = length commits, lp_offset = nat offset, lp_limit = length page, lp_commits = page\<rparr>)))))"

section \<open>Trees and manifests\<close>

definition get_tree :: "env \<Rightarrow> token_row \<Rightarrow> pystr \<Rightarrow> pystr \<Rightarrow> pystr \<Rightarrow> db \<Rightarrow> disk \<Rightarrow> (pystr \<times> pystr \<times> tree_entry list) res" where
  "get_tree E tok repo commit_hash path s d =
     bindE (open_repo ''read'' tok repo s) (\<lambda>_.
     bindE (must (HTTPException 404) (read_commit E d commit_hash)) (\<lambda>c.
     bindE (must (HTTPException 404) (resolve_path E d (tree_hash c) (strip_slash path))) (\<lambda>es.
       Inr (commit_hash, strip_slash path, es))))"

record manifest_page =
  mp_commit :: pystr
  mp_path :: pystr
  mp_total :: nat
  mp_offset :: nat
  mp_limit :: nat
  mp_entries :: "manifest_entry list"

definition get_manifest :: "env \<Rightarrow> token_row \<Rightarrow> pystr \<Rightarrow> pystr \<Rightarrow> pystr \<Rightarrow> int \<Rightarrow> int \<Rightarrow> db \<Rightarrow> disk \<Rightarrow> manifest_page res" where
  "get_manifest E tok repo commit_hash path offset limit s d =
     bindE (require_permission (str ''read'') tok) (\<lambda>_. bindE (in_range (0 \<le> offset \<and> 1 \<le> limit)) (\<lambda>_.
     bindE (get_repo repo s) (\<lambda>_.
     bindE (must (HTTPException 404) (read_commit E d commit_hash)) (\<lambda>c.
     let clean_path = strip_slash path in
     bindE (must (HTTPException 404) (resolve_entry E d (tree_hash c) clean_path)) (\<lambda>(obj_type, obj_hash, _).
       if obj_type \<noteq> str ''manifest'' then Inl (HTTPException 404)
       else bindE (must (HTTPException 404) (read_manifest E d obj_hash)) (\<lambda>m.
         let page = take (nat (min limit 500)) (drop (nat offset) (entries m)) in
         Inr \<lparr>mp_commit = commit_hash, mp_path = clean_path, mp_total = length (entries m), mp_offset = nat offset,
              mp_limit = length page, mp_entries = page\<rparr>))))))"

section \<open>Blame, duplicates and statistics\<close>

datatype blame_answer = Blame blame_report | Row_history history_report

text \<open>The number bounds the walk through the history, as in \<open>Dit_Blame\<close>.\<close>

definition blame_route ::
  "env \<Rightarrow> nat \<Rightarrow> token_row \<Rightarrow> pystr \<Rightarrow> pystr \<Rightarrow> pystr \<Rightarrow> int option \<Rightarrow> db \<Rightarrow> disk \<Rightarrow> blame_answer res" where
  "blame_route E n tok repo commit_hash fl row s d =
     bindE (open_repo ''read'' tok repo s) (\<lambda>_. or_404 (case row of
       Some i \<Rightarrow> answer_with (\<lambda>e. e = IndexError) 400
         (bindE (row_history E d n commit_hash fl i) (\<lambda>h. Inr (Row_history h)))
     | None \<Rightarrow> bindE (blame_file E d n commit_hash fl) (\<lambda>b. Inr (Blame b))))"

definition dedup_route :: "env \<Rightarrow> token_row \<Rightarrow> pystr \<Rightarrow> pystr \<Rightarrow> pystr option \<Rightarrow> db \<Rightarrow> disk \<Rightarrow> dedup_report res" where
  "dedup_route E tok repo commit_hash path s d =
     bindE (open_repo ''read'' tok repo s) (\<lambda>_. or_404 (detect_duplicates E d commit_hash path))"

definition stats_route ::
  "env \<Rightarrow> (bytes \<Rightarrow> nat option res) \<Rightarrow> pystr \<Rightarrow> token_row \<Rightarrow> pystr \<Rightarrow> pystr \<Rightarrow> pystr option \<Rightarrow> bool \<Rightarrow> db \<Rightarrow> disk \<Rightarrow>
     size_state \<Rightarrow> size_state \<times> stats_report res" where
  "stats_route E frame_size root tok repo commit_hash path include_size s d z =
     (case open_repo ''read'' tok repo s of
        Inl e \<Rightarrow> (z, Inl e)
      | Inr _ \<Rightarrow> let (z', r) = repo_stats E frame_size root d commit_hash path include_size z in (z', or_404 r))"

section \<open>Search and validation\<close>

record search_request =
  sq_ref :: pystr
  sq_query :: pystr
  sq_file :: "pystr option"
  sq_field :: "pystr option"
  sq_limit :: int

definition search_route :: "env \<Rightarrow> pyfmt \<Rightarrow> token_row \<Rightarrow> pystr \<Rightarrow> search_request \<Rightarrow> db \<Rightarrow> disk \<Rightarrow> search_report res" where
  "search_route E F tok repo body s d =
     bindE (open_repo ''read'' tok repo s) (\<lambda>r.
     bindE (commit_at (rp_id r) (sq_ref body) s) (\<lambda>commit_hash.
       or_404 (search_rows E F d commit_hash (sq_query body) (sq_file body) (sq_field body) (sq_limit body))))"

definition validate_route ::
  "env \<Rightarrow> pyfmt \<Rightarrow> (pystr \<Rightarrow> json res) \<Rightarrow> token_row \<Rightarrow> pystr \<Rightarrow> pystr \<Rightarrow> db \<Rightarrow> disk \<Rightarrow> validation res" where
  "validate_route E F yaml tok repo ref s d =
     bindE (open_repo ''read'' tok repo s) (\<lambda>r.
     bindE (commit_at (rp_id r) ref s) (\<lambda>commit_hash.
     bindE (load_rules_from_store E F yaml d commit_hash) (\<lambda>R. or_404 (validate_commit E F d commit_hash R))))"

section \<open>Export\<close>

text \<open>
  A download: the file is exported to an empty directory and read back as text, which turns every line end into a newline.
\<close>

definition export_route ::
  "env \<Rightarrow> pyfmt \<Rightarrow> pystr list \<Rightarrow> token_row \<Rightarrow> pystr \<Rightarrow> pystr \<Rightarrow> pystr \<Rightarrow> pystr \<Rightarrow> db \<Rightarrow> disk \<Rightarrow> pystr res" where
  "export_route E F tmpdir tok repo commit_hash fl fmt s d =
     bindE (open_repo ''read'' tok repo s) (\<lambda>_.
       if fmt \<notin> {str ''jsonl'', str ''csv''} then Inl (HTTPException 400)
       else let clean_path = lstrip_slash fl;
                (files, r) = export_commit E F d commit_hash tmpdir (Some clean_path) fmt False [] in
         bindE (answer_with is_value_error 400 (or_404 r)) (\<lambda>_.
         bindE (if fmt = str ''csv'' then with_csv_suffix (join_path tmpdir clean_path) else Inr (join_path tmpdir clean_path)) (\<lambda>dest.
           case map_of files dest of
             None \<Rightarrow> Inl (HTTPException 404)
           | Some content \<Rightarrow> bindE (utf8_decode False content) (\<lambda>text. Inr (newlines text)))))"

section \<open>Collection and check of the store\<close>

definition repo_targets :: "int \<Rightarrow> db \<Rightarrow> pystr list" where
  "repo_targets i s = map rf_target (filter (\<lambda>f. rf_repo f = i) (db_refs s))"

definition gc_route ::
  "env \<Rightarrow> token_row \<Rightarrow> pystr \<Rightarrow> int \<Rightarrow> bool \<Rightarrow> db \<Rightarrow> disk \<Rightarrow> (gc_result \<times> disk) res" where
  "gc_route E tok repo grace_hours dry_run s d =
     bindE (open_repo ''admin'' tok repo s) (\<lambda>r.
       gc E d (repo_targets (rp_id r) s) None (grace_hours * 3600) dry_run)"

definition fsck_route ::
  "env \<Rightarrow> token_row \<Rightarrow> pystr \<Rightarrow> bool \<Rightarrow> bool \<Rightarrow> db \<Rightarrow> disk \<Rightarrow> fsck_result res" where
  "fsck_route E tok repo check_hashes check_graph s d =
     bindE (open_repo ''admin'' tok repo s) (\<lambda>r.
       fsck E d (repo_targets (rp_id r) s) check_hashes check_graph)"

section \<open>Metadata\<close>

record computed_summary =
  cs_file :: pystr
  cs_summary :: summary_info

text \<open>
  \<open>meta/compute\<close>: the summaries of the files that have no sidecar, or of all with \<open>refresh\<close>; nothing is stored. \<open>root\<close>
  is the store's part of the cache keys.
\<close>

definition meta_compute_route ::
  "env \<Rightarrow> pystr \<Rightarrow> token_row \<Rightarrow> pystr \<Rightarrow> pystr option \<Rightarrow> bool \<Rightarrow> db \<Rightarrow> disk \<Rightarrow> (pystr \<times> computed_summary list) res" where
  "meta_compute_route E root tok repo file refresh s d =
     bindE (open_repo ''push'' tok repo s) (\<lambda>r.
     bindE (must (HTTPException 400) (find_ref (rp_id r) (str ''heads/main'') s)) (\<lambda>ref.
     bindE (flat_at E d 400 (rf_target ref)) (\<lambda>flat.
     bindE (mapE (\<lambda>(path, _, obj_hash, _). bindE (summary_of E (\<lambda>_. d) (root, obj_hash)) (\<lambda>sm.
           Inr \<lparr>cs_file = path, cs_summary = sm\<rparr>))
         (filter (\<lambda>(path, obj_type, _, sidecar_hash). obj_type = str ''manifest'' \<and>
             (file \<noteq> None \<longrightarrow> path = lstrip_slash (the file)) \<and> (sidecar_hash \<noteq> None \<longrightarrow> refresh)) flat)) (\<lambda>computed.
       Inr (rf_target ref, computed)))))"

text \<open>
  The summary on one side of a comparison: that of the sidecar, of nothing when there is no entry, and none
  when there is no sidecar.
\<close>

definition entry_summary :: "env \<Rightarrow> disk \<Rightarrow> flat_entry option \<Rightarrow> summary_info option res" where
  "entry_summary E d entry =
     (case entry of
        None \<Rightarrow> Inr (Some \<lparr>sum_rows = 0, sum_chars = 0, sum_tokens = 0, avg_fields = (0, 1), lang_distribution = []\<rparr>)
      | Some (_, _, None) \<Rightarrow> Inr None
      | Some (_, _, Some sc) \<Rightarrow> bindE (read_sidecar E d sc) (\<lambda>x. Inr (map_option sidecar_summary x)))"

text \<open>Equality of the two dictionaries: the averages as rounded, the languages in any order.\<close>

definition same_summary :: "pyfmt \<Rightarrow> summary_info \<Rightarrow> summary_info \<Rightarrow> bool" where
  "same_summary F a b \<longleftrightarrow> sum_rows a = sum_rows b \<and> sum_chars a = sum_chars b \<and> sum_tokens a = sum_tokens b \<and>
     round2_div F (avg_fields a) = round2_div F (avg_fields b) \<and>
     set (lang_distribution a) = set (lang_distribution b)"

record summary_delta =
  sd_rows :: int
  sd_chars :: int
  sd_tokens :: int

record meta_change =
  mt_path :: pystr
  mt_old :: summary_info
  mt_new :: summary_info
  mt_delta :: summary_delta

definition meta_diff_file ::
  "env \<Rightarrow> pyfmt \<Rightarrow> disk \<Rightarrow> flat_entry dict \<Rightarrow> flat_entry dict \<Rightarrow> pystr \<Rightarrow> meta_change list res" where
  "meta_diff_file E F d old_flat new_flat path =
     (let old_entry = map_of old_flat path; new_entry = map_of new_flat path;
          other = (\<lambda>e. case e of Some (ty, _) \<Rightarrow> ty \<noteq> str ''manifest'' | None \<Rightarrow> False) in
      if other old_entry \<or> other new_entry then Inr []
      else bindE (entry_summary E d old_entry) (\<lambda>old_stats. bindE (entry_summary E d new_entry) (\<lambda>new_stats.
        Inr (case (old_stats, new_stats) of
          (Some a, Some b) \<Rightarrow>
            if same_summary F a b then []
            else [\<lparr>mt_path = path, mt_old = a, mt_new = b,
                   mt_delta = \<lparr>sd_rows = sum_rows b - sum_rows a, sd_chars = sum_chars b - sum_chars a,
                               sd_tokens = sum_tokens b - sum_tokens a\<rparr>\<rparr>]
        | _ \<Rightarrow> []))))"

text \<open>\<open>sorted(set(a) | set(b))\<close> of the keys of two dictionaries.\<close>

definition all_keys :: "'v dict \<Rightarrow> 'v dict \<Rightarrow> pystr list" where
  "all_keys a b = sort (remdups (map fst a @ map fst b))"

definition meta_diff_route ::
  "env \<Rightarrow> pyfmt \<Rightarrow> token_row \<Rightarrow> pystr \<Rightarrow> pystr \<Rightarrow> pystr \<Rightarrow> pystr option \<Rightarrow> db \<Rightarrow> disk \<Rightarrow> meta_change list res" where
  "meta_diff_route E F tok repo old_commit new_commit file s d =
     bindE (open_repo ''read'' tok repo s) (\<lambda>_.
     bindE (flat_at E d 404 old_commit) (\<lambda>old_flat. bindE (flat_at E d 404 new_commit) (\<lambda>new_flat.
     bindE (mapE (meta_diff_file E F d old_flat new_flat)
         (filter (\<lambda>p. truthy file \<longrightarrow> p = lstrip_slash (the file)) (all_keys old_flat new_flat))) (\<lambda>cs.
       Inr (concat cs)))))"

definition listed_manifest :: "flat_entry dict \<Rightarrow> pystr \<Rightarrow> (pystr \<times> pystr option) res" where
  "listed_manifest flat path =
     (case map_of flat path of
        None \<Rightarrow> Inl (HTTPException 404)
      | Some (obj_type, obj_hash, sidecar_hash) \<Rightarrow>
          if obj_type \<noteq> str ''manifest'' then Inl (HTTPException 404) else Inr (obj_hash, sidecar_hash))"

definition meta_summary_route ::
  "env \<Rightarrow> pystr \<Rightarrow> token_row \<Rightarrow> pystr \<Rightarrow> pystr \<Rightarrow> pystr \<Rightarrow> db \<Rightarrow> disk \<Rightarrow> summary_info res" where
  "meta_summary_route E root tok repo commit_hash fl s d =
     bindE (open_repo ''read'' tok repo s) (\<lambda>_. bindE (flat_at E d 404 commit_hash) (\<lambda>flat.
     bindE (listed_manifest flat (lstrip_slash fl)) (\<lambda>(obj_hash, sidecar_hash).
     let computed = summary_of E (\<lambda>_. d) (root, obj_hash) in
     case sidecar_hash of
       None \<Rightarrow> computed
     | Some sc \<Rightarrow> bindE (read_sidecar E d sc) (\<lambda>x. case x of
           None \<Rightarrow> computed | Some y \<Rightarrow> Inr (sidecar_summary y)))))"

definition meta_get_route ::
  "env \<Rightarrow> token_row \<Rightarrow> pystr \<Rightarrow> pystr \<Rightarrow> pystr \<Rightarrow> db \<Rightarrow> disk \<Rightarrow> (pystr \<times> pystr \<times> sidecar) res" where
  "meta_get_route E tok repo commit_hash fl s d =
     bindE (open_repo ''read'' tok repo s) (\<lambda>_. bindE (flat_at E d 404 commit_hash) (\<lambda>flat.
     bindE (listed_manifest flat (lstrip_slash fl)) (\<lambda>(_, sidecar_hash).
     bindE (must (HTTPException 404) (Inr sidecar_hash)) (\<lambda>sc.
     bindE (must (HTTPException 404) (read_sidecar E d sc)) (\<lambda>y. Inr (commit_hash, lstrip_slash fl, y))))))"

section \<open>Diff\<close>

record diff_request =
  df_old_commit :: "pystr option"
  df_new_commit :: "pystr option"
  df_from_ref :: "pystr option"
  df_to_ref :: "pystr option"
  df_path :: "pystr option"
  df_rows :: bool
  df_offset :: int
  df_limit :: int

definition diff_side :: "int \<Rightarrow> pystr option \<Rightarrow> pystr option \<Rightarrow> db \<Rightarrow> pystr option res" where
  "diff_side i ref commit s =
     (if truthy ref \<and> \<not> truthy commit then bindE (target_of_ref i (the ref) s) (\<lambda>h. Inr (Some h)) else Inr commit)"

definition manifest_map :: "flat_entry dict \<Rightarrow> pystr dict" where
  "manifest_map flat = map (\<lambda>(p, _, h, _). (p, h)) (filter (\<lambda>(_, ty, _). ty = str ''manifest'') flat)"

definition diff_side_manifest :: "env \<Rightarrow> disk \<Rightarrow> pystr option \<Rightarrow> manifest res" where
  "diff_side_manifest E d h =
     (if \<not> truthy h then Inr \<lparr>entries = []\<rparr>
      else bindE (store_read E d (str ''manifests'') (the h)) (\<lambda>x. case x of
          None \<Rightarrow> Inr \<lparr>entries = []\<rparr>
        | Some b \<Rightarrow> if b = [] then Inr \<lparr>entries = []\<rparr> else deserialize_manifest b))"

text \<open>The content of a row, \<open>None\<close> when it cannot be parsed.\<close>

definition row_content :: "env \<Rightarrow> disk \<Rightarrow> pystr \<Rightarrow> json res" where
  "row_content E d rh =
     bindE (store_read E d (str ''rows'') rh) (\<lambda>x. Inr (case x of
       None \<Rightarrow> JNull | Some b \<Rightarrow> (case json_loads_bytes b of Inl _ \<Rightarrow> JNull | Inr v \<Rightarrow> v)))"

record shown_row =
  rw_hash :: pystr
  rw_position :: int
  rw_content :: json

record refreshed_entry =
  re_old_hash :: pystr
  re_new_hash :: pystr
  re_qfp :: pystr
  re_old_content :: json
  re_new_content :: json

record diff_rows =
  dw_added :: "shown_row list"
  dw_removed :: "shown_row list"
  dw_refreshed :: "refreshed_entry list"
  dw_total_changes :: nat
  dw_has_more :: bool

definition row_entries :: "env \<Rightarrow> disk \<Rightarrow> int \<Rightarrow> manifest_entry list \<Rightarrow> shown_row list res" where
  "row_entries E d offset page =
     mapE (\<lambda>(i, e). bindE (row_content E d (row_hash e)) (\<lambda>v.
       Inr \<lparr>rw_hash = row_hash e, rw_position = int i + offset, rw_content = v\<rparr>)) (py_enumerate page)"

definition refreshed_entry_of :: "env \<Rightarrow> disk \<Rightarrow> pystr \<times> pystr \<times> pystr \<Rightarrow> refreshed_entry res" where
  "refreshed_entry_of E d p =
     (let (old_rh, new_rh, qfp) = p in
      bindE (row_content E d old_rh) (\<lambda>a. bindE (row_content E d new_rh) (\<lambda>b.
        Inr \<lparr>re_old_hash = old_rh, re_new_hash = new_rh, re_qfp = qfp, re_old_content = a, re_new_content = b\<rparr>)))"

definition diff_rows_of :: "env \<Rightarrow> disk \<Rightarrow> int \<Rightarrow> int \<Rightarrow> diff_result \<Rightarrow> diff_rows res" where
  "diff_rows_of E d offset limit r =
     bindE (row_entries E d offset (py_slice offset (offset + limit) (added r))) (\<lambda>as.
     bindE (row_entries E d offset (py_slice offset (offset + limit) (removed r))) (\<lambda>rs.
     bindE (mapE (refreshed_entry_of E d) (py_slice offset (offset + limit) (refreshed r))) (\<lambda>fs.
       Inr \<lparr>dw_added = as, dw_removed = rs, dw_refreshed = fs,
            dw_total_changes = length (added r) + length (removed r) + length (refreshed r),
            dw_has_more = (offset + limit < int (length (added r)) \<or> offset + limit < int (length (removed r)) \<or>
              offset + limit < int (length (refreshed r)))\<rparr>)))"

record file_diff =
  fd_path :: pystr
  fd_added :: nat
  fd_removed :: nat
  fd_refreshed :: nat
  fd_old_total :: nat
  fd_new_total :: nat
  fd_rows :: "diff_rows option"

definition diff_file ::
  "env \<Rightarrow> disk \<Rightarrow> diff_request \<Rightarrow> pystr dict \<Rightarrow> pystr dict \<Rightarrow> pystr \<Rightarrow> file_diff list res" where
  "diff_file E d body old_manifests new_manifests path =
     (let old_m_hash = map_of old_manifests path; new_m_hash = map_of new_manifests path in
      if old_m_hash = new_m_hash then Inr []
      else bindE (diff_side_manifest E d old_m_hash) (\<lambda>om. bindE (diff_side_manifest E d new_m_hash) (\<lambda>nm.
        bindE (diff_manifests om nm) (\<lambda>r.
        bindE (if df_rows body then bindE (diff_rows_of E d (df_offset body) (df_limit body) r) (\<lambda>w. Inr (Some w))
               else Inr None) (\<lambda>rows.
          Inr [\<lparr>fd_path = path, fd_added = length (added r), fd_removed = length (removed r),
                fd_refreshed = length (refreshed r), fd_old_total = length (entries om),
                fd_new_total = length (entries nm), fd_rows = rows\<rparr>])))))"

record diff_answer =
  da_old_commit :: pystr
  da_new_commit :: pystr
  da_files_changed :: nat
  da_rows_added :: nat
  da_rows_removed :: nat
  da_rows_refreshed :: nat
  da_files :: "file_diff list"

definition diff_route :: "env \<Rightarrow> token_row \<Rightarrow> pystr \<Rightarrow> diff_request \<Rightarrow> db \<Rightarrow> disk \<Rightarrow> diff_answer res" where
  "diff_route E tok repo body s d =
     bindE (open_repo ''read'' tok repo s) (\<lambda>r.
     bindE (diff_side (rp_id r) (df_from_ref body) (df_old_commit body) s) (\<lambda>old_hash.
     bindE (diff_side (rp_id r) (df_to_ref body) (df_new_commit body) s) (\<lambda>new_hash.
     if \<not> truthy old_hash \<or> \<not> truthy new_hash then Inl (HTTPException 400)
     else bindE (must (HTTPException 404) (store_read E d (str ''commits'') (the old_hash))) (\<lambda>old_data.
     bindE (must (HTTPException 404) (store_read E d (str ''commits'') (the new_hash))) (\<lambda>new_data.
     bindE (deserialize_commit old_data) (\<lambda>oc. bindE (deserialize_commit new_data) (\<lambda>nc.
     bindE (flatten_tree E d (rec_limit E) (tree_hash oc) []) (\<lambda>old_flat.
     bindE (flatten_tree E d (rec_limit E) (tree_hash nc) []) (\<lambda>new_flat.
     let old_manifests = manifest_map old_flat; new_manifests = manifest_map new_flat;
         all_paths = filter (\<lambda>p. truthy (df_path body) \<longrightarrow> p = strip_slash (the (df_path body)))
           (all_keys old_manifests new_manifests) in
     bindE (mapE (diff_file E d body old_manifests new_manifests) all_paths) (\<lambda>fss.
       let files = concat fss in
       Inr \<lparr>da_old_commit = the old_hash, da_new_commit = the new_hash, da_files_changed = length files,
            da_rows_added = sum_list (map fd_added files), da_rows_removed = sum_list (map fd_removed files),
            da_rows_refreshed = sum_list (map fd_refreshed files), da_files = files\<rparr>))))))))))"

section \<open>Pages of the log\<close>

lemma open_repo_Inr: "open_repo q tok repo s = Inr r \<longleftrightarrow> require_permission (str q) tok = Inr () \<and> get_repo repo s = Inr r"
  by (auto simp: open_repo_def bindE_eq_Inr)

lemma in_range_Inr: "in_range b = Inr u \<longleftrightarrow> b"
  by (simp add: in_range_def)

lemma log_chain_Suc:
  assumes "log_chain E d (Suc n) V h = Inr es"
  obtains (stop) "es = []" "h \<in> V \<or> read_commit E d h = Inr None"
  | (root) c where "es = [(h, c)]" "h \<notin> V" "read_commit E d h = Inr (Some c)" "parent_hashes c = []"
  | (step) c p ps rest where "es = (h, c) # rest" "h \<notin> V" "read_commit E d h = Inr (Some c)" "parent_hashes c = p # ps"
      "log_chain E d n (insert h V) p = Inr rest"
proof (cases "h \<in> V")
  case False
  with assms obtain x where "read_commit E d h = Inr x" by (auto simp: bindE_eq_Inr)
  with assms False show ?thesis using that by (auto simp: bindE_eq_Inr split: option.split_asm list.split_asm)
qed (use assms that in simp)

text \<open>Asking for fewer commits gives the first of them.\<close>

lemma log_chain_take: "log_chain E d n V h = Inr es \<Longrightarrow> m \<le> n \<Longrightarrow> log_chain E d m V h = Inr (take m es)"
proof (induction n arbitrary: m V h es)
  case (Suc n)
  show ?case
  proof (cases m)
    case m: (Suc k)
    from Suc.prems(1) show ?thesis
    proof (cases rule: log_chain_Suc)
      case (step c p ps rest)
      then show ?thesis using Suc.IH [OF step(5), of k] Suc.prems(2) m by simp
    qed (auto simp: m)
  qed simp
qed simp

text \<open>What is listed: a commit, its first parent, and so on; no commit twice.\<close>

fun first_parents :: "env \<Rightarrow> disk \<Rightarrow> pystr \<Rightarrow> (pystr \<times> commit) list \<Rightarrow> bool" where
  "first_parents E d h [] = True"
| "first_parents E d h ((h', c) # es) \<longleftrightarrow> h' = h \<and> read_commit E d h = Inr (Some c) \<and>
     (es \<noteq> [] \<longrightarrow> (case parent_hashes c of [] \<Rightarrow> False | p # _ \<Rightarrow> first_parents E d p es))"

lemma log_chain_first_parents:
  "log_chain E d n V h = Inr es \<Longrightarrow> first_parents E d h es \<and> distinct (map fst es) \<and> fst ` set es \<inter> V = {}"
proof (induction n arbitrary: V h es)
  case (Suc n)
  from Suc.prems show ?case
  proof (cases rule: log_chain_Suc)
    case (step c p ps rest)
    then show ?thesis using Suc.IH [OF step(5)] by auto
  qed auto
qed simp

text \<open>
  The pages of a log fit together: each is the part of one walk along first parents, and a walk that
  ends before its bound is the whole history.
\<close>

theorem log_pages:
  assumes p: "get_log E tok repo ref limit offset s d = Inr p" and r: "get_repo repo s = Inr r"
    and start: "log_start E d (rp_id r) ref s = Inr start"
    and whole: "log_chain E d n {} start = Inr es" and n: "nat (offset + limit) \<le> n"
  shows "lp_commits p = take (nat limit) (drop (nat offset) es)" "first_parents E d start es" "distinct (map fst es)"
proof -
  from p r start obtain cs where cs: "log_chain E d (nat (offset + limit)) {} start = Inr cs" "0 \<le> offset" "1 \<le> limit"
    and "lp_commits p = take (nat limit) (drop (nat offset) cs)"
    by (auto simp: get_log_def bindE_eq_Inr in_range_Inr Let_def)
  moreover have "cs = take (nat offset + nat limit) es"
    using log_chain_take [OF whole n] cs by (simp add: nat_add_distrib)
  ultimately show "lp_commits p = take (nat limit) (drop (nat offset) es)" by (simp add: drop_take)
  show "first_parents E d start es" "distinct (map fst es)" using log_chain_first_parents [OF whole] by auto
qed

section \<open>What a diff lists\<close>

lemma set_all_keys: "set (all_keys a b) = fst ` set a \<union> fst ` set b"
  by (simp add: all_keys_def)

lemma distinct_all_keys: "distinct (all_keys a b) \<and> sorted (all_keys a b)"
  by (simp add: all_keys_def)

lemma diff_file_paths:
  "diff_file E d body om nm p = Inr fs \<Longrightarrow> map fd_path fs = (if map_of om p = map_of nm p then [] else [p])"
  by (auto simp: diff_file_def Let_def bindE_eq_Inr)

lemma diff_files_paths:
  "mapE (diff_file E d body om nm) ps = Inr fss \<Longrightarrow>
     map fd_path (concat fss) = filter (\<lambda>p. map_of om p \<noteq> map_of nm p) ps"
  by (induction ps arbitrary: fss) (auto simp: bindE_eq_Inr dest!: diff_file_paths)

text \<open>A diff without a filter lists, sorted, exactly the paths of data files whose manifest differs.\<close>

theorem diff_route_paths:
  assumes "diff_route E tok repo body s d = Inr a" and "\<not> truthy (df_path body)"
  shows "\<exists>oc nc old_flat new_flat. read_commit E d (da_old_commit a) = Inr (Some oc) \<and>
      read_commit E d (da_new_commit a) = Inr (Some nc) \<and>
      flatten_tree E d (rec_limit E) (tree_hash oc) [] = Inr old_flat \<and>
      flatten_tree E d (rec_limit E) (tree_hash nc) [] = Inr new_flat \<and>
      sorted (map fd_path (da_files a)) \<and> distinct (map fd_path (da_files a)) \<and>
      fd_path ` set (da_files a) = {p. map_of (manifest_map old_flat) p \<noteq> map_of (manifest_map new_flat) p}"
proof -
  from assms obtain oh nh ob nb oc nc old_flat new_flat fss where
      r: "store_read E d (str ''commits'') (the oh) = Inr (Some ob)" "deserialize_commit ob = Inr oc"
        "store_read E d (str ''commits'') (the nh) = Inr (Some nb)" "deserialize_commit nb = Inr nc"
        "flatten_tree E d (rec_limit E) (tree_hash oc) [] = Inr old_flat"
        "flatten_tree E d (rec_limit E) (tree_hash nc) [] = Inr new_flat"
      and m: "mapE (diff_file E d body (manifest_map old_flat) (manifest_map new_flat))
        (all_keys (manifest_map old_flat) (manifest_map new_flat)) = Inr fss"
      and a: "da_old_commit a = the oh" "da_new_commit a = the nh" "da_files a = concat fss"
    by (auto simp: diff_route_def bindE_eq_Inr must_Inr Let_def split: if_split_asm)
  let ?om = "manifest_map old_flat" and ?nm = "manifest_map new_flat"
  have ps: "map fd_path (da_files a) = filter (\<lambda>p. map_of ?om p \<noteq> map_of ?nm p) (all_keys ?om ?nm)"
    using diff_files_paths [OF m] a(3) by simp
  have "p \<in> set (all_keys ?om ?nm)" if "map_of ?om p \<noteq> map_of ?nm p" for p
    using that unfolding set_all_keys by (metis map_of_eq_None_iff UnI1 UnI2)
  then have "fd_path ` set (da_files a) = {p. map_of ?om p \<noteq> map_of ?nm p}"
    using arg_cong [OF ps, of set] by auto
  moreover have "sorted (map fd_path (da_files a))" "distinct (map fd_path (da_files a))"
    using distinct_all_keys [of ?om ?nm] by (simp_all add: ps sorted_wrt_filter)
  moreover have "read_commit E d (da_old_commit a) = Inr (Some oc)" "read_commit E d (da_new_commit a) = Inr (Some nc)"
    using r(1-4) by (simp_all add: a read_commit_def load_def)
  ultimately show ?thesis using r(5,6) by blast
qed

section \<open>A collection on the server\<close>

text \<open>Whatever the grace period, every branch and tag of the repository keeps its history and all it leads to.\<close>

theorem gc_route_keeps_refs:
  assumes "gc_route E tok repo hours dry s d = Inr (r, d')" and "get_repo repo s = Inr R"
    and "f \<in> set (db_refs s)" "rf_repo f = rp_id R"
  shows "\<exists>w. walk_commit_objects E d (rf_target f) = Inr w \<and> walk_commit_objects E d' (rf_target f) = Inr w \<and>
      (\<forall>(k, h) \<in> w. store_read E d' (dir_name k) h = store_read E d (dir_name k) h)"
proof -
  from assms(1,2) have "gc E d (repo_targets (rp_id R) s) None (hours * 3600) dry = Inr (r, d')"
    by (auto simp: gc_route_def bindE_eq_Inr open_repo_Inr)
  moreover have "rf_target f \<in> set (repo_targets (rp_id R) s)" using assms(3,4) by (auto simp: repo_targets_def)
  ultimately show ?thesis by (rule gc_keeps_walks)
qed

section \<open>Downloads\<close>

text \<open>A download has no carriage return, while every record of an exported table ends in one and a newline.\<close>

lemma newlines_no_cr: "13 \<notin> set (newlines s)"
  by (induction s rule: newlines.induct) auto

theorem download_no_cr: "export_route E F tmpdir tok repo h fl fmt s d = Inr text \<Longrightarrow> 13 \<notin> set text"
  by (auto simp: export_route_def bindE_eq_Inr Let_def newlines_no_cr split: if_split_asm prod.split_asm option.split_asm)

end
