(* ===== verification/Dit_Report.thy ===== *)
theory Dit_Report
  imports Dit_Commit Dit_Combine Dit_Routes
begin

text \<open>
  The commands of \<open>src/dit/cli/main.py\<close> that report on a commit, check the store or collect it. A
  definition gives what the command prints from and its exit code; the layout of tables is not modelled.
\<close>

section \<open>The commit of \<open>--ref\<close>\<close>

text \<open>A branch, or a full digest.\<close>

definition ref_commitC :: "pystr \<Rightarrow> pystr command" where
  "ref_commitC ref =
     bindC (readC (\<lambda>g. get_branch (g_refs g) ref)) (\<lambda>b. case b of
       Some h \<Rightarrow> ret h
     | None \<Rightarrow> if hex_digest ref then ret ref else exit_with (ExitCode 1))"

text \<open>An error that the command reports, and ends with exit code 1.\<close>

definition fatal :: "(err \<Rightarrow> bool) \<Rightarrow> 'a res \<Rightarrow> 'a res" where
  "fatal P r = (case r of Inl e \<Rightarrow> Inl (if P e then ExitCode 1 else e) | Inr x \<Rightarrow> Inr x)"

abbreviation or_missing :: "'a res \<Rightarrow> 'a res" where
  "or_missing \<equiv> fatal (\<lambda>e. e = FileNotFoundError)"

abbreviation opt_path :: "pystr \<Rightarrow> pystr option" where
  "opt_path path \<equiv> (if path = [] then None else Some path)"

section \<open>Reports on a commit\<close>

definition cli_search ::
  "env \<Rightarrow> pyfmt \<Rightarrow> pystr \<Rightarrow> pystr \<Rightarrow> pystr \<Rightarrow> pystr option \<Rightarrow> int \<Rightarrow> search_report command" where
  "cli_search E F query path ref field limit =
     bindC (ref_commitC ref) (\<lambda>h.
       readC (\<lambda>g. or_missing (search_rows E F (g_objects g) h query (opt_path path) field limit)))"

text \<open>The number of data files in the summary line; whatever goes wrong, it is 0.\<close>

definition count_result_files :: "env \<Rightarrow> disk \<Rightarrow> pystr \<Rightarrow> nat" where
  "count_result_files E d h =
     (case bindE (read_commit E d h) (\<lambda>x. case x of
         None \<Rightarrow> Inr 0
       | Some c \<Rightarrow> bindE (flatten_tree E d (rec_limit E) (tree_hash c) []) (\<lambda>flat.
           Inr (length (filter (\<lambda>(_, t, _). t = str ''manifest'') flat)))) of Inl _ \<Rightarrow> 0 | Inr n \<Rightarrow> n)"

text \<open>The violations, the number of files and the exit code. The rules are those of the working directory.\<close>

definition cli_validate ::
  "env \<Rightarrow> pyfmt \<Rightarrow> (pystr \<Rightarrow> json res) \<Rightarrow> pystr \<Rightarrow> (validation \<times> nat \<times> nat) command" where
  "cli_validate E F yaml ref =
     bindC (ref_commitC ref) (\<lambda>h.
     bindC (readC (\<lambda>g. load_rules F yaml (map_of (g_work g) [str ''.ditvalidate.yaml'']))) (\<lambda>R.
     bindC (readC (\<lambda>g. or_missing (validate_commit E F (g_objects g) h R))) (\<lambda>v.
       readC (\<lambda>g. Inr (v, count_result_files E (g_objects g) h, if va_status v = str ''pass'' then 0 else 1)))))"

text \<open>The number bounds the walk through the history, as in \<open>Dit_Blame\<close>.\<close>

definition cli_blame :: "env \<Rightarrow> nat \<Rightarrow> pystr \<Rightarrow> pystr \<Rightarrow> int option \<Rightarrow> blame_answer command" where
  "cli_blame E n file ref row =
     bindC (ref_commitC ref) (\<lambda>h. readC (\<lambda>g. fatal (\<lambda>e. e = FileNotFoundError \<or> e = IndexError) (case row of
       Some i \<Rightarrow> bindE (row_history E (g_objects g) n h file i) (\<lambda>r. Inr (Row_history r))
     | None \<Rightarrow> bindE (blame_file E (g_objects g) n h file) (\<lambda>r. Inr (Blame r)))))"

text \<open>The flags hide one kind of duplicates, and with it its part of the severity.\<close>

definition hide_query :: "dedup_report \<Rightarrow> dedup_report" where
  "hide_query r =
     r\<lparr>query_duplicates := [], query_dup_groups := 0, query_dup_rows := 0,
       dr_severity := (if exact_duplicates r = [] then str ''clean'' else dr_severity r)\<rparr>"

definition hide_exact :: "dedup_report \<Rightarrow> dedup_report" where
  "hide_exact r =
     r\<lparr>exact_duplicates := [], exact_dup_groups := 0, exact_dup_rows := 0,
       dr_severity := (if dr_severity r = str ''warning''
         then (if query_duplicates r \<noteq> [] then str ''info'' else str ''clean'') else dr_severity r)\<rparr>"

definition cli_dedup :: "env \<Rightarrow> pystr \<Rightarrow> pystr option \<Rightarrow> bool \<Rightarrow> bool \<Rightarrow> (dedup_report \<times> nat) command" where
  "cli_dedup E ref path exact_only query_only =
     bindC (ref_commitC ref) (\<lambda>h.
     bindC (readC (\<lambda>g. or_missing (detect_duplicates E (g_objects g) h path))) (\<lambda>r.
       let r = (if exact_only then hide_query r else r);
           r = (if query_only then hide_exact r else r) in
       ret (r, if dr_severity r = str ''warning'' then 1 else 0)))"

text \<open>A new process starts with empty caches. Comparing tries stored commits before branches.\<close>

abbreviation no_sizes :: size_state where
  "no_sizes \<equiv> \<lparr>sz_cache = [], sz_in_flight = []\<rparr>"

definition compared_commit :: "repo \<Rightarrow> pystr \<Rightarrow> pystr option res" where
  "compared_commit g c =
     bindE (resolve_commit_hash (g_objects g) c) (\<lambda>h. if truthy h then Inr h else get_branch (g_refs g) c)"

datatype stats_answer = Stats stats_report | Compared stats_comparison

definition stats_compareC ::
  "env \<Rightarrow> (bytes \<Rightarrow> nat option res) \<Rightarrow> pystr \<Rightarrow> pystr \<Rightarrow> pystr \<times> pystr \<Rightarrow> stats_comparison command" where
  "stats_compareC E frame_size root path compare =
     (let (commit1, commit2) = compare in
      bindC (readC (\<lambda>g. compared_commit g commit1)) (\<lambda>r1. bindC (readC (\<lambda>g. compared_commit g commit2)) (\<lambda>r2.
      seqC (needC (r1 \<noteq> None \<and> r2 \<noteq> None))
        (readC (\<lambda>g. or_missing (snd (compare_stats E frame_size root (g_objects g) (the r1) (the r2) (opt_path path) no_sizes)))))))"

definition stats_refC :: "env \<Rightarrow> (bytes \<Rightarrow> nat option res) \<Rightarrow> pystr \<Rightarrow> pystr \<Rightarrow> pystr \<Rightarrow> stats_report command" where
  "stats_refC E frame_size root path ref =
     bindC (ref_commitC ref) (\<lambda>h.
       readC (\<lambda>g. or_missing (snd (repo_stats E frame_size root (g_objects g) h (opt_path path) True no_sizes))))"

definition cli_stats ::
  "env \<Rightarrow> (bytes \<Rightarrow> nat option res) \<Rightarrow> pystr \<Rightarrow> pystr \<Rightarrow> pystr \<Rightarrow> (pystr \<times> pystr) option \<Rightarrow> stats_answer command" where
  "cli_stats E frame_size root path ref compare =
     (case compare of
        Some cs \<Rightarrow> bindC (stats_compareC E frame_size root path cs) (\<lambda>r. ret (Compared r))
      | None \<Rightarrow> bindC (stats_refC E frame_size root path ref) (\<lambda>r. ret (Stats r)))"

section \<open>Export\<close>

text \<open>\<open>output_dir\<close> is the directory written to, \<open>files\<close> what is there.\<close>

definition cli_export ::
  "env \<Rightarrow> pyfmt \<Rightarrow> pystr \<Rightarrow> pystr option \<Rightarrow> pystr \<Rightarrow> bool \<Rightarrow> pystr list \<Rightarrow> fs \<Rightarrow> (fs \<times> export_entry list res) command" where
  "cli_export E F ref file fmt include_meta output_dir files =
     bindC (ref_commitC ref) (\<lambda>h. readC (\<lambda>g.
       let (files', r) = export_commit E F (g_objects g) h output_dir file fmt include_meta files in
       Inr (files', fatal (\<lambda>e. e = FileNotFoundError \<or> is_value_error e) r)))"

section \<open>Metadata\<close>

text \<open>The sidecar of a file at HEAD, from which both formats are printed.\<close>

definition cli_meta_show :: "env \<Rightarrow> pystr \<Rightarrow> (pystr \<times> sidecar) command" where
  "cli_meta_show E file =
     bindC headC (\<lambda>head. seqC (needC (head \<noteq> None)) (
     bindC (head_flatC E (the head)) (\<lambda>flat.
     case map_of flat (lstrip_slash file) of
       None \<Rightarrow> exit_with (ExitCode 1)
     | Some (obj_type, obj_hash, sidecar_hash) \<Rightarrow>
         seqC (needC (obj_type = str ''manifest'')) (seqC (needC (sidecar_hash \<noteq> None)) (
         bindC (readC (\<lambda>g. read_sidecar E (g_objects g) (the sidecar_hash))) (\<lambda>x.
           case x of None \<Rightarrow> exit_with (ExitCode 1) | Some sc \<Rightarrow> ret (the sidecar_hash, sc)))))))"

definition load_sidecars :: "env \<Rightarrow> disk \<Rightarrow> pystr \<Rightarrow> sidecar dict res" where
  "load_sidecars E d h =
     bindE (must (ExitCode 1) (read_commit E d h)) (\<lambda>c.
     bindE (flatten_tree E d (rec_limit E) (tree_hash c) []) (\<lambda>flat.
       foldE (\<lambda>(path, obj_type, _, sidecar_hash) result.
         case sidecar_hash of
           Some sc \<Rightarrow> if obj_type = str ''manifest''
             then bindE (read_sidecar E d sc) (\<lambda>x. Inr (case x of None \<Rightarrow> result | Some y \<Rightarrow> AList.update path y result))
             else Inr result
         | None \<Rightarrow> Inr result) flat []))"

text \<open>Rows, tokens and the share of each language; \<open>pct a b\<close> prints \<open>a / b * 100\<close> with no digit after the point.\<close>

record brief =
  bf_rows :: nat
  bf_tokens :: int
  bf_langs :: "pystr dict"

definition brief_of :: "(int \<Rightarrow> int \<Rightarrow> pystr) \<Rightarrow> sidecar option \<Rightarrow> brief" where
  "brief_of pct sc =
     (case sc of
        None \<Rightarrow> \<lparr>bf_rows = 0, bf_tokens = 0, bf_langs = []\<rparr>
      | Some s \<Rightarrow> let es = sc_entries s in
          \<lparr>bf_rows = length es, bf_tokens = sum_list (map token_estimate es),
           bf_langs = map (\<lambda>(k, n). (k, pct n (int (length es)))) (fold count_lang es [])\<rparr>)"

definition same_brief :: "brief \<Rightarrow> brief \<Rightarrow> bool" where
  "same_brief a b \<longleftrightarrow> bf_rows a = bf_rows b \<and> bf_tokens a = bf_tokens b \<and> set (bf_langs a) = set (bf_langs b)"

definition cli_meta_diff ::
  "env \<Rightarrow> (int \<Rightarrow> int \<Rightarrow> pystr) \<Rightarrow> pystr \<Rightarrow> pystr \<Rightarrow> pystr option \<Rightarrow> (pystr \<times> brief \<times> brief) list command" where
  "cli_meta_diff E pct commit1 commit2 file =
     readC (\<lambda>g. bindE (load_sidecars E (g_objects g) commit1) (\<lambda>old. bindE (load_sidecars E (g_objects g) commit2) (\<lambda>new.
       Inr (filter (\<lambda>(_, a, b). \<not> same_brief a b)
         (map (\<lambda>p. (p, brief_of pct (map_of old p), brief_of pct (map_of new p)))
           (filter (\<lambda>p. file \<noteq> None \<longrightarrow> p = lstrip_slash (the file)) (all_keys old new)))))))"

section \<open>Collection and check of the store\<close>

definition cli_gc :: "env \<Rightarrow> int \<Rightarrow> bool \<Rightarrow> gc_result command" where
  "cli_gc E grace dry_run =
     bindC (readC (\<lambda>g. index_entries_typed True (g_index g))) (\<lambda>staged.
       stepC (\<lambda>g. bindE (gc E (g_objects g) (gc_roots (g_refs g)) (if staged = [] then None else Some staged)
           (grace * 3600) dry_run) (\<lambda>(r, d). Inr (g\<lparr>g_objects := d\<rparr>, r))))"

definition cli_fsck :: "env \<Rightarrow> bool \<Rightarrow> bool \<Rightarrow> (fsck_result \<times> nat) command" where
  "cli_fsck E no_hash_check no_graph_check =
     readC (\<lambda>g. bindE (fsck E (g_objects g) (gc_roots (g_refs g)) (\<not> no_hash_check) (\<not> no_graph_check)) (\<lambda>r.
       Inr (r, if 0 < total_errors r then 1 else 0)))"

section \<open>What a collection keeps, and what it forgets\<close>

lemma cli_gc_run:
  assumes "cli_gc E grace dry g = (g', Inr r)"
  obtains staged d where "index_entries_typed True (g_index g) = Inr staged" "g' = g\<lparr>g_objects := d\<rparr>"
    "gc E (g_objects g) (gc_roots (g_refs g)) (if staged = [] then None else Some staged) (grace * 3600) dry = Inr (r, d)"
proof -
  let ?idx = "\<lambda>staged. if staged = [] then None else Some staged"
  from assms obtain staged where i: "index_entries_typed True (g_index g) = Inr staged"
    and s: "bindE (gc E (g_objects g) (gc_roots (g_refs g)) (?idx staged) (grace * 3600) dry)
      (\<lambda>(r, d). Inr (g\<lparr>g_objects := d\<rparr>, r)) = Inr (g', r)"
    unfolding cli_gc_def bindC_Inr stepC_Inr readC_apply by blast
  from s obtain d where "gc E (g_objects g) (gc_roots (g_refs g)) (?idx staged) (grace * 3600) dry = Inr (r, d)"
    and "g' = g\<lparr>g_objects := d\<rparr>"
    unfolding bindE_eq_Inr by fastforce
  with i that show ?thesis by blast
qed

text \<open>The branches and tags the command lists keep their history and all it leads to; nothing else of the repository changes.\<close>

theorem cli_gc_keeps_refs:
  assumes "cli_gc E grace dry g = (g', Inr r)"
    and "(n, h) \<in> set (list_branches (g_refs g)) \<union> set (list_tags (g_refs g))"
  shows "g' = g\<lparr>g_objects := g_objects g'\<rparr>"
    and "\<exists>w. walk_commit_objects E (g_objects g) h = Inr w \<and> walk_commit_objects E (g_objects g') h = Inr w \<and>
      (\<forall>(k, i) \<in> w. store_read E (g_objects g') (dir_name k) i = store_read E (g_objects g) (dir_name k) i)"
proof -
  from cli_gc_run [OF assms(1)] obtain index d where g: "g' = g\<lparr>g_objects := d\<rparr>"
    and c: "gc E (g_objects g) (gc_roots (g_refs g)) index (grace * 3600) dry = Inr (r, d)" by metis
  show "g' = g\<lparr>g_objects := g_objects g'\<rparr>" by (simp add: g)
  have "h \<in> set (gc_roots (g_refs g))" using assms(2) by (force simp: gc_roots_def)
  from gc_keeps_walks [OF c this] show "\<exists>w. walk_commit_objects E (g_objects g) h = Inr w \<and>
      walk_commit_objects E (g_objects g') h = Inr w \<and>
      (\<forall>(k, i) \<in> w. store_read E (g_objects g') (dir_name k) i = store_read E (g_objects g) (dir_name k) i)"
    by (simp add: g)
qed

text \<open>
  The commit a detached HEAD is at is no root of a collection: in a repository without branches and tags it is
  deleted once it is old enough, although HEAD still names it.
\<close>

theorem gc_forgets_detached_head:
  assumes "hex_digest h" and "g_refs g = set_head (refs_init no_refs) h" and "g_index g = None"
  shows "resolve_head (g_refs g) = Inr (Some h) \<and> (\<exists>g' r. cli_gc E grace False g = (g', Inr r) \<and>
    (\<forall>p f. map_of (g_objects g) p = Some f \<longrightarrow> is_object_file KCommit p \<longrightarrow> last p = h \<longrightarrow>
       mtime f < now E - grace * 3600 \<longrightarrow> map_of (g_objects g') p = None))"
proof
  have "\<not> py_startswith h (str ''ref:'')"
    using assms(1) by (auto simp: py_startswith_iff hex_digest_def hex_char_def str_def)
  then show "resolve_head (g_refs g) = Inr (Some h)"
    by (simp add: assms(2) resolve_head_def get_head_def set_head_def branch_of_head_def hex_digest_strip [OF assms(1)])
  obtain r d where s: "sweep E (g_objects g) {} (grace * 3600) False = (r, d)" by fastforce
  have "gc_roots (g_refs g) = []"
    by (simp add: assms(2) gc_roots_def set_head_def refs_init_def no_refs_def make_root_def list_branches_def list_tags_def ref_list_def Let_def)
  with s have "cli_gc E grace False g = (g\<lparr>g_objects := d\<rparr>, Inr r)"
    by (simp add: cli_gc_def assms(3) index_entries_typed_def with_lock_def gc_def collect_live_set_def stepC_def)
  moreover have "map_of d p = None" if "map_of (g_objects g) p = Some f" "is_object_file KCommit p"
      "mtime f < now E - grace * 3600" for p f
    using sweep_deletes [of E "{}" "grace * 3600" False "g_objects g"] that s
    by (auto simp: deletes_def swept_def garbage_def)
  ultimately show "\<exists>g' r. cli_gc E grace False g = (g', Inr r) \<and>
    (\<forall>p f. map_of (g_objects g) p = Some f \<longrightarrow> is_object_file KCommit p \<longrightarrow> last p = h \<longrightarrow>
       mtime f < now E - grace * 3600 \<longrightarrow> map_of (g_objects g') p = None)" by fastforce
qed

end
