(* ===== verification/Dit_Collected.thy ===== *)
theory Dit_Collected
  imports Dit_Report
begin

text \<open>
  A collection cannot be noticed: every route that answers from the store says the same before and after it about
  every commit that a ref leads to. Two stores that agree on a set of objects closed under references are alike
  for all that is computed from these objects.
\<close>

named_theorems alike "what is alike in two stores"

section \<open>Stores that agree on some objects\<close>

definition seen_alike :: "env \<Rightarrow> disk \<Rightarrow> disk \<Rightarrow> node set \<Rightarrow> bool" where
  "seen_alike E d d' w \<longleftrightarrow> (\<forall>(k, h) \<in> w. store_read E d' (dir_name k) h = store_read E d (dir_name k) h) \<and>
     (\<forall>n \<in> w. set (object_refs E d n) \<subseteq> w)"

lemma alike_store:
  "seen_alike E d d' w \<Longrightarrow> (k, h) \<in> w \<Longrightarrow> store_read E d' (dir_name k) h = store_read E d (dir_name k) h"
  by (auto simp: seen_alike_def)

lemma alike_reads:
  assumes "seen_alike E d d' w"
  shows "(KCommit, h) \<in> w \<Longrightarrow> store_read E d' (str ''commits'') h = store_read E d (str ''commits'') h"
    "(KTree, h) \<in> w \<Longrightarrow> store_read E d' (str ''trees'') h = store_read E d (str ''trees'') h"
    "(KManifest, h) \<in> w \<Longrightarrow> store_read E d' (str ''manifests'') h = store_read E d (str ''manifests'') h"
    "(KRow, h) \<in> w \<Longrightarrow> store_read E d' (str ''rows'') h = store_read E d (str ''rows'') h"
    "(KSidecar, h) \<in> w \<Longrightarrow> store_read E d' (str ''sidecars'') h = store_read E d (str ''sidecars'') h"
    "(KBlob, h) \<in> w \<Longrightarrow> store_read E d' (str ''blobs'') h = store_read E d (str ''blobs'') h"
  using alike_store [OF assms, of KCommit h] alike_store [OF assms, of KTree h] alike_store [OF assms, of KManifest h]
    alike_store [OF assms, of KRow h] alike_store [OF assms, of KSidecar h] alike_store [OF assms, of KBlob h]
  by simp_all

lemma alike_loads:
  assumes "seen_alike E d d' w"
  shows "(KCommit, h) \<in> w \<Longrightarrow> read_commit E d' h = read_commit E d h"
    "(KTree, h) \<in> w \<Longrightarrow> read_tree E d' h = read_tree E d h"
    "(KManifest, h) \<in> w \<Longrightarrow> read_manifest E d' h = read_manifest E d h"
    "(KSidecar, h) \<in> w \<Longrightarrow> read_sidecar E d' h = read_sidecar E d h"
  using alike_reads [OF assms, of h] by (simp_all add: read_defs load_def)

lemma alike_refs: "seen_alike E d d' w \<Longrightarrow> n \<in> w \<Longrightarrow> m \<in> set (object_refs E d n) \<Longrightarrow> m \<in> w"
  by (auto simp: seen_alike_def)

lemma alike_commit_refs:
  assumes "seen_alike E d d' w" "(KCommit, h) \<in> w" "read_commit E d h = Inr (Some c)"
  shows "(KTree, tree_hash c) \<in> w" "p \<in> set (parent_hashes c) \<Longrightarrow> (KCommit, p) \<in> w"
  using alike_refs [OF assms(1,2)] object_refs_commit(1) [OF assms(3)] by auto

lemma alike_row_refs:
  assumes "seen_alike E d d' w" "(KManifest, h) \<in> w" "read_manifest E d h = Inr (Some m)" "e \<in> set (entries m)"
  shows "(KRow, row_hash e) \<in> w"
  using alike_refs [OF assms(1,2), of "(KRow, row_hash e)"] assms(3,4) by (simp add: object_refs_def)

text \<open>What an entry of a tree leads to is there; no object has the empty name.\<close>

definition entry_held :: "node set \<Rightarrow> flat_entry \<Rightarrow> bool" where
  "entry_held w fe \<longleftrightarrow> (fst fe = str ''tree'' \<longrightarrow> (KTree, fst (snd fe)) \<in> w) \<and>
     (fst fe = str ''manifest'' \<longrightarrow> (KManifest, fst (snd fe)) \<in> w) \<and> (fst fe = str ''blob'' \<longrightarrow> (KBlob, fst (snd fe)) \<in> w) \<and>
     (\<forall>s. snd (snd fe) = Some s \<longrightarrow> s \<noteq> [] \<longrightarrow> (KSidecar, s) \<in> w)"

lemma entry_heldD:
  "entry_held w (ty, h, sc) \<Longrightarrow> ty = str ''manifest'' \<Longrightarrow> (KManifest, h) \<in> w"
  "entry_held w (ty, h, sc) \<Longrightarrow> ty = str ''blob'' \<Longrightarrow> (KBlob, h) \<in> w"
  "entry_held w (ty, h, Some s) \<Longrightarrow> s \<noteq> [] \<Longrightarrow> (KSidecar, s) \<in> w"
  by (auto simp: entry_held_def)

lemma tree_held: "entry_held w (flat_of e) \<Longrightarrow> is_tree e \<Longrightarrow> (KTree, te_hash e) \<in> w"
  by (simp add: entry_held_def flat_of_def is_tree_def)

lemma alike_entry:
  assumes "seen_alike E d d' w" "(KTree, h) \<in> w" "read_tree E d h = Inr (Some t)" "e \<in> set (tree_entries t)"
  shows "entry_held w (flat_of e)"
proof -
  have sub: "set (entry_adds e) \<union> set (entry_pushes e) \<subseteq> w"
    using alike_refs [OF assms(1,2)] assms(3,4) by (auto simp: object_refs_def)
  have "(KSidecar, s) \<in> w" if "te_sidecar e = Some s" "s \<noteq> []" for s
    by (rule subsetD [OF sub]) (simp add: entry_adds_def that)
  moreover have "(KBlob, te_hash e) \<in> w" if "te_type e = str ''blob''"
    by (rule subsetD [OF sub]) (simp add: entry_adds_def that)
  moreover have "(KManifest, te_hash e) \<in> w" if "te_type e = str ''manifest''"
    by (rule subsetD [OF sub]) (simp add: entry_pushes_def that)
  moreover have "(KTree, te_hash e) \<in> w" if "te_type e = str ''tree''"
    by (rule subsetD [OF sub]) (simp add: entry_pushes_def that)
  ultimately show ?thesis by (simp add: entry_held_def flat_of_def)
qed

lemma no_empty_name: "store_read E d ty [] = Inl ValueError"
  by (simp add: store_read_def object_path_def hash_re_def hex_digest_def)

lemma alike_sidecar:
  "seen_alike E d d' w \<Longrightarrow> entry_held w (ty, h, Some s) \<Longrightarrow> read_sidecar E d' s = read_sidecar E d s"
  by (cases "s = []") (simp add: read_defs load_def no_empty_name, simp add: alike_loads(4) entry_heldD(3))

section \<open>Trees\<close>

lemma set_dict_update: "set (dict_update a b) \<subseteq> set a \<union> set b"
  unfolding dict_update_def
proof (induction b arbitrary: a)
  case (Cons kv b)
  then show ?case using set_update_subset [of "fst kv" "snd kv" a] by (cases kv) fastforce
qed simp

lemma set_foldl_update: "set (foldl dict_update a bs) \<subseteq> set a \<union> \<Union> (set ` set bs)"
proof (induction bs arbitrary: a)
  case (Cons b bs)
  then show ?case using set_dict_update [of a b] by fastforce
qed simp

lemma list_all2_right: "list_all2 P xs ys \<Longrightarrow> y \<in> set ys \<Longrightarrow> \<exists>x \<in> set xs. P x y"
  by (induction rule: list_all2_induct) auto

lemma alike_flatten:
  assumes "seen_alike E d d' w"
  shows "(KTree, th) \<in> w \<Longrightarrow> flatten_tree E d' n th pre = flatten_tree E d n th pre"
proof (induction n arbitrary: th pre)
  case (Suc n)
  have "flat_piece E d' n pre e = flat_piece E d n pre e"
    if "read_tree E d th = Inr (Some t)" "e \<in> set (tree_entries t)" for t e
    using tree_held [OF alike_entry [OF assms Suc.prems that]] Suc.IH by (simp add: flat_piece_def)
  then show ?case
    unfolding flatten_tree_Suc alike_loads(2) [OF assms Suc.prems]
    by (auto intro!: bindE_cong foldE_cong split: option.split)
qed simp

lemma alike_flat_held:
  assumes "seen_alike E d d' w"
  shows "(KTree, th) \<in> w \<Longrightarrow> flatten_tree E d n th pre = Inr flat \<Longrightarrow> pe \<in> set flat \<Longrightarrow> entry_held w (snd pe)"
proof (induction n arbitrary: th pre flat)
  case (Suc n)
  from Suc.prems(2) obtain x where x: "read_tree E d th = Inr x" by (auto simp: flatten_tree_Suc bindE_eq_Inr)
  show ?case
  proof (cases x)
    case None
    with Suc.prems(2,3) x show ?thesis by (simp add: flatten_tree_Suc)
  next
    case (Some t)
    with x have t: "read_tree E d th = Inr (Some t)" by simp
    from flatten_tree_pieces [OF t Suc.prems(2)] obtain ss where
      ss: "list_all2 (\<lambda>e s. flat_piece E d n pre e = Inr s) (tree_entries t) ss" "flat = foldl dict_update [] ss" .
    from Suc.prems(3) ss(2) have "pe \<in> \<Union> (set ` set ss)" using set_foldl_update [of "[]" ss] by auto
    then obtain s where "s \<in> set ss" "pe \<in> set s" by blast
    with list_all2_right [OF ss(1)] obtain e where e: "e \<in> set (tree_entries t)" "flat_piece E d n pre e = Inr s" by blast
    with alike_entry [OF assms Suc.prems(1) t] have "entry_held w (flat_of e)" by simp
    moreover have "entry_held w (snd pe)" if "is_tree e"
    proof (rule Suc.IH)
      show "(KTree, te_hash e) \<in> w" using \<open>entry_held w (flat_of e)\<close> that by (rule tree_held)
      show "flatten_tree E d n (te_hash e) (full_path pre (te_name e)) = Inr s" using e(2) that by (simp add: flat_piece_def)
    qed (rule \<open>pe \<in> set s\<close>)
    ultimately show ?thesis using e(2) \<open>pe \<in> set s\<close> by (auto simp: flat_piece_def split: if_split_asm)
  qed
qed simp

lemma alike_look: "seen_alike E d d' w \<Longrightarrow> (KTree, th) \<in> w \<Longrightarrow> flatten_tree E d n th pre = Inr flat \<Longrightarrow>
    map_of flat p = Some fe \<Longrightarrow> entry_held w fe"
  using alike_flat_held [of E d d' w th n pre flat "(p, fe)"] by (simp add: map_of_SomeD)

lemma alike_commit_flat:
  assumes "seen_alike E d d' w" "(KCommit, c) \<in> w"
  shows "commit_flat E d' c = commit_flat E d c"
    and "commit_flat E d c = Inr flat \<Longrightarrow> pe \<in> set flat \<Longrightarrow> entry_held w (snd pe)"
proof -
  show "commit_flat E d' c = commit_flat E d c"
    unfolding commit_flat_def alike_loads(1) [OF assms]
    using alike_flatten [OF assms(1)] alike_commit_refs(1) [OF assms] by (intro bindE_cong) (simp_all add: must_Inr)
  show "entry_held w (snd pe)" if "commit_flat E d c = Inr flat" "pe \<in> set flat"
  proof -
    from that(1) obtain x where "read_commit E d c = Inr (Some x)" "flatten_tree E d (rec_limit E) (tree_hash x) [] = Inr flat"
      by (auto simp: commit_flat_def bindE_eq_Inr must_Inr)
    with alike_flat_held [OF assms(1) _ _ that(2)] alike_commit_refs(1) [OF assms] show ?thesis by blast
  qed
qed

lemma alike_flat_at:
  assumes "seen_alike E d d' w" "(KCommit, c) \<in> w"
  shows "flat_at E d' code c = flat_at E d code c"
    and "flat_at E d code c = Inr flat \<Longrightarrow> map_of flat p = Some fe \<Longrightarrow> entry_held w fe"
proof -
  show "flat_at E d' code c = flat_at E d code c"
    unfolding flat_at_def alike_loads(1) [OF assms]
    using alike_flatten [OF assms(1)] alike_commit_refs(1) [OF assms] by (intro bindE_cong) (simp_all add: must_Inr)
  show "entry_held w fe" if "flat_at E d code c = Inr flat" "map_of flat p = Some fe"
  proof -
    from that(1) obtain x where "read_commit E d c = Inr (Some x)" "flatten_tree E d (rec_limit E) (tree_hash x) [] = Inr flat"
      by (auto simp: flat_at_def bindE_eq_Inr must_Inr)
    with alike_look [OF assms(1) _ _ that(2)] alike_commit_refs(1) [OF assms] show ?thesis by blast
  qed
qed

lemma alike_parts:
  assumes "seen_alike E d d' w"
  shows "(KTree, th) \<in> w \<Longrightarrow> resolve_parts E d' th ps = resolve_parts E d th ps"
    and "(KTree, th) \<in> w \<Longrightarrow> resolve_parts E d th ps = Inr (Some e) \<Longrightarrow> entry_held w (flat_of e)"
proof (induction ps arbitrary: th)
  case (Cons p ps)
  have held: "entry_held w (flat_of e)" if "(KTree, th) \<in> w" "read_tree E d th = Inr (Some t)" "find_entry t p = Some e" for th t e
    using alike_entry [OF assms that(1,2), of e] that(3) by (auto simp: find_entry_def find_Some_iff)
  have sub: "(KTree, te_hash e) \<in> w" if "(KTree, th) \<in> w" "read_tree E d th = Inr (Some t)" "find_entry t p = Some e" "is_tree e" for th t e
    using tree_held [OF held [OF that(1-3)] that(4)] .
  { case 1 then show ?case
      using Cons.IH(1) sub by (auto simp: alike_loads(2) [OF assms 1] intro!: bindE_cong split: option.split) }
  { case 2
    then obtain t f where t: "read_tree E d th = Inr (Some t)" "find_entry t p = Some f"
      and r: "(if ps = [] then Inr (Some f) else if \<not> is_tree f then Inr None else resolve_parts E d (te_hash f) ps) = Inr (Some e)"
      by (auto simp: bindE_eq_Inr split: option.split_asm)
    from r consider "e = f" | "is_tree f" "resolve_parts E d (te_hash f) ps = Inr (Some e)" by (auto split: if_split_asm)
    then show ?case using held [OF 2(1) t] sub [OF 2(1) t] Cons.IH(2) by cases blast+ }
qed simp_all

section \<open>Rows\<close>

lemma alike_rows:
  assumes "seen_alike E d d' w" "(KManifest, h) \<in> w" "read_manifest E d h = Inr (Some m)"
  shows "e \<in> set (entries m) \<Longrightarrow> store_read E d' (str ''rows'') (row_hash e) = store_read E d (str ''rows'') (row_hash e)"
    and "(i, e) \<in> set (py_enumerate (entries m)) \<Longrightarrow>
      store_read E d' (str ''rows'') (row_hash e) = store_read E d (str ''rows'') (row_hash e)"
proof -
  show a: "store_read E d' (str ''rows'') (row_hash e) = store_read E d (str ''rows'') (row_hash e)" if "e \<in> set (entries m)"
    using alike_reads(4) [OF assms(1)] alike_row_refs [OF assms that] by blast
  show "store_read E d' (str ''rows'') (row_hash e) = store_read E d (str ''rows'') (row_hash e)"
    if "(i, e) \<in> set (py_enumerate (entries m))"
    using that by (intro a) (auto simp: py_enumerate_def dest: set_zip_rightD)
qed

text \<open>A loop over the data files of a commit: its body is alike when it is for every held entry.\<close>

lemma alike_over_flat:
  assumes "seen_alike E d d' w" "(KCommit, c) \<in> w" "\<And>flat. set (g flat) \<subseteq> set flat"
    and "\<And>p fe st. entry_held w fe \<Longrightarrow> f' (p, fe) st = f (p, fe) st"
  shows "bindE (commit_flat E d' c) (\<lambda>flat. bindE (foldE f' (g flat) st) k) = bindE (commit_flat E d c) (\<lambda>flat. bindE (foldE f (g flat) st) k)"
  unfolding alike_commit_flat(1) [OF assms(1,2)]
proof (rule bindE_cong [OF refl])
  fix flat
  assume flat: "commit_flat E d c = Inr flat"
  have "f' x st = f x st" if "x \<in> set (g flat)" for x st
  proof -
    have "entry_held w (snd x)" using alike_commit_flat(2) [OF assms(1,2) flat] assms(3) that by blast
    then show ?thesis using assms(4) [of "snd x" "fst x"] by simp
  qed
  then show "bindE (foldE f' (g flat) st) k = bindE (foldE f (g flat) st) k" by (simp cong: foldE_cong)
qed

lemma set_sorted_items: "set (sorted_items d) = set d"
  by (simp add: sorted_items_def)

lemma alike_search_file:
  assumes "seen_alike E d d' w" "entry_held w fe"
  shows "search_file E F d' q pre fp limit (p, fe) st = search_file E F d q pre fp limit (p, fe) st"
proof -
  obtain ty h sc where fe: "fe = (ty, h, sc)" by (cases fe)
  have m: "read_manifest E d' h = read_manifest E d h" if "ty = str ''manifest''"
    using alike_loads(3) [OF assms(1)] entry_heldD(1) [OF assms(2) [unfolded fe] that] by blast
  have r: "search_row E F d' q fp limit p ie st = search_row E F d q fp limit p ie st"
    if "ty = str ''manifest''" "read_manifest E d h = Inr (Some m)" "ie \<in> set (py_enumerate (entries m))" for m ie st
    using alike_rows(2) [OF assms(1) entry_heldD(1) [OF assms(2) [unfolded fe] that(1)] that(2)] that(3)
    by (cases ie) (simp add: search_row_def Let_def split: prod.split)
  show ?thesis
    using m r by (auto simp: search_file_def fe Let_def intro!: bindE_cong foldE_cong split: option.split)
qed

lemma alike_search:
  assumes "seen_alike E d d' w" "(KCommit, c) \<in> w"
  shows "search_rows E F d' c q pre fp limit = search_rows E F d c q pre fp limit"
  unfolding search_rows_def Let_def
  by (rule alike_over_flat [OF assms]) (simp_all add: set_sorted_items alike_search_file [OF assms(1)])

lemma alike_validate_file:
  assumes "seen_alike E d d' w" "entry_held w fe"
  shows "validate_file E F d' R (p, fe) st = validate_file E F d R (p, fe) st"
proof -
  obtain ty h sc where fe: "fe = (ty, h, sc)" by (cases fe)
  have m: "read_manifest E d' h = read_manifest E d h" if "ty = str ''manifest''"
    using alike_loads(3) [OF assms(1)] entry_heldD(1) [OF assms(2) [unfolded fe] that] by blast
  have r: "validate_row E F d' fr p ie st = validate_row E F d fr p ie st"
    if "ty = str ''manifest''" "read_manifest E d h = Inr (Some m)" "ie \<in> set (py_enumerate (entries m))" for m ie st fr
    using alike_rows(2) [OF assms(1) entry_heldD(1) [OF assms(2) [unfolded fe] that(1)] that(2)] that(3)
    by (cases ie) (simp add: validate_row_def Let_def split: prod.split)
  show ?thesis
    using m r by (auto simp: validate_file_def fe Let_def intro!: bindE_cong foldE_cong split: option.split)
qed

lemma alike_validate:
  assumes "seen_alike E d d' w" "(KCommit, c) \<in> w"
  shows "validate_commit E F d' c R = validate_commit E F d c R"
  unfolding validate_commit_def
  by (rule alike_over_flat [OF assms]) (simp_all add: set_sorted_items alike_validate_file [OF assms(1)])

lemma alike_rules:
  assumes "seen_alike E d d' w" "(KCommit, c) \<in> w"
  shows "load_rules_from_store E F yaml d' c = load_rules_from_store E F yaml d c"
proof -
  have "flatten_tree E d' n (tree_hash x) [] = flatten_tree E d n (tree_hash x) []" if "read_commit E d c = Inr (Some x)" for x n
    using alike_flatten [OF assms(1) alike_commit_refs(1) [OF assms that]] .
  moreover have "store_read E d' (str ''blobs'') h = store_read E d (str ''blobs'') h"
    if "read_commit E d c = Inr (Some x)" "flatten_tree E d n (tree_hash x) [] = Inr flat"
      "map_of flat p = Some (str ''blob'', h, sc)" for x n flat p h sc
    using alike_reads(6) [OF assms(1)] entry_heldD(2) [OF alike_look [OF assms(1) alike_commit_refs(1) [OF assms that(1)] that(2,3)]] by blast
  ultimately show ?thesis
    unfolding load_rules_from_store_def alike_loads(1) [OF assms]
    by (auto intro!: bindE_cong split: option.split)
qed

section \<open>Duplicates\<close>

definition index_held :: "node set \<Rightarrow> dedup_state \<Rightarrow> bool" where
  "index_held w s \<longleftrightarrow> (\<forall>kv \<in> set (row_hash_index s). (KRow, fst kv) \<in> w) \<and>
     (\<forall>kv \<in> set (qfp_index s). \<forall>x \<in> set (snd kv). (KRow, snd (snd x)) \<in> w)"

lemma dict_append_in: "kv \<in> set (dict_append k v d) \<Longrightarrow>
    kv \<in> set d \<or> fst kv = k \<and> (\<forall>x \<in> set (snd kv). x = v \<or> (\<exists>vs. (k, vs) \<in> set d \<and> x \<in> set vs))"
  using set_update_subset unfolding dict_append_def by (fastforce dest: map_of_SomeD split: option.splits)

lemma index_held_row:
  assumes "index_held w s" "(KRow, row_hash (snd ie)) \<in> w"
  shows "index_held w (dedup_row path ie s)"
proof -
  obtain i e where ie: "ie = (i, e)" by (cases ie)
  have "(KRow, fst kv) \<in> w" if "kv \<in> set (dict_append (row_hash e) (path, i) (row_hash_index s))" for kv
    using dict_append_in [OF that] assms by (auto simp: index_held_def ie)
  moreover have "(KRow, snd (snd x)) \<in> w" if "kv \<in> set (dict_append q (path, i, row_hash e) (qfp_index s))" "x \<in> set (snd kv)" for q kv x
    using dict_append_in [OF that(1)] that(2) assms by (fastforce simp: index_held_def ie)
  ultimately show ?thesis using assms(1) by (auto simp: index_held_def dedup_row_def ie)
qed

lemma index_held_rows:
  "index_held w s \<Longrightarrow> (\<And>ie. ie \<in> set es \<Longrightarrow> (KRow, row_hash (snd ie)) \<in> w) \<Longrightarrow> index_held w (fold (dedup_row path) es s)"
  by (induction es arbitrary: s) (simp_all add: index_held_row)

lemma alike_dedup_file:
  assumes "seen_alike E d d' w" "entry_held w fe"
  shows "dedup_file E d' pre (p, fe) s = dedup_file E d pre (p, fe) s"
    and "index_held w s \<Longrightarrow> dedup_file E d pre (p, fe) s = Inr s' \<Longrightarrow> index_held w s'"
proof -
  obtain ty h sc where fe: "fe = (ty, h, sc)" by (cases fe)
  have k: "(KManifest, h) \<in> w" if "ty = str ''manifest''" using entry_heldD(1) [OF assms(2) [unfolded fe] that] .
  show "dedup_file E d' pre (p, fe) s = dedup_file E d pre (p, fe) s"
    using alike_loads(3) [OF assms(1) k] by (simp add: dedup_file_def fe Let_def)
  show "index_held w s'" if s: "index_held w s" "dedup_file E d pre (p, fe) s = Inr s'"
  proof -
    have s1: "index_held w (s\<lparr>dd_total_files := n\<rparr>)" for n using s(1) by (simp add: index_held_def)
    have "(KRow, row_hash (snd ie)) \<in> w"
      if "ty = str ''manifest''" "read_manifest E d h = Inr (Some m)" "ie \<in> set (py_enumerate (entries m))" for m ie
      using alike_row_refs [OF assms(1) k [OF that(1)] that(2)] that(3)
      by (cases ie) (auto simp: py_enumerate_def dest: set_zip_rightD)
    with s s1 show ?thesis
      by (auto simp: dedup_file_def fe Let_def bindE_eq_Inr intro!: index_held_rows split: if_split_asm option.split_asm)
  qed
qed

lemma alike_preview:
  "seen_alike E d d' w \<Longrightarrow> (KRow, rh) \<in> w \<Longrightarrow> row_preview E d' rh = row_preview E d rh"
  by (simp add: row_preview_def alike_reads(4))

lemma alike_groups:
  assumes "seen_alike E d d' w" "index_held w s"
  shows "exact_groups E d' s = exact_groups E d s" "query_groups E d' s = query_groups E d s"
proof -
  show "exact_groups E d' s = exact_groups E d s"
    unfolding exact_groups_def using assms(2) alike_preview [OF assms(1)]
    by (intro mapE_cong) (auto simp: index_held_def by_size_def)
  have "mapE (\<lambda>(f, i, rh). bindE (row_preview E d' rh) (\<lambda>p. Inr (f, i, rh, p))) os =
      mapE (\<lambda>(f, i, rh). bindE (row_preview E d rh) (\<lambda>p. Inr (f, i, rh, p))) os"
    if "(q, os) \<in> set (qfp_index s)" for q os
    using that assms(2) alike_preview [OF assms(1)] by (intro mapE_cong) (fastforce simp: index_held_def)+
  then show "query_groups E d' s = query_groups E d s"
    unfolding query_groups_def by (intro mapE_cong) (auto simp: by_size_def)
qed

lemma alike_duplicates:
  assumes "seen_alike E d d' w" "(KCommit, c) \<in> w"
  shows "detect_duplicates E d' c pre = detect_duplicates E d c pre"
  unfolding detect_duplicates_def alike_commit_flat(1) [OF assms]
proof (rule bindE_cong [OF refl], rule bindE_cong)
  fix flat s
  assume flat: "commit_flat E d c = Inr flat"
  have held: "entry_held w (snd x)" if "x \<in> set flat" for x using alike_commit_flat(2) [OF assms flat that] .
  show "foldE (dedup_file E d' pre) flat dedup_start = foldE (dedup_file E d pre) flat dedup_start"
    using alike_dedup_file(1) [OF assms(1) held] by (intro foldE_cong) (auto simp: split_pairs)
  assume s: "foldE (dedup_file E d pre) flat dedup_start = Inr s"
  have "index_held w s"
  proof (rule foldE_invariant [OF s])
    show "index_held w dedup_start" by (simp add: index_held_def dedup_start_def)
    show "index_held w s2" if "x \<in> set flat" "index_held w s1" "dedup_file E d pre x s1 = Inr s2" for x s1 s2
      using alike_dedup_file(2) [OF assms(1) held [OF that(1)] that(2), of pre "fst x"] that(3) by simp
  qed
  from alike_groups [OF assms(1) this]
  show "bindE (exact_groups E d' s) (\<lambda>eg. bindE (query_groups E d' s) (\<lambda>qg. Inr (g eg qg))) =
      bindE (exact_groups E d s) (\<lambda>eg. bindE (query_groups E d s) (\<lambda>qg. Inr (g eg qg)))" for g by simp
qed

section \<open>Export\<close>

lemma alike_jsonl_rows:
  "(\<And>e. e \<in> set es \<Longrightarrow> store_read E d' (str ''rows'') (row_hash e) = store_read E d (str ''rows'') (row_hash e)) \<Longrightarrow>
   write_jsonl_rows E d' es content n = write_jsonl_rows E d es content n"
  by (induction es arbitrary: content n) (simp_all split: sum.split)

lemma alike_body:
  assumes "\<And>e. e \<in> set (entries m) \<Longrightarrow> store_read E d' (str ''rows'') (row_hash e) = store_read E d (str ''rows'') (row_hash e)"
  shows "export_body E F d' fmt path m out fs = export_body E F d fmt path m out fs"
proof -
  have "mapE (read_row E d') (entries m) = mapE (read_row E d) (entries m)"
    by (rule mapE_cong) (simp_all add: read_row_def assms)
  moreover have "write_jsonl_rows E d' (entries m) [] 0 = write_jsonl_rows E d (entries m) [] 0"
    by (rule alike_jsonl_rows) (rule assms)
  moreover from calculation(1) have "write_csv E F d' m dest fs = write_csv E F d m dest fs" for dest
    by (simp add: write_csv_def)
  ultimately show ?thesis by (simp add: export_body_def write_jsonl_def split: sum.split)
qed

lemma alike_export_file:
  assumes "seen_alike E d d' w" "entry_held w fe" "fst fe = str ''manifest''"
  shows "export_file E F d' fmt meta out (p, fe) fs = export_file E F d fmt meta out (p, fe) fs"
proof -
  obtain h sc where fe: "fe = (str ''manifest'', h, sc)" using assms(3) by (cases fe) simp
  have k: "(KManifest, h) \<in> w" using entry_heldD(1) [OF assms(2) [unfolded fe]] by simp
  have m: "read_manifest E d' h = read_manifest E d h" by (rule alike_loads(3) [OF assms(1) k])
  have b: "export_body E F d' fmt p m out fs = export_body E F d fmt p m out fs" if "read_manifest E d h = Inr (Some m)" for m fs
    by (rule alike_body) (rule alike_rows(1) [OF assms(1) k that])
  have s: "write_meta E F d' p h s out fs = write_meta E F d p h s out fs" if "sc = Some s" for s fs
    using alike_sidecar [OF assms(1)] assms(2) by (simp add: write_meta_def fe that)
  show ?thesis
  proof (cases "must FileNotFoundError (read_manifest E d h)")
    case (Inr m)
    then have "export_body E F d' fmt p m out fs = export_body E F d fmt p m out fs" by (intro b) (simp add: must_Inr)
    with Inr m show ?thesis by (cases sc) (simp_all add: export_file_def fe s Let_def split: sum.split prod.split)
  qed (simp add: export_file_def fe m)
qed

lemma alike_export_all:
  "seen_alike E d d' w \<Longrightarrow> (\<And>x. x \<in> set items \<Longrightarrow> entry_held w (snd x) \<and> fst (snd x) = str ''manifest'') \<Longrightarrow>
   export_all E F d' fmt meta out items fs = export_all E F d fmt meta out items fs"
proof (induction items arbitrary: fs)
  case (Cons x items)
  then have "export_file E F d' fmt meta out x fs = export_file E F d fmt meta out x fs" for fs
    using alike_export_file [of E d d' w "snd x" F fmt meta out "fst x" fs] by simp
  with Cons show ?case by simp
qed simp

lemma alike_export:
  assumes "seen_alike E d d' w" "(KCommit, c) \<in> w"
  shows "export_commit E F d' c out filt fmt meta fs = export_commit E F d c out filt fmt meta fs"
proof (cases "commit_flat E d c")
  case (Inr flat)
  have "entry_held w (snd x) \<and> fst (snd x) = str ''manifest''" if "x \<in> set (export_selected filt flat)" for x
    using that alike_commit_flat(2) [OF assms Inr] by (auto simp: export_selected_def set_sorted_items)
  then have "export_all E F d' fmt meta out (export_selected filt flat) fs = export_all E F d fmt meta out (export_selected filt flat) fs"
    by (intro alike_export_all [OF assms(1)])
  then show ?thesis by (simp only: export_commit_def alike_commit_flat(1) [OF assms] Inr sum.case)
qed (simp add: export_commit_def alike_commit_flat(1) [OF assms])

section \<open>Blame\<close>

abbreviation rows_held :: "node set \<Rightarrow> manifest \<Rightarrow> bool" where
  "rows_held w m \<equiv> \<forall>h \<in> hashes m. (KRow, h) \<in> w"

lemma alike_manifest_for_file:
  assumes "seen_alike E d d' w" "(KCommit, c) \<in> w"
  shows "get_manifest_for_file E d' c fl = get_manifest_for_file E d c fl"
    and "get_manifest_for_file E d c fl = Inr (m, mh) \<Longrightarrow> rows_held w m"
proof -
  have k: "(KManifest, h) \<in> w" if "read_commit E d c = Inr (Some x)" "flatten_tree E d n (tree_hash x) [] = Inr flat"
      "map_of flat p = Some (str ''manifest'', h, sc)" for x n flat p h sc
    using entry_heldD(1) [OF alike_look [OF assms(1) alike_commit_refs(1) [OF assms that(1)] that(2,3)]] by blast
  have f: "flatten_tree E d' n (tree_hash x) [] = flatten_tree E d n (tree_hash x) []" if "read_commit E d c = Inr (Some x)" for x n
    using alike_flatten [OF assms(1) alike_commit_refs(1) [OF assms that]] .
  show "get_manifest_for_file E d' c fl = get_manifest_for_file E d c fl"
    unfolding get_manifest_for_file_def alike_loads(1) [OF assms]
    using f k alike_loads(3) [OF assms(1)] by (intro bindE_cong refl) (auto simp: must_Inr split: option.split)
  show "rows_held w m" if "get_manifest_for_file E d c fl = Inr (m, mh)"
  proof -
    from that obtain x flat ty h sc where x: "read_commit E d c = Inr (Some x)" "flatten_tree E d (rec_limit E) (tree_hash x) [] = Inr flat"
      "map_of flat (lstrip_slash fl) = Some (ty, h, sc)" and "ty = str ''manifest''" and m: "read_manifest E d h = Inr (Some m)"
      by (fastforce simp: get_manifest_for_file_def bindE_eq_Inr must_Inr split: option.split_asm if_split_asm)
    note x = x [unfolded \<open>ty = _\<close>]
    show ?thesis using alike_row_refs [OF assms(1) k [OF x] m] by (auto simp: hashes_def)
  qed
qed

lemma alike_try:
  assumes "seen_alike E d d' w" "(KCommit, c) \<in> w"
  shows "try_get_manifest E d' c fl = try_get_manifest E d c fl"
    and "try_get_manifest E d c fl = Inr (Some m) \<Longrightarrow> rows_held w m"
  using alike_manifest_for_file [OF assms, of fl]
  by (auto simp: try_get_manifest_def split: sum.split_asm if_split_asm)

lemma alike_content:
  "seen_alike E d d' w \<Longrightarrow> (KRow, h) \<in> w \<Longrightarrow> content_preview E d' n h = content_preview E d n h"
  by (simp add: content_preview_def alike_reads(4))

lemma alike_blame_loop:
  assumes "seen_alike E d d' w"
  shows "cur = [] \<or> (KCommit, cur) \<in> w \<Longrightarrow>
    blame_loop E d' fl target n cur cm U bm = blame_loop E d fl target n cur cm U bm"
proof (induction n arbitrary: cur cm U bm)
  case (Suc n)
  show ?case
  proof (cases "cur = []")
    case False
    with Suc.prems have k: "(KCommit, cur) \<in> w" by simp
    have "try_get_manifest E d' p fl = try_get_manifest E d p fl \<and>
        blame_loop E d' fl target n p pm U' bm' = blame_loop E d fl target n p pm U' bm'"
      if "read_commit E d cur = Inr (Some c)" "parent_hashes c = p # ps" for c p ps pm U' bm'
      using alike_try(1) [OF assms] Suc.IH alike_commit_refs(2) [OF assms k that(1), of p] that(2) by simp
    then show ?thesis
      by (auto simp: alike_loads(1) [OF assms k] bindE_def split: sum.split option.split list.split prod.split)
  qed simp
qed simp

lemma alike_blame:
  assumes "seen_alike E d d' w" "(KCommit, c) \<in> w"
  shows "blame_file E d' n c fl = blame_file E d n c fl"
  unfolding blame_file_def alike_manifest_for_file(1) [OF assms]
proof (rule bindE_cong [OF refl])
  fix t
  assume t: "get_manifest_for_file E d c fl = Inr t"
  have "mapE (blame_row E d' c bm) (zip [0..<length (entries (fst t))] (entries (fst t))) =
      mapE (blame_row E d c bm) (zip [0..<length (entries (fst t))] (entries (fst t)))" for bm
    using alike_manifest_for_file(2) [OF assms, of fl "fst t" "snd t"] t alike_content [OF assms(1)]
    by (intro mapE_cong) (auto simp: blame_row_def hashes_def dest: set_zip_rightD)
  with alike_blame_loop [OF assms(1)] assms(2)
  show "(case t of (target, x) \<Rightarrow> bindE (blame_loop E d' fl target n c target (hashes target) []) (\<lambda>bm.
        bindE (mapE (blame_row E d' c bm) (zip [0..<length (entries target)] (entries target))) (\<lambda>ls. Inr (g target ls)))) =
      (case t of (target, x) \<Rightarrow> bindE (blame_loop E d fl target n c target (hashes target) []) (\<lambda>bm.
        bindE (mapE (blame_row E d c bm) (zip [0..<length (entries target)] (entries target))) (\<lambda>ls. Inr (g target ls))))" for g
    by (cases t) simp
qed

text \<open>The old row of a refresh is a row of the old manifest.\<close>

lemma refreshed_old:
  assumes "diff_manifests old new = Inr r" "p \<in> set (refreshed r)"
  shows "fst p \<in> hashes old"
proof -
  let ?R = "{e \<in> set (entries old). row_hash e \<notin> hashes new}"
  let ?A = "{e \<in> set (entries new). row_hash e \<notin> hashes old}"
  let ?rr = "filter (\<lambda>e. row_hash e \<notin> hashes new) (entries old)"
  let ?ra = "filter (\<lambda>e. row_hash e \<notin> hashes old) (entries new)"
  have "refresh_inv ?R ?A (group_by_qfp ?rr, [], {}, {})"
    using group_by_qfp_ok [of ?rr] by (simp add: refresh_inv_def)
  from refresh_steps_inv [OF this, of ?ra] obtain g refr olds news where
    f: "foldE refresh_step ?ra (group_by_qfp ?rr, [], {}, {}) = Inr (g, refr, olds, news)"
    and inv: "\<forall>p \<in> set refr. refresh_of ?R ?A p"
    by (auto simp: refresh_inv_def)
  from assms(1) have "refreshed r = refr" by (auto simp: diff_manifests_def f Let_def split: if_split_asm)
  with inv assms(2) show ?thesis by (fastforce simp: refresh_of_def hashes_def)
qed

lemma alike_event:
  "seen_alike E d d' w \<Longrightarrow> (KRow, h) \<in> w \<Longrightarrow> make_event E d' cur c k h = make_event E d cur c k h"
  by (simp add: make_event_def alike_content)

lemma alike_history_loop:
  assumes "seen_alike E d d' w"
  shows "cur = [] \<or> (KCommit, cur) \<in> w \<Longrightarrow> (KRow, tracked) \<in> w \<Longrightarrow>
    history_loop E d' fl n cur cm tracked evs = history_loop E d fl n cur cm tracked evs"
proof (induction n arbitrary: cur cm tracked evs)
  case (Suc n)
  have ev: "make_event E d' cur c k tracked = make_event E d cur c k tracked" for c k
    using alike_event [OF assms Suc.prems(2)] .
  have root: "root_event E d' cur c cm tracked evs = root_event E d cur c cm tracked evs" for c by (simp add: root_event_def ev)
  show ?case
  proof (cases "cur = []")
    case False
    with Suc.prems have k: "(KCommit, cur) \<in> w" by simp
    have tr: "try_get_manifest E d' p fl = try_get_manifest E d p fl"
      if "read_commit E d cur = Inr (Some c)" "parent_hashes c = p # ps" for c p ps
      using alike_try(1) [OF assms] alike_commit_refs(2) [OF assms k that(1), of p] that(2) by simp
    have rest: "history_loop E d' fl n p pm h' evs' = history_loop E d fl n p pm h' evs'"
      if "read_commit E d cur = Inr (Some c)" "parent_hashes c = p # ps" "(KRow, h') \<in> w" for c p ps pm h' evs'
      using Suc.IH alike_commit_refs(2) [OF assms k that(1), of p] that(2,3) by simp
    have old: "(KRow, fst q) \<in> w \<and> fst (snd q) = tracked"
      if "read_commit E d cur = Inr (Some c)" "parent_hashes c = p # ps" "try_get_manifest E d p fl = Inr (Some pm)"
        "diff_manifests pm cm = Inr df" "List.find (\<lambda>p. fst (snd p) = tracked) (refreshed df) = Some q" for c p ps pm df q
    proof -
      have "(KCommit, p) \<in> w" using alike_commit_refs(2) [OF assms k that(1), of p] that(2) by simp
      moreover have "q \<in> set (refreshed df)" "fst (snd q) = tracked" using that(5) by (auto simp: find_Some_iff)
      ultimately show ?thesis using alike_try(2) [OF assms _ that(3)] refreshed_old [OF that(4)] by blast
    qed
    show ?thesis
    proof (cases "read_commit E d cur")
      case (Inr x)
      show ?thesis
      proof (cases "x = None \<or> parent_hashes (the x) = []")
        case False
        then obtain c p ps where c: "x = Some c" "parent_hashes c = p # ps" by (auto simp: neq_Nil_conv)
        note r = Inr [unfolded c(1)] c(2)
        show ?thesis
        proof (cases "try_get_manifest E d p fl")
          case t: (Inr y)
          show ?thesis
          proof (cases y)
            case (Some pm)
            show ?thesis
            proof (cases "diff_manifests pm cm")
              case df: (Inr df)
              show ?thesis
              proof (cases "List.find (\<lambda>p. fst (snd p) = tracked) (refreshed df)")
                case None
                with r t Some df show ?thesis
                  by (simp add: alike_loads(1) [OF assms k] tr [OF r] rest [OF r Suc.prems(2)] ev)
              next
                case q: (Some q)
                obtain a b e where e: "q = (a, b, e)" by (cases q)
                from old [OF r t [unfolded Some] df q] have "(KRow, a) \<in> w" "b = tracked" by (simp_all add: e)
                with r t Some df q show ?thesis
                  by (simp add: e alike_loads(1) [OF assms k] tr [OF r] rest [OF r] ev)
              qed
            qed (use r t Some in \<open>simp add: alike_loads(1) [OF assms k] tr [OF r]\<close>)
          qed (use r t in \<open>simp add: alike_loads(1) [OF assms k] tr [OF r] root\<close>)
        qed (use r in \<open>simp add: alike_loads(1) [OF assms k] tr [OF r]\<close>)
      qed (use Inr root in \<open>cases x; auto simp: alike_loads(1) [OF assms k]\<close>)
    qed (simp add: alike_loads(1) [OF assms k])
  qed simp
qed simp

lemma alike_row_history:
  assumes "seen_alike E d d' w" "(KCommit, c) \<in> w"
  shows "row_history E d' n c fl i = row_history E d n c fl i"
  unfolding row_history_def alike_manifest_for_file(1) [OF assms]
proof (rule bindE_cong [OF refl])
  fix t
  assume t: "get_manifest_for_file E d c fl = Inr t"
  obtain m mh where m: "t = (m, mh)" by (cases t)
  have "(KRow, row_hash (entries m ! nat i)) \<in> w" if "\<not> i < 0" "i < int (length (entries m))"
    using alike_manifest_for_file(2) [OF assms t [unfolded m]] that by (auto simp: hashes_def)
  with alike_history_loop [OF assms(1)] assms(2)
  show "(case t of (target, x) \<Rightarrow> if i < 0 \<or> int (length (entries target)) \<le> i then Inl IndexError
        else let e = entries target ! nat i in bindE (history_loop E d' fl n c target (row_hash e) []) (g e)) =
      (case t of (target, x) \<Rightarrow> if i < 0 \<or> int (length (entries target)) \<le> i then Inl IndexError
        else let e = entries target ! nat i in bindE (history_loop E d fl n c target (row_hash e) []) (g e))" for g
    by (simp add: m Let_def)
qed

section \<open>Log, paths and metadata\<close>

lemma alike_log:
  assumes "seen_alike E d d' w"
  shows "(KCommit, c) \<in> w \<Longrightarrow> log_chain E d' n V c = log_chain E d n V c"
proof (induction n arbitrary: V c)
  case (Suc n)
  have "log_chain E d' n V' p = log_chain E d n V' p" if "read_commit E d c = Inr (Some x)" "parent_hashes x = p # ps" for x p ps V'
    using Suc.IH alike_commit_refs(2) [OF assms Suc.prems that(1), of p] that(2) by simp
  then show ?case
    by (auto simp: alike_loads(1) [OF assms Suc.prems] bindE_def split: sum.split option.split list.split)
qed simp

lemma alike_resolve:
  assumes "seen_alike E d d' w" "(KTree, th) \<in> w"
  shows "resolve_path E d' th p = resolve_path E d th p" "resolve_entry E d' th p = resolve_entry E d th p"
    "resolve_entry E d th p = Inr (Some fe) \<Longrightarrow> entry_held w fe"
proof -
  have "read_tree E d' (te_hash e) = read_tree E d (te_hash e)"
    if "resolve_parts E d th ps = Inr (Some e)" "is_tree e" for ps e
    using alike_loads(2) [OF assms(1)] tree_held [OF alike_parts(2) [OF assms that(1)] that(2)] .
  then show "resolve_path E d' th p = resolve_path E d th p"
    by (auto simp: resolve_path_def alike_reads(2) [OF assms] alike_parts(1) [OF assms] bindE_def split: sum.split option.split)
  show "resolve_entry E d' th p = resolve_entry E d th p"
    by (simp add: resolve_entry_def alike_parts(1) [OF assms] Let_def)
  show "entry_held w fe" if "resolve_entry E d th p = Inr (Some fe)"
    using that alike_parts(2) [OF assms] by (auto simp: resolve_entry_def Let_def bindE_eq_Inr split: if_split_asm)
qed

lemma alike_summary:
  assumes "seen_alike E d d' w" "(KManifest, h) \<in> w"
  shows "summary_of E (\<lambda>_. d') (root, h) = summary_of E (\<lambda>_. d) (root, h)"
proof -
  have "mapE (sidecar_row E d') (entries m) = mapE (sidecar_row E d) (entries m)" if "read_manifest E d h = Inr (Some m)" for m
    using alike_rows(1) [OF assms that] by (intro mapE_cong) (simp_all add: sidecar_row_def)
  then have "compute_sidecar E d' h = compute_sidecar E d h"
    unfolding compute_sidecar_def alike_loads(3) [OF assms] by (intro bindE_cong refl) (simp add: must_Inr)
  then show ?thesis by (simp add: summary_of_def)
qed

section \<open>What the routes answer\<close>

lemma alike_listed:
  assumes "flat_at E d code c = Inr flat" "seen_alike E d d' w" "(KCommit, c) \<in> w" "listed_manifest flat p = Inr (h, sc)"
  shows "(KManifest, h) \<in> w" and "sc = Some x \<Longrightarrow> read_sidecar E d' x = read_sidecar E d x"
proof -
  from assms(4) obtain ty where m: "map_of flat p = Some (ty, h, sc)" "ty = str ''manifest''"
    by (auto simp: listed_manifest_def split: option.split_asm if_split_asm)
  note held = alike_flat_at(2) [OF assms(2,3,1) m(1)]
  show "(KManifest, h) \<in> w" using entry_heldD(1) [OF held m(2)] .
  show "read_sidecar E d' x = read_sidecar E d x" if "sc = Some x"
    using alike_sidecar [OF assms(2)] held that by blast
qed

lemma alike_get_log:
  assumes "seen_alike E d d' w" "\<And>r. r \<in> set (db_refs s) \<Longrightarrow> rf_repo r = rp_id R \<Longrightarrow> (KCommit, rf_target r) \<in> w"
    and R: "get_repo repo s = Inr R" and ref: "find_ref (rp_id R) ref s = Inr (Some r) \<or> (KCommit, ref) \<in> w"
  shows "get_log E tok repo ref limit offset s d' = get_log E tok repo ref limit offset s d"
proof -
  have "(KCommit, rf_target r) \<in> w" if "find_ref (rp_id R) ref s = Inr (Some r)" for r
    using that assms(2) by (fastforce simp: find_ref_def one_or_none_def split: list.split_asm dest: filter_eq_ConsD)
  then have "log_start E d' (rp_id R) ref s = log_start E d (rp_id R) ref s \<and>
      (\<forall>h. log_start E d (rp_id R) ref s = Inr h \<longrightarrow> (KCommit, h) \<in> w)"
    using ref alike_reads(1) [OF assms(1)]
    by (auto simp: log_start_def bindE_def split: sum.split option.split if_split)
  then show ?thesis using alike_log [OF assms(1)] R by (auto simp: get_log_def bindE_def split: sum.split)
qed

lemma alike_get_tree:
  assumes "seen_alike E d d' w" "(KCommit, c) \<in> w"
  shows "get_tree E tok repo c path s d' = get_tree E tok repo c path s d"
  unfolding get_tree_def alike_loads(1) [OF assms]
  using alike_resolve(1) [OF assms(1) alike_commit_refs(1) [OF assms]] by (intro bindE_cong refl) (simp add: must_Inr)

lemma alike_get_manifest:
  assumes "seen_alike E d d' w" "(KCommit, c) \<in> w"
  shows "get_manifest E tok repo c path offset limit s d' = get_manifest E tok repo c path offset limit s d"
  unfolding get_manifest_def alike_loads(1) [OF assms] Let_def
proof (intro bindE_cong refl)
  fix x
  assume "must (HTTPException 404) (read_commit E d c) = Inr x"
  then have t: "(KTree, tree_hash x) \<in> w" using alike_commit_refs(1) [OF assms] by (simp add: must_Inr)
  then show "must (HTTPException 404) (resolve_entry E d' (tree_hash x) (strip_slash path)) =
      must (HTTPException 404) (resolve_entry E d (tree_hash x) (strip_slash path))"
    using alike_resolve(2) [OF assms(1)] by simp
  fix fe :: flat_entry
  assume fe: "must (HTTPException 404) (resolve_entry E d (tree_hash x) (strip_slash path)) = Inr fe"
  obtain ty h sc where e: "fe = (ty, h, sc)" by (cases fe)
  have "read_manifest E d' h = read_manifest E d h" if "ty = str ''manifest''"
  proof -
    have "entry_held w (ty, h, sc)" using alike_resolve(3) [OF assms(1) t] fe by (simp add: must_Inr e)
    from alike_loads(3) [OF assms(1) entry_heldD(1) [OF this that]] show ?thesis .
  qed
  then show "(case fe of (ty, h, _) \<Rightarrow> if ty \<noteq> str ''manifest'' then Inl (HTTPException 404)
        else bindE (must (HTTPException 404) (read_manifest E d' h)) k) =
      (case fe of (ty, h, _) \<Rightarrow> if ty \<noteq> str ''manifest'' then Inl (HTTPException 404)
        else bindE (must (HTTPException 404) (read_manifest E d h)) k)" for k
    by (simp add: e)
qed

lemma alike_meta:
  assumes "seen_alike E d d' w" "(KCommit, c) \<in> w"
  shows "meta_summary_route E root tok repo c fl s d' = meta_summary_route E root tok repo c fl s d"
    "meta_get_route E tok repo c fl s d' = meta_get_route E tok repo c fl s d"
proof -
  note L = alike_listed [OF _ assms, of 404 _ "lstrip_slash fl"]
  show "meta_summary_route E root tok repo c fl s d' = meta_summary_route E root tok repo c fl s d"
    unfolding meta_summary_route_def alike_flat_at(1) [OF assms] Let_def
    by (intro bindE_cong refl) (use L(2) alike_summary [OF assms(1) L(1)] in \<open>auto split: option.split\<close>)
  show "meta_get_route E tok repo c fl s d' = meta_get_route E tok repo c fl s d"
    unfolding meta_get_route_def alike_flat_at(1) [OF assms]
    by (intro bindE_cong refl) (use L(2) in \<open>auto simp: must_Inr intro!: bindE_cong\<close>)
qed

section \<open>A collection goes unnoticed\<close>

text \<open>All that the refs given to a collection lead to is alike before and after it.\<close>

lemma gc_alike:
  assumes "gc E d refs index grace dry = Inr (r, d')"
  shows "seen_alike E d d' {n. \<exists>ref \<in> set refs. reaches E d (KCommit, ref) n}"
  unfolding seen_alike_def
proof (intro conjI ballI)
  fix n
  assume n: "n \<in> {n. \<exists>ref \<in> set refs. reaches E d (KCommit, ref) n}"
  then show "set (object_refs E d n) \<subseteq> {n. \<exists>ref \<in> set refs. reaches E d (KCommit, ref) n}" using reaches_ref by blast
  from n obtain ref where "ref \<in> set refs" "reaches E d (KCommit, ref) n" by blast
  with gc_keeps_walks [OF assms] walk_commit_objects_correct
  show "case n of (k, h) \<Rightarrow> store_read E d' (dir_name k) h = store_read E d (dir_name k) h" by fastforce
qed

lemma gc_route_alike:
  assumes "gc_route E admin repo hours dry s d = Inr (r, d')" and "get_repo repo s = Inr R"
  obtains w where "seen_alike E d d' w"
    and "\<And>f c. f \<in> set (db_refs s) \<Longrightarrow> rf_repo f = rp_id R \<Longrightarrow> ancestor E d c (rf_target f) \<Longrightarrow> (KCommit, c) \<in> w"
proof
  let ?refs = "repo_targets (rp_id R) s"
  from assms have "gc E d ?refs None (hours * 3600) dry = Inr (r, d')"
    by (auto simp: gc_route_def bindE_eq_Inr open_repo_Inr)
  then show "seen_alike E d d' {n. \<exists>ref \<in> set ?refs. reaches E d (KCommit, ref) n}" by (rule gc_alike)
  show "(KCommit, c) \<in> {n. \<exists>ref \<in> set ?refs. reaches E d (KCommit, ref) n}"
    if "f \<in> set (db_refs s)" "rf_repo f = rp_id R" "ancestor E d c (rf_target f)" for f c
    using ancestor_reaches [OF that(3)] that(1,2) by (auto simp: repo_targets_def)
qed



end
