(* ===== verification/Spec2Isabelle.thy ===== *)
theory Spec2Isabelle
  imports Dit_Fsck Dit_Finish Dit_Stats Dit_Local Dit_Approve Dit_Checkout Dit_Pulled Dit_Collected
begin

text \<open>
  A model of \<open>dit\<close>, a version control system for line-oriented data sets, after the
  Python package under \<open>src/dit/\<close>.

  \<^bold>\<open>The program.\<close> Rows of JSON data are described by manifests: the list of the hashes of the rows of
  one file. Manifests, the blobs of other files, the trees that hold the paths, the sidecars with
  per-row metadata and the commits are objects, kept under the SHA-256 of their bytes. A commit
  points at its parents and at a tree; branches, tags and HEAD point at commits. Everything else
  works over that graph: building and flattening trees, searching history, merging, difference,
  blame, statistics, search, deduplication, validation and export of the rows of a commit, removal of
  what no branch or tag reaches, verification of a store, and the transfer of objects to a server.

  \<^bold>\<open>Values.\<close> \<open>Dit_Prelude\<close>: a Python string is a list of code points, a dict with string keys an
  association list in insertion order, an exception the left side of a sum. \<open>Dit_Json\<close> models
  \<open>json.dumps\<close> and \<open>json.loads\<close> on the values the store writes, \<open>Dit_Text\<close> UTF-8, white space,
  universal newlines and \<open>str.find\<close>, \<open>Dit_Glob\<close> the shell patterns of \<open>fnmatch\<close>.

  \<^bold>\<open>Theories and code.\<close>
  \<^item> \<open>Dit_Objects\<close>: \<open>core/objects.py\<close>. Records for the dataclasses, serializers and deserializers;
    locale \<open>codec\<close>, interpreted on the five object kinds.
  \<^item> \<open>Dit_Store\<close>: \<open>core/store.py\<close>. The directory as a map from relative paths to files with a
    modification time; locales \<open>object_store\<close> and \<open>typed_store\<close> (their sum with \<open>codec\<close>),
    interpreted on the disk.
  \<^item> \<open>Dit_Tree\<close>: \<open>core/tree_walker.py\<close> and \<open>core/tree_builder.py\<close>. Nested trees as flat path maps and back.
  \<^item> \<open>Dit_Walk\<close>: \<open>core/walker.py\<close> and \<open>core/merge_base.py\<close>. Breadth- and depth-first searches with a
    visited set; locale \<open>finite_graph\<close>, interpreted on the commits and on the objects of a disk.
  \<^item> \<open>Dit_Diff\<close>, \<open>Dit_Merge\<close>: \<open>core/diff.py\<close>, \<open>core/merge.py\<close>. Rows and files, two and three ways.
  \<^item> \<open>Dit_Gc\<close>, \<open>Dit_Fsck\<close>: \<open>core/gc.py\<close>, \<open>core/fsck.py\<close>. Mark and sweep; hash and graph checks.
  \<^item> \<open>Dit_Rows\<close>: \<open>core/hash.py\<close>, \<open>utils/jsonl.py\<close>, \<open>core/workspace.py\<close>. Files of rows to manifests and back.
  \<^item> \<open>Dit_Sidecar\<close>, \<open>Dit_Cache\<close>: \<open>core/sidecar.py\<close>, \<open>core/runtime_metadata.py\<close>. Row metadata, and
    the cache of summaries that threads share, one transition for each locked block.
  \<^item> \<open>Dit_Blame\<close>, \<open>Dit_Finish\<close>: \<open>core/blame.py\<close>. Who introduced a row; the history walks end.
  \<^item> \<open>Dit_Query\<close>: \<open>core/dedup.py\<close>, \<open>core/search.py\<close>. Duplicates and full-text search.
  \<^item> \<open>Dit_Validate\<close>: \<open>core/validate.py\<close> and the loader of \<open>server/routes/validate_api.py\<close>.
  \<^item> \<open>Dit_Export\<close>, \<open>Dit_Stats\<close>: \<open>core/export.py\<close>, \<open>core/stats.py\<close>.
  \<^item> \<open>Dit_Refs\<close>: \<open>core/refs.py\<close>. Files and directories of refs; locale \<open>ref_map\<close>, the contract of a
    directory of named hashes, interpreted on the branches and, in \<open>Dit_Local\<close>, on the index.
  \<^item> \<open>Dit_Local\<close>: \<open>core/index.py\<close>, \<open>core/stat_cache.py\<close>, \<open>core/sparse.py\<close>, \<open>core/config.py\<close>.
  \<^item> \<open>Dit_Wire\<close>: \<open>core/remote.py\<close> and \<open>server/routes/objects.py\<close>. Batches of objects in base64.
  \<^item> \<open>Dit_Tables\<close>, \<open>Dit_Admin\<close>: \<open>server/models.py\<close>, \<open>auth.py\<close> and the routes on repositories, tokens,
    protection rules, reviewer rules, reviews, comments and webhooks. The data base is a record of
    tables, a table the list of its rows; a handler maps it to the new one and an answer.
  \<^item> \<open>Dit_Pulls\<close>: \<open>server/routes/refs.py\<close>, \<open>merge.py\<close>, \<open>pulls.py\<close>. A push is one step; a merge is two, the
    job that computes the merge and the update that moves the branch if it still is where it was.
  \<^item> \<open>Dit_Server\<close>, \<open>Dit_Approve\<close>: the server as a transition system over these steps, in any
    order; what protected branches keep, and what a merge that went through has satisfied.
  \<^item> \<open>Dit_Work\<close>: \<open>cli/main.py\<close>, the commands on one repository: \<open>init\<close>, \<open>config\<close>, \<open>add\<close>, \<open>commit\<close>, \<open>status\<close>,
    \<open>diff\<close>, \<open>branch\<close>, \<open>tag\<close>, \<open>checkout\<close>, \<open>switch\<close> and \<open>reset\<close>. The record \<open>repo\<close> holds what is below \<open>.dit\<close>
    and the working directory; a command maps it to the new one and a result or the error that
    ended it, so that what was written before the error stays written.
  \<^item> \<open>Dit_Commit\<close>, \<open>Dit_Checkout\<close>: what a commit records, what the check for changes finds, what a
    switch leaves in the working directory.
  \<^item> \<open>Dit_Combine\<close>: the commands \<open>merge\<close>, \<open>cherry-pick\<close>, \<open>meta compute\<close> and \<open>log\<close>. \<open>Dit_History\<close>: no command removes
    or changes an object; locale \<open>kept\<close>, the parts of a command and a relation they respect.
  \<^item> \<open>Dit_Fetch\<close>, \<open>Dit_Fetched\<close>: the downloads of \<open>fetch\<close>, \<open>pull\<close> and \<open>clone\<close>, and that a fetch is complete.
  \<^item> \<open>Dit_Sync\<close>: \<open>push\<close>, \<open>fetch\<close>, \<open>pull\<close>, \<open>clone\<close>, remotes and sparse checkouts on a \<open>session\<close>: the local
    repository and the server, whose handlers are those of \<open>Dit_Wire\<close>, \<open>Dit_Admin\<close> and \<open>Dit_Pulls\<close>.
    \<open>Dit_Pushed\<close>, \<open>Dit_Pulled\<close>: what a push and a pull leave on both sides. \<open>Dit_Session\<close>: sessions of commands
    as runs of the transition system of \<open>Dit_Server\<close>.
  \<^item> \<open>Dit_Routes\<close>: the routes that answer from the store: \<open>log\<close>, \<open>tree\<close>, \<open>manifest_api\<close>, \<open>diff_api\<close>, \<open>meta_api\<close>,
    \<open>blame_api\<close>, \<open>dedup_api\<close>, \<open>stats_api\<close>, \<open>search_api\<close>, \<open>validate_api\<close>, \<open>export_api\<close>, \<open>gc_api\<close> and \<open>fsck_api\<close>.
    \<open>Dit_Report\<close>: the commands that report on a commit, check the store and collect it.
    \<open>Dit_Collected\<close>: two stores that agree on a closed set of objects answer alike, and so a collection is not noticed.
  \<^item> \<open>Dit_Demo\<close>: a small repository the witnesses share.

  \<^bold>\<open>Outside the repository.\<close> The record \<open>env\<close> collects what the code calls and does not define:
  SHA-256, zstandard, JCS canonicalisation, the clock, the recursion limit of the interpreter, the
  order in which a set is traversed, \<open>str.lower\<close>. \<open>env_ok\<close> names what is relied on: a digest is 64
  hexadecimal digits and decompression inverts compression. That two byte strings
  do not share a digest is a hypothesis of the theorems that need it, and only on the objects at
  hand. \<open>pyfmt\<close> holds \<open>repr\<close> of floats and strings and rounding; the YAML and TOML readers and the size of
  a data frame in memory are arguments of the operations that use them.

  \<^bold>\<open>What the lemmas show.\<close>
  \<^item> Round trips: what is written is read back, typed (\<open>stored_objects_roundtrip\<close>); a flat map built
    into a nested tree flattens to itself; a file of rows checked out and added again gives the same
    manifest; a CSV export is read by the RFC 4180 reader as the same table; a batch of uploads arrives.
  \<^item> Exactness: the searches reach what the graph reaches, the collector deletes what is old and unreachable,
    verification reports the errors there are and no others, the queries report what a direct
    reading of the rows gives.
  \<^item> Three-way merging keeps, drops and reports the rows the declarative reading says, on manifests
    whose rows share an order; the cases it loses are \<open>merge_row_losses\<close>.
  \<^item> Streaming and batch building of manifests agree; batch writes equal a loop of writes.
  \<^item> Requests pass only with a token of enough level; a branch protected against rewriting only moves
    forward, however pushes and merges interleave; merges have the approvals their branch asks for.
  \<^item> A commit records the staged changes over its parent; a switch leaves the files of the target's tree;
    a fetch without error leaves nothing out that the server has.
  \<^item> After a push the server's branch is the local tip and the server has all it leads to; a pull moves the
    branch forward to the server's tip. No sequence of commands loses an object, and what the server goes
    through meanwhile is a run of its own transition system, so that its invariants hold on.
  \<^item> The pages of the server's log are parts of one walk along first parents (\<open>log_pages\<close>), its diff lists the
    paths that differ (\<open>diff_route_paths\<close>), a collection keeps what the refs it is given lead to
    (\<open>gc_route_keeps_refs\<close>, \<open>cli_gc_keeps_refs\<close>), so that the read routes answer as before
    (\<open>gc_route_alike\<close> and the lemmas on \<open>seen_alike\<close>), and forgets a detached HEAD (\<open>gc_forgets_detached_head\<close>).
  \<^item> The thread cache holds right summaries in every reachable state and the calls finish, unless
    the cache is cleared under a waiter (\<open>clear_strands_waiter\<close>).

  \<^bold>\<open>Recursion and fuel.\<close> A function that recurses in Python takes the recursion limit as fuel and ends
  in \<open>RecursionError\<close>, as the interpreter does. Loops with a visited set terminate by the number of
  objects on the disk (\<open>function\<close> with a measure). The two history loops of blame take fuel, and
  \<open>history_walks_end\<close> proves that the number of ancestors is enough. The command \<open>log\<close> takes two more than the
  number of stored names, which the same theorem shows to be enough; the route \<open>log\<close> recurses over the
  number of commits it is asked for. The JSON parser takes the length of its
  text as fuel, which \<open>stored_objects_roundtrip\<close> shows to be enough for what the store writes.

  \<^bold>\<open>Not modelled.\<close> \<open>auth login\<close>, which writes a file nothing reads, \<open>serve\<close>, and the search for the directory
  of the repository; what commands print beyond the values they print from; the HTTP calls of webhooks; the
  JSON form of the server's answers; FastAPI, SQLAlchemy, Prometheus and alembic; terminal styling; the script
  \<open>scripts/extract_conversation.py\<close>, which is not part of the program. Of the tables, time stamps and length
  limits are left out. URLs, tokens and names outside plain ASCII end in \<open>Malformed\<close>. Temporary files and
  permissions are left out; of failing
  file operations there is only a file where a directory is needed and the reverse. There are no
  empty directories in the working directory. Processes that work on one store at
  the same time are left out, except for the thread cache and the server's merges; while a command of
  \<open>Dit_Sync\<close> runs the server serves nobody else; a merge job is
  taken to leave the commits of the store in place (\<open>commit_kept\<close>). A collection of the server's store is a
  handler of \<open>Dit_Routes\<close> and no step of the transition system, in which objects are never removed. The time
  stamp a written file gets is a parameter of the commands.
\<close>

end
